(* ===== verification/Prelude.thy ===== *)
theory Prelude
  imports Main "HOL-Library.Code_Target_Nat" "HOL-Library.Word"
begin

unbundle bit_operations_syntax

text \<open>
  The vocabulary every theory of this development shares: the machine integers of the Rust
  source as words, a fallible result as a sum whose left side is the error, the sequencing
  of fallible steps that the source writes with the question-mark operator, and the generic facts on
  lists, bits and bytes the component proofs rest on.
\<close>

section \<open>Types\<close>

type_synonym u8 = "8 word"
type_synonym u16 = "16 word"
type_synonym u32 = "32 word"
type_synonym u64 = "64 word"
type_synonym bytes = "8 word list"

named_theorems codec_simps \<open>unfolding rules for the small wrappers of the codecs\<close>
named_theorems session_simps \<open>unfolding rules for the session components\<close>

section \<open>Fallible results\<close>

text \<open>
  \<open>ebind\<close> is the propagation of an \<open>Err\<close> by the question-mark operator: the first error ends
  the computation, a value is handed to the rest of it.
\<close>

definition ebind :: "'e + 'a \<Rightarrow> ('a \<Rightarrow> 'e + 'b) \<Rightarrow> 'e + 'b" where
  "ebind m f = (case m of Inl e \<Rightarrow> Inl e | Inr x \<Rightarrow> f x)"

declare ebind_def [code_unfold]

lemma ebind_simps [simp]:
  "ebind (Inl e) f = Inl e"
  "ebind (Inr x) f = f x"
  by (simp_all add: ebind_def)

lemma ebind_eq_Inr: "ebind m f = Inr y \<longleftrightarrow> (\<exists>x. m = Inr x \<and> f x = Inr y)"
  by (cases m) simp_all

lemma ebind_eq_Inl: "ebind m f = Inl e \<longleftrightarrow> m = Inl e \<or> (\<exists>x. m = Inr x \<and> f x = Inl e)"
  by (cases m) simp_all

lemma ebind_assoc: "ebind (ebind m f) g = ebind m (\<lambda>x. ebind (f x) g)"
  by (cases m) simp_all

lemma ebind_cong [fundef_cong]:
  assumes "m = m'" and "\<And>x. m' = Inr x \<Longrightarrow> f x = f' x"
  shows "ebind m f = ebind m' f'"
  using assms by (cases m') simp_all

definition ok_or :: "'a option \<Rightarrow> 'e \<Rightarrow> 'e + 'a" where
  "ok_or m e = (case m of None \<Rightarrow> Inl e | Some x \<Rightarrow> Inr x)"

lemma ok_or_simps [simp]:
  "ok_or None e = Inl e"
  "ok_or (Some x) e = Inr x"
  by (simp_all add: ok_or_def)

lemma ok_or_eq_Inr: "ok_or m e = Inr x \<longleftrightarrow> m = Some x"
  by (cases m) simp_all

section \<open>Bytes as bits, most significant bit first\<close>

text \<open>
  The bits of a byte slice in the order EXI's bit-packed alignment uses: bit \<open>i\<close> of the stream
  is bit \<open>7 - i mod 8\<close> of byte \<open>i div 8\<close>.
\<close>

definition bits_of :: "bytes \<Rightarrow> bool list" where
  "bits_of xs = map (\<lambda>i. bit (xs ! (i div 8)) (7 - i mod 8)) [0..<8 * length xs]"

lemma length_bits_of [simp]: "length (bits_of xs) = 8 * length xs"
  by (simp add: bits_of_def)

lemma bits_of_nth: "i < 8 * length xs \<Longrightarrow> bits_of xs ! i = bit (xs ! (i div 8)) (7 - i mod 8)"
  by (simp add: bits_of_def)

lemma bits_of_Nil [simp]: "bits_of [] = []"
  by (simp add: bits_of_def)

lemma bits_of_take: "bits_of (take n xs) = take (8 * n) (bits_of xs)"
proof (rule nth_equalityI)
  fix i
  assume "i < length (bits_of (take n xs))"
  then have "i < 8 * length xs" and "i < 8 * n" and "i div 8 < n" by auto
  then show "bits_of (take n xs) ! i = take (8 * n) (bits_of xs) ! i"
    by (simp add: bits_of_nth)
qed simp

lemma bits_of_inj:
  assumes "bits_of xs = bits_of ys"
  shows "xs = ys"
proof (rule nth_equalityI)
  show len: "length xs = length ys" using arg_cong [OF assms, of length] by simp
  fix i
  assume i: "i < length xs"
  show "xs ! i = ys ! i"
  proof (rule bit_word_eqI)
    fix k
    assume "k < LENGTH(8)"
    define j where "j = 7 - k"
    then have j: "j < 8" "7 - j = k" using \<open>k < LENGTH(8)\<close> by simp_all
    then have "(8 * i + j) div 8 = i" "(8 * i + j) mod 8 = j" "8 * i + j < 8 * length xs" using i by simp_all
    then show "bit (xs ! i) k = bit (ys ! i) k"
      using arg_cong [OF assms, of "\<lambda>bs. bs ! (8 * i + j)"] len j(2) by (simp add: bits_of_nth)
  qed
qed

lemma bits_of_append: "bits_of (xs @ ys) = bits_of xs @ bits_of ys"
proof (rule nth_equalityI)
  fix i
  assume i: "i < length (bits_of (xs @ ys))"
  show "bits_of (xs @ ys) ! i = (bits_of xs @ bits_of ys) ! i"
  proof (cases "i < 8 * length xs")
    case True
    then have "i div 8 < length xs" by (simp add: less_mult_imp_div_less algebra_simps)
    with True i show ?thesis by (simp add: bits_of_nth nth_append)
  next
    case False
    then obtain k where k: "i = 8 * length xs + k" using le_Suc_ex not_less by blast
    have "(8 * length xs + k) div 8 = length xs + k div 8" and "(8 * length xs + k) mod 8 = k mod 8"
      by simp_all
    with k i show ?thesis by (simp add: bits_of_nth nth_append)
  qed
qed simp

text \<open>The low \<open>n\<close> bits of an integer, most significant first: what \<open>write_bits\<close> puts out.\<close>

definition msb_bits :: "nat \<Rightarrow> u64 \<Rightarrow> bool list" where
  "msb_bits n v = map (bit v) (rev [0..<n])"

lemma length_msb_bits [simp]: "length (msb_bits n v) = n"
  by (simp add: msb_bits_def)

lemma msb_bits_0 [simp]: "msb_bits 0 v = []"
  by (simp add: msb_bits_def)

lemma msb_bits_Suc: "msb_bits (Suc n) v = bit v n # msb_bits n v"
  by (simp add: msb_bits_def)

lemma msb_bits_snoc: "msb_bits (Suc n) v = msb_bits n (drop_bit 1 v) @ [bit v 0]"
proof -
  have "rev [0..<Suc n] = rev (map Suc [0..<n]) @ [0]"
    by (simp only: map_Suc_upt upt_conv_Cons rev.simps zero_less_Suc One_nat_def)
  then show ?thesis by (simp add: msb_bits_def rev_map comp_def bit_drop_bit_eq)
qed

text \<open>Reading the bits back: the accumulator of \<open>read_bits\<close>.\<close>

definition acc_bits :: "u64 \<Rightarrow> bool list \<Rightarrow> u64" where
  "acc_bits a bs = foldl (\<lambda>acc b. push_bit 1 acc OR of_bool b) a bs"

lemma acc_bits_simps [simp]:
  "acc_bits a [] = a"
  "acc_bits a (b # bs) = acc_bits (push_bit 1 a OR of_bool b) bs"
  by (simp_all add: acc_bits_def)

lemma acc_bits_snoc: "acc_bits a (bs @ [b]) = push_bit 1 (acc_bits a bs) OR of_bool b"
  by (simp add: acc_bits_def)

lemma drop_one_restore: "push_bit 1 (drop_bit 1 v) OR of_bool (bit v 0) = (v :: u64)"
proof (rule bit_eqI)
  fix n
  show "bit (push_bit 1 (drop_bit 1 v) OR of_bool (bit v 0)) n = bit v n"
    by (cases n) (auto simp: bit_simps simp del: push_bit_of_1 push_bit_Suc dest: bit_imp_le_length)
qed

lemma acc_bits_msb:
  assumes "n \<le> 64" and "drop_bit n v = 0"
  shows "acc_bits 0 (msb_bits n v) = v"
  using assms
proof (induction n arbitrary: v)
  case 0
  then show ?case by simp
next
  case (Suc n)
  from Suc.prems have "drop_bit n (drop_bit 1 v) = 0" by (simp add: drop_bit_drop_bit add.commute)
  with Suc have "acc_bits 0 (msb_bits n (drop_bit 1 v)) = drop_bit 1 v" by simp
  then show ?case by (simp only: msb_bits_snoc acc_bits_snoc drop_one_restore)
qed

lemma drop_bit_eq_0_iff: "drop_bit n (v :: 'a::len word) = 0 \<longleftrightarrow> unat v < 2 ^ n"
proof -
  have "drop_bit n v = 0 \<longleftrightarrow> unat (drop_bit n v) = 0" by (simp add: unat_eq_zero)
  also have "\<dots> \<longleftrightarrow> unat v < 2 ^ n"
    by (simp only: unat_drop_bit_eq) (simp add: drop_bit_eq_div div_eq_0_iff)
  finally show ?thesis .
qed

lemma pad_decreases: "0 < k mod 8 \<Longrightarrow> (8 - Suc k mod 8) mod 8 < 8 - k mod (8 :: nat)"
  using mod_less_divisor [of 8 k] by (auto simp: mod_Suc)

lemma and_one_eq_bit: "drop_bit i v AND 1 = 1 \<longleftrightarrow> bit (v :: 'a::len word) i"
  by (simp add: and_one_eq bit_iff_odd_drop_bit odd_iff_mod_2_eq_one)

section \<open>Widening and narrowing of machine integers\<close>

lemma unat_u8_less: "unat (b :: u8) < 256"
  using unsigned_less [of b] by simp

lemma unat_u64_less: "unat (v :: u64) < 2 ^ 64"
  using unsigned_less [of v] by simp

lemma unat_widen_u8 [simp]: "unat (ucast b :: u64) = unat (b :: u8)"
  using unat_u8_less [of b] by (simp add: unsigned_ucast_eq take_bit_nat_eq_self)

lemma narrow_widen_u8 [simp]: "ucast (ucast b :: u64) = (b :: u8)"
  by (rule bit_word_eqI) (simp add: bit_simps)

lemma narrow_u8_eq: "unat (v :: u64) = unat (b :: u8) \<Longrightarrow> ucast v = b"
  by (metis narrow_widen_u8 unat_widen_u8 unsigned_word_eqI)

text \<open>
  A signed integer of the source is an \<open>int\<close> with its range; conversions that can fail return an
  option. A \<open>usize\<close> is a \<open>nat\<close>, and the target is a 64-bit one: \<open>usize::try_from\<close> of a \<open>u64\<close> never
  fails, and the saturating product stops at \<open>usize::MAX\<close>.
\<close>

definition i64_range :: "int \<Rightarrow> bool" where
  "i64_range v \<longleftrightarrow> - (2 ^ 63) \<le> v \<and> v < 2 ^ 63"

definition i64_try_from :: "u64 \<Rightarrow> int option" where
  "i64_try_from m = (if unat m < 2 ^ 63 then Some (int (unat m)) else None)"

definition checked_i64 :: "int \<Rightarrow> int option" where
  "checked_i64 v = (if i64_range v then Some v else None)"

definition usize_max :: nat where
  "usize_max = 2 ^ 64 - 1"

definition MAX_EXI_PAYLOAD_LEN :: nat where
  "MAX_EXI_PAYLOAD_LEN = 1024 * 1024"

definition saturating_mul :: "nat \<Rightarrow> nat \<Rightarrow> nat" where
  "saturating_mul a b = min (a * b) usize_max"

definition saturating_add :: "nat \<Rightarrow> nat \<Rightarrow> nat" where
  "saturating_add a b = min (a + b) usize_max"

definition checked_mul_u64 :: "u64 \<Rightarrow> u64 \<Rightarrow> u64 option" where
  "checked_mul_u64 a b = (if unat a * unat b < 2 ^ 64 then Some (a * b) else None)"

definition checked_add_u64 :: "u64 \<Rightarrow> u64 \<Rightarrow> u64 option" where
  "checked_add_u64 a b = (if unat a + unat b < 2 ^ 64 then Some (a + b) else None)"

lemma checked_mul_u64_Some: "checked_mul_u64 a b = Some c \<Longrightarrow> unat c = unat a * unat b"
  by (auto simp: checked_mul_u64_def unat_word_ariths split: if_splits)

lemma checked_add_u64_Some: "checked_add_u64 a b = Some c \<Longrightarrow> unat c = unat a + unat b"
  by (auto simp: checked_add_u64_def unat_word_ariths split: if_splits)

lemma checked_mul_u64_fits:
  "unat a * unat b < 2 ^ 64 \<Longrightarrow> checked_mul_u64 a b = Some (a * b) \<and> unat (a * b) = unat a * unat b"
  by (simp add: checked_mul_u64_def unat_word_ariths)

lemma checked_add_u64_fits:
  "unat a + unat b < 2 ^ 64 \<Longrightarrow> checked_add_u64 a b = Some (a + b) \<and> unat (a + b) = unat a + unat b"
  by (simp add: checked_add_u64_def unat_word_ariths)

lemma saturating_mul_le: "saturating_mul a b \<le> a * b"
  by (simp add: saturating_mul_def)

lemma unat_of_nat_u64: "n < 2 ^ 64 \<Longrightarrow> unat (of_nat n :: u64) = n"
  by (simp add: unsigned_of_nat take_bit_nat_eq_self)

lemma unat_of_int_u64: "0 \<le> v \<Longrightarrow> v < 2 ^ 64 \<Longrightarrow> unat (of_int v :: u64) = nat v"
  by (simp add: unsigned_of_int take_bit_int_eq_self)

lemma and_7F [simp]: "(v :: 'a::len word) AND 127 = take_bit 7 v"
  by (simp add: take_bit_eq_mask mask_eq_exp_minus_1)

lemma take_drop_bit_or: "take_bit n v OR push_bit n (drop_bit n v) = (v :: 'a::len word)"
proof (rule bit_word_eqI)
  fix k
  show "bit (take_bit n v OR push_bit n (drop_bit n v)) k = bit v k" if "k < LENGTH('a)"
    using that by (cases "k < n") (auto simp: bit_simps)
qed

lemma bit_word_odd: "bit (v :: 'a::len word) m \<longleftrightarrow> odd (unat v div 2 ^ m)"
proof -
  have "bit v m \<longleftrightarrow> bit (unat v) m" by (simp add: bit_simps)
  then show ?thesis by (simp add: bit_iff_odd)
qed

lemma bit_u8_80: "bit (0x80 :: u8) k \<longleftrightarrow> k = 7"
proof -
  have "(0x80 :: u8) = 2 ^ 7" by simp
  then show ?thesis by (simp only: bit_exp_iff) auto
qed

end
