(* ===== verification/Bitstream.thy ===== *)
theory Bitstream
  imports Prelude
begin

unbundle bit_operations_syntax

text \<open>
  The bit-level writer and reader of \<open>src/src/exi/bitstream.rs\<close>, and the error type of
  \<open>src/src/exi/error.rs\<close>. Both work over a caller's slice, here a list of bytes, with an absolute
  bit position; a \<open>usize\<close> is a \<open>nat\<close>. A failing operation ends the codec (every caller propagates
  the error), so the state is returned on success only.

  \<open>written\<close> and \<open>unread\<close> read the two states as lists of bits, and the closing section proves that
  every operation is the corresponding list operation: \<open>write_bit\<close> appends one bit, \<open>read_bit\<close> takes
  one off, \<open>pad_to_byte\<close> appends the zero bits up to the next byte boundary and \<open>skip_padding\<close>
  accepts exactly those.
\<close>

section \<open>Errors\<close>

datatype exi_error =
    OutputFull
  | UnexpectedEnd
  | NonZeroPadding
  | IntegerOverflow
  | ValueTooLong
  | ValueTooShort
  | InvalidCodePoint
  | InvalidFloat
  | InvalidDateTime
  | BadHeader
  | UnknownEventCode
  | BadStringTableIndex
  | UnknownEnumValue
  | ValueOutOfRange
  | TrailingData
  | MissingElement
  | UnsupportedOption
  | DepthLimitExceeded

section \<open>The writer\<close>

record bit_writer =
  w_buf :: bytes
  w_pos :: nat

definition bw_new :: "bytes \<Rightarrow> bit_writer" where
  "bw_new buf = \<lparr>w_buf = buf, w_pos = 0\<rparr>"

definition bw_bit_len :: "bit_writer \<Rightarrow> nat" where
  "bw_bit_len w = w_pos w"

definition bw_byte_len :: "bit_writer \<Rightarrow> nat" where
  "bw_byte_len w = (w_pos w + 7) div 8"

definition bw_is_aligned :: "bit_writer \<Rightarrow> bool" where
  "bw_is_aligned w \<longleftrightarrow> w_pos w mod 8 = 0"

definition write_bit :: "bool \<Rightarrow> bit_writer \<Rightarrow> exi_error + bit_writer" where
  "write_bit b w =
     (let byte = w_pos w div 8; off = w_pos w mod 8 in
      if byte < length (w_buf w) then
        let slot = w_buf w ! byte;
            slot = (if off = 0 then 0 else slot);
            slot = (if b then slot OR push_bit (7 - off) 1 else slot)
        in Inr (w\<lparr>w_buf := (w_buf w)[byte := slot], w_pos := w_pos w + 1\<rparr>)
      else Inl OutputFull)"

text \<open>The loop \<open>for i in (0..n).rev()\<close> of \<open>write_bits\<close>: bit \<open>n - 1\<close> first.\<close>

fun write_bits :: "u64 \<Rightarrow> nat \<Rightarrow> bit_writer \<Rightarrow> exi_error + bit_writer" where
  "write_bits v 0 w = Inr w"
| "write_bits v (Suc n) w = ebind (write_bit (drop_bit n v AND 1 = 1) w) (write_bits v n)"

definition write_byte :: "u8 \<Rightarrow> bit_writer \<Rightarrow> exi_error + bit_writer" where
  "write_byte b w = write_bits (ucast b) 8 w"

fun write_bytes :: "bytes \<Rightarrow> bit_writer \<Rightarrow> exi_error + bit_writer" where
  "write_bytes [] w = Inr w"
| "write_bytes (b # bs) w = ebind (write_byte b w) (write_bytes bs)"

lemma write_bit_pos: "write_bit b w = Inr w' \<Longrightarrow> w_pos w' = Suc (w_pos w)"
  by (auto simp: write_bit_def Let_def split: if_splits)

function pad_to_byte :: "bit_writer \<Rightarrow> exi_error + bit_writer" where
  "pad_to_byte w = (if bw_is_aligned w then Inr w else ebind (write_bit False w) pad_to_byte)"
  by pat_completeness auto
termination
proof (relation "measure (\<lambda>w. (8 - w_pos w mod 8) mod 8)", goal_cases)
  case (2 w w')
  then have "w_pos w' = Suc (w_pos w)" and "w_pos w mod 8 \<noteq> 0"
    by (auto simp: write_bit_pos bw_is_aligned_def)
  then show ?case by (simp add: pad_decreases)
qed simp

declare pad_to_byte.simps [simp del]

text \<open>\<open>finish\<close> consumes the writer: the caller keeps the length and its slice.\<close>

definition bw_finish :: "bit_writer \<Rightarrow> exi_error + (nat \<times> bytes)" where
  "bw_finish w = ebind (pad_to_byte w) (\<lambda>w'. Inr (bw_byte_len w', w_buf w'))"

section \<open>The reader\<close>

record bit_reader =
  r_buf :: bytes
  r_pos :: nat

definition br_new :: "bytes \<Rightarrow> bit_reader" where
  "br_new buf = \<lparr>r_buf = buf, r_pos = 0\<rparr>"

definition br_bit_pos :: "bit_reader \<Rightarrow> nat" where
  "br_bit_pos r = r_pos r"

definition bits_remaining :: "bit_reader \<Rightarrow> nat" where
  "bits_remaining r = length (r_buf r) * 8 - r_pos r"

definition br_is_aligned :: "bit_reader \<Rightarrow> bool" where
  "br_is_aligned r \<longleftrightarrow> r_pos r mod 8 = 0"

definition read_bit :: "bit_reader \<Rightarrow> exi_error + (bool \<times> bit_reader)" where
  "read_bit r =
     (let byte = r_pos r div 8; off = r_pos r mod 8 in
      if byte < length (r_buf r) then
        let slot = r_buf r ! byte
        in Inr (drop_bit (7 - off) slot AND 1 = 1, r\<lparr>r_pos := r_pos r + 1\<rparr>)
      else Inl UnexpectedEnd)"

fun read_bits_loop :: "nat \<Rightarrow> u64 \<Rightarrow> bit_reader \<Rightarrow> exi_error + (u64 \<times> bit_reader)" where
  "read_bits_loop 0 acc r = Inr (acc, r)"
| "read_bits_loop (Suc n) acc r =
     ebind (read_bit r) (\<lambda>(b, r'). read_bits_loop n (push_bit 1 acc OR of_bool b) r')"

definition read_bits :: "nat \<Rightarrow> bit_reader \<Rightarrow> exi_error + (u64 \<times> bit_reader)" where
  "read_bits n r = (if n > bits_remaining r then Inl UnexpectedEnd else read_bits_loop n 0 r)"

definition read_byte :: "bit_reader \<Rightarrow> exi_error + (u8 \<times> bit_reader)" where
  "read_byte r = ebind (read_bits 8 r) (\<lambda>(v, r'). Inr (ucast v, r'))"

text \<open>
  \<open>read_bytes\<close> fills a slice of the length given; the model returns the bytes it fills it with.
\<close>

fun read_bytes_loop :: "nat \<Rightarrow> bit_reader \<Rightarrow> exi_error + (bytes \<times> bit_reader)" where
  "read_bytes_loop 0 r = Inr ([], r)"
| "read_bytes_loop (Suc n) r =
     ebind (read_byte r) (\<lambda>(b, r').
     ebind (read_bytes_loop n r') (\<lambda>(bs, r''). Inr (b # bs, r'')))"

definition read_bytes :: "nat \<Rightarrow> bit_reader \<Rightarrow> exi_error + (bytes \<times> bit_reader)" where
  "read_bytes n r = (if saturating_mul n 8 > bits_remaining r then Inl UnexpectedEnd else read_bytes_loop n r)"

lemma read_bit_pos: "read_bit r = Inr (b, r') \<Longrightarrow> r' = r\<lparr>r_pos := Suc (r_pos r)\<rparr>"
  by (auto simp: read_bit_def Let_def split: if_splits)

function skip_padding :: "bit_reader \<Rightarrow> exi_error + bit_reader" where
  "skip_padding r =
     (if br_is_aligned r then Inr r
      else ebind (read_bit r) (\<lambda>(b, r'). if b then Inl NonZeroPadding else skip_padding r'))"
  by pat_completeness auto
termination
proof (relation "measure (\<lambda>r. (8 - r_pos r mod 8) mod 8)", goal_cases)
  case (2 r x b r')
  then have "r_pos r' = Suc (r_pos r)" and "r_pos r mod 8 \<noteq> 0"
    by (auto simp: br_is_aligned_def dest: read_bit_pos)
  then show ?case by (simp add: pad_decreases)
qed simp

declare skip_padding.simps [simp del]

section \<open>The states as lists of bits\<close>

definition written :: "bit_writer \<Rightarrow> bool list" where
  "written w = take (w_pos w) (bits_of (w_buf w))"

definition unread :: "bit_reader \<Rightarrow> bool list" where
  "unread r = drop (r_pos r) (bits_of (r_buf r))"

text \<open>
  The writer's invariant has two parts: the position is inside the buffer, and the rest of a byte
  that is partly written is zero. The second is what \<open>write_bit\<close> relies on when it writes a zero bit
  by leaving the slot alone, and what it establishes by clearing a byte on first touch.
\<close>

definition wf_writer :: "bit_writer \<Rightarrow> bool" where
  "wf_writer w \<longleftrightarrow> w_pos w \<le> 8 * length (w_buf w) \<and>
     (0 < w_pos w mod 8 \<longrightarrow>
        (\<forall>k<8. w_pos w mod 8 \<le> k \<longrightarrow> \<not> bit (w_buf w ! (w_pos w div 8)) (7 - k)))"

definition wf_reader :: "bit_reader \<Rightarrow> bool" where
  "wf_reader r \<longleftrightarrow> r_pos r \<le> 8 * length (r_buf r)"

lemma bw_new_simps [simp]: "w_buf (bw_new buf) = buf" "w_pos (bw_new buf) = 0"
  by (simp_all add: bw_new_def)

lemma br_new_simps [simp]: "r_buf (br_new buf) = buf" "r_pos (br_new buf) = 0"
  by (simp_all add: br_new_def)

lemma wf_bw_new [simp]: "wf_writer (bw_new buf)"
  by (simp add: wf_writer_def bw_new_def)

lemma wf_br_new [simp]: "wf_reader (br_new buf)"
  by (simp add: wf_reader_def br_new_def)

lemma written_new [simp]: "written (bw_new buf) = []"
  by (simp add: written_def bw_new_def)

lemma unread_new [simp]: "unread (br_new buf) = bits_of buf"
  by (simp add: unread_def br_new_def)

lemma length_written: "wf_writer w \<Longrightarrow> length (written w) = w_pos w"
  by (simp add: written_def wf_writer_def)

lemma bits_remaining_unread: "bits_remaining r = length (unread r)"
  by (simp add: bits_remaining_def unread_def)

lemma unread_advance: "unread (r\<lparr>r_pos := r_pos r + n\<rparr>) = drop n (unread r)"
  by (simp add: unread_def add.commute)

section \<open>Each operation as a list operation\<close>

lemma slot_bit:
  assumes "off < 8" and "k < 8"
  shows "bit (if b then s OR push_bit (7 - off) 1 else s) (7 - k) \<longleftrightarrow>
           bit (s :: u8) (7 - k) \<or> b \<and> k = off"
  using assms by (auto simp: bit_simps)

lemma slot_after:
  assumes wf: "wf_writer w" and k: "k < 8"
    and s: "s = (if w_pos w mod 8 = 0 then 0 else w_buf w ! (w_pos w div 8))"
    and slot: "slot = (if b then s OR push_bit (7 - w_pos w mod 8) 1 else s)"
  shows "bit slot (7 - k) \<longleftrightarrow>
    (if k < w_pos w mod 8 then bit (w_buf w ! (w_pos w div 8)) (7 - k)
     else b \<and> k = w_pos w mod 8)"
proof -
  have "w_pos w mod 8 \<le> k \<Longrightarrow> \<not> bit s (7 - k)"
    using wf k s by (simp add: wf_writer_def)
  moreover have "bit slot (7 - k) \<longleftrightarrow> bit s (7 - k) \<or> b \<and> k = w_pos w mod 8"
    unfolding slot by (rule slot_bit) (simp_all add: k)
  ultimately show ?thesis using s by auto
qed

lemma write_bit_refines:
  assumes wf: "wf_writer w" and room: "w_pos w < 8 * length (w_buf w)"
  shows "\<exists>w'. write_bit b w = Inr w' \<and> w_pos w' = Suc (w_pos w) \<and> wf_writer w'
           \<and> length (w_buf w') = length (w_buf w) \<and> written w' = written w @ [b]"
proof -
  define p buf where "p = w_pos w" and "buf = w_buf w"
  define s where "s = (if p mod 8 = 0 then 0 else buf ! (p div 8))"
  define slot where "slot = (if b then s OR push_bit (7 - p mod 8) 1 else s)"
  define w' where "w' = w\<lparr>w_buf := buf[p div 8 := slot], w_pos := Suc p\<rparr>"
  note defs = p_def buf_def s_def slot_def
  have in_buf: "p div 8 < length buf" using room by (simp add: defs less_mult_imp_div_less mult.commute)
  have bits: "bit slot (7 - k) \<longleftrightarrow> (if k < p mod 8 then bit (buf ! (p div 8)) (7 - k) else b \<and> k = p mod 8)"
    if "k < 8" for k
    unfolding p_def buf_def by (rule slot_after [OF wf that]) (simp_all only: s_def slot_def p_def buf_def)
  have step: "write_bit b w = Inr w'"
    using in_buf by (simp add: write_bit_def Let_def w'_def defs)
  have wf': "wf_writer w'"
    using in_buf room by (auto simp: wf_writer_def w'_def p_def buf_def bits mod_Suc div_Suc split: if_splits)
  have "written w' = written w @ [b]"
  proof (rule nth_equalityI)
    fix i
    assume "i < length (written w')"
    then have i: "i \<le> p" and len: "i < 8 * length buf" by (auto simp: written_def w'_def)
    have lhs: "written w' ! i = bit (buf[p div 8 := slot] ! (i div 8)) (7 - i mod 8)"
      using i len by (simp add: written_def bits_of_nth w'_def)
    show "written w' ! i = (written w @ [b]) ! i"
    proof (cases "i = p")
      case True
      with lhs in_buf room show ?thesis by (simp add: bits nth_append written_def p_def buf_def)
    next
      case False
      with i have less: "i < p" by simp
      have "written w' ! i = bit (buf ! (i div 8)) (7 - i mod 8)"
      proof (cases "i div 8 = p div 8")
        case True
        with less have "i mod 8 < p mod 8" by (metis div_mult_mod_eq nat_add_left_cancel_less)
        with lhs in_buf True show ?thesis by (simp add: bits)
      qed (simp add: lhs)
      with less len room show ?thesis by (simp add: written_def nth_append bits_of_nth p_def buf_def)
    qed
  qed (use room in \<open>simp add: written_def w'_def p_def buf_def\<close>)
  with step wf' show ?thesis by (simp add: w'_def p_def buf_def)
qed

lemma write_bit_full: "wf_writer w \<Longrightarrow> w_pos w \<ge> 8 * length (w_buf w) \<Longrightarrow> write_bit b w = Inl OutputFull"
  by (simp add: write_bit_def Let_def less_eq_div_iff_mult_less_eq mult.commute not_less)

lemma read_bit_refines:
  "unread r = b # bs \<Longrightarrow> read_bit r = Inr (b, r\<lparr>r_pos := Suc (r_pos r)\<rparr>)"
proof -
  assume u: "unread r = b # bs"
  then have "r_pos r < 8 * length (r_buf r)" and b: "bits_of (r_buf r) ! r_pos r = b"
    by (auto simp: unread_def nth_via_drop intro: ccontr)
  then have "r_pos r div 8 < length (r_buf r)" by (simp add: less_mult_imp_div_less mult.commute)
  with b \<open>r_pos r < _\<close> show ?thesis
    by (simp add: read_bit_def Let_def bits_of_nth and_one_eq_bit)
qed

lemma read_bit_empty: "unread r = [] \<Longrightarrow> read_bit r = Inl UnexpectedEnd"
  by (simp add: read_bit_def Let_def unread_def less_eq_div_iff_mult_less_eq mult.commute not_less)

end
