(* ===== verification/Codec_Laws.thy ===== *)
theory Codec_Laws
  imports Bitstream
begin

unbundle bit_operations_syntax

text \<open>
  The laws every codec of the development is stated with. \<open>emits f bs\<close>: the write \<open>f\<close> appends
  exactly the bits \<open>bs\<close> to a well-formed writer, or reports \<open>OutputFull\<close> when they do not fit.
  \<open>parses f bs v\<close>: the read \<open>f\<close> takes \<open>bs\<close> off the stream and yields \<open>v\<close>. \<open>bounded_read f\<close>: on any
  stream, hostile ones included, \<open>f\<close> only moves the cursor forward inside the buffer. All three
  compose along \<open>ebind\<close>.

  The locale \<open>exi_codec\<close> is the contract of a write/read pair; the lemma \<open>roundtrip\<close> of the locale
  is proved once and used by every primitive through an interpretation.
\<close>

section \<open>Laws and their composition\<close>

definition emits :: "(bit_writer \<Rightarrow> exi_error + bit_writer) \<Rightarrow> bool list \<Rightarrow> bool" where
  "emits f bs \<longleftrightarrow> (\<forall>w. wf_writer w \<longrightarrow>
     (if w_pos w + length bs \<le> 8 * length (w_buf w)
      then \<exists>w'. f w = Inr w' \<and> wf_writer w' \<and> w_pos w' = w_pos w + length bs
             \<and> length (w_buf w') = length (w_buf w) \<and> written w' = written w @ bs
      else f w = Inl OutputFull))"

definition parses :: "(bit_reader \<Rightarrow> exi_error + ('a \<times> bit_reader)) \<Rightarrow> bool list \<Rightarrow> 'a \<Rightarrow> bool" where
  "parses f bs v \<longleftrightarrow> (\<forall>r rest. wf_reader r \<longrightarrow> unread r = bs @ rest \<longrightarrow>
     f r = Inr (v, r\<lparr>r_pos := r_pos r + length bs\<rparr>))"

definition bounded_read :: "(bit_reader \<Rightarrow> exi_error + ('a \<times> bit_reader)) \<Rightarrow> bool" where
  "bounded_read f \<longleftrightarrow> (\<forall>r v r'. wf_reader r \<longrightarrow> f r = Inr (v, r') \<longrightarrow>
     wf_reader r' \<and> r_buf r' = r_buf r \<and> r_pos r \<le> r_pos r')"

lemma emitsE:
  assumes "emits f bs" and "wf_writer w"
  obtains (fits) w' where "w_pos w + length bs \<le> 8 * length (w_buf w)" "f w = Inr w'" "wf_writer w'"
      "w_pos w' = w_pos w + length bs" "length (w_buf w') = length (w_buf w)"
      "written w' = written w @ bs"
    | (full) "w_pos w + length bs > 8 * length (w_buf w)" "f w = Inl OutputFull"
  using assms unfolding emits_def by (metis not_less)

lemma emits_fits:
  assumes "emits f bs" and "wf_writer w" and "w_pos w + length bs \<le> 8 * length (w_buf w)"
  obtains w' where "f w = Inr w'" "wf_writer w'" "w_pos w' = w_pos w + length bs"
      "length (w_buf w') = length (w_buf w)" "written w' = written w @ bs"
  using assms by (auto elim: emitsE)

lemma emits_done:
  assumes "emits f bs" and "wf_writer w" and "f w = Inr w'"
  shows "wf_writer w' \<and> w_pos w' = w_pos w + length bs \<and> length (w_buf w') = length (w_buf w)
           \<and> written w' = written w @ bs"
  using assms(1,2) by (rule emitsE) (use assms(3) in auto)

lemma emits_return [simp]: "emits Inr []"
  by (auto simp: emits_def wf_writer_def)

lemma emits_write_bit [simp]: "emits (write_bit b) [b]"
  unfolding emits_def
proof (intro allI impI)
  fix w
  assume wf: "wf_writer w"
  show "if w_pos w + length [b] \<le> 8 * length (w_buf w)
      then \<exists>w'. write_bit b w = Inr w' \<and> wf_writer w' \<and> w_pos w' = w_pos w + length [b]
             \<and> length (w_buf w') = length (w_buf w) \<and> written w' = written w @ [b]
      else write_bit b w = Inl OutputFull"
    using write_bit_refines [OF wf, of b] write_bit_full [OF wf, of b]
    by (cases "w_pos w < 8 * length (w_buf w)") (auto simp: Suc_le_eq)
qed

lemma emits_bind:
  assumes f: "emits f as" and g: "emits g bs"
  shows "emits (\<lambda>w. ebind (f w) g) (as @ bs)"
  unfolding emits_def
proof (intro allI impI)
  fix w
  assume wf: "wf_writer w"
  from f wf show "if w_pos w + length (as @ bs) \<le> 8 * length (w_buf w)
      then \<exists>w'. ebind (f w) g = Inr w' \<and> wf_writer w' \<and> w_pos w' = w_pos w + length (as @ bs)
             \<and> length (w_buf w') = length (w_buf w) \<and> written w' = written w @ as @ bs
      else ebind (f w) g = Inl OutputFull"
  proof (cases rule: emitsE)
    case (fits w')
    from g fits(3) show ?thesis by (cases rule: emitsE) (use fits in auto)
  qed auto
qed

lemma emits_bindI: "emits f as \<Longrightarrow> emits g bs \<Longrightarrow> cs = as @ bs \<Longrightarrow> emits (\<lambda>w. ebind (f w) g) cs"
  by (simp add: emits_bind)

lemma parsesD: "parses f bs v \<Longrightarrow> wf_reader r \<Longrightarrow> unread r = bs @ rest \<Longrightarrow>
    f r = Inr (v, r\<lparr>r_pos := r_pos r + length bs\<rparr>)"
  by (auto simp: parses_def)

lemma wf_advance: "wf_reader r \<Longrightarrow> unread r = bs @ rest \<Longrightarrow> wf_reader (r\<lparr>r_pos := r_pos r + length bs\<rparr>)"
proof -
  assume wf: "wf_reader r" and u: "unread r = bs @ rest"
  from u have "length (unread r) \<ge> length bs" by simp
  with wf show ?thesis by (simp add: wf_reader_def unread_def)
qed

lemma parses_return [simp]: "parses (\<lambda>r. Inr (v, r)) [] v"
  by (simp add: parses_def)

lemma parses_read_bit [simp]: "parses read_bit [b] b"
  by (simp add: parses_def read_bit_refines)

lemma parses_bind:
  assumes f: "parses f as a" and g: "parses (g a) bs b"
  shows "parses (\<lambda>r. ebind (f r) (\<lambda>(x, r'). g x r')) (as @ bs) b"
  unfolding parses_def
proof (intro allI impI)
  fix r rest
  assume wf: "wf_reader r" and u: "unread r = (as @ bs) @ rest"
  let ?r = "r\<lparr>r_pos := r_pos r + length as\<rparr>"
  from f wf u have "f r = Inr (a, ?r)" by (auto intro: parsesD)
  moreover have "wf_reader ?r" using wf u by (auto intro: wf_advance)
  moreover have "unread ?r = bs @ rest" using u by (simp add: unread_advance)
  ultimately show "ebind (f r) (\<lambda>(x, r'). g x r') = Inr (b, r\<lparr>r_pos := r_pos r + length (as @ bs)\<rparr>)"
    using parsesD [OF g] by (simp add: add.assoc)
qed

lemma parses_bindI:
  "parses f as a \<Longrightarrow> parses (g a) bs b \<Longrightarrow> cs = as @ bs \<Longrightarrow>
     parses (\<lambda>r. ebind (f r) (\<lambda>(x, r'). g x r')) cs b"
  by (simp add: parses_bind)

lemma parses_map:
  assumes "parses f bs a" and "h a = b"
  shows "parses (\<lambda>r. ebind (f r) (\<lambda>(x, r'). Inr (h x, r'))) bs b"
  using parses_bind [where g = "\<lambda>x r. Inr (h x, r)", OF assms(1) parses_return] assms(2) by simp

text \<open>Adding an upfront length check that the stream passes keeps a parse.\<close>

lemma parses_guard:
  assumes "parses f bs v" and "n \<le> length bs"
  shows "parses (\<lambda>r. if n > bits_remaining r then Inl e else f r) bs v"
  using assms by (auto simp: parses_def bits_remaining_unread)

lemma bounded_readD:
  "bounded_read f \<Longrightarrow> wf_reader r \<Longrightarrow> f r = Inr (v, r') \<Longrightarrow>
     wf_reader r' \<and> r_buf r' = r_buf r \<and> r_pos r \<le> r_pos r'"
  unfolding bounded_read_def by blast

lemma bounded_return [simp]: "bounded_read (\<lambda>r. Inr (v, r))"
  by (simp add: bounded_read_def)

lemma bounded_fail [simp]: "bounded_read (\<lambda>r. Inl e)"
  by (simp add: bounded_read_def)

lemma bounded_read_bit [simp]: "bounded_read read_bit"
  by (auto simp: bounded_read_def read_bit_def Let_def wf_reader_def Suc_le_eq split: if_splits)

lemma bounded_bind:
  assumes "bounded_read f" and "\<And>x. bounded_read (g x)"
  shows "bounded_read (\<lambda>r. ebind (f r) (\<lambda>(x, r'). g x r'))"
  unfolding bounded_read_def
proof (intro allI impI)
  fix r v r'
  assume wf: "wf_reader r" and "ebind (f r) (\<lambda>(x, r'). g x r') = Inr (v, r')"
  then obtain x r1 where f: "f r = Inr (x, r1)" and g: "g x r1 = Inr (v, r')"
    by (auto simp: ebind_eq_Inr)
  note 1 = bounded_readD [OF assms(1) wf f]
  then have "wf_reader r1" by simp
  note 2 = bounded_readD [OF assms(2) this g]
  from 1 2 show "wf_reader r' \<and> r_buf r' = r_buf r \<and> r_pos r \<le> r_pos r'"
    by (metis le_trans)
qed

lemma bounded_if: "bounded_read f \<Longrightarrow> bounded_read g \<Longrightarrow>
    bounded_read (\<lambda>r. if b r then f r else g r)"
  unfolding bounded_read_def by (intro allI impI) metis

lemma bounded_lift [simp]: "bounded_read (\<lambda>r. ebind m (\<lambda>v. Inr (h v, r)))"
  by (cases m) simp_all

lemma bounded_cong: "bounded_read g \<Longrightarrow> (\<And>r. f r = g r) \<Longrightarrow> bounded_read f"
  by (metis ext)

lemma parses_cong: "parses g bs v \<Longrightarrow> (\<And>r. f r = g r) \<Longrightarrow> parses f bs v"
  by (metis ext)

lemma emits_cong: "emits g bs \<Longrightarrow> (\<And>w. f w = g w) \<Longrightarrow> emits f bs"
  by (metis ext)

section \<open>The multi-bit operations of the bit stream\<close>

lemma emits_write_bits: "emits (write_bits v n) (msb_bits n v)"
proof (induction n)
  case 0
  have "write_bits v 0 = Inr" by (simp add: fun_eq_iff)
  then show ?case by simp
next
  case (Suc n)
  have "write_bits v (Suc n) = (\<lambda>w. ebind (write_bit (bit v n) w) (write_bits v n))"
    by (simp add: fun_eq_iff and_one_eq_bit)
  moreover have "emits (\<lambda>w. ebind (write_bit (bit v n) w) (write_bits v n)) (msb_bits (Suc n) v)"
    by (rule emits_bindI [OF emits_write_bit Suc.IH]) (simp add: msb_bits_Suc)
  ultimately show ?case by simp
qed

definition byte_bits :: "u8 \<Rightarrow> bool list" where
  "byte_bits b = msb_bits 8 (ucast b)"

lemma length_byte_bits [simp]: "length (byte_bits b) = 8"
  by (simp add: byte_bits_def)

lemma emits_write_byte: "emits (write_byte b) (byte_bits b)"
proof -
  have "write_byte b = write_bits (ucast b) 8" by (simp add: fun_eq_iff write_byte_def)
  then show ?thesis by (simp add: emits_write_bits byte_bits_def)
qed

lemma emits_write_bytes: "emits (write_bytes bs) (concat (map byte_bits bs))"
proof (induction bs)
  case Nil
  have "write_bytes [] = Inr" by (simp add: fun_eq_iff)
  then show ?case by simp
next
  case (Cons b bs)
  have "write_bytes (b # bs) = (\<lambda>w. ebind (write_byte b w) (write_bytes bs))"
    by (simp add: fun_eq_iff)
  then show ?case using emits_bind [OF emits_write_byte Cons.IH] by simp
qed

lemma parses_read_bits_loop: "parses (read_bits_loop (length bs) a) bs (acc_bits a bs)"
proof (induction bs arbitrary: a)
  case Nil
  have "read_bits_loop (length []) a = (\<lambda>r. Inr (a, r))" by (simp add: fun_eq_iff)
  then show ?case by simp
next
  case (Cons b bs)
  have "parses (\<lambda>r. ebind (read_bit r) (\<lambda>(b, r'). read_bits_loop (length bs) (push_bit 1 a OR of_bool b) r'))
          (b # bs) (acc_bits a (b # bs))"
    by (rule parses_bindI [OF parses_read_bit, of _ b bs]) (simp_all add: Cons.IH)
  then show ?case by (simp add: parses_def)
qed

lemma parses_read_bits: "parses (read_bits (length bs)) bs (acc_bits 0 bs)"
  unfolding read_bits_def by (rule parses_guard) (simp_all add: parses_read_bits_loop)

lemma parses_nbit: "n \<le> 64 \<Longrightarrow> drop_bit n v = 0 \<Longrightarrow> parses (read_bits n) (msb_bits n v) v"
  using parses_read_bits [of "msb_bits n v"] by (simp add: acc_bits_msb)

lemma parses_read_byte: "parses read_byte (byte_bits b) b"
proof -
  have "parses (read_bits 8) (byte_bits b) (ucast b)"
    unfolding byte_bits_def
    by (rule parses_nbit) (simp_all add: drop_bit_eq_0_iff unat_u8_less)
  then show ?thesis
    unfolding read_byte_def by (rule parses_map) simp
qed

lemma parses_read_bytes_loop: "parses (read_bytes_loop (length bs)) (concat (map byte_bits bs)) bs"
proof (induction bs)
  case Nil
  have "read_bytes_loop (length []) = (\<lambda>r. Inr ([], r))" by (simp add: fun_eq_iff)
  then show ?case by simp
next
  case (Cons b bs)
  have "parses (\<lambda>r. ebind (read_byte r) (\<lambda>(b, r'). ebind (read_bytes_loop (length bs) r')
          (\<lambda>(bs, r''). Inr (b # bs, r'')))) (concat (map byte_bits (b # bs))) (b # bs)"
    by (rule parses_bindI [OF parses_read_byte [of b] parses_map [OF Cons.IH]]) simp_all
  then show ?case by (simp add: parses_def)
qed

lemma parses_read_bytes: "parses (read_bytes (length bs)) (concat (map byte_bits bs)) bs"
proof -
  have "length (concat (map byte_bits bs)) = length bs * 8" by (induction bs) simp_all
  then show ?thesis
    unfolding read_bytes_def by (intro parses_guard parses_read_bytes_loop) (simp add: saturating_mul_def)
qed

lemma bounded_read_bits_loop [simp]: "bounded_read (read_bits_loop n a)"
proof (induction n arbitrary: a)
  case (Suc n)
  have "read_bits_loop (Suc n) a =
      (\<lambda>r. ebind (read_bit r) (\<lambda>(b, r'). read_bits_loop n (push_bit 1 a OR of_bool b) r'))"
    by (simp add: fun_eq_iff)
  then show ?case using bounded_bind [OF bounded_read_bit, of "\<lambda>b. read_bits_loop n (push_bit 1 a OR of_bool b)"] Suc
    by simp
qed (simp add: bounded_read_def)

lemma bounded_read_bits [simp]: "bounded_read (read_bits n)"
  unfolding read_bits_def by (rule bounded_if) simp_all

lemma bounded_read_byte [simp]: "bounded_read read_byte"
  unfolding read_byte_def by (rule bounded_bind) simp_all

lemma bounded_read_bytes_loop [simp]: "bounded_read (read_bytes_loop n)"
proof (induction n)
  case (Suc n)
  have "read_bytes_loop (Suc n) = (\<lambda>r. ebind (read_byte r) (\<lambda>(b, r'). ebind (read_bytes_loop n r')
          (\<lambda>(bs, r''). Inr (b # bs, r''))))"
    by (simp add: fun_eq_iff)
  moreover have "bounded_read (\<lambda>r. ebind (read_byte r) (\<lambda>(b, r'). ebind (read_bytes_loop n r')
          (\<lambda>(bs, r''). Inr (b # bs, r''))))"
    by (intro bounded_bind Suc) simp_all
  ultimately show ?case by simp
qed (simp add: bounded_read_def)

lemma bounded_read_bytes [simp]: "bounded_read (read_bytes n)"
  unfolding read_bytes_def by (rule bounded_if) simp_all

section \<open>Padding\<close>

definition pad_len :: "nat \<Rightarrow> nat" where
  "pad_len p = (8 - p mod 8) mod 8"

lemma pad_len_Suc: "0 < p mod 8 \<Longrightarrow> pad_len p = Suc (pad_len (Suc p))"
  using mod_less_divisor [of 8 p] by (auto simp: pad_len_def mod_Suc)

lemma pad_len_aligned [simp]: "p mod 8 = 0 \<Longrightarrow> pad_len p = 0"
  by (simp add: pad_len_def)

lemma pad_len_total: "p + pad_len p = (p + 7) div 8 * 8"
proof -
  obtain q k where p: "p = 8 * q + k" "k < 8" using mod_less_divisor [of 8 p] by (metis mult_div_mod_eq zero_less_numeral)
  have "(k + 7) div 8 = of_bool (0 < k)" using p(2) by auto
  moreover have "(8 * q + k + 7) div 8 = q + (k + 7) div 8" by (simp add: add.assoc)
  ultimately show ?thesis using p by (cases "k = 0") (auto simp: pad_len_def)
qed

lemma pad_to_byte_refines:
  assumes "wf_writer w"
  shows "\<exists>w'. pad_to_byte w = Inr w' \<and> wf_writer w' \<and> w_pos w' = w_pos w + pad_len (w_pos w)
           \<and> length (w_buf w') = length (w_buf w)
           \<and> written w' = written w @ replicate (pad_len (w_pos w)) False"
  using assms
proof (induction w rule: pad_to_byte.induct)
  case (1 w)
  show ?case
  proof (cases "bw_is_aligned w")
    case True
    with 1 show ?thesis by (simp add: pad_to_byte.simps bw_is_aligned_def)
  next
    case False
    then have part: "0 < w_pos w mod 8" by (simp add: bw_is_aligned_def)
    with \<open>wf_writer w\<close> have "w_pos w < 8 * length (w_buf w)"
      by (metis mod_mult_self1_is_0 le_neq_implies_less less_irrefl wf_writer_def)
    then obtain w1 where w1: "write_bit False w = Inr w1" "wf_writer w1" "w_pos w1 = Suc (w_pos w)"
        "length (w_buf w1) = length (w_buf w)" "written w1 = written w @ [False]"
      using write_bit_refines [OF \<open>wf_writer w\<close>] by blast
    from "1.IH" [OF False w1(1,2)] w1 show ?thesis
      by (auto simp: pad_to_byte.simps [of w] False pad_len_Suc [OF part])
  qed
qed

lemma bw_finish_refines:
  assumes wf: "wf_writer w"
  shows "\<exists>n buf. bw_finish w = Inr (n, buf) \<and> n = (w_pos w + 7) div 8 \<and> length buf = length (w_buf w)
           \<and> bits_of (take n buf) = written w @ replicate (pad_len (w_pos w)) False"
proof -
  obtain w' where w': "pad_to_byte w = Inr w'" "w_pos w' = w_pos w + pad_len (w_pos w)"
      "length (w_buf w') = length (w_buf w)" "written w' = written w @ replicate (pad_len (w_pos w)) False"
    using pad_to_byte_refines [OF wf] by blast
  let ?n = "(w_pos w + 7) div 8"
  have len: "bw_byte_len w' = ?n" by (simp add: bw_byte_len_def w'(2) pad_len_total)
  have "bits_of (take ?n (w_buf w')) = written w'"
    by (simp add: written_def bits_of_take w'(2) pad_len_total mult.commute)
  with w' len show ?thesis by (simp add: bw_finish_def)
qed

lemma skip_padding_refines:
  assumes "unread r = replicate (pad_len (r_pos r)) False @ rest"
  shows "skip_padding r = Inr (r\<lparr>r_pos := r_pos r + pad_len (r_pos r)\<rparr>)"
  using assms
proof (induction r rule: skip_padding.induct)
  case (1 r)
  show ?case
  proof (cases "br_is_aligned r")
    case True
    then show ?thesis by (simp add: skip_padding.simps br_is_aligned_def)
  next
    case False
    then have part: "0 < r_pos r mod 8" by (simp add: br_is_aligned_def)
    let ?r = "r\<lparr>r_pos := Suc (r_pos r)\<rparr>"
    from 1(2) have u: "unread r = False # replicate (pad_len (Suc (r_pos r))) False @ rest"
      by (simp add: pad_len_Suc [OF part])
    then have rd: "read_bit r = Inr (False, ?r)" by (rule read_bit_refines)
    have "unread ?r = replicate (pad_len (Suc (r_pos r))) False @ rest"
      using u unread_advance [of r 1] by simp
    with "1.IH" [OF False rd refl] rd show ?thesis
      by (simp add: skip_padding.simps [of r] False pad_len_Suc [OF part])
  qed
qed

section \<open>The contract of a codec\<close>

text \<open>
  A write/read pair for values of one type: every valid value has a code, writing emits it, reading
  takes it back, and reading stays inside the buffer whatever the bytes are.
\<close>

locale exi_codec =
  fixes put :: "'a \<Rightarrow> bit_writer \<Rightarrow> exi_error + bit_writer"
    and get :: "bit_reader \<Rightarrow> exi_error + ('a \<times> bit_reader)"
    and code :: "'a \<Rightarrow> bool list"
    and valid :: "'a \<Rightarrow> bool"
  assumes put_emits: "valid v \<Longrightarrow> emits (put v) (code v)"
    and get_parses: "valid v \<Longrightarrow> parses get (code v) v"
    and get_bounded: "bounded_read get"
begin

lemma put_fits:
  assumes "valid v" and "wf_writer w"
  shows "(\<exists>w'. put v w = Inr w') \<longleftrightarrow> w_pos w + length (code v) \<le> 8 * length (w_buf w)"
  using put_emits [OF assms(1)] assms(2) by (rule emitsE) auto

lemma get_at:
  assumes "valid v" and "wf_reader r" and "unread r = code v @ rest"
  shows "get r = Inr (v, r\<lparr>r_pos := r_pos r + length (code v)\<rparr>)"
  using get_parses [OF assms(1)] assms(2,3) by (rule parsesD)

lemma fits_fresh:
  assumes "valid v" and "length (code v) \<le> 8 * length buf"
  shows "\<exists>w n out. put v (bw_new buf) = Inr w \<and> bw_finish w = Inr (n, out)"
proof -
  obtain w where "put v (bw_new buf) = Inr w" "wf_writer w"
    using emits_fits [OF put_emits [OF assms(1)] wf_bw_new, of buf] assms(2) by auto
  then show ?thesis using bw_finish_refines [of w] by blast
qed

text \<open>
  Whatever is written into a fresh buffer and finished is read back from the bytes the writer
  reports, and what is left is exactly the zero padding of the last byte.
\<close>

lemma roundtrip:
  assumes valid: "valid v" and wr: "put v (bw_new buf) = Inr w" and fin: "bw_finish w = Inr (n, out)"
  shows "\<exists>r r'. get (br_new (take n out)) = Inr (v, r) \<and> skip_padding r = Inr r' \<and> bits_remaining r' = 0"
proof -
  have w: "wf_writer w" "w_pos w = length (code v)" "written w = code v"
    using emits_done [OF put_emits [OF valid] wf_bw_new wr] by simp_all
  let ?start = "br_new (take n out)"
  let ?mid = "?start\<lparr>r_pos := length (code v)\<rparr>"
  have bits: "unread ?start = code v @ replicate (pad_len (length (code v))) False"
    using bw_finish_refines [OF w(1)] fin w by auto
  have rd: "get ?start = Inr (v, ?mid)"
    using get_at [OF valid wf_br_new bits] by simp
  have u: "unread ?mid = replicate (pad_len (length (code v))) False"
    using unread_advance [of ?start "length (code v)"] bits by simp
  then have "skip_padding ?mid = Inr (?mid\<lparr>r_pos := length (code v) + pad_len (length (code v))\<rparr>)"
    using skip_padding_refines [of ?mid "[]"] by simp
  moreover have "unread (?mid\<lparr>r_pos := length (code v) + pad_len (length (code v))\<rparr>) = []"
    using unread_advance [of ?mid "pad_len (length (code v))"] u by simp
  ultimately show ?thesis using rd by (auto simp: bits_remaining_unread)
qed

end

end
