(* ===== verification/Primitives.thy ===== *)
theory Primitives
  imports Codec_Laws
begin

unbundle bit_operations_syntax

text \<open>
  The built-in datatype representations of \<open>src/src/exi/primitives.rs\<close>: unsigned and signed
  integers, n-bit integers, Booleans, binary, characters, fractions, decimals, floats and
  date-times. Each write/read pair is an interpretation of \<open>exi_codec\<close>, which gives its round trip
  and the bound on what it reads. Not modelled: \<open>Float::to_f64\<close> and \<open>pow10\<close>, which compute in
  floating point for display only.
\<close>

section \<open>Unsigned Integer\<close>

definition MAX_UINT_OCTETS :: nat where
  "MAX_UINT_OCTETS = 10"

lemma unat_drop_bit_less: "drop_bit 7 (v :: u64) \<noteq> 0 \<Longrightarrow> unat (drop_bit 7 v) < unat v"
proof -
  assume "drop_bit 7 v \<noteq> 0"
  moreover have "unat (drop_bit 7 v) = unat v div 128"
    by (simp only: unat_drop_bit_eq) (simp add: drop_bit_eq_div)
  ultimately show ?thesis
    by (metis div_less_dividend div_eq_0_iff gr0I one_less_numeral_iff semiring_norm(76) unat_eq_zero zero_less_numeral)
qed

function write_uint :: "u64 \<Rightarrow> bit_writer \<Rightarrow> exi_error + bit_writer" where
  "write_uint value w =
     (let octet = (ucast (value AND 0x7F) :: u8);
          value' = drop_bit 7 value;
          octet = (if value' \<noteq> 0 then octet OR 0x80 else octet)
      in ebind (write_byte octet w) (\<lambda>w'. if value' = 0 then Inr w' else write_uint value' w'))"
  by pat_completeness auto
termination
  by (relation "measure (\<lambda>(value, w). unat value)") (auto simp: unat_drop_bit_less)

declare write_uint.simps [simp del]

fun read_uint_loop :: "nat \<Rightarrow> u64 \<Rightarrow> nat \<Rightarrow> bit_reader \<Rightarrow> exi_error + (u64 \<times> bit_reader)" where
  "read_uint_loop 0 value shift r = Inl IntegerOverflow"
| "read_uint_loop (Suc n) value shift r =
     ebind (read_byte r) (\<lambda>(octet, r').
       let payload = (ucast (octet AND 0x7F) :: u64) in
       if shift \<ge> 64 \<or> (shift = 63 \<and> payload > 1) then Inl IntegerOverflow
       else let value' = value OR push_bit shift payload in
         if octet AND 0x80 = 0 then Inr (value', r') else read_uint_loop n value' (shift + 7) r')"

definition read_uint :: "bit_reader \<Rightarrow> exi_error + (u64 \<times> bit_reader)" where
  "read_uint r = read_uint_loop MAX_UINT_OCTETS 0 0 r"

text \<open>The octets of an Unsigned Integer, as the specification of the coding has them.\<close>

function uint_octets :: "u64 \<Rightarrow> bytes" where
  "uint_octets v =
     (if drop_bit 7 v = 0 then [ucast (v AND 0x7F)]
      else (ucast (v AND 0x7F) OR 0x80) # uint_octets (drop_bit 7 v))"
  by pat_completeness auto
termination
  by (relation "measure unat") (auto simp: unat_drop_bit_less)

declare uint_octets.simps [simp del]

definition uint_code :: "u64 \<Rightarrow> bool list" where
  "uint_code v = concat (map byte_bits (uint_octets v))"

lemma uint_code_last: "drop_bit 7 v = 0 \<Longrightarrow> uint_code v = byte_bits (ucast (v AND 0x7F))"
  by (subst uint_code_def, subst uint_octets.simps) simp

lemma uint_code_more: "drop_bit 7 v \<noteq> 0 \<Longrightarrow>
    uint_code v = byte_bits (ucast (v AND 0x7F) OR 0x80) @ uint_code (drop_bit 7 v)"
  by (subst uint_code_def, subst uint_octets.simps) (simp add: uint_code_def)

lemma emits_write_uint: "emits (write_uint v) (uint_code v)"
proof (induction v rule: uint_octets.induct)
  case (1 v)
  show ?case
  proof (cases "drop_bit 7 v = 0")
    case True
    then have "write_uint v = (\<lambda>w. ebind (write_byte (ucast (v AND 0x7F)) w) Inr)"
      by (simp add: fun_eq_iff write_uint.simps [of v])
    then show ?thesis
      using emits_bind [OF emits_write_byte emits_return, of "ucast (v AND 0x7F)"] True
      by (simp add: uint_code_last)
  next
    case False
    then have "write_uint v = (\<lambda>w. ebind (write_byte (ucast (v AND 0x7F) OR 0x80) w) (write_uint (drop_bit 7 v)))"
      by (simp add: fun_eq_iff write_uint.simps [of v])
    then show ?thesis
      using emits_bind [OF emits_write_byte 1 [OF False], of "ucast (v AND 0x7F) OR 0x80"] False
      by (simp add: uint_code_more)
  qed
qed

lemma octet_payload:
  fixes v :: u64
  defines "p \<equiv> ucast (take_bit 7 v) :: u8"
  shows "ucast (take_bit 7 p) = take_bit 7 v"
    and "ucast (take_bit 7 (p OR 0x80)) = take_bit 7 v"
    and "p AND 0x80 = 0"
    and "(p OR 0x80) AND 0x80 \<noteq> 0"
proof -
  show "ucast (take_bit 7 p) = take_bit 7 v" and "ucast (take_bit 7 (p OR 0x80)) = take_bit 7 v"
    unfolding p_def by (rule bit_word_eqI; auto simp: bit_simps bit_u8_80)+
  have "bit p k \<Longrightarrow> k < 7" for k unfolding p_def by (simp add: bit_simps)
  then show "p AND 0x80 = 0" by (intro bit_word_eqI) (auto simp: bit_and_iff bit_u8_80 simp del: bit_numeral_word_iff)
  have "bit ((p OR 0x80) AND 0x80) 7"
    by (simp add: bit_and_iff bit_or_iff bit_u8_80 del: bit_numeral_word_iff)
  then show "(p OR 0x80) AND 0x80 \<noteq> 0" by (metis bit_0_eq bot_apply bot_bool_def)
qed

lemma parses_read_uint_loop:
  assumes "shift < 64" and "shift + 7 * n = 70" and "unat v * 2 ^ shift < 2 ^ 64"
  shows "parses (read_uint_loop n a shift) (uint_code v) (a OR push_bit shift v)"
  using assms
proof (induction v arbitrary: n a shift rule: uint_octets.induct)
  case (1 v)
  then obtain m where n: "n = Suc m" by (cases n) auto
  define p where "p = (ucast (take_bit 7 v) :: u8)"
  note payload = octet_payload [of v, folded p_def]
  have fits: "\<not> (shift = 63 \<and> take_bit 7 v > 1)"
  proof
    assume "shift = 63 \<and> take_bit 7 v > 1"
    then have "shift = 63" and "1 < unat (take_bit 7 v)" by (auto simp: word_less_nat_alt)
    moreover have "unat (take_bit 7 v) \<le> unat v" by (simp add: unsigned_take_bit_eq)
    ultimately show False using "1.prems"(3) by simp
  qed
  show ?case
  proof (cases "drop_bit 7 v = 0")
    case True
    then have "take_bit 7 v = v" using take_drop_bit_or [of 7 v] by simp
    with payload fits "1.prems"(1)
    have "parses (\<lambda>r. ebind (read_byte r) (\<lambda>(octet, r').
        let payload = (ucast (octet AND 0x7F) :: u64) in
        if shift \<ge> 64 \<or> (shift = 63 \<and> payload > 1) then Inl IntegerOverflow
        else let value' = a OR push_bit shift payload in
          if octet AND 0x80 = 0 then Inr (value', r') else read_uint_loop m value' (shift + 7) r'))
       (byte_bits p) (a OR push_bit shift v)"
      by (intro parses_bindI [OF parses_read_byte [of p], where bs = "[]"]) (auto simp: Let_def)
    then show ?thesis
      unfolding n by (simp add: parses_def uint_code_last [OF True] p_def)
  next
    case False
    have "7 + shift < 64"
    proof (rule ccontr)
      assume "\<not> 7 + shift < 64"
      then have "(2::nat) ^ 64 \<le> 2 ^ (7 + shift)" by (intro power_increasing) auto
      also have "\<dots> \<le> unat v * 2 ^ shift"
        using False by (simp add: drop_bit_eq_0_iff power_add not_less)
      finally show False using "1.prems"(3) by simp
    qed
    moreover have "unat (drop_bit 7 v) * 2 ^ (shift + 7) < 2 ^ 64"
    proof -
      have "unat (drop_bit 7 v) = unat v div 128"
        by (simp only: unat_drop_bit_eq) (simp add: drop_bit_eq_div)
      then have "unat (drop_bit 7 v) * 2 ^ (shift + 7) \<le> unat v * 2 ^ shift" by (simp add: power_add)
      then show ?thesis using "1.prems"(3) by simp
    qed
    ultimately have "parses (read_uint_loop m (a OR push_bit shift (take_bit 7 v)) (shift + 7))
        (uint_code (drop_bit 7 v)) ((a OR push_bit shift (take_bit 7 v)) OR push_bit (shift + 7) (drop_bit 7 v))"
      using "1.prems" n by (intro "1.IH" [OF False]) auto
    moreover have "(a OR push_bit shift (take_bit 7 v)) OR push_bit (shift + 7) (drop_bit 7 v) = a OR push_bit shift v"
      by (metis or.assoc push_bit_or push_bit_push_bit take_drop_bit_or)
    ultimately have tail: "parses (read_uint_loop m (a OR push_bit shift (take_bit 7 v)) (shift + 7))
        (uint_code (drop_bit 7 v)) (a OR push_bit shift v)" by simp
    with payload fits "1.prems"(1)
    have "parses (\<lambda>r. ebind (read_byte r) (\<lambda>(octet, r').
        let payload = (ucast (octet AND 0x7F) :: u64) in
        if shift \<ge> 64 \<or> (shift = 63 \<and> payload > 1) then Inl IntegerOverflow
        else let value' = a OR push_bit shift payload in
          if octet AND 0x80 = 0 then Inr (value', r') else read_uint_loop m value' (shift + 7) r'))
       (byte_bits (p OR 0x80) @ uint_code (drop_bit 7 v)) (a OR push_bit shift v)"
      by (intro parses_bind [OF parses_read_byte [of "p OR 0x80"]]) (auto simp: Let_def)
    then show ?thesis
      unfolding n by (simp add: parses_def uint_code_more [OF False] p_def)
  qed
qed

lemma parses_read_uint: "parses read_uint (uint_code v) v"
proof -
  have "parses (read_uint_loop 10 0 0) (uint_code v) (0 OR push_bit 0 v)"
    by (rule parses_read_uint_loop) (simp_all add: unat_u64_less [simplified])
  moreover have "read_uint = read_uint_loop 10 0 0"
    by (simp add: fun_eq_iff read_uint_def MAX_UINT_OCTETS_def)
  ultimately show ?thesis by simp
qed

lemma bounded_read_uint_loop: "bounded_read (read_uint_loop n a shift)"
proof (induction n arbitrary: a shift)
  case 0
  then show ?case by (simp add: bounded_read_def)
next
  case (Suc n)
  have "bounded_read (\<lambda>r. ebind (read_byte r) (\<lambda>(octet, r').
       let payload = (ucast (octet AND 0x7F) :: u64) in
       if shift \<ge> 64 \<or> (shift = 63 \<and> payload > 1) then Inl IntegerOverflow
       else let value' = a OR push_bit shift payload in
         if octet AND 0x80 = 0 then Inr (value', r') else read_uint_loop n value' (shift + 7) r'))"
    unfolding Let_def by (intro bounded_bind bounded_if Suc.IH bounded_read_byte bounded_return bounded_fail)
  then show ?case by (rule bounded_cong) simp
qed

lemma bounded_read_uint [simp]: "bounded_read read_uint"
  by (rule bounded_cong [OF bounded_read_uint_loop]) (simp add: read_uint_def)

interpretation uint: exi_codec write_uint read_uint uint_code "\<lambda>_. True"
  by unfold_locales (simp_all add: emits_write_uint parses_read_uint)

section \<open>Signed Integer\<close>

text \<open>
  An \<open>i64\<close> is an integer with its range. For a negative value the source computes \<open>!value as u64\<close>,
  which is \<open>- value - 1\<close>.
\<close>

definition write_int :: "int \<Rightarrow> bit_writer \<Rightarrow> exi_error + bit_writer" where
  "write_int v w =
     (let negative = v < 0 in
      ebind (write_bit negative w) (\<lambda>w'.
        let magnitude = (if negative then of_int (NOT v) else of_int v :: u64) in
        write_uint magnitude w'))"

definition read_int :: "bit_reader \<Rightarrow> exi_error + (int \<times> bit_reader)" where
  "read_int r =
     ebind (read_bit r) (\<lambda>(negative, r').
     ebind (read_uint r') (\<lambda>(magnitude, r'').
       if negative
       then ebind (ok_or (map_option (\<lambda>m. - m - 1) (i64_try_from magnitude)) IntegerOverflow) (\<lambda>v. Inr (v, r''))
       else ebind (ok_or (i64_try_from magnitude) IntegerOverflow) (\<lambda>v. Inr (v, r''))))"

definition int_magnitude :: "int \<Rightarrow> u64" where
  "int_magnitude v = (if v < 0 then of_int (- v - 1) else of_int v)"

definition int_code :: "int \<Rightarrow> bool list" where
  "int_code v = (v < 0) # uint_code (int_magnitude v)"

lemma emits_write_int: "emits (write_int v) (int_code v)"
proof -
  have "write_int v = (\<lambda>w. ebind (write_bit (v < 0) w) (write_uint (int_magnitude v)))"
    by (simp add: fun_eq_iff write_int_def Let_def int_magnitude_def not_int_def)
  then show ?thesis
    using emits_bind [OF emits_write_bit emits_write_uint, of "v < 0" "int_magnitude v"]
    by (simp add: int_code_def)
qed

lemma unat_int_magnitude:
  "i64_range v \<Longrightarrow> unat (int_magnitude v) = nat (if v < 0 then - v - 1 else v)"
proof -
  assume "i64_range v"
  then have "0 \<le> (if v < 0 then - v - 1 else v)" and "(if v < 0 then - v - 1 else v) < 2 ^ 64"
    by (auto simp: i64_range_def)
  then have "unat (of_int (if v < 0 then - v - 1 else v) :: u64) = nat (if v < 0 then - v - 1 else v)"
    by (rule unat_of_int_u64)
  then show ?thesis unfolding int_magnitude_def by (simp only: if_distrib)
qed

lemma parses_read_int:
  assumes "i64_range v"
  shows "parses read_int (int_code v) v"
proof -
  have small: "unat (int_magnitude v) < 2 ^ 63"
    using assms by (simp add: unat_int_magnitude i64_range_def nat_less_iff)
  have restored: "(if v < 0 then - int (unat (int_magnitude v)) - 1 else int (unat (int_magnitude v))) = v"
    using assms by (simp add: unat_int_magnitude)
  have "parses (\<lambda>r. ebind (read_uint r) (\<lambda>(magnitude, r'').
       if v < 0
       then ebind (ok_or (map_option (\<lambda>m. - m - 1) (i64_try_from magnitude)) IntegerOverflow) (\<lambda>v. Inr (v, r''))
       else ebind (ok_or (i64_try_from magnitude) IntegerOverflow) (\<lambda>v. Inr (v, r''))))
     (uint_code (int_magnitude v)) v"
    by (rule parses_bindI [OF parses_read_uint [of "int_magnitude v"], where bs = "[]"])
      (use small restored in \<open>cases "v < 0"; simp add: i64_try_from_def\<close>, simp)
  then show ?thesis
    unfolding read_int_def int_code_def
    using parses_bind [OF parses_read_bit [of "v < 0"]] by fastforce
qed

lemma bounded_read_int [simp]: "bounded_read read_int"
  unfolding read_int_def
  by (intro bounded_bind bounded_if bounded_read_bit bounded_read_uint bounded_lift)

interpretation sint: exi_codec write_int read_int int_code i64_range
  by unfold_locales (simp_all add: emits_write_int parses_read_int)

section \<open>n-bit Unsigned Integer and Boolean\<close>

definition write_nbit_uint :: "u64 \<Rightarrow> nat \<Rightarrow> bit_writer \<Rightarrow> exi_error + bit_writer" where
  "write_nbit_uint v n w = write_bits v n w"

definition read_nbit_uint :: "nat \<Rightarrow> bit_reader \<Rightarrow> exi_error + (u64 \<times> bit_reader)" where
  "read_nbit_uint n r = read_bits n r"

definition write_bool :: "bool \<Rightarrow> bit_writer \<Rightarrow> exi_error + bit_writer" where
  "write_bool b w = write_bit b w"

definition read_bool :: "bit_reader \<Rightarrow> exi_error + (bool \<times> bit_reader)" where
  "read_bool r = read_bit r"

definition leading_zeros :: "u64 \<Rightarrow> nat" where
  "leading_zeros v = length (takeWhile Not (msb_bits 64 v))"

definition bit_width :: "u64 \<Rightarrow> nat" where
  "bit_width count = (if count = 0 \<or> count = 1 then 0 else 64 - leading_zeros (count - 1))"

text \<open>A value is in range of an n-bit field when the bits above it are zero.\<close>

definition fits_bits :: "nat \<Rightarrow> u64 \<Rightarrow> bool" where
  "fits_bits n v \<longleftrightarrow> n \<le> 64 \<and> unat v < 2 ^ n"

lemma emits_write_nbit: "emits (write_nbit_uint v n) (msb_bits n v)"
  by (rule emits_cong [OF emits_write_bits]) (simp add: write_nbit_uint_def)

lemma parses_read_nbit: "fits_bits n v \<Longrightarrow> parses (read_nbit_uint n) (msb_bits n v) v"
  by (rule parses_cong [OF parses_nbit]) (simp_all add: read_nbit_uint_def fits_bits_def drop_bit_eq_0_iff)

lemma bounded_read_nbit [simp]: "bounded_read (read_nbit_uint n)"
  by (rule bounded_cong [OF bounded_read_bits]) (simp add: read_nbit_uint_def)

lemma emits_write_bool: "emits (write_bool b) [b]"
  by (rule emits_cong [OF emits_write_bit]) (simp add: write_bool_def)

lemma parses_read_bool: "parses read_bool [b] b"
  by (rule parses_cong [OF parses_read_bit]) (simp add: read_bool_def)

lemma bounded_read_bool [simp]: "bounded_read read_bool"
  by (rule bounded_cong [OF bounded_read_bit]) (simp add: read_bool_def)

interpretation nbit: exi_codec "\<lambda>v. write_nbit_uint v n" "read_nbit_uint n" "msb_bits n" "fits_bits n"
  for n
  by unfold_locales (simp_all add: emits_write_nbit parses_read_nbit)

interpretation boolean: exi_codec write_bool read_bool "\<lambda>b. [b]" "\<lambda>_. True"
  by unfold_locales (simp_all add: emits_write_bool parses_read_bool)

text \<open>\<open>bit_width\<close> is the ceiling of the binary logarithm.\<close>

lemma takeWhile_msb:
  "unat v < 2 ^ n \<Longrightarrow> n \<le> m \<Longrightarrow> takeWhile Not (msb_bits m v) = replicate (m - n) False @ takeWhile Not (msb_bits n v)"
proof (induction m)
  case (Suc m)
  show ?case
  proof (cases "n = Suc m")
    case False
    with Suc.prems have "n \<le> m" by simp
    moreover from Suc.prems this have "unat v < 2 ^ m"
      by (meson less_le_trans one_le_numeral power_increasing)
    then have "\<not> bit v m" by (simp add: bit_word_odd)
    ultimately show ?thesis using Suc by (simp add: msb_bits_Suc Suc_diff_le)
  qed simp
qed simp

lemma leading_zeros_bounds:
  assumes "v \<noteq> 0"
  shows "leading_zeros v < 64" and "2 ^ (63 - leading_zeros v) \<le> unat v" and "unat v < 2 ^ (64 - leading_zeros v)"
proof -
  define n where "n = (LEAST n. unat v < 2 ^ n)"
  have up: "unat v < 2 ^ n" unfolding n_def by (rule LeastI [of _ 64]) (simp add: unat_u64_less [simplified])
  have "n \<noteq> 0" using up assms by (metis less_one power_0 unat_eq_zero)
  then obtain m where m: "n = Suc m" by (cases n) auto
  have low: "2 ^ m \<le> unat v" using not_less_Least [of m "\<lambda>n. unat v < 2 ^ n"] m by (simp add: n_def not_less)
  have n64: "n \<le> 64" unfolding n_def by (rule Least_le) (simp add: unat_u64_less [simplified])
  have "unat v div 2 ^ m = 1" using up low m by (intro div_nat_eqI) simp_all
  then have "bit v m" by (simp add: bit_word_odd)
  then have "takeWhile Not (msb_bits n v) = []" by (simp add: m msb_bits_Suc)
  then have "leading_zeros v = 64 - n" using takeWhile_msb [OF up n64] by (simp add: leading_zeros_def)
  with up low n64 m show "leading_zeros v < 64" and "2 ^ (63 - leading_zeros v) \<le> unat v"
    and "unat v < 2 ^ (64 - leading_zeros v)" by auto
qed

lemma bit_width_upper: "unat c \<le> 2 ^ bit_width c"
proof (cases "c = 0 \<or> c = 1")
  case True
  then show ?thesis by (auto simp: bit_width_def)
next
  case False
  then have "c - 1 \<noteq> 0" and "unat (c - 1) = unat c - 1" by (auto simp: unat_minus_one)
  with leading_zeros_bounds(3) [of "c - 1"] False show ?thesis by (simp add: bit_width_def)
qed

lemma bit_width_lower:
  assumes "k < bit_width c"
  shows "2 ^ k < unat c"
proof -
  from assms have c: "c \<noteq> 0" "c \<noteq> 1" by (auto simp: bit_width_def split: if_splits)
  then have nz: "c - 1 \<noteq> 0" and eq: "unat (c - 1) = unat c - 1" by (auto simp: unat_minus_one)
  have "k \<le> 63 - leading_zeros (c - 1)" using assms c by (simp add: bit_width_def)
  then have "(2::nat) ^ k \<le> 2 ^ (63 - leading_zeros (c - 1))" by (rule power_increasing) simp
  also have "\<dots> \<le> unat c - 1" using leading_zeros_bounds(2) [OF nz] eq by simp
  finally have "2 ^ k \<le> unat c - 1" .
  moreover have "unat c \<noteq> 0" using c by (simp add: unat_eq_zero)
  ultimately show ?thesis by linarith
qed

lemma bit_width_le_64: "bit_width c \<le> 64"
  by (simp add: bit_width_def)

section \<open>Binary\<close>

definition write_binary :: "bytes \<Rightarrow> bit_writer \<Rightarrow> exi_error + bit_writer" where
  "write_binary bs w =
     ebind (if length bs < 2 ^ 64 then Inr (of_nat (length bs)) else Inl ValueTooLong) (\<lambda>len.
     ebind (write_uint len w) (write_bytes bs))"

definition read_binary :: "nat \<Rightarrow> bit_reader \<Rightarrow> exi_error + (bytes \<times> bit_reader)" where
  "read_binary max_len r =
     ebind (read_uint r) (\<lambda>(n, r').
       let len = unat n in
       if len > max_len then Inl ValueTooLong
       else if saturating_mul len 8 > bits_remaining r' then Inl UnexpectedEnd
       else read_bytes len r')"

text \<open>
  \<open>read_binary_into\<close> fills the front of the caller's slice; the model returns the slice as it is
  left, with the number of bytes filled.
\<close>

definition read_binary_into :: "bytes \<Rightarrow> bit_reader \<Rightarrow> exi_error + ((nat \<times> bytes) \<times> bit_reader)" where
  "read_binary_into out r =
     ebind (read_uint r) (\<lambda>(n, r').
       let len = unat n in
       if len > length out then Inl ValueTooLong
       else ebind (read_bytes len r') (\<lambda>(bs, r''). Inr ((len, bs @ drop len out), r'')))"

definition binary_code :: "bytes \<Rightarrow> bool list" where
  "binary_code bs = uint_code (of_nat (length bs)) @ concat (map byte_bits bs)"

lemma length_concat_bytes [simp]: "length (concat (map byte_bits bs)) = 8 * length bs"
  by (induction bs) simp_all

lemma emits_write_binary: "length bs < 2 ^ 64 \<Longrightarrow> emits (write_binary bs) (binary_code bs)"
  unfolding binary_code_def
  by (rule emits_cong [OF emits_bind [OF emits_write_uint emits_write_bytes]]) (simp add: write_binary_def)

lemma parses_read_binary:
  assumes "length bs < 2 ^ 64" and "length bs \<le> m"
  shows "parses (read_binary m) (binary_code bs) bs"
proof -
  have len: "unat (of_nat (length bs) :: u64) = length bs" using assms(1) by (rule unat_of_nat_u64)
  have "parses (\<lambda>r'. if length bs > m then Inl ValueTooLong
       else if saturating_mul (length bs) 8 > bits_remaining r' then Inl UnexpectedEnd
       else read_bytes (length bs) r') (concat (map byte_bits bs)) bs"
    using assms(2) parses_guard [OF parses_read_bytes, of "saturating_mul (length bs) 8" bs]
    by (simp add: saturating_mul_def)
  then show ?thesis
    unfolding binary_code_def read_binary_def Let_def
    by (intro parses_bind [OF parses_read_uint]) (simp only: len)
qed

lemma bounded_read_binary [simp]: "bounded_read (read_binary m)"
  unfolding read_binary_def Let_def
  by (intro bounded_bind bounded_if bounded_read_uint bounded_fail bounded_read_bytes)

lemma parses_read_binary_into:
  assumes "length bs < 2 ^ 64" and "length bs \<le> length out"
  shows "parses (read_binary_into out) (binary_code bs) (length bs, bs @ drop (length bs) out)"
proof -
  have len: "unat (of_nat (length bs) :: u64) = length bs" using assms(1) by (rule unat_of_nat_u64)
  have "parses (\<lambda>r'. ebind (read_bytes (length bs) r') (\<lambda>(xs, r''). Inr ((length bs, xs @ drop (length bs) out), r'')))
       (concat (map byte_bits bs)) (length bs, bs @ drop (length bs) out)"
    by (rule parses_map [OF parses_read_bytes]) simp
  then show ?thesis
    unfolding binary_code_def read_binary_into_def Let_def
    by (intro parses_bind [OF parses_read_uint]) (use assms(2) in \<open>simp add: len\<close>)
qed

interpretation binary: exi_codec write_binary "read_binary m" binary_code
  "\<lambda>bs. length bs < 2 ^ 64 \<and> length bs \<le> m" for m
  by unfold_locales (simp_all add: emits_write_binary parses_read_binary)

text \<open>The length field cannot make the reader allocate: what it returns fits the limit and the stream.\<close>

lemma read_bytes_loop_length: "read_bytes_loop n r = Inr (bs, r') \<Longrightarrow> length bs = n"
  by (induction n arbitrary: r bs r') (auto simp: ebind_eq_Inr)

lemma read_binary_length:
  assumes "read_binary m r = Inr (bs, r')" and "wf_reader r" and "8 * length (r_buf r) < usize_max"
  shows "length bs \<le> m" and "8 * length bs \<le> bits_remaining r"
proof -
  from assms(1) obtain n r1 where n: "read_uint r = Inr (n, r1)" "unat n \<le> m"
      "saturating_mul (unat n) 8 \<le> bits_remaining r1" "read_bytes (unat n) r1 = Inr (bs, r')"
    by (auto simp: read_binary_def Let_def ebind_eq_Inr split: if_splits)
  then have len: "length bs = unat n"
    by (auto simp: read_bytes_def split: if_splits dest: read_bytes_loop_length)
  with n(2) show "length bs \<le> m" by simp
  have 1: "r_buf r1 = r_buf r" "r_pos r \<le> r_pos r1"
    using bounded_readD [OF bounded_read_uint assms(2) n(1)] by simp_all
  then have "bits_remaining r1 \<le> bits_remaining r" by (simp add: bits_remaining_def)
  moreover have "bits_remaining r < usize_max" using assms(3) by (simp add: bits_remaining_def)
  ultimately show "8 * length bs \<le> bits_remaining r"
    using n(3) len by (auto simp: saturating_mul_def min_def split: if_splits)
qed

section \<open>Characters\<close>

text \<open>
  A Rust \<open>char\<close> is a Unicode scalar value, here its 32-bit code point; a string is the list of its
  characters. \<open>char_from_u32\<close> refuses surrogates and code points past 10FFFF.
\<close>

type_synonym rstring = "u32 list"

definition is_scalar :: "u32 \<Rightarrow> bool" where
  "is_scalar c \<longleftrightarrow> c < 0xD800 \<or> (0xE000 \<le> c \<and> c \<le> 0x10FFFF)"

definition char_from_u32 :: "u32 \<Rightarrow> u32 option" where
  "char_from_u32 c = (if is_scalar c then Some c else None)"

definition u32_try_from :: "u64 \<Rightarrow> u32 option" where
  "u32_try_from v = (if unat v < 2 ^ 32 then Some (ucast v) else None)"

fun write_chars :: "rstring \<Rightarrow> bit_writer \<Rightarrow> exi_error + bit_writer" where
  "write_chars [] w = Inr w"
| "write_chars (c # cs) w = ebind (write_uint (ucast c) w) (write_chars cs)"

fun read_chars_loop :: "nat \<Rightarrow> bit_reader \<Rightarrow> exi_error + (rstring \<times> bit_reader)" where
  "read_chars_loop 0 r = Inr ([], r)"
| "read_chars_loop (Suc n) r =
     ebind (read_uint r) (\<lambda>(cp, r').
     ebind (ok_or (u32_try_from cp) InvalidCodePoint) (\<lambda>cp'.
     ebind (ok_or (char_from_u32 cp') InvalidCodePoint) (\<lambda>c.
     ebind (read_chars_loop n r') (\<lambda>(cs, r''). Inr (c # cs, r'')))))"

definition read_chars :: "nat \<Rightarrow> bit_reader \<Rightarrow> exi_error + (rstring \<times> bit_reader)" where
  "read_chars count r =
     (if saturating_mul count 8 > bits_remaining r then Inl UnexpectedEnd else read_chars_loop count r)"

definition char_len :: "rstring \<Rightarrow> nat" where
  "char_len s = length s"

definition wf_string :: "rstring \<Rightarrow> bool" where
  "wf_string s \<longleftrightarrow> list_all is_scalar s"

definition chars_code :: "rstring \<Rightarrow> bool list" where
  "chars_code s = concat (map (\<lambda>c. uint_code (ucast c)) s)"

lemma emits_write_chars: "emits (write_chars s) (chars_code s)"
proof (induction s)
  case Nil
  show ?case by (rule emits_cong [of Inr]) (simp_all add: chars_code_def)
next
  case (Cons c s)
  have "emits (write_chars (c # s)) (uint_code (ucast c) @ chars_code s)"
    by (rule emits_cong [OF emits_bind [OF emits_write_uint Cons.IH]]) simp
  then show ?case by (simp only: chars_code_def list.map concat.simps)
qed

lemma length_uint_code_ge: "8 \<le> length (uint_code v)"
  by (subst uint_code_def, subst uint_octets.simps) simp

lemma length_chars_code_ge: "8 * length s \<le> length (chars_code s)"
proof (induction s)
  case (Cons c s)
  then show ?case using length_uint_code_ge [of "ucast c"] by (simp add: chars_code_def)
qed (simp add: chars_code_def)

lemma u32_round [simp]: "u32_try_from (ucast c) = Some (c :: u32)"
proof -
  have "unat c < 2 ^ 32" using unsigned_less [of c] by simp
  moreover have "unat (ucast c :: u64) = unat c"
    using \<open>unat c < 2 ^ 32\<close> by (simp add: unsigned_ucast_eq take_bit_nat_eq_self)
  moreover have "ucast (ucast c :: u64) = c" by (rule bit_word_eqI) (simp add: bit_simps)
  ultimately show ?thesis by (simp add: u32_try_from_def)
qed

lemma parses_read_chars_loop: "wf_string s \<Longrightarrow> parses (read_chars_loop (length s)) (chars_code s) s"
proof (induction s)
  case Nil
  have "parses (\<lambda>r. Inr ([], r)) (chars_code []) []" by (simp add: chars_code_def)
  then show ?case by (rule parses_cong) simp
next
  case (Cons c s)
  then have c: "is_scalar c" and s: "wf_string s" by (simp_all add: wf_string_def)
  have "parses (\<lambda>r. ebind (read_uint r) (\<lambda>(cp, r').
     ebind (ok_or (u32_try_from cp) InvalidCodePoint) (\<lambda>cp'.
     ebind (ok_or (char_from_u32 cp') InvalidCodePoint) (\<lambda>c.
     ebind (read_chars_loop (length s) r') (\<lambda>(cs, r''). Inr (c # cs, r'')))))) (chars_code (c # s)) (c # s)"
    by (rule parses_bindI [OF parses_read_uint [of "ucast c"], where bs = "chars_code s"])
      (simp_all add: c char_from_u32_def chars_code_def parses_map [OF Cons.IH [OF s], unfolded chars_code_def])
  then show ?case by (rule parses_cong) simp
qed

lemma parses_read_chars: "wf_string s \<Longrightarrow> parses (read_chars (length s)) (chars_code s) s"
  unfolding read_chars_def
  by (intro parses_guard parses_read_chars_loop)
    (use length_chars_code_ge [of s] in \<open>simp_all add: saturating_mul_def\<close>)

lemma bounded_read_chars_loop: "bounded_read (read_chars_loop n)"
proof (induction n)
  case 0
  show ?case by (rule bounded_cong [OF bounded_return]) simp
next
  case (Suc n)
  have "bounded_read (\<lambda>r. ebind m (\<lambda>x. ebind (k x) (\<lambda>c. ebind (read_chars_loop n r) (\<lambda>(cs, r''). Inr (c # cs, r'')))))"
    for m :: "exi_error + u32" and k
  proof (cases m)
    case (Inr x)
    then show ?thesis by (cases "k x") (simp_all add: bounded_bind Suc)
  qed simp
  then have "bounded_read (\<lambda>r. ebind (read_uint r) (\<lambda>(cp, r').
     ebind (ok_or (u32_try_from cp) InvalidCodePoint) (\<lambda>cp'.
     ebind (ok_or (char_from_u32 cp') InvalidCodePoint) (\<lambda>c.
     ebind (read_chars_loop n r') (\<lambda>(cs, r''). Inr (c # cs, r''))))))"
    by (intro bounded_bind bounded_read_uint)
  then show ?case by (rule bounded_cong) simp
qed

lemma bounded_read_chars [simp]: "bounded_read (read_chars n)"
  unfolding read_chars_def by (intro bounded_if bounded_fail bounded_read_chars_loop)

interpretation chars: exi_codec write_chars "read_chars n" chars_code
  "\<lambda>s. wf_string s \<and> char_len s = n" for n
  by unfold_locales (auto simp: emits_write_chars parses_read_chars char_len_def)

text \<open>Only Unicode scalar values come out of the decoder.\<close>

lemma read_chars_loop_wf: "read_chars_loop n r = Inr (s, r') \<Longrightarrow> wf_string s \<and> length s = n"
  by (induction n arbitrary: r s r')
    (auto simp: wf_string_def ebind_eq_Inr ok_or_eq_Inr char_from_u32_def split: if_splits)

lemma read_chars_wf: "read_chars n r = Inr (s, r') \<Longrightarrow> wf_string s \<and> length s = n"
  by (auto simp: read_chars_def split: if_splits dest: read_chars_loop_wf)

section \<open>Properties\<close>

text \<open>
  Every \<open>u64\<close> survives the seven-bit groups of an Unsigned Integer: what was written is read back, and
  only the padding of the last byte is left. No value needs more octets than the reader accepts.
\<close>

lemma uint_roundtrip:
  assumes "write_uint v (bw_new buf) = Inr w" and "bw_finish w = Inr (n, out)"
  shows "\<exists>r r'. read_uint (br_new (take n out)) = Inr (v, r) \<and> skip_padding r = Inr r' \<and> bits_remaining r' = 0"
  using uint.roundtrip [OF TrueI assms] .

lemma uint_roundtrip_witness:
  "\<exists>w n out r. write_uint 300 (bw_new (replicate 10 0)) = Inr w \<and> bw_finish w = Inr (n, out)
     \<and> read_uint (br_new (take n out)) = Inr (300, r)"
proof -
  have "length (uint_code 300) \<le> 8 * length (replicate 10 (0 :: u8))" by code_simp
  from uint.fits_fresh [OF TrueI this] show ?thesis using uint_roundtrip by blast
qed

text \<open>
  Every \<open>i64\<close>, the least one included, survives sign and magnitude.
\<close>

lemma int_roundtrip:
  assumes "i64_range v" and "write_int v (bw_new buf) = Inr w" and "bw_finish w = Inr (n, out)"
  shows "\<exists>r r'. read_int (br_new (take n out)) = Inr (v, r) \<and> skip_padding r = Inr r' \<and> bits_remaining r' = 0"
  using sint.roundtrip [OF assms] .

lemma int_roundtrip_witness:
  "\<exists>w n out r. write_int (-300) (bw_new (replicate 4 0)) = Inr w \<and> bw_finish w = Inr (n, out)
     \<and> read_int (br_new (take n out)) = Inr (-300, r)"
proof -
  have rng: "i64_range (-300)" and "length (int_code (-300)) \<le> 8 * length (replicate 4 (0 :: u8))" by code_simp+
  from sint.fits_fresh [OF this] show ?thesis using int_roundtrip [OF rng] by blast
qed

text \<open>
  \<open>bit_width\<close>, computed from leading zeros, is the least width in which that many values fit: the
  ceiling of the binary logarithm, over the whole range of \<open>u64\<close>.
\<close>

lemma bit_width_least: "bit_width c \<le> k \<longleftrightarrow> unat c \<le> 2 ^ k"
proof
  assume "bit_width c \<le> k"
  then have "(2 :: nat) ^ bit_width c \<le> 2 ^ k" by (simp only: power_increasing_iff)
  with bit_width_upper [of c] show "unat c \<le> 2 ^ k" by (rule le_trans)
next
  assume "unat c \<le> 2 ^ k"
  then show "bit_width c \<le> k" using bit_width_lower [of k c] by (meson not_le)
qed

text \<open>
  A length field cannot make the reader allocate: what \<open>read_binary\<close> returns is within the caller's
  limit and was in the stream.
\<close>

lemma read_binary_bounded:
  assumes "read_binary m r = Inr (bs, r')" and "wf_reader r" and "8 * length (r_buf r) < usize_max"
  shows "length bs \<le> m \<and> 8 * length bs \<le> bits_remaining r"
  using read_binary_length [OF assms] by simp

lemma read_binary_bounded_witness:
  "\<exists>bs r'. read_binary 4 (br_new [2, 7, 9]) = Inr (bs, r') \<and> length bs \<le> 4"
proof -
  have "\<not> isl (read_binary 4 (br_new [2, 7, 9]))" by code_simp
  then obtain bs r' where "read_binary 4 (br_new [2, 7, 9]) = Inr (bs, r')" by (metis isl_def surj_pair sum.exhaust_sel)
  with read_binary_bounded [OF this] show ?thesis by (simp add: usize_max_def)
qed

end
