(* ===== verification/Exi_Values.thy ===== *)
theory Exi_Values
  imports Primitives
begin

unbundle bit_operations_syntax

text \<open>
  The composite value types of \<open>src/src/exi/primitives.rs\<close>: \<open>Fraction\<close>, the digit string EXI stores
  reversed, and the \<open>Decimal\<close>, \<open>Float\<close> and \<open>DateTime\<close> built on the integer codings. The arithmetic
  of \<open>Fraction\<close> runs on 64-bit words as the source has it, and is compared with digit reversal on
  natural numbers. The four write/read pairs are interpretations of \<open>exi_codec\<close>.
\<close>

section \<open>Fraction\<close>

datatype fraction = Fraction (as_reversed: u64)

definition Fraction_ZERO :: fraction where
  "Fraction_ZERO = Fraction 0"

definition MAX_DIGITS :: nat where
  "MAX_DIGITS = 19"

definition MAX_REVERSED :: u64 where
  "MAX_REVERSED = 9999999999999999999"

definition from_reversed :: "u64 \<Rightarrow> fraction option" where
  "from_reversed v = (if v > MAX_REVERSED then None else Some (Fraction v))"

fun limit_loop :: "nat \<Rightarrow> u64 \<Rightarrow> u64 option" where
  "limit_loop 0 limit = Some limit"
| "limit_loop (Suc n) limit =
     (case checked_mul_u64 limit 10 of None \<Rightarrow> None | Some next \<Rightarrow> limit_loop n next)"

fun reverse_loop :: "nat \<Rightarrow> u64 \<Rightarrow> u64 \<Rightarrow> u64 option" where
  "reverse_loop 0 reversed rest = Some reversed"
| "reverse_loop (Suc n) reversed rest =
     (case checked_mul_u64 reversed 10 of None \<Rightarrow> None
      | Some scaled \<Rightarrow>
        (case checked_add_u64 scaled (rest mod 10) of None \<Rightarrow> None
         | Some next \<Rightarrow> reverse_loop n next (rest div 10)))"

definition from_digits :: "u64 \<Rightarrow> nat \<Rightarrow> fraction option" where
  "from_digits v digits =
     (if digits = 0 then (if v = 0 then Some Fraction_ZERO else None)
      else if digits > MAX_DIGITS then None
      else (case limit_loop digits 1 of None \<Rightarrow> None
            | Some limit \<Rightarrow>
              if v \<ge> limit then None
              else map_option Fraction (reverse_loop digits 0 v)))"

lemma unat_div_ten [simp]: "unat (v div 10 :: u64) = unat v div 10"
  by (simp add: unat_div_distrib)

lemma unat_mod_ten [simp]: "unat (v mod 10 :: u64) = unat v mod 10"
  by (simp add: unat_mod_distrib)

lemma unat_div_ten_less: "v div 10 \<noteq> 0 \<Longrightarrow> unat v div 10 < unat (v :: u64)"
  by (metis div_less_dividend gr0I one_less_numeral_iff semiring_norm(76) unat_div_ten unat_eq_zero div_0)

function digits_loop :: "nat \<Rightarrow> u64 \<Rightarrow> nat" where
  "digits_loop digits rest = (if rest \<noteq> 0 then digits_loop (digits + 1) (rest div 10) else digits)"
  by pat_completeness auto
termination
  by (relation "measure (\<lambda>(digits, rest). unat rest)")
    (auto intro: div_less_dividend simp: unat_gt_0)

declare digits_loop.simps [simp del]

definition fraction_digits :: "fraction \<Rightarrow> nat" where
  "fraction_digits f = digits_loop 1 (as_reversed f div 10)"

text \<open>The arithmetic of \<open>value\<close> is unchecked: a product that does not fit would wrap.\<close>

function value_loop :: "u64 \<Rightarrow> u64 \<Rightarrow> u64" where
  "value_loop out rest =
     (let out' = out * 10 + rest mod 10; rest' = rest div 10 in
      if rest' = 0 then out' else value_loop out' rest')"
  by pat_completeness auto
termination
  by (relation "measure (\<lambda>(out, rest). unat rest)") (auto simp: unat_div_ten_less)

declare value_loop.simps [simp del]

definition fraction_value :: "fraction \<Rightarrow> u64" where
  "fraction_value f = value_loop 0 (as_reversed f)"

definition fraction_is_zero :: "fraction \<Rightarrow> bool" where
  "fraction_is_zero f \<longleftrightarrow> as_reversed f = 0"

definition write_fraction :: "fraction \<Rightarrow> bit_writer \<Rightarrow> exi_error + bit_writer" where
  "write_fraction f w = write_uint (as_reversed f) w"

definition read_fraction :: "bit_reader \<Rightarrow> exi_error + (fraction \<times> bit_reader)" where
  "read_fraction r =
     ebind (read_uint r) (\<lambda>(v, r').
     ebind (ok_or (from_reversed v) IntegerOverflow) (\<lambda>f. Inr (f, r')))"

text \<open>The invariant of the type: at most nineteen digits.\<close>

definition wf_fraction :: "fraction \<Rightarrow> bool" where
  "wf_fraction f \<longleftrightarrow> as_reversed f \<le> MAX_REVERSED"

subsection \<open>Digit reversal\<close>

text \<open>\<open>revd d n\<close> writes \<open>n\<close> with \<open>d\<close> decimal digits and reads them backwards.\<close>

fun revd :: "nat \<Rightarrow> nat \<Rightarrow> nat" where
  "revd 0 n = 0"
| "revd (Suc d) n = (n mod 10) * 10 ^ d + revd d (n div 10)"

lemma revd_less: "revd d n < 10 ^ d"
proof (induction d arbitrary: n)
  case (Suc d)
  have "n mod 10 \<le> 9" using mod_less_divisor [of 10 n] by linarith
  then have "(n mod 10) * 10 ^ d \<le> 9 * 10 ^ d" by (rule mult_le_mono1)
  then show ?case using Suc [of "n div 10"] unfolding revd.simps power_Suc by linarith
qed simp

lemma revd_top: "a < 10 ^ d \<Longrightarrow> x < 10 \<Longrightarrow> revd (Suc d) (a + 10 ^ d * x) = 10 * revd d a + x"
proof (induction d arbitrary: a)
  case (Suc d)
  have split: "a + 10 ^ Suc d * x = 10 * (a div 10 + 10 ^ d * x) + a mod 10" by simp
  have "(a + 10 ^ Suc d * x) mod 10 = a mod 10" "(a + 10 ^ Suc d * x) div 10 = a div 10 + 10 ^ d * x"
    by (subst split, simp)+
  moreover have "revd (Suc d) (a div 10 + 10 ^ d * x) = 10 * revd d (a div 10) + x"
    using Suc.prems by (intro Suc.IH) auto
  ultimately show ?case by (subst revd.simps) simp
qed simp

lemma revd_revd: "n < 10 ^ d \<Longrightarrow> revd d (revd d n) = n"
proof (induction d arbitrary: n)
  case (Suc d)
  then have "n div 10 < 10 ^ d" by auto
  with Suc.IH have "revd d (revd d (n div 10)) = n div 10" by blast
  then show ?case
    using revd_top [OF revd_less, of "n mod 10" d "n div 10"] by (simp add: algebra_simps)
qed simp

lemma revd_pad: "n < 10 ^ k \<Longrightarrow> k \<le> d \<Longrightarrow> revd d n = revd k n * 10 ^ (d - k)"
proof (induction k arbitrary: d n)
  case 0
  have "revd m 0 = 0" for m by (induction m) simp_all
  with 0 show ?case by simp
next
  case (Suc k)
  then obtain e where d: "d = Suc e" "k \<le> e" by (cases d) auto
  from Suc.prems have "n div 10 < 10 ^ k" by auto
  with Suc.IH d have "revd e (n div 10) = revd k (n div 10) * 10 ^ (e - k)" by blast
  moreover have "(10::nat) ^ e = 10 ^ k * 10 ^ (e - k)" using d by (simp flip: power_add)
  ultimately show ?case by (simp add: d algebra_simps)
qed

subsection \<open>The word arithmetic computes digit reversal\<close>

lemma ten_pow_19: "d \<le> 19 \<Longrightarrow> (10::nat) ^ d < 2 ^ 64"
  by (rule le_less_trans [OF power_increasing [of d 19]]) simp_all

lemma limit_loop_pow: "unat l * 10 ^ n < 2 ^ 64 \<Longrightarrow> \<exists>m. limit_loop n l = Some m \<and> unat m = unat l * 10 ^ n"
proof (induction n arbitrary: l)
  case (Suc n)
  have "unat l * 10 \<le> unat l * 10 ^ Suc n" by simp
  with Suc.prems have "unat l * 10 < 2 ^ 64" by (rule le_less_trans [rotated])
  then have m: "checked_mul_u64 l 10 = Some (l * 10)" "unat (l * 10) = unat l * 10"
    using checked_mul_u64_fits [of l 10] by simp_all
  then have "\<exists>m. limit_loop n (l * 10) = Some m \<and> unat m = unat l * 10 * 10 ^ n"
    using Suc.IH [of "l * 10"] Suc.prems by (simp only: mult.assoc power_Suc)
  then show ?case using m(1) by (simp only: limit_loop.simps option.case mult.assoc power_Suc)
qed simp

lemma reverse_loop_revd:
  assumes "unat a * 10 ^ n + revd n (unat r) < 2 ^ 64"
  shows "reverse_loop n a r = Some (of_nat (unat a * 10 ^ n + revd n (unat r)))"
  using assms
proof (induction n arbitrary: a r)
  case (Suc n)
  let ?x = "unat a * 10 + unat r mod 10"
  have step: "?x * 10 ^ n + revd n (unat r div 10) = unat a * 10 ^ Suc n + revd (Suc n) (unat r)"
    by (simp add: algebra_simps)
  have "?x * 1 \<le> ?x * 10 ^ n" by (rule mult_le_mono2) simp
  then have "?x \<le> ?x * 10 ^ n + revd n (unat r div 10)" by (simp only: mult_1_right trans_le_add1)
  then have x: "?x < 2 ^ 64" using step Suc.prems by linarith
  define s where "s = a * 10"
  define t where "t = s + r mod 10"
  have s: "checked_mul_u64 a 10 = Some s" "unat s = unat a * 10"
    using x checked_mul_u64_fits [of a 10] by (simp_all add: s_def)
  have t: "checked_add_u64 s (r mod 10) = Some t" "unat t = ?x"
    using x s checked_add_u64_fits [of s "r mod 10"] by (simp_all add: t_def)
  have "reverse_loop n t (r div 10) = Some (of_nat (?x * 10 ^ n + revd n (unat r div 10)))"
    using Suc.IH [of t "r div 10"] t(2) step Suc.prems by simp
  then show ?case using s t by (simp only: step reverse_loop.simps option.case)
qed simp

text \<open>\<open>from_digits\<close> succeeds exactly when the value fits its digits; the reversal never overflows.\<close>

lemma from_digits_eq:
  "from_digits v d =
     (if d = 0 \<and> v = 0 then Some Fraction_ZERO
      else if 0 < d \<and> d \<le> 19 \<and> unat v < 10 ^ d then Some (Fraction (of_nat (revd d (unat v))))
      else None)"
proof (cases "0 < d \<and> d \<le> 19")
  case True
  then have p: "(10::nat) ^ d < 2 ^ 64" using ten_pow_19 by blast
  then obtain m where m: "limit_loop d 1 = Some m" "unat m = 10 ^ d"
    using limit_loop_pow [of 1 d] by auto
  have "reverse_loop d 0 v = Some (of_nat (revd d (unat v)))"
    using reverse_loop_revd [of 0 d v] revd_less [of d "unat v"] p by simp
  then show ?thesis using True m
    by (auto simp: from_digits_def MAX_DIGITS_def word_le_nat_alt)
qed (auto simp: from_digits_def MAX_DIGITS_def)

lemma wf_fraction_iff: "wf_fraction f \<longleftrightarrow> unat (as_reversed f) < 10 ^ 19"
  unfolding wf_fraction_def MAX_REVERSED_def word_le_nat_alt by (rule iffI) simp_all

lemma from_digits_wf: "from_digits v d = Some f \<Longrightarrow> wf_fraction f"
proof (cases d)
  case (Suc e)
  assume "from_digits v d = Some f"
  with Suc have d: "d \<le> 19" and f: "f = Fraction (of_nat (revd d (unat v)))"
    by (auto simp: from_digits_eq split: if_splits)
  have "revd d (unat v) < 10 ^ d" by (rule revd_less)
  moreover from d have "(10::nat) ^ d \<le> 10 ^ 19" by (rule power_increasing) simp
  ultimately show ?thesis unfolding wf_fraction_iff f
    using unat_of_nat_u64 [of "revd d (unat v)"] by simp
qed (auto simp: from_digits_eq wf_fraction_iff Fraction_ZERO_def split: if_splits)

lemma digits_loop_eq: "digits_loop k r = k + digits_loop 0 r"
proof (induction r arbitrary: k rule: measure_induct_rule [of unat])
  case (less r)
  show ?case
  proof (cases "r = 0")
    case False
    then have "unat (r div 10) < unat r" by (auto intro: div_less_dividend simp: unat_gt_0)
    from less [OF this, of "Suc k"] less [OF this, of 1] show ?thesis
      by (subst (1 2) digits_loop.simps) simp
  qed (simp add: digits_loop.simps)
qed

lemma fraction_digits_pos: "1 \<le> fraction_digits f"
  unfolding fraction_digits_def by (subst digits_loop_eq) simp

lemma value_loop_revd:
  assumes "(unat out + 1) * 10 ^ fraction_digits (Fraction r) \<le> 2 ^ 64"
  shows "unat (value_loop out r) = unat out * 10 ^ fraction_digits (Fraction r) + revd (fraction_digits (Fraction r)) (unat r)
     \<and> unat r < 10 ^ fraction_digits (Fraction r)"
  using assms
proof (induction out r rule: value_loop.induct)
  case (1 out r)
  let ?out = "out * 10 + r mod 10"
  let ?k = "fraction_digits (Fraction (r div 10))"
  have one: "(unat out + 1) * 10 \<le> 2 ^ 64"
  proof -
    have "(unat out + 1) * 10 ^ 1 \<le> (unat out + 1) * 10 ^ fraction_digits (Fraction r)"
      by (intro mult_le_mono2 power_increasing fraction_digits_pos) simp
    then show ?thesis using "1.prems" by simp
  qed
  then have out: "unat ?out = unat out * 10 + unat r mod 10"
    by (simp add: unat_word_ariths mod_add_left_eq)
  show ?case
  proof (cases "r div 10 = 0")
    case True
    then have k: "fraction_digits (Fraction r) = 1" by (simp add: fraction_digits_def digits_loop.simps)
    have "unat r div 10 = 0" using True by (metis unat_div_ten unat_0)
    then show ?thesis using out k True by (simp add: value_loop.simps [of out] div_eq_0_iff)
  next
    case False
    have k: "fraction_digits (Fraction r) = Suc ?k"
      using digits_loop_eq [of 2 "r div 10 div 10"] digits_loop_eq [of 1 "r div 10 div 10"]
        digits_loop.simps [of 1 "r div 10"] False
      by (simp add: fraction_digits_def numeral_2_eq_2)
    have "(unat ?out + 1) * 10 ^ ?k \<le> (unat out + 1) * 10 * 10 ^ ?k"
      unfolding out by (intro mult_le_mono1) simp
    also have "\<dots> \<le> 2 ^ 64" using "1.prems" by (simp add: k algebra_simps)
    finally have ih: "unat (value_loop ?out (r div 10)) = unat ?out * 10 ^ ?k + revd ?k (unat (r div 10))"
        "unat (r div 10) < 10 ^ ?k"
      using "1.IH" [OF refl refl False] by simp_all
    have "unat r < 10 ^ Suc ?k" using ih(2) by simp
    with ih(1) show ?thesis
      by (simp add: value_loop.simps [of out r] False Let_def k out algebra_simps)
  qed
qed

lemma fraction_digits_least: "unat r < 10 ^ k \<Longrightarrow> 1 \<le> k \<Longrightarrow> fraction_digits (Fraction r) \<le> k"
proof (induction k arbitrary: r)
  case (Suc k)
  show ?case
  proof (cases "r div 10 = 0")
    case True
    then show ?thesis by (simp add: fraction_digits_def digits_loop.simps)
  next
    case False
    then have "unat r div 10 \<noteq> 0" by (metis unat_div_ten unat_eq_zero)
    moreover have "unat r div 10 < 10 ^ k" using Suc.prems by auto
    ultimately have "1 \<le> k" by (cases k) auto
    then have "fraction_digits (Fraction (r div 10)) \<le> k"
      using \<open>unat r div 10 < 10 ^ k\<close> by (intro Suc.IH) simp_all
    then show ?thesis
      using digits_loop_eq [of 2 "r div 10 div 10"] digits_loop_eq [of 1 "r div 10 div 10"]
        digits_loop.simps [of 1 "r div 10"] False
      by (simp add: fraction_digits_def numeral_2_eq_2)
  qed
qed simp

lemma fraction_value_revd:
  assumes "wf_fraction f"
  shows "unat (fraction_value f) = revd (fraction_digits f) (unat (as_reversed f))"
    and "unat (as_reversed f) < 10 ^ fraction_digits f"
proof -
  obtain r where f: "f = Fraction r" by (cases f)
  have "fraction_digits f \<le> 19"
    using assms fraction_digits_least [of r 19] by (simp add: wf_fraction_iff f)
  then have "(10::nat) ^ fraction_digits f \<le> 2 ^ 64" using ten_pow_19 less_imp_le by blast
  then show "unat (fraction_value f) = revd (fraction_digits f) (unat (as_reversed f))"
    and "unat (as_reversed f) < 10 ^ fraction_digits f"
    using value_loop_revd [of 0 r] by (simp_all add: fraction_value_def f)
qed

text \<open>
  \<open>from_digits v d\<close> denotes the number \<open>v / 10^d\<close>: trailing zeros are dropped, nothing else is.
  Reading a fraction's digits and building it again gives the same wire form.
\<close>

lemma from_digits_exact:
  assumes "from_digits v d = Some f"
  shows "unat (fraction_value f) * 10 ^ (d - fraction_digits f) = unat v"
proof (cases "d = 0")
  case True
  with assms have "v = 0" "f = Fraction 0"
    by (auto simp: from_digits_eq Fraction_ZERO_def split: if_splits)
  then show ?thesis using True by (simp add: fraction_value_def value_loop.simps)
next
  case False
  with assms have d: "1 \<le> d" "d \<le> 19" and v: "unat v < 10 ^ d"
    and f: "f = Fraction (of_nat (revd d (unat v)))"
    by (auto simp: from_digits_eq split: if_splits)
  have p: "(10::nat) ^ d < 2 ^ 64" using d(2) by (rule ten_pow_19)
  then have r: "unat (as_reversed f) = revd d (unat v)"
    unfolding f using revd_less [of d "unat v"] unat_of_nat_u64 by simp
  note val = fraction_value_revd [OF from_digits_wf [OF assms]]
  have "fraction_digits f \<le> d"
    using fraction_digits_least [of "as_reversed f" d] r revd_less [of d "unat v"] d by simp
  then have "revd d (unat (as_reversed f)) = unat (fraction_value f) * 10 ^ (d - fraction_digits f)"
    unfolding val(1) by (rule revd_pad [OF val(2)])
  then show ?thesis using revd_revd [OF v] r by simp
qed

lemma from_digits_value:
  assumes "wf_fraction f"
  shows "from_digits (fraction_value f) (fraction_digits f) = Some f"
proof -
  note val = fraction_value_revd [OF assms]
  have "fraction_digits f \<le> 19"
    using assms fraction_digits_least [of "as_reversed f" 19] by (simp add: wf_fraction_iff)
  moreover have "of_nat (revd (fraction_digits f) (unat (fraction_value f))) = as_reversed f"
    using val revd_revd [OF val(2)] by simp
  ultimately show ?thesis
    using fraction_digits_pos [of f] revd_less [of "fraction_digits f"] val(1)
    by (simp add: from_digits_eq)
qed

subsection \<open>The coding of a fraction\<close>

definition fraction_code :: "fraction \<Rightarrow> bool list" where
  "fraction_code f = uint_code (as_reversed f)"

lemma emits_write_fraction: "emits (write_fraction f) (fraction_code f)"
  unfolding fraction_code_def by (rule emits_cong [OF emits_write_uint]) (simp add: write_fraction_def)

lemma from_reversed_wf: "wf_fraction f \<Longrightarrow> from_reversed (as_reversed f) = Some f"
  by (cases f) (auto simp: from_reversed_def wf_fraction_def)

lemma parses_read_fraction: "wf_fraction f \<Longrightarrow> parses read_fraction (fraction_code f) f"
  unfolding read_fraction_def fraction_code_def
  by (rule parses_bindI [OF parses_read_uint, where bs = "[]"])
    (simp_all add: from_reversed_wf)

lemma bounded_read_fraction [simp]: "bounded_read read_fraction"
  unfolding read_fraction_def by (intro bounded_bind bounded_read_uint bounded_lift)

interpretation fraction: exi_codec write_fraction read_fraction fraction_code wf_fraction
  by unfold_locales (simp_all add: emits_write_fraction parses_read_fraction)

lemma read_fraction_wf: "read_fraction r = Inr (f, r') \<Longrightarrow> wf_fraction f"
  by (auto simp: read_fraction_def ebind_eq_Inr ok_or_eq_Inr from_reversed_def wf_fraction_def split: if_splits)

section \<open>Decimal\<close>

record decimal =
  negative :: bool
  integral :: u64
  fractional :: fraction

definition decimal_new :: "bool \<Rightarrow> u64 \<Rightarrow> u64 \<Rightarrow> nat \<Rightarrow> decimal option" where
  "decimal_new neg int_part frac frac_digits =
     (case from_digits frac frac_digits of
        Some f \<Rightarrow> Some \<lparr>negative = neg, integral = int_part, fractional = f\<rparr>
      | None \<Rightarrow> None)"

definition decimal_integer :: "bool \<Rightarrow> u64 \<Rightarrow> decimal" where
  "decimal_integer neg int_part = \<lparr>negative = neg, integral = int_part, fractional = Fraction_ZERO\<rparr>"

definition write_decimal :: "decimal \<Rightarrow> bit_writer \<Rightarrow> exi_error + bit_writer" where
  "write_decimal d w =
     ebind (write_bool (negative d) w) (\<lambda>w.
     ebind (write_uint (integral d) w) (\<lambda>w.
     write_fraction (fractional d) w))"

definition read_decimal :: "bit_reader \<Rightarrow> exi_error + (decimal \<times> bit_reader)" where
  "read_decimal r =
     ebind (read_bool r) (\<lambda>(neg, r).
     ebind (read_uint r) (\<lambda>(int_part, r).
     ebind (read_fraction r) (\<lambda>(f, r).
     Inr (\<lparr>negative = neg, integral = int_part, fractional = f\<rparr>, r))))"

definition wf_decimal :: "decimal \<Rightarrow> bool" where
  "wf_decimal d \<longleftrightarrow> wf_fraction (fractional d)"

definition decimal_code :: "decimal \<Rightarrow> bool list" where
  "decimal_code d = [negative d] @ uint_code (integral d) @ fraction_code (fractional d)"

lemma emits_write_decimal: "emits (write_decimal d) (decimal_code d)"
  unfolding write_decimal_def decimal_code_def
  by (intro emits_bind emits_write_bool emits_write_uint emits_write_fraction)

lemma parses_read_decimal: "wf_decimal d \<Longrightarrow> parses read_decimal (decimal_code d) d"
  unfolding read_decimal_def decimal_code_def wf_decimal_def
  by (intro parses_bind [OF parses_read_bool] parses_bind [OF parses_read_uint]
      parses_map [OF parses_read_fraction]) simp_all

lemma bounded_read_decimal [simp]: "bounded_read read_decimal"
  unfolding read_decimal_def
  by (intro bounded_bind bounded_read_bool bounded_read_uint bounded_read_fraction bounded_return)

interpretation decimal: exi_codec write_decimal read_decimal decimal_code wf_decimal
  by unfold_locales (simp_all add: emits_write_decimal parses_read_decimal)

section \<open>Float\<close>

record float =
  mantissa :: int
  exponent :: int

definition FLOAT_SPECIAL_EXPONENT :: int where
  "FLOAT_SPECIAL_EXPONENT = - (2 ^ 14)"

definition MIN_EXPONENT :: int where
  "MIN_EXPONENT = - (2 ^ 14) + 1"

definition MAX_EXPONENT :: int where
  "MAX_EXPONENT = 2 ^ 14 - 1"

definition is_special :: "float \<Rightarrow> bool" where
  "is_special f \<longleftrightarrow> exponent f = FLOAT_SPECIAL_EXPONENT"

definition is_nan :: "float \<Rightarrow> bool" where
  "is_nan f \<longleftrightarrow> is_special f \<and> mantissa f \<noteq> 1 \<and> mantissa f \<noteq> -1"

definition is_infinite :: "float \<Rightarrow> bool" where
  "is_infinite f \<longleftrightarrow> is_special f \<and> (mantissa f = 1 \<or> mantissa f = -1)"

definition float_is_valid :: "float \<Rightarrow> bool" where
  "float_is_valid f \<longleftrightarrow> is_special f \<or> (exponent f \<ge> MIN_EXPONENT \<and> exponent f \<le> MAX_EXPONENT)"

definition write_float :: "float \<Rightarrow> bit_writer \<Rightarrow> exi_error + bit_writer" where
  "write_float f w =
     (if \<not> float_is_valid f then Inl InvalidFloat
      else ebind (write_int (mantissa f) w) (\<lambda>w. write_int (exponent f) w))"

definition read_float :: "bit_reader \<Rightarrow> exi_error + (float \<times> bit_reader)" where
  "read_float r =
     ebind (read_int r) (\<lambda>(m, r).
     ebind (read_int r) (\<lambda>(e, r).
     let f = \<lparr>mantissa = m, exponent = e\<rparr> in
     if \<not> float_is_valid f then Inl InvalidFloat else Inr (f, r)))"

definition wf_float :: "float \<Rightarrow> bool" where
  "wf_float f \<longleftrightarrow> i64_range (mantissa f) \<and> float_is_valid f"

definition float_code :: "float \<Rightarrow> bool list" where
  "float_code f = int_code (mantissa f) @ int_code (exponent f)"

lemma float_exponent_range: "float_is_valid f \<Longrightarrow> i64_range (exponent f)"
  by (auto simp: float_is_valid_def is_special_def i64_range_def FLOAT_SPECIAL_EXPONENT_def
      MIN_EXPONENT_def MAX_EXPONENT_def)

lemma emits_write_float: "wf_float f \<Longrightarrow> emits (write_float f) (float_code f)"
  unfolding float_code_def
  by (rule emits_cong [OF emits_bind [OF emits_write_int emits_write_int]])
    (simp add: write_float_def wf_float_def)

lemma parses_read_float:
  assumes "wf_float f"
  shows "parses read_float (float_code f) f"
proof -
  from assms have ok: "i64_range (mantissa f)" "i64_range (exponent f)" "float_is_valid f"
    by (simp_all add: wf_float_def float_exponent_range)
  moreover obtain m e where "f = \<lparr>mantissa = m, exponent = e\<rparr>" by (cases f)
  ultimately have "parses (\<lambda>r. ebind (read_int r) (\<lambda>(e, r).
       let f' = \<lparr>mantissa = mantissa f, exponent = e\<rparr> in
       if \<not> float_is_valid f' then Inl InvalidFloat else Inr (f', r))) (int_code (exponent f)) f"
    by (intro parses_bindI [OF parses_read_int, where bs = "[]"]) (simp_all add: Let_def)
  then show ?thesis
    unfolding read_float_def float_code_def by (rule parses_bind [OF parses_read_int [OF ok(1)]])
qed

lemma bounded_read_float [simp]: "bounded_read read_float"
  unfolding read_float_def Let_def
  by (intro bounded_bind bounded_read_int bounded_if bounded_return bounded_fail)

interpretation float: exi_codec write_float read_float float_code wf_float
  by unfold_locales (simp_all add: emits_write_float parses_read_float)

lemma float_kinds: "float_is_valid f \<Longrightarrow>
    (is_nan f \<or> is_infinite f \<or> MIN_EXPONENT \<le> exponent f) \<and> \<not> (is_nan f \<and> is_infinite f)"
  by (auto simp: is_nan_def is_infinite_def float_is_valid_def)

section \<open>Date-Time\<close>

text \<open>
  An optional field travels behind a Boolean. The source writes the two matches out; here they are
  \<open>write_opt\<close> and \<open>read_opt\<close>.
\<close>

definition write_opt :: "('a \<Rightarrow> bit_writer \<Rightarrow> exi_error + bit_writer) \<Rightarrow> 'a option \<Rightarrow>
    bit_writer \<Rightarrow> exi_error + bit_writer" where
  "write_opt put x w =
     (case x of Some v \<Rightarrow> ebind (write_bool True w) (put v) | None \<Rightarrow> write_bool False w)"

definition read_opt :: "(bit_reader \<Rightarrow> exi_error + ('a \<times> bit_reader)) \<Rightarrow>
    bit_reader \<Rightarrow> exi_error + ('a option \<times> bit_reader)" where
  "read_opt get r =
     ebind (read_bool r) (\<lambda>(present, r).
     if present then ebind (get r) (\<lambda>(v, r). Inr (Some v, r)) else Inr (None, r))"

record datetime =
  year :: int
  month :: u8
  day :: u8
  hour :: u8
  minute :: u8
  second :: u8
  fractional_secs :: "fraction option"
  timezone_minutes :: "int option"

definition DATETIME_YEAR_OFFSET :: int where
  "DATETIME_YEAR_OFFSET = 2000"

definition MAX_HOUR :: u8 where
  "MAX_HOUR = 24"

definition TZ_BIAS :: int where
  "TZ_BIAS = 896"

definition i16_try_from :: "int \<Rightarrow> int option" where
  "i16_try_from v = (if - (2 ^ 15) \<le> v \<and> v < 2 ^ 15 then Some v else None)"

text \<open>The two range checks, which the writer and the reader share.\<close>

definition bad_date :: "datetime \<Rightarrow> bool" where
  "bad_date dt \<longleftrightarrow> month dt = 0 \<or> month dt > 12 \<or> day dt = 0 \<or> day dt > 31"

definition bad_time :: "datetime \<Rightarrow> bool" where
  "bad_time dt \<longleftrightarrow> hour dt > MAX_HOUR \<or> minute dt > 59 \<or> second dt > 60"

definition month_day_field :: "datetime \<Rightarrow> u64" where
  "month_day_field dt = ucast (month dt) * 32 + ucast (day dt)"

definition time_field :: "datetime \<Rightarrow> u64" where
  "time_field dt = (ucast (hour dt) * 64 + ucast (minute dt)) * 64 + ucast (second dt)"

definition write_timezone :: "int \<Rightarrow> bit_writer \<Rightarrow> exi_error + bit_writer" where
  "write_timezone tz w =
     (let biased = tz + TZ_BIAS in
      if \<not> (0 \<le> biased \<and> biased < 2048) then Inl InvalidDateTime
      else write_nbit_uint (of_int biased) 11 w)"

definition read_timezone :: "bit_reader \<Rightarrow> exi_error + (int \<times> bit_reader)" where
  "read_timezone r =
     ebind (read_nbit_uint 11 r) (\<lambda>(v, r).
     ebind (ok_or (i64_try_from v) InvalidDateTime) (\<lambda>biased.
     ebind (ok_or (i16_try_from (biased - TZ_BIAS)) InvalidDateTime) (\<lambda>tz.
     Inr (tz, r))))"

definition write_datetime :: "datetime \<Rightarrow> bit_writer \<Rightarrow> exi_error + bit_writer" where
  "write_datetime dt w =
     (if bad_date dt then Inl InvalidDateTime
      else if bad_time dt then Inl InvalidDateTime
      else
        ebind (ok_or (checked_i64 (year dt - DATETIME_YEAR_OFFSET)) InvalidDateTime) (\<lambda>year_offset.
        ebind (write_int year_offset w) (\<lambda>w.
        ebind (write_nbit_uint (month_day_field dt) 9 w) (\<lambda>w.
        ebind (write_nbit_uint (time_field dt) 17 w) (\<lambda>w.
        ebind (write_opt write_fraction (fractional_secs dt) w) (\<lambda>w.
        write_opt write_timezone (timezone_minutes dt) w))))))"

definition datetime_of :: "int \<Rightarrow> u64 \<Rightarrow> u64 \<Rightarrow> fraction option \<Rightarrow> int option \<Rightarrow> datetime" where
  "datetime_of y month_day time frac tz =
     \<lparr>year = y, month = ucast (month_day div 32), day = ucast (month_day mod 32),
      hour = ucast (time div 4096), minute = ucast ((time div 64) mod 64), second = ucast (time mod 64),
      fractional_secs = frac, timezone_minutes = tz\<rparr>"

definition read_datetime :: "bit_reader \<Rightarrow> exi_error + (datetime \<times> bit_reader)" where
  "read_datetime r =
     ebind (read_int r) (\<lambda>(offset, r).
     ebind (ok_or (checked_i64 (offset + DATETIME_YEAR_OFFSET)) InvalidDateTime) (\<lambda>y.
     ebind (read_nbit_uint 9 r) (\<lambda>(month_day, r).
     ebind (read_nbit_uint 17 r) (\<lambda>(time, r).
     ebind (read_opt read_fraction r) (\<lambda>(frac, r).
     ebind (read_opt read_timezone r) (\<lambda>(tz, r).
     let dt = datetime_of y month_day time frac tz in
     if bad_date dt then Inl InvalidDateTime
     else if bad_time dt then Inl InvalidDateTime
     else Inr (dt, r)))))))"

definition wf_timezone :: "int \<Rightarrow> bool" where
  "wf_timezone tz \<longleftrightarrow> 0 \<le> tz + TZ_BIAS \<and> tz + TZ_BIAS < 2048"

definition wf_datetime :: "datetime \<Rightarrow> bool" where
  "wf_datetime dt \<longleftrightarrow> \<not> bad_date dt \<and> \<not> bad_time dt \<and> i64_range (year dt)
     \<and> i64_range (year dt - DATETIME_YEAR_OFFSET)
     \<and> pred_option wf_fraction (fractional_secs dt) \<and> pred_option wf_timezone (timezone_minutes dt)"

definition opt_code :: "('a \<Rightarrow> bool list) \<Rightarrow> 'a option \<Rightarrow> bool list" where
  "opt_code code x = (case x of Some v \<Rightarrow> True # code v | None \<Rightarrow> [False])"

definition timezone_code :: "int \<Rightarrow> bool list" where
  "timezone_code tz = msb_bits 11 (of_int (tz + TZ_BIAS))"

definition datetime_code :: "datetime \<Rightarrow> bool list" where
  "datetime_code dt = int_code (year dt - DATETIME_YEAR_OFFSET) @ msb_bits 9 (month_day_field dt)
     @ msb_bits 17 (time_field dt) @ opt_code fraction_code (fractional_secs dt)
     @ opt_code timezone_code (timezone_minutes dt)"

lemma emits_write_opt:
  assumes "\<And>v. x = Some v \<Longrightarrow> emits (put v) (code v)"
  shows "emits (write_opt put x) (opt_code code x)"
proof (cases x)
  case None
  have "emits (write_opt put None) [False]"
    by (rule emits_cong [OF emits_write_bool]) (simp add: write_opt_def)
  then show ?thesis by (simp add: opt_code_def None)
next
  case (Some v)
  have "emits (\<lambda>w. ebind (write_bool True w) (put v)) ([True] @ code v)"
    using assms Some by (intro emits_bind emits_write_bool) simp
  then have "emits (write_opt put (Some v)) ([True] @ code v)" by (rule emits_cong) (simp add: write_opt_def)
  then show ?thesis by (simp add: opt_code_def Some)
qed

lemma parses_read_opt:
  assumes "\<And>v. x = Some v \<Longrightarrow> parses get (code v) v"
  shows "parses (read_opt get) (opt_code code x) x"
proof (cases x)
  case None
  then show ?thesis unfolding read_opt_def
    by (intro parses_bindI [OF parses_read_bool [of False], where bs = "[]"]) (simp_all add: opt_code_def)
next
  case (Some v)
  then have "parses (\<lambda>r. ebind (get r) (\<lambda>(v, r). Inr (Some v, r))) (code v) (Some v)"
    using assms by (intro parses_map) simp_all
  then show ?thesis unfolding read_opt_def
    by (intro parses_bindI [OF parses_read_bool [of True], where bs = "code v"]) (simp_all add: opt_code_def Some)
qed

lemma bounded_read_opt: "bounded_read get \<Longrightarrow> bounded_read (read_opt get)"
  unfolding read_opt_def by (intro bounded_bind bounded_read_bool bounded_if bounded_return)

lemma emits_write_timezone: "wf_timezone tz \<Longrightarrow> emits (write_timezone tz) (timezone_code tz)"
  unfolding timezone_code_def
  by (rule emits_cong [OF emits_write_nbit]) (auto simp: write_timezone_def wf_timezone_def Let_def)

lemma parses_read_timezone:
  assumes "wf_timezone tz"
  shows "parses read_timezone (timezone_code tz) tz"
proof -
  let ?b = "of_int (tz + TZ_BIAS) :: u64"
  have b: "unat ?b = nat (tz + TZ_BIAS)" using assms
    by (intro unat_of_int_u64) (auto simp: wf_timezone_def)
  then have "fits_bits 11 ?b" and "i64_try_from ?b = Some (tz + TZ_BIAS)" and "i16_try_from tz = Some tz"
    using assms by (auto simp: fits_bits_def wf_timezone_def i64_try_from_def i16_try_from_def TZ_BIAS_def)
  then show ?thesis unfolding read_timezone_def timezone_code_def
    by (intro parses_bindI [OF parses_read_nbit, where bs = "[]"]) simp_all
qed

lemma bounded_read_timezone [simp]: "bounded_read read_timezone"
proof -
  have "bounded_read (\<lambda>r. ebind m (\<lambda>x. ebind (k x) (\<lambda>tz. Inr (tz, r))))"
    for m :: "exi_error + int" and k :: "int \<Rightarrow> exi_error + int"
    by (cases m) simp_all
  then show ?thesis unfolding read_timezone_def by (intro bounded_bind bounded_read_nbit)
qed

lemma date_fields:
  assumes "\<not> bad_date dt"
  shows "unat (month_day_field dt) = unat (month dt) * 32 + unat (day dt)"
    and "unat (month dt) < 13" and "unat (day dt) < 32"
proof -
  show m: "unat (month dt) < 13" and d: "unat (day dt) < 32"
    using assms by (auto simp: bad_date_def not_less word_le_nat_alt)
  then show "unat (month_day_field dt) = unat (month dt) * 32 + unat (day dt)"
    by (simp add: month_day_field_def unat_word_ariths)
qed

lemma time_fields:
  assumes "\<not> bad_time dt"
  shows "unat (time_field dt) = (unat (hour dt) * 64 + unat (minute dt)) * 64 + unat (second dt)"
    and "unat (hour dt) < 25" and "unat (minute dt) < 60" and "unat (second dt) < 61"
proof -
  show "unat (hour dt) < 25" and "unat (minute dt) < 60" and "unat (second dt) < 61"
    using assms by (auto simp: bad_time_def not_less word_le_nat_alt MAX_HOUR_def)
  then show "unat (time_field dt) = (unat (hour dt) * 64 + unat (minute dt)) * 64 + unat (second dt)"
    by (simp add: time_field_def unat_word_ariths)
qed

lemma unat_numeral_64: "unat (64 :: u64) = 64" "unat (4096 :: u64) = 4096"
  by simp_all

lemma hms:
  fixes h m s :: nat
  assumes "m < 60" and "s < 61"
  shows "((h * 64 + m) * 64 + s) div 4096 = h" and "((h * 64 + m) * 64 + s) div 64 mod 64 = m"
    and "((h * 64 + m) * 64 + s) mod 64 = s"
proof -
  show "((h * 64 + m) * 64 + s) mod 64 = s" using assms by (subst mod_mult_self3) simp
  have q: "((h * 64 + m) * 64 + s) div 64 = h * 64 + m" using assms by (subst div_mult_self3) simp_all
  then show "((h * 64 + m) * 64 + s) div 64 mod 64 = m" using assms by (simp only: q mod_mult_self3) simp
  have "((h * 64 + m) * 64 + s) div 4096 = ((h * 64 + m) * 64 + s) div 64 div 64"
    by (simp add: div_mult2_eq [symmetric])
  then show "((h * 64 + m) * 64 + s) div 4096 = h" using assms q by simp
qed

text \<open>The packed month/day and time-of-day fields unpack to the fields they were built from.\<close>

lemma datetime_of_fields:
  assumes "\<not> bad_date dt" and "\<not> bad_time dt"
  shows "datetime_of (year dt) (month_day_field dt) (time_field dt) (fractional_secs dt) (timezone_minutes dt) = dt"
proof -
  note d = date_fields [OF assms(1)] and t = time_fields [OF assms(2)]
  have "ucast (month_day_field dt div 32) = month dt" and "ucast (month_day_field dt mod 32) = day dt"
    using d by (auto intro!: narrow_u8_eq simp: unat_div_distrib unat_mod_distrib)
  moreover have "ucast (time_field dt div 4096) = hour dt" "ucast ((time_field dt div 64) mod 64) = minute dt"
    "ucast (time_field dt mod 64) = second dt"
    by (rule narrow_u8_eq; simp only: unat_div_distrib unat_mod_distrib t(1) unat_numeral_64 hms [OF t(3,4)])+
  ultimately show ?thesis by (simp add: datetime_of_def)
qed

lemma emits_write_datetime:
  assumes "wf_datetime dt"
  shows "emits (write_datetime dt) (datetime_code dt)"
proof -
  from assms have "emits (write_opt write_timezone (timezone_minutes dt)) (opt_code timezone_code (timezone_minutes dt))"
    by (intro emits_write_opt emits_write_timezone) (simp add: wf_datetime_def)
  then show ?thesis unfolding datetime_code_def
    by (rule emits_cong [OF emits_bind [OF emits_write_int emits_bind [OF emits_write_nbit
            emits_bind [OF emits_write_nbit emits_bind [OF emits_write_opt [OF emits_write_fraction]]]]]])
      (use assms in \<open>simp add: write_datetime_def wf_datetime_def checked_i64_def\<close>)
qed

lemma parses_read_datetime:
  assumes "wf_datetime dt"
  shows "parses read_datetime (datetime_code dt) dt"
proof -
  from assms have ok: "\<not> bad_date dt" "\<not> bad_time dt" "i64_range (year dt)"
      "i64_range (year dt - DATETIME_YEAR_OFFSET)" by (simp_all add: wf_datetime_def)
  have fits: "fits_bits 9 (month_day_field dt)" "fits_bits 17 (time_field dt)"
    using date_fields [OF ok(1)] time_fields [OF ok(2)] by (simp_all add: fits_bits_def)
  have opts: "parses (read_opt read_fraction) (opt_code fraction_code (fractional_secs dt)) (fractional_secs dt)"
      "parses (read_opt read_timezone) (opt_code timezone_code (timezone_minutes dt) @ []) (timezone_minutes dt)"
    using assms by (auto intro!: parses_read_opt parses_read_fraction parses_read_timezone simp: wf_datetime_def)
  show ?thesis
    unfolding datetime_code_def read_datetime_def
    by (rule parses_bind [OF parses_read_int [OF ok(4)]])
      (simp add: checked_i64_def ok(3), intro parses_bind [OF parses_read_nbit [OF fits(1)]]
        parses_bind [OF parses_read_nbit [OF fits(2)]] parses_bind [OF opts(1)]
        parses_bindI [OF opts(2), where bs = "[]"], simp_all add: datetime_of_fields ok)
qed

lemma bounded_read_datetime [simp]: "bounded_read read_datetime"
proof -
  have "bounded_read (\<lambda>r. ebind m (\<lambda>y. ebind (read_nbit_uint 9 r) (\<lambda>(month_day, r).
     ebind (read_nbit_uint 17 r) (\<lambda>(time, r). ebind (read_opt read_fraction r) (\<lambda>(frac, r).
     ebind (read_opt read_timezone r) (\<lambda>(tz, r). let dt = datetime_of y month_day time frac tz in
     if bad_date dt then Inl InvalidDateTime else if bad_time dt then Inl InvalidDateTime
     else Inr (dt, r)))))))" for m
    by (cases m) (auto simp: Let_def intro!: bounded_bind bounded_if bounded_read_opt)
  then show ?thesis unfolding read_datetime_def by (intro bounded_bind bounded_read_int)
qed

interpretation datetime: exi_codec write_datetime read_datetime datetime_code wf_datetime
  by unfold_locales (simp_all add: emits_write_datetime parses_read_datetime)

section \<open>Properties\<close>

text \<open>
  \<open>Fraction::from_digits\<close> on every input: it reverses the digits, leading zeros included, and refuses
  exactly a count of none for a value that has digits, more than nineteen digits, and a value with more
  digits than counted; none of its checked products can overflow on what it accepts.
\<close>

lemma from_digits_spec:
  "from_digits v d =
     (if d = 0 \<and> v = 0 then Some Fraction_ZERO
      else if 0 < d \<and> d \<le> 19 \<and> unat v < 10 ^ d then Some (Fraction (of_nat (revd d (unat v))))
      else None)"
  by (rule from_digits_eq)

text \<open>
  A fraction is exact: the digits given to \<open>from_digits\<close> are those \<open>value\<close> and \<open>digits\<close> return, up to
  trailing zeros, and the pair they return is what the fraction was made of.
\<close>

lemma fraction_exact:
  assumes "from_digits v d = Some f"
  shows "unat (fraction_value f) * 10 ^ (d - fraction_digits f) = unat v
     \<and> from_digits (fraction_value f) (fraction_digits f) = Some f"
  using from_digits_exact [OF assms] from_digits_value [OF from_digits_wf [OF assms]] by simp

lemma fraction_exact_witness:
  "\<exists>f. from_digits 50 3 = Some f \<and> unat (fraction_value f) * 10 ^ (3 - fraction_digits f) = 50"
proof -
  obtain f where f: "from_digits 50 3 = Some f" by (simp add: from_digits_eq)
  with fraction_exact [OF f] show ?thesis by simp
qed

text \<open>
  A float is written exactly when its exponent is one EXI can hold, and then it is read back; the
  reader applies the same test.
\<close>

lemma float_roundtrip:
  assumes "i64_range (mantissa f)" and "write_float f (bw_new buf) = Inr w" and "bw_finish w = Inr (n, out)"
  shows "float_is_valid f
     \<and> (\<exists>r r'. read_float (br_new (take n out)) = Inr (f, r) \<and> skip_padding r = Inr r' \<and> bits_remaining r' = 0)"
proof -
  have "float_is_valid f" using assms(2) by (auto simp: write_float_def split: if_splits)
  with float.roundtrip [OF _ assms(2,3)] assms(1) show ?thesis by (simp add: wf_float_def)
qed

lemma float_roundtrip_witness:
  "\<exists>w n out r. write_float \<lparr>mantissa = -37, exponent = -1\<rparr> (bw_new (replicate 4 0)) = Inr w \<and> bw_finish w = Inr (n, out)
     \<and> read_float (br_new (take n out)) = Inr (\<lparr>mantissa = -37, exponent = -1\<rparr>, r)"
proof -
  let ?f = "\<lparr>mantissa = -37, exponent = -1\<rparr>"
  have wf: "wf_float ?f" "i64_range (mantissa ?f)" and "length (float_code ?f) \<le> 8 * length (replicate 4 (0 :: u8))" by code_simp+
  from float.fits_fresh [OF wf(1) this(3)] show ?thesis using float_roundtrip [OF wf(2)] by blast
qed

end
