(* ===== verification/Exi_Header.thy ===== *)
theory Exi_Header
  imports Primitives
begin

unbundle bit_operations_syntax

text \<open>
  The EXI header of \<open>src/src/exi/header.rs\<close>: the optional cookie, the distinguishing bits, the
  options bit, the preview bit and the version in groups of four bits. The reader accepts exactly
  version 1 and no options document.
\<close>

section \<open>Data and operations\<close>

definition COOKIE :: bytes where
  "COOKIE = [0x24, 0x45, 0x58, 0x49]"

definition EXI_VERSION :: u8 where
  "EXI_VERSION = 1"

record exi_header =
  cookie :: bool
  version :: u8
  preview :: bool

definition ISO15118 :: exi_header where
  "ISO15118 = \<lparr>cookie = False, version = EXI_VERSION, preview = False\<rparr>"

function write_version_groups :: "nat \<Rightarrow> bit_writer \<Rightarrow> exi_error + bit_writer" where
  "write_version_groups remaining w =
     (if remaining \<ge> 15
      then ebind (write_bits 15 4 w) (write_version_groups (remaining - 15))
      else write_bits (of_nat remaining) 4 w)"
  by pat_completeness auto
termination
  by (relation "measure fst") auto

declare write_version_groups.simps [simp del]

definition write_header :: "exi_header \<Rightarrow> bit_writer \<Rightarrow> exi_error + bit_writer" where
  "write_header h w =
     ebind (if cookie h then write_bytes COOKIE w else Inr w) (\<lambda>w.
     ebind (write_bits 2 2 w) (\<lambda>w.
     ebind (write_bit False w) (\<lambda>w.
     ebind (write_bit (preview h) w) (\<lambda>w.
     if version h = 0 then Inl BadHeader
     else write_version_groups (unat (version h) - 1) w))))"

text \<open>
  The version counter starts at 1 and grows by at most 15 a round, and the loop ends once it passes
  255, so the 32-bit counter of the source never wraps and a natural number stands for it.
\<close>

function read_version_loop :: "nat \<Rightarrow> bit_reader \<Rightarrow> exi_error + (nat \<times> bit_reader)" where
  "read_version_loop v r =
     ebind (read_bits 4 r) (\<lambda>(group, r).
     ebind (ok_or (u32_try_from group) BadHeader) (\<lambda>g.
     let v = v + unat g in
     if group \<noteq> 15 then Inr (v, r)
     else if v > 255 then Inl BadHeader
     else read_version_loop v r))"
  by pat_completeness auto
termination
proof (relation "measure (\<lambda>(v, r). 256 - v)", goal_cases)
  case (2 v r p group r' g v')
  then have "g = 15" by (auto simp: ok_or_eq_Inr u32_try_from_def split: if_splits)
  with 2 show ?case by auto
qed simp

declare read_version_loop.simps [simp del]

definition probe_cookie :: "bit_reader \<Rightarrow> bool \<times> bit_reader" where
  "probe_cookie r =
     (if br_is_aligned r \<and> bits_remaining r \<ge> 32
      then (case read_bytes 4 r of
              Inr (buf, probe) \<Rightarrow> if buf = COOKIE then (True, probe) else (False, r)
            | Inl _ \<Rightarrow> (False, r))
      else (False, r))"

definition read_header_body :: "bool \<Rightarrow> bit_reader \<Rightarrow> exi_error + (exi_header \<times> bit_reader)" where
  "read_header_body cook r =
      ebind (read_bits 2 r) (\<lambda>(mark, r).
      if mark \<noteq> 2 then Inl BadHeader
      else ebind (read_bit r) (\<lambda>(options, r).
      if options then Inl BadHeader
      else ebind (read_bit r) (\<lambda>(prev, r).
      ebind (read_version_loop 1 r) (\<lambda>(v, r).
      ebind (if v < 256 then Inr (of_nat v) else Inl BadHeader) (\<lambda>v8.
      if v8 \<noteq> EXI_VERSION then Inl BadHeader
      else Inr (\<lparr>cookie = cook, version = v8, preview = prev\<rparr>, r))))))"

definition read_header :: "bit_reader \<Rightarrow> exi_error + (exi_header \<times> bit_reader)" where
  "read_header r = (let (cook, r') = probe_cookie r in read_header_body cook r')"

section \<open>What is written is read back\<close>

definition header_code :: "exi_header \<Rightarrow> bool list" where
  "header_code h = (if cookie h then concat (map byte_bits COOKIE) else [])
     @ msb_bits 2 2 @ [False] @ [preview h] @ msb_bits 4 0"

lemma emits_write_header:
  assumes "version h = EXI_VERSION"
  shows "emits (write_header h) (header_code h)"
proof -
  have "emits (\<lambda>w. if cookie h then write_bytes COOKIE w else Inr w)
      (if cookie h then concat (map byte_bits COOKIE) else [])"
    by (simp add: emits_write_bytes)
  then show ?thesis unfolding header_code_def
    by (rule emits_cong [OF emits_bind [OF _ emits_bind [OF emits_write_bits emits_bind [OF emits_write_bit
            emits_bind [OF emits_write_bit emits_write_bits]]]]])
      (simp add: write_header_def assms EXI_VERSION_def write_version_groups.simps)
qed

lemma bits_of_concat: "bits_of xs = concat (map byte_bits xs)"
proof (induction xs)
  case (Cons x xs)
  have "bits_of [x] = byte_bits x"
    by (rule nth_equalityI) (auto simp: bits_of_nth byte_bits_def msb_bits_def rev_nth bit_simps)
  then show ?case using Cons bits_of_append [of "[x]" xs] by simp
qed simp

text \<open>At a byte boundary the cookie probe sees the next four bytes of the buffer.\<close>

lemma probe_cookie_absent:
  assumes "wf_reader r" and "unread r = True # rest"
  shows "probe_cookie r = (False, r)"
proof (cases "br_is_aligned r \<and> bits_remaining r \<ge> 32")
  case True
  then obtain q where q: "r_pos r = 8 * q" by (auto simp: br_is_aligned_def elim: dvdE)
  let ?xs = "drop q (r_buf r)"
  have u: "unread r = bits_of ?xs"
    using bits_of_append [of "take q (r_buf r)" ?xs] q assms(1)
    by (simp add: unread_def wf_reader_def min_def)
  have "32 \<le> length (r_buf r) * 8 - 8 * q" using True q by (simp add: bits_remaining_def)
  then have len: "4 \<le> length ?xs" unfolding length_drop by linarith
  have "bits_of ?xs = concat (map byte_bits (take 4 ?xs)) @ bits_of (drop 4 ?xs)"
    by (metis append_take_drop_id bits_of_append bits_of_concat)
  then have "read_bytes (length (take 4 ?xs)) r = Inr (take 4 ?xs, r\<lparr>r_pos := r_pos r + 32\<rparr>)"
    using parsesD [OF parses_read_bytes [of "take 4 ?xs"] assms(1)] u len by simp
  moreover have "take 4 ?xs \<noteq> COOKIE"
  proof
    assume cookie: "take 4 ?xs = COOKIE"
    have "?xs ! 0 = take 4 ?xs ! 0" using len by simp
    then have "?xs ! 0 = 0x24" by (simp add: cookie COOKIE_def)
    moreover have "bits_of ?xs ! 0" using u assms(2) by (metis nth_Cons_0)
    ultimately show False using len by (simp add: bits_of_nth)
  qed
  ultimately show ?thesis using True len by (simp add: probe_cookie_def)
qed (auto simp: probe_cookie_def)

lemma probe_cookie_present:
  assumes "wf_reader r" and "r_pos r mod 8 = 0" and "unread r = concat (map byte_bits COOKIE) @ rest"
  shows "probe_cookie r = (True, r\<lparr>r_pos := r_pos r + 32\<rparr>)"
proof -
  have "read_bytes (length COOKIE) r = Inr (COOKIE, r\<lparr>r_pos := r_pos r + 32\<rparr>)"
    using parsesD [OF parses_read_bytes assms(1,3)] by (simp add: COOKIE_def)
  moreover have "length COOKIE = 4" by (simp add: COOKIE_def)
  moreover have "32 \<le> bits_remaining r"
    using assms(3) by (simp add: bits_remaining_unread COOKIE_def)
  ultimately show ?thesis using assms(2) by (simp add: probe_cookie_def br_is_aligned_def)
qed

lemma read_header_split: "read_header r = read_header_body (fst (probe_cookie r)) (snd (probe_cookie r))"
  by (simp add: read_header_def split_def Let_def)

lemma parses_header_body:
  "parses (read_header_body cook) (msb_bits 2 2 @ [False] @ [prev] @ msb_bits 4 0)
     \<lparr>cookie = cook, version = EXI_VERSION, preview = prev\<rparr>"
proof -
  have "parses (read_bits 4) (msb_bits 4 0) 0" by (rule parses_nbit) simp_all
  then have "parses (\<lambda>r. ebind (read_bits 4 r) (\<lambda>(group, r).
     ebind (ok_or (u32_try_from group) BadHeader) (\<lambda>g.
     let v = 1 + unat g in
     if group \<noteq> 15 then Inr (v, r)
     else if v > 255 then Inl BadHeader
     else read_version_loop v r))) (msb_bits 4 0) 1"
    by (rule parses_bindI [where bs = "[]"]) (simp_all add: u32_try_from_def)
  then have v: "parses (read_version_loop 1) (msb_bits 4 0) 1"
    by (rule parses_cong) (simp only: read_version_loop.simps [of 1])
  have m: "parses (read_bits 2) (msb_bits 2 2) 2" by (rule parses_nbit) (simp_all add: drop_bit_eq_0_iff)
  have "parses (\<lambda>r. ebind (read_bit r) (\<lambda>(prev, r).
      ebind (read_version_loop 1 r) (\<lambda>(v, r).
      ebind (if v < 256 then Inr (of_nat v) else Inl BadHeader) (\<lambda>v8.
      if v8 \<noteq> EXI_VERSION then Inl BadHeader
      else Inr (\<lparr>cookie = cook, version = v8, preview = prev\<rparr>, r))))) ([prev] @ msb_bits 4 0)
     \<lparr>cookie = cook, version = EXI_VERSION, preview = prev\<rparr>"
    by (rule parses_bind [OF parses_read_bit parses_bindI [OF v, where bs = "[]"]])
      (simp_all add: EXI_VERSION_def)
  then have "parses (\<lambda>r. ebind (read_bit r) (\<lambda>(options, r). if options then Inl BadHeader
      else ebind (read_bit r) (\<lambda>(prev, r).
      ebind (read_version_loop 1 r) (\<lambda>(v, r).
      ebind (if v < 256 then Inr (of_nat v) else Inl BadHeader) (\<lambda>v8.
      if v8 \<noteq> EXI_VERSION then Inl BadHeader
      else Inr (\<lparr>cookie = cook, version = v8, preview = prev\<rparr>, r)))))) ([False] @ [prev] @ msb_bits 4 0)
     \<lparr>cookie = cook, version = EXI_VERSION, preview = prev\<rparr>"
    by (intro parses_bind [OF parses_read_bit]) simp
  then show ?thesis unfolding read_header_body_def by (intro parses_bind [OF m]) simp
qed

lemma read_header_at:
  assumes "wf_reader r" and "r_pos r mod 8 = 0" and "version h = EXI_VERSION"
    and u: "unread r = header_code h @ rest"
  shows "read_header r = Inr (h, r\<lparr>r_pos := r_pos r + length (header_code h)\<rparr>)"
proof -
  have h: "h = \<lparr>cookie = cookie h, version = EXI_VERSION, preview = preview h\<rparr>"
    using assms(3) by (cases h) simp
  let ?body = "msb_bits 2 2 @ [False] @ [preview h] @ msb_bits 4 0"
  show ?thesis
  proof (cases "cookie h")
    case True
    then have u': "unread r = concat (map byte_bits COOKIE) @ ?body @ rest" using u by (simp add: header_code_def)
    let ?r = "r\<lparr>r_pos := r_pos r + 32\<rparr>"
    have l: "length (concat (map byte_bits COOKIE)) = 32" by (simp add: COOKIE_def)
    have "wf_reader ?r" using wf_advance [OF assms(1) u'] l by simp
    moreover have "unread ?r = ?body @ rest" using unread_advance [of r 32] u' l by simp
    ultimately show ?thesis
      using parsesD [OF parses_header_body, of ?r "preview h" rest True] h True l
      by (simp add: read_header_split probe_cookie_present [OF assms(1,2) u'] header_code_def add.assoc)
  next
    case False
    then have u': "unread r = ?body @ rest" using u by (simp add: header_code_def)
    then have "unread r = True # tl (unread r)" by (simp add: msb_bits_def upt_rec numeral_2_eq_2)
    then show ?thesis
      using parsesD [OF parses_header_body assms(1) u', of False] h False
      by (simp add: read_header_split probe_cookie_absent [OF assms(1)] header_code_def)
  qed
qed

lemma read_header_version: "read_header r = Inr (h, r') \<Longrightarrow> version h = EXI_VERSION"
  by (auto simp: read_header_split read_header_body_def ebind_eq_Inr split: if_splits)

text \<open>The header of every message is the single byte \<open>0x80\<close>.\<close>

lemma upt_small: "[0..<2] = [0, 1]" "[0..<4] = [0, 1, 2, 3]" "[0..<8] = [0, 1, 2, 3, 4, 5, 6, 7]"
  by code_simp+

lemma header_code_ISO15118: "header_code ISO15118 = byte_bits 0x80"
  by (simp add: header_code_def ISO15118_def byte_bits_def msb_bits_def upt_small)

lemma bounded_read_version: "bounded_read (read_version_loop v)"
proof (induction "256 - v" arbitrary: v rule: less_induct)
  case less
  have step: "bounded_read (\<lambda>r. ebind (ok_or (u32_try_from group) BadHeader) (\<lambda>g.
     let v = v + unat g in
     if group \<noteq> 15 then Inr (v, r)
     else if v > 255 then Inl BadHeader
     else read_version_loop v r))" for group
  proof (cases "u32_try_from group")
    case (Some g)
    have "bounded_read (read_version_loop (v + unat g))" if "group = 15" "\<not> v + unat g > 255"
    proof (rule less)
      have "g = 15" using Some that(1) by (auto simp: u32_try_from_def split: if_splits)
      with that(2) show "256 - (v + unat g) < 256 - v" by simp
    qed
    then show ?thesis using Some
      by (cases "group = 15"; cases "255 < v + unat g") (simp_all add: Let_def)
  qed simp
  then have "bounded_read (\<lambda>r. ebind (read_bits 4 r) (\<lambda>(group, r).
     ebind (ok_or (u32_try_from group) BadHeader) (\<lambda>g.
     let v = v + unat g in
     if group \<noteq> 15 then Inr (v, r)
     else if v > 255 then Inl BadHeader
     else read_version_loop v r)))"
    by (intro bounded_bind bounded_read_bits)
  then show ?case by (rule bounded_cong) (simp only: read_version_loop.simps [of v])
qed

section \<open>Properties\<close>

text \<open>
  The header of the final version of EXI, with or without cookie and preview bit, is read back from
  the stream, and the reader accepts no other version. For the messages of ISO 15118 it is one byte,
  \<open>0x80\<close>.
\<close>

lemma header_roundtrip:
  assumes "version h = EXI_VERSION" and "write_header h (bw_new buf) = Inr w" and "bw_finish w = Inr (n, out)"
  shows "\<exists>r. read_header (br_new (take n out @ rest)) = Inr (h, r) \<and> (h = ISO15118 \<longrightarrow> take n out = [0x80])"
proof -
  have w: "wf_writer w" "w_pos w = length (header_code h)" "written w = header_code h"
    using emits_done [OF emits_write_header [OF assms(1)] wf_bw_new assms(2)] by simp_all
  then have bits: "bits_of (take n out) = header_code h @ replicate (pad_len (w_pos w)) False"
    using bw_finish_refines [OF w(1)] assms(3) by auto
  then have u: "unread (br_new (take n out @ rest)) = header_code h @ replicate (pad_len (w_pos w)) False @ bits_of rest"
    by (simp add: bits_of_append)
  have rd: "\<exists>r. read_header (br_new (take n out @ rest)) = Inr (h, r)"
    using read_header_at [OF wf_br_new _ assms(1) u] by auto
  have "take n out = [0x80]" if "h = ISO15118"
  proof -
    have "bits_of (take n out) = bits_of [0x80]"
      using bits that header_code_ISO15118 w(2) by (simp add: pad_len_def byte_bits_def msb_bits_def bits_of_def upt_small)
    then show ?thesis by (rule bits_of_inj)
  qed
  with rd show ?thesis by blast
qed

lemma header_roundtrip_witness:
  "\<exists>w n out r. write_header ISO15118 (bw_new [0]) = Inr w \<and> bw_finish w = Inr (n, out)
     \<and> read_header (br_new (take n out @ [7])) = Inr (ISO15118, r)"
proof -
  have v: "version ISO15118 = EXI_VERSION" by (simp add: ISO15118_def)
  obtain w where w: "write_header ISO15118 (bw_new [0]) = Inr w" "wf_writer w"
    using emits_fits [OF emits_write_header [OF v] wf_bw_new, of "[0]"] by (auto simp: header_code_ISO15118)
  then obtain n out where "bw_finish w = Inr (n, out)" using bw_finish_refines by blast
  with w header_roundtrip [OF v w(1)] show ?thesis by blast
qed

end
