(* ===== verification/String_Table.thy ===== *)
theory String_Table
  imports Primitives
begin

text \<open>
  The document-scoped value table of \<open>src/src/exi/string_table.rs\<close>: every value a stream codes
  literally is numbered globally and in the partition of its element or attribute. A \<open>Vec\<close> is a
  list, a \<open>BTreeMap\<close> a map, a \<open>ValueCtx\<close> its number.

  \<open>table_inv\<close> is the invariant: the two lookups are the inverses of the two numberings. The locale
  \<open>value_index\<close> is what a codec relies on, and its interpretation \<open>vt\<close> discharges those laws for
  the table.
\<close>

section \<open>Data and operations\<close>

type_synonym value_ctx = u32

datatype hit = Hit_Local u64 | Hit_Global u64 | Hit_Miss

record partition =
  entries :: "nat list"
  lookup :: "rstring \<rightharpoonup> u64"

record value_table =
  globals :: "rstring list"
  global_lookup :: "rstring \<rightharpoonup> u64"
  locals :: "value_ctx \<rightharpoonup> partition"

definition partition_default :: partition where
  "partition_default = \<lparr>entries = [], lookup = Map.empty\<rparr>"

definition table_new :: value_table where
  "table_new = \<lparr>globals = [], global_lookup = Map.empty, locals = Map.empty\<rparr>"

definition local_len :: "value_table \<Rightarrow> value_ctx \<Rightarrow> u64" where
  "local_len t ctx = (case locals t ctx of None \<Rightarrow> 0 | Some p \<Rightarrow> of_nat (length (entries p)))"

definition local_index_width :: "value_table \<Rightarrow> value_ctx \<Rightarrow> nat" where
  "local_index_width t ctx = bit_width (local_len t ctx)"

definition global_index_width :: "value_table \<Rightarrow> nat" where
  "global_index_width t = bit_width (of_nat (length (globals t)))"

definition table_find :: "value_table \<Rightarrow> value_ctx \<Rightarrow> rstring \<Rightarrow> hit" where
  "table_find t ctx v =
     (case Option.bind (locals t ctx) (\<lambda>p. lookup p v) of
        Some idx \<Rightarrow> Hit_Local idx
      | None \<Rightarrow> (case global_lookup t v of Some idx \<Rightarrow> Hit_Global idx | None \<Rightarrow> Hit_Miss))"

definition nth_opt :: "'a list \<Rightarrow> nat \<Rightarrow> 'a option" where
  "nth_opt xs i = (if i < length xs then Some (xs ! i) else None)"

definition table_local :: "value_table \<Rightarrow> value_ctx \<Rightarrow> u64 \<Rightarrow> rstring option" where
  "table_local t ctx index =
     Option.bind (locals t ctx) (\<lambda>p.
     Option.bind (nth_opt (entries p) (unat index)) (\<lambda>global_id.
     nth_opt (globals t) global_id))"

definition table_global :: "value_table \<Rightarrow> u64 \<Rightarrow> rstring option" where
  "table_global t index = nth_opt (globals t) (unat index)"

text \<open>The first half of \<open>insert\<close>: the global number of the value, a new one when it has none.\<close>

definition intern_global :: "value_table \<Rightarrow> rstring \<Rightarrow> u64 \<times> value_table" where
  "intern_global t v =
     (case global_lookup t v of
        Some gid \<Rightarrow> (gid, t)
      | None \<Rightarrow>
        let gid = of_nat (length (globals t))
        in (gid, t\<lparr>globals := globals t @ [v], global_lookup := (global_lookup t)(v \<mapsto> gid)\<rparr>))"

definition table_insert :: "value_table \<Rightarrow> value_ctx \<Rightarrow> rstring \<Rightarrow> value_table" where
  "table_insert t ctx v =
     (let (gid, t) = intern_global t v;
          global_id = unat gid;
          p = (case locals t ctx of Some p \<Rightarrow> p | None \<Rightarrow> partition_default);
          p' = (if lookup p v = None
                then let local_idx = of_nat (length (entries p))
                     in p\<lparr>entries := entries p @ [global_id], lookup := (lookup p)(v \<mapsto> local_idx)\<rparr>
                else p)
      in t\<lparr>locals := (locals t)(ctx \<mapsto> p')\<rparr>)"

definition table_len :: "value_table \<Rightarrow> nat" where
  "table_len t = length (globals t)"

definition table_is_empty :: "value_table \<Rightarrow> bool" where
  "table_is_empty t \<longleftrightarrow> globals t = []"

section \<open>The interface a codec relies on\<close>

text \<open>
  What the encoder finds, the decoder resolves, and the index fits the width both sides compute
  from their own table. That is all that is needed for a reference to be read back.
\<close>

locale value_index =
  fixes inv :: "'t \<Rightarrow> bool"
    and find :: "'t \<Rightarrow> value_ctx \<Rightarrow> rstring \<Rightarrow> hit"
    and local :: "'t \<Rightarrow> value_ctx \<Rightarrow> u64 \<Rightarrow> rstring option"
    and global :: "'t \<Rightarrow> u64 \<Rightarrow> rstring option"
    and lwidth :: "'t \<Rightarrow> value_ctx \<Rightarrow> nat"
    and gwidth :: "'t \<Rightarrow> nat"
  assumes find_local: "inv t \<Longrightarrow> find t ctx v = Hit_Local i \<Longrightarrow> local t ctx i = Some v \<and> fits_bits (lwidth t ctx) i"
    and find_global: "inv t \<Longrightarrow> find t ctx v = Hit_Global i \<Longrightarrow> global t i = Some v \<and> fits_bits (gwidth t) i"
begin

definition read_local_ref :: "'t \<Rightarrow> value_ctx \<Rightarrow> bit_reader \<Rightarrow> exi_error + (rstring \<times> bit_reader)" where
  "read_local_ref t ctx r =
     ebind (read_nbit_uint (lwidth t ctx) r) (\<lambda>(idx, r).
     ebind (ok_or (local t ctx idx) BadStringTableIndex) (\<lambda>s. Inr (s, r)))"

definition read_global_ref :: "'t \<Rightarrow> bit_reader \<Rightarrow> exi_error + (rstring \<times> bit_reader)" where
  "read_global_ref t r =
     ebind (read_nbit_uint (gwidth t) r) (\<lambda>(idx, r).
     ebind (ok_or (global t idx) BadStringTableIndex) (\<lambda>s. Inr (s, r)))"

lemma parses_local_ref:
  assumes "inv t" and "find t ctx v = Hit_Local i"
  shows "parses (read_local_ref t ctx) (msb_bits (lwidth t ctx) i) v"
  using find_local [OF assms] unfolding read_local_ref_def
  by (intro parses_bindI [OF parses_read_nbit, where bs = "[]"]) simp_all

lemma parses_global_ref:
  assumes "inv t" and "find t ctx v = Hit_Global i"
  shows "parses (read_global_ref t) (msb_bits (gwidth t) i) v"
  using find_global [OF assms] unfolding read_global_ref_def
  by (intro parses_bindI [OF parses_read_nbit, where bs = "[]"]) simp_all

end

section \<open>The invariant\<close>

text \<open>
  \<open>numbers xs m\<close>: the map \<open>m\<close> is the inverse of the numbering \<open>xs\<close>, whose entries are therefore
  distinct.
\<close>

definition numbers :: "'a list \<Rightarrow> ('a \<rightharpoonup> u64) \<Rightarrow> bool" where
  "numbers xs m \<longleftrightarrow> length xs < 2 ^ 64 \<and> (\<forall>v i. m v = Some i \<longleftrightarrow> unat i < length xs \<and> xs ! unat i = v)"

definition partition_inv :: "value_table \<Rightarrow> partition \<Rightarrow> bool" where
  "partition_inv t p \<longleftrightarrow> (\<forall>g \<in> set (entries p). g < length (globals t))
     \<and> numbers (map ((!) (globals t)) (entries p)) (lookup p)"

definition table_inv :: "value_table \<Rightarrow> bool" where
  "table_inv t \<longleftrightarrow> numbers (globals t) (global_lookup t)
     \<and> (\<forall>ctx p. locals t ctx = Some p \<longrightarrow> partition_inv t p)"

lemma numbersD: "numbers xs m \<Longrightarrow> m v = Some i \<longleftrightarrow> unat i < length xs \<and> xs ! unat i = v"
  by (simp add: numbers_def)

lemma numbers_nth: "numbers xs m \<Longrightarrow> k < length xs \<Longrightarrow> m (xs ! k) = Some (of_nat k)"
  using numbersD [of xs m "xs ! k" "of_nat k"] unat_of_nat_u64 [of k] by (simp add: numbers_def)

lemma numbers_distinct:
  assumes n: "numbers xs m"
  shows "distinct xs"
  unfolding distinct_conv_nth
proof (intro allI impI notI)
  fix i j
  assume ij: "i < length xs" "j < length xs" "i \<noteq> j" "xs ! i = xs ! j"
  have "(of_nat i :: u64) = of_nat j"
    using numbers_nth [OF n ij(1)] numbers_nth [OF n ij(2)] ij(4) by simp
  moreover have "length xs < 2 ^ 64" using n by (simp add: numbers_def)
  ultimately show False using ij unat_of_nat_u64 by (metis less_trans)
qed

lemma numbers_None: "numbers xs m \<Longrightarrow> m v = None \<longleftrightarrow> v \<notin> set xs"
  using numbersD [of xs m v] numbers_nth [of xs m]
  by (cases "m v") (auto simp: in_set_conv_nth)

lemma numbers_snoc:
  assumes n: "numbers xs m" and new: "m v = None" and room: "Suc (length xs) < 2 ^ 64"
  shows "numbers (xs @ [v]) (m(v \<mapsto> of_nat (length xs)))"
  unfolding numbers_def
proof (intro conjI allI)
  fix u i
  let ?n = "of_nat (length xs) :: u64"
  have len: "unat ?n = length xs" using room by (intro unat_of_nat_u64) simp
  have fresh: "v \<notin> set xs" using numbers_None [OF n] new by simp
  show "(m(v \<mapsto> ?n)) u = Some i \<longleftrightarrow> unat i < length (xs @ [v]) \<and> (xs @ [v]) ! unat i = u"
  proof (cases "unat i < length xs")
    case True
    then have "?n \<noteq> i" using len by auto
    moreover have "xs ! unat i \<noteq> v" using True fresh by auto
    ultimately show ?thesis using n True by (auto simp: numbers_def nth_append)
  next
    case False
    then have "m u \<noteq> Some i" using n by (auto simp: numbers_def)
    moreover have "unat i = length xs \<longleftrightarrow> i = ?n" using len by (metis unsigned_word_eqI)
    ultimately show ?thesis using False by (auto simp: nth_append less_Suc_eq)
  qed
qed (use room in simp)

lemma numbers_width:
  assumes "numbers xs m" and "m v = Some i"
  shows "fits_bits (bit_width (of_nat (length xs))) i"
proof -
  from assms have "unat i < length xs" and "length xs < 2 ^ 64" by (auto simp: numbers_def)
  then have "unat i < unat (of_nat (length xs) :: u64)" by (simp add: unat_of_nat_u64)
  then show ?thesis
    using bit_width_upper [of "of_nat (length xs)"] bit_width_le_64 [of "of_nat (length xs)"]
    by (simp add: fits_bits_def)
qed

lemma table_inv_new: "table_inv table_new"
  by (simp add: table_inv_def table_new_def numbers_def)

lemma partition_inv_default: "partition_inv t partition_default"
  by (simp add: partition_inv_def partition_default_def numbers_def)

lemma intern_global_inv:
  assumes inv: "table_inv t" and room: "Suc (length (globals t)) < 2 ^ 64" and r: "intern_global t v = (gid, t')"
  shows "table_inv t'" and "unat gid < length (globals t')" and "globals t' ! unat gid = v"
    and "locals t' = locals t" and "length (globals t') \<le> Suc (length (globals t))"
proof -
  have "table_inv t' \<and> unat gid < length (globals t') \<and> globals t' ! unat gid = v \<and> locals t' = locals t
      \<and> length (globals t') \<le> Suc (length (globals t))"
  proof (cases "global_lookup t v")
    case None
    with r have t': "t' = t\<lparr>globals := globals t @ [v], global_lookup := (global_lookup t)(v \<mapsto> gid)\<rparr>"
      and gid: "gid = of_nat (length (globals t))" by (auto simp: intern_global_def Let_def)
    have len: "unat gid = length (globals t)" unfolding gid using room by (intro unat_of_nat_u64) simp
    have "numbers (globals t') (global_lookup t')"
      using inv None room by (simp add: t' gid numbers_snoc table_inv_def)
    moreover have "partition_inv t' p" if "locals t' ctx = Some p" for ctx p
    proof -
      have p: "partition_inv t p" using inv that by (auto simp: table_inv_def t')
      then have "map ((!) (globals t')) (entries p) = map ((!) (globals t)) (entries p)"
        by (auto simp: partition_inv_def t' nth_append)
      with p have "numbers (map ((!) (globals t')) (entries p)) (lookup p)"
        by (simp only: partition_inv_def)
      with p show ?thesis by (auto simp: partition_inv_def t')
    qed
    ultimately show ?thesis using len by (auto simp: table_inv_def t')
  next
    case (Some i)
    with r inv show ?thesis by (auto simp: intern_global_def table_inv_def numbers_def)
  qed
  then show "table_inv t'" and "unat gid < length (globals t')" and "globals t' ! unat gid = v"
    and "locals t' = locals t" and "length (globals t') \<le> Suc (length (globals t))" by auto
qed

lemma partition_inv_length: "table_inv t \<Longrightarrow> partition_inv t p \<Longrightarrow> length (entries p) \<le> length (globals t)"
proof -
  assume "table_inv t" and p: "partition_inv t p"
  then have "distinct (entries p)"
    by (metis partition_inv_def numbers_distinct distinct_map)
  then have "length (entries p) = card (set (entries p))" by (simp add: distinct_card)
  also have "\<dots> \<le> card {..<length (globals t)}"
    using p by (intro card_mono) (auto simp: partition_inv_def)
  finally show ?thesis by simp
qed

theorem table_insert_inv:
  assumes inv: "table_inv t" and room: "Suc (Suc (length (globals t))) < 2 ^ 64"
  shows "table_inv (table_insert t ctx v)"
proof -
  obtain gid t1 where r: "intern_global t v = (gid, t1)" by fastforce
  note 1 = intern_global_inv [OF inv _ r]
  define p where "p = (case locals t1 ctx of Some p \<Rightarrow> p | None \<Rightarrow> partition_default)"
  have p: "partition_inv t1 p"
    using 1(1) room by (auto simp: p_def table_inv_def partition_inv_default split: option.splits)
  define p' where "p' = (if lookup p v = None
      then p\<lparr>entries := entries p @ [unat gid], lookup := (lookup p)(v \<mapsto> of_nat (length (entries p)))\<rparr> else p)"
  have eq: "table_insert t ctx v = t1\<lparr>locals := (locals t1)(ctx \<mapsto> p')\<rparr>"
    by (simp add: table_insert_def r Let_def p_def p'_def)
  have "length (entries p) \<le> length (globals t1)" using partition_inv_length 1(1) p room by simp
  also have "\<dots> \<le> Suc (length (globals t))" using 1(5) room by simp
  finally have small: "Suc (length (entries p)) < 2 ^ 64" using room by simp
  have "partition_inv t1 p'"
  proof (cases "lookup p v")
    case None
    then have "numbers (map ((!) (globals t1)) (entries p) @ [v]) ((lookup p)(v \<mapsto> of_nat (length (map ((!) (globals t1)) (entries p)))))"
      using p small by (intro numbers_snoc) (auto simp: partition_inv_def)
    then show ?thesis using None p 1(2,3) room by (auto simp: partition_inv_def p'_def)
  qed (use p in \<open>simp add: p'_def\<close>)
  then have "partition_inv (t1\<lparr>locals := l\<rparr>) p'" for l by (simp add: partition_inv_def)
  moreover have "partition_inv (t1\<lparr>locals := l\<rparr>) q" if "locals t1 c = Some q" for l c q
    using 1(1) room that by (auto simp: table_inv_def partition_inv_def)
  ultimately show ?thesis using 1(1) room by (auto simp: eq table_inv_def)
qed

lemma table_len_insert: "length (globals (table_insert t ctx v)) \<le> Suc (length (globals t))"
  by (auto simp: table_insert_def intern_global_def Let_def split: option.splits)

section \<open>Lookup laws\<close>

lemma table_find_local:
  assumes "table_inv t" and "table_find t ctx v = Hit_Local i"
  shows "table_local t ctx i = Some v \<and> fits_bits (local_index_width t ctx) i"
proof -
  from assms(2) obtain p where p: "locals t ctx = Some p" "lookup p v = Some i"
    by (auto simp: table_find_def split: option.splits bind_splits)
  with assms(1) have inv: "partition_inv t p" by (auto simp: table_inv_def)
  then have "unat i < length (entries p)" "globals t ! (entries p ! unat i) = v"
    using p(2) by (auto simp: partition_inv_def numbers_def)
  moreover have "entries p ! unat i < length (globals t)"
    using inv calculation(1) by (auto simp: partition_inv_def)
  moreover have "fits_bits (bit_width (of_nat (length (entries p)))) i"
    using inv p(2) numbers_width by (fastforce simp: partition_inv_def)
  ultimately show ?thesis
    using p(1) by (simp add: table_local_def nth_opt_def local_index_width_def local_len_def)
qed

lemma table_find_global:
  assumes "table_inv t" and "table_find t ctx v = Hit_Global i"
  shows "table_global t i = Some v \<and> fits_bits (global_index_width t) i"
proof -
  from assms(2) have "global_lookup t v = Some i"
    by (auto simp: table_find_def split: option.splits)
  moreover have n: "numbers (globals t) (global_lookup t)" using assms(1) by (simp add: table_inv_def)
  ultimately have "unat i < length (globals t)" "globals t ! unat i = v" "fits_bits (global_index_width t) i"
    using numbers_width [OF n] by (auto simp: numbers_def global_index_width_def)
  then show ?thesis by (simp add: table_global_def nth_opt_def)
qed

interpretation vt: value_index table_inv table_find table_local table_global local_index_width global_index_width
  by unfold_locales (simp_all add: table_find_local table_find_global)

text \<open>A value misses exactly when it was never coded; once inserted it is a local hit.\<close>

lemma table_find_miss: "table_inv t \<Longrightarrow> table_find t ctx v = Hit_Miss \<longleftrightarrow> v \<notin> set (globals t)"
proof -
  assume inv: "table_inv t"
  then have g: "global_lookup t v = None \<longleftrightarrow> v \<notin> set (globals t)"
    by (simp add: table_inv_def numbers_None)
  have "v \<in> set (globals t)" if "locals t ctx = Some p" "lookup p v = Some i" for p i
  proof -
    have "table_find t ctx v = Hit_Local i" using that by (simp add: table_find_def)
    then have "table_local t ctx i = Some v" using table_find_local [OF inv] by blast
    then show ?thesis
      by (auto simp: table_local_def nth_opt_def bind_eq_Some_conv split: if_splits)
  qed
  then have "v \<notin> set (globals t) \<Longrightarrow> Option.bind (locals t ctx) (\<lambda>p. lookup p v) = None"
    by (cases "Option.bind (locals t ctx) (\<lambda>p. lookup p v)") (auto simp: bind_eq_Some_conv)
  with g show ?thesis by (auto simp: table_find_def split: option.splits)
qed

lemma table_find_insert: "\<exists>i. table_find (table_insert t ctx v) ctx v = Hit_Local i"
  by (auto simp: table_insert_def table_find_def Let_def split: prod.splits option.splits)

lemma set_globals_insert: "table_inv t \<Longrightarrow> set (globals (table_insert t ctx v)) = insert v (set (globals t))"
  using numbers_None [of "globals t" "global_lookup t" v]
  by (auto simp: table_insert_def intern_global_def Let_def table_inv_def split: option.splits)

section \<open>Properties\<close>

text \<open>
  The value table after a string was interned: its two numberings stay consistent, the string is now a
  local hit whose index resolves to it and fits the field width, everything known before is still known,
  and nothing else is.
\<close>

lemma table_insert_correct:
  assumes "table_inv t" and "Suc (Suc (length (globals t))) < 2 ^ 64"
  shows "table_inv (table_insert t ctx v)
     \<and> (\<exists>i. table_find (table_insert t ctx v) ctx v = Hit_Local i
           \<and> table_local (table_insert t ctx v) ctx i = Some v
           \<and> fits_bits (local_index_width (table_insert t ctx v) ctx) i)
     \<and> (\<forall>ctx' u. table_find (table_insert t ctx v) ctx' u = Hit_Miss \<longleftrightarrow> u \<noteq> v \<and> table_find t ctx' u = Hit_Miss)"
proof -
  have inv: "table_inv (table_insert t ctx v)" using table_insert_inv assms by blast
  obtain i where i: "table_find (table_insert t ctx v) ctx v = Hit_Local i" using table_find_insert by blast
  show ?thesis
    using inv i table_find_local [OF inv i] set_globals_insert [OF assms(1)]
    by (auto simp: table_find_miss [OF inv] table_find_miss [OF assms(1)])
qed

lemma table_insert_correct_witness: "table_inv (table_insert table_new 7 [86, 50])"
  using table_insert_correct [OF table_inv_new] by (simp add: table_new_def)

end
