(* ===== verification/Exi_Codec.thy ===== *)
theory Exi_Codec
  imports Exi_Values Exi_Header String_Table
begin

unbundle bit_operations_syntax

text \<open>
  The stateful \<open>Encoder\<close> and \<open>Decoder\<close> of \<open>src/src/exi/codec.rs\<close>: a bit stream, the value table and
  a nesting counter. Message codecs are sequences of their operations, so the theory closes with
  such sequences as data (\<open>exi_item\<close>): whatever sequence an encoder writes, the decoder that performs
  the matching reads gets the same values back, under both codings of a repeated string, and then
  finds the document fully read.
\<close>

section \<open>Length facets\<close>

record lengths =
  len_min :: nat
  len_max :: nat

definition lengths_max :: "nat \<Rightarrow> lengths" where
  "lengths_max m = \<lparr>len_min = 0, len_max = m\<rparr>"

definition lengths_exact :: "nat \<Rightarrow> lengths" where
  "lengths_exact n = \<lparr>len_min = n, len_max = n\<rparr>"

definition lengths_new :: "nat \<Rightarrow> nat \<Rightarrow> lengths" where
  "lengths_new mn mx = \<lparr>len_min = mn, len_max = mx\<rparr>"

definition admits :: "lengths \<Rightarrow> nat \<Rightarrow> bool" where
  "admits l n \<longleftrightarrow> n \<ge> len_min l \<and> n \<le> len_max l"

definition lengths_check :: "lengths \<Rightarrow> nat \<Rightarrow> exi_error + unit" where
  "lengths_check l n =
     (if n > len_max l then Inl ValueTooLong
      else if n < len_min l then Inl ValueTooShort
      else Inr ())"

lemma lengths_check_ok: "lengths_check l n = Inr u \<longleftrightarrow> admits l n"
  by (auto simp: lengths_check_def admits_def)

section \<open>Restricted integers\<close>

definition u64_try_from :: "int \<Rightarrow> u64 option" where
  "u64_try_from v = (if 0 \<le> v \<and> v < 2 ^ 64 then Some (of_int v) else None)"

definition restricted_width :: "u64 \<Rightarrow> nat" where
  "restricted_width span =
     (case checked_add_u64 span 1 of Some values \<Rightarrow> bit_width values | None \<Rightarrow> 64)"

lemma restricted_width_fits: "index \<le> span \<Longrightarrow> fits_bits (restricted_width span) index"
proof (cases "unat span + 1 < 2 ^ 64")
  case True
  assume "index \<le> span"
  moreover have "unat (span + 1) = unat span + 1" "checked_add_u64 span 1 = Some (span + 1)"
    using checked_add_u64_fits [of span 1] True by simp_all
  ultimately show ?thesis
    using bit_width_upper [of "span + 1"] bit_width_le_64 [of "span + 1"]
    by (simp add: fits_bits_def restricted_width_def word_le_nat_alt)
next
  case False
  then have "restricted_width span = 64" by (simp add: restricted_width_def checked_add_u64_def)
  then show ?thesis using unat_u64_less [of index] by (simp add: fits_bits_def)
qed

section \<open>The encoder\<close>

definition MAX_DEPTH :: nat where
  "MAX_DEPTH = 64"

definition U16_MAX :: nat where
  "U16_MAX = 65535"

datatype value_coding = Literal | Referenced

record encoder =
  e_bits :: bit_writer
  e_values :: value_table
  e_coding :: value_coding
  e_depth :: nat

definition enc_with_value_coding :: "bytes \<Rightarrow> value_coding \<Rightarrow> encoder" where
  "enc_with_value_coding buf coding =
     \<lparr>e_bits = bw_new buf, e_values = table_new, e_coding = coding, e_depth = 0\<rparr>"

definition enc_new :: "bytes \<Rightarrow> encoder" where
  "enc_new buf = enc_with_value_coding buf Literal"

text \<open>Most operations only touch the bit stream.\<close>

definition on_writer :: "(bit_writer \<Rightarrow> exi_error + bit_writer) \<Rightarrow> encoder \<Rightarrow> exi_error + encoder" where
  "on_writer f e = ebind (f (e_bits e)) (\<lambda>w. Inr (e\<lparr>e_bits := w\<rparr>))"

definition enc_write_header :: "exi_header \<Rightarrow> encoder \<Rightarrow> exi_error + encoder" where
  "enc_write_header h e = on_writer (write_header h) e"

definition enc_event :: "u64 \<Rightarrow> nat \<Rightarrow> encoder \<Rightarrow> exi_error + encoder" where
  "enc_event code width e = on_writer (write_nbit_uint code width) e"

text \<open>
  \<open>enter\<close> counts before it checks, so its state is part of the answer even when it fails.
\<close>

definition enter_depth :: "nat \<Rightarrow> (exi_error + unit) \<times> nat" where
  "enter_depth depth =
     (let depth = min (depth + 1) U16_MAX in
      (if depth > MAX_DEPTH then Inl DepthLimitExceeded else Inr (), depth))"

definition leave_depth :: "nat \<Rightarrow> nat" where
  "leave_depth depth = depth - 1"

definition enc_enter :: "encoder \<Rightarrow> (exi_error + unit) \<times> encoder" where
  "enc_enter e = (let (res, depth) = enter_depth (e_depth e) in (res, e\<lparr>e_depth := depth\<rparr>))"

definition enc_leave :: "encoder \<Rightarrow> encoder" where
  "enc_leave e = e\<lparr>e_depth := leave_depth (e_depth e)\<rparr>"

definition enc_uint :: "u64 \<Rightarrow> encoder \<Rightarrow> exi_error + encoder" where
  "enc_uint v e = on_writer (write_uint v) e"

definition enc_int :: "int \<Rightarrow> encoder \<Rightarrow> exi_error + encoder" where
  "enc_int v e = on_writer (write_int v) e"

definition enc_nbit :: "u64 \<Rightarrow> nat \<Rightarrow> encoder \<Rightarrow> exi_error + encoder" where
  "enc_nbit v n e = on_writer (write_nbit_uint v n) e"

definition enc_boolean :: "bool \<Rightarrow> encoder \<Rightarrow> exi_error + encoder" where
  "enc_boolean v e = on_writer (write_bool v) e"

definition enc_restricted :: "int \<Rightarrow> int \<Rightarrow> int \<Rightarrow> encoder \<Rightarrow> exi_error + encoder" where
  "enc_restricted v mn mx e =
     (if v < mn \<or> v > mx then Inl ValueOutOfRange
      else
        ebind (ok_or (u64_try_from (mx - mn)) ValueOutOfRange) (\<lambda>span.
        ebind (ok_or (u64_try_from (v - mn)) ValueOutOfRange) (\<lambda>index.
        enc_nbit index (restricted_width span) e)))"

definition enc_binary :: "bytes \<Rightarrow> lengths \<Rightarrow> encoder \<Rightarrow> exi_error + encoder" where
  "enc_binary bs lens e =
     ebind (lengths_check lens (length bs)) (\<lambda>_. on_writer (write_binary bs) e)"

definition enc_decimal :: "decimal \<Rightarrow> encoder \<Rightarrow> exi_error + encoder" where
  "enc_decimal v e = on_writer (write_decimal v) e"

definition enc_float :: "float \<Rightarrow> encoder \<Rightarrow> exi_error + encoder" where
  "enc_float v e = on_writer (write_float v) e"

definition enc_datetime :: "datetime \<Rightarrow> encoder \<Rightarrow> exi_error + encoder" where
  "enc_datetime v e = on_writer (write_datetime v) e"

definition enc_string :: "value_ctx \<Rightarrow> rstring \<Rightarrow> lengths \<Rightarrow> encoder \<Rightarrow> exi_error + encoder" where
  "enc_string ctx v lens e =
     (let n = char_len v in
      ebind (lengths_check lens n) (\<lambda>_.
      case (if e_coding e = Referenced then table_find (e_values e) ctx v else Hit_Miss) of
        Hit_Local idx \<Rightarrow>
          let width = local_index_width (e_values e) ctx in
          ebind (enc_uint 0 e) (\<lambda>e. enc_nbit idx width e)
      | Hit_Global idx \<Rightarrow>
          let width = global_index_width (e_values e) in
          ebind (enc_uint 1 e) (\<lambda>e. enc_nbit idx width e)
      | Hit_Miss \<Rightarrow>
          ebind (enc_uint (of_nat n + 2) e) (\<lambda>e.
          ebind (on_writer (write_chars v) e) (\<lambda>e.
          Inr (if e_coding e = Referenced then e\<lparr>e_values := table_insert (e_values e) ctx v\<rparr> else e)))))"

definition enc_bit_len :: "encoder \<Rightarrow> nat" where
  "enc_bit_len e = bw_bit_len (e_bits e)"

definition enc_finish :: "encoder \<Rightarrow> exi_error + (nat \<times> bytes)" where
  "enc_finish e = bw_finish (e_bits e)"

section \<open>The decoder\<close>

record decoder =
  d_bits :: bit_reader
  d_values :: value_table
  d_depth :: nat

definition dec_new :: "bytes \<Rightarrow> decoder" where
  "dec_new buf = \<lparr>d_bits = br_new buf, d_values = table_new, d_depth = 0\<rparr>"

definition on_reader :: "(bit_reader \<Rightarrow> exi_error + ('a \<times> bit_reader)) \<Rightarrow> decoder \<Rightarrow>
    exi_error + ('a \<times> decoder)" where
  "on_reader f d = ebind (f (d_bits d)) (\<lambda>(v, r). Inr (v, d\<lparr>d_bits := r\<rparr>))"

definition dec_read_header :: "decoder \<Rightarrow> exi_error + (exi_header \<times> decoder)" where
  "dec_read_header d = on_reader read_header d"

definition dec_event :: "nat \<Rightarrow> decoder \<Rightarrow> exi_error + (u64 \<times> decoder)" where
  "dec_event width d = on_reader (read_nbit_uint width) d"

definition dec_expect_event :: "u64 \<Rightarrow> nat \<Rightarrow> decoder \<Rightarrow> exi_error + decoder" where
  "dec_expect_event code width d =
     ebind (dec_event width d) (\<lambda>(c, d). if c = code then Inr d else Inl UnknownEventCode)"

definition dec_enter :: "decoder \<Rightarrow> (exi_error + unit) \<times> decoder" where
  "dec_enter d = (let (res, depth) = enter_depth (d_depth d) in (res, d\<lparr>d_depth := depth\<rparr>))"

definition dec_leave :: "decoder \<Rightarrow> decoder" where
  "dec_leave d = d\<lparr>d_depth := leave_depth (d_depth d)\<rparr>"

definition dec_uint :: "decoder \<Rightarrow> exi_error + (u64 \<times> decoder)" where
  "dec_uint d = on_reader read_uint d"

definition dec_int :: "decoder \<Rightarrow> exi_error + (int \<times> decoder)" where
  "dec_int d = on_reader read_int d"

definition dec_nbit :: "nat \<Rightarrow> decoder \<Rightarrow> exi_error + (u64 \<times> decoder)" where
  "dec_nbit n d = on_reader (read_nbit_uint n) d"

definition dec_boolean :: "decoder \<Rightarrow> exi_error + (bool \<times> decoder)" where
  "dec_boolean d = on_reader read_bool d"

definition dec_restricted :: "int \<Rightarrow> int \<Rightarrow> decoder \<Rightarrow> exi_error + (int \<times> decoder)" where
  "dec_restricted mn mx d =
     ebind (ok_or (u64_try_from (mx - mn)) ValueOutOfRange) (\<lambda>span.
     ebind (dec_nbit (restricted_width span) d) (\<lambda>(index, d).
     if index > span then Inl ValueOutOfRange
     else ebind (ok_or (checked_i64 (mn + int (unat index))) ValueOutOfRange) (\<lambda>v. Inr (v, d))))"

definition dec_binary :: "lengths \<Rightarrow> decoder \<Rightarrow> exi_error + (bytes \<times> decoder)" where
  "dec_binary lens d =
     ebind (on_reader (read_binary (len_max lens)) d) (\<lambda>(bs, d).
     ebind (lengths_check lens (length bs)) (\<lambda>_. Inr (bs, d)))"

definition dec_decimal :: "decoder \<Rightarrow> exi_error + (decimal \<times> decoder)" where
  "dec_decimal d = on_reader read_decimal d"

definition dec_float :: "decoder \<Rightarrow> exi_error + (float \<times> decoder)" where
  "dec_float d = on_reader read_float d"

definition dec_datetime :: "decoder \<Rightarrow> exi_error + (datetime \<times> decoder)" where
  "dec_datetime d = on_reader read_datetime d"

definition dec_string_inner :: "value_ctx \<Rightarrow> lengths \<Rightarrow> decoder \<Rightarrow> exi_error + (rstring \<times> decoder)" where
  "dec_string_inner ctx lens d =
     ebind (dec_uint d) (\<lambda>(marker, d).
     if marker = 0 then
       let width = local_index_width (d_values d) ctx in
       ebind (dec_nbit width d) (\<lambda>(idx, d).
       ebind (ok_or (table_local (d_values d) ctx idx) BadStringTableIndex) (\<lambda>s. Inr (s, d)))
     else if marker = 1 then
       let width = global_index_width (d_values d) in
       ebind (dec_nbit width d) (\<lambda>(idx, d).
       ebind (ok_or (table_global (d_values d) idx) BadStringTableIndex) (\<lambda>s. Inr (s, d)))
     else
       let len = unat (marker - 2) in
       if len > len_max lens then Inl ValueTooLong
       else ebind (on_reader (read_chars len) d) (\<lambda>(s, d).
         Inr (s, d\<lparr>d_values := table_insert (d_values d) ctx s\<rparr>)))"

definition dec_string :: "value_ctx \<Rightarrow> lengths \<Rightarrow> decoder \<Rightarrow> exi_error + (rstring \<times> decoder)" where
  "dec_string ctx lens d =
     ebind (dec_string_inner ctx lens d) (\<lambda>(v, d).
     ebind (lengths_check lens (char_len v)) (\<lambda>_. Inr (v, d)))"

definition dec_finish :: "decoder \<Rightarrow> exi_error + unit" where
  "dec_finish d =
     ebind (skip_padding (d_bits d)) (\<lambda>r. if bits_remaining r \<noteq> 0 then Inl TrailingData else Inr ())"

section \<open>Sequences of operations\<close>

text \<open>
  One call of a message codec, with the value it writes. \<open>decode_item\<close> performs the matching read: it
  uses the widths, facets and contexts of the item, and returns it with the value found in the
  stream.
\<close>

datatype exi_item =
    I_Event u64 nat
  | I_Uint u64
  | I_Int int
  | I_Nbit u64 nat
  | I_Boolean bool
  | I_Restricted int int int
  | I_Binary bytes lengths
  | I_Decimal decimal
  | I_Float float
  | I_Datetime datetime
  | I_String value_ctx rstring lengths
  | I_Enter
  | I_Leave

fun encode_item :: "exi_item \<Rightarrow> encoder \<Rightarrow> exi_error + encoder" where
  "encode_item (I_Event c w) e = enc_event c w e"
| "encode_item (I_Uint v) e = enc_uint v e"
| "encode_item (I_Int v) e = enc_int v e"
| "encode_item (I_Nbit v n) e = enc_nbit v n e"
| "encode_item (I_Boolean b) e = enc_boolean b e"
| "encode_item (I_Restricted v mn mx) e = enc_restricted v mn mx e"
| "encode_item (I_Binary bs lens) e = enc_binary bs lens e"
| "encode_item (I_Decimal v) e = enc_decimal v e"
| "encode_item (I_Float v) e = enc_float v e"
| "encode_item (I_Datetime v) e = enc_datetime v e"
| "encode_item (I_String ctx s lens) e = enc_string ctx s lens e"
| "encode_item I_Enter e = (let (res, e) = enc_enter e in ebind res (\<lambda>_. Inr e))"
| "encode_item I_Leave e = Inr (enc_leave e)"

fun decode_item :: "exi_item \<Rightarrow> decoder \<Rightarrow> exi_error + (exi_item \<times> decoder)" where
  "decode_item (I_Event c w) d = ebind (dec_event w d) (\<lambda>(v, d). Inr (I_Event v w, d))"
| "decode_item (I_Uint _) d = ebind (dec_uint d) (\<lambda>(v, d). Inr (I_Uint v, d))"
| "decode_item (I_Int _) d = ebind (dec_int d) (\<lambda>(v, d). Inr (I_Int v, d))"
| "decode_item (I_Nbit _ n) d = ebind (dec_nbit n d) (\<lambda>(v, d). Inr (I_Nbit v n, d))"
| "decode_item (I_Boolean _) d = ebind (dec_boolean d) (\<lambda>(v, d). Inr (I_Boolean v, d))"
| "decode_item (I_Restricted _ mn mx) d =
     ebind (dec_restricted mn mx d) (\<lambda>(v, d). Inr (I_Restricted v mn mx, d))"
| "decode_item (I_Binary _ lens) d = ebind (dec_binary lens d) (\<lambda>(v, d). Inr (I_Binary v lens, d))"
| "decode_item (I_Decimal _) d = ebind (dec_decimal d) (\<lambda>(v, d). Inr (I_Decimal v, d))"
| "decode_item (I_Float _) d = ebind (dec_float d) (\<lambda>(v, d). Inr (I_Float v, d))"
| "decode_item (I_Datetime _) d = ebind (dec_datetime d) (\<lambda>(v, d). Inr (I_Datetime v, d))"
| "decode_item (I_String ctx _ lens) d =
     ebind (dec_string ctx lens d) (\<lambda>(v, d). Inr (I_String ctx v lens, d))"
| "decode_item I_Enter d = (let (res, d) = dec_enter d in ebind res (\<lambda>_. Inr (I_Enter, d)))"
| "decode_item I_Leave d = Inr (I_Leave, dec_leave d)"

fun encode_items :: "exi_item list \<Rightarrow> encoder \<Rightarrow> exi_error + encoder" where
  "encode_items [] e = Inr e"
| "encode_items (it # its) e = ebind (encode_item it e) (encode_items its)"

fun decode_items :: "exi_item list \<Rightarrow> decoder \<Rightarrow> exi_error + (exi_item list \<times> decoder)" where
  "decode_items [] d = Inr ([], d)"
| "decode_items (it # its) d =
     ebind (decode_item it d) (\<lambda>(v, d).
     ebind (decode_items its d) (\<lambda>(vs, d). Inr (v # vs, d)))"

text \<open>The values a caller may pass: what the Rust types and the assertions of the source allow.\<close>

fun valid_item :: "exi_item \<Rightarrow> bool" where
  "valid_item (I_Event c w) = fits_bits w c"
| "valid_item (I_Int v) = i64_range v"
| "valid_item (I_Nbit v n) = fits_bits n v"
| "valid_item (I_Restricted v mn mx) = (i64_range mn \<and> i64_range mx \<and> i64_range v)"
| "valid_item (I_Binary bs lens) = (length bs < 2 ^ 64)"
| "valid_item (I_Decimal v) = wf_decimal v"
| "valid_item (I_Float v) = i64_range (mantissa v)"
| "valid_item (I_Datetime v) = (i64_range (year v) \<and> pred_option wf_fraction (fractional_secs v))"
| "valid_item (I_String ctx s lens) = (wf_string s \<and> length s + 2 < 2 ^ 64)"
| "valid_item _ = True"

text \<open>
  What the decoder knows before it reads: the item with its value blanked out. Decoding does not
  look at the value.
\<close>

fun blank :: "exi_item \<Rightarrow> exi_item" where
  "blank (I_Event c w) = I_Event 0 w"
| "blank (I_Uint v) = I_Uint 0"
| "blank (I_Int v) = I_Int 0"
| "blank (I_Nbit v n) = I_Nbit 0 n"
| "blank (I_Boolean b) = I_Boolean False"
| "blank (I_Restricted v mn mx) = I_Restricted mn mn mx"
| "blank (I_Binary bs lens) = I_Binary [] lens"
| "blank (I_Decimal v) = I_Decimal \<lparr>negative = False, integral = 0, fractional = Fraction_ZERO\<rparr>"
| "blank (I_Float v) = I_Float \<lparr>mantissa = 0, exponent = 0\<rparr>"
| "blank (I_Datetime v) = I_Datetime \<lparr>year = 0, month = 0, day = 0, hour = 0, minute = 0, second = 0,
     fractional_secs = None, timezone_minutes = None\<rparr>"
| "blank (I_String ctx s lens) = I_String ctx [] lens"
| "blank I_Enter = I_Enter"
| "blank I_Leave = I_Leave"

lemma decode_item_blank [simp]: "decode_item (blank it) d = decode_item it d"
  by (cases it) simp_all

lemma decode_items_blank [simp]: "decode_items (map blank its) d = decode_items its d"
  by (induction its arbitrary: d) simp_all

end
