(* ===== verification/Seq.thy ===== *)
theory Seq
  imports Exi_Codec
begin

text \<open>
  The event-code arithmetic of a content model, \<open>src/src/exi/seq.rs\<close>: the static \<open>Shape\<close>, the writer
  and the reader that walk it. The slices of a shape are lists of naturals. A shape is well formed
  (\<open>wf_shape\<close>) when its slices have the lengths the source documents, its productions are counted
  upwards, its bounds on the occurrences are consistent and a choice never has a minimum above one, as
  \<open>assert_below_min_is_narrow\<close> demands; it is wide (\<open>wide_shape\<close>) when each of its widths has room for
  the codes that are legal there. All the shapes under \<open>src/src/generated\<close> are both.

  The closing sections follow a whole content model: the reader, fed the codes of the writer, reports
  the occurrences that were written, in order, and then the end. This needs a condition on the content:
  an item that could occur once more when it is left must be a single production
  (\<open>closed_choices\<close>). Behind a repeated choice the arithmetic reserves one code where the choice
  has one for each branch, and the end is then read as another occurrence.
\<close>

section \<open>Data and operations\<close>

definition BELOW_MIN_WIDTH :: nat where
  "BELOW_MIN_WIDTH = 1"

definition SIMPLE_WIDTH :: nat where
  "SIMPLE_WIDTH = 1"

record shape =
  prod_before :: "nat list"
  width :: "nat list"
  repeat_width :: "nat list"
  min_occurs :: "nat list"
  max_occurs :: "nat list"

definition shape_len :: "shape \<Rightarrow> nat" where
  "shape_len s = length (min_occurs s)"

definition total :: "shape \<Rightarrow> nat" where
  "total s = prod_before s ! (length (prod_before s) - 1)"

definition branches :: "shape \<Rightarrow> nat \<Rightarrow> nat" where
  "branches s j = prod_before s ! (j + 1) - prod_before s ! j"

definition below_min_is_narrow :: "shape \<Rightarrow> bool" where
  "below_min_is_narrow s \<longleftrightarrow>
     (\<forall>j \<in> set [0..<shape_len s]. min_occurs s ! j < 2 \<or> branches s j = 1)"

record seq_writer =
  sw_shape :: shape
  sw_pos :: nat
  sw_base :: nat
  sw_width :: nat

definition seq_writer_new :: "shape \<Rightarrow> seq_writer" where
  "seq_writer_new s = \<lparr>sw_shape = s, sw_pos = 0, sw_base = 0, sw_width = width s ! 0\<rparr>"

text \<open>The code and the width \<open>start_branch\<close> writes.\<close>

definition start_code :: "seq_writer \<Rightarrow> nat \<Rightarrow> nat \<Rightarrow> nat \<Rightarrow> nat \<times> nat" where
  "start_code w j c branch =
     (let s = sw_shape w in
      if c = 0 then (sw_base w + prod_before s ! j - prod_before s ! sw_pos w + branch, sw_width w)
      else if c < min_occurs s ! j then (branch, BELOW_MIN_WIDTH)
      else (branch, repeat_width s ! j))"

definition start_branch :: "nat \<Rightarrow> nat \<Rightarrow> nat \<Rightarrow> seq_writer \<Rightarrow> encoder \<Rightarrow> exi_error + encoder" where
  "start_branch j c branch w e =
     (let (code, wd) = start_code w j c branch in enc_event (of_nat code) wd e)"

definition start :: "nat \<Rightarrow> nat \<Rightarrow> seq_writer \<Rightarrow> encoder \<Rightarrow> exi_error + encoder" where
  "start j c w e = start_branch j c 0 w e"

definition seq_finish :: "nat \<Rightarrow> nat \<Rightarrow> seq_writer \<Rightarrow> seq_writer" where
  "seq_finish j count w =
     (let s = sw_shape w; w = w\<lparr>sw_pos := j + 1\<rparr> in
      if count < max_occurs s ! j
      then w\<lparr>sw_base := 1,
             sw_width := (if count < min_occurs s ! j then BELOW_MIN_WIDTH else repeat_width s ! j)\<rparr>
      else w\<lparr>sw_base := 0, sw_width := width s ! sw_pos w\<rparr>)"

definition end_code :: "seq_writer \<Rightarrow> nat \<times> nat" where
  "end_code w = (sw_base w + total (sw_shape w) - prod_before (sw_shape w) ! sw_pos w, sw_width w)"

definition seq_end :: "seq_writer \<Rightarrow> encoder \<Rightarrow> exi_error + encoder" where
  "seq_end w e = (let (code, wd) = end_code w in enc_event (of_nat code) wd e)"

datatype step = Step_Item (st_index: nat) (st_branch: nat) (st_first: bool) | Step_End

record seq_reader =
  sr_shape :: shape
  sr_pos :: nat
  sr_base :: nat
  sr_width :: nat
  sr_repeating :: nat
  sr_count :: nat
  sr_repeating_branches :: nat
  sr_below_min :: bool

definition seq_reader_new :: "shape \<Rightarrow> seq_reader" where
  "seq_reader_new s =
     \<lparr>sr_shape = s, sr_pos = 0, sr_base = 0, sr_width = width s ! 0, sr_repeating = 0, sr_count = 0,
      sr_repeating_branches = 1, sr_below_min = False\<rparr>"

definition advance_repeat :: "nat \<Rightarrow> seq_reader \<Rightarrow> seq_reader" where
  "advance_repeat j r =
     (let s = sr_shape r;
          below = sr_count r < min_occurs s ! j;
          r = r\<lparr>sr_pos := j + 1, sr_below_min := below\<rparr> in
      if sr_count r < max_occurs s ! j
      then r\<lparr>sr_base := 1, sr_width := (if below then BELOW_MIN_WIDTH else repeat_width s ! j)\<rparr>
      else r\<lparr>sr_base := 0, sr_width := width s ! sr_pos r\<rparr>)"

text \<open>
  The scan of \<open>next\<close> for the item a code names; \<open>None\<close> is the refusal of a code that lies past a
  required item. The loop runs over the items that are left.
\<close>

function locate :: "shape \<Rightarrow> nat \<Rightarrow> nat \<Rightarrow> nat option" where
  "locate s at index =
     (if index < shape_len s \<and> prod_before s ! (index + 1) \<le> at
      then (if min_occurs s ! index > 0 then None else locate s at (index + 1))
      else Some index)"
  by pat_completeness auto
termination
  by (relation "measure (\<lambda>(s, at, index). shape_len s - index)") auto

declare locate.simps [simp del]

text \<open>What \<open>next\<close> makes of the event code it read.\<close>

definition next_code :: "nat \<Rightarrow> seq_reader \<Rightarrow> exi_error + (step \<times> seq_reader)" where
  "next_code code r =
     (let s = sr_shape r in
      if sr_base r \<noteq> 0 \<and> code < sr_repeating_branches r then
        let j = sr_repeating r
        in Inr (Step_Item j code False, advance_repeat j (r\<lparr>sr_count := sr_count r + 1\<rparr>))
      else if sr_below_min r then Inl UnknownEventCode
      else if code < sr_base r then Inl UnknownEventCode
      else
        let at = code - sr_base r + prod_before s ! sr_pos r in
        if at = total s then Inr (Step_End, r)
        else (case locate s at (sr_pos r) of
                None \<Rightarrow> Inl UnknownEventCode
              | Some index \<Rightarrow>
                  if index \<ge> shape_len s then Inl UnknownEventCode
                  else let branch = at - prod_before s ! index
                       in Inr (Step_Item index branch True,
                               advance_repeat index
                                 (r\<lparr>sr_repeating := index, sr_repeating_branches := branches s index, sr_count := 1\<rparr>))))"

definition seq_next :: "seq_reader \<Rightarrow> decoder \<Rightarrow> exi_error + ((step \<times> seq_reader) \<times> decoder)" where
  "seq_next r d =
     ebind (dec_event (sr_width r) d) (\<lambda>(code, d).
     ebind (next_code (unat code) r) (\<lambda>res. Inr (res, d)))"

section \<open>Well-formed shapes\<close>

text \<open>The items that may come next end with the first required one.\<close>

definition optional_upto :: "shape \<Rightarrow> nat \<Rightarrow> nat \<Rightarrow> bool" where
  "optional_upto s i j \<longleftrightarrow> (\<forall>k. i \<le> k \<and> k < j \<longrightarrow> min_occurs s ! k = 0)"

definition wf_shape :: "shape \<Rightarrow> bool" where
  "wf_shape s \<longleftrightarrow>
     length (prod_before s) = Suc (shape_len s) \<and> length (width s) = Suc (shape_len s)
     \<and> length (repeat_width s) = shape_len s \<and> length (max_occurs s) = shape_len s
     \<and> (\<forall>j < shape_len s. prod_before s ! j < prod_before s ! (j + 1)
          \<and> min_occurs s ! j \<le> max_occurs s ! j \<and> 0 < max_occurs s ! j
          \<and> (2 \<le> min_occurs s ! j \<longrightarrow> branches s j = 1))"

text \<open>The codes that are legal at position \<open>i\<close>, with \<open>base\<close> codes ahead of them, have room in \<open>wd\<close> bits.\<close>

definition room :: "shape \<Rightarrow> nat \<Rightarrow> nat \<Rightarrow> nat \<Rightarrow> bool" where
  "room s i base wd \<longleftrightarrow>
     (\<forall>j. i \<le> j \<and> j < shape_len s \<and> optional_upto s i j \<longrightarrow> base + (prod_before s ! (j + 1) - prod_before s ! i) \<le> 2 ^ wd)
     \<and> (optional_upto s i (shape_len s) \<longrightarrow> base + (total s - prod_before s ! i) < 2 ^ wd)"

definition wide_shape :: "shape \<Rightarrow> bool" where
  "wide_shape s \<longleftrightarrow> (\<forall>i \<le> shape_len s. room s i 0 (width s ! i))
     \<and> (\<forall>j < shape_len s. 1 < max_occurs s ! j \<longrightarrow>
          branches s j \<le> 2 ^ (repeat_width s ! j) \<and> room s (j + 1) 1 (repeat_width s ! j))"

lemma wf_shape_step:
  assumes "wf_shape s" and "j < shape_len s"
  shows "prod_before s ! j < prod_before s ! (j + 1)" and "0 < max_occurs s ! j"
    and "2 \<le> min_occurs s ! j \<Longrightarrow> branches s j = 1"
  using assms by (auto simp: wf_shape_def)

lemma wf_shape_mono: "wf_shape s \<Longrightarrow> i \<le> j \<Longrightarrow> j \<le> shape_len s \<Longrightarrow> prod_before s ! i \<le> prod_before s ! j"
proof (induction j)
  case (Suc j)
  show ?case
  proof (cases "i = Suc j")
    case False
    then have "prod_before s ! i \<le> prod_before s ! j" using Suc by simp
    also have "\<dots> \<le> prod_before s ! Suc j" using wf_shape_step(1) [of s j] Suc.prems by simp
    finally show ?thesis .
  qed simp
qed simp

lemma wf_shape_total: "wf_shape s \<Longrightarrow> total s = prod_before s ! shape_len s"
  by (simp add: wf_shape_def total_def)

lemma locate_item:
  assumes wf: "wf_shape s" and j: "j < shape_len s" and b: "b < branches s j"
  shows "i \<le> j \<Longrightarrow> optional_upto s i j \<Longrightarrow> locate s (prod_before s ! j + b) i = Some j"
proof (induction "j - i" arbitrary: i)
  case 0
  then have "i = j" by simp
  moreover have "\<not> prod_before s ! (j + 1) \<le> prod_before s ! j + b" using b by (simp add: branches_def)
  ultimately show ?case by (subst locate.simps) simp
next
  case (Suc k)
  then have i: "i < j" by simp
  then have "prod_before s ! (i + 1) \<le> prod_before s ! j" using wf j by (intro wf_shape_mono) auto
  moreover have "min_occurs s ! i = 0" using Suc.prems i by (simp add: optional_upto_def)
  moreover have "locate s (prod_before s ! j + b) (i + 1) = Some j"
    using Suc by (intro Suc.hyps) (auto simp: optional_upto_def)
  ultimately show ?case using i j by (simp add: locate.simps [of s _ i])
qed

lemma locate_sound:
  "locate s a i = Some j \<Longrightarrow> i \<le> j \<and> optional_upto s i j"
proof (induction s a i rule: locate.induct)
  case (1 s a i)
  show ?case
  proof (cases "i < shape_len s \<and> prod_before s ! (i + 1) \<le> a")
    case True
    then have "min_occurs s ! i = 0" "locate s a (i + 1) = Some j"
      using "1.prems" by (auto simp: locate.simps [of s a i] split: if_splits)
    with "1.IH" True have "i + 1 \<le> j \<and> optional_upto s (i + 1) j" by simp
    then show ?thesis using \<open>min_occurs s ! i = 0\<close>
      by (auto simp: optional_upto_def Suc_le_eq elim!: le_neq_implies_less) (metis Suc_leI le_neq_implies_less)
  next
    case False
    then show ?thesis using "1.prems" by (auto simp: locate.simps [of s a i] optional_upto_def)
  qed
qed

section \<open>The reader follows the writer\<close>

text \<open>
  \<open>between w r\<close>: both stand between two items. \<open>inside w r j c\<close>: the writer has written \<open>c\<close> occurrences
  of item \<open>j\<close> and not closed it, the reader has seen them.
\<close>

definition between :: "seq_writer \<Rightarrow> seq_reader \<Rightarrow> bool" where
  "between w r \<longleftrightarrow> sr_shape r = sw_shape w \<and> sr_pos r = sw_pos w \<and> sr_base r = sw_base w \<and> sr_width r = sw_width w
     \<and> \<not> sr_below_min r \<and> sw_pos w \<le> shape_len (sw_shape w) \<and> sw_base w \<le> 1
     \<and> (sw_base w = 1 \<longrightarrow> sr_repeating_branches r = 1)"

definition inside :: "seq_writer \<Rightarrow> seq_reader \<Rightarrow> nat \<Rightarrow> nat \<Rightarrow> bool" where
  "inside w r j c \<longleftrightarrow> sr_shape r = sw_shape w \<and> j < shape_len (sw_shape w) \<and> 0 < c
     \<and> sr_repeating r = j \<and> sr_count r = c \<and> sr_pos r = j + 1
     \<and> sr_repeating_branches r = branches (sw_shape w) j
     \<and> sr_below_min r = (c < min_occurs (sw_shape w) ! j)
     \<and> (if c < max_occurs (sw_shape w) ! j
        then sr_base r = 1 \<and> sr_width r = (if c < min_occurs (sw_shape w) ! j then BELOW_MIN_WIDTH
                                            else repeat_width (sw_shape w) ! j)
        else sr_base r = 0 \<and> sr_width r = width (sw_shape w) ! (j + 1))"

lemma between_new: "between (seq_writer_new s) (seq_reader_new s)"
  by (simp add: between_def seq_writer_new_def seq_reader_new_def)

lemma advance_repeat_inside:
  assumes "sr_shape r = sw_shape w" and "j < shape_len (sw_shape w)" and "0 < sr_count r"
    and "sr_repeating r = j" and "sr_repeating_branches r = branches (sw_shape w) j"
  shows "inside w (advance_repeat j r) j (sr_count r)"
  using assms by (auto simp: inside_def advance_repeat_def Let_def)

lemma total_above:
  assumes "wf_shape s" and "j < shape_len s" and "b < branches s j"
  shows "prod_before s ! j + b < total s"
proof -
  have "prod_before s ! j + b < prod_before s ! (j + 1)" using assms by (simp add: branches_def)
  also have "\<dots> \<le> total s" using assms by (simp add: wf_shape_total wf_shape_mono)
  finally show ?thesis .
qed

lemma follow_first:
  assumes wf: "wf_shape (sw_shape w)" and rel: "between w r"
    and j: "sw_pos w \<le> j" "j < shape_len (sw_shape w)" "optional_upto (sw_shape w) (sw_pos w) j"
    and b: "b < branches (sw_shape w) j" and code: "start_code w j 0 b = (code, wd)"
  shows "wd = sr_width r \<and> (\<exists>r'. next_code code r = Inr (Step_Item j b True, r') \<and> inside w r' j 1)"
proof -
  let ?s = "sw_shape w"
  have mono: "prod_before ?s ! sw_pos w \<le> prod_before ?s ! j" using wf j by (intro wf_shape_mono) simp_all
  have code': "code = sw_base w + (prod_before ?s ! j - prod_before ?s ! sw_pos w) + b" "wd = sw_width w"
    using code mono by (auto simp: start_code_def Let_def)
  have at: "code - sr_base r + prod_before ?s ! sr_pos r = prod_before ?s ! j + b"
    using code' mono rel by (simp add: between_def)
  have ne: "prod_before ?s ! j + b \<noteq> total ?s" using total_above [OF wf j(2) b] by simp
  define r1 where "r1 = r\<lparr>sr_repeating := j, sr_repeating_branches := branches ?s j, sr_count := 1\<rparr>"
  have norep: "\<not> (sr_base r \<noteq> 0 \<and> code < sr_repeating_branches r)"
    using rel code' by (auto simp: between_def)
  moreover have "\<not> sr_below_min r" "\<not> code < sr_base r" "sr_shape r = ?s" "sr_pos r = sw_pos w"
    using rel code' by (auto simp: between_def)
  moreover have "locate ?s (prod_before ?s ! j + b) (sw_pos w) = Some j" using locate_item [OF wf j(2) b j(1,3)] .
  ultimately have "next_code code r = Inr (Step_Item j b True, advance_repeat j r1)"
    using at ne j(2) unfolding next_code_def Let_def r1_def by simp
  moreover have "inside w (advance_repeat j r1) j 1"
    using advance_repeat_inside [of r1 w j] rel j(2) by (simp add: r1_def between_def)
  ultimately show ?thesis using code' rel by (simp add: between_def)
qed

lemma follow_again:
  assumes rel: "inside w r j c" and c: "c < max_occurs (sw_shape w) ! j" and b: "b < branches (sw_shape w) j"
    and code: "start_code w j c b = (code, wd)"
  shows "wd = sr_width r \<and> (\<exists>r'. next_code code r = Inr (Step_Item j b False, r') \<and> inside w r' j (Suc c))"
proof -
  let ?r = "r\<lparr>sr_count := sr_count r + 1\<rparr>"
  have "0 < c" using rel by (simp add: inside_def)
  then have "code = b" "wd = (if c < min_occurs (sw_shape w) ! j then BELOW_MIN_WIDTH else repeat_width (sw_shape w) ! j)"
    using code by (auto simp: start_code_def Let_def split: if_splits)
  moreover have "inside w (advance_repeat j ?r) j (Suc c)"
  proof -
    have "inside w (advance_repeat j ?r) j (sr_count ?r)"
      using rel by (intro advance_repeat_inside) (auto simp: inside_def)
    moreover have "sr_count r = c" using rel by (simp add: inside_def)
    ultimately show ?thesis by simp
  qed
  ultimately show ?thesis using rel c b by (auto simp: next_code_def inside_def)
qed

lemma follow_finish:
  assumes rel: "inside w r j c" and c: "min_occurs (sw_shape w) ! j \<le> c"
    and single: "c < max_occurs (sw_shape w) ! j \<longrightarrow> branches (sw_shape w) j = 1"
  shows "between (seq_finish j c w) r"
  using assms by (auto simp: between_def inside_def seq_finish_def Let_def split: if_splits)

lemma follow_end:
  assumes wf: "wf_shape (sw_shape w)" and rel: "between w r" and code: "end_code w = (code, wd)"
  shows "wd = sr_width r \<and> next_code code r = Inr (Step_End, r)"
proof -
  let ?s = "sw_shape w"
  have mono: "prod_before ?s ! sw_pos w \<le> total ?s"
    using wf rel by (simp add: wf_shape_total wf_shape_mono between_def)
  then have "code - sr_base r + prod_before ?s ! sr_pos r = total ?s" "sr_base r \<le> code"
    using code rel by (auto simp: end_code_def between_def)
  moreover have "\<not> (sr_base r \<noteq> 0 \<and> code < sr_repeating_branches r)"
    using rel code calculation(2) by (auto simp: between_def)
  ultimately show ?thesis using rel code by (auto simp: next_code_def end_code_def between_def Let_def)
qed

section \<open>A whole content model\<close>

text \<open>
  A content: the items that occur, in order, each with the branch of every occurrence.
  \<open>write_content\<close> gives the event codes a writer puts out for it, \<open>read_codes\<close> what a reader makes of
  such codes; a code read at another width than it was written with is an error.
\<close>

type_synonym content = "(nat \<times> nat list) list"

fun valid_content :: "shape \<Rightarrow> nat \<Rightarrow> content \<Rightarrow> bool" where
  "valid_content s i [] = optional_upto s i (shape_len s)"
| "valid_content s i ((j, bs) # rest) \<longleftrightarrow>
     i \<le> j \<and> j < shape_len s \<and> optional_upto s i j \<and> bs \<noteq> []
     \<and> min_occurs s ! j \<le> length bs \<and> length bs \<le> max_occurs s ! j
     \<and> list_all (\<lambda>b. b < branches s j) bs \<and> valid_content s (j + 1) rest"

fun write_occurrences :: "seq_writer \<Rightarrow> nat \<Rightarrow> nat \<Rightarrow> nat list \<Rightarrow> (nat \<times> nat) list" where
  "write_occurrences w j c [] = []"
| "write_occurrences w j c (b # bs) = start_code w j c b # write_occurrences w j (c + 1) bs"

fun write_content :: "seq_writer \<Rightarrow> content \<Rightarrow> (nat \<times> nat) list" where
  "write_content w [] = [end_code w]"
| "write_content w ((j, bs) # rest) =
     write_occurrences w j 0 bs @ write_content (seq_finish j (length bs) w) rest"

fun read_codes :: "seq_reader \<Rightarrow> (nat \<times> nat) list \<Rightarrow> exi_error + (step list \<times> seq_reader)" where
  "read_codes r [] = Inr ([], r)"
| "read_codes r ((code, wd) # cs) =
     (if wd \<noteq> sr_width r then Inl UnexpectedEnd
      else ebind (next_code code r) (\<lambda>(st, r).
           ebind (read_codes r cs) (\<lambda>(sts, r). Inr (st # sts, r))))"

fun item_steps :: "nat \<Rightarrow> bool \<Rightarrow> nat list \<Rightarrow> step list" where
  "item_steps j first [] = []"
| "item_steps j first (b # bs) = Step_Item j b first # item_steps j False bs"

fun content_steps :: "content \<Rightarrow> step list" where
  "content_steps [] = [Step_End]"
| "content_steps ((j, bs) # rest) = item_steps j True bs @ content_steps rest"

lemma read_codes_append:
  "read_codes r (xs @ ys) =
     ebind (read_codes r xs) (\<lambda>(sts, r). ebind (read_codes r ys) (\<lambda>(sts', r). Inr (sts @ sts', r)))"
proof (induction xs arbitrary: r)
  case Nil
  then show ?case by (cases "read_codes r ys") auto
next
  case (Cons x xs)
  obtain code wd where x: "x = (code, wd)" by fastforce
  show ?case
  proof (cases "wd = sr_width r")
    case True
    show ?thesis
    proof (cases "next_code code r")
      case (Inr p)
      obtain st r1 where p: "p = (st, r1)" by fastforce
      show ?thesis using True Inr by (simp add: x p Cons.IH) (auto simp: ebind_assoc split_def)
    qed (simp add: x True)
  qed (simp add: x)
qed

lemma follow_rest:
  assumes "inside w r j c" and "c + length bs \<le> max_occurs (sw_shape w) ! j"
    and "list_all (\<lambda>b. b < branches (sw_shape w) j) bs"
  shows "\<exists>r'. read_codes r (write_occurrences w j c bs) = Inr (item_steps j False bs, r')
     \<and> inside w r' j (c + length bs)"
  using assms
proof (induction bs arbitrary: r c)
  case Nil
  then show ?case by simp
next
  case (Cons b bs)
  obtain code wd where code: "start_code w j c b = (code, wd)" by fastforce
  then obtain r1 where r1: "wd = sr_width r" "next_code code r = Inr (Step_Item j b False, r1)" "inside w r1 j (Suc c)"
    using follow_again [OF Cons.prems(1) _ _ code] Cons.prems(2,3) by fastforce
  then show ?case using Cons.IH [OF r1(3)] Cons.prems code by auto
qed

lemma follow_item:
  assumes wf: "wf_shape (sw_shape w)" and rel: "between w r"
    and j: "sw_pos w \<le> j" "j < shape_len (sw_shape w)" "optional_upto (sw_shape w) (sw_pos w) j"
    and bs: "bs \<noteq> []" "length bs \<le> max_occurs (sw_shape w) ! j" "list_all (\<lambda>b. b < branches (sw_shape w) j) bs"
  shows "\<exists>r'. read_codes r (write_occurrences w j 0 bs) = Inr (item_steps j True bs, r')
     \<and> inside w r' j (length bs)"
proof -
  obtain b bs' where b: "bs = b # bs'" using bs(1) by (cases bs) auto
  obtain code wd where code: "start_code w j 0 b = (code, wd)" by fastforce
  then obtain r1 where r1: "wd = sr_width r" "next_code code r = Inr (Step_Item j b True, r1)" "inside w r1 j 1"
    using follow_first [OF wf rel j] bs(3) b by fastforce
  obtain r' where "read_codes r1 (write_occurrences w j 1 bs') = Inr (item_steps j False bs', r')"
    "inside w r' j (1 + length bs')"
    using follow_rest [OF r1(3), of bs'] bs b by auto
  then show ?thesis using r1 code b by auto
qed

text \<open>An item that is left while it could occur once more is a single production.\<close>

definition closed_choices :: "shape \<Rightarrow> content \<Rightarrow> bool" where
  "closed_choices s content \<longleftrightarrow> list_all (\<lambda>(j, bs). length bs < max_occurs s ! j \<longrightarrow> branches s j = 1) content"

text \<open>The writer behind the items of a content, their codes, and what the reader reports of them.\<close>

fun content_writer :: "seq_writer \<Rightarrow> content \<Rightarrow> seq_writer" where
  "content_writer w [] = w"
| "content_writer w ((j, bs) # rest) = content_writer (seq_finish j (length bs) w) rest"

fun items_codes :: "seq_writer \<Rightarrow> content \<Rightarrow> (nat \<times> nat) list" where
  "items_codes w [] = []"
| "items_codes w ((j, bs) # rest) = write_occurrences w j 0 bs @ items_codes (seq_finish j (length bs) w) rest"

definition items_steps :: "content \<Rightarrow> step list" where
  "items_steps content = concat (map (\<lambda>(j, bs). item_steps j True bs) content)"

lemma write_content_items: "write_content w content = items_codes w content @ [end_code (content_writer w content)]"
  by (induction w content rule: items_codes.induct) simp_all

lemma items_codes_append: "items_codes w (xs @ ys) = items_codes w xs @ items_codes (content_writer w xs) ys"
  by (induction w xs rule: items_codes.induct) simp_all

lemma content_writer_append: "content_writer w (xs @ ys) = content_writer (content_writer w xs) ys"
  by (induction w xs rule: items_codes.induct) simp_all

lemma content_steps_items: "content_steps content = items_steps content @ [Step_End]"
  by (induction content rule: content_steps.induct) (simp_all add: items_steps_def)

lemma seq_finish_sel [simp]: "sw_shape (seq_finish j c w) = sw_shape w" "sw_pos (seq_finish j c w) = Suc j"
  by (simp_all add: seq_finish_def Let_def)

lemma content_writer_shape [simp]: "sw_shape (content_writer w content) = sw_shape w"
  by (induction w content rule: items_codes.induct) simp_all

lemma valid_content_append: "valid_content (sw_shape w) (sw_pos w) (xs @ ys) \<Longrightarrow>
    valid_content (sw_shape w) (sw_pos (content_writer w xs)) ys"
  by (induction w xs rule: items_codes.induct) simp_all

lemma follow_items:
  assumes "wf_shape (sw_shape w)" and "between w r" and "valid_content (sw_shape w) (sw_pos w) (content @ after)"
    and "closed_choices (sw_shape w) content"
  shows "\<exists>r'. read_codes r (items_codes w content) = Inr (items_steps content, r') \<and> between (content_writer w content) r'"
  using assms
proof (induction content arbitrary: w r)
  case Nil
  then show ?case by (simp add: items_steps_def)
next
  case (Cons x rest)
  obtain j bs where x: "x = (j, bs)" by fastforce
  let ?w = "seq_finish j (length bs) w"
  obtain r1 where r1: "read_codes r (write_occurrences w j 0 bs) = Inr (item_steps j True bs, r1)"
      "inside w r1 j (length bs)"
    using follow_item [OF Cons.prems(1,2), of j bs] Cons.prems(3) x by auto
  have "between ?w r1" using follow_finish [OF r1(2)] Cons.prems(3,4) x by (simp add: closed_choices_def)
  then obtain r' where "read_codes r1 (items_codes ?w rest) = Inr (items_steps rest, r')" "between (content_writer ?w rest) r'"
    using Cons.IH [of ?w r1] Cons.prems x by (auto simp: closed_choices_def)
  then show ?case using r1 by (simp add: x read_codes_append items_steps_def)
qed

lemma follow_content:
  assumes "wf_shape (sw_shape w)" and "between w r" and "valid_content (sw_shape w) (sw_pos w) content"
    and "closed_choices (sw_shape w) content"
  shows "\<exists>r'. read_codes r (write_content w content) = Inr (content_steps content, r')"
proof -
  obtain r' where r': "read_codes r (items_codes w content) = Inr (items_steps content, r')" "between (content_writer w content) r'"
    using follow_items [OF assms(1,2), of content "[]"] assms(3,4) by auto
  obtain code wd where code: "end_code (content_writer w content) = (code, wd)" by fastforce
  have "wd = sr_width r' \<and> next_code code r' = Inr (Step_End, r')"
    using follow_end [OF _ r'(2) code] assms(1) by simp
  then show ?thesis using r'(1) code by (simp add: write_content_items content_steps_items read_codes_append)
qed

text \<open>
  A content that ends with an open repeated choice: its last code, 1, is below the number of branches, and
  the reader takes it for the second branch.
\<close>

lemma follow_open_choice:
  assumes wf: "wf_shape (sw_shape w)" and rel: "between w r"
    and valid: "valid_content (sw_shape w) (sw_pos w) (before @ [(j, bs)])" and closed: "closed_choices (sw_shape w) before"
    and j: "shape_len (sw_shape w) = Suc j" "length bs < max_occurs (sw_shape w) ! j" "1 < branches (sw_shape w) j"
  shows "\<exists>r'. read_codes r (write_content w (before @ [(j, bs)])) =
     Inr (items_steps (before @ [(j, bs)]) @ [Step_Item j 1 False], r')"
proof -
  let ?w = "content_writer w before"
  obtain r1 where r1: "read_codes r (items_codes w before) = Inr (items_steps before, r1)" "between ?w r1"
    using follow_items [OF wf rel valid closed] by blast
  have v: "valid_content (sw_shape ?w) (sw_pos ?w) [(j, bs)]" using valid_content_append [OF valid] by simp
  obtain r2 where r2: "read_codes r1 (write_occurrences ?w j 0 bs) = Inr (item_steps j True bs, r2)" "inside ?w r2 j (length bs)"
    using follow_item [OF _ r1(2), of j bs] wf v by auto
  have "end_code (seq_finish j (length bs) ?w) = (1, sr_width r2)"
    using r2(2) j(1,2) wf_shape_total [OF wf] by (simp add: end_code_def inside_def seq_finish_def Let_def)
  moreover have "\<exists>r'. next_code 1 r2 = Inr (Step_Item j 1 False, r')"
    using r2(2) j(2,3) by (simp add: next_code_def inside_def Let_def)
  ultimately show ?thesis using r1(1) r2(1)
    by (auto simp: write_content_items items_codes_append content_writer_append read_codes_append items_steps_def)
qed

section \<open>The codes have room\<close>

definition writer_room :: "seq_writer \<Rightarrow> bool" where
  "writer_room w \<longleftrightarrow> room (sw_shape w) (sw_pos w) (sw_base w) (sw_width w)"

definition in_width :: "nat \<times> nat \<Rightarrow> bool" where
  "in_width cw \<longleftrightarrow> fst cw < 2 ^ snd cw"

lemma writer_room_new: "wide_shape s \<Longrightarrow> writer_room (seq_writer_new s)"
  by (simp add: writer_room_def seq_writer_new_def wide_shape_def)

lemma writer_room_finish:
  assumes "wide_shape (sw_shape w)" and "j < shape_len (sw_shape w)" and "min_occurs (sw_shape w) ! j \<le> c" and "0 < c"
  shows "writer_room (seq_finish j c w)"
proof (cases "c < max_occurs (sw_shape w) ! j")
  case True
  then have "1 < max_occurs (sw_shape w) ! j" using assms(4) by simp
  then show ?thesis using assms True by (simp add: writer_room_def seq_finish_def Let_def wide_shape_def)
qed (use assms in \<open>simp add: writer_room_def seq_finish_def Let_def wide_shape_def\<close>)

lemma first_in_width:
  assumes "wf_shape (sw_shape w)" and "writer_room w" and "sw_pos w \<le> j" "j < shape_len (sw_shape w)"
    and "optional_upto (sw_shape w) (sw_pos w) j" and "b < branches (sw_shape w) j"
  shows "in_width (start_code w j 0 b)"
proof -
  let ?p = "\<lambda>i. prod_before (sw_shape w) ! i"
  have "sw_base w + (?p (j + 1) - ?p (sw_pos w)) \<le> 2 ^ sw_width w"
    using assms(2-5) by (simp add: writer_room_def room_def)
  moreover have "?p (sw_pos w) \<le> ?p j" using wf_shape_mono [OF assms(1,3)] assms(4) by simp
  ultimately show ?thesis using assms(6) by (simp add: start_code_def in_width_def Let_def branches_def)
qed

lemma again_in_width:
  assumes "wf_shape (sw_shape w)" and "wide_shape (sw_shape w)" and "j < shape_len (sw_shape w)"
    and "0 < c" and "c < max_occurs (sw_shape w) ! j" and "b < branches (sw_shape w) j"
  shows "in_width (start_code w j c b)"
proof -
  have "branches (sw_shape w) j \<le> 2 ^ (repeat_width (sw_shape w) ! j)"
    using assms by (simp add: wide_shape_def)
  moreover have "c < min_occurs (sw_shape w) ! j \<Longrightarrow> b = 0"
    using wf_shape_step(3) [OF assms(1,3)] assms(4,6) by simp
  ultimately show ?thesis using assms(4,6) by (auto simp: start_code_def in_width_def Let_def)
qed

lemma occurrences_in_width:
  assumes "wf_shape (sw_shape w)" and "wide_shape (sw_shape w)" and "j < shape_len (sw_shape w)"
  shows "0 < c \<Longrightarrow> c + length bs \<le> max_occurs (sw_shape w) ! j \<Longrightarrow> list_all (\<lambda>b. b < branches (sw_shape w) j) bs \<Longrightarrow>
    list_all in_width (write_occurrences w j c bs)"
  by (induction bs arbitrary: c) (auto intro: again_in_width [OF assms])

lemma content_in_width:
  assumes "wf_shape (sw_shape w)" and "wide_shape (sw_shape w)"
  shows "writer_room w \<Longrightarrow> sw_pos w \<le> shape_len (sw_shape w) \<Longrightarrow> valid_content (sw_shape w) (sw_pos w) content \<Longrightarrow>
    list_all in_width (write_content w content)"
  using assms
proof (induction w content rule: write_content.induct)
  case (1 w)
  moreover have "prod_before (sw_shape w) ! sw_pos w \<le> total (sw_shape w)"
    using 1 by (simp add: wf_shape_total wf_shape_mono)
  ultimately show ?case by (simp add: end_code_def in_width_def writer_room_def room_def)
next
  case (2 w j bs rest)
  then obtain b bs' where b: "bs = b # bs'" by (cases bs) auto
  have "list_all in_width (write_occurrences w j 0 bs)"
    using 2 b first_in_width [of w j b] occurrences_in_width [of w j "Suc 0" bs'] by simp
  moreover have "list_all in_width (write_content (seq_finish j (length bs) w) rest)"
    using 2 b writer_room_finish [of w j "length bs"] by simp
  ultimately show ?case by simp
qed

section \<open>What the reader refuses\<close>

text \<open>
  The invariant of the reader's state on any sequence of codes: every index it uses is in range.
\<close>

definition reader_inv :: "seq_reader \<Rightarrow> bool" where
  "reader_inv r \<longleftrightarrow> wf_shape (sr_shape r) \<and> sr_pos r \<le> shape_len (sr_shape r)
     \<and> (sr_base r \<noteq> 0 \<longrightarrow> sr_repeating r < shape_len (sr_shape r) \<and> sr_pos r = sr_repeating r + 1
           \<and> sr_repeating_branches r = branches (sr_shape r) (sr_repeating r))"

lemma reader_inv_new: "wf_shape s \<Longrightarrow> reader_inv (seq_reader_new s)"
  by (simp add: reader_inv_def seq_reader_new_def)

lemma reader_inv_next:
  assumes "reader_inv r" and "next_code code r = Inr (st, r')"
  shows "reader_inv r' \<and> sr_shape r' = sr_shape r"
  using assms
  by (auto simp: reader_inv_def next_code_def advance_repeat_def Let_def split: if_splits option.splits)

text \<open>A new item is only reported when nothing required lies between it and the last one.\<close>

lemma next_code_no_skip:
  assumes "next_code code r = Inr (Step_Item j b True, r')"
  shows "sr_pos r \<le> j \<and> j < shape_len (sr_shape r) \<and> optional_upto (sr_shape r) (sr_pos r) j \<and> \<not> sr_below_min r"
  using assms
  by (auto simp: next_code_def Let_def dest!: locate_sound split: if_splits option.splits)

lemma next_code_below_min:
  assumes "sr_below_min r" and "next_code code r = Inr (st, r')"
  shows "\<exists>b. st = Step_Item (sr_repeating r) b False"
  using assms by (auto simp: next_code_def Let_def split: if_splits)

text \<open>The item the scan finds is the one whose productions hold the code.\<close>

lemma locate_range:
  "locate s a i = Some j \<Longrightarrow> prod_before s ! i \<le> a \<Longrightarrow>
     prod_before s ! j \<le> a \<and> (j < shape_len s \<longrightarrow> a < prod_before s ! (j + 1))"
proof (induction s a i rule: locate.induct)
  case (1 s a i)
  show ?case
  proof (cases "i < shape_len s \<and> prod_before s ! (i + 1) \<le> a")
    case True
    then show ?thesis using "1.IH" "1.prems" by (auto simp: locate.simps [of s a i] split: if_splits)
  next
    case False
    then have "j = i" using "1.prems"(1) by (auto simp: locate.simps [of s a i] split: if_splits)
    then show ?thesis using False "1.prems"(2) by auto
  qed
qed

lemma next_code_branch:
  assumes "reader_inv r" and "next_code code r = Inr (Step_Item j b fresh, r')"
  shows "j < shape_len (sr_shape r) \<and> b < branches (sr_shape r) j"
proof (cases fresh)
  case True
  then have "sr_pos r \<le> j" "j < shape_len (sr_shape r)" using assms(2) next_code_no_skip [of code r j b r'] by simp_all
  moreover define a where "a = code - sr_base r + prod_before (sr_shape r) ! sr_pos r"
  moreover have "prod_before (sr_shape r) ! sr_pos r \<le> a" by (simp add: a_def)
  moreover have "locate (sr_shape r) a (sr_pos r) = Some j \<and> b = a - prod_before (sr_shape r) ! j"
    using assms(2) True by (auto simp: next_code_def Let_def a_def split: if_splits option.splits)
  ultimately show ?thesis using locate_range by (fastforce simp: branches_def)
next
  case False
  then show ?thesis using assms by (auto simp: next_code_def reader_inv_def Let_def split: if_splits option.splits)
qed

section \<open>Properties\<close>

text \<open>
  C27. A content model is read back. The codes the writer puts out for a content that keeps the occurrence
  bounds fit the widths they are written with. Fed these codes, the reader expects every one of them at that width
  and reports exactly the occurrences, their branches and the end, if every choice that is left could not occur
  once more. The condition matters: where the content ends with a choice that could, the reader reports the
  occurrences and then, for the end, one more occurrence, of the second branch. (The two generated shapes with
  a repeated choice, \<open>Transform\<close> of both generations, belong to encoders that never write it.)
\<close>

theorem content_roundtrip:
  assumes "wf_shape s" and "valid_content s 0 content"
  shows "(wide_shape s \<longrightarrow> list_all (\<lambda>(code, wd). code < 2 ^ wd) (write_content (seq_writer_new s) content))
    \<and> (closed_choices s content \<longrightarrow>
        (\<exists>r'. read_codes (seq_reader_new s) (write_content (seq_writer_new s) content) = Inr (content_steps content, r')))
    \<and> (\<forall>before j bs. content = before @ [(j, bs)] \<and> closed_choices s before \<and> shape_len s = Suc j
          \<and> length bs < max_occurs s ! j \<and> 1 < branches s j \<longrightarrow>
        (\<exists>r'. read_codes (seq_reader_new s) (write_content (seq_writer_new s) content) =
           Inr (butlast (content_steps content) @ [Step_Item j 1 False], r')))"
proof (intro conjI impI allI)
  let ?w = "seq_writer_new s"
  have w: "sw_shape ?w = s" "sw_pos ?w = 0" by (simp_all add: seq_writer_new_def)
  show "list_all (\<lambda>(code, wd). code < 2 ^ wd) (write_content ?w content)" if "wide_shape s"
    using content_in_width [of ?w content] writer_room_new [OF that] that assms w
    by (simp add: in_width_def [abs_def] case_prod_beta')
  show "\<exists>r'. read_codes (seq_reader_new s) (write_content ?w content) = Inr (content_steps content, r')"
    if "closed_choices s content"
    using follow_content [OF _ between_new, of s content] assms that w by simp
  show "\<exists>r'. read_codes (seq_reader_new s) (write_content ?w content) =
      Inr (butlast (content_steps content) @ [Step_Item j 1 False], r')"
    if "content = before @ [(j, bs)] \<and> closed_choices s before \<and> shape_len s = Suc j
      \<and> length bs < max_occurs s ! j \<and> 1 < branches s j" for before j bs
    using follow_open_choice [OF _ between_new, of s before j bs] assms that w by (simp add: content_steps_items)
qed

definition sample_shape :: shape where
  "sample_shape = \<lparr>prod_before = [0, 1, 3, 4], width = [1, 2, 1, 0], repeat_width = [1, 2, 1],
     min_occurs = [1, 0, 0], max_occurs = [1, 1, 3]\<rparr>"

lemma sample_shape_wf: "wf_shape sample_shape"
  by (auto simp: wf_shape_def shape_len_def branches_def sample_shape_def less_Suc_eq numeral_3_eq_3)

text \<open>The shape of \<open>Transform\<close>, as generated.\<close>

definition transform_shape :: shape where
  "transform_shape = \<lparr>prod_before = [0, 1, 3], width = [1, 3, 2], repeat_width = [0, 3],
     min_occurs = [1, 0], max_occurs = [1, 4294967295]\<rparr>"

lemma transform_shape_wf: "wf_shape transform_shape"
  by (auto simp: wf_shape_def shape_len_def branches_def transform_shape_def less_Suc_eq numeral_2_eq_2)

theorem content_roundtrip_witness:
  "(\<exists>r'. read_codes (seq_reader_new sample_shape) (write_content (seq_writer_new sample_shape) [(0, [0]), (2, [0, 0])]) =
     Inr ([Step_Item 0 0 True, Step_Item 2 0 True, Step_Item 2 0 False, Step_End], r'))
   \<and> (\<exists>r'. read_codes (seq_reader_new transform_shape) (write_content (seq_writer_new transform_shape) [(0, [0]), (1, [0])]) =
     Inr ([Step_Item 0 0 True, Step_Item 1 0 True, Step_Item 1 1 False], r'))"
proof
  have "valid_content sample_shape 0 [(0, [0]), (2, [0, 0])]" "closed_choices sample_shape [(0, [0]), (2, [0, 0])]"
    by (auto simp: closed_choices_def optional_upto_def shape_len_def branches_def sample_shape_def less_Suc_eq)
  with content_roundtrip [OF sample_shape_wf this(1)]
  show "\<exists>r'. read_codes (seq_reader_new sample_shape) (write_content (seq_writer_new sample_shape) [(0, [0]), (2, [0, 0])]) =
     Inr ([Step_Item 0 0 True, Step_Item 2 0 True, Step_Item 2 0 False, Step_End], r')" by simp
next
  have "valid_content transform_shape 0 [(0, [0]), (1, [0])]"
    and cond: "[(0, [0]), (1, [0])] = [(0, [0])] @ [(1 :: nat, [0 :: nat])] \<and> closed_choices transform_shape [(0, [0])]
      \<and> shape_len transform_shape = Suc 1 \<and> length [0 :: nat] < max_occurs transform_shape ! 1 \<and> 1 < branches transform_shape 1"
    by (auto simp: closed_choices_def optional_upto_def shape_len_def branches_def transform_shape_def less_Suc_eq)
  from content_roundtrip [OF transform_shape_wf this(1), THEN conjunct2, THEN conjunct2, rule_format, OF cond]
  show "\<exists>r'. read_codes (seq_reader_new transform_shape) (write_content (seq_writer_new transform_shape) [(0, [0]), (1, [0])]) =
     Inr ([Step_Item 0 0 True, Step_Item 1 0 True, Step_Item 1 1 False], r')" by simp
qed

text \<open>
  Whatever codes a stream holds, the reader stays within its shape: its position and its pending
  repetition remain valid, and an item it reports exists, with one of its own branches. A new item is
  reported only when every item passed over is optional and the previous one has its minimum.
\<close>

lemma seq_reader_safe:
  assumes "reader_inv r" and "next_code code r = Inr (Step_Item j b fresh, r')"
  shows "reader_inv r' \<and> sr_shape r' = sr_shape r \<and> j < shape_len (sr_shape r) \<and> b < branches (sr_shape r) j
     \<and> (if fresh then sr_pos r \<le> j \<and> optional_upto (sr_shape r) (sr_pos r) j \<and> \<not> sr_below_min r else j = sr_repeating r)"
proof -
  have "\<not> fresh \<Longrightarrow> j = sr_repeating r"
    using assms(2) by (auto simp: next_code_def Let_def split: if_splits option.splits)
  then show ?thesis
    using reader_inv_next [OF assms] next_code_branch [OF assms] next_code_no_skip assms(2) by auto
qed

lemma seq_reader_safe_witness:
  "\<exists>r'. next_code 0 (seq_reader_new sample_shape) = Inr (Step_Item 0 0 True, r') \<and> reader_inv r'"
proof -
  have "\<exists>r'. next_code 0 (seq_reader_new sample_shape) = Inr (Step_Item 0 0 True, r')"
    by (simp add: next_code_def seq_reader_new_def sample_shape_def total_def locate.simps shape_len_def Let_def)
  then show ?thesis using seq_reader_safe [OF reader_inv_new [OF sample_shape_wf]] by blast
qed

text \<open>
  The end of the content is tested before the scan for required items: with one required item left,
  the code behind it is reported as the end.
\<close>

lemma next_code_end_skips:
  "wf_shape \<lparr>prod_before = [0, 1], width = [1, 1], repeat_width = [1], min_occurs = [1], max_occurs = [1]\<rparr>
   \<and> (\<exists>r'. next_code 1 (seq_reader_new \<lparr>prod_before = [0, 1], width = [1, 1], repeat_width = [1], min_occurs = [1],
        max_occurs = [1]\<rparr>) = Inr (Step_End, r'))"
  by (simp add: wf_shape_def shape_len_def branches_def next_code_def seq_reader_new_def total_def)

end
