(* ===== verification/Timers.thy ===== *)
theory Timers
  imports Prelude "HOL-Library.Product_Lexorder"
begin

text \<open>
  Time and timers of a session: \<open>src/src/session/clock.rs\<close> and \<open>src/src/session/timers.rs\<close>. An
  instant and a duration are milliseconds, natural numbers whose arithmetic stops at the largest
  64-bit value and at zero as the source's does. \<open>Timers\<close> is an array with one optional deadline per
  timer; the locale \<open>timer_array\<close> is its contract as a finite map.
\<close>

section \<open>Time\<close>

type_synonym instant = nat
type_synonym millis = nat

definition U64_MAX :: nat where
  "U64_MAX = 2 ^ 64 - 1"

definition instant_add :: "instant \<Rightarrow> millis \<Rightarrow> instant" where
  "instant_add t d = min (t + d) U64_MAX"

definition instant_since :: "instant \<Rightarrow> instant \<Rightarrow> millis" where
  "instant_since t earlier = t - earlier"

definition millis_from_secs :: "nat \<Rightarrow> millis" where
  "millis_from_secs s = min (s * 1000) U64_MAX"

definition millis_as_secs :: "millis \<Rightarrow> nat" where
  "millis_as_secs d = d div 1000"

lemma instant_add_mono: "t \<le> u \<Longrightarrow> instant_add t d \<le> instant_add u d"
  by (auto simp: instant_add_def)

lemma instant_add_since: "t + d \<le> U64_MAX \<Longrightarrow> instant_since (instant_add t d) t = d"
  by (simp add: instant_add_def instant_since_def)

lemma instant_never_backwards: "t \<le> U64_MAX \<Longrightarrow> t \<le> instant_add t d"
  by (simp add: instant_add_def)

section \<open>The normative durations\<close>

definition iso2_SECC_SEQUENCE_TIMEOUT :: millis where
  "iso2_SECC_SEQUENCE_TIMEOUT = millis_from_secs 60"
definition iso2_EVCC_SEQUENCE_PERFORMANCE_TIME :: millis where
  "iso2_EVCC_SEQUENCE_PERFORMANCE_TIME = millis_from_secs 40"
definition iso2_EVCC_COMMUNICATION_SETUP_TIMEOUT :: millis where
  "iso2_EVCC_COMMUNICATION_SETUP_TIMEOUT = millis_from_secs 20"
definition iso2_SECC_COMMUNICATION_SETUP_PERFORMANCE_TIME :: millis where
  "iso2_SECC_COMMUNICATION_SETUP_PERFORMANCE_TIME = millis_from_secs 18"
definition iso2_EVCC_ONGOING_TIMEOUT :: millis where
  "iso2_EVCC_ONGOING_TIMEOUT = millis_from_secs 60"
definition iso2_SECC_ONGOING_PERFORMANCE_TIME :: millis where
  "iso2_SECC_ONGOING_PERFORMANCE_TIME = millis_from_secs 55"
definition iso2_EVCC_CABLE_CHECK_TIMEOUT :: millis where
  "iso2_EVCC_CABLE_CHECK_TIMEOUT = millis_from_secs 40"
definition iso2_SECC_CABLE_CHECK_PERFORMANCE_TIME :: millis where
  "iso2_SECC_CABLE_CHECK_PERFORMANCE_TIME = millis_from_secs 38"
definition iso2_EVCC_PRE_CHARGE_TIMEOUT :: millis where
  "iso2_EVCC_PRE_CHARGE_TIMEOUT = millis_from_secs 7"
definition iso2_SECC_PRE_CHARGE_PERFORMANCE_TIME :: millis where
  "iso2_SECC_PRE_CHARGE_PERFORMANCE_TIME = millis_from_secs 5"
definition iso2_MSG_TIMEOUT_DEFAULT :: millis where
  "iso2_MSG_TIMEOUT_DEFAULT = millis_from_secs 2"
definition iso2_MSG_TIMEOUT_BACKEND :: millis where
  "iso2_MSG_TIMEOUT_BACKEND = millis_from_secs 5"
definition iso2_MSG_TIMEOUT_CURRENT_DEMAND :: millis where
  "iso2_MSG_TIMEOUT_CURRENT_DEMAND = 250"
definition iso2_SECC_MSG_PERFORMANCE_DEFAULT :: millis where
  "iso2_SECC_MSG_PERFORMANCE_DEFAULT = 1500"
definition iso2_SECC_MSG_PERFORMANCE_BACKEND :: millis where
  "iso2_SECC_MSG_PERFORMANCE_BACKEND = 4500"
definition iso2_SECC_MSG_PERFORMANCE_CURRENT_DEMAND :: millis where
  "iso2_SECC_MSG_PERFORMANCE_CURRENT_DEMAND = 25"
definition iso20_SECC_SEQUENCE_TIMEOUT :: millis where
  "iso20_SECC_SEQUENCE_TIMEOUT = millis_from_secs 60"
definition iso20_EVCC_COMMUNICATION_SETUP_TIMEOUT :: millis where
  "iso20_EVCC_COMMUNICATION_SETUP_TIMEOUT = millis_from_secs 20"
definition iso20_ONGOING_TIMEOUT :: millis where
  "iso20_ONGOING_TIMEOUT = millis_from_secs 60"
definition iso20_SECC_ONGOING_PERFORMANCE_TIME :: millis where
  "iso20_SECC_ONGOING_PERFORMANCE_TIME = millis_from_secs 55"
definition iso20_EIM_ONGOING_TIMEOUT :: millis where
  "iso20_EIM_ONGOING_TIMEOUT = millis_from_secs 180"
definition iso20_SECC_EIM_ONGOING_PERFORMANCE_TIME :: millis where
  "iso20_SECC_EIM_ONGOING_PERFORMANCE_TIME = millis_from_secs 175"
definition iso20_EVCC_SEQUENCE_PERFORMANCE_TIME :: millis where
  "iso20_EVCC_SEQUENCE_PERFORMANCE_TIME = millis_from_secs 40"
definition sdp_RESPONSE_TIMEOUT :: millis where
  "sdp_RESPONSE_TIMEOUT = 250"
definition sdp_MAX_REQUESTS :: nat where
  "sdp_MAX_REQUESTS = 50"

lemmas duration_defs =
  iso2_SECC_SEQUENCE_TIMEOUT_def iso2_EVCC_SEQUENCE_PERFORMANCE_TIME_def
  iso2_EVCC_COMMUNICATION_SETUP_TIMEOUT_def iso2_SECC_COMMUNICATION_SETUP_PERFORMANCE_TIME_def
  iso2_EVCC_ONGOING_TIMEOUT_def iso2_SECC_ONGOING_PERFORMANCE_TIME_def
  iso2_EVCC_CABLE_CHECK_TIMEOUT_def iso2_SECC_CABLE_CHECK_PERFORMANCE_TIME_def
  iso2_EVCC_PRE_CHARGE_TIMEOUT_def iso2_SECC_PRE_CHARGE_PERFORMANCE_TIME_def
  iso2_MSG_TIMEOUT_DEFAULT_def iso2_MSG_TIMEOUT_BACKEND_def iso2_MSG_TIMEOUT_CURRENT_DEMAND_def
  iso2_SECC_MSG_PERFORMANCE_DEFAULT_def iso2_SECC_MSG_PERFORMANCE_BACKEND_def
  iso2_SECC_MSG_PERFORMANCE_CURRENT_DEMAND_def iso20_SECC_SEQUENCE_TIMEOUT_def
  iso20_EVCC_COMMUNICATION_SETUP_TIMEOUT_def iso20_ONGOING_TIMEOUT_def
  iso20_SECC_ONGOING_PERFORMANCE_TIME_def iso20_EIM_ONGOING_TIMEOUT_def
  iso20_SECC_EIM_ONGOING_PERFORMANCE_TIME_def iso20_EVCC_SEQUENCE_PERFORMANCE_TIME_def
  sdp_RESPONSE_TIMEOUT_def sdp_MAX_REQUESTS_def

section \<open>Timers\<close>

datatype timer = T_Sequence | T_Message | T_Ongoing | T_CommunicationSetup

fun timer_index :: "timer \<Rightarrow> nat" where
  "timer_index T_Sequence = 0"
| "timer_index T_Message = 1"
| "timer_index T_Ongoing = 2"
| "timer_index T_CommunicationSetup = 3"

instantiation timer :: linorder
begin

definition less_eq_timer :: "timer \<Rightarrow> timer \<Rightarrow> bool" where
  "less_eq_timer s t \<longleftrightarrow> timer_index s \<le> timer_index t"

definition less_timer :: "timer \<Rightarrow> timer \<Rightarrow> bool" where
  "less_timer s t \<longleftrightarrow> timer_index s < timer_index t"

instance
proof
  fix s t :: timer
  show "s \<le> t \<Longrightarrow> t \<le> s \<Longrightarrow> s = t" by (cases s; cases t) (simp_all add: less_eq_timer_def)
qed (auto simp: less_eq_timer_def less_timer_def)

end

definition TIMER_COUNT :: nat where
  "TIMER_COUNT = 4"

definition Timer_ALL :: "timer list" where
  "Timer_ALL = [T_Sequence, T_Message, T_Ongoing, T_CommunicationSetup]"

type_synonym timers = "instant option list"

definition timers_new :: timers where
  "timers_new = replicate TIMER_COUNT None"

definition arm :: "timers \<Rightarrow> timer \<Rightarrow> instant \<Rightarrow> millis \<Rightarrow> timers" where
  "arm ts t now after = ts[timer_index t := Some (instant_add now after)]"

definition disarm :: "timers \<Rightarrow> timer \<Rightarrow> timers" where
  "disarm ts t = ts[timer_index t := None]"

definition disarm_all :: "timers \<Rightarrow> timers" where
  "disarm_all ts = replicate TIMER_COUNT None"

definition deadline :: "timers \<Rightarrow> timer \<Rightarrow> instant option" where
  "deadline ts t = ts ! timer_index t"

definition is_armed :: "timers \<Rightarrow> timer \<Rightarrow> bool" where
  "is_armed ts t \<longleftrightarrow> deadline ts t \<noteq> None"

definition min_opt :: "'a::linorder list \<Rightarrow> 'a option" where
  "min_opt xs = (case xs of [] \<Rightarrow> None | y # ys \<Rightarrow> Some (foldl min y ys))"

definition next_deadline :: "timers \<Rightarrow> instant option" where
  "next_deadline ts = min_opt (List.map_filter (\<lambda>d. d) ts)"

definition due :: "timers \<Rightarrow> instant \<Rightarrow> (instant \<times> timer) list" where
  "due ts now =
     filter (\<lambda>(d, _). d \<le> now) (List.map_filter (\<lambda>t. map_option (\<lambda>d. (d, t)) (deadline ts t)) Timer_ALL)"

definition expired :: "timers \<Rightarrow> instant \<Rightarrow> timer option \<times> timers" where
  "expired ts now =
     (case min_opt (due ts now) of
        Some (_, t) \<Rightarrow> (Some t, disarm ts t)
      | None \<Rightarrow> (None, ts))"

section \<open>The contract of the array\<close>

locale timer_array =
  fixes inv :: "'s \<Rightarrow> bool"
    and look :: "'s \<Rightarrow> 'k \<Rightarrow> nat option"
    and put :: "'s \<Rightarrow> 'k \<Rightarrow> nat \<Rightarrow> nat \<Rightarrow> 's"
    and drop_one :: "'s \<Rightarrow> 'k \<Rightarrow> 's"
  assumes put_inv: "inv s \<Longrightarrow> inv (put s k n a)"
    and drop_inv: "inv s \<Longrightarrow> inv (drop_one s k)"
    and look_put: "inv s \<Longrightarrow> look (put s k n a) j = (if j = k then Some (instant_add n a) else look s j)"
    and look_drop: "inv s \<Longrightarrow> look (drop_one s k) j = (if j = k then None else look s j)"
begin

text \<open>Re-arming replaces, disarming undoes, and different timers do not disturb each other.\<close>

lemma rearm: "inv s \<Longrightarrow> look (put (put s k n a) k m b) j = look (put s k m b) j"
  by (simp add: look_put put_inv)

lemma disarm_arm: "inv s \<Longrightarrow> look (drop_one (put s k n a) k) j = look (drop_one s k) j"
  by (simp add: look_put look_drop put_inv)

lemma independent: "inv s \<Longrightarrow> j \<noteq> k \<Longrightarrow> look (put (drop_one s k) j n a) k = None"
  by (simp add: look_put look_drop drop_inv)

end

definition timers_inv :: "timers \<Rightarrow> bool" where
  "timers_inv ts \<longleftrightarrow> length ts = TIMER_COUNT"

lemma timer_index_less: "timer_index t < TIMER_COUNT"
  by (cases t) (simp_all add: TIMER_COUNT_def)

lemma timer_index_inj: "timer_index s = timer_index t \<longleftrightarrow> s = t"
  by (cases s; cases t) simp_all

interpretation ta: timer_array timers_inv deadline arm disarm
  by unfold_locales
    (simp_all add: timers_inv_def deadline_def arm_def disarm_def nth_list_update timer_index_less timer_index_inj)

lemma timers_new_inv: "timers_inv timers_new" "timers_inv (disarm_all ts)"
  "deadline timers_new t = None" "deadline (disarm_all ts) t = None"
  by (simp_all add: timers_inv_def timers_new_def disarm_all_def deadline_def timer_index_less)

section \<open>Deadlines and expiry\<close>

lemma foldl_min_Min: "foldl min x xs = Min (insert x (set xs))" for x :: "'a::linorder"
proof (induction xs arbitrary: x)
  case (Cons y xs)
  then show ?case by (cases "xs = []") (simp_all add: min.assoc min.left_commute Min_insert)
qed simp

lemma min_opt_Min: "min_opt xs = (if xs = [] then None else Some (Min (set xs)))"
  by (cases xs) (simp_all add: min_opt_def foldl_min_Min)

lemma set_Timer_ALL: "set Timer_ALL = UNIV"
  by (auto simp: Timer_ALL_def intro: timer.exhaust)

lemma timers_values: "timers_inv ts \<Longrightarrow> Some d \<in> set ts \<longleftrightarrow> (\<exists>t. deadline ts t = Some d)"
proof -
  assume inv: "timers_inv ts"
  have "\<exists>t. timer_index t = i" if "i < 4" for i
  proof -
    have "i = 0 \<or> i = 1 \<or> i = 2 \<or> i = 3" using that by auto
    then show ?thesis by (metis timer_index.simps)
  qed
  then show ?thesis using inv timer_index_less
    by (auto simp: timers_inv_def deadline_def in_set_conv_nth TIMER_COUNT_def)
qed

lemma set_due: "set (due ts now) = {(d, t). deadline ts t = Some d \<and> d \<le> now}"
  by (auto simp: due_def List.map_filter_def set_Timer_ALL image_iff)

lemma set_map_filter_id: "set (List.map_filter (\<lambda>d. d) ts) = {d. Some d \<in> set ts}"
  by (force simp: List.map_filter_def)

text \<open>The driver sleeps until the earliest armed deadline.\<close>

lemma next_deadline_None: "timers_inv ts \<Longrightarrow> next_deadline ts = None \<longleftrightarrow> (\<forall>t. \<not> is_armed ts t)"
  using set_map_filter_id [of ts] timers_values [of ts]
  by (auto simp: next_deadline_def min_opt_Min is_armed_def simp flip: set_empty)

lemma next_deadline_Some:
  assumes "timers_inv ts" and "next_deadline ts = Some d"
  shows "(\<exists>t. deadline ts t = Some d) \<and> (\<forall>t e. deadline ts t = Some e \<longrightarrow> d \<le> e)"
proof -
  let ?xs = "List.map_filter (\<lambda>d. d) ts"
  have ne: "?xs \<noteq> []" and d: "d = Min (set ?xs)"
    using assms(2) by (auto simp: next_deadline_def min_opt_Min split: if_splits)
  have vals: "e \<in> set ?xs \<longleftrightarrow> (\<exists>t. deadline ts t = Some e)" for e
    using set_map_filter_id [of ts] timers_values [OF assms(1)] by simp
  have "d \<in> set ?xs" unfolding d using ne by (intro Min_in) auto
  moreover have "d \<le> e" if "deadline ts t = Some e" for t e
    unfolding d using vals that by (intro Min_le) auto
  ultimately show ?thesis using vals by blast
qed

lemma expired_Some:
  assumes "expired ts now = (Some t, ts')"
  shows "\<exists>d. deadline ts t = Some d \<and> d \<le> now \<and> ts' = disarm ts t
     \<and> (\<forall>u e. deadline ts u = Some e \<longrightarrow> d < e \<or> d = e \<and> t \<le> u)"
proof -
  from assms obtain d where m: "min_opt (due ts now) = Some (d, t)" and ts': "ts' = disarm ts t"
    by (auto simp: expired_def split: option.splits)
  then have ne: "due ts now \<noteq> []" and eq: "(d, t) = Min (set (due ts now))"
    by (auto simp: min_opt_Min split: if_splits)
  have "(d, t) \<in> set (due ts now)" unfolding eq using ne by (intro Min_in) auto
  then have dt: "deadline ts t = Some d" "d \<le> now" by (auto simp: set_due)
  moreover have "d < e \<or> d = e \<and> t \<le> u" if "deadline ts u = Some e" for u e
  proof (cases "e \<le> now")
    case True
    then have "(d, t) \<le> (e, u)" unfolding eq using that by (intro Min_le finite_set) (simp add: set_due)
    then show ?thesis by (auto simp: less_eq_prod_def)
  next
    case False
    then show ?thesis using dt(2) by simp
  qed
  ultimately show ?thesis using ts' by blast
qed

lemma expired_None: "fst (expired ts now) = None \<longleftrightarrow> (\<forall>t d. deadline ts t = Some d \<longrightarrow> now < d)"
proof -
  have "fst (expired ts now) = None \<longleftrightarrow> set (due ts now) = {}"
    by (auto simp: expired_def min_opt_Min split: option.splits prod.splits)
  then show ?thesis by (auto simp: set_due not_le)
qed

lemma expired_None_state: "expired ts now = (None, ts') \<Longrightarrow> ts' = ts"
  by (auto simp: expired_def split: option.splits)

lemma expired_inv: "timers_inv ts \<Longrightarrow> expired ts now = (r, ts') \<Longrightarrow> timers_inv ts'"
  by (auto simp: expired_def ta.drop_inv split: option.splits)

text \<open>
  Polling: the driver calls \<open>expired\<close> until it answers \<open>None\<close>. Every call that fires disarms one
  timer, so at most four fire, each exactly once, in the order of their deadlines.
\<close>

definition armed :: "timers \<Rightarrow> timer set" where
  "armed ts = {t. is_armed ts t}"

lemma finite_timers: "finite (A :: timer set)"
  by (rule finite_subset [of _ "set Timer_ALL"]) (simp only: set_Timer_ALL subset_UNIV, rule finite_set)

lemma timers_inv_simps [simp]: "timers_inv (arm ts t n a) = timers_inv ts" "timers_inv (disarm ts t) = timers_inv ts"
  "timers_inv (disarm_all ts)"
  by (simp_all add: timers_inv_def arm_def disarm_def disarm_all_def)

lemma armed_disarm_all [simp]: "armed (disarm_all ts) = {}"
  by (simp add: armed_def is_armed_def timers_new_inv)

lemma armed_arm: "timers_inv ts \<Longrightarrow> armed (arm ts t now d) = insert t (armed ts)"
  by (auto simp: armed_def is_armed_def ta.look_put)

lemma expired_armed:
  "timers_inv ts \<Longrightarrow> expired ts now = (Some t, ts') \<Longrightarrow> t \<in> armed ts \<and> armed ts' = armed ts - {t}"
  by (auto dest!: expired_Some simp: armed_def is_armed_def ta.look_drop split: if_splits)

fun poll :: "nat \<Rightarrow> timers \<Rightarrow> instant \<Rightarrow> (timer list \<times> timers) option" where
  "poll 0 ts now = None"
| "poll (Suc fuel) ts now =
     (case expired ts now of
        (None, ts') \<Rightarrow> Some ([], ts')
      | (Some t, ts') \<Rightarrow> map_option (\<lambda>(fired, ts''). (t # fired, ts'')) (poll fuel ts' now))"

lemma poll_total:
  "timers_inv ts \<Longrightarrow> card (armed ts) < fuel \<Longrightarrow> \<exists>fired ts'. poll fuel ts now = Some (fired, ts')"
proof (induction fuel arbitrary: ts)
  case (Suc fuel)
  obtain r ts1 where e: "expired ts now = (r, ts1)" by fastforce
  show ?case
  proof (cases r)
    case (Some t)
    then have "t \<in> armed ts" "armed ts1 = armed ts - {t}" "timers_inv ts1"
      using expired_armed [OF Suc.prems(1)] expired_inv [OF Suc.prems(1)] e by auto
    then have "card (armed ts1) < fuel" using Suc.prems(2) card_Diff1_less [OF finite_timers, of t "armed ts"] by simp
    then show ?thesis using Suc.IH [of ts1] \<open>timers_inv ts1\<close> e Some by fastforce
  qed (use e in simp)
qed simp

lemma poll_fired:
  "timers_inv ts \<Longrightarrow> poll fuel ts now = Some (fired, ts') \<Longrightarrow>
     distinct fired \<and> set fired = {t. \<exists>d. deadline ts t = Some d \<and> d \<le> now}
     \<and> sorted (map (\<lambda>t. the (deadline ts t)) fired)
     \<and> (\<forall>t. deadline ts' t = (if t \<in> set fired then None else deadline ts t))"
proof (induction fuel arbitrary: ts fired)
  case (Suc fuel)
  obtain r ts1 where e: "expired ts now = (r, ts1)" by fastforce
  show ?case
  proof (cases r)
    case None
    then have "ts1 = ts" "fired = []" "ts' = ts"
      using e Suc.prems(2) expired_None_state by auto
    moreover have "{t. \<exists>d. deadline ts t = Some d \<and> d \<le> now} = {}"
      using expired_None [of ts now] e None by (auto simp flip: not_le)
    ultimately show ?thesis by simp
  next
    case (Some t)
    then obtain fired' where f: "fired = t # fired'" "poll fuel ts1 now = Some (fired', ts')"
      using Suc.prems(2) e by auto
    have inv1: "timers_inv ts1" using expired_inv [OF Suc.prems(1)] e by blast
    note ih = Suc.IH [OF inv1 f(2)]
    obtain d where d: "deadline ts t = Some d" "d \<le> now" "ts1 = disarm ts t"
        "\<And>u e. deadline ts u = Some e \<Longrightarrow> d < e \<or> d = e \<and> t \<le> u"
      using expired_Some [OF e [unfolded Some]] by auto
    have look: "deadline ts1 u = (if u = t then None else deadline ts u)" for u
      using Suc.prems(1) d(3) by (simp add: ta.look_drop)
    have set': "set fired' = {u. \<exists>e. deadline ts u = Some e \<and> e \<le> now \<and> u \<noteq> t}"
      using ih look by auto
    have all: "set fired = {u. \<exists>e. deadline ts u = Some e \<and> e \<le> now}"
      using set' f(1) d(1,2) by auto
    have "map (\<lambda>u. the (deadline ts u)) fired' = map (\<lambda>u. the (deadline ts1 u)) fired'"
      using set' look by auto
    moreover have "sorted (map (\<lambda>u. the (deadline ts1 u)) fired')" using ih by blast
    ultimately have "sorted (map (\<lambda>u. the (deadline ts u)) fired')" by (simp only:)
    moreover have "\<forall>u \<in> set fired'. d \<le> the (deadline ts u)" using set' d(4) by fastforce
    ultimately have "sorted (map (\<lambda>u. the (deadline ts u)) fired)" using f(1) d(1) by simp
    moreover have "distinct fired" using ih set' f(1) by auto
    moreover have "deadline ts' u = (if u \<in> set fired then None else deadline ts u)" for u
      using ih look f(1) by auto
    ultimately show ?thesis using all by blast
  qed
qed simp

section \<open>Properties\<close>

text \<open>
  Polling after a sleep reports every deadline that has passed exactly once, in the order of the
  deadlines, disarms exactly those timers, and comes to an end after at most five calls.
\<close>

lemma poll_due:
  assumes "timers_inv ts"
  shows "\<exists>fired ts'. poll 5 ts now = Some (fired, ts') \<and> distinct fired
     \<and> set fired = {t. \<exists>d. deadline ts t = Some d \<and> d \<le> now}
     \<and> sorted (map (\<lambda>t. the (deadline ts t)) fired)
     \<and> (\<forall>t. deadline ts' t = (if t \<in> set fired then None else deadline ts t))"
proof -
  have "card (armed ts) \<le> card (set Timer_ALL)" using finite_timers by (intro card_mono) (simp_all add: set_Timer_ALL)
  then have "card (armed ts) < 5" using card_length [of Timer_ALL] by (simp add: Timer_ALL_def)
  then obtain fired ts' where "poll 5 ts now = Some (fired, ts')" using poll_total assms by blast
  then show ?thesis using poll_fired [OF assms] by blast
qed

lemma poll_due_witness:
  "\<exists>fired ts'. poll 5 (arm timers_new T_Sequence 100 50) 200 = Some (fired, ts') \<and> T_Sequence \<in> set fired"
proof -
  have inv: "timers_inv (arm timers_new T_Sequence 100 50)" using ta.put_inv timers_new_inv(1) .
  have "deadline (arm timers_new T_Sequence 100 50) T_Sequence = Some 150" by code_simp
  with poll_due [OF inv, of 200] show ?thesis by fastforce
qed

text \<open>
  \<open>next_deadline\<close> is when the driver has to wake up: nothing is due before it, something is at it, and
  there is none exactly when no timer is armed.
\<close>

lemma next_deadline_wakes:
  assumes "timers_inv ts"
  shows "case next_deadline ts of
       None \<Rightarrow> \<forall>now. fst (expired ts now) = None
     | Some d \<Rightarrow> \<forall>now. fst (expired ts now) = None \<longleftrightarrow> now < d"
proof (cases "next_deadline ts")
  case None
  then show ?thesis using next_deadline_None [OF assms] by (auto simp: expired_None is_armed_def)
next
  case (Some d)
  then show ?thesis using next_deadline_Some [OF assms Some] by (auto simp: expired_None intro: less_le_trans)
qed

lemma next_deadline_wakes_witness:
  "\<forall>now. fst (expired (arm timers_new T_Sequence 100 50) now) = None \<longleftrightarrow> now < 150"
proof -
  have inv: "timers_inv (arm timers_new T_Sequence 100 50)" using ta.put_inv timers_new_inv(1) .
  have "next_deadline (arm timers_new T_Sequence 100 50) = Some 150" by code_simp
  with next_deadline_wakes [OF inv] show ?thesis by simp
qed

end
