(* ===== verification/Session_Common.thy ===== *)
theory Session_Common
  imports Prelude Timers
begin

text \<open>
  What the two sequencers share: the transport's security, the role, the refusal a request out of
  sequence earns (\<open>src/src/session/mod.rs\<close>), and the contract of a sequencer as a locale, with the
  lemmas on whole sessions that follow from it.
\<close>

datatype security = Tls | No_Security

definition permits_plug_and_charge :: "security \<Rightarrow> bool" where
  "permits_plug_and_charge s \<longleftrightarrow> s = Tls"

datatype role = Evcc | Secc

record sequence_error =
  se_got :: string
  se_phase :: string
  se_response_code :: u8

section \<open>Session identifiers\<close>

definition SESSION_ID_LEN :: nat where
  "SESSION_ID_LEN = 8"

definition session_id_NONE :: bytes where
  "session_id_NONE = replicate SESSION_ID_LEN 0"

definition session_id_is_none :: "bytes \<Rightarrow> bool" where
  "session_id_is_none s \<longleftrightarrow> s = session_id_NONE"

text \<open>The error carries the length that was refused.\<close>

definition session_id_from_slice :: "bytes \<Rightarrow> nat + bytes" where
  "session_id_from_slice bs =
     (if length bs > SESSION_ID_LEN then Inl (length bs)
      else Inr (bs @ drop (length bs) (replicate SESSION_ID_LEN 0)))"

lemma session_id_from_slice_length: "session_id_from_slice bs = Inr s \<Longrightarrow> length s = SESSION_ID_LEN"
  by (auto simp: session_id_from_slice_def split: if_splits)

lemma session_id_from_slice_prefix:
  "session_id_from_slice bs = Inr s \<Longrightarrow> take (length bs) s = bs \<and> set (drop (length bs) s) \<subseteq> {0}"
  by (auto simp: session_id_from_slice_def split: if_splits dest: in_set_replicate [THEN iffD1])

section \<open>The contract of a sequencer\<close>

text \<open>
  \<open>accept\<close> records a request or refuses it and leaves the session where it was; \<open>permits\<close> is its dry
  run; after a failure only a stop goes through, and it ends the session; a finished session takes
  nothing more.
\<close>

locale sequencer =
  fixes accept :: "'s \<Rightarrow> 'r \<Rightarrow> ('e + 'p) \<times> 's"
    and permits :: "'s \<Rightarrow> 'r \<Rightarrow> bool"
    and fail :: "'s \<Rightarrow> 's"
    and is_failed :: "'s \<Rightarrow> bool"
    and is_finished :: "'s \<Rightarrow> bool"
    and is_stop :: "'r \<Rightarrow> bool"
  assumes accept_permits: "(\<exists>p. fst (accept s r) = Inr p) \<longleftrightarrow> permits s r"
    and refused_unchanged: "\<not> permits s r \<Longrightarrow> snd (accept s r) = s"
    and finished_refuses: "is_finished s \<Longrightarrow> \<not> permits s r"
    and failed_stops: "is_failed s \<Longrightarrow> permits s r \<Longrightarrow> is_stop r \<and> is_finished (snd (accept s r))"
    and failed_sticky: "is_failed s \<Longrightarrow> is_failed (snd (accept s r))"
    and fail_failed: "is_failed (fail s)"
begin

primrec accepted :: "'s \<Rightarrow> 'r list \<Rightarrow> 'r list" where
  "accepted s [] = []"
| "accepted s (r # rs) = (if permits s r then r # accepted (snd (accept s r)) rs else accepted s rs)"

primrec final :: "'s \<Rightarrow> 'r list \<Rightarrow> 's" where
  "final s [] = s"
| "final s (r # rs) = final (snd (accept s r)) rs"

lemma finished_absorbing: "is_finished s \<Longrightarrow> final s rs = s \<and> accepted s rs = []"
  by (induction rs) (simp_all add: finished_refuses refused_unchanged)

text \<open>Whatever a peer sends after a failure, at most one request gets through, and it is a stop.\<close>

lemma after_failure: "is_failed s \<Longrightarrow> length (accepted s rs) \<le> 1 \<and> list_all is_stop (accepted s rs)"
proof (induction rs)
  case (Cons r rs)
  show ?case
  proof (cases "permits s r")
    case True
    then have "is_stop r" "is_finished (snd (accept s r))" using failed_stops Cons.prems by auto
    then show ?thesis using True finished_absorbing by simp
  qed (use Cons in simp)
qed simp

lemma after_fail: "length (accepted (fail s) rs) \<le> 1 \<and> list_all is_stop (accepted (fail s) rs)"
  by (rule after_failure) (rule fail_failed)

end

end
