(* ===== verification/Iso2_Session.thy ===== *)
theory Iso2_Session
  imports Session_Common "HOL-Library.Sublist"
begin

text \<open>
  The ISO 15118-2 message sequence, \<open>src/src/session/iso2/mod.rs\<close>: requests, phases, the sequencer
  with its transition table \<open>next_phase\<close>, and the per-phase and per-message time budgets. The
  enumerations of the generated message types that the table reads (payment option, energy transfer
  mode, charge progress, charging session) are datatypes with the schema's values.

  \<open>iso2_run\<close> is the step relation of a whole session: it keeps the list of the requests that were
  accepted, so that the safety properties speak of what has happened on the wire.
\<close>

section \<open>Data\<close>

datatype payment_option = Contract | ExternalPayment

datatype energy_transfer_mode =
    ACSinglePhaseCore | ACThreePhaseCore | DCCore | DCExtended | DCComboCore | DCUnique

datatype charge_progress2 = CP2_Start | CP2_Stop | CP2_Renegotiate

datatype charging_session2 = CS2_Terminate | CS2_Pause

datatype iso2_request =
    R2_SessionSetup
  | R2_ServiceDiscovery
  | R2_ServiceDetail
  | R2_PaymentServiceSelection payment_option
  | R2_CertificateInstallation
  | R2_CertificateUpdate
  | R2_PaymentDetails
  | R2_Authorization
  | R2_ChargeParameterDiscovery energy_transfer_mode
  | R2_CableCheck
  | R2_PreCharge
  | R2_PowerDelivery charge_progress2
  | R2_ChargingStatus
  | R2_CurrentDemand
  | R2_MeteringReceipt
  | R2_WeldingDetection
  | R2_SessionStop charging_session2

fun iso2_request_name :: "iso2_request \<Rightarrow> string" where
  "iso2_request_name R2_SessionSetup = ''SessionSetupReq''"
| "iso2_request_name R2_ServiceDiscovery = ''ServiceDiscoveryReq''"
| "iso2_request_name R2_ServiceDetail = ''ServiceDetailReq''"
| "iso2_request_name (R2_PaymentServiceSelection _) = ''PaymentServiceSelectionReq''"
| "iso2_request_name R2_CertificateInstallation = ''CertificateInstallationReq''"
| "iso2_request_name R2_CertificateUpdate = ''CertificateUpdateReq''"
| "iso2_request_name R2_PaymentDetails = ''PaymentDetailsReq''"
| "iso2_request_name R2_Authorization = ''AuthorizationReq''"
| "iso2_request_name (R2_ChargeParameterDiscovery _) = ''ChargeParameterDiscoveryReq''"
| "iso2_request_name R2_CableCheck = ''CableCheckReq''"
| "iso2_request_name R2_PreCharge = ''PreChargeReq''"
| "iso2_request_name (R2_PowerDelivery _) = ''PowerDeliveryReq''"
| "iso2_request_name R2_ChargingStatus = ''ChargingStatusReq''"
| "iso2_request_name R2_CurrentDemand = ''CurrentDemandReq''"
| "iso2_request_name R2_MeteringReceipt = ''MeteringReceiptReq''"
| "iso2_request_name R2_WeldingDetection = ''WeldingDetectionReq''"
| "iso2_request_name (R2_SessionStop _) = ''SessionStopReq''"

fun iso2_response_timeout :: "iso2_request \<Rightarrow> millis" where
  "iso2_response_timeout R2_CurrentDemand = iso2_MSG_TIMEOUT_CURRENT_DEMAND"
| "iso2_response_timeout R2_ServiceDetail = iso2_MSG_TIMEOUT_BACKEND"
| "iso2_response_timeout R2_PaymentDetails = iso2_MSG_TIMEOUT_BACKEND"
| "iso2_response_timeout (R2_PowerDelivery _) = iso2_MSG_TIMEOUT_BACKEND"
| "iso2_response_timeout R2_CertificateInstallation = iso2_MSG_TIMEOUT_BACKEND"
| "iso2_response_timeout R2_CertificateUpdate = iso2_MSG_TIMEOUT_BACKEND"
| "iso2_response_timeout _ = iso2_MSG_TIMEOUT_DEFAULT"

fun iso2_performance_time :: "iso2_request \<Rightarrow> millis" where
  "iso2_performance_time R2_CurrentDemand = iso2_SECC_MSG_PERFORMANCE_CURRENT_DEMAND"
| "iso2_performance_time R2_ServiceDetail = iso2_SECC_MSG_PERFORMANCE_BACKEND"
| "iso2_performance_time R2_PaymentDetails = iso2_SECC_MSG_PERFORMANCE_BACKEND"
| "iso2_performance_time (R2_PowerDelivery _) = iso2_SECC_MSG_PERFORMANCE_BACKEND"
| "iso2_performance_time R2_CertificateInstallation = iso2_SECC_MSG_PERFORMANCE_BACKEND"
| "iso2_performance_time R2_CertificateUpdate = iso2_SECC_MSG_PERFORMANCE_BACKEND"
| "iso2_performance_time _ = iso2_SECC_MSG_PERFORMANCE_DEFAULT"

datatype iso2_phase =
    P2_Start
  | P2_SessionSetup
  | P2_ServiceDiscovery
  | P2_ServiceSelected
  | P2_CertificateInstalled
  | P2_PaymentDetails
  | P2_Authorized
  | P2_ChargeParameters
  | P2_CableCheck
  | P2_PreCharge
  | P2_Charging
  | P2_PowerStopped
  | P2_WeldingDetection
  | P2_Paused
  | P2_Stopped

definition iso2_phase_loop_timeout :: "iso2_phase \<Rightarrow> role \<Rightarrow> millis option" where
  "iso2_phase_loop_timeout p role =
     (case (p, role) of
        (P2_CableCheck, Evcc) \<Rightarrow> Some iso2_EVCC_CABLE_CHECK_TIMEOUT
      | (P2_CableCheck, Secc) \<Rightarrow> Some iso2_SECC_CABLE_CHECK_PERFORMANCE_TIME
      | (P2_PreCharge, Evcc) \<Rightarrow> Some iso2_EVCC_PRE_CHARGE_TIMEOUT
      | (P2_PreCharge, Secc) \<Rightarrow> Some iso2_SECC_PRE_CHARGE_PERFORMANCE_TIME
      | (P2_Authorized, Evcc) \<Rightarrow> Some iso2_EVCC_ONGOING_TIMEOUT
      | (P2_ChargeParameters, Evcc) \<Rightarrow> Some iso2_EVCC_ONGOING_TIMEOUT
      | (P2_WeldingDetection, Evcc) \<Rightarrow> Some iso2_EVCC_ONGOING_TIMEOUT
      | (P2_Authorized, Secc) \<Rightarrow> Some iso2_SECC_ONGOING_PERFORMANCE_TIME
      | (P2_ChargeParameters, Secc) \<Rightarrow> Some iso2_SECC_ONGOING_PERFORMANCE_TIME
      | (P2_WeldingDetection, Secc) \<Rightarrow> Some iso2_SECC_ONGOING_PERFORMANCE_TIME
      | _ \<Rightarrow> None)"

datatype transfer = Tr_Ac | Tr_Dc

fun transfer_of_mode :: "energy_transfer_mode \<Rightarrow> transfer" where
  "transfer_of_mode ACSinglePhaseCore = Tr_Ac"
| "transfer_of_mode ACThreePhaseCore = Tr_Ac"
| "transfer_of_mode _ = Tr_Dc"

record iso2_sequencer =
  s2_phase :: iso2_phase
  s2_security :: security
  s2_transfer :: "transfer option"
  s2_payment :: "payment_option option"
  s2_renegotiated :: bool
  s2_failed :: bool

section \<open>Operations\<close>

definition iso2_new :: "security \<Rightarrow> iso2_sequencer" where
  "iso2_new sec =
     \<lparr>s2_phase = P2_Start, s2_security = sec, s2_transfer = None, s2_payment = None,
      s2_renegotiated = False, s2_failed = False\<rparr>"

definition iso2_fail :: "iso2_sequencer \<Rightarrow> iso2_sequencer" where
  "iso2_fail s = s\<lparr>s2_failed := True\<rparr>"

definition iso2_is_finished :: "iso2_sequencer \<Rightarrow> bool" where
  "iso2_is_finished s \<longleftrightarrow> s2_phase s = P2_Stopped \<or> s2_phase s = P2_Paused"

definition iso2_is_paused :: "iso2_sequencer \<Rightarrow> bool" where
  "iso2_is_paused s \<longleftrightarrow> s2_phase s = P2_Paused"

text \<open>The branch of \<open>next_phase\<close> for a session that has failed.\<close>

definition iso2_next_failed :: "iso2_phase \<Rightarrow> iso2_request \<Rightarrow> iso2_phase option" where
  "iso2_next_failed p r =
     (if p = P2_Start \<or> p = P2_Stopped \<or> p = P2_Paused then None
      else case r of
        R2_SessionStop CS2_Terminate \<Rightarrow> Some P2_Stopped
      | R2_SessionStop CS2_Pause \<Rightarrow>
          if p = P2_CableCheck \<or> p = P2_PreCharge \<or> p = P2_Charging then None else Some P2_Paused
      | _ \<Rightarrow> None)"

text \<open>
  The arms of \<open>next_phase\<close> that are about one phase, in the order of the source. A guard that fails
  falls through to the arms below it, none of which applies.
\<close>

definition iso2_next_flow :: "bool \<Rightarrow> bool \<Rightarrow> iso2_sequencer \<Rightarrow> iso2_request \<Rightarrow> iso2_phase option" where
  "iso2_next_flow dc contract s r =
     (case s2_phase s of
        P2_Start \<Rightarrow> (case r of R2_SessionSetup \<Rightarrow> Some P2_SessionSetup | _ \<Rightarrow> None)
      | P2_SessionSetup \<Rightarrow> (case r of R2_ServiceDiscovery \<Rightarrow> Some P2_ServiceDiscovery | _ \<Rightarrow> None)
      | P2_ServiceDiscovery \<Rightarrow>
          (case r of
             R2_PaymentServiceSelection option \<Rightarrow>
               if option = Contract \<and> \<not> permits_plug_and_charge (s2_security s) then None
               else Some P2_ServiceSelected
           | R2_ServiceDetail \<Rightarrow> Some P2_ServiceDiscovery
           | _ \<Rightarrow> None)
      | P2_ServiceSelected \<Rightarrow>
          (case r of
             R2_CertificateInstallation \<Rightarrow> if contract then Some P2_CertificateInstalled else None
           | R2_CertificateUpdate \<Rightarrow> if contract then Some P2_CertificateInstalled else None
           | R2_PaymentDetails \<Rightarrow> if contract then Some P2_PaymentDetails else None
           | R2_Authorization \<Rightarrow> if \<not> contract then Some P2_Authorized else None
           | _ \<Rightarrow> None)
      | P2_CertificateInstalled \<Rightarrow>
          (case r of R2_PaymentDetails \<Rightarrow> if contract then Some P2_PaymentDetails else None | _ \<Rightarrow> None)
      | P2_PaymentDetails \<Rightarrow> (case r of R2_Authorization \<Rightarrow> Some P2_Authorized | _ \<Rightarrow> None)
      | P2_Authorized \<Rightarrow>
          (case r of
             R2_Authorization \<Rightarrow> Some P2_Authorized
           | R2_ChargeParameterDiscovery _ \<Rightarrow> Some P2_ChargeParameters
           | _ \<Rightarrow> None)
      | P2_ChargeParameters \<Rightarrow>
          (case r of
             R2_ChargeParameterDiscovery _ \<Rightarrow> Some P2_ChargeParameters
           | R2_CableCheck \<Rightarrow> if dc then Some P2_CableCheck else None
           | R2_PowerDelivery CP2_Start \<Rightarrow> if \<not> dc \<or> s2_renegotiated s then Some P2_Charging else None
           | _ \<Rightarrow> None)
      | P2_CableCheck \<Rightarrow>
          (case r of R2_CableCheck \<Rightarrow> Some P2_CableCheck | R2_PreCharge \<Rightarrow> Some P2_PreCharge | _ \<Rightarrow> None)
      | P2_PreCharge \<Rightarrow>
          (case r of
             R2_PreCharge \<Rightarrow> Some P2_PreCharge
           | R2_PowerDelivery CP2_Start \<Rightarrow> Some P2_Charging
           | _ \<Rightarrow> None)
      | P2_Charging \<Rightarrow>
          (case r of
             R2_ChargingStatus \<Rightarrow> if \<not> dc then Some P2_Charging else None
           | R2_CurrentDemand \<Rightarrow> if dc then Some P2_Charging else None
           | R2_MeteringReceipt \<Rightarrow> if contract then Some P2_Charging else None
           | R2_PowerDelivery CP2_Renegotiate \<Rightarrow> Some P2_ChargeParameters
           | R2_PowerDelivery CP2_Stop \<Rightarrow> Some P2_PowerStopped
           | R2_ChargeParameterDiscovery _ \<Rightarrow> if dc \<and> contract then Some P2_ChargeParameters else None
           | _ \<Rightarrow> None)
      | P2_PowerStopped \<Rightarrow>
          (case r of
             R2_ChargeParameterDiscovery _ \<Rightarrow> if dc then Some P2_ChargeParameters else None
           | R2_WeldingDetection \<Rightarrow> if dc then Some P2_WeldingDetection else None
           | _ \<Rightarrow> None)
      | P2_WeldingDetection \<Rightarrow> (case r of R2_WeldingDetection \<Rightarrow> Some P2_WeldingDetection | _ \<Rightarrow> None)
      | P2_Paused \<Rightarrow> None
      | P2_Stopped \<Rightarrow> None)"

text \<open>The arms of \<open>next_phase\<close> on \<open>SessionStopReq\<close>.\<close>

definition iso2_next_stop :: "iso2_phase \<Rightarrow> charging_session2 \<Rightarrow> iso2_phase option" where
  "iso2_next_stop p c =
     (if p = P2_Start \<or> p = P2_Stopped \<or> p = P2_Paused then None
      else case c of
        CS2_Terminate \<Rightarrow> Some P2_Stopped
      | CS2_Pause \<Rightarrow>
          if p = P2_CableCheck \<or> p = P2_PreCharge \<or> p = P2_Charging then None else Some P2_Paused)"

definition iso2_next_phase :: "iso2_sequencer \<Rightarrow> iso2_request \<Rightarrow> iso2_phase option" where
  "iso2_next_phase s r =
     (let dc = (s2_transfer s = Some Tr_Dc); contract = (s2_payment s = Some Contract) in
      if s2_failed s then iso2_next_failed (s2_phase s) r
      else case r of
        R2_SessionStop c \<Rightarrow> iso2_next_stop (s2_phase s) c
      | _ \<Rightarrow> iso2_next_flow dc contract s r)"

definition iso2_permits :: "iso2_sequencer \<Rightarrow> iso2_request \<Rightarrow> bool" where
  "iso2_permits s r \<longleftrightarrow> iso2_next_phase s r \<noteq> None"

fun iso2_phase_name :: "iso2_phase \<Rightarrow> string" where
  "iso2_phase_name P2_Start = ''Start''"
| "iso2_phase_name P2_SessionSetup = ''SessionSetup''"
| "iso2_phase_name P2_ServiceDiscovery = ''ServiceDiscovery''"
| "iso2_phase_name P2_ServiceSelected = ''ServiceSelected''"
| "iso2_phase_name P2_CertificateInstalled = ''CertificateInstalled''"
| "iso2_phase_name P2_PaymentDetails = ''PaymentDetails''"
| "iso2_phase_name P2_Authorized = ''Authorized''"
| "iso2_phase_name P2_ChargeParameters = ''ChargeParameters''"
| "iso2_phase_name P2_CableCheck = ''CableCheck''"
| "iso2_phase_name P2_PreCharge = ''PreCharge''"
| "iso2_phase_name P2_Charging = ''Charging''"
| "iso2_phase_name P2_PowerStopped = ''PowerStopped''"
| "iso2_phase_name P2_WeldingDetection = ''WeldingDetection''"
| "iso2_phase_name P2_Paused = ''Paused''"
| "iso2_phase_name P2_Stopped = ''Stopped''"

text \<open>\<open>FAILED_SequenceError\<close> is value 5 of the ISO 15118-2 response codes.\<close>

definition iso2_refusal :: "iso2_sequencer \<Rightarrow> iso2_request \<Rightarrow> sequence_error" where
  "iso2_refusal s r =
     \<lparr>se_got = iso2_request_name r, se_phase = iso2_phase_name (s2_phase s), se_response_code = 5\<rparr>"

definition iso2_record :: "iso2_request \<Rightarrow> iso2_sequencer \<Rightarrow> iso2_sequencer" where
  "iso2_record r s =
     (case r of
        R2_PaymentServiceSelection option \<Rightarrow> s\<lparr>s2_payment := Some option\<rparr>
      | R2_ChargeParameterDiscovery mode \<Rightarrow> s\<lparr>s2_transfer := Some (transfer_of_mode mode)\<rparr>
      | _ \<Rightarrow> s)"

definition iso2_accept :: "iso2_sequencer \<Rightarrow> iso2_request \<Rightarrow> (sequence_error + iso2_phase) \<times> iso2_sequencer" where
  "iso2_accept s r =
     (case iso2_next_phase s r of
        None \<Rightarrow> (Inl (iso2_refusal s r), s)
      | Some next \<Rightarrow>
        let s1 = iso2_record r s;
            s2 = (if next = P2_ChargeParameters \<and> (s2_phase s1 = P2_Charging \<or> s2_phase s1 = P2_PowerStopped)
                  then s1\<lparr>s2_renegotiated := True\<rparr> else s1)
        in (Inr next, s2\<lparr>s2_phase := next\<rparr>))"

definition iso2_loop_timeout :: "iso2_sequencer \<Rightarrow> role \<Rightarrow> millis option" where
  "iso2_loop_timeout s role = iso2_phase_loop_timeout (s2_phase s) role"

section \<open>The sequencer keeps its contract\<close>

lemmas iso2_table_defs =
  iso2_next_phase_def iso2_next_flow_def iso2_next_stop_def iso2_next_failed_def Let_def

definition iso2_is_stop :: "iso2_request \<Rightarrow> bool" where
  "iso2_is_stop r \<longleftrightarrow> (\<exists>c. r = R2_SessionStop c)"

lemma iso2_accept_Inr:
  assumes "iso2_accept s r = (Inr p, s')"
  shows "iso2_next_phase s r = Some p \<and> s2_phase s' = p \<and> s2_failed s' = s2_failed s \<and> s2_security s' = s2_security s
    \<and> s2_payment s' = (case r of R2_PaymentServiceSelection opt \<Rightarrow> Some opt | _ \<Rightarrow> s2_payment s)
    \<and> s2_transfer s' = (case r of R2_ChargeParameterDiscovery m \<Rightarrow> Some (transfer_of_mode m) | _ \<Rightarrow> s2_transfer s)
    \<and> s2_renegotiated s' = (s2_renegotiated s
         \<or> p = P2_ChargeParameters \<and> (s2_phase s = P2_Charging \<or> s2_phase s = P2_PowerStopped))"
  using assms
  by (cases r) (auto simp: iso2_accept_def iso2_record_def Let_def split: option.splits if_splits)

lemma iso2_accept_Inl: "iso2_accept s r = (Inl e, s') \<Longrightarrow> s' = s \<and> iso2_next_phase s r = None \<and> e = iso2_refusal s r"
  by (auto simp: iso2_accept_def Let_def split: option.splits)

lemma iso2_accept_permits: "(\<exists>p. fst (iso2_accept s r) = Inr p) \<longleftrightarrow> iso2_permits s r"
  by (auto simp: iso2_accept_def iso2_permits_def Let_def split: option.splits)

lemma iso2_failed_next: "s2_failed s \<Longrightarrow> iso2_next_phase s r = Some p \<Longrightarrow>
    iso2_is_stop r \<and> (p = P2_Stopped \<or> p = P2_Paused)"
  by (auto simp: iso2_table_defs iso2_is_stop_def split: if_splits iso2_request.splits charging_session2.splits)

lemma iso2_finished_next: "iso2_is_finished s \<Longrightarrow> iso2_next_phase s r = None"
  by (cases r; cases "s2_failed s"; auto simp: iso2_is_finished_def iso2_table_defs)

interpretation iso2: sequencer iso2_accept iso2_permits iso2_fail s2_failed iso2_is_finished iso2_is_stop
proof unfold_locales
  fix s r
  show "(\<exists>p. fst (iso2_accept s r) = Inr p) \<longleftrightarrow> iso2_permits s r" by (rule iso2_accept_permits)
  show "\<not> iso2_permits s r \<Longrightarrow> snd (iso2_accept s r) = s"
    by (auto simp: iso2_accept_def iso2_permits_def)
  show "iso2_is_finished s \<Longrightarrow> \<not> iso2_permits s r" by (simp add: iso2_permits_def iso2_finished_next)
  obtain res s' where a: "iso2_accept s r = (res, s')" by fastforce
  show "s2_failed s \<Longrightarrow> iso2_permits s r \<Longrightarrow> iso2_is_stop r \<and> iso2_is_finished (snd (iso2_accept s r))"
    using a iso2_accept_Inr [of s r _ s'] iso2_failed_next [of s r]
    by (cases res) (auto simp: iso2_permits_def iso2_is_finished_def dest: iso2_accept_Inl)
  show "s2_failed s \<Longrightarrow> s2_failed (snd (iso2_accept s r))"
    using a iso2_accept_Inr [of s r _ s'] by (cases res) (auto dest: iso2_accept_Inl)
  show "s2_failed (iso2_fail s)" by (simp add: iso2_fail_def)
qed

section \<open>Sessions\<close>

text \<open>
  The sessions an SECC can be in: requests arrive in any order, the sequencer accepts or refuses
  them, and a response may mark the session failed at any time.
\<close>

inductive iso2_run :: "security \<Rightarrow> iso2_request list \<Rightarrow> iso2_sequencer \<Rightarrow> bool" for sec where
  run2_start: "iso2_run sec [] (iso2_new sec)"
| run2_accept: "iso2_run sec rs s \<Longrightarrow> iso2_accept s r = (Inr p, s') \<Longrightarrow> iso2_run sec (rs @ [r]) s'"
| run2_refuse: "iso2_run sec rs s \<Longrightarrow> iso2_accept s r = (Inl e, s') \<Longrightarrow> iso2_run sec rs s'"
| run2_fail: "iso2_run sec rs s \<Longrightarrow> iso2_run sec rs (iso2_fail s)"

inductive_cases iso2_runE: "iso2_run sec rs s"

text \<open>The phases that lie behind authorization, and those behind the start of the power delivery.\<close>

definition iso2_authorized_phases :: "iso2_phase set" where
  "iso2_authorized_phases = {P2_Authorized, P2_ChargeParameters, P2_CableCheck, P2_PreCharge, P2_Charging,
     P2_PowerStopped, P2_WeldingDetection}"

definition iso2_powered_phases :: "iso2_phase set" where
  "iso2_powered_phases = {P2_Charging, P2_PowerStopped, P2_WeldingDetection}"

lemma iso2_next_authorized:
  assumes "iso2_next_phase s r = Some p" and "p \<in> iso2_authorized_phases"
  shows "s2_phase s \<in> iso2_authorized_phases \<and> (\<forall>opt. r \<noteq> R2_PaymentServiceSelection opt)
     \<or> r = R2_Authorization \<and> (s2_phase s = P2_PaymentDetails \<or> s2_payment s \<noteq> Some Contract)"
  using assms
  by (cases "s2_phase s"; cases r)
    (auto simp: iso2_table_defs iso2_authorized_phases_def split: if_splits charge_progress2.splits charging_session2.splits)

lemma iso2_next_payment:
  "iso2_next_phase s (R2_PaymentServiceSelection Contract) = Some p \<Longrightarrow> s2_security s = Tls"
  by (cases "s2_phase s")
    (auto simp: iso2_table_defs permits_plug_and_charge_def split: if_splits)

lemma iso2_next_details: "iso2_next_phase s r = Some P2_PaymentDetails \<Longrightarrow> r = R2_PaymentDetails"
  by (cases "s2_phase s"; cases r)
    (auto simp: iso2_table_defs split: if_splits charge_progress2.splits charging_session2.splits)

text \<open>The ways into the phases of a charge.\<close>

lemma iso2_into_parameters: "iso2_next_phase s r = Some P2_ChargeParameters \<Longrightarrow>
    (\<exists>m. r = R2_ChargeParameterDiscovery m) \<or> s2_phase s = P2_Charging \<and> r = R2_PowerDelivery CP2_Renegotiate"
  by (cases "s2_phase s"; cases r)
    (auto simp: iso2_table_defs split: if_splits charge_progress2.splits charging_session2.splits)

lemma iso2_into_cable_check: "iso2_next_phase s r = Some P2_CableCheck \<Longrightarrow>
    r = R2_CableCheck \<and> (s2_phase s = P2_ChargeParameters \<or> s2_phase s = P2_CableCheck)"
  by (cases "s2_phase s"; cases r)
    (auto simp: iso2_table_defs split: if_splits charge_progress2.splits charging_session2.splits)

lemma iso2_into_pre_charge: "iso2_next_phase s r = Some P2_PreCharge \<Longrightarrow>
    r = R2_PreCharge \<and> (s2_phase s = P2_CableCheck \<or> s2_phase s = P2_PreCharge)"
  by (cases "s2_phase s"; cases r)
    (auto simp: iso2_table_defs split: if_splits charge_progress2.splits charging_session2.splits)

lemma iso2_into_charging: "iso2_next_phase s r = Some P2_Charging \<Longrightarrow>
    s2_phase s = P2_Charging \<and> (\<forall>m. r \<noteq> R2_ChargeParameterDiscovery m)
    \<or> r = R2_PowerDelivery CP2_Start \<and> (s2_phase s = P2_PreCharge
         \<or> s2_phase s = P2_ChargeParameters \<and> (s2_transfer s \<noteq> Some Tr_Dc \<or> s2_renegotiated s))"
  by (cases "s2_phase s"; cases r)
    (auto simp: iso2_table_defs split: if_splits charge_progress2.splits charging_session2.splits)

lemma iso2_into_stopped: "iso2_next_phase s r = Some p \<Longrightarrow> p = P2_PowerStopped \<or> p = P2_WeldingDetection \<Longrightarrow>
    s2_phase s \<in> iso2_powered_phases \<and> (\<forall>m. r \<noteq> R2_ChargeParameterDiscovery m)"
  by (cases "s2_phase s"; cases r)
    (auto simp: iso2_table_defs iso2_powered_phases_def split: if_splits charge_progress2.splits charging_session2.splits)

definition iso2_energy_phases :: "iso2_phase set" where
  "iso2_energy_phases = {P2_ChargeParameters, P2_CableCheck, P2_PreCharge} \<union> iso2_powered_phases"

lemma iso2_into_energy: "iso2_next_phase s r = Some p \<Longrightarrow> p \<in> iso2_energy_phases \<Longrightarrow>
    (\<exists>m. r = R2_ChargeParameterDiscovery m) \<or> s2_phase s \<in> iso2_energy_phases"
  by (cases "s2_phase s"; cases r)
    (auto simp: iso2_table_defs iso2_energy_phases_def iso2_powered_phases_def
      split: if_splits charge_progress2.splits charging_session2.splits)

lemma iso2_run_payment:
  assumes "iso2_run sec rs s"
  shows "s2_security s = sec \<and> (s2_payment s = Some Contract \<longrightarrow> sec = Tls)
    \<and> (s2_phase s = P2_PaymentDetails \<longrightarrow> R2_PaymentDetails \<in> set rs)"
  using assms
proof (induction rule: iso2_run.induct)
  case (run2_accept rs s r p s')
  note acc = iso2_accept_Inr [OF run2_accept.hyps(2)]
  have "s2_payment s' = Some Contract \<longrightarrow> sec = Tls"
    using acc run2_accept.IH iso2_next_payment [of s p] by (auto split: iso2_request.splits)
  moreover have "s2_phase s' = P2_PaymentDetails \<longrightarrow> R2_PaymentDetails \<in> set (rs @ [r])"
    using acc iso2_next_details [of s r] by auto
  ultimately show ?case using acc run2_accept.IH by auto
next
  case (run2_refuse rs s r e s')
  then show ?case using iso2_accept_Inl by blast
qed (simp_all add: iso2_new_def iso2_fail_def)

lemma iso2_run_authorized:
  assumes "iso2_run sec rs s"
  shows "s2_phase s \<in> iso2_authorized_phases \<longrightarrow>
     R2_Authorization \<in> set rs \<and> (s2_payment s = Some Contract \<longrightarrow> R2_PaymentDetails \<in> set rs)"
  using assms
proof (induction rule: iso2_run.induct)
  case (run2_accept rs s r p s')
  note acc = iso2_accept_Inr [OF run2_accept.hyps(2)]
  show ?case
  proof
    assume "s2_phase s' \<in> iso2_authorized_phases"
    then show "R2_Authorization \<in> set (rs @ [r]) \<and> (s2_payment s' = Some Contract \<longrightarrow> R2_PaymentDetails \<in> set (rs @ [r]))"
      using acc iso2_next_authorized [of s r p] run2_accept.IH iso2_run_payment [OF run2_accept.hyps(1)]
      by (auto split: iso2_request.splits)
  qed
next
  case (run2_refuse rs s r e s')
  then show ?case using iso2_accept_Inl by blast
qed (simp_all add: iso2_new_def iso2_fail_def iso2_authorized_phases_def)

text \<open>
  DC safety: whoever charges with DC has passed the isolation test, the pre-charge and the start of the power
  delivery, in this order, unless the session has charged with AC, renegotiated, and changed to DC then.
\<close>

definition iso2_isolation :: "iso2_request list" where
  "iso2_isolation = [R2_CableCheck, R2_PreCharge, R2_PowerDelivery CP2_Start]"

text \<open>The requests of a change of current, and the first \<open>k\<close> of them in a log.\<close>

definition iso2_change :: "energy_transfer_mode \<Rightarrow> energy_transfer_mode \<Rightarrow> iso2_request list" where
  "iso2_change m n = [R2_ChargeParameterDiscovery m, R2_PowerDelivery CP2_Start, R2_PowerDelivery CP2_Renegotiate,
     R2_ChargeParameterDiscovery n, R2_PowerDelivery CP2_Start]"

definition iso2_changed :: "nat \<Rightarrow> iso2_request list \<Rightarrow> bool" where
  "iso2_changed k rs \<longleftrightarrow>
     (\<exists>m n. transfer_of_mode m = Tr_Ac \<and> transfer_of_mode n = Tr_Dc \<and> subseq (take k (iso2_change m n)) rs)"

lemma subseq_snoc1: "subseq xs ys \<Longrightarrow> subseq xs (ys @ [y])"
  by (rule subseq_rev_drop_many)

lemma subseq_snoc2: "subseq xs ys \<Longrightarrow> subseq (xs @ [y]) (ys @ [y])"
  by (simp add: subseq_append)

lemma iso2_changed_snoc1: "iso2_changed k rs \<Longrightarrow> iso2_changed k (rs @ [r])"
  by (auto simp: iso2_changed_def dest: subseq_snoc1)

lemma iso2_changed_le: "iso2_changed k rs \<Longrightarrow> j \<le> k \<Longrightarrow> iso2_changed j rs"
  unfolding iso2_changed_def
  by (metis min.absorb1 prefix_imp_subseq subseq_order.order_trans take_is_prefix take_take)

lemma iso2_changed_snoc2:
  assumes "iso2_changed k rs" and "k < 5"
    and "\<And>m n. transfer_of_mode m = Tr_Ac \<Longrightarrow> transfer_of_mode n = Tr_Dc \<Longrightarrow>
      \<exists>m' n'. transfer_of_mode m' = Tr_Ac \<and> transfer_of_mode n' = Tr_Dc
        \<and> take k (iso2_change m' n') = take k (iso2_change m n) \<and> iso2_change m' n' ! k = r"
  shows "iso2_changed (Suc k) (rs @ [r])"
proof -
  obtain m n where "transfer_of_mode m = Tr_Ac" "transfer_of_mode n = Tr_Dc" and sub: "subseq (take k (iso2_change m n)) rs"
    using assms(1) by (auto simp: iso2_changed_def)
  with assms(3) obtain m' n' where m': "transfer_of_mode m' = Tr_Ac" "transfer_of_mode n' = Tr_Dc"
      "take k (iso2_change m' n') = take k (iso2_change m n)" "iso2_change m' n' ! k = r" by blast
  have "take (Suc k) (iso2_change m' n') = take k (iso2_change m' n') @ [r]"
    using take_Suc_conv_app_nth [of k "iso2_change m' n'"] assms(2) m'(4) by (simp add: iso2_change_def)
  then have "subseq (take (Suc k) (iso2_change m' n')) (rs @ [r])" using sub m'(3) subseq_snoc2 by metis
  then show ?thesis using m' by (auto simp: iso2_changed_def)
qed

lemma iso2_changed_steps:
  "transfer_of_mode m = Tr_Ac \<Longrightarrow> iso2_changed 1 (rs @ [R2_ChargeParameterDiscovery m])"
  "iso2_changed 1 rs \<Longrightarrow> iso2_changed 2 (rs @ [R2_PowerDelivery CP2_Start])"
  "iso2_changed 2 rs \<Longrightarrow> iso2_changed 3 (rs @ [R2_PowerDelivery CP2_Renegotiate])"
  "transfer_of_mode n = Tr_Dc \<Longrightarrow> iso2_changed 3 rs \<Longrightarrow> iso2_changed 4 (rs @ [R2_ChargeParameterDiscovery n])"
  "iso2_changed 4 rs \<Longrightarrow> iso2_changed 5 (rs @ [R2_PowerDelivery CP2_Start])"
proof -
  have 0: "iso2_changed 0 rs" unfolding iso2_changed_def
    by (intro exI [of _ ACThreePhaseCore] exI [of _ DCCore]) simp
  show "transfer_of_mode m = Tr_Ac \<Longrightarrow> iso2_changed 1 (rs @ [R2_ChargeParameterDiscovery m])"
    using iso2_changed_snoc2 [OF 0, of "R2_ChargeParameterDiscovery m"] by (force simp: iso2_change_def)
  show "iso2_changed 1 rs \<Longrightarrow> iso2_changed 2 (rs @ [R2_PowerDelivery CP2_Start])"
    using iso2_changed_snoc2 [of 1 rs "R2_PowerDelivery CP2_Start"] by (force simp: iso2_change_def numeral_2_eq_2)
  show "iso2_changed 2 rs \<Longrightarrow> iso2_changed 3 (rs @ [R2_PowerDelivery CP2_Renegotiate])"
    using iso2_changed_snoc2 [of 2 rs "R2_PowerDelivery CP2_Renegotiate"] by (force simp: iso2_change_def eval_nat_numeral)
  show "transfer_of_mode n = Tr_Dc \<Longrightarrow> iso2_changed 3 rs \<Longrightarrow> iso2_changed 4 (rs @ [R2_ChargeParameterDiscovery n])"
    using iso2_changed_snoc2 [of 3 rs "R2_ChargeParameterDiscovery n"] by (force simp: iso2_change_def eval_nat_numeral)
  show "iso2_changed 4 rs \<Longrightarrow> iso2_changed 5 (rs @ [R2_PowerDelivery CP2_Start])"
    using iso2_changed_snoc2 [of 4 rs "R2_PowerDelivery CP2_Start"] by (force simp: iso2_change_def eval_nat_numeral)
qed

definition iso2_dc_inv :: "iso2_request list \<Rightarrow> iso2_sequencer \<Rightarrow> bool" where
  "iso2_dc_inv rs s \<longleftrightarrow>
     (s2_phase s \<in> iso2_energy_phases \<longrightarrow> s2_transfer s \<noteq> None)
     \<and> (s2_transfer s = Some Tr_Ac \<longrightarrow> iso2_changed 1 rs)
     \<and> (s2_phase s = P2_CableCheck \<longrightarrow> s2_transfer s = Some Tr_Dc \<and> subseq [R2_CableCheck] rs)
     \<and> (s2_phase s = P2_PreCharge \<longrightarrow> s2_transfer s = Some Tr_Dc \<and> subseq [R2_CableCheck, R2_PreCharge] rs)
     \<and> (s2_renegotiated s \<longrightarrow> subseq iso2_isolation rs \<or> iso2_changed 3 rs)
     \<and> (s2_renegotiated s \<and> s2_transfer s = Some Tr_Dc \<longrightarrow> subseq iso2_isolation rs \<or> iso2_changed 4 rs)
     \<and> (s2_phase s \<in> iso2_powered_phases \<and> s2_transfer s = Some Tr_Ac \<longrightarrow> iso2_changed 2 rs)
     \<and> (s2_phase s \<in> iso2_powered_phases \<and> s2_transfer s = Some Tr_Dc \<longrightarrow> subseq iso2_isolation rs \<or> iso2_changed 5 rs)"

text \<open>The steps of the table, by what they do to the current, the flag and the phases of a charge.\<close>

lemma iso2_into_parameters_powered: "iso2_next_phase s r = Some P2_ChargeParameters \<Longrightarrow>
    s2_phase s = P2_Charging \<or> s2_phase s = P2_PowerStopped \<Longrightarrow>
    r = R2_PowerDelivery CP2_Renegotiate \<or> (\<exists>m. r = R2_ChargeParameterDiscovery m) \<and> s2_transfer s = Some Tr_Dc"
  by (cases "s2_phase s"; cases r)
    (auto simp: iso2_table_defs split: if_splits charge_progress2.splits charging_session2.splits)

lemma iso2_into_cable_check_dc: "iso2_next_phase s r = Some P2_CableCheck \<Longrightarrow>
    s2_phase s = P2_CableCheck \<or> s2_transfer s = Some Tr_Dc"
  by (cases "s2_phase s"; cases r)
    (auto simp: iso2_table_defs split: if_splits charge_progress2.splits charging_session2.splits)

lemma iso2_accept_transfer:
  assumes "iso2_accept s r = (Inr p, s')"
  shows "(\<exists>m. r = R2_ChargeParameterDiscovery m \<and> s2_transfer s' = Some (transfer_of_mode m))
    \<or> (\<forall>m. r \<noteq> R2_ChargeParameterDiscovery m) \<and> s2_transfer s' = s2_transfer s"
  using iso2_accept_Inr [OF assms] by (cases r) auto

lemma iso2_dc_renegotiated:
  assumes inv: "iso2_dc_inv rs s" and acc: "iso2_accept s r = (Inr p, s')" and rn: "s2_renegotiated s'"
  shows "subseq iso2_isolation (rs @ [r]) \<or> iso2_changed (if s2_transfer s' = Some Tr_Dc then 4 else 3) (rs @ [r])"
proof (cases "s2_renegotiated s")
  case True
  with inv have i: "subseq iso2_isolation rs \<or> iso2_changed 3 rs"
    "s2_transfer s = Some Tr_Dc \<longrightarrow> subseq iso2_isolation rs \<or> iso2_changed 4 rs" by (simp_all add: iso2_dc_inv_def)
  have "iso2_changed 4 (rs @ [r])" if "iso2_changed 3 rs" "s2_transfer s' = Some Tr_Dc" "s2_transfer s \<noteq> Some Tr_Dc"
    using iso2_accept_transfer [OF acc] iso2_changed_steps(4) that by auto
  with i show ?thesis using iso2_changed_snoc1 subseq_snoc1 by metis
next
  case False
  note a = iso2_accept_Inr [OF acc]
  from False a rn have p: "p = P2_ChargeParameters" and ph: "s2_phase s = P2_Charging \<or> s2_phase s = P2_PowerStopped" by auto
  then have pow: "s2_phase s \<in> iso2_powered_phases" "s2_transfer s \<noteq> None"
    using inv by (auto simp: iso2_dc_inv_def iso2_powered_phases_def iso2_energy_phases_def)
  have dc: ?thesis if "s2_transfer s = Some Tr_Dc"
  proof -
    have "subseq iso2_isolation rs \<or> iso2_changed 5 rs" using inv that pow by (simp add: iso2_dc_inv_def)
    then show ?thesis using subseq_snoc1 iso2_changed_snoc1 [OF iso2_changed_le [of 5 rs]] by auto
  qed
  have "r = R2_PowerDelivery CP2_Renegotiate \<or> s2_transfer s = Some Tr_Dc"
    using iso2_into_parameters_powered [OF _ ph] a p by auto
  moreover have ?thesis if "r = R2_PowerDelivery CP2_Renegotiate" "s2_transfer s = Some Tr_Ac"
    using that inv pow iso2_changed_steps(3) [of rs] iso2_accept_transfer [OF acc] by (simp add: iso2_dc_inv_def)
  ultimately show ?thesis using dc pow(2) by (metis not_None_eq transfer.exhaust)
qed

lemma iso2_dc_powered:
  assumes inv: "iso2_dc_inv rs s" and acc: "iso2_accept s r = (Inr p, s')" and p: "p \<in> iso2_powered_phases"
  shows "(s2_transfer s' = Some Tr_Ac \<longrightarrow> iso2_changed 2 (rs @ [r]))
    \<and> (s2_transfer s' = Some Tr_Dc \<longrightarrow> subseq iso2_isolation (rs @ [r]) \<or> iso2_changed 5 (rs @ [r]))"
proof -
  note i = inv [unfolded iso2_dc_inv_def] and snoc = subseq_snoc1 [of _ rs r] iso2_changed_snoc1 [of _ rs r]
  have nx: "iso2_next_phase s r = Some p" using iso2_accept_Inr [OF acc] by blast
  have start: "subseq [R2_CableCheck, R2_PreCharge] rs \<Longrightarrow> r = R2_PowerDelivery CP2_Start \<Longrightarrow> subseq iso2_isolation (rs @ [r])"
    using subseq_snoc2 [of "[R2_CableCheck, R2_PreCharge]" rs r] by (simp add: iso2_isolation_def)
  from p consider (charge) "p = P2_Charging" | (stop) "p = P2_PowerStopped \<or> p = P2_WeldingDetection"
    by (auto simp: iso2_powered_phases_def)
  then consider (stay) "s2_phase s \<in> iso2_powered_phases" "\<forall>m. r \<noteq> R2_ChargeParameterDiscovery m"
    | (pre) "r = R2_PowerDelivery CP2_Start" "s2_phase s = P2_PreCharge"
    | (again) "r = R2_PowerDelivery CP2_Start" "s2_transfer s \<noteq> Some Tr_Dc \<or> s2_renegotiated s"
    using iso2_into_charging [of s r] iso2_into_stopped [of s r p] nx
    by cases (auto simp: iso2_powered_phases_def)
  then show ?thesis
  proof cases
    case stay
    then have "s2_transfer s' = s2_transfer s" using iso2_accept_transfer [OF acc] by blast
    then show ?thesis using i stay(1) snoc by metis
  next
    case pre
    then have "s2_transfer s' = s2_transfer s" using iso2_accept_transfer [OF acc] by blast
    then show ?thesis using i pre start by auto
  next
    case again
    then have "s2_transfer s' = s2_transfer s" using iso2_accept_transfer [OF acc] by blast
    moreover have "s2_transfer s = Some Tr_Ac \<longrightarrow> iso2_changed 2 (rs @ [r])"
      using i again(1) iso2_changed_steps(2) by blast
    moreover have "s2_transfer s = Some Tr_Dc \<longrightarrow> subseq iso2_isolation (rs @ [r]) \<or> iso2_changed 5 (rs @ [r])"
      using i again snoc(1) iso2_changed_steps(5) by blast
    ultimately show ?thesis by simp
  qed
qed

lemma iso2_dc_step:
  assumes inv: "iso2_dc_inv rs s" and acc: "iso2_accept s r = (Inr p, s')"
  shows "iso2_dc_inv (rs @ [r]) s'"
proof -
  note i = inv [unfolded iso2_dc_inv_def] and tr = iso2_accept_transfer [OF acc]
  have nx: "iso2_next_phase s r = Some p" and ph: "s2_phase s' = p" using iso2_accept_Inr [OF acc] by blast+
  have pre: "subseq [R2_CableCheck] rs \<Longrightarrow> r = R2_PreCharge \<Longrightarrow> subseq [R2_CableCheck, R2_PreCharge] (rs @ [r])"
    using subseq_snoc2 [of "[R2_CableCheck]" rs r] by simp
  have "p \<in> iso2_energy_phases \<longrightarrow> s2_transfer s' \<noteq> None"
    using i [THEN conjunct1] tr iso2_into_energy [OF nx] by (metis option.distinct(1))
  moreover have "s2_transfer s' = Some Tr_Ac \<longrightarrow> iso2_changed 1 (rs @ [r])"
    using i tr iso2_changed_steps(1) iso2_changed_snoc1 by (metis option.inject)
  moreover have "p = P2_CableCheck \<longrightarrow> s2_transfer s' = Some Tr_Dc \<and> subseq [R2_CableCheck] (rs @ [r])"
  proof
    assume "p = P2_CableCheck"
    with nx have "iso2_next_phase s r = Some P2_CableCheck" by simp
    from iso2_into_cable_check [OF this] iso2_into_cable_check_dc [OF this] i
    have "r = R2_CableCheck" "s2_transfer s = Some Tr_Dc" by blast+
    then show "s2_transfer s' = Some Tr_Dc \<and> subseq [R2_CableCheck] (rs @ [r])" using tr by (simp add: subseq_singleton_left)
  qed
  moreover have "p = P2_PreCharge \<longrightarrow> s2_transfer s' = Some Tr_Dc \<and> subseq [R2_CableCheck, R2_PreCharge] (rs @ [r])"
  proof
    assume "p = P2_PreCharge"
    with nx have "iso2_next_phase s r = Some P2_PreCharge" by simp
    from iso2_into_pre_charge [OF this] i have "r = R2_PreCharge" "s2_transfer s = Some Tr_Dc"
      "subseq [R2_CableCheck] rs \<or> subseq [R2_CableCheck, R2_PreCharge] rs" by blast+
    then show "s2_transfer s' = Some Tr_Dc \<and> subseq [R2_CableCheck, R2_PreCharge] (rs @ [r])"
      using tr pre subseq_snoc1 [of "[R2_CableCheck, R2_PreCharge]" rs r] by auto
  qed
  moreover have "s2_renegotiated s' \<longrightarrow> subseq iso2_isolation (rs @ [r]) \<or> iso2_changed 3 (rs @ [r])"
    using iso2_dc_renegotiated [OF inv acc] iso2_changed_le [of 4 _ 3] by (auto split: if_splits)
  moreover have "s2_renegotiated s' \<and> s2_transfer s' = Some Tr_Dc \<longrightarrow> subseq iso2_isolation (rs @ [r]) \<or> iso2_changed 4 (rs @ [r])"
    using iso2_dc_renegotiated [OF inv acc] by (auto split: if_splits)
  moreover have "p \<in> iso2_powered_phases \<and> s2_transfer s' = Some Tr_Ac \<longrightarrow> iso2_changed 2 (rs @ [r])"
    "p \<in> iso2_powered_phases \<and> s2_transfer s' = Some Tr_Dc \<longrightarrow> subseq iso2_isolation (rs @ [r]) \<or> iso2_changed 5 (rs @ [r])"
    using iso2_dc_powered [OF inv acc] by blast+
  ultimately show ?thesis unfolding iso2_dc_inv_def ph by (intro conjI)
qed

lemma iso2_run_dc: "iso2_run sec rs s \<Longrightarrow> iso2_dc_inv rs s"
proof (induction rule: iso2_run.induct)
  case run2_start
  then show ?case by (simp add: iso2_dc_inv_def iso2_new_def iso2_powered_phases_def iso2_energy_phases_def)
next
  case (run2_accept rs s r p s')
  then show ?case using iso2_dc_step by blast
next
  case (run2_refuse rs s r e s')
  then show ?case using iso2_accept_Inl by blast
next
  case (run2_fail rs s)
  then show ?case by (simp add: iso2_dc_inv_def iso2_fail_def)
qed

text \<open>A session driven by requests that are all accepted.\<close>

primrec iso2_drive :: "iso2_sequencer \<Rightarrow> iso2_request list \<Rightarrow> iso2_sequencer option" where
  "iso2_drive s [] = Some s"
| "iso2_drive s (r # rs) = (case iso2_accept s r of (Inr _, s') \<Rightarrow> iso2_drive s' rs | (Inl _, _) \<Rightarrow> None)"

lemma iso2_drive_run: "iso2_run sec rs s \<Longrightarrow> iso2_drive s qs = Some s' \<Longrightarrow> iso2_run sec (rs @ qs) s'"
proof (induction qs arbitrary: rs s)
  case (Cons q qs)
  obtain res s1 where a: "iso2_accept s q = (res, s1)" by fastforce
  with Cons.prems(2) obtain p where res: "res = Inr p" by (cases res) auto
  have "iso2_run sec (rs @ [q]) s1" using run2_accept Cons.prems(1) a res by blast
  then show ?case using Cons.IH [of "rs @ [q]" s1] Cons.prems(2) a res by simp
qed simp

lemma iso2_drive_new: "iso2_drive (iso2_new sec) qs = Some s \<Longrightarrow> iso2_run sec qs s"
  using iso2_drive_run [OF run2_start] by simp

definition sample_dc :: "iso2_request list" where
  "sample_dc = [R2_SessionSetup, R2_ServiceDiscovery, R2_PaymentServiceSelection Contract, R2_PaymentDetails,
     R2_Authorization, R2_ChargeParameterDiscovery DCExtended, R2_CableCheck, R2_PreCharge, R2_PowerDelivery CP2_Start]"

definition sample_dc_end :: iso2_sequencer where
  "sample_dc_end = \<lparr>s2_phase = P2_Charging, s2_security = Tls, s2_transfer = Some Tr_Dc, s2_payment = Some Contract,
     s2_renegotiated = False, s2_failed = False\<rparr>"

lemma sample_dc_run: "iso2_run Tls sample_dc sample_dc_end"
  by (rule iso2_drive_new) code_simp

section \<open>Properties\<close>

text \<open>
  DC safety of ISO 15118-2: whatever arrives, is refused or fails, DC power is flowing or has been flowing only if
  an isolation test, a pre-charge and a \<open>PowerDelivery(Start)\<close> were accepted before, in this order, or the session
  went from AC charging over a renegotiation to DC.
\<close>

lemma iso2_dc_safety:
  assumes "iso2_run sec rs s" and "s2_transfer s = Some Tr_Dc" and "s2_phase s \<in> iso2_powered_phases"
  shows "subseq [R2_CableCheck, R2_PreCharge, R2_PowerDelivery CP2_Start] rs
    \<or> (\<exists>m n. transfer_of_mode m = Tr_Ac \<and> transfer_of_mode n = Tr_Dc
        \<and> subseq [R2_ChargeParameterDiscovery m, R2_PowerDelivery CP2_Start, R2_PowerDelivery CP2_Renegotiate,
            R2_ChargeParameterDiscovery n, R2_PowerDelivery CP2_Start] rs)"
  using iso2_run_dc [OF assms(1)] assms(2,3) by (simp add: iso2_dc_inv_def iso2_isolation_def iso2_changed_def iso2_change_def)

text \<open>
  Authorization of ISO 15118-2: no session reaches the charge parameters or anything behind them
  without an accepted \<open>AuthorizationReq\<close>; when it pays by contract, its transport is TLS and an accepted
  \<open>PaymentDetailsReq\<close> is behind it too.
\<close>

lemma iso2_authorization:
  assumes "iso2_run sec rs s" and "s2_phase s \<in> iso2_authorized_phases"
  shows "R2_Authorization \<in> set rs \<and> (s2_payment s = Some Contract \<longrightarrow> sec = Tls \<and> R2_PaymentDetails \<in> set rs)"
  using iso2_run_authorized [OF assms(1)] iso2_run_payment [OF assms(1)] assms(2) by blast

lemma iso2_authorization_witness: "R2_Authorization \<in> set sample_dc \<and> R2_PaymentDetails \<in> set sample_dc"
  using iso2_authorization [OF sample_dc_run]
  by (simp add: sample_dc_end_def iso2_authorized_phases_def)

text \<open>
  After a failed response nothing but the end of the session goes through: of all the requests that
  follow, in any number and order, at most one is accepted, and it is a \<open>SessionStopReq\<close>.
\<close>

lemma iso2_after_failure:
  "length (iso2.accepted (iso2_fail s) rs) \<le> 1 \<and> list_all iso2_is_stop (iso2.accepted (iso2_fail s) rs)"
  by (rule iso2.after_fail)

text \<open>
  A refused request leaves the session exactly where it was and is answered with
  \<open>FAILED_SequenceError\<close>, naming the request and the phase; \<open>permits\<close> foretells the answer.
\<close>

lemma iso2_refusal_unchanged:
  "iso2_accept s r =
     (if iso2_permits s r then (Inr (the (iso2_next_phase s r)), snd (iso2_accept s r))
      else (Inl \<lparr>se_got = iso2_request_name r, se_phase = iso2_phase_name (s2_phase s), se_response_code = 5\<rparr>, s))"
  by (auto simp: iso2_accept_def iso2_permits_def iso2_refusal_def Let_def split: option.splits)

text \<open>
  A session that is open can always be ended: in every phase behind the session setup, also after a
  failure, \<open>SessionStopReq(Terminate)\<close> is accepted and finishes the session; nothing is accepted after it.
\<close>

lemma iso2_can_terminate:
  assumes "s2_phase s \<noteq> P2_Start" and "\<not> iso2_is_finished s"
  shows "\<exists>s'. iso2_accept s (R2_SessionStop CS2_Terminate) = (Inr P2_Stopped, s') \<and> iso2_is_finished s'
     \<and> (\<forall>r. \<not> iso2_permits s' r)"
proof -
  have "iso2_next_phase s (R2_SessionStop CS2_Terminate) = Some P2_Stopped"
    using assms by (auto simp: iso2_table_defs iso2_is_finished_def)
  moreover from this have "iso2_is_finished (snd (iso2_accept s (R2_SessionStop CS2_Terminate)))"
    by (simp add: iso2_accept_def iso2_record_def iso2_is_finished_def)
  ultimately show ?thesis using iso2.finished_refuses
    by (auto simp: iso2_accept_def split: prod.splits)
qed

lemma iso2_can_terminate_witness:
  "\<exists>s'. iso2_accept (iso2_fail sample_dc_end) (R2_SessionStop CS2_Terminate) = (Inr P2_Stopped, s')"
  using iso2_can_terminate [of "iso2_fail sample_dc_end"]
  by (auto simp: iso2_fail_def sample_dc_end_def iso2_is_finished_def)

section \<open>What the transition table lets through\<close>

text \<open>
  C36. DC charging without an isolation test: outside a renegotiation the table keeps a DC session from starting
  the power delivery at the charge parameters. But every session that charges with AC can renegotiate, ask for
  DC charging and start the power delivery with no other request in between: all three are accepted, with any
  DC mode, and the session then charges with DC and accepts \<open>CurrentDemandReq\<close>. The renegotiation flag outlives
  the change of current, so the log of accepted requests has an isolation test or a pre-charge in it only where the
  log of the AC session had one.
\<close>

theorem iso2_dc_after_ac:
  assumes "iso2_run sec rs s" and "s2_phase s = P2_Charging" and "s2_transfer s = Some Tr_Ac" and "\<not> s2_failed s"
    and "transfer_of_mode m = Tr_Dc"
  shows "(\<exists>s'. iso2_run sec (rs @ [R2_PowerDelivery CP2_Renegotiate, R2_ChargeParameterDiscovery m, R2_PowerDelivery CP2_Start]) s'
        \<and> s2_phase s' = P2_Charging \<and> s2_transfer s' = Some Tr_Dc \<and> iso2_permits s' R2_CurrentDemand)
    \<and> (\<forall>q. s2_phase q = P2_ChargeParameters \<and> s2_transfer q = Some Tr_Dc \<and> \<not> s2_renegotiated q
        \<longrightarrow> \<not> iso2_permits q (R2_PowerDelivery CP2_Start))"
proof (intro conjI allI impI)
  let ?s' = "s\<lparr>s2_transfer := Some Tr_Dc, s2_renegotiated := True\<rparr>"
  have "iso2_drive s [R2_PowerDelivery CP2_Renegotiate, R2_ChargeParameterDiscovery m, R2_PowerDelivery CP2_Start] = Some ?s'"
    using assms(2-5) by (simp add: iso2_accept_def iso2_record_def iso2_table_defs)
  from iso2_drive_run [OF assms(1) this]
  show "\<exists>s'. iso2_run sec (rs @ [R2_PowerDelivery CP2_Renegotiate, R2_ChargeParameterDiscovery m, R2_PowerDelivery CP2_Start]) s'
        \<and> s2_phase s' = P2_Charging \<and> s2_transfer s' = Some Tr_Dc \<and> iso2_permits s' R2_CurrentDemand"
    using assms(2,4) by (intro exI [of _ ?s']) (simp add: iso2_permits_def iso2_table_defs)
next
  fix q :: iso2_sequencer assume "s2_phase q = P2_ChargeParameters \<and> s2_transfer q = Some Tr_Dc \<and> \<not> s2_renegotiated q"
  then show "\<not> iso2_permits q (R2_PowerDelivery CP2_Start)" by (simp add: iso2_permits_def iso2_table_defs)
qed

definition sample_ac :: "iso2_request list" where
  "sample_ac = [R2_SessionSetup, R2_ServiceDiscovery, R2_PaymentServiceSelection ExternalPayment, R2_Authorization,
     R2_ChargeParameterDiscovery ACThreePhaseCore, R2_PowerDelivery CP2_Start]"

definition sample_ac_end :: iso2_sequencer where
  "sample_ac_end = \<lparr>s2_phase = P2_Charging, s2_security = No_Security, s2_transfer = Some Tr_Ac,
     s2_payment = Some ExternalPayment, s2_renegotiated = False, s2_failed = False\<rparr>"

lemma sample_ac_run: "iso2_run No_Security sample_ac sample_ac_end"
  by (rule iso2_drive_new) code_simp

theorem iso2_dc_after_ac_witness:
  "\<exists>rs s. iso2_run No_Security rs s \<and> s2_phase s = P2_Charging \<and> s2_transfer s = Some Tr_Dc
     \<and> R2_CableCheck \<notin> set rs \<and> R2_PreCharge \<notin> set rs"
proof -
  have "transfer_of_mode DCCore = Tr_Dc" by simp
  from iso2_dc_after_ac [OF sample_ac_run _ _ _ this] obtain s where
    "iso2_run No_Security (sample_ac @ [R2_PowerDelivery CP2_Renegotiate, R2_ChargeParameterDiscovery DCCore, R2_PowerDelivery CP2_Start]) s"
    "s2_phase s = P2_Charging" "s2_transfer s = Some Tr_Dc"
    by (auto simp: sample_ac_end_def)
  then show ?thesis by (intro exI conjI) (auto simp: sample_ac_def)
qed

text \<open>
  While power flows a pause is refused, but after \<open>PowerDelivery(Renegotiate)\<close>, with the power still on,
  it is accepted.
\<close>

lemma iso2_pause_after_renegotiate:
  assumes "s2_phase s = P2_Charging" and "\<not> s2_failed s"
  shows "\<not> iso2_permits s (R2_SessionStop CS2_Pause)
     \<and> iso2_permits (snd (iso2_accept s (R2_PowerDelivery CP2_Renegotiate))) (R2_SessionStop CS2_Pause)"
  using assms by (simp add: iso2_permits_def iso2_accept_def iso2_record_def iso2_table_defs)

lemma iso2_pause_after_renegotiate_witness:
  "iso2_permits (snd (iso2_accept sample_dc_end (R2_PowerDelivery CP2_Renegotiate))) (R2_SessionStop CS2_Pause)"
  using iso2_pause_after_renegotiate [of sample_dc_end] by (simp add: sample_dc_end_def)

end
