(* ===== verification/Iso2_Documents.thy ===== *)
theory Iso2_Documents
  imports Iso2_Session Bitstream
begin

text \<open>
  The documents of ISO 15118-2 as \<open>src/src/generated/iso2.rs\<close> declares them: response codes, the bodies of
  the messages and the roots, with the fields the sessions read (the session identifier of the header, the
  response code, the payment option, the energy transfer mode, the charge progress and the kind of a session
  stop). Everything else of a document is one opaque value.
\<close>

section \<open>Response codes\<close>

datatype code2 =
    C2_OK
  | C2_OKNewSessionEstablished
  | C2_OKOldSessionJoined
  | C2_OKCertificateExpiresSoon
  | C2_FAILED
  | C2_FAILEDSequenceError
  | C2_FAILEDServiceIDInvalid
  | C2_FAILEDUnknownSession
  | C2_FAILEDServiceSelectionInvalid
  | C2_FAILEDPaymentSelectionInvalid
  | C2_FAILEDCertificateExpired
  | C2_FAILEDSignatureError
  | C2_FAILEDNoCertificateAvailable
  | C2_FAILEDCertChainError
  | C2_FAILEDChallengeInvalid
  | C2_FAILEDContractCanceled
  | C2_FAILEDWrongChargeParameter
  | C2_FAILEDPowerDeliveryNotApplied
  | C2_FAILEDTariffSelectionInvalid
  | C2_FAILEDChargingProfileInvalid
  | C2_FAILEDMeteringSignatureNotValid
  | C2_FAILEDNoChargeServiceSelected
  | C2_FAILEDWrongEnergyTransferMode
  | C2_FAILEDContactorError
  | C2_FAILEDCertificateNotAllowedAtThisEVSE
  | C2_FAILEDCertificateRevoked

definition code2_ALL :: "code2 list" where
  "code2_ALL =
     [C2_OK,
      C2_OKNewSessionEstablished,
      C2_OKOldSessionJoined,
      C2_OKCertificateExpiresSoon,
      C2_FAILED,
      C2_FAILEDSequenceError,
      C2_FAILEDServiceIDInvalid,
      C2_FAILEDUnknownSession,
      C2_FAILEDServiceSelectionInvalid,
      C2_FAILEDPaymentSelectionInvalid,
      C2_FAILEDCertificateExpired,
      C2_FAILEDSignatureError,
      C2_FAILEDNoCertificateAvailable,
      C2_FAILEDCertChainError,
      C2_FAILEDChallengeInvalid,
      C2_FAILEDContractCanceled,
      C2_FAILEDWrongChargeParameter,
      C2_FAILEDPowerDeliveryNotApplied,
      C2_FAILEDTariffSelectionInvalid,
      C2_FAILEDChargingProfileInvalid,
      C2_FAILEDMeteringSignatureNotValid,
      C2_FAILEDNoChargeServiceSelected,
      C2_FAILEDWrongEnergyTransferMode,
      C2_FAILEDContactorError,
      C2_FAILEDCertificateNotAllowedAtThisEVSE,
      C2_FAILEDCertificateRevoked]"

text \<open>
  The arms of \<open>from_index\<close> are the values in the order of \<open>ALL\<close>.
\<close>

definition code2_from_index :: "nat \<Rightarrow> exi_error + code2" where
  "code2_from_index i = (if i < 26 then Inr (code2_ALL ! i) else Inl UnknownEnumValue)"

fun code2_is_ok :: "code2 \<Rightarrow> bool" where
  "code2_is_ok C2_OK = True"
| "code2_is_ok C2_OKNewSessionEstablished = True"
| "code2_is_ok C2_OKOldSessionJoined = True"
| "code2_is_ok C2_OKCertificateExpiresSoon = True"
| "code2_is_ok _ = False"

definition code2_is_warning :: "code2 \<Rightarrow> bool" where
  "code2_is_warning c = False"

fun code2_is_failure :: "code2 \<Rightarrow> bool" where
  "code2_is_failure C2_FAILED = True"
| "code2_is_failure C2_FAILEDSequenceError = True"
| "code2_is_failure C2_FAILEDServiceIDInvalid = True"
| "code2_is_failure C2_FAILEDUnknownSession = True"
| "code2_is_failure C2_FAILEDServiceSelectionInvalid = True"
| "code2_is_failure C2_FAILEDPaymentSelectionInvalid = True"
| "code2_is_failure C2_FAILEDCertificateExpired = True"
| "code2_is_failure C2_FAILEDSignatureError = True"
| "code2_is_failure C2_FAILEDNoCertificateAvailable = True"
| "code2_is_failure C2_FAILEDCertChainError = True"
| "code2_is_failure C2_FAILEDChallengeInvalid = True"
| "code2_is_failure C2_FAILEDContractCanceled = True"
| "code2_is_failure C2_FAILEDWrongChargeParameter = True"
| "code2_is_failure C2_FAILEDPowerDeliveryNotApplied = True"
| "code2_is_failure C2_FAILEDTariffSelectionInvalid = True"
| "code2_is_failure C2_FAILEDChargingProfileInvalid = True"
| "code2_is_failure C2_FAILEDMeteringSignatureNotValid = True"
| "code2_is_failure C2_FAILEDNoChargeServiceSelected = True"
| "code2_is_failure C2_FAILEDWrongEnergyTransferMode = True"
| "code2_is_failure C2_FAILEDContactorError = True"
| "code2_is_failure C2_FAILEDCertificateNotAllowedAtThisEVSE = True"
| "code2_is_failure C2_FAILEDCertificateRevoked = True"
| "code2_is_failure _ = False"

section \<open>Bodies\<close>

datatype 'x body2 =
    B2_AuthorizationReq 'x
  | B2_AuthorizationRes code2 'x
  | B2_BodyElement 'x
  | B2_CableCheckReq 'x
  | B2_CableCheckRes code2 'x
  | B2_CertificateInstallationReq 'x
  | B2_CertificateInstallationRes code2 'x
  | B2_CertificateUpdateReq 'x
  | B2_CertificateUpdateRes code2 'x
  | B2_ChargeParameterDiscoveryReq energy_transfer_mode 'x
  | B2_ChargeParameterDiscoveryRes code2 'x
  | B2_ChargingStatusReq 'x
  | B2_ChargingStatusRes code2 'x
  | B2_CurrentDemandReq 'x
  | B2_CurrentDemandRes code2 'x
  | B2_MeteringReceiptReq 'x
  | B2_MeteringReceiptRes code2 'x
  | B2_PaymentDetailsReq 'x
  | B2_PaymentDetailsRes code2 'x
  | B2_PaymentServiceSelectionReq payment_option 'x
  | B2_PaymentServiceSelectionRes code2 'x
  | B2_PowerDeliveryReq charge_progress2 'x
  | B2_PowerDeliveryRes code2 'x
  | B2_PreChargeReq 'x
  | B2_PreChargeRes code2 'x
  | B2_ServiceDetailReq 'x
  | B2_ServiceDetailRes code2 'x
  | B2_ServiceDiscoveryReq 'x
  | B2_ServiceDiscoveryRes code2 'x
  | B2_SessionSetupReq 'x
  | B2_SessionSetupRes code2 'x
  | B2_SessionStopReq charging_session2 'x
  | B2_SessionStopRes code2 'x
  | B2_WeldingDetectionReq 'x
  | B2_WeldingDetectionRes code2 'x

primrec body2_name :: "'x body2 \<Rightarrow> string" where
  "body2_name (B2_AuthorizationReq _) = ''AuthorizationReq''"
| "body2_name (B2_AuthorizationRes _ _) = ''AuthorizationRes''"
| "body2_name (B2_BodyElement _) = ''BodyElement''"
| "body2_name (B2_CableCheckReq _) = ''CableCheckReq''"
| "body2_name (B2_CableCheckRes _ _) = ''CableCheckRes''"
| "body2_name (B2_CertificateInstallationReq _) = ''CertificateInstallationReq''"
| "body2_name (B2_CertificateInstallationRes _ _) = ''CertificateInstallationRes''"
| "body2_name (B2_CertificateUpdateReq _) = ''CertificateUpdateReq''"
| "body2_name (B2_CertificateUpdateRes _ _) = ''CertificateUpdateRes''"
| "body2_name (B2_ChargeParameterDiscoveryReq _ _) = ''ChargeParameterDiscoveryReq''"
| "body2_name (B2_ChargeParameterDiscoveryRes _ _) = ''ChargeParameterDiscoveryRes''"
| "body2_name (B2_ChargingStatusReq _) = ''ChargingStatusReq''"
| "body2_name (B2_ChargingStatusRes _ _) = ''ChargingStatusRes''"
| "body2_name (B2_CurrentDemandReq _) = ''CurrentDemandReq''"
| "body2_name (B2_CurrentDemandRes _ _) = ''CurrentDemandRes''"
| "body2_name (B2_MeteringReceiptReq _) = ''MeteringReceiptReq''"
| "body2_name (B2_MeteringReceiptRes _ _) = ''MeteringReceiptRes''"
| "body2_name (B2_PaymentDetailsReq _) = ''PaymentDetailsReq''"
| "body2_name (B2_PaymentDetailsRes _ _) = ''PaymentDetailsRes''"
| "body2_name (B2_PaymentServiceSelectionReq _ _) = ''PaymentServiceSelectionReq''"
| "body2_name (B2_PaymentServiceSelectionRes _ _) = ''PaymentServiceSelectionRes''"
| "body2_name (B2_PowerDeliveryReq _ _) = ''PowerDeliveryReq''"
| "body2_name (B2_PowerDeliveryRes _ _) = ''PowerDeliveryRes''"
| "body2_name (B2_PreChargeReq _) = ''PreChargeReq''"
| "body2_name (B2_PreChargeRes _ _) = ''PreChargeRes''"
| "body2_name (B2_ServiceDetailReq _) = ''ServiceDetailReq''"
| "body2_name (B2_ServiceDetailRes _ _) = ''ServiceDetailRes''"
| "body2_name (B2_ServiceDiscoveryReq _) = ''ServiceDiscoveryReq''"
| "body2_name (B2_ServiceDiscoveryRes _ _) = ''ServiceDiscoveryRes''"
| "body2_name (B2_SessionSetupReq _) = ''SessionSetupReq''"
| "body2_name (B2_SessionSetupRes _ _) = ''SessionSetupRes''"
| "body2_name (B2_SessionStopReq _ _) = ''SessionStopReq''"
| "body2_name (B2_SessionStopRes _ _) = ''SessionStopRes''"
| "body2_name (B2_WeldingDetectionReq _) = ''WeldingDetectionReq''"
| "body2_name (B2_WeldingDetectionRes _ _) = ''WeldingDetectionRes''"

fun body2_response_code :: "'x body2 \<Rightarrow> code2 option" where
  "body2_response_code (B2_AuthorizationRes c _) = Some c"
| "body2_response_code (B2_CableCheckRes c _) = Some c"
| "body2_response_code (B2_CertificateInstallationRes c _) = Some c"
| "body2_response_code (B2_CertificateUpdateRes c _) = Some c"
| "body2_response_code (B2_ChargeParameterDiscoveryRes c _) = Some c"
| "body2_response_code (B2_ChargingStatusRes c _) = Some c"
| "body2_response_code (B2_CurrentDemandRes c _) = Some c"
| "body2_response_code (B2_MeteringReceiptRes c _) = Some c"
| "body2_response_code (B2_PaymentDetailsRes c _) = Some c"
| "body2_response_code (B2_PaymentServiceSelectionRes c _) = Some c"
| "body2_response_code (B2_PowerDeliveryRes c _) = Some c"
| "body2_response_code (B2_PreChargeRes c _) = Some c"
| "body2_response_code (B2_ServiceDetailRes c _) = Some c"
| "body2_response_code (B2_ServiceDiscoveryRes c _) = Some c"
| "body2_response_code (B2_SessionSetupRes c _) = Some c"
| "body2_response_code (B2_SessionStopRes c _) = Some c"
| "body2_response_code (B2_WeldingDetectionRes c _) = Some c"
| "body2_response_code _ = None"

text \<open>
  A refusal carries the code and the schema's minimum in every other field. The minimal content of a type,
  \<open>minimal()\<close> of the generated code, is an argument: nothing looks at it.
\<close>

fun body2_refusal :: "(string \<Rightarrow> 'x) \<Rightarrow> code2 \<Rightarrow> 'x body2 \<Rightarrow> 'x body2 option" where
  "body2_refusal minimal code (B2_AuthorizationReq _) = Some (B2_AuthorizationRes code (minimal ''AuthorizationRes''))"
| "body2_refusal minimal code (B2_CableCheckReq _) = Some (B2_CableCheckRes code (minimal ''CableCheckRes''))"
| "body2_refusal minimal code (B2_CertificateInstallationReq _) = Some (B2_CertificateInstallationRes code (minimal ''CertificateInstallationRes''))"
| "body2_refusal minimal code (B2_CertificateUpdateReq _) = Some (B2_CertificateUpdateRes code (minimal ''CertificateUpdateRes''))"
| "body2_refusal minimal code (B2_ChargeParameterDiscoveryReq _ _) = Some (B2_ChargeParameterDiscoveryRes code (minimal ''ChargeParameterDiscoveryRes''))"
| "body2_refusal minimal code (B2_ChargingStatusReq _) = Some (B2_ChargingStatusRes code (minimal ''ChargingStatusRes''))"
| "body2_refusal minimal code (B2_CurrentDemandReq _) = Some (B2_CurrentDemandRes code (minimal ''CurrentDemandRes''))"
| "body2_refusal minimal code (B2_MeteringReceiptReq _) = Some (B2_MeteringReceiptRes code (minimal ''MeteringReceiptRes''))"
| "body2_refusal minimal code (B2_PaymentDetailsReq _) = Some (B2_PaymentDetailsRes code (minimal ''PaymentDetailsRes''))"
| "body2_refusal minimal code (B2_PaymentServiceSelectionReq _ _) = Some (B2_PaymentServiceSelectionRes code (minimal ''PaymentServiceSelectionRes''))"
| "body2_refusal minimal code (B2_PowerDeliveryReq _ _) = Some (B2_PowerDeliveryRes code (minimal ''PowerDeliveryRes''))"
| "body2_refusal minimal code (B2_PreChargeReq _) = Some (B2_PreChargeRes code (minimal ''PreChargeRes''))"
| "body2_refusal minimal code (B2_ServiceDetailReq _) = Some (B2_ServiceDetailRes code (minimal ''ServiceDetailRes''))"
| "body2_refusal minimal code (B2_ServiceDiscoveryReq _) = Some (B2_ServiceDiscoveryRes code (minimal ''ServiceDiscoveryRes''))"
| "body2_refusal minimal code (B2_SessionSetupReq _) = Some (B2_SessionSetupRes code (minimal ''SessionSetupRes''))"
| "body2_refusal minimal code (B2_SessionStopReq _ _) = Some (B2_SessionStopRes code (minimal ''SessionStopRes''))"
| "body2_refusal minimal code (B2_WeldingDetectionReq _) = Some (B2_WeldingDetectionRes code (minimal ''WeldingDetectionRes''))"
| "body2_refusal minimal code _ = None"

section \<open>Documents\<close>

text \<open>
  A message is a \<open>V2GMessage\<close>: a header, of which only the session identifier is read, and a body. The
  other sixty-seven roots are the global elements of the schema, none of which is a message of a session;
  they are told apart by their element name.
\<close>

record 'x header2 =
  h2_session_id :: bytes
  h2_rest :: 'x

record 'x v2g_message =
  v2g_header :: "'x header2"
  v2g_body :: "'x body2 option"

datatype 'x iso2_doc =
    D2_V2GMessage "'x v2g_message"
  | D2_Element string 'x

fun iso2_doc_name :: "'x iso2_doc \<Rightarrow> string" where
  "iso2_doc_name (D2_V2GMessage _) = ''V2G_Message''"
| "iso2_doc_name (D2_Element name _) = name"

end
