(* ===== verification/Schedule.thy ===== *)
theory Schedule
  imports Iso2_Documents
begin

text \<open>
  The check of a charging profile against the schedule it answers, \<open>src/src/session/iso2/schedule.rs\<close>, over the
  generated types it reads. Both sides are step functions over seconds; the check compares their intervals, and
  is shown to compare the functions instant by instant.
\<close>

section \<open>Schedules and profiles\<close>

datatype unit_symbol = Unit_h | Unit_m | Unit_s | Unit_A | Unit_V | Unit_W | Unit_Wh

record physical_value =
  pv_multiplier :: "8 word"
  pv_unit :: unit_symbol
  pv_value :: "16 word"

record relative_time_interval =
  ri_start :: u32
  ri_duration :: "u32 option"

datatype p_max_choice = RelativeTimeInterval relative_time_interval | TimeInterval

record p_max_entry =
  pe_choice :: p_max_choice
  pe_p_max :: physical_value

record 'x sa_schedule_tuple =
  sat_id :: u8
  sat_p_max_schedule :: "p_max_entry list"
  sat_sales_tariff :: "'x option"

record profile_entry =
  cpe_start :: u32
  cpe_max_power :: physical_value
  cpe_max_phases :: "u8 option"

record 'x power_delivery_req =
  pd_charge_progress :: charge_progress2
  pd_sa_schedule_tuple_id :: u8
  pd_charging_profile :: "profile_entry list option"
  pd_choice :: "'x option"

datatype profile_error =
    UnknownScheduleTuple u8
  | ExceedsPMax u32 int int
  | NotWatts unit_symbol
  | MultiplierOutOfRange "8 word"
  | ProfileOutOfOrder nat
  | ScheduleOutOfOrder nat
  | ScheduleNotRelative nat

fun profile_error_code :: "profile_error \<Rightarrow> code2" where
  "profile_error_code (UnknownScheduleTuple _) = C2_FAILEDTariffSelectionInvalid"
| "profile_error_code _ = C2_FAILEDChargingProfileInvalid"

fun is_local_fault :: "profile_error \<Rightarrow> bool" where
  "is_local_fault (ScheduleOutOfOrder _) = True"
| "is_local_fault (ScheduleNotRelative _) = True"
| "is_local_fault _ = False"

text \<open>The fields of a physical value are signed; a power is in milliwatts.\<close>

definition power_mw :: "physical_value \<Rightarrow> profile_error + int" where
  "power_mw v =
     (if pv_unit v \<noteq> Unit_W then Inl (NotWatts (pv_unit v))
      else
        let exponent = sint (pv_multiplier v) + 3 in
        if 0 \<le> exponent \<and> exponent \<le> 6 then Inr (sint (pv_value v) * 10 ^ nat exponent)
        else Inl (MultiplierOutOfRange (pv_multiplier v)))"

record power_step =
  st_start :: u32
  st_end :: "u32 option"
  st_power :: int

definition U32_MAX :: u32 where
  "U32_MAX = 0xFFFFFFFF"

definition step_end :: "power_step \<Rightarrow> u32" where
  "step_end s = (case st_end s of Some e \<Rightarrow> e | None \<Rightarrow> U32_MAX)"

definition overlaps :: "power_step \<Rightarrow> power_step \<Rightarrow> bool" where
  "overlaps s other \<longleftrightarrow> st_start s < step_end other \<and> st_start other < step_end s"

definition overlap_start :: "power_step \<Rightarrow> power_step \<Rightarrow> u32" where
  "overlap_start s other = (if st_start s > st_start other then st_start s else st_start other)"

text \<open>\<open>previous.end = Some(..)\<close> on the last step, if there is one.\<close>

definition end_last :: "u32 \<Rightarrow> power_step list \<Rightarrow> power_step list" where
  "end_last e steps = steps[length steps - 1 := (last steps)\<lparr>st_end := Some e\<rparr>]"

text \<open>The loops of \<open>schedule_steps\<close> and \<open>profile_steps\<close>; the number is the index of the next entry.\<close>

fun schedule_loop :: "nat \<Rightarrow> p_max_entry list \<Rightarrow> power_step list \<Rightarrow> profile_error + power_step list" where
  "schedule_loop i [] steps = Inr steps"
| "schedule_loop i (entry # entries) steps =
     (case pe_choice entry of
        TimeInterval \<Rightarrow> Inl (ScheduleNotRelative i)
      | RelativeTimeInterval interval \<Rightarrow>
          ebind (power_mw (pe_p_max entry)) (\<lambda>power.
          if steps \<noteq> [] \<and> ri_start interval \<le> st_start (last steps) then Inl (ScheduleOutOfOrder i)
          else schedule_loop (Suc i) entries
            (end_last (ri_start interval) steps @ [\<lparr>st_start = ri_start interval, st_end = None, st_power = power\<rparr>])))"

definition saturating_add32 :: "u32 \<Rightarrow> u32 \<Rightarrow> u32" where
  "saturating_add32 a b = (if unat a + unat b < 2 ^ 32 then a + b else U32_MAX)"

definition last_duration :: "p_max_entry list \<Rightarrow> u32 option" where
  "last_duration entries =
     (if entries = [] then None
      else case pe_choice (last entries) of RelativeTimeInterval interval \<Rightarrow> ri_duration interval | TimeInterval \<Rightarrow> None)"

definition schedule_steps :: "'x sa_schedule_tuple \<Rightarrow> profile_error + power_step list" where
  "schedule_steps tuple =
     (let entries = sat_p_max_schedule tuple in
      ebind (schedule_loop 0 entries []) (\<lambda>steps.
      Inr (if steps = [] then steps
           else case last_duration entries of
             Some duration \<Rightarrow> end_last (saturating_add32 (st_start (last steps)) duration) steps
           | None \<Rightarrow> steps)))"

fun profile_loop :: "nat \<Rightarrow> profile_entry list \<Rightarrow> power_step list \<Rightarrow> profile_error + power_step list" where
  "profile_loop i [] steps = Inr steps"
| "profile_loop i (entry # entries) steps =
     ebind (power_mw (cpe_max_power entry)) (\<lambda>power.
     if steps \<noteq> [] \<and> cpe_start entry \<le> st_start (last steps) then Inl (ProfileOutOfOrder i)
     else profile_loop (Suc i) entries
       (end_last (cpe_start entry) steps @ [\<lparr>st_start = cpe_start entry, st_end = None, st_power = power\<rparr>]))"

definition profile_steps :: "profile_entry list \<Rightarrow> profile_error + power_step list" where
  "profile_steps profile = profile_loop 0 profile []"

definition active_at :: "u32 \<Rightarrow> power_step \<Rightarrow> bool" where
  "active_at t s \<longleftrightarrow> st_start s \<le> t \<and> (case st_end s of None \<Rightarrow> True | Some e \<Rightarrow> t < e)"

definition power_at :: "power_step list \<Rightarrow> u32 \<Rightarrow> int option" where
  "power_at steps t = map_option st_power (List.find (active_at t) steps)"

definition pmax_at :: "'x sa_schedule_tuple \<Rightarrow> u32 \<Rightarrow> profile_error + int option" where
  "pmax_at tuple t = ebind (schedule_steps tuple) (\<lambda>steps. Inr (power_at steps t))"

definition coverage :: "'x sa_schedule_tuple \<Rightarrow> u32 option" where
  "coverage tuple =
     (case schedule_steps tuple of
        Inl _ \<Rightarrow> None
      | Inr steps \<Rightarrow> if steps = [] then None else st_end (last steps))"

text \<open>The two nested loops of \<open>check_profile\<close>.\<close>

fun check_want :: "power_step \<Rightarrow> power_step list \<Rightarrow> profile_error + unit" where
  "check_want want [] = Inr ()"
| "check_want want (limit # limits) =
     (if overlaps want limit \<and> st_power want > st_power limit
      then Inl (ExceedsPMax (overlap_start want limit) (st_power want) (st_power limit))
      else check_want want limits)"

fun check_wants :: "power_step list \<Rightarrow> power_step list \<Rightarrow> profile_error + unit" where
  "check_wants [] limits = Inr ()"
| "check_wants (want # wants) limits = ebind (check_want want limits) (\<lambda>_. check_wants wants limits)"

definition check_profile :: "'x sa_schedule_tuple \<Rightarrow> profile_entry list \<Rightarrow> profile_error + unit" where
  "check_profile tuple profile =
     ebind (schedule_steps tuple) (\<lambda>limits. ebind (profile_steps profile) (\<lambda>wanted. check_wants wanted limits))"

definition check_power_delivery :: "'x sa_schedule_tuple list \<Rightarrow> 'y power_delivery_req \<Rightarrow> profile_error + unit" where
  "check_power_delivery offered req =
     (case List.find (\<lambda>t. sat_id t = pd_sa_schedule_tuple_id req) offered of
        None \<Rightarrow> Inl (UnknownScheduleTuple (pd_sa_schedule_tuple_id req))
      | Some tuple \<Rightarrow>
        (case pd_charging_profile req of
           None \<Rightarrow> Inr ()
         | Some profile \<Rightarrow> check_profile tuple profile))"

section \<open>Timelines\<close>

text \<open>Consecutive steps: each ends where the next begins.\<close>

fun timeline :: "power_step list \<Rightarrow> bool" where
  "timeline [] = True"
| "timeline [s] = True"
| "timeline (s # u # ss) \<longleftrightarrow> st_start s < st_start u \<and> st_end s = Some (st_start u) \<and> timeline (u # ss)"

lemma end_last_simps [simp]:
  "end_last e [] = []"
  "end_last e [s] = [s\<lparr>st_end := Some e\<rparr>]"
  "end_last e (s # u # ss) = s # end_last e (u # ss)"
  by (simp_all add: end_last_def)

lemma end_last_Nil [simp]: "end_last e steps = [] \<longleftrightarrow> steps = []"
  by (simp add: end_last_def)

lemma end_last_Cons: "\<exists>s' ss'. end_last e (s # ss) = s' # ss' \<and> st_start s' = st_start s"
  by (cases ss) simp_all

lemma last_end_last: "steps \<noteq> [] \<Longrightarrow> last (end_last e steps) = (last steps)\<lparr>st_end := Some e\<rparr>"
  by (induction steps rule: timeline.induct) simp_all

lemma timeline_end_last [simp]: "timeline (end_last e steps) = timeline steps"
proof (induction steps rule: timeline.induct)
  case (3 s u ss)
  then show ?case using end_last_Cons [of e u ss] by auto
qed simp_all

lemma timeline_snoc:
  "timeline steps \<Longrightarrow> steps = [] \<or> st_start (last steps) < st_start n \<Longrightarrow> timeline (end_last (st_start n) steps @ [n])"
proof (induction steps rule: timeline.induct)
  case (3 s u ss)
  then show ?case using end_last_Cons [of "st_start n" u ss] by auto
qed simp_all

lemma timeline_step [simp]:
  "timeline steps \<Longrightarrow> steps = [] \<or> st_start (last steps) < a \<Longrightarrow>
     timeline (end_last a steps @ [\<lparr>st_start = a, st_end = e, st_power = q\<rparr>])"
  using timeline_snoc [of steps "\<lparr>st_start = a, st_end = e, st_power = q\<rparr>"] by simp

lemma schedule_loop_timeline:
  "schedule_loop i entries steps = Inr out \<Longrightarrow> timeline steps \<Longrightarrow> steps = [] \<or> st_end (last steps) = None \<Longrightarrow>
     timeline out \<and> (out = [] \<or> st_end (last out) = None)"
proof (induction i entries steps rule: schedule_loop.induct)
  case (2 i entry entries steps)
  then show ?case
    by (auto simp: ebind_eq_Inr not_le split: p_max_choice.splits if_splits)
qed simp

lemma profile_loop_timeline:
  "profile_loop i entries steps = Inr out \<Longrightarrow> timeline steps \<Longrightarrow> steps = [] \<or> st_end (last steps) = None \<Longrightarrow>
     timeline out \<and> (out = [] \<or> st_end (last out) = None)"
proof (induction i entries steps rule: profile_loop.induct)
  case (2 i entry entries steps)
  then show ?case
    by (auto simp: ebind_eq_Inr not_le split: if_splits)
qed simp

lemma timeline_before:
  "timeline (s # ss) \<Longrightarrow> u \<in> set ss \<Longrightarrow> \<exists>e. st_end s = Some e \<and> st_start s < e \<and> e \<le> st_start u"
proof (induction ss arbitrary: s)
  case (Cons v ss)
  then show ?case by (cases "u = v") (fastforce dest: order.strict_trans)+
qed simp

lemma timeline_tl: "timeline (s # ss) \<Longrightarrow> timeline ss"
  by (cases ss) simp_all


text \<open>A later step is active only after an earlier one has ended.\<close>

lemma timeline_apart:
  assumes "timeline (xs @ s # ss)" and "u \<in> set ss" and "active_at a s" and "active_at b u"
  shows "a < b"
proof -
  have "timeline (s # ss)"
    using assms(1) by (induction xs) (auto dest: timeline_tl)
  from timeline_before [OF this assms(2)] assms(3,4) show ?thesis
    by (auto simp: active_at_def)
qed

lemma find_active:
  "timeline steps \<Longrightarrow> s \<in> set steps \<Longrightarrow> active_at t s \<Longrightarrow> List.find (active_at t) steps = Some s"
proof (induction steps)
  case (Cons u us)
  then show ?case using timeline_apart [of "[]" u us s t t] by (auto dest: timeline_tl)
qed simp

lemma power_at_iff:
  assumes "timeline steps"
  shows "power_at steps t = Some p \<longleftrightarrow> (\<exists>s \<in> set steps. active_at t s \<and> st_power s = p)"
  using find_active [OF assms] by (fastforce simp: power_at_def find_Some_iff)

text \<open>Overlapping intervals share an instant, the later of their starts being the first, unless one is empty.\<close>

definition proper_step :: "power_step \<Rightarrow> bool" where
  "proper_step s \<longleftrightarrow> (\<forall>e. st_end s = Some e \<longrightarrow> st_start s < e \<or> st_start s = U32_MAX)"

lemma U32_MAX_ge [simp]: "t \<le> U32_MAX" "\<not> U32_MAX < t"
proof -
  have max: "U32_MAX = - 1" by (simp add: U32_MAX_def)
  show "t \<le> U32_MAX" by (simp add: max)
  then show "\<not> U32_MAX < t" by (simp add: not_less)
qed

lemma overlaps_active:
  "t < U32_MAX \<Longrightarrow> active_at t s \<Longrightarrow> active_at t u \<Longrightarrow> overlaps s u \<and> overlap_start s u \<le> t"
  by (auto simp: overlaps_def overlap_start_def step_end_def active_at_def split: option.splits)

lemma overlaps_proper:
  assumes "overlaps s u" and "proper_step s" and "proper_step u"
  shows "overlap_start s u < U32_MAX" and "active_at (overlap_start s u) s" and "active_at (overlap_start s u) u"
  using assms
  by (auto simp: overlaps_def overlap_start_def step_end_def active_at_def proper_step_def not_less split: option.splits)
    (metis U32_MAX_ge order.strict_trans2 order.strict_trans1 not_less)+

lemma saturating_add32_proper: "d \<noteq> 0 \<Longrightarrow> a < saturating_add32 a d \<or> a = U32_MAX"
  using U32_MAX_ge(1) [of a]
  by (auto simp: saturating_add32_def order.order_iff_strict)
    (simp add: word_less_nat_alt unat_word_ariths unat_gt_0)

lemma timeline_proper:
  "timeline steps \<Longrightarrow> steps = [] \<or> proper_step (last steps) \<Longrightarrow> s \<in> set steps \<Longrightarrow> proper_step s"
proof (induction steps rule: timeline.induct)
  case (3 s u ss)
  then show ?case by (auto simp: proper_step_def)
qed auto

lemma profile_steps_timeline:
  assumes "profile_steps profile = Inr wanted"
  shows "timeline wanted" and "w \<in> set wanted \<Longrightarrow> proper_step w"
proof -
  note out = profile_loop_timeline [OF assms [unfolded profile_steps_def]]
  show line: "timeline wanted" using out by simp
  have "wanted = [] \<or> proper_step (last wanted)" using out by (auto simp: proper_step_def)
  then show "w \<in> set wanted \<Longrightarrow> proper_step w" using timeline_proper [OF line] by blast
qed

lemma schedule_steps_timeline:
  assumes "schedule_steps tuple = Inr limits"
  shows "timeline limits"
  using assms schedule_loop_timeline [of 0 "sat_p_max_schedule tuple" "[]"]
  by (auto simp: schedule_steps_def Let_def ebind_eq_Inr split: option.splits if_splits)

lemma schedule_steps_proper:
  assumes "schedule_steps tuple = Inr limits" and "last_duration (sat_p_max_schedule tuple) \<noteq> Some 0" and "l \<in> set limits"
  shows "proper_step l"
proof -
  obtain steps where steps: "schedule_loop 0 (sat_p_max_schedule tuple) [] = Inr steps"
    using assms(1) by (auto simp: schedule_steps_def Let_def ebind_eq_Inr)
  have "limits = [] \<or> proper_step (last limits)"
    using assms(1,2) schedule_loop_timeline [OF steps] steps
    by (auto simp: schedule_steps_def last_end_last proper_step_def dest: saturating_add32_proper [of _ "st_start (last steps)"]
        split: option.splits if_splits)
  then show ?thesis
    using schedule_steps_timeline [OF assms(1)] assms(3) by (blast intro: timeline_proper)
qed

section \<open>The check, instant by instant\<close>

definition exceeds :: "power_step \<Rightarrow> power_step \<Rightarrow> bool" where
  "exceeds want limit \<longleftrightarrow> overlaps want limit \<and> st_power want > st_power limit"

definition exceeds_at :: "power_step list \<Rightarrow> power_step list \<Rightarrow> u32 \<Rightarrow> bool" where
  "exceeds_at wanted limits t \<longleftrightarrow>
     (\<exists>q p. power_at wanted t = Some q \<and> power_at limits t = Some p \<and> p < q)"

lemma check_wants_ok:
  "check_wants wanted limits = Inr () \<longleftrightarrow> (\<forall>w \<in> set wanted. \<forall>l \<in> set limits. \<not> exceeds w l)"
proof (induction wanted)
  case (Cons w wanted)
  have "check_want w limits = Inr () \<longleftrightarrow> (\<forall>l \<in> set limits. \<not> exceeds w l)"
    by (induction limits) (simp_all add: exceeds_def)
  with Cons show ?case by (simp add: ebind_eq_Inr)
qed simp

lemma check_want_error:
  "check_want w limits = Inl e \<Longrightarrow>
     \<exists>ls l ls'. limits = ls @ l # ls' \<and> exceeds w l \<and> (\<forall>x \<in> set ls. \<not> exceeds w x)
       \<and> e = ExceedsPMax (overlap_start w l) (st_power w) (st_power l)"
proof (induction limits)
  case (Cons l limits)
  show ?case
  proof (cases "exceeds w l")
    case True
    with Cons.prems show ?thesis by (intro exI [of _ "[]"]) (auto simp: exceeds_def)
  next
    case False
    with Cons obtain ls l' ls' where "limits = ls @ l' # ls'" "exceeds w l'" "\<forall>x \<in> set ls. \<not> exceeds w x"
      "e = ExceedsPMax (overlap_start w l') (st_power w) (st_power l')"
      by (auto simp: exceeds_def split: if_splits)
    with False show ?thesis by (intro exI [of _ "l # ls"]) auto
  qed
qed simp

lemma check_wants_error:
  "check_wants wanted limits = Inl e \<Longrightarrow>
     \<exists>ws w ws' ls l ls'. wanted = ws @ w # ws' \<and> limits = ls @ l # ls' \<and> exceeds w l
       \<and> (\<forall>x \<in> set ws. \<forall>y \<in> set limits. \<not> exceeds x y) \<and> (\<forall>y \<in> set ls. \<not> exceeds w y)
       \<and> e = ExceedsPMax (overlap_start w l) (st_power w) (st_power l)"
proof (induction wanted)
  case (Cons w wanted)
  show ?case
  proof (cases "check_want w limits")
    case (Inl e')
    with Cons.prems have "check_want w limits = Inl e" by simp
    from check_want_error [OF this] show ?thesis
      by (rule_tac exI [of _ "[]"], rule_tac exI [of _ w], rule_tac exI [of _ wanted]) simp
  next
    case (Inr u)
    then have "check_wants [w] limits = Inr ()" by simp
    then have "\<forall>y \<in> set limits. \<not> exceeds w y" by (simp only: check_wants_ok) simp
    moreover from Cons Inr obtain ws v ws' ls l ls' where "wanted = ws @ v # ws'" "limits = ls @ l # ls'" "exceeds v l"
      "\<forall>x \<in> set ws. \<forall>y \<in> set limits. \<not> exceeds x y" "\<forall>y \<in> set ls. \<not> exceeds v y"
      "e = ExceedsPMax (overlap_start v l) (st_power v) (st_power l)"
      by auto
    ultimately show ?thesis
      by (rule_tac exI [of _ "w # ws"], rule_tac exI [of _ v], rule_tac exI [of _ ws'], rule_tac exI [of _ ls],
          rule_tac exI [of _ l], rule_tac exI [of _ ls']) simp
  qed
qed simp

lemma exceeds_at_iff:
  "timeline wanted \<Longrightarrow> timeline limits \<Longrightarrow> t < U32_MAX \<Longrightarrow>
   exceeds_at wanted limits t \<longleftrightarrow>
     (\<exists>w \<in> set wanted. \<exists>l \<in> set limits. active_at t w \<and> active_at t l \<and> exceeds w l)"
  by (auto simp: exceeds_at_def power_at_iff exceeds_def dest: overlaps_active)

lemma exceeds_atI:
  "timeline wanted \<Longrightarrow> timeline limits \<Longrightarrow> w \<in> set wanted \<Longrightarrow> l \<in> set limits \<Longrightarrow> proper_step w \<Longrightarrow> proper_step l \<Longrightarrow>
   exceeds w l \<Longrightarrow> overlap_start w l < U32_MAX \<and> exceeds_at wanted limits (overlap_start w l)
     \<and> power_at wanted (overlap_start w l) = Some (st_power w) \<and> power_at limits (overlap_start w l) = Some (st_power l)"
  using overlaps_proper [of w l] by (auto simp: exceeds_at_iff exceeds_def power_at_iff)

lemma check_wants_exact:
  assumes "timeline wanted" and "timeline limits"
    and "\<And>w. w \<in> set wanted \<Longrightarrow> proper_step w" and "\<And>l. l \<in> set limits \<Longrightarrow> proper_step l"
  shows "check_wants wanted limits = Inr () \<longleftrightarrow> (\<forall>t < U32_MAX. \<not> exceeds_at wanted limits t)"
  unfolding check_wants_ok
  using exceeds_atI [OF assms(1,2)] assms(3,4) exceeds_at_iff [OF assms(1,2)] by blast

text \<open>What the error names is the first instant at which the profile exceeds the schedule, with both powers there.\<close>

lemma check_wants_first:
  assumes "timeline wanted" and "timeline limits"
    and "\<And>w. w \<in> set wanted \<Longrightarrow> proper_step w" and "\<And>l. l \<in> set limits \<Longrightarrow> proper_step l"
    and "check_wants wanted limits = Inl e"
  obtains t q p where "e = ExceedsPMax t q p" and "t < U32_MAX" and "power_at wanted t = Some q"
    and "power_at limits t = Some p" and "p < q" and "\<And>t'. t' < t \<Longrightarrow> \<not> exceeds_at wanted limits t'"
proof -
  from check_wants_error [OF assms(5)] obtain ws w ws' ls l ls' where
    split: "wanted = ws @ w # ws'" "limits = ls @ l # ls'" and bad: "exceeds w l"
    and before: "\<forall>x \<in> set ws. \<forall>y \<in> set limits. \<not> exceeds x y" "\<forall>y \<in> set ls. \<not> exceeds w y"
    and e: "e = ExceedsPMax (overlap_start w l) (st_power w) (st_power l)"
    by blast
  have w: "w \<in> set wanted" "l \<in> set limits" using split by simp_all
  note at = exceeds_atI [OF assms(1,2) w assms(3) [OF w(1)] assms(4) [OF w(2)] bad]
  note active = overlaps_proper [OF _ assms(3) [OF w(1)] assms(4) [OF w(2)]]
  have "\<not> exceeds_at wanted limits t'" if t': "t' < overlap_start w l" for t'
  proof
    assume "exceeds_at wanted limits t'"
    moreover have "t' < U32_MAX" using t' at by (meson order.strict_trans)
    ultimately obtain w' l' where w': "w' \<in> set wanted" "l' \<in> set limits" "active_at t' w'" "active_at t' l'" "exceeds w' l'"
      using exceeds_at_iff [OF assms(1,2)] by blast
    have "w' \<notin> set ws'"
      using timeline_apart [of ws w ws' w' "overlap_start w l" t'] assms(1) split active bad w'(3) t'
      by (auto simp: exceeds_def)
    then have [simp]: "w' = w" using w' before split by auto
    have "l' \<notin> set ls'"
      using timeline_apart [of ls l ls' l' "overlap_start w l" t'] assms(2) split active bad w'(4) t'
      by (auto simp: exceeds_def)
    then have "l' = l" using w' before split by auto
    then show False using w'(3,4) t' overlaps_active [OF \<open>t' < U32_MAX\<close>, of w l] by auto
  qed
  then show thesis using that [OF e] at bad by (auto simp: exceeds_def)
qed

text \<open>A power never leaves the 64 bits it is kept in.\<close>

lemma power_mw_bounded:
  assumes "power_mw v = Inr p"
  shows "- (2 ^ 15 * 10 ^ 6) \<le> p \<and> p < 2 ^ 15 * 10 ^ 6"
proof -
  define k where "k = nat (sint (pv_multiplier v) + 3)"
  have k: "k \<le> 6" and p: "p = sint (pv_value v) * 10 ^ k"
    using assms by (auto simp: power_mw_def Let_def k_def split: if_splits)
  have v: "- (2 ^ 15) \<le> sint (pv_value v)" "sint (pv_value v) < 2 ^ 15"
    using sint_greater_eq [of "pv_value v"] sint_less [of "pv_value v"] by simp_all
  have ten: "(10::int) ^ k \<le> 10 ^ 6" using k by (rule power_increasing) simp
  have "- (2 ^ 15) * 10 ^ k \<le> p" unfolding p using v(1) by (rule mult_right_mono) simp
  moreover have "p < 2 ^ 15 * 10 ^ k" unfolding p using v(2) by (rule mult_strict_right_mono) simp
  ultimately show ?thesis using ten by auto
qed

section \<open>The edges\<close>

text \<open>
  All steps but the last are proper, and the last one is too unless its duration is declared to be zero; then it is
  empty, active at no instant, and still overlaps every step that spans its start.
\<close>

lemma timeline_proper_or_last: "timeline steps \<Longrightarrow> s \<in> set steps \<Longrightarrow> proper_step s \<or> s = last steps"
  by (induction steps rule: timeline.induct) (auto simp: proper_step_def)

lemma schedule_steps_last:
  assumes "schedule_steps tuple = Inr limits"
  shows "limits = [] \<longleftrightarrow> sat_p_max_schedule tuple = []"
    and "limits \<noteq> [] \<Longrightarrow> st_end (last limits) =
      map_option (saturating_add32 (st_start (last limits))) (last_duration (sat_p_max_schedule tuple))"
proof -
  obtain steps where steps: "schedule_loop 0 (sat_p_max_schedule tuple) [] = Inr steps"
    using assms by (auto simp: schedule_steps_def Let_def ebind_eq_Inr)
  have grow: "schedule_loop i entries xs = Inr ys \<Longrightarrow> ys = [] \<longleftrightarrow> xs = [] \<and> entries = []" for i entries xs ys
    by (induction i entries xs rule: schedule_loop.induct) (auto simp: ebind_eq_Inr split: p_max_choice.splits if_splits)
  from grow [OF steps] assms steps show "limits = [] \<longleftrightarrow> sat_p_max_schedule tuple = []"
    by (auto simp: schedule_steps_def split: option.splits if_splits)
  show "st_end (last limits) = map_option (saturating_add32 (st_start (last limits))) (last_duration (sat_p_max_schedule tuple))"
    if "limits \<noteq> []"
    using assms schedule_loop_timeline [OF steps] steps that
    by (auto simp: schedule_steps_def last_end_last split: option.splits if_splits)
qed

lemma saturating_add32_0 [simp]: "saturating_add32 a 0 = a"
proof -
  have "unat a < 2 ^ LENGTH(32)" by (rule unsigned_less)
  then show ?thesis by (simp add: saturating_add32_def)
qed

lemma empty_last:
  assumes "schedule_steps tuple = Inr limits" and "last_duration (sat_p_max_schedule tuple) = Some 0"
  shows "limits \<noteq> []" and "st_end (last limits) = Some (st_start (last limits))" and "\<not> active_at t (last limits)"
proof -
  have "sat_p_max_schedule tuple \<noteq> []" using assms(2) by (auto simp: last_duration_def)
  then show ne: "limits \<noteq> []" using schedule_steps_last(1) [OF assms(1)] by simp
  show "st_end (last limits) = Some (st_start (last limits))" using schedule_steps_last(2) [OF assms(1) ne] assms(2) by simp
  then show "\<not> active_at t (last limits)" by (auto simp: active_at_def)
qed


text \<open>The step is active right before \<open>t\<close> and at it.\<close>

definition spans :: "power_step \<Rightarrow> u32 \<Rightarrow> bool" where
  "spans w t \<longleftrightarrow> st_start w < t \<and> t < step_end w"

lemma exceeds_empty:
  assumes "schedule_steps tuple = Inr limits" and "last_duration (sat_p_max_schedule tuple) = Some 0"
  shows "exceeds w (last limits) \<longleftrightarrow> spans w (st_start (last limits)) \<and> st_power w > st_power (last limits)"
  using empty_last(2) [OF assms] by (auto simp: exceeds_def overlaps_def spans_def step_end_def)

lemma check_wants_all:
  assumes "schedule_steps tuple = Inr limits" and "profile_steps profile = Inr wanted"
  shows "check_wants wanted limits = Inr () \<longleftrightarrow> (\<forall>t < U32_MAX. \<not> exceeds_at wanted limits t)
    \<and> (last_duration (sat_p_max_schedule tuple) = Some 0 \<longrightarrow> (\<forall>w \<in> set wanted. \<not> exceeds w (last limits)))"
proof -
  note w = profile_steps_timeline [OF assms(2)] and l = schedule_steps_timeline [OF assms(1)]
  have bad: "(\<exists>t < U32_MAX. exceeds_at wanted limits t)
      \<or> last_duration (sat_p_max_schedule tuple) = Some 0 \<and> y = last limits"
    if "x \<in> set wanted" "y \<in> set limits" "exceeds x y" for x y
  proof (cases "proper_step y")
    case True
    then show ?thesis using exceeds_atI [OF w(1) l that(1,2) w(2) [OF that(1)] _ that(3)] by blast
  next
    case False
    then show ?thesis using timeline_proper_or_last [OF l that(2)] schedule_steps_proper [OF assms(1) _ that(2)] by blast
  qed
  moreover have "last_duration (sat_p_max_schedule tuple) = Some 0 \<Longrightarrow> last limits \<in> set limits"
    using empty_last(1) [OF assms(1)] by simp
  ultimately show ?thesis unfolding check_wants_ok
    using exceeds_at_iff [OF w(1) l] by blast
qed








section \<open>Properties\<close>

text \<open>
  C18. The check of a charging profile, exactly. A schedule that cannot be read, and else a profile that cannot, is
  answered with the error of reading it. Otherwise \<open>check_profile\<close> accepts just when at no instant below the largest
  one the profile asks for more than the limit \<open>pmax_at\<close> reports there and, if the last interval of the schedule is
  declared to last zero seconds, no entry that spans its start asks for more than its \<open>PMax\<close>. Where that interval is
  not declared empty a refusal names the first instant at which the profile exceeds the schedule, with the power
  requested and the power permitted at it.
\<close>

theorem profile_check_exact:
  "case schedule_steps tuple of Inl e \<Rightarrow> check_profile tuple profile = Inl e
   | Inr limits \<Rightarrow> (case profile_steps profile of Inl e \<Rightarrow> check_profile tuple profile = Inl e
     | Inr wanted \<Rightarrow>
        (check_profile tuple profile = Inr () \<longleftrightarrow> (\<forall>t < U32_MAX. \<not> exceeds_at wanted limits t)
          \<and> (last_duration (sat_p_max_schedule tuple) = Some 0 \<longrightarrow>
              (\<forall>w \<in> set wanted. spans w (st_start (last limits)) \<longrightarrow> st_power w \<le> st_power (last limits))))
        \<and> (\<forall>e. check_profile tuple profile = Inl e \<and> last_duration (sat_p_max_schedule tuple) \<noteq> Some 0 \<longrightarrow>
             (\<exists>t q p. e = ExceedsPMax t q p \<and> t < U32_MAX \<and> power_at wanted t = Some q \<and> pmax_at tuple t = Inr (Some p)
                \<and> p < q \<and> (\<forall>t' < t. \<not> exceeds_at wanted limits t'))))"
proof (cases "schedule_steps tuple")
  case limits: (Inr limits)
  show ?thesis
  proof (cases "profile_steps profile")
    case wanted: (Inr wanted)
    have check: "check_profile tuple profile = check_wants wanted limits" by (simp add: check_profile_def limits wanted)
    have "check_profile tuple profile = Inr () \<longleftrightarrow> (\<forall>t < U32_MAX. \<not> exceeds_at wanted limits t)
        \<and> (last_duration (sat_p_max_schedule tuple) = Some 0 \<longrightarrow>
            (\<forall>w \<in> set wanted. spans w (st_start (last limits)) \<longrightarrow> st_power w \<le> st_power (last limits)))"
      unfolding check check_wants_all [OF limits wanted] using exceeds_empty [OF limits] by (auto simp: not_less)
    moreover have "\<exists>t q p. e = ExceedsPMax t q p \<and> t < U32_MAX \<and> power_at wanted t = Some q \<and> pmax_at tuple t = Inr (Some p)
        \<and> p < q \<and> (\<forall>t' < t. \<not> exceeds_at wanted limits t')"
      if "check_profile tuple profile = Inl e" "last_duration (sat_p_max_schedule tuple) \<noteq> Some 0" for e
    proof -
      note laws = profile_steps_timeline(1) [OF wanted] schedule_steps_timeline [OF limits]
        profile_steps_timeline(2) [OF wanted] schedule_steps_proper [OF limits that(2)]
      have "check_wants wanted limits = Inl e" using that(1) by (simp add: check)
      from check_wants_first [OF laws this] show ?thesis by (simp add: pmax_at_def limits) metis
    qed
    ultimately show ?thesis using limits wanted by simp
  qed (simp add: limits check_profile_def)
qed (simp add: check_profile_def)

definition watts :: "16 word \<Rightarrow> physical_value" where
  "watts w = \<lparr>pv_multiplier = 0, pv_unit = Unit_W, pv_value = w\<rparr>"

definition sample_tuple :: "u32 option \<Rightarrow> nat sa_schedule_tuple" where
  "sample_tuple d = \<lparr>sat_id = 1, sat_p_max_schedule =
     [\<lparr>pe_choice = RelativeTimeInterval \<lparr>ri_start = 0, ri_duration = None\<rparr>, pe_p_max = watts 11000\<rparr>,
      \<lparr>pe_choice = RelativeTimeInterval \<lparr>ri_start = 3600, ri_duration = d\<rparr>, pe_p_max = watts 3700\<rparr>],
     sat_sales_tariff = None\<rparr>"

definition sample_profile :: "profile_entry list" where
  "sample_profile = [\<lparr>cpe_start = 60, cpe_max_power = watts 7400, cpe_max_phases = None\<rparr>]"

definition sample_limits :: "u32 \<Rightarrow> power_step list" where
  "sample_limits e = [\<lparr>st_start = 0, st_end = Some 3600, st_power = 11000000\<rparr>,
     \<lparr>st_start = 3600, st_end = Some e, st_power = 3700000\<rparr>]"

definition sample_wanted :: "power_step list" where
  "sample_wanted = [\<lparr>st_start = 60, st_end = None, st_power = 7400000\<rparr>]"

lemma sample_steps:
  "schedule_steps (sample_tuple (Some 1800)) = Inr (sample_limits 5400)"
  "schedule_steps (sample_tuple (Some 0)) = Inr (sample_limits 3600)"
  "profile_steps sample_profile = Inr sample_wanted"
  by code_simp+

theorem profile_check_exact_witness:
  "check_profile (sample_tuple (Some 1800)) sample_profile = Inl (ExceedsPMax 3600 7400000 3700000)
   \<and> \<not> (\<forall>t < U32_MAX. \<not> exceeds_at sample_wanted (sample_limits 5400) t)"
proof -
  have duration: "last_duration (sat_p_max_schedule (sample_tuple (Some 1800))) \<noteq> Some 0"
    and check: "check_profile (sample_tuple (Some 1800)) sample_profile = Inl (ExceedsPMax 3600 7400000 3700000)"
    by code_simp+
  with profile_check_exact [of "sample_tuple (Some 1800)" sample_profile] show ?thesis by (simp add: sample_steps)
qed



end
