(* ===== verification/Exi_Roundtrip.thy ===== *)
theory Exi_Roundtrip
  imports Exi_Codec
begin

text \<open>
  The decoder follows the encoder: the proofs behind the document round trip. \<open>item_code\<close> gives the
  bits of one operation, which for a string depend on the encoder's table; \<open>synced\<close> relates an
  encoder to the decoder that has read everything it wrote.
\<close>

section \<open>Operations that only touch the bit stream\<close>

definition advance :: "nat \<Rightarrow> decoder \<Rightarrow> decoder" where
  "advance n d = d\<lparr>d_bits := (d_bits d)\<lparr>r_pos := r_pos (d_bits d) + n\<rparr>\<rparr>"

lemma advance_simps [simp]:
  "d_values (advance n d) = d_values d"
  "d_depth (advance n d) = d_depth d"
  "r_pos (d_bits (advance n d)) = r_pos (d_bits d) + n"
  "unread (d_bits (advance n d)) = drop n (unread (d_bits d))"
  "advance n (advance m d) = advance (m + n) d"
  by (simp_all add: advance_def unread_advance add.assoc)

lemma advance_wf: "wf_reader (d_bits d) \<Longrightarrow> unread (d_bits d) = bs @ rest \<Longrightarrow> wf_reader (d_bits (advance (length bs) d))"
  by (simp add: advance_def wf_advance)

lemma on_writer_done:
  assumes "emits f bs" and "wf_writer (e_bits e)" and "on_writer f e = Inr e'"
  shows "e' = e\<lparr>e_bits := e_bits e'\<rparr> \<and> wf_writer (e_bits e') \<and> w_pos (e_bits e') = w_pos (e_bits e) + length bs
     \<and> written (e_bits e') = written (e_bits e) @ bs"
  using assms(3) emits_done [OF assms(1,2)] by (auto simp: on_writer_def ebind_eq_Inr)

lemma on_writer_bind:
  "ebind (on_writer f e) (\<lambda>e. ebind (on_writer g e) k) = ebind (on_writer (\<lambda>w. ebind (f w) g) e) k"
  "ebind (on_writer f e) (\<lambda>e. on_writer g e) = on_writer (\<lambda>w. ebind (f w) g) e"
  by (cases "f (e_bits e)"; simp add: on_writer_def ebind_assoc)+

lemma on_reader_at:
  "parses g bs v \<Longrightarrow> wf_reader (d_bits d) \<Longrightarrow> unread (d_bits d) = bs @ rest \<Longrightarrow>
     on_reader g d = Inr (v, advance (length bs) d)"
  by (simp add: on_reader_def advance_def parsesD)

lemma on_reader_map:
  "ebind (on_reader g d) (\<lambda>(v, d). Inr (h v, d)) = on_reader (\<lambda>r. ebind (g r) (\<lambda>(v, r). Inr (h v, r))) d"
  by (cases "g (d_bits d)") (auto simp: on_reader_def)

lemma on_reader_guard:
  "ebind (on_reader g d) (\<lambda>(v, d). ebind (k v) (\<lambda>u. Inr (h v u, d))) =
     on_reader (\<lambda>r. ebind (g r) (\<lambda>(v, r). ebind (k v) (\<lambda>u. Inr (h v u, r)))) d"
proof (cases "g (d_bits d)")
  case (Inr p)
  obtain v r where "p = (v, r)" by fastforce
  then show ?thesis using Inr by (cases "k v") (simp_all add: on_reader_def)
qed (simp add: on_reader_def)

text \<open>The bits of one operation.\<close>

definition string_code :: "encoder \<Rightarrow> value_ctx \<Rightarrow> rstring \<Rightarrow> bool list" where
  "string_code e ctx s =
     (case (if e_coding e = Referenced then table_find (e_values e) ctx s else Hit_Miss) of
        Hit_Local i \<Rightarrow> uint_code 0 @ msb_bits (local_index_width (e_values e) ctx) i
      | Hit_Global i \<Rightarrow> uint_code 1 @ msb_bits (global_index_width (e_values e)) i
      | Hit_Miss \<Rightarrow> uint_code (of_nat (length s) + 2) @ chars_code s)"

fun item_code :: "encoder \<Rightarrow> exi_item \<Rightarrow> bool list" where
  "item_code e (I_Event c w) = msb_bits w c"
| "item_code e (I_Uint v) = uint_code v"
| "item_code e (I_Int v) = int_code v"
| "item_code e (I_Nbit v n) = msb_bits n v"
| "item_code e (I_Boolean b) = [b]"
| "item_code e (I_Restricted v mn mx) = msb_bits (restricted_width (of_int (mx - mn))) (of_int (v - mn))"
| "item_code e (I_Binary bs lens) = binary_code bs"
| "item_code e (I_Decimal v) = decimal_code v"
| "item_code e (I_Float v) = float_code v"
| "item_code e (I_Datetime v) = datetime_code v"
| "item_code e (I_String ctx s lens) = string_code e ctx s"
| "item_code e I_Enter = []"
| "item_code e I_Leave = []"

definition stream_item :: "encoder \<Rightarrow> exi_item \<Rightarrow> bool" where
  "stream_item e it \<longleftrightarrow> (\<exists>f g. encode_item it e = on_writer f e \<and> emits f (item_code e it)
     \<and> (\<forall>d. decode_item it d = on_reader g d) \<and> parses g (item_code e it) it)"

lemma stream_itemI:
  assumes "encode_item it e = on_writer f e" and "emits f (item_code e it)"
    and "\<And>d. decode_item it d = ebind (on_reader g d) (\<lambda>(v, d). Inr (h v, d))"
    and "parses g (item_code e it) v" and "h v = it"
  shows "stream_item e it"
proof -
  have "parses (\<lambda>r. ebind (g r) (\<lambda>(v, r). Inr (h v, r))) (item_code e it) it"
    using assms(4) by (rule parses_map) (rule assms(5))
  moreover have "decode_item it d = on_reader (\<lambda>r. ebind (g r) (\<lambda>(v, r). Inr (h v, r))) d" for d
    by (simp only: assms(3) on_reader_map)
  ultimately show ?thesis using assms(1,2) unfolding stream_item_def by blast
qed

lemma restricted_stream:
  assumes "i64_range mn" and "i64_range mx" and "i64_range v" and "mn \<le> v" and "v \<le> mx"
  shows "stream_item e (I_Restricted v mn mx)"
proof -
  define span where "span = (of_int (mx - mn) :: u64)"
  define index where "index = (of_int (v - mn) :: u64)"
  have sp: "u64_try_from (mx - mn) = Some span" "unat span = nat (mx - mn)"
    using assms unat_of_int_u64 [of "mx - mn"] by (auto simp: u64_try_from_def span_def i64_range_def)
  have ix: "u64_try_from (v - mn) = Some index" "unat index = nat (v - mn)"
    using assms unat_of_int_u64 [of "v - mn"] by (auto simp: u64_try_from_def index_def i64_range_def)
  have le: "index \<le> span" using sp(2) ix(2) assms by (simp add: word_le_nat_alt)
  let ?k = "\<lambda>index. if index > span then Inl ValueOutOfRange else ok_or (checked_i64 (mn + int (unat index))) ValueOutOfRange"
  let ?g = "\<lambda>r. ebind (read_nbit_uint (restricted_width span) r) (\<lambda>(i, r). ebind (?k i) (\<lambda>v. Inr (v, r)))"
  have enc: "encode_item (I_Restricted v mn mx) e = on_writer (write_nbit_uint index (restricted_width span)) e"
    using assms by (simp add: enc_restricted_def sp ix enc_nbit_def)
  have dec: "dec_restricted mn mx d = on_reader ?g d" for d
  proof -
    have "dec_restricted mn mx d = ebind (on_reader (read_nbit_uint (restricted_width span)) d)
        (\<lambda>(i, d). ebind (?k i) (\<lambda>v. Inr (v, d)))"
      by (simp add: dec_restricted_def sp dec_nbit_def) (rule ebind_cong, auto)
    then show ?thesis by (simp only: on_reader_guard)
  qed
  have "checked_i64 (mn + int (unat index)) = Some v"
    using assms ix(2) by (simp add: checked_i64_def)
  then have "parses ?g (msb_bits (restricted_width span) index) v"
    using le by (intro parses_bindI [OF parses_read_nbit, where bs = "[]"])
      (simp_all add: restricted_width_fits leD)
  then show ?thesis
    by (intro stream_itemI [OF enc, where g = ?g and h = "\<lambda>v. I_Restricted v mn mx"])
      (simp_all add: emits_write_nbit dec span_def index_def)
qed

lemma binary_stream:
  assumes "length bs < 2 ^ 64" and "admits lens (length bs)"
  shows "stream_item e (I_Binary bs lens)"
proof -
  let ?g = "\<lambda>r. ebind (read_binary (len_max lens) r) (\<lambda>(bs, r). ebind (lengths_check lens (length bs)) (\<lambda>_. Inr (bs, r)))"
  have enc: "encode_item (I_Binary bs lens) e = on_writer (write_binary bs) e"
    using assms lengths_check_ok [of lens "length bs" "()"] by (simp add: enc_binary_def)
  have dec: "dec_binary lens d = on_reader ?g d" for d
    by (simp only: dec_binary_def on_reader_guard)
  have "parses ?g (binary_code bs) bs"
    using assms lengths_check_ok [of lens "length bs" "()"]
    by (intro parses_bindI [OF parses_read_binary, where bs = "[]"]) (simp_all add: admits_def)
  then show ?thesis
    by (intro stream_itemI [OF enc, where g = ?g and h = "\<lambda>v. I_Binary v lens"])
      (simp_all add: emits_write_binary [OF assms(1)] dec)
qed

lemma datetime_encoded_wf:
  assumes "i64_range (year dt)" and "pred_option wf_fraction (fractional_secs dt)"
    and "write_datetime dt w = Inr w'"
  shows "wf_datetime dt"
proof -
  have "\<not> bad_date dt" "\<not> bad_time dt" "i64_range (year dt - DATETIME_YEAR_OFFSET)"
    using assms(3) by (auto simp: write_datetime_def ebind_eq_Inr ok_or_eq_Inr checked_i64_def split: if_splits)
  moreover have "\<exists>w1. write_opt write_timezone (timezone_minutes dt) w1 = Inr w'"
    using assms(3) by (auto simp: write_datetime_def ebind_eq_Inr split: if_splits)
  then have "pred_option wf_timezone (timezone_minutes dt)"
    by (cases "timezone_minutes dt")
      (auto simp: write_opt_def write_timezone_def wf_timezone_def Let_def ebind_eq_Inr split: if_splits)
  ultimately show ?thesis using assms(1,2) by (simp add: wf_datetime_def)
qed

lemma stream_items:
  assumes "valid_item it" and "encode_item it e = Inr e'"
    and "it \<noteq> I_Enter" and "it \<noteq> I_Leave" and "\<And>ctx s lens. it \<noteq> I_String ctx s lens"
  shows "stream_item e it"
proof (cases it)
  case (I_Event c w)
  then show ?thesis using assms(1)
    by (intro stream_itemI [where f = "write_nbit_uint c w" and g = "read_nbit_uint w" and h = "\<lambda>v. I_Event v w"])
      (simp_all add: enc_event_def dec_event_def emits_write_nbit parses_read_nbit)
next
  case (I_Uint v)
  then show ?thesis
    by (intro stream_itemI [where f = "write_uint v" and g = read_uint and h = I_Uint])
      (simp_all add: enc_uint_def dec_uint_def emits_write_uint parses_read_uint)
next
  case (I_Int v)
  then show ?thesis using assms(1)
    by (intro stream_itemI [where f = "write_int v" and g = read_int and h = I_Int])
      (simp_all add: enc_int_def dec_int_def emits_write_int parses_read_int)
next
  case (I_Nbit v n)
  then show ?thesis using assms(1)
    by (intro stream_itemI [where f = "write_nbit_uint v n" and g = "read_nbit_uint n" and h = "\<lambda>v. I_Nbit v n"])
      (simp_all add: enc_nbit_def dec_nbit_def emits_write_nbit parses_read_nbit)
next
  case (I_Boolean b)
  then show ?thesis
    by (intro stream_itemI [where f = "write_bool b" and g = read_bool and h = I_Boolean])
      (simp_all add: enc_boolean_def dec_boolean_def emits_write_bool parses_read_bool)
next
  case (I_Restricted v mn mx)
  then show ?thesis using assms(1,2)
    by (auto simp: enc_restricted_def intro!: restricted_stream split: if_splits)
next
  case (I_Binary bs lens)
  then show ?thesis using assms(1,2)
    by (auto simp: enc_binary_def ebind_eq_Inr lengths_check_ok intro!: binary_stream)
next
  case (I_Decimal v)
  then show ?thesis using assms(1)
    by (intro stream_itemI [where f = "write_decimal v" and g = read_decimal and h = I_Decimal])
      (simp_all add: enc_decimal_def dec_decimal_def emits_write_decimal parses_read_decimal)
next
  case (I_Float v)
  then have "wf_float v" using assms(1,2)
    by (auto simp: enc_float_def on_writer_def write_float_def wf_float_def split: if_splits)
  then show ?thesis using I_Float
    by (intro stream_itemI [where f = "write_float v" and g = read_float and h = I_Float])
      (simp_all add: enc_float_def dec_float_def emits_write_float parses_read_float)
next
  case (I_Datetime v)
  then have "wf_datetime v" using assms(1,2)
    by (auto simp: enc_datetime_def on_writer_def ebind_eq_Inr intro: datetime_encoded_wf)
  then show ?thesis using I_Datetime
    by (intro stream_itemI [where f = "write_datetime v" and g = read_datetime and h = I_Datetime])
      (simp_all add: enc_datetime_def dec_datetime_def emits_write_datetime parses_read_datetime)
qed (use assms in auto)

section \<open>Strings\<close>

definition synced :: "encoder \<Rightarrow> decoder \<Rightarrow> bool" where
  "synced e d \<longleftrightarrow> table_inv (d_values d) \<and> (e_coding e = Referenced \<longrightarrow> e_values e = d_values d)
     \<and> e_depth e = d_depth d \<and> wf_reader (d_bits d) \<and> r_pos (d_bits d) = w_pos (e_bits e)"

definition table_room :: "nat \<Rightarrow> decoder \<Rightarrow> bool" where
  "table_room n d \<longleftrightarrow> length (globals (d_values d)) + n + 1 < 2 ^ 64"

text \<open>The encoder after a string: only a literal under \<open>Referenced\<close> enters the table.\<close>

definition after_string :: "value_ctx \<Rightarrow> rstring \<Rightarrow> encoder \<Rightarrow> value_table" where
  "after_string ctx s e =
     (if e_coding e = Referenced \<and> table_find (e_values e) ctx s = Hit_Miss
      then table_insert (e_values e) ctx s else e_values e)"

lemma enc_string_literal:
  assumes "wf_writer (e_bits e)" and "lengths_check lens (length s) = Inr ()"
    and "(if e_coding e = Referenced then table_find (e_values e) ctx s else Hit_Miss) = Hit_Miss"
    and "enc_string ctx s lens e = Inr e'"
  shows "wf_writer (e_bits e') \<and> w_pos (e_bits e') = w_pos (e_bits e) + length (string_code e ctx s)
     \<and> written (e_bits e') = written (e_bits e) @ string_code e ctx s
     \<and> e' = e\<lparr>e_bits := e_bits e', e_values := after_string ctx s e\<rparr>"
proof -
  let ?f = "\<lambda>w. ebind (write_uint (of_nat (length s) + 2) w) (write_chars s)"
  from assms(2,3,4) obtain e2 where 2: "on_writer ?f e = Inr e2" and
    3: "e' = (if e_coding e2 = Referenced then e2\<lparr>e_values := table_insert (e_values e2) ctx s\<rparr> else e2)"
    by (auto simp: enc_string_def enc_uint_def char_len_def on_writer_bind ebind_eq_Inr)
  note w = on_writer_done [OF emits_bind [OF emits_write_uint emits_write_chars] assms(1) 2]
  then obtain x where x: "e2 = e\<lparr>e_bits := x\<rparr>" by blast
  have code: "string_code e ctx s = uint_code (of_nat (length s) + 2) @ chars_code s"
    using assms(3) by (simp add: string_code_def)
  have bits: "e_bits e' = e_bits e2" by (simp add: 3)
  have "e' = e\<lparr>e_bits := e_bits e', e_values := after_string ctx s e\<rparr>"
    using assms(3) by (auto simp: 3 x after_string_def)
  with w bits code show ?thesis by simp
qed

lemma enc_nbit_eq: "enc_nbit v n = on_writer (write_nbit_uint v n)"
  by (simp add: fun_eq_iff enc_nbit_def)

lemma enc_string_reference:
  assumes "wf_writer (e_bits e)" and "e_coding e = Referenced" and "table_find (e_values e) ctx s \<noteq> Hit_Miss"
    and "lengths_check lens (length s) = Inr ()" and "enc_string ctx s lens e = Inr e'"
  shows "wf_writer (e_bits e') \<and> w_pos (e_bits e') = w_pos (e_bits e) + length (string_code e ctx s)
     \<and> written (e_bits e') = written (e_bits e) @ string_code e ctx s
     \<and> e' = e\<lparr>e_bits := e_bits e', e_values := after_string ctx s e\<rparr>"
proof -
  obtain m w i where code: "string_code e ctx s = uint_code m @ msb_bits w i"
    and enc: "enc_string ctx s lens e = on_writer (\<lambda>v. ebind (write_uint m v) (write_nbit_uint i w)) e"
  proof (cases "table_find (e_values e) ctx s")
    case (Hit_Local i)
    then show ?thesis using assms(2,4)
      by (intro that [of 0 "local_index_width (e_values e) ctx" i])
        (simp_all add: string_code_def enc_string_def enc_uint_def enc_nbit_eq char_len_def on_writer_bind)
  next
    case (Hit_Global i)
    then show ?thesis using assms(2,4)
      by (intro that [of 1 "global_index_width (e_values e)" i])
        (simp_all add: string_code_def enc_string_def enc_uint_def enc_nbit_eq char_len_def on_writer_bind)
  qed (use assms(3) in simp)
  from enc assms(5) have "on_writer (\<lambda>v. ebind (write_uint m v) (write_nbit_uint i w)) e = Inr e'" by simp
  note w = on_writer_done [OF emits_bind [OF emits_write_uint emits_write_nbit] assms(1) this]
  then obtain x where "e' = e\<lparr>e_bits := x\<rparr>" by blast
  then have "e' = e\<lparr>e_bits := e_bits e', e_values := after_string ctx s e\<rparr>"
    using assms(2,3) by (simp add: after_string_def)
  with w code show ?thesis by simp
qed

lemma enc_string_done:
  assumes "wf_writer (e_bits e)" and "enc_string ctx s lens e = Inr e'"
  shows "wf_writer (e_bits e') \<and> w_pos (e_bits e') = w_pos (e_bits e) + length (string_code e ctx s)
     \<and> written (e_bits e') = written (e_bits e) @ string_code e ctx s
     \<and> e' = e\<lparr>e_bits := e_bits e', e_values := after_string ctx s e\<rparr>"
    and "admits lens (length s)"
proof -
  have chk: "lengths_check lens (length s) = Inr ()"
    using assms(2) by (auto simp: enc_string_def char_len_def Let_def ebind_eq_Inr)
  then show "admits lens (length s)" by (simp add: lengths_check_ok)
  show "wf_writer (e_bits e') \<and> w_pos (e_bits e') = w_pos (e_bits e) + length (string_code e ctx s)
     \<and> written (e_bits e') = written (e_bits e) @ string_code e ctx s
     \<and> e' = e\<lparr>e_bits := e_bits e', e_values := after_string ctx s e\<rparr>"
  proof (cases "e_coding e = Referenced \<and> table_find (e_values e) ctx s \<noteq> Hit_Miss")
    case True
    then show ?thesis using enc_string_reference [OF assms(1) _ _ chk assms(2)] by blast
  next
    case False
    then show ?thesis by (intro enc_string_literal [OF assms(1) chk _ assms(2)]) auto
  qed
qed

text \<open>Reading a string back, one lemma per form on the wire.\<close>

lemma dec_string_literal:
  assumes "wf_string s" and "length s + 2 < 2 ^ 64" and "admits lens (length s)" and "wf_reader (d_bits d)"
    and "unread (d_bits d) = (uint_code (of_nat (length s) + 2) @ chars_code s) @ rest"
  shows "dec_string ctx lens d =
     Inr (s, (advance (length (uint_code (of_nat (length s) + 2)) + length (chars_code s)) d)
               \<lparr>d_values := table_insert (d_values d) ctx s\<rparr>)"
proof -
  let ?m = "of_nat (length s) + 2 :: u64"
  have "unat ?m = length s + 2" using assms(2) unat_of_nat_u64 [of "length s + 2"] by (simp add: add.commute)
  then have m: "?m \<noteq> 0" "?m \<noteq> 1" by (auto simp: word_unat_eq_iff simp del: unat_1)
  have len: "?m - 2 = of_nat (length s)" "unat (of_nat (length s) :: u64) = length s"
    using assms(2) unat_of_nat_u64 [of "length s"] by simp_all
  let ?d = "advance (length (uint_code ?m)) d"
  have 1: "on_reader read_uint d = Inr (?m, ?d)"
    using on_reader_at [OF parses_read_uint assms(4), of ?m] assms(5) by simp
  have wf: "wf_reader (d_bits ?d)" using advance_wf assms(4,5) by (metis append.assoc)
  have 2: "on_reader (read_chars (length s)) ?d = Inr (s, advance (length (chars_code s)) ?d)"
    using assms(5) by (intro on_reader_at [OF parses_read_chars [OF assms(1)] wf, of rest]) simp
  have chk: "lengths_check lens (length s) = Inr ()" using assms(3) by (simp add: lengths_check_ok)
  show ?thesis using m 1 2 assms(3) chk
    by (simp add: dec_string_def dec_string_inner_def dec_uint_def len admits_def char_len_def Let_def)
qed

lemma dec_string_local:
  assumes inv: "table_inv (d_values d)" and hit: "table_find (d_values d) ctx s = Hit_Local i"
    and adm: "admits lens (length s)" and wf: "wf_reader (d_bits d)"
    and u: "unread (d_bits d) = (uint_code 0 @ msb_bits (local_index_width (d_values d) ctx) i) @ rest"
  shows "dec_string ctx lens d = Inr (s, advance (length (uint_code 0) + local_index_width (d_values d) ctx) d)"
proof -
  let ?d = "advance (length (uint_code 0)) d"
  have 1: "on_reader read_uint d = Inr (0, ?d)" using on_reader_at [OF parses_read_uint wf, of 0] u by simp
  have wf': "wf_reader (d_bits ?d)" using advance_wf [OF wf] u by (metis append.assoc)
  have 2: "on_reader (vt.read_local_ref (d_values d) ctx) ?d = Inr (s, advance (local_index_width (d_values d) ctx) ?d)"
    using on_reader_at [OF vt.parses_local_ref [OF inv hit] wf', of rest] u by simp
  have chk: "lengths_check lens (length s) = Inr ()" using adm by (simp add: lengths_check_ok)
  have "dec_string_inner ctx lens d = on_reader (vt.read_local_ref (d_values d) ctx) ?d"
    by (simp add: dec_string_inner_def dec_uint_def 1 dec_nbit_def vt.read_local_ref_def [abs_def]
        on_reader_guard [symmetric])
      (auto simp: on_reader_def ebind_assoc split_def advance_def intro!: ebind_cong)
  then show ?thesis by (simp add: dec_string_def 2 char_len_def chk)
qed

lemma dec_string_global:
  assumes inv: "table_inv (d_values d)" and hit: "table_find (d_values d) ctx s = Hit_Global i"
    and adm: "admits lens (length s)" and wf: "wf_reader (d_bits d)"
    and u: "unread (d_bits d) = (uint_code 1 @ msb_bits (global_index_width (d_values d)) i) @ rest"
  shows "dec_string ctx lens d = Inr (s, advance (length (uint_code 1) + global_index_width (d_values d)) d)"
proof -
  let ?d = "advance (length (uint_code 1)) d"
  have 1: "on_reader read_uint d = Inr (1, ?d)" using on_reader_at [OF parses_read_uint wf, of 1] u by simp
  have wf': "wf_reader (d_bits ?d)" using advance_wf [OF wf] u by (metis append.assoc)
  have 2: "on_reader (vt.read_global_ref (d_values d)) ?d = Inr (s, advance (global_index_width (d_values d)) ?d)"
    using on_reader_at [OF vt.parses_global_ref [OF inv hit] wf', of rest] u by simp
  have chk: "lengths_check lens (length s) = Inr ()" using adm by (simp add: lengths_check_ok)
  have "dec_string_inner ctx lens d = on_reader (vt.read_global_ref (d_values d)) ?d"
    by (simp add: dec_string_inner_def dec_uint_def 1 dec_nbit_def vt.read_global_ref_def [abs_def]
        on_reader_guard [symmetric])
      (auto simp: on_reader_def ebind_assoc split_def advance_def intro!: ebind_cong)
  then show ?thesis by (simp add: dec_string_def 2 char_len_def chk)
qed

section \<open>One operation\<close>

lemma encode_item_bits:
  assumes "valid_item it" and "wf_writer (e_bits e)" and "encode_item it e = Inr e'"
  shows "wf_writer (e_bits e') \<and> w_pos (e_bits e') = w_pos (e_bits e) + length (item_code e it)
     \<and> written (e_bits e') = written (e_bits e) @ item_code e it"
proof -
  consider (string) ctx s lens where "it = I_String ctx s lens" | (enter) "it = I_Enter" | (leave) "it = I_Leave"
    | (stream) "stream_item e it"
    using stream_items [OF assms(1,3)] by blast
  then show ?thesis
  proof cases
    case string
    then show ?thesis using enc_string_done(1) [OF assms(2)] assms(3) by simp
  next
    case stream
    then show ?thesis using on_writer_done [OF _ assms(2)] assms(3) by (auto simp: stream_item_def)
  qed (use assms(2,3) in \<open>auto simp: enc_enter_def enc_leave_def Let_def ebind_eq_Inr split: prod.splits\<close>)
qed

lemma decode_string_step:
  assumes sync: "synced e d" and room: "table_room 1 d" and valid: "wf_string s" "length s + 2 < 2 ^ 64"
    and wf: "wf_writer (e_bits e)" and enc: "enc_string ctx s lens e = Inr e'"
    and u: "unread (d_bits d) = string_code e ctx s @ rest"
  shows "\<exists>d'. dec_string ctx lens d = Inr (s, d') \<and> unread (d_bits d') = rest \<and> synced e' d'
     \<and> length (globals (d_values d')) \<le> Suc (length (globals (d_values d)))"
proof -
  note fin = enc_string_done [OF wf enc]
  obtain x where e': "e' = e\<lparr>e_bits := x, e_values := after_string ctx s e\<rparr>"
    "w_pos x = w_pos (e_bits e) + length (string_code e ctx s)" using fin(1) by metis
  have s: "table_inv (d_values d)" "e_coding e = Referenced \<Longrightarrow> e_values e = d_values d" "e_depth e = d_depth d"
      "wf_reader (d_bits d)" "r_pos (d_bits d) = w_pos (e_bits e)" using sync by (auto simp: synced_def)
  let ?d = "advance (length (string_code e ctx s)) d"
  have base: "unread (d_bits ?d) = rest" "wf_reader (d_bits ?d)" using u advance_wf [OF s(4) u] by simp_all
  show ?thesis
  proof (cases "if e_coding e = Referenced then table_find (e_values e) ctx s else Hit_Miss")
    case (Hit_Local i)
    then have r: "e_coding e = Referenced" "table_find (d_values d) ctx s = Hit_Local i"
      using s(2) by (auto split: if_splits)
    then have code: "string_code e ctx s = uint_code 0 @ msb_bits (local_index_width (d_values d) ctx) i"
      using s(2) by (simp add: string_code_def)
    then have "dec_string ctx lens d = Inr (s, ?d)"
      using dec_string_local [OF s(1) r(2) fin(2) s(4)] u by simp
    moreover have "synced e' ?d"
      using s base r e' by (simp add: synced_def after_string_def)
    ultimately show ?thesis using base by auto
  next
    case (Hit_Global i)
    then have r: "e_coding e = Referenced" "table_find (d_values d) ctx s = Hit_Global i"
      using s(2) by (auto split: if_splits)
    then have code: "string_code e ctx s = uint_code 1 @ msb_bits (global_index_width (d_values d)) i"
      using s(2) by (simp add: string_code_def)
    then have "dec_string ctx lens d = Inr (s, ?d)"
      using dec_string_global [OF s(1) r(2) fin(2) s(4)] u by simp
    moreover have "synced e' ?d"
      using s base r e' by (simp add: synced_def after_string_def)
    ultimately show ?thesis using base by auto
  next
    case Hit_Miss
    let ?d' = "?d\<lparr>d_values := table_insert (d_values d) ctx s\<rparr>"
    from Hit_Miss have code: "string_code e ctx s = uint_code (of_nat (length s) + 2) @ chars_code s"
      by (simp add: string_code_def)
    then have "dec_string ctx lens d = Inr (s, ?d')"
      using dec_string_literal [OF valid fin(2) s(4)] u by simp
    moreover have "table_inv (table_insert (d_values d) ctx s)"
      using room s(1) by (intro table_insert_inv) (simp_all add: table_room_def)
    then have "synced e' ?d'"
      using s base Hit_Miss e' by (auto simp: synced_def after_string_def split: if_splits)
    ultimately show ?thesis using base table_len_insert by auto
  qed
qed

lemma decode_item_step:
  assumes sync: "synced e d" and room: "table_room 1 d" and valid: "valid_item it"
    and wf: "wf_writer (e_bits e)" and enc: "encode_item it e = Inr e'"
    and u: "unread (d_bits d) = item_code e it @ rest"
  shows "\<exists>d'. decode_item it d = Inr (it, d') \<and> unread (d_bits d') = rest \<and> synced e' d'
     \<and> length (globals (d_values d')) \<le> Suc (length (globals (d_values d)))"
proof -
  consider (string) ctx s lens where "it = I_String ctx s lens" | (enter) "it = I_Enter" | (leave) "it = I_Leave"
    | (stream) "stream_item e it"
    using stream_items [OF valid enc] by blast
  then show ?thesis
  proof cases
    case string
    then have ok: "wf_string s" "length s + 2 < 2 ^ 64" using valid by simp_all
    then show ?thesis using decode_string_step [OF sync room ok wf, of ctx lens e' rest] enc u string by auto
  next
    case stream
    then obtain f g where f: "encode_item it e = on_writer f e" "emits f (item_code e it)"
      and g: "\<And>d. decode_item it d = on_reader g d" "parses g (item_code e it) it"
      by (auto simp: stream_item_def)
    note fin = on_writer_done [OF f(2) wf enc [unfolded f(1)]]
    then obtain x where e': "e' = e\<lparr>e_bits := x\<rparr>" "w_pos x = w_pos (e_bits e) + length (item_code e it)"
      by metis
    have wfd: "wf_reader (d_bits d)" using sync by (simp add: synced_def)
    let ?d = "advance (length (item_code e it)) d"
    have "decode_item it d = Inr (it, ?d)" using on_reader_at [OF g(2) wfd u] g(1) by simp
    moreover have "synced e' ?d" using sync advance_wf [OF wfd u] e' by (simp add: synced_def)
    ultimately show ?thesis using u by auto
  next
    case enter
    with enc have ok: "fst (enter_depth (e_depth e)) = Inr ()" and "e' = e\<lparr>e_depth := snd (enter_depth (e_depth e))\<rparr>"
      by (auto simp: enc_enter_def ebind_eq_Inr split: prod.splits)
    moreover have "decode_item I_Enter d = Inr (I_Enter, d\<lparr>d_depth := snd (enter_depth (d_depth d))\<rparr>)"
      using ok sync by (auto simp: dec_enter_def synced_def split: prod.splits)
    ultimately show ?thesis using u sync enter by (auto simp: synced_def)
  next
    case leave
    then show ?thesis using u sync enc by (auto simp: synced_def enc_leave_def dec_leave_def)
  qed
qed

section \<open>Whole documents\<close>

lemma encode_items_wf:
  "list_all valid_item its \<Longrightarrow> wf_writer (e_bits e) \<Longrightarrow> encode_items its e = Inr e' \<Longrightarrow>
     wf_writer (e_bits e') \<and> (\<exists>bs. written (e_bits e') = written (e_bits e) @ bs)"
proof (induction its arbitrary: e)
  case (Cons it its)
  then obtain e1 where 1: "encode_item it e = Inr e1" "encode_items its e1 = Inr e'"
    by (auto simp: ebind_eq_Inr)
  with Cons.prems encode_item_bits [of it e e1] have "wf_writer (e_bits e1)"
      "written (e_bits e1) = written (e_bits e) @ item_code e it" by auto
  with Cons.IH [of e1] Cons.prems 1 show ?case by auto
qed simp

lemma decode_items_follow:
  assumes "list_all valid_item its" and "wf_writer (e_bits e)" and "encode_items its e = Inr e'"
    and "synced e d" and "table_room (length its) d"
    and "written (e_bits e') = written (e_bits e) @ bs" and "unread (d_bits d) = bs @ rest"
  shows "\<exists>d'. decode_items its d = Inr (its, d') \<and> unread (d_bits d') = rest \<and> synced e' d'"
  using assms
proof (induction its arbitrary: e d bs)
  case Nil
  then show ?case by auto
next
  case (Cons it its)
  then obtain e1 where 1: "encode_item it e = Inr e1" "encode_items its e1 = Inr e'"
    by (auto simp: ebind_eq_Inr)
  have it: "valid_item it" "list_all valid_item its" using Cons.prems(1) by simp_all
  note bits = encode_item_bits [OF it(1) Cons.prems(2) 1(1)]
  then have wf1: "wf_writer (e_bits e1)" by simp
  obtain bs' where bs': "written (e_bits e') = written (e_bits e1) @ bs'"
    using encode_items_wf [OF it(2) wf1 1(2)] by blast
  with bits Cons.prems(6) have bs: "bs = item_code e it @ bs'" by simp
  have "table_room 1 d" using Cons.prems(5) by (simp add: table_room_def)
  then obtain d1 where d1: "decode_item it d = Inr (it, d1)" "unread (d_bits d1) = bs' @ rest" "synced e1 d1"
      "length (globals (d_values d1)) \<le> Suc (length (globals (d_values d)))"
    using decode_item_step [OF Cons.prems(4) _ it(1) Cons.prems(2) 1(1), of "bs' @ rest"] Cons.prems(7) bs by auto
  have "table_room (length its) d1" using Cons.prems(5) d1(4) by (simp add: table_room_def)
  then obtain d' where "decode_items its d1 = Inr (its, d')" "unread (d_bits d') = rest" "synced e' d'"
    using Cons.IH [OF it(2) wf1 1(2) d1(3) _ bs' d1(2)] by blast
  then show ?case using d1(1) by simp
qed

text \<open>
  The document round trip: header, any sequence of operations, padding. \<open>encode_document\<close> and
  \<open>decode_document\<close> are what \<open>to_slice_with\<close> and \<open>from_bytes\<close> of a message consist of.
\<close>

definition encode_document :: "exi_header \<Rightarrow> exi_item list \<Rightarrow> value_coding \<Rightarrow> bytes \<Rightarrow> exi_error + (nat \<times> bytes)" where
  "encode_document h its coding buf =
     ebind (enc_write_header h (enc_with_value_coding buf coding)) (\<lambda>e.
     ebind (encode_items its e) enc_finish)"

definition decode_document :: "exi_item list \<Rightarrow> bytes \<Rightarrow> exi_error + (exi_header \<times> exi_item list)" where
  "decode_document its buf =
     ebind (dec_read_header (dec_new buf)) (\<lambda>(h, d).
     ebind (decode_items its d) (\<lambda>(vs, d).
     ebind (dec_finish d) (\<lambda>_. Inr (h, vs))))"

lemma dec_finish_padding:
  assumes "unread (d_bits d) = replicate (pad_len (r_pos (d_bits d))) False"
  shows "dec_finish d = Inr ()"
  using skip_padding_refines [of "d_bits d" "[]"] assms
    unread_advance [of "d_bits d" "pad_len (r_pos (d_bits d))"]
  by (simp add: dec_finish_def bits_remaining_unread)

lemma document_roundtrip_aux:
  assumes valid: "version h = EXI_VERSION" "list_all valid_item its" "length its + 1 < 2 ^ 64"
    and enc: "encode_document h its coding buf = Inr (n, out)"
  shows "decode_document its (take n out) = Inr (h, its)"
proof -
  let ?e0 = "enc_with_value_coding buf coding"
  from enc obtain e1 e2 where 1: "on_writer (write_header h) ?e0 = Inr e1" and 2: "encode_items its e1 = Inr e2"
    and fin: "bw_finish (e_bits e2) = Inr (n, out)"
    by (auto simp: encode_document_def enc_write_header_def enc_finish_def ebind_eq_Inr)
  have "wf_writer (e_bits ?e0)" by (simp add: enc_with_value_coding_def)
  note hd = on_writer_done [OF emits_write_header [OF valid(1)] this 1]
  then obtain x where e1: "e1 = ?e0\<lparr>e_bits := x\<rparr>" and x: "w_pos x = length (header_code h)"
    "written x = header_code h" and wf1: "wf_writer (e_bits e1)"
    by (metis enc_with_value_coding_def encoder.select_convs(1) bw_new_simps(2) written_new
        add_0 append_Nil encoder.update_convs(1))
  obtain bs where bs: "written (e_bits e2) = written (e_bits e1) @ bs" and wf2: "wf_writer (e_bits e2)"
    using encode_items_wf [OF valid(2) wf1 2] by blast
  define pad where "pad = replicate (pad_len (w_pos (e_bits e2))) False"
  let ?d = "dec_new (take n out)"
  have u: "unread (d_bits ?d) = header_code h @ bs @ pad"
    using bw_finish_refines [OF wf2] fin bs e1 x by (auto simp: dec_new_def pad_def)
  let ?d1 = "advance (length (header_code h)) ?d"
  have wfd: "wf_reader (d_bits ?d)" by (simp add: dec_new_def)
  have rd: "dec_read_header ?d = Inr (h, ?d1)"
    using read_header_at [OF wfd _ valid(1) u]
    by (simp add: dec_read_header_def on_reader_def advance_def dec_new_def)
  have sync: "synced e1 ?d1"
    using advance_wf [OF wfd u] x
    by (simp add: synced_def e1 enc_with_value_coding_def table_inv_new) (simp add: dec_new_def table_inv_new)
  have room: "table_room (length its) ?d1" using valid(3) by (simp add: table_room_def dec_new_def table_new_def)
  obtain d2 where d2: "decode_items its ?d1 = Inr (its, d2)" "unread (d_bits d2) = pad" "synced e2 d2"
    using decode_items_follow [OF valid(2) wf1 2 sync room bs, of pad] u by auto
  then have "dec_finish d2 = Inr ()"
    by (intro dec_finish_padding) (simp add: pad_def synced_def)
  with rd d2(1) show ?thesis by (simp add: decode_document_def)
qed

section \<open>Growing buffers\<close>

text \<open>
  \<open>encode_growing\<close> runs an encoder over a buffer that doubles until the output fits. The closure
  gets a slice and leaves it behind changed, also when it fails, so it returns both its result and
  the slice. Starting from 4096 bytes the ninth attempt has the whole megabyte, so nine rounds of
  fuel are never used up.
\<close>

definition resize :: "bytes \<Rightarrow> nat \<Rightarrow> bytes" where
  "resize buf n = take n buf @ replicate (n - length buf) 0"

fun encode_growing_loop :: "nat \<Rightarrow> (bytes \<Rightarrow> (exi_error + nat) \<times> bytes) \<Rightarrow> bytes \<Rightarrow> (exi_error + bytes) option" where
  "encode_growing_loop 0 encode buf = None"
| "encode_growing_loop (Suc fuel) encode buf =
     (case encode buf of
        (Inr n, out) \<Rightarrow> Some (Inr (take n out))
      | (Inl e, out) \<Rightarrow>
          if e = OutputFull \<and> length buf < MAX_EXI_PAYLOAD_LEN
          then encode_growing_loop fuel encode (resize out (min (length buf * 2) MAX_EXI_PAYLOAD_LEN))
          else Some (Inl e))"

definition encode_growing :: "(bytes \<Rightarrow> (exi_error + nat) \<times> bytes) \<Rightarrow> (exi_error + bytes) option" where
  "encode_growing encode = encode_growing_loop 9 encode (replicate 4096 0)"

lemma length_resize [simp]: "length (resize buf n) = n"
  by (simp add: resize_def)

lemma encode_growing_loop_total:
  "MAX_EXI_PAYLOAD_LEN \<le> length buf * 2 ^ fuel \<Longrightarrow> \<exists>res. encode_growing_loop (Suc fuel) encode buf = Some res"
proof (induction fuel arbitrary: buf)
  case 0
  then show ?case by (auto split: prod.splits sum.splits)
next
  case (Suc fuel)
  let ?n = "min (length buf * 2) MAX_EXI_PAYLOAD_LEN"
  have "MAX_EXI_PAYLOAD_LEN \<le> ?n * 2 ^ fuel"
  proof (cases "length buf * 2 \<le> MAX_EXI_PAYLOAD_LEN")
    case True
    then show ?thesis using Suc.prems by (simp add: min_def mult.assoc)
  next
    case False
    then show ?thesis by (simp add: min_def)
  qed
  then have "\<exists>res. encode_growing_loop (Suc fuel) encode (resize out ?n) = Some res" for out
    using Suc.IH [of "resize out ?n"] by simp
  then show ?case by (subst encode_growing_loop.simps) (auto split: prod.splits sum.splits)
qed

lemma encode_growing_loop_Inr:
  "encode_growing_loop fuel encode buf = Some (Inr out) \<Longrightarrow> \<exists>buf n res. encode buf = (Inr n, res) \<and> out = take n res"
proof (induction fuel arbitrary: buf)
  case (Suc fuel)
  show ?case
  proof (cases "fst (encode buf)")
    case (Inl e)
    then show ?thesis using Suc by (cases "encode buf") (auto split: if_splits)
  next
    case (Inr n)
    then show ?thesis using Suc.prems by (cases "encode buf") auto
  qed
qed simp

lemma encode_growing_loop_error:
  "encode_growing_loop fuel encode buf = Some (Inl e) \<Longrightarrow>
     \<exists>buf res. encode buf = (Inl e, res) \<and> (e = OutputFull \<longrightarrow> MAX_EXI_PAYLOAD_LEN \<le> length buf)"
proof (induction fuel arbitrary: buf)
  case (Suc fuel)
  show ?case
  proof (cases "fst (encode buf)")
    case (Inl e')
    then show ?thesis using Suc by (cases "encode buf") (auto split: if_splits)
  next
    case (Inr n)
    then show ?thesis using Suc.prems by (cases "encode buf") auto
  qed
qed simp

text \<open>
  A document as the closure \<open>to_vec_with\<close> passes: on failure the slice keeps whatever the attempt
  left in it, here any function of it.
\<close>

definition document_slice :: "(bytes \<Rightarrow> bytes) \<Rightarrow> exi_header \<Rightarrow> exi_item list \<Rightarrow> value_coding \<Rightarrow>
    bytes \<Rightarrow> (exi_error + nat) \<times> bytes" where
  "document_slice junk h its coding buf =
     (case encode_document h its coding buf of Inl e \<Rightarrow> (Inl e, junk buf) | Inr (n, out) \<Rightarrow> (Inr n, out))"

section \<open>The depth counter\<close>

lemma enter_depth_iterate: "((\<lambda>d. snd (enter_depth d)) ^^ k) d = (if k = 0 then d else min (d + k) U16_MAX)"
proof (induction k)
  case (Suc k)
  then show ?case by (auto simp: enter_depth_def Let_def min_def)
qed simp

section \<open>Properties\<close>

lemma decode_document_blank [simp]: "decode_document (map blank its) buf = decode_document its buf"
  by (simp add: decode_document_def)

text \<open>
  C4. Every document of EXI version 1 that the encoder can write, under either coding of its strings,
  is read back: the decoder, knowing only the widths, facets and contexts, returns the header and
  every value, in order, and consumes the padded stream to its end. (A header of another version is
  written too, but \<open>read_header\<close> refuses it.)
\<close>

theorem document_roundtrip:
  assumes "version h = EXI_VERSION" and "list_all valid_item its" and "length its + 1 < 2 ^ 64"
    and "encode_document h its coding buf = Inr (n, out)"
  shows "decode_document (map blank its) (take n out) = Inr (h, its)"
  using document_roundtrip_aux [OF assms] by simp

definition sample_items :: "exi_item list" where
  "sample_items =
     [I_Event 1 2, I_Enter, I_Uint 300, I_String 7 [86] (lengths_max 10), I_Leave]"

theorem document_roundtrip_witness:
  "\<exists>n out. encode_document ISO15118 sample_items Referenced (replicate 12 0) = Inr (n, out)
     \<and> decode_document (map blank sample_items) (take n out) = Inr (ISO15118, sample_items)"
proof -
  have "\<not> isl (encode_document ISO15118 sample_items Referenced (replicate 12 0))" by code_simp
  then obtain n out where enc: "encode_document ISO15118 sample_items Referenced (replicate 12 0) = Inr (n, out)"
    by (metis isl_def surj_pair sum.exhaust_sel)
  have "list_all valid_item sample_items" by code_simp
  then have "decode_document (map blank sample_items) (take n out) = Inr (ISO15118, sample_items)"
    using document_roundtrip [OF _ _ _ enc] by (simp add: ISO15118_def sample_items_def)
  with enc show ?thesis by blast
qed

text \<open>
  \<open>encode_growing\<close> always comes to an end, whatever an attempt leaves in the buffer: it returns a
  document that decodes to the values written, or the error of an attempt, and \<open>OutputFull\<close> only of
  an attempt that had the largest payload to fill.
\<close>

lemma encode_growing_document:
  assumes "version h = EXI_VERSION" and "list_all valid_item its" and "length its + 1 < 2 ^ 64"
  shows "\<exists>res. encode_growing (document_slice junk h its coding) = Some res
     \<and> (case res of
          Inr out \<Rightarrow> decode_document (map blank its) out = Inr (h, its)
        | Inl e \<Rightarrow> \<exists>buf. encode_document h its coding buf = Inl e \<and> (e = OutputFull \<longrightarrow> MAX_EXI_PAYLOAD_LEN \<le> length buf))"
proof -
  let ?f = "document_slice junk h its coding"
  have "MAX_EXI_PAYLOAD_LEN \<le> length (replicate 4096 (0 :: u8)) * 2 ^ 8"
    unfolding length_replicate by (simp add: MAX_EXI_PAYLOAD_LEN_def)
  moreover have nine: "(9 :: nat) = Suc 8" by simp
  ultimately obtain res where res: "encode_growing ?f = Some res"
    unfolding encode_growing_def nine using encode_growing_loop_total by blast
  have slice: "?f buf = (Inr n, out) \<Longrightarrow> encode_document h its coding buf = Inr (n, out)"
      "?f buf = (Inl e, out) \<Longrightarrow> encode_document h its coding buf = Inl e" for buf n out e
    by (auto simp: document_slice_def split: sum.splits prod.splits)
  show ?thesis
  proof (cases res)
    case (Inr out)
    then obtain buf n res' where "?f buf = (Inr n, res')" and out: "out = take n res'"
      using encode_growing_loop_Inr res by (metis encode_growing_def)
    then have "decode_document (map blank its) out = Inr (h, its)"
      using document_roundtrip_aux [OF assms] slice(1) by (metis decode_document_blank)
    with res Inr show ?thesis by simp
  next
    case (Inl e)
    then show ?thesis
      using encode_growing_loop_error [of 9 ?f "replicate 4096 0" e] res slice by (fastforce simp: encode_growing_def)
  qed
qed

lemma encode_growing_document_witness:
  "\<exists>res. encode_growing (document_slice rev ISO15118 [I_Uint 300, I_Boolean True] Literal) = Some res"
  using encode_growing_document [of ISO15118 "[I_Uint 300, I_Boolean True]" rev Literal]
  by (auto simp: ISO15118_def)

text \<open>
  The nesting counter: of any number of nested \<open>enter\<close> calls exactly the first 64 pass, in the
  encoder and in the decoder, and the counter saturates instead of wrapping round to a depth that
  would pass again.
\<close>

lemma enter_nested:
  "fst (enc_enter (((\<lambda>e. snd (enc_enter e)) ^^ k) (enc_new buf))) =
     (if k < MAX_DEPTH then Inr () else Inl DepthLimitExceeded)
   \<and> fst (dec_enter (((\<lambda>d. snd (dec_enter d)) ^^ k) (dec_new buf))) =
     (if k < MAX_DEPTH then Inr () else Inl DepthLimitExceeded)"
proof -
  have e: "e_depth (((\<lambda>e. snd (enc_enter e)) ^^ k) e) = ((\<lambda>d. snd (enter_depth d)) ^^ k) (e_depth e)" for e
    by (induction k) (simp_all add: enc_enter_def split_def Let_def)
  have d: "d_depth (((\<lambda>d. snd (dec_enter d)) ^^ k) d) = ((\<lambda>d. snd (enter_depth d)) ^^ k) (d_depth d)" for d
    by (induction k) (simp_all add: dec_enter_def split_def Let_def)
  have "fst (enter_depth (((\<lambda>d. snd (enter_depth d)) ^^ k) 0)) = (if k < MAX_DEPTH then Inr () else Inl DepthLimitExceeded)"
    unfolding enter_depth_iterate by (simp add: enter_depth_def Let_def MAX_DEPTH_def U16_MAX_def)
  moreover have "fst (enc_enter e) = fst (enter_depth (e_depth e))" "fst (dec_enter d) = fst (enter_depth (d_depth d))" for e d
    by (simp_all add: enc_enter_def dec_enter_def split_def Let_def)
  moreover have "e_depth (enc_new buf) = 0" "d_depth (dec_new buf) = 0"
    by (simp_all add: enc_new_def enc_with_value_coding_def dec_new_def)
  ultimately show ?thesis by (simp only: e d simp_thms)
qed

text \<open>
  Every date and time the encoder accepts is read back, with its fraction and its time zone; what it
  accepts lies within the ranges of the calendar fields.
\<close>

lemma datetime_roundtrip:
  assumes "i64_range (year dt)" and "pred_option wf_fraction (fractional_secs dt)"
    and "write_datetime dt (bw_new buf) = Inr w" and "bw_finish w = Inr (n, out)"
  shows "\<not> bad_date dt \<and> \<not> bad_time dt
     \<and> (\<exists>r r'. read_datetime (br_new (take n out)) = Inr (dt, r) \<and> skip_padding r = Inr r' \<and> bits_remaining r' = 0)"
  using datetime_encoded_wf [OF assms(1-3)] datetime.roundtrip [OF _ assms(3,4)] by (auto simp: wf_datetime_def)

definition sample_datetime :: datetime where
  "sample_datetime = \<lparr>year = 2024, month = 2, day = 29, hour = 23, minute = 59, second = 60,
     fractional_secs = Some (Fraction 521), timezone_minutes = Some (-90)\<rparr>"

lemma datetime_roundtrip_witness:
  "\<exists>w n out r. write_datetime sample_datetime (bw_new (replicate 16 0)) = Inr w \<and> bw_finish w = Inr (n, out)
     \<and> read_datetime (br_new (take n out)) = Inr (sample_datetime, r)"
proof -
  have "\<not> bad_date sample_datetime" "\<not> bad_time sample_datetime" "wf_fraction (Fraction 521)" "wf_timezone (-90)" by code_simp+
  then have wf: "wf_datetime sample_datetime"
    by (simp add: wf_datetime_def sample_datetime_def i64_range_def DATETIME_YEAR_OFFSET_def)
  have "length (datetime_code sample_datetime) \<le> 8 * length (replicate 16 (0 :: u8))" by code_simp
  then obtain w n out where w: "write_datetime sample_datetime (bw_new (replicate 16 0)) = Inr w" "bw_finish w = Inr (n, out)"
    using datetime.fits_fresh [OF wf] by blast
  then show ?thesis using datetime_roundtrip [OF _ _ w] wf by (auto simp: wf_datetime_def)
qed

end
