(* ===== verification/Exi_Complete.thy ===== *)
theory Exi_Complete
  imports Exi_Roundtrip
begin

text \<open>
  The converse of \<open>Exi_Roundtrip\<close>: a document of well-formed values is written whenever the buffer has room
  for its bits. The size is counted for literal strings; \<open>item_bits\<close> bounds each operation, so a client
  gets a buffer size that is always enough from the facets of its schema.
\<close>

section \<open>Room for one operation\<close>

definition literal_state :: "encoder \<Rightarrow> bool" where
  "literal_state e \<longleftrightarrow> wf_writer (e_bits e) \<and> e_coding e = Literal"

definition enc_room :: "encoder \<Rightarrow> nat" where
  "enc_room e = 8 * length (w_buf (e_bits e)) - w_pos (e_bits e)"

lemma length_uint_octets: "unat v < 2 ^ (7 * n) \<Longrightarrow> 0 < n \<Longrightarrow> length (uint_octets v) \<le> n"
proof (induction n arbitrary: v)
  case (Suc n)
  show ?case
  proof (cases "drop_bit 7 v = 0")
    case True
    then show ?thesis by (subst uint_octets.simps) simp
  next
    case False
    have d: "unat (drop_bit 7 v) = unat v div 2 ^ 7" by (simp add: drop_bit_eq_div unat_div)
    have "unat v div 2 ^ 7 < 2 ^ (7 * n)"
      using Suc.prems(1) by (simp add: div_less_iff_less_mult power_add mult.commute)
    moreover have "0 < n" using False Suc.prems(1) d by (cases n) (auto simp: drop_bit_eq_0_iff)
    ultimately have "length (uint_octets (drop_bit 7 v)) \<le> n" using Suc.IH d by simp
    then show ?thesis using False by (subst uint_octets.simps) simp
  qed
qed simp

lemma length_concat_byte_bits: "length (concat (map byte_bits xs)) = 8 * length xs"
  by (induction xs) simp_all

lemma length_uint_code_le: "unat v < 2 ^ (7 * n) \<Longrightarrow> 0 < n \<Longrightarrow> length (uint_code v) \<le> 8 * n"
  using length_uint_octets [of v n] by (simp add: uint_code_def length_concat_byte_bits)

lemma length_uint_code_80: "length (uint_code v) \<le> 80"
  using length_uint_code_le [of v 10] less_trans [OF unat_u64_less [of v], of "2 ^ 70"] by simp

lemma length_chars_code_80: "length (chars_code s) \<le> 80 * length s"
proof (induction s)
  case (Cons c s)
  then show ?case using length_uint_code_80 [of "ucast c"] by (simp add: chars_code_def)
qed (simp add: chars_code_def)

text \<open>Bits that are always enough for an operation, and the values that are written at all.\<close>

fun item_bits :: "exi_item \<Rightarrow> nat" where
  "item_bits (I_Event c w) = w"
| "item_bits (I_Uint v) = 80"
| "item_bits (I_Nbit v n) = n"
| "item_bits (I_Boolean b) = 1"
| "item_bits (I_Restricted v mn mx) = 64"
| "item_bits (I_String ctx s lens) = 80 * (length s + 1)"
| "item_bits _ = 0"

fun item_ok :: "exi_item \<Rightarrow> bool" where
  "item_ok (I_Event c w) = True"
| "item_ok (I_Uint v) = True"
| "item_ok (I_Nbit v n) = True"
| "item_ok (I_Boolean b) = True"
| "item_ok (I_Restricted v mn mx) = (i64_range mn \<and> i64_range mx \<and> i64_range v \<and> mn \<le> v \<and> v \<le> mx)"
| "item_ok (I_String ctx s lens) = admits lens (length s)"
| "item_ok _ = False"

lemma on_writer_room:
  assumes "emits f bs" and "literal_state e" and "length bs \<le> n" and "n \<le> enc_room e"
  shows "\<exists>e'. on_writer f e = Inr e' \<and> literal_state e' \<and> enc_room e - n \<le> enc_room e' \<and> e_depth e' = e_depth e"
proof -
  have wf: "wf_writer (e_bits e)" using assms(2) by (simp add: literal_state_def)
  then have "w_pos (e_bits e) \<le> 8 * length (w_buf (e_bits e))" by (simp add: wf_writer_def)
  then have "w_pos (e_bits e) + length bs \<le> 8 * length (w_buf (e_bits e))" using assms(3,4) by (simp add: enc_room_def)
  then obtain w' where "f (e_bits e) = Inr w'" "wf_writer w'" "w_pos w' = w_pos (e_bits e) + length bs"
      "length (w_buf w') = length (w_buf (e_bits e))"
    using emits_fits [OF assms(1) wf] by blast
  then show ?thesis using assms(2,3) by (auto simp: on_writer_def literal_state_def enc_room_def)
qed

lemma restricted_width_64: "restricted_width s \<le> 64"
  by (auto simp: restricted_width_def bit_width_le_64 split: option.splits)

lemma encode_item_room:
  assumes "item_ok it" and "literal_state e" and "item_bits it \<le> enc_room e"
  shows "\<exists>e'. encode_item it e = Inr e' \<and> literal_state e' \<and> enc_room e - item_bits it \<le> enc_room e' \<and> e_depth e' = e_depth e"
proof (cases it)
  case (I_Restricted v mn mx)
  with assms(1) have "i64_range mn" "i64_range mx" "mn \<le> v" "v \<le> mx" by simp_all
  then have "encode_item it e = on_writer (write_nbit_uint (of_int (v - mn)) (restricted_width (of_int (mx - mn)))) e"
    by (simp add: I_Restricted enc_restricted_def u64_try_from_def enc_nbit_def i64_range_def)
  then show ?thesis using on_writer_room [OF emits_write_nbit assms(2) _ assms(3)] I_Restricted restricted_width_64 by simp
next
  case (I_String ctx s lens)
  let ?f = "\<lambda>w. ebind (write_uint (of_nat (length s) + 2) w) (write_chars s)"
  have bits: "length (uint_code (of_nat (length s) + 2) @ chars_code s) \<le> item_bits it"
    using length_uint_code_80 [of "of_nat (length s) + 2"] length_chars_code_80 [of s] I_String by simp
  obtain e' where e': "on_writer ?f e = Inr e'" "literal_state e'" "enc_room e - item_bits it \<le> enc_room e'" "e_depth e' = e_depth e"
    using on_writer_room [OF emits_bind [OF emits_write_uint emits_write_chars] assms(2) bits assms(3)] by blast
  have "lengths_check lens (length s) = Inr ()" using assms(1) I_String by (simp add: lengths_check_ok)
  then have "encode_item it e = ebind (on_writer ?f e) (\<lambda>e. Inr (if e_coding e = Referenced
      then e\<lparr>e_values := table_insert (e_values e) ctx s\<rparr> else e))"
    using assms(2) by (simp add: I_String enc_string_def char_len_def literal_state_def enc_uint_def on_writer_bind)
  then show ?thesis using e' by (simp add: literal_state_def)
qed (use assms on_writer_room [OF emits_write_nbit assms(2) _ assms(3)] on_writer_room [OF emits_write_uint assms(2) _ assms(3)]
    on_writer_room [OF emits_write_bool assms(2) _ assms(3)] length_uint_code_80
    in \<open>auto simp: enc_event_def enc_uint_def enc_nbit_def enc_boolean_def\<close>)

section \<open>Room for a document\<close>

fun items_ok :: "nat \<Rightarrow> exi_item list \<Rightarrow> bool" where
  "items_ok depth [] = True"
| "items_ok depth (it # its) =
     (if it = I_Enter then depth < MAX_DEPTH \<and> items_ok (depth + 1) its
      else if it = I_Leave then items_ok (depth - 1) its
      else item_ok it \<and> items_ok depth its)"

lemma encode_items_room:
  "items_ok (e_depth e) its \<Longrightarrow> literal_state e \<Longrightarrow> sum_list (map item_bits its) \<le> enc_room e \<Longrightarrow>
     \<exists>e'. encode_items its e = Inr e' \<and> literal_state e'"
proof (induction its arbitrary: e)
  case (Cons it its)
  let ?n = "item_bits it"
  have "\<exists>e1. encode_item it e = Inr e1 \<and> literal_state e1 \<and> enc_room e - ?n \<le> enc_room e1 \<and> items_ok (e_depth e1) its"
  proof -
    consider "it = I_Enter" | "it = I_Leave" | "it \<noteq> I_Enter" "it \<noteq> I_Leave" by blast
    then show ?thesis
    proof cases
      case 1
      with Cons.prems show ?thesis
        by (simp add: enc_enter_def enter_depth_def Let_def literal_state_def enc_room_def U16_MAX_def MAX_DEPTH_def min_def)
    next
      case 2
      with Cons.prems show ?thesis by (simp add: enc_leave_def leave_depth_def literal_state_def enc_room_def)
    next
      case 3
      then show ?thesis using encode_item_room [of it e] Cons.prems by auto
    qed
  qed
  then obtain e1 where "encode_item it e = Inr e1" "literal_state e1" "enc_room e - ?n \<le> enc_room e1" "items_ok (e_depth e1) its"
    by blast
  then show ?case using Cons.IH [of e1] Cons.prems(3) by simp
qed simp

lemma encode_document_room:
  assumes "version h = EXI_VERSION" and "items_ok 0 its" and "40 + sum_list (map item_bits its) \<le> 8 * length buf"
  shows "\<exists>n out. encode_document h its Literal buf = Inr (n, out)"
proof -
  let ?e = "enc_with_value_coding buf Literal"
  have e: "literal_state ?e" "enc_room ?e = 8 * length buf" "e_depth ?e = 0"
    by (simp_all add: literal_state_def enc_room_def enc_with_value_coding_def)
  have "length (header_code h) \<le> 40" by (simp add: header_code_def length_concat_byte_bits COOKIE_def)
  then obtain e1 where e1: "on_writer (write_header h) ?e = Inr e1" "literal_state e1" "enc_room ?e - 40 \<le> enc_room e1" "e_depth e1 = 0"
    using on_writer_room [OF emits_write_header [OF assms(1)] e(1), of 40] assms(3) e by auto
  moreover have "sum_list (map item_bits its) \<le> enc_room e1" using e1(3) assms(3) e(2) by linarith
  ultimately obtain e2 where "encode_items its e1 = Inr e2" "literal_state e2"
    using encode_items_room [of e1 its] assms(2) by auto
  then show ?thesis using e1(1) bw_finish_refines [of "e_bits e2"]
    by (auto simp: encode_document_def enc_write_header_def enc_finish_def literal_state_def)
qed

end
