(* ===== verification/Protocol.thy ===== *)
theory Protocol
  imports Main
begin

text \<open>
  Protocol generations and ordered sets of them, \<open>src/src/protocol.rs\<close>. \<open>Protocols\<close> is a fixed array
  of optional entries; \<open>plist\<close> reads it as the list of its entries in preference order, and the laws
  of the locale \<open>preference_set\<close> say that every operation is the list operation it is named after.
  Texts are HOL strings, so a Rust \<open>str\<close> is covered where its characters are below 256.
\<close>

section \<open>Generations\<close>

datatype protocol = Din70121 | Iso2 | Iso20

text \<open>The derived ordering is by generation.\<close>

fun generation :: "protocol \<Rightarrow> nat" where
  "generation Din70121 = 0"
| "generation Iso2 = 1"
| "generation Iso20 = 2"

instantiation protocol :: linorder
begin

definition less_eq_protocol :: "protocol \<Rightarrow> protocol \<Rightarrow> bool" where
  "less_eq_protocol p q \<longleftrightarrow> generation p \<le> generation q"

definition less_protocol :: "protocol \<Rightarrow> protocol \<Rightarrow> bool" where
  "less_protocol p q \<longleftrightarrow> generation p < generation q"

instance
proof
  fix p q :: protocol
  show "p \<le> q \<Longrightarrow> q \<le> p \<Longrightarrow> p = q"
    by (cases p; cases q) (simp_all add: less_eq_protocol_def)
qed (auto simp: less_eq_protocol_def less_protocol_def)

end

definition Protocol_ALL :: "protocol list" where
  "Protocol_ALL = [Iso20, Iso2, Din70121]"

definition Protocol_COUNT :: nat where
  "Protocol_COUNT = length Protocol_ALL"

fun protocol_as_str :: "protocol \<Rightarrow> string" where
  "protocol_as_str Din70121 = ''din70121''"
| "protocol_as_str Iso2 = ''iso15118-2''"
| "protocol_as_str Iso20 = ''iso15118-20''"

datatype iso20_set = Set_Dc | Set_Ac | Set_Wpt | Set_Acdp | Set_AcDerIec | Set_AcDerSae

definition Iso20Set_ALL :: "iso20_set list" where
  "Iso20Set_ALL = [Set_Dc, Set_Ac, Set_Wpt, Set_Acdp, Set_AcDerIec, Set_AcDerSae]"

fun set_namespace :: "iso20_set \<Rightarrow> string" where
  "set_namespace Set_Dc = ''urn:iso:std:iso:15118:-20:DC''"
| "set_namespace Set_Ac = ''urn:iso:std:iso:15118:-20:AC''"
| "set_namespace Set_Wpt = ''urn:iso:std:iso:15118:-20:WPT''"
| "set_namespace Set_Acdp = ''urn:iso:std:iso:15118:-20:ACDP''"
| "set_namespace Set_AcDerIec = ''urn:iso:std:iso:15118:-20:AC-DER-IEC''"
| "set_namespace Set_AcDerSae = ''urn:iso:std:iso:15118:-20:AC-DER-SAE''"

definition set_from_namespace :: "string \<Rightarrow> iso20_set option" where
  "set_from_namespace ns = List.find (\<lambda>s. set_namespace s = ns) Iso20Set_ALL"

fun protocol_namespace :: "protocol \<Rightarrow> string" where
  "protocol_namespace Din70121 = ''urn:din:70121:2012:MsgDef''"
| "protocol_namespace Iso2 = ''urn:iso:15118:2:2013:MsgDef''"
| "protocol_namespace Iso20 = set_namespace Set_Dc"

fun protocol_version :: "protocol \<Rightarrow> nat \<times> nat" where
  "protocol_version Din70121 = (2, 0)"
| "protocol_version Iso2 = (2, 0)"
| "protocol_version Iso20 = (1, 0)"

definition protocol_from_namespace :: "string \<Rightarrow> protocol option" where
  "protocol_from_namespace ns =
     (if set_from_namespace ns \<noteq> None then Some Iso20
      else List.find (\<lambda>p. protocol_namespace p = ns) [Din70121, Iso2])"

definition requires_tls :: "protocol \<Rightarrow> bool" where
  "requires_tls p \<longleftrightarrow> p = Iso20"

section \<open>Parsing a name\<close>

definition to_ascii_lower :: "char \<Rightarrow> char" where
  "to_ascii_lower c = (let n = of_char c :: nat in if 65 \<le> n \<and> n \<le> 90 then char_of (n + 32) else c)"

definition eq_ignore_ascii_case :: "string \<Rightarrow> string \<Rightarrow> bool" where
  "eq_ignore_ascii_case a b \<longleftrightarrow> map to_ascii_lower a = map to_ascii_lower b"

definition is_white :: "char \<Rightarrow> bool" where
  "is_white c \<longleftrightarrow> (let n = of_char c :: nat in (9 \<le> n \<and> n \<le> 13) \<or> n = 32 \<or> n = 133 \<or> n = 160)"

definition trim :: "string \<Rightarrow> string" where
  "trim s = rev (dropWhile is_white (rev (dropWhile is_white s)))"

record parse_protocol_error =
  generation_omitted :: bool

definition for_input :: "string \<Rightarrow> parse_protocol_error" where
  "for_input s =
     \<lparr>generation_omitted = eq_ignore_ascii_case s ''iso15118'' \<or> eq_ignore_ascii_case s ''iso 15118''
        \<or> eq_ignore_ascii_case s ''iso-15118''\<rparr>"

definition protocol_from_str :: "string \<Rightarrow> parse_protocol_error + protocol" where
  "protocol_from_str text =
     (let s = trim text in
      case List.find (\<lambda>p. eq_ignore_ascii_case (protocol_as_str p) s) Protocol_ALL of
        Some p \<Rightarrow> Inr p
      | None \<Rightarrow>
        (case protocol_from_namespace s of
           Some p \<Rightarrow> Inr p
         | None \<Rightarrow>
           if s = ''urn:iso:std:iso:15118:-20:CommonMessages'' then Inr Iso20
           else Inl (for_input s)))"

lemma protocol_cases: "(\<forall>p. P p) \<longleftrightarrow> P Din70121 \<and> P Iso2 \<and> P Iso20"
  by (metis protocol.exhaust)

lemma from_str_as_str: "protocol_from_str (protocol_as_str p) = Inr p"
  by (cases p; simp only:; code_simp)

lemma from_str_namespace: "protocol_from_str (protocol_namespace p) = Inr p"
  by (cases p; simp only:; code_simp)

lemma from_namespace_set: "protocol_from_namespace (set_namespace s) = Some Iso20"
  by (cases s; simp only:; code_simp)

section \<open>Sets in preference order\<close>

type_synonym protocols = "protocol option list"

definition protocols_new :: protocols where
  "protocols_new = replicate Protocol_COUNT None"

definition protocols_contains :: "protocols \<Rightarrow> protocol \<Rightarrow> bool" where
  "protocols_contains es p \<longleftrightarrow> list_ex (\<lambda>e. e = Some p) es"

fun fill_first_none :: "protocols \<Rightarrow> protocol \<Rightarrow> protocols" where
  "fill_first_none [] p = []"
| "fill_first_none (None # es) p = Some p # es"
| "fill_first_none (Some q # es) p = Some q # fill_first_none es p"

definition protocols_with :: "protocols \<Rightarrow> protocol \<Rightarrow> protocols" where
  "protocols_with es p = (if protocols_contains es p then es else fill_first_none es p)"

definition protocols_from_slice :: "protocol list \<Rightarrow> protocols" where
  "protocols_from_slice ps = foldl protocols_with protocols_new ps"

definition protocols_insert :: "protocols \<Rightarrow> protocol \<Rightarrow> bool \<times> protocols" where
  "protocols_insert es p =
     (if protocols_contains es p then (False, es) else (True, protocols_with es p))"

text \<open>\<open>Iter\<close> yields the entries and passes over empty slots.\<close>

fun protocols_iter :: "protocols \<Rightarrow> protocol list" where
  "protocols_iter [] = []"
| "protocols_iter (None # es) = protocols_iter es"
| "protocols_iter (Some p # es) = p # protocols_iter es"

definition protocols_retain :: "(protocol \<Rightarrow> bool) \<Rightarrow> protocols \<Rightarrow> protocols" where
  "protocols_retain f es =
     foldl (\<lambda>acc p. if f p then protocols_with acc p else acc) protocols_new (protocols_iter es)"

definition protocols_len :: "protocols \<Rightarrow> nat" where
  "protocols_len es = length (filter (\<lambda>e. e \<noteq> None) es)"

definition protocols_remove :: "protocols \<Rightarrow> protocol \<Rightarrow> bool \<times> protocols" where
  "protocols_remove es p =
     (let es' = protocols_retain (\<lambda>q. q \<noteq> p) es in (protocols_len es' \<noteq> protocols_len es, es'))"

definition protocols_is_empty :: "protocols \<Rightarrow> bool" where
  "protocols_is_empty es \<longleftrightarrow> es ! 0 = None"

definition protocols_first :: "protocols \<Rightarrow> protocol option" where
  "protocols_first es = es ! 0"

definition protocols_best :: "protocols \<Rightarrow> protocol option" where
  "protocols_best es = (case protocols_iter es of [] \<Rightarrow> None | p # ps \<Rightarrow> Some (foldl max p ps))"

section \<open>The contract of a preference set\<close>

locale preference_set =
  fixes inv :: "'s \<Rightarrow> bool"
    and elems :: "'s \<Rightarrow> 'a list"
    and empty :: 's
    and has :: "'s \<Rightarrow> 'a \<Rightarrow> bool"
    and add :: "'s \<Rightarrow> 'a \<Rightarrow> 's"
  assumes empty_inv: "inv empty" and elems_empty: "elems empty = []"
    and has_elems: "inv s \<Longrightarrow> has s x \<longleftrightarrow> x \<in> set (elems s)"
    and add_inv: "inv s \<Longrightarrow> inv (add s x)"
    and elems_add: "inv s \<Longrightarrow> elems (add s x) = (if x \<in> set (elems s) then elems s else elems s @ [x])"
begin

text \<open>Adding a whole list appends what is new, in order, and drops repetitions.\<close>

lemma fold_add_inv: "inv s \<Longrightarrow> inv (foldl add s xs)"
  by (induction xs arbitrary: s) (simp_all add: add_inv)

lemma elems_fold_add:
  "inv s \<Longrightarrow> elems (foldl add s xs) = elems s @ filter (\<lambda>x. x \<notin> set (elems s)) (rev (remdups (rev xs)))"
proof (induction xs rule: rev_induct)
  case (snoc x xs)
  then show ?case
    by (auto simp: elems_add fold_add_inv filter_empty_conv)
qed simp

lemma distinct_fold_add: "inv s \<Longrightarrow> distinct (elems s) \<Longrightarrow> distinct (elems (foldl add s xs))"
  by (induction xs arbitrary: s) (auto simp: elems_add add_inv)

lemma elems_fold_distinct: "distinct xs \<Longrightarrow> elems (foldl add empty xs) = xs"
proof (induction xs rule: rev_induct)
  case (snoc x xs)
  then show ?case by (simp add: elems_add fold_add_inv empty_inv)
qed (simp add: elems_empty)

end

text \<open>The invariant: three slots, the filled ones first and distinct.\<close>

definition protocols_inv :: "protocols \<Rightarrow> bool" where
  "protocols_inv es \<longleftrightarrow> length es = Protocol_COUNT \<and> distinct (protocols_iter es)
     \<and> es = map Some (protocols_iter es) @ replicate (length es - length (protocols_iter es)) None"

lemma iter_padded [simp]: "protocols_iter (map Some ps @ replicate n None) = ps"
proof (induction ps)
  case Nil
  show ?case by (induction n) simp_all
qed simp

lemma protocols_invE:
  assumes "protocols_inv es"
  obtains ps n where "es = map Some ps @ replicate n None" "distinct ps" "length ps + n = Protocol_COUNT"
proof -
  from assms have "es = map Some (protocols_iter es) @ replicate (length es - length (protocols_iter es)) None"
    and l: "length es = Protocol_COUNT" and d: "distinct (protocols_iter es)" by (auto simp: protocols_inv_def)
  moreover from this(1) have "length (protocols_iter es) \<le> length es" by (metis length_append length_map le_add1)
  ultimately show thesis using that by (metis le_add_diff_inverse)
qed

lemma protocols_invI: "distinct ps \<Longrightarrow> length ps + n = Protocol_COUNT \<Longrightarrow> protocols_inv (map Some ps @ replicate n None)"
  by (auto simp: protocols_inv_def)

lemma fill_padded: "fill_first_none (map Some ps @ replicate (Suc n) None) p = map Some (ps @ [p]) @ replicate n None"
  by (induction ps) simp_all

lemma distinct_protocols_length: "distinct (ps :: protocol list) \<Longrightarrow> length ps \<le> 3"
proof -
  assume "distinct ps"
  then have "length ps = card (set ps)" by (simp add: distinct_card)
  also have "\<dots> \<le> card {Din70121, Iso2, Iso20}" by (rule card_mono) (auto intro: protocol.exhaust)
  finally show ?thesis by simp
qed

lemma protocols_contains_elems: "protocols_inv es \<Longrightarrow> protocols_contains es p \<longleftrightarrow> p \<in> set (protocols_iter es)"
  by (elim protocols_invE) (auto simp: protocols_contains_def list_ex_iff)

text \<open>There is always a free slot for a protocol that is not in the set.\<close>

lemma protocols_with_refines:
  assumes "protocols_inv es"
  shows "protocols_inv (protocols_with es p)"
    and "protocols_iter (protocols_with es p) =
           (if p \<in> set (protocols_iter es) then protocols_iter es else protocols_iter es @ [p])"
proof -
  obtain ps n where es: "es = map Some ps @ replicate n None" "distinct ps" "length ps + n = Protocol_COUNT"
    using assms by (rule protocols_invE)
  have it: "protocols_iter es = ps" using es(1) by simp
  have "protocols_inv (protocols_with es p) \<and> protocols_iter (protocols_with es p) =
           (if p \<in> set (protocols_iter es) then protocols_iter es else protocols_iter es @ [p])"
  proof (cases "p \<in> set ps")
    case True
    then show ?thesis using assms es by (simp add: protocols_with_def protocols_contains_elems)
  next
    case False
    have "length (ps @ [p]) \<le> 3" using es(2) False by (intro distinct_protocols_length) simp
    then obtain m where m: "n = Suc m" using es(3) by (cases n) (simp_all add: Protocol_COUNT_def Protocol_ALL_def)
    have "protocols_with es p = map Some (ps @ [p]) @ replicate m None"
    proof -
      have "\<not> protocols_contains es p" using False it protocols_contains_elems [OF assms] by simp
      then have "protocols_with es p = fill_first_none es p" by (simp add: protocols_with_def)
      then show ?thesis using fill_padded [of ps m p] es(1) m by simp
    qed
    moreover have "protocols_inv (map Some (ps @ [p]) @ replicate m None)"
      using es False m by (intro protocols_invI) simp_all
    ultimately show ?thesis using es(1) False by (metis iter_padded)
  qed
  then show "protocols_inv (protocols_with es p)"
    and "protocols_iter (protocols_with es p) =
           (if p \<in> set (protocols_iter es) then protocols_iter es else protocols_iter es @ [p])" by blast+
qed

lemma protocols_new_refines: "protocols_inv protocols_new" "protocols_iter protocols_new = []"
  by (simp_all add: protocols_inv_def protocols_new_def Protocol_COUNT_def Protocol_ALL_def)

interpretation pset: preference_set protocols_inv protocols_iter protocols_new protocols_contains protocols_with
  by unfold_locales (simp_all add: protocols_new_refines protocols_contains_elems protocols_with_refines)

lemma protocols_retain_refines:
  assumes "protocols_inv es"
  shows "protocols_inv (protocols_retain f es)" and "protocols_iter (protocols_retain f es) = filter f (protocols_iter es)"
proof -
  have eq: "foldl (\<lambda>acc p. if f p then protocols_with acc p else acc) s ps = foldl protocols_with s (filter f ps)" for s ps
    by (induction ps arbitrary: s) simp_all
  have d: "distinct (protocols_iter es)" using assms by (simp add: protocols_inv_def)
  then show "protocols_inv (protocols_retain f es)" "protocols_iter (protocols_retain f es) = filter f (protocols_iter es)"
    unfolding protocols_retain_def eq
    by (simp_all add: pset.fold_add_inv pset.elems_fold_distinct protocols_new_refines)
qed

lemma protocols_len_elems: "protocols_inv es \<Longrightarrow> protocols_len es = length (protocols_iter es)"
  by (elim protocols_invE) (auto simp: protocols_len_def comp_def)

lemma protocols_remove_refines:
  assumes "protocols_inv es"
  shows "protocols_remove es p = (p \<in> set (protocols_iter es), protocols_retain (\<lambda>q. q \<noteq> p) es)"
proof -
  have "length (filter (\<lambda>q. q \<noteq> p) (protocols_iter es)) \<noteq> length (protocols_iter es) \<longleftrightarrow> p \<in> set (protocols_iter es)"
    by (metis (mono_tags, lifting) filter_id_conv length_filter_less less_irrefl)
  then show ?thesis using protocols_retain_refines [OF assms, of "\<lambda>q. q \<noteq> p"] assms
    by (simp add: protocols_remove_def Let_def protocols_len_elems)
qed

lemma foldl_max_Max: "foldl max p ps = Max (insert p (set ps))" for p :: "'a::linorder"
proof (induction ps arbitrary: p)
  case (Cons q ps)
  then show ?case by (cases "ps = []") (simp_all add: max.assoc max.left_commute Max_insert)
qed simp

lemma protocols_best_Max:
  "protocols_inv es \<Longrightarrow> protocols_best es =
     (if protocols_iter es = [] then None else Some (Max (set (protocols_iter es))))"
  by (cases "protocols_iter es") (simp_all add: protocols_best_def foldl_max_Max)

lemma protocols_first_refines:
  assumes "protocols_inv es"
  shows "protocols_first es = (case protocols_iter es of [] \<Rightarrow> None | p # _ \<Rightarrow> Some p)"
    and "protocols_is_empty es \<longleftrightarrow> protocols_iter es = []"
proof -
  obtain ps n where es: "es = map Some ps @ replicate n None" "length ps + n = Protocol_COUNT"
    using assms by (rule protocols_invE)
  have "es ! 0 = (case ps of [] \<Rightarrow> None | p # _ \<Rightarrow> Some p)"
    using es by (cases ps) (simp_all add: Protocol_COUNT_def Protocol_ALL_def)
  moreover have "protocols_iter es = ps" using es(1) by simp
  ultimately show "protocols_first es = (case protocols_iter es of [] \<Rightarrow> None | p # _ \<Rightarrow> Some p)"
    and "protocols_is_empty es \<longleftrightarrow> protocols_iter es = []"
    by (simp_all add: protocols_first_def protocols_is_empty_def split: list.splits)
qed

section \<open>Properties\<close>

text \<open>
  C35. \<open>Protocols\<close> implements a list without repetitions in preference order. The new set is the empty list, and
  construction from a slice keeps the first occurrences in order; \<open>with\<close> and \<open>insert\<close> append a protocol that is
  not yet a member, for which there is always room, \<open>remove\<close> and \<open>retain\<close> filter, \<open>contains\<close>, \<open>len\<close>, \<open>is_empty\<close> and
  \<open>first\<close> read the list, and \<open>best\<close> is the newest generation in it. Every operation that changes the set keeps the
  invariant of the slots.
\<close>

theorem protocols_refinement:
  assumes "protocols_inv es"
  shows "protocols_iter protocols_new = [] \<and> protocols_inv protocols_new
     \<and> protocols_iter (protocols_from_slice ps) = rev (remdups (rev ps)) \<and> protocols_inv (protocols_from_slice ps)
     \<and> protocols_iter (protocols_with es p) =
         (if p \<in> set (protocols_iter es) then protocols_iter es else protocols_iter es @ [p])
     \<and> protocols_inv (protocols_with es p)
     \<and> protocols_insert es p = (p \<notin> set (protocols_iter es), protocols_with es p)
     \<and> protocols_iter (protocols_retain f es) = filter f (protocols_iter es) \<and> protocols_inv (protocols_retain f es)
     \<and> fst (protocols_remove es p) = (p \<in> set (protocols_iter es))
     \<and> protocols_iter (snd (protocols_remove es p)) = removeAll p (protocols_iter es)
     \<and> protocols_inv (snd (protocols_remove es p))
     \<and> (protocols_contains es p \<longleftrightarrow> p \<in> set (protocols_iter es))
     \<and> protocols_len es = length (protocols_iter es)
     \<and> (protocols_is_empty es \<longleftrightarrow> protocols_iter es = [])
     \<and> protocols_first es = (case protocols_iter es of [] \<Rightarrow> None | q # _ \<Rightarrow> Some q)
     \<and> protocols_best es = (if protocols_iter es = [] then None else Some (Max (set (protocols_iter es))))"
proof -
  have "protocols_iter (protocols_from_slice ps) = rev (remdups (rev ps))" "protocols_inv (protocols_from_slice ps)"
    using pset.elems_fold_add [OF pset.empty_inv, of ps] pset.fold_add_inv [OF pset.empty_inv, of ps]
    by (simp_all add: protocols_from_slice_def pset.elems_empty)
  moreover have "protocols_insert es p = (p \<notin> set (protocols_iter es), protocols_with es p)"
    using protocols_contains_elems [OF assms] by (simp add: protocols_insert_def protocols_with_def)
  moreover have "protocols_iter (snd (protocols_remove es p)) = removeAll p (protocols_iter es)"
    using protocols_retain_refines(2) [OF assms, of "\<lambda>q. q \<noteq> p"]
    by (simp add: protocols_remove_refines [OF assms] removeAll_filter_not_eq eq_commute)
  moreover have "protocols_inv (snd (protocols_remove es p))" "fst (protocols_remove es p) = (p \<in> set (protocols_iter es))"
    using protocols_retain_refines(1) [OF assms] by (simp_all add: protocols_remove_refines [OF assms])
  ultimately show ?thesis
    using protocols_new_refines protocols_with_refines [OF assms, of p] protocols_retain_refines [OF assms, of f]
      protocols_contains_elems [OF assms, of p] protocols_len_elems [OF assms] protocols_first_refines [OF assms]
      protocols_best_Max [OF assms] by (intro conjI)
qed

theorem protocols_refinement_witness:
  "protocols_iter (snd (protocols_insert protocols_new Iso20)) = [Iso20]
   \<and> protocols_iter (protocols_from_slice [Iso20, Iso2, Iso20]) = [Iso20, Iso2] \<and> protocols_best protocols_new = None"
  using protocols_refinement [OF protocols_new_refines(1), of "[Iso20, Iso2, Iso20]" Iso20]
  by (simp add: protocols_new_refines(2))

text \<open>
  A protocol's name and its namespace both parse back to it, and every namespace of an ISO 15118-20
  message set means ISO 15118-20.
\<close>

lemma protocol_name_roundtrip:
  "protocol_from_str (protocol_as_str p) = Inr p \<and> protocol_from_str (protocol_namespace p) = Inr p
   \<and> protocol_from_namespace (set_namespace s) = Some Iso20"
  using from_str_as_str from_str_namespace from_namespace_set by blast

end
