(* ===== verification/V2gtp.thy ===== *)
theory V2gtp
  imports Prelude Protocol
begin

unbundle bit_operations_syntax

text \<open>
  V2GTP framing, \<open>src/src/v2gtp.rs\<close>: the eight-byte header, payload types, splitting a frame off the
  front of a byte stream and writing one. Slices are lists; \<open>split_frame\<close> returns the payload and the
  remainder. The laws of the last section are what a stream reader relies on, stated as the locale
  \<open>framing\<close>.
\<close>

section \<open>Data\<close>

definition HEADER_LEN :: nat where
  "HEADER_LEN = 8"

definition PROTOCOL_VERSION :: u8 where
  "PROTOCOL_VERSION = 0x01"

datatype payload_type =
    ExiEncodedV2gMessage
  | Part20Main
  | Part20Ac
  | Part20Dc
  | Part20Acdp
  | Part20Wpt
  | Part20AcDerIec
  | Part20AcDerSae
  | SdpRequest
  | SdpResponse
  | SdpWirelessRequest
  | SdpWirelessResponse
  | ManufacturerSpecific u16
  | Reserved u16

fun as_u16 :: "payload_type \<Rightarrow> u16" where
  "as_u16 ExiEncodedV2gMessage = 0x8001"
| "as_u16 Part20Main = 0x8002"
| "as_u16 Part20Ac = 0x8003"
| "as_u16 Part20Dc = 0x8004"
| "as_u16 Part20Acdp = 0x8005"
| "as_u16 Part20Wpt = 0x8006"
| "as_u16 Part20AcDerIec = 0x8010"
| "as_u16 Part20AcDerSae = 0x8011"
| "as_u16 SdpRequest = 0x9000"
| "as_u16 SdpResponse = 0x9001"
| "as_u16 SdpWirelessRequest = 0x9002"
| "as_u16 SdpWirelessResponse = 0x9003"
| "as_u16 (ManufacturerSpecific v) = v"
| "as_u16 (Reserved v) = v"

definition from_u16 :: "u16 \<Rightarrow> payload_type" where
  "from_u16 v =
     (if v = 0x8001 then ExiEncodedV2gMessage
      else if v = 0x8002 then Part20Main
      else if v = 0x8003 then Part20Ac
      else if v = 0x8004 then Part20Dc
      else if v = 0x8005 then Part20Acdp
      else if v = 0x8006 then Part20Wpt
      else if v = 0x8010 then Part20AcDerIec
      else if v = 0x8011 then Part20AcDerSae
      else if v = 0x9000 then SdpRequest
      else if v = 0x9001 then SdpResponse
      else if v = 0x9002 then SdpWirelessRequest
      else if v = 0x9003 then SdpWirelessResponse
      else if 0xA000 \<le> v then ManufacturerSpecific v
      else Reserved v)"

fun is_ignorable :: "payload_type \<Rightarrow> bool" where
  "is_ignorable (ManufacturerSpecific _) = True"
| "is_ignorable (Reserved _) = True"
| "is_ignorable _ = False"

fun is_part20 :: "payload_type \<Rightarrow> bool" where
  "is_part20 Part20Main = True"
| "is_part20 Part20Ac = True"
| "is_part20 Part20Dc = True"
| "is_part20 Part20Acdp = True"
| "is_part20 Part20Wpt = True"
| "is_part20 Part20AcDerIec = True"
| "is_part20 Part20AcDerSae = True"
| "is_part20 _ = False"

definition belongs_to :: "payload_type \<Rightarrow> protocol option \<Rightarrow> bool" where
  "belongs_to t p \<longleftrightarrow>
     t = ExiEncodedV2gMessage \<and> (p = None \<or> p = Some Iso2 \<or> p = Some Din70121)
     \<or> is_part20 t \<and> p = Some Iso20"

definition is_exi :: "payload_type \<Rightarrow> bool" where
  "is_exi t \<longleftrightarrow> t = ExiEncodedV2gMessage \<or> is_part20 t"

definition is_sdp_request :: "payload_type \<Rightarrow> bool" where
  "is_sdp_request t \<longleftrightarrow> t = SdpRequest \<or> t = SdpWirelessRequest"

definition is_sdp_response :: "payload_type \<Rightarrow> bool" where
  "is_sdp_response t \<longleftrightarrow> t = SdpResponse \<or> t = SdpWirelessResponse"

record v2gtp_header =
  payload_type :: payload_type
  payload_len :: u32

datatype v2gtp_error =
    Incomplete
  | BufferTooSmall
  | UnsupportedVersion u8
  | VersionMismatch u8 u8
  | PayloadTooLarge u32 nat

section \<open>Operations\<close>

definition u16_to_be :: "u16 \<Rightarrow> bytes" where
  "u16_to_be v = [ucast (drop_bit 8 v), ucast v]"

definition u16_from_be :: "u8 \<Rightarrow> u8 \<Rightarrow> u16" where
  "u16_from_be a b = push_bit 8 (ucast a) OR ucast b"

definition u32_to_be :: "u32 \<Rightarrow> bytes" where
  "u32_to_be v = [ucast (drop_bit 24 v), ucast (drop_bit 16 v), ucast (drop_bit 8 v), ucast v]"

definition u32_from_be :: "u8 \<Rightarrow> u8 \<Rightarrow> u8 \<Rightarrow> u8 \<Rightarrow> u32" where
  "u32_from_be a b c d =
     push_bit 24 (ucast a) OR push_bit 16 (ucast b) OR push_bit 8 (ucast c) OR ucast d"

definition to_bytes :: "v2gtp_header \<Rightarrow> bytes" where
  "to_bytes h = [PROTOCOL_VERSION, NOT PROTOCOL_VERSION] @ u16_to_be (as_u16 (payload_type h)) @ u32_to_be (payload_len h)"

definition write_to :: "v2gtp_header \<Rightarrow> bytes \<Rightarrow> v2gtp_error + bytes" where
  "write_to h out =
     (if length out < HEADER_LEN then Inl BufferTooSmall else Inr (to_bytes h @ drop HEADER_LEN out))"

definition header_decode :: "bytes \<Rightarrow> v2gtp_error + v2gtp_header" where
  "header_decode input =
     (if length input < HEADER_LEN then Inl Incomplete
      else if input ! 0 \<noteq> PROTOCOL_VERSION then Inl (UnsupportedVersion (input ! 0))
      else if input ! 1 \<noteq> NOT PROTOCOL_VERSION then Inl (VersionMismatch (input ! 0) (input ! 1))
      else Inr \<lparr>payload_type = from_u16 (u16_from_be (input ! 2) (input ! 3)),
                payload_len = u32_from_be (input ! 4) (input ! 5) (input ! 6) (input ! 7)\<rparr>)"

text \<open>On a 64-bit target neither the conversion of the length nor the sum with the header can fail.\<close>

definition split_frame :: "bytes \<Rightarrow> nat \<Rightarrow> v2gtp_error + (v2gtp_header \<times> bytes \<times> bytes)" where
  "split_frame input max_payload_len =
     ebind (header_decode input) (\<lambda>header.
     let len = unat (payload_len header) in
     if len > max_payload_len then Inl (PayloadTooLarge (payload_len header) max_payload_len)
     else
       let fin = HEADER_LEN + len in
       if length input < fin then Inl Incomplete
       else Inr (header, take len (drop HEADER_LEN input), drop fin input))"

definition write_frame :: "payload_type \<Rightarrow> bytes \<Rightarrow> bytes \<Rightarrow> v2gtp_error + (nat \<times> bytes)" where
  "write_frame t payload out =
     ebind (if length payload < 2 ^ 32 then Inr (of_nat (length payload))
            else Inl (PayloadTooLarge (-1) (2 ^ 32 - 1))) (\<lambda>len.
     let total = HEADER_LEN + length payload in
     if length out < total then Inl BufferTooSmall
     else ebind (write_to \<lparr>payload_type = t, payload_len = len\<rparr> out) (\<lambda>out.
       Inr (total, take HEADER_LEN out @ payload @ drop total out)))"

section \<open>Payload types\<close>

lemma as_u16_from_u16 [simp]: "as_u16 (from_u16 v) = v"
  by (simp add: from_u16_def)

text \<open>The types the classification can produce: a numbered variant only holds a number of its range.\<close>

definition wf_payload_type :: "payload_type \<Rightarrow> bool" where
  "wf_payload_type t \<longleftrightarrow> from_u16 (as_u16 t) = t"

lemma wf_from_u16 [simp]: "wf_payload_type (from_u16 v)"
  by (simp add: wf_payload_type_def)

lemma wf_assigned: "\<not> is_ignorable t \<Longrightarrow> wf_payload_type t"
  by (cases t) (simp_all add: wf_payload_type_def from_u16_def)

lemma belongs_to_exi: "belongs_to t p \<Longrightarrow> is_exi t \<and> \<not> is_ignorable t \<and> \<not> is_sdp_request t \<and> \<not> is_sdp_response t"
  by (cases t) (auto simp: belongs_to_def is_exi_def is_sdp_request_def is_sdp_response_def)

lemma belongs_to_unique: "belongs_to t (Some p) \<Longrightarrow> belongs_to t (Some q) \<Longrightarrow> p = Iso20 \<longleftrightarrow> q = Iso20"
  by (cases t) (auto simp: belongs_to_def)

section \<open>Frames\<close>

lemma length_to_bytes [simp]: "length (to_bytes h) = HEADER_LEN"
  by (simp add: to_bytes_def u16_to_be_def u32_to_be_def HEADER_LEN_def)

lemma u16_be [simp]: "u16_from_be (ucast (drop_bit 8 v)) (ucast v) = v"
  unfolding u16_from_be_def by (rule bit_word_eqI) (auto simp: bit_simps)

lemma u32_be [simp]:
  "u32_from_be (ucast (drop_bit 24 v)) (ucast (drop_bit 16 v)) (ucast (drop_bit 8 v)) (ucast v) = v"
proof (rule bit_word_eqI)
  fix n
  assume "n < LENGTH(32)"
  then consider "n < 8" | "8 \<le> n" "n < 16" | "16 \<le> n" "n < 24" | "24 \<le> n" "n < 32" by fastforce
  then show "bit (u32_from_be (ucast (drop_bit 24 v)) (ucast (drop_bit 16 v)) (ucast (drop_bit 8 v)) (ucast v)) n = bit v n"
    by cases (auto simp: u32_from_be_def bit_simps)
qed

lemma header_decode_to_bytes:
  "wf_payload_type (payload_type h) \<Longrightarrow> header_decode (to_bytes h @ rest) = Inr h"
  by (cases h) (simp add: header_decode_def to_bytes_def HEADER_LEN_def u16_to_be_def u32_to_be_def
      wf_payload_type_def nth_Cons')

lemma split_frame_written:
  assumes "wf_payload_type t" and "length payload < 2 ^ 32" and "length payload \<le> limit"
  shows "split_frame (to_bytes \<lparr>payload_type = t, payload_len = of_nat (length payload)\<rparr> @ payload @ rest) limit =
     Inr (\<lparr>payload_type = t, payload_len = of_nat (length payload)\<rparr>, payload, rest)"
proof -
  let ?h = "\<lparr>payload_type = t, payload_len = of_nat (length payload)\<rparr>"
  have "unat (of_nat (length payload) :: u32) = length payload"
    using assms(2) by (simp add: unsigned_of_nat take_bit_nat_eq_self)
  moreover have "header_decode (to_bytes ?h @ payload @ rest) = Inr ?h"
    using assms(1) by (simp add: header_decode_to_bytes)
  ultimately show ?thesis using assms(3) by (simp add: split_frame_def Let_def)
qed

lemma write_frame_bytes:
  assumes "write_frame t payload out = Inr (n, out')"
  shows "length payload < 2 ^ 32" and "n = HEADER_LEN + length payload" and "length out' = length out"
    and "take n out' = to_bytes \<lparr>payload_type = t, payload_len = of_nat (length payload)\<rparr> @ payload"
  using assms by (auto simp: write_frame_def write_to_def Let_def ebind_eq_Inr split: if_splits)

lemma write_frame_error:
  assumes "write_frame t payload out = Inl e"
  shows "2 ^ 32 \<le> length payload \<or> length out < HEADER_LEN + length payload"
  using assms by (auto simp: write_frame_def write_to_def Let_def split: if_splits)

section \<open>The contract of a framing\<close>

text \<open>
  What a stream reader relies on: a verdict other than \<open>Incomplete\<close> does not change when more bytes
  arrive, a frame takes at least one byte, and its payload is bounded.
\<close>

locale framing =
  fixes split :: "'b list \<Rightarrow> 'e + ('h \<times> 'b list \<times> 'b list)"
    and need_more :: 'e
    and limit :: nat
  assumes frame_stable: "split input = Inr (h, p, rest) \<Longrightarrow> split (input @ tail) = Inr (h, p, rest @ tail)"
    and error_stable: "split input = Inl e \<Longrightarrow> e \<noteq> need_more \<Longrightarrow> split (input @ tail) = Inl e"
    and frame_shorter: "split input = Inr (h, p, rest) \<Longrightarrow> length rest < length input"
    and payload_bound: "split input = Inr (h, p, rest) \<Longrightarrow> length p \<le> limit"
begin

text \<open>A reader that waits for more bytes loses nothing: any other verdict on the front stands.\<close>

lemma verdict_append:
  assumes "split xs \<noteq> Inl need_more"
  shows "split (xs @ ys) = (case split xs of Inl e \<Rightarrow> Inl e | Inr (h, p, rest) \<Rightarrow> Inr (h, p, rest @ ys))"
  using assms frame_stable error_stable by (auto split: sum.splits)

lemma waiting_prefix: "split (xs @ ys) = Inl need_more \<Longrightarrow> split xs = Inl need_more"
  using verdict_append [of xs ys] by (cases "split xs") (auto split: prod.splits)

end

lemma header_decode_append:
  "header_decode input \<noteq> Inl Incomplete \<Longrightarrow> header_decode (input @ tail) = header_decode input"
  by (auto simp: header_decode_def HEADER_LEN_def nth_append split: if_splits)

lemma header_decode_long: "header_decode input = Inr h \<Longrightarrow> HEADER_LEN \<le> length input"
  by (auto simp: header_decode_def split: if_splits)

lemma split_frame_append:
  "split_frame input limit \<noteq> Inl Incomplete \<Longrightarrow>
     split_frame (input @ tail) limit =
       (case split_frame input limit of Inl e \<Rightarrow> Inl e | Inr (h, p, rest) \<Rightarrow> Inr (h, p, rest @ tail))"
proof (cases "header_decode input")
  case (Inl e)
  assume "split_frame input limit \<noteq> Inl Incomplete"
  then show ?thesis using Inl header_decode_append [of input tail] by (simp add: split_frame_def)
next
  case (Inr h)
  assume *: "split_frame input limit \<noteq> Inl Incomplete"
  have dec: "header_decode (input @ tail) = Inr h" using Inr header_decode_append [of input tail] by simp
  show ?thesis
  proof (cases "unat (payload_len h) > limit")
    case False
    then have "HEADER_LEN + unat (payload_len h) \<le> length input"
      using * Inr by (auto simp: split_frame_def Let_def split: if_splits)
    then show ?thesis using False Inr dec by (simp add: split_frame_def Let_def)
  qed (simp add: split_frame_def Inr dec Let_def)
qed

lemma split_frame_Inr:
  assumes "split_frame input limit = Inr (h, p, rest)"
  shows "length rest < length input" and "length p \<le> limit" and "length p = unat (payload_len h)"
    and "length input = HEADER_LEN + length p + length rest"
  using assms by (auto simp: split_frame_def Let_def ebind_eq_Inr HEADER_LEN_def min_def split: if_splits)

interpretation v2gtp: framing "\<lambda>input. split_frame input limit" Incomplete limit for limit
  by unfold_locales (auto simp: split_frame_append dest: split_frame_Inr(1,2))

section \<open>Properties\<close>

text \<open>
  A frame is read back: what \<open>write_frame\<close> puts into a buffer, \<open>split_frame\<close> takes apart into the same
  payload type, length and payload, and hands back untouched whatever follows it in the stream.
\<close>

lemma frame_roundtrip:
  assumes "write_frame t payload out = Inr (n, out')" and "wf_payload_type t" and "length payload \<le> limit"
  shows "split_frame (take n out' @ rest) limit =
     Inr (\<lparr>payload_type = t, payload_len = of_nat (length payload)\<rparr>, payload, rest)"
  using split_frame_written [OF assms(2) _ assms(3)] write_frame_bytes [OF assms(1)] by simp

lemma frame_roundtrip_witness:
  "\<exists>out'. write_frame Part20Dc [0x80, 0x2A] (replicate 16 0) = Inr (10, out')
     \<and> split_frame (take 10 out' @ [1, 2]) 100 = Inr (\<lparr>payload_type = Part20Dc, payload_len = 2\<rparr>, [0x80, 0x2A], [1, 2])"
proof -
  obtain out' where w: "write_frame Part20Dc [0x80, 0x2A] (replicate 16 0) = Inr (10, out')"
    by (simp add: write_frame_def write_to_def HEADER_LEN_def)
  from frame_roundtrip [OF this, of 100 "[1, 2]"] have
    "split_frame (take 10 out' @ [1, 2]) 100 = Inr (\<lparr>payload_type = Part20Dc, payload_len = 2\<rparr>, [0x80, 0x2A], [1, 2])"
    by (simp add: wf_payload_type_def from_u16_def)
  with w show ?thesis by blast
qed

text \<open>
  A verdict on a prefix of the stream is final: a complete frame is cut out at the same place however
  much follows, its payload never exceeds the limit or the input, and an input that is refused is refused
  as soon as its header is there, with the same error, never waited for.
\<close>

lemma split_frame_final:
  assumes "split_frame input limit \<noteq> Inl Incomplete"
  shows "split_frame (input @ tail) limit =
       (case split_frame input limit of Inl e \<Rightarrow> Inl e | Inr (h, p, rest) \<Rightarrow> Inr (h, p, rest @ tail))
     \<and> (case split_frame input limit of
          Inl e \<Rightarrow> HEADER_LEN \<le> length input
        | Inr (h, p, rest) \<Rightarrow> length p \<le> limit \<and> length p = unat (payload_len h)
            \<and> length input = HEADER_LEN + length p + length rest)"
proof -
  have "HEADER_LEN \<le> length input"
    using assms by (auto simp: split_frame_def header_decode_def split: if_splits)
  then show ?thesis
    using v2gtp.verdict_append [OF assms, of tail] split_frame_Inr [of input limit] by (auto split: sum.splits)
qed

lemma split_frame_final_witness:
  "split_frame ([0x01, 0xFE, 0x80, 0x01, 0, 0, 1, 0] @ [1, 2, 3]) 16 = Inl (PayloadTooLarge 256 16)"
proof -
  have "split_frame [0x01, 0xFE, 0x80, 0x01, 0, 0, 1, 0] 16 = Inl (PayloadTooLarge 256 16)" by code_simp
  with split_frame_final [of "[0x01, 0xFE, 0x80, 0x01, 0, 0, 1, 0]" 16 "[1, 2, 3]"] show ?thesis by simp
qed

text \<open>
  Every 16-bit payload type is classified without loss, and falls into exactly one of the four kinds:
  an EXI message, an SDP request, an SDP response, or a type the receiver has to ignore; only an EXI
  message belongs to any session.
\<close>

lemma payload_type_classified:
  "as_u16 (from_u16 v) = v
   \<and> length (filter id [is_exi (from_u16 v), is_sdp_request (from_u16 v), is_sdp_response (from_u16 v), is_ignorable (from_u16 v)]) = 1
   \<and> \<not> (belongs_to (from_u16 v) p \<and> \<not> is_exi (from_u16 v))"
proof -
  have "length (filter id [is_exi t, is_sdp_request t, is_sdp_response t, is_ignorable t]) = 1" for t
    by (cases t) (simp_all add: is_exi_def is_sdp_request_def is_sdp_response_def)
  then show ?thesis using belongs_to_exi [of "from_u16 v" p] by auto
qed

end
