(* ===== verification/App_Protocol.thy ===== *)
theory App_Protocol
  imports Exi_Complete Protocol V2gtp
begin

text \<open>
  The \<open>supportedAppProtocol\<close> handshake, \<open>src/src/app_protocol.rs\<close>, with the error type of
  \<open>src/src/error.rs\<close> that its validation uses: the two messages, their hand-written EXI grammar, and
  the negotiation. The codec is the source's sequence of encoder and decoder calls; it is shown to be
  an instance of the documents of \<open>Exi_Roundtrip\<close>, from which the round trips follow.

  A namespace on the wire is a Rust string; \<open>ascii_of\<close> compares it with the URIs of the crate, which
  are ASCII.
\<close>

section \<open>Data\<close>

datatype error =
    Err_Exi exi_error
  | Err_V2gtp v2gtp_error
  | Err_InvalidValue string
  | Err_TooManyItems string nat nat
  | Err_TooFewItems string nat nat

definition MAX_APP_PROTOCOLS :: nat where
  "MAX_APP_PROTOCOLS = 20"

definition DEFAULT_ISO20_SETS :: "iso20_set list" where
  "DEFAULT_ISO20_SETS = [Set_Dc, Set_Ac]"

definition MAX_NAMESPACE_LEN :: nat where
  "MAX_NAMESPACE_LEN = 100"

definition NAMESPACE_LEN :: lengths where
  "NAMESPACE_LEN = lengths_max MAX_NAMESPACE_LEN"

definition MAX_PRIORITY :: u8 where
  "MAX_PRIORITY = 20"

definition CTX_PROTOCOL_NAMESPACE :: value_ctx where
  "CTX_PROTOCOL_NAMESPACE = 0"

definition W_ROOT :: nat where
  "W_ROOT = 2"

definition EC_REQ :: u64 where
  "EC_REQ = 0"

definition EC_RES :: u64 where
  "EC_RES = 1"

definition W_ONE :: nat where
  "W_ONE = 1"

definition W_TWO :: nat where
  "W_TWO = 2"

definition W_RESPONSE_CODE :: nat where
  "W_RESPONSE_CODE = 2"

definition SCHEMA_ID_RANGE :: "int \<times> int" where
  "SCHEMA_ID_RANGE = (0, 255)"

definition PRIORITY_RANGE :: "int \<times> int" where
  "PRIORITY_RANGE = (1, uint MAX_PRIORITY)"

lemmas app_consts =
  MAX_APP_PROTOCOLS_def MAX_NAMESPACE_LEN_def NAMESPACE_LEN_def MAX_PRIORITY_def W_ROOT_def EC_REQ_def EC_RES_def
  W_ONE_def W_TWO_def W_RESPONSE_CODE_def SCHEMA_ID_RANGE_def PRIORITY_RANGE_def

definition schema_id_for_index :: "nat \<Rightarrow> u8" where
  "schema_id_for_index index = (if index + 1 \<le> 255 then of_nat (index + 1) else 255)"

record app_protocol =
  ap_namespace :: rstring
  ap_major :: u32
  ap_minor :: u32
  ap_schema_id :: u8
  ap_priority :: u8

text \<open>ASCII text as a Rust string, and back when it is ASCII.\<close>

definition rust_str :: "string \<Rightarrow> rstring" where
  "rust_str s = map (\<lambda>c. of_nat (of_char c)) s"

definition ascii_of :: "rstring \<Rightarrow> string option" where
  "ascii_of s = (if list_all (\<lambda>c. unat c < 128) s then Some (map (\<lambda>c. char_of (unat c)) s) else None)"

definition for_protocol :: "protocol \<Rightarrow> u8 \<Rightarrow> u8 \<Rightarrow> app_protocol" where
  "for_protocol p schema_id priority =
     \<lparr>ap_namespace = rust_str (protocol_namespace p),
      ap_major = of_nat (fst (protocol_version p)), ap_minor = of_nat (snd (protocol_version p)),
      ap_schema_id = schema_id, ap_priority = priority\<rparr>"

definition for_iso20_set :: "iso20_set \<Rightarrow> u8 \<Rightarrow> u8 \<Rightarrow> app_protocol" where
  "for_iso20_set st schema_id priority =
     \<lparr>ap_namespace = rust_str (set_namespace st),
      ap_major = of_nat (fst (protocol_version Iso20)), ap_minor = of_nat (snd (protocol_version Iso20)),
      ap_schema_id = schema_id, ap_priority = priority\<rparr>"

definition entry_protocol :: "app_protocol \<Rightarrow> protocol option" where
  "entry_protocol a = Option.bind (ascii_of (ap_namespace a)) protocol_from_namespace"

definition entry_iso20_set :: "app_protocol \<Rightarrow> iso20_set option" where
  "entry_iso20_set a = Option.bind (ascii_of (ap_namespace a)) set_from_namespace"

definition entry_validate :: "app_protocol \<Rightarrow> error + unit" where
  "entry_validate a =
     (if char_len (ap_namespace a) > MAX_NAMESPACE_LEN then Inl (Err_InvalidValue ''AppProtocol.ProtocolNamespace'')
      else if \<not> (1 \<le> ap_priority a \<and> ap_priority a \<le> MAX_PRIORITY) then Inl (Err_InvalidValue ''AppProtocol.Priority'')
      else Inr ())"

section \<open>The codec of an entry\<close>

definition dec_expect :: "nat \<Rightarrow> u64 \<Rightarrow> decoder \<Rightarrow> exi_error + decoder" where
  "dec_expect width code d =
     ebind (dec_event width d) (\<lambda>(c, d). if c = code then Inr d else Inl UnknownEventCode)"

definition u8_try_from :: "int \<Rightarrow> u8 option" where
  "u8_try_from v = (if 0 \<le> v \<and> v < 256 then Some (of_int v) else None)"

definition entry_encode :: "app_protocol \<Rightarrow> encoder \<Rightarrow> exi_error + encoder" where
  "entry_encode a e =
     (let (res, e) = enc_enter e in
      ebind res (\<lambda>_.
      ebind (enc_event 0 W_ONE e) (\<lambda>e.
      ebind (enc_event 0 W_ONE e) (\<lambda>e.
      ebind (enc_string CTX_PROTOCOL_NAMESPACE (ap_namespace a) NAMESPACE_LEN e) (\<lambda>e.
      ebind (enc_event 0 W_ONE e) (\<lambda>e.
      ebind (enc_event 0 W_ONE e) (\<lambda>e.
      ebind (enc_event 0 W_ONE e) (\<lambda>e.
      ebind (enc_uint (ucast (ap_major a)) e) (\<lambda>e.
      ebind (enc_event 0 W_ONE e) (\<lambda>e.
      ebind (enc_event 0 W_ONE e) (\<lambda>e.
      ebind (enc_event 0 W_ONE e) (\<lambda>e.
      ebind (enc_uint (ucast (ap_minor a)) e) (\<lambda>e.
      ebind (enc_event 0 W_ONE e) (\<lambda>e.
      ebind (enc_event 0 W_ONE e) (\<lambda>e.
      ebind (enc_event 0 W_ONE e) (\<lambda>e.
      ebind (enc_restricted (uint (ap_schema_id a)) (fst SCHEMA_ID_RANGE) (snd SCHEMA_ID_RANGE) e) (\<lambda>e.
      ebind (enc_event 0 W_ONE e) (\<lambda>e.
      ebind (enc_event 0 W_ONE e) (\<lambda>e.
      ebind (enc_event 0 W_ONE e) (\<lambda>e.
      ebind (enc_restricted (uint (ap_priority a)) (fst PRIORITY_RANGE) (snd PRIORITY_RANGE) e) (\<lambda>e.
      ebind (enc_event 0 W_ONE e) (\<lambda>e.
      ebind (enc_event 0 W_ONE e) (\<lambda>e.
      Inr (enc_leave e))))))))))))))))))))))))"

definition entry_decode :: "decoder \<Rightarrow> exi_error + (app_protocol \<times> decoder)" where
  "entry_decode d =
     (let (res, d) = dec_enter d in
      ebind res (\<lambda>_.
      ebind (dec_expect W_ONE 0 d) (\<lambda>d.
      ebind (dec_expect W_ONE 0 d) (\<lambda>d.
      ebind (dec_string CTX_PROTOCOL_NAMESPACE NAMESPACE_LEN d) (\<lambda>(namespace, d).
      ebind (dec_expect W_ONE 0 d) (\<lambda>d.
      ebind (dec_expect W_ONE 0 d) (\<lambda>d.
      ebind (dec_expect W_ONE 0 d) (\<lambda>d.
      ebind (dec_uint d) (\<lambda>(v, d).
      ebind (ok_or (u32_try_from v) IntegerOverflow) (\<lambda>major.
      ebind (dec_expect W_ONE 0 d) (\<lambda>d.
      ebind (dec_expect W_ONE 0 d) (\<lambda>d.
      ebind (dec_expect W_ONE 0 d) (\<lambda>d.
      ebind (dec_uint d) (\<lambda>(v, d).
      ebind (ok_or (u32_try_from v) IntegerOverflow) (\<lambda>minor.
      ebind (dec_expect W_ONE 0 d) (\<lambda>d.
      ebind (dec_expect W_ONE 0 d) (\<lambda>d.
      ebind (dec_expect W_ONE 0 d) (\<lambda>d.
      ebind (dec_restricted (fst SCHEMA_ID_RANGE) (snd SCHEMA_ID_RANGE) d) (\<lambda>(v, d).
      ebind (ok_or (u8_try_from v) ValueOutOfRange) (\<lambda>schema_id.
      ebind (dec_expect W_ONE 0 d) (\<lambda>d.
      ebind (dec_expect W_ONE 0 d) (\<lambda>d.
      ebind (dec_expect W_ONE 0 d) (\<lambda>d.
      ebind (dec_restricted (fst PRIORITY_RANGE) (snd PRIORITY_RANGE) d) (\<lambda>(v, d).
      ebind (ok_or (u8_try_from v) ValueOutOfRange) (\<lambda>priority.
      ebind (dec_expect W_ONE 0 d) (\<lambda>d.
      ebind (dec_expect W_ONE 0 d) (\<lambda>d.
      Inr (\<lparr>ap_namespace = namespace, ap_major = major, ap_minor = minor, ap_schema_id = schema_id,
            ap_priority = priority\<rparr>, dec_leave d))))))))))))))))))))))))))))"

section \<open>Negotiation\<close>

text \<open>\<open>SupportedAppProtocolReq\<close> is the list of its entries.\<close>

type_synonym app_req = "app_protocol list"

fun push_sets :: "iso20_set list \<Rightarrow> iso20_set list \<Rightarrow> app_req \<Rightarrow> app_req" where
  "push_sets before [] acc = acc"
| "push_sets before (st # sts) acc =
     (if List.member before st then push_sets (before @ [st]) sts acc
      else let n = schema_id_for_index (length acc) in
        push_sets (before @ [st]) sts (acc @ [for_iso20_set st n n]))"

fun push_protocols :: "iso20_set list \<Rightarrow> protocol list \<Rightarrow> app_req \<Rightarrow> app_req" where
  "push_protocols sets [] acc = acc"
| "push_protocols sets (p # ps) acc =
     (if p = Iso20 then push_protocols sets ps (push_sets [] sets acc)
      else let n = schema_id_for_index (length acc) in
        push_protocols sets ps (acc @ [for_protocol p n n]))"

definition advertising_with :: "protocols \<Rightarrow> iso20_set list \<Rightarrow> app_req" where
  "advertising_with protocols sets = take MAX_APP_PROTOCOLS (push_protocols sets (protocols_iter protocols) [])"

definition advertising :: "protocols \<Rightarrow> app_req" where
  "advertising protocols = advertising_with protocols DEFAULT_ISO20_SETS"

definition protocol_for_schema_id :: "app_req \<Rightarrow> u8 \<Rightarrow> protocol option" where
  "protocol_for_schema_id req i = Option.bind (List.find (\<lambda>a. ap_schema_id a = i) req) entry_protocol"

fun validate_entries :: "app_protocol list \<Rightarrow> error + unit" where
  "validate_entries [] = Inr ()"
| "validate_entries (a # as) = ebind (entry_validate a) (\<lambda>_. validate_entries as)"

definition req_validate :: "app_req \<Rightarrow> error + unit" where
  "req_validate req =
     (if req = [] then Inl (Err_TooFewItems ''supportedAppProtocolReq.AppProtocol'' 0 1)
      else if length req > MAX_APP_PROTOCOLS
      then Inl (Err_TooManyItems ''supportedAppProtocolReq.AppProtocol'' (length req) MAX_APP_PROTOCOLS)
      else validate_entries req)"

record negotiated =
  ng_protocol :: protocol
  ng_iso20_set :: "iso20_set option"
  ng_schema_id :: u8
  ng_minor_deviation :: bool

text \<open>One round of the loop of \<open>negotiate_with\<close>; every \<open>continue\<close> keeps the best entry so far.\<close>

definition negotiate_step ::
    "protocols \<Rightarrow> iso20_set list \<Rightarrow> (u8 \<times> negotiated) option \<Rightarrow> app_protocol \<Rightarrow> (u8 \<times> negotiated) option" where
  "negotiate_step supported sets best entry =
     (case entry_protocol entry of
        None \<Rightarrow> best
      | Some p \<Rightarrow>
        if \<not> protocols_contains supported p then best
        else let st = entry_iso20_set entry in
          if (case st of None \<Rightarrow> False | Some s \<Rightarrow> \<not> List.member sets s) then best
          else let (major, minor) = protocol_version p in
            if ap_major entry \<noteq> of_nat major then best
            else if (case best of None \<Rightarrow> False | Some (q, _) \<Rightarrow> q \<le> ap_priority entry) then best
            else Some (ap_priority entry,
              \<lparr>ng_protocol = p, ng_iso20_set = st, ng_schema_id = ap_schema_id entry,
               ng_minor_deviation = (ap_minor entry \<noteq> of_nat minor)\<rparr>))"

definition negotiate_with :: "protocols \<Rightarrow> iso20_set list \<Rightarrow> app_req \<Rightarrow> negotiated option" where
  "negotiate_with supported sets req = map_option snd (foldl (negotiate_step supported sets) None req)"

definition negotiate :: "protocols \<Rightarrow> app_req \<Rightarrow> negotiated option" where
  "negotiate supported req = negotiate_with supported Iso20Set_ALL req"

datatype app_response_code =
    OkSuccessfulNegotiation
  | OkSuccessfulNegotiationWithMinorDeviation
  | FailedNoNegotiation

fun response_code_index :: "app_response_code \<Rightarrow> u64" where
  "response_code_index OkSuccessfulNegotiation = 0"
| "response_code_index OkSuccessfulNegotiationWithMinorDeviation = 1"
| "response_code_index FailedNoNegotiation = 2"

definition response_code_from_index :: "u64 \<Rightarrow> exi_error + app_response_code" where
  "response_code_from_index i =
     (if i = 0 then Inr OkSuccessfulNegotiation
      else if i = 1 then Inr OkSuccessfulNegotiationWithMinorDeviation
      else if i = 2 then Inr FailedNoNegotiation
      else Inl UnknownEnumValue)"

definition app_code_is_ok :: "app_response_code \<Rightarrow> bool" where
  "app_code_is_ok c \<longleftrightarrow> c = OkSuccessfulNegotiation \<or> c = OkSuccessfulNegotiationWithMinorDeviation"

definition negotiated_response_code :: "negotiated \<Rightarrow> app_response_code" where
  "negotiated_response_code n =
     (if ng_minor_deviation n then OkSuccessfulNegotiationWithMinorDeviation else OkSuccessfulNegotiation)"

record app_res =
  res_response_code :: app_response_code
  res_schema_id :: "u8 option"

definition res_accept :: "negotiated \<Rightarrow> app_res" where
  "res_accept n = \<lparr>res_response_code = negotiated_response_code n, res_schema_id = Some (ng_schema_id n)\<rparr>"

definition res_reject :: app_res where
  "res_reject = \<lparr>res_response_code = FailedNoNegotiation, res_schema_id = None\<rparr>"

definition res_validate :: "app_res \<Rightarrow> error + unit" where
  "res_validate r =
     (if app_code_is_ok (res_response_code r) \<longleftrightarrow> res_schema_id r \<noteq> None then Inr ()
      else Inl (Err_InvalidValue ''supportedAppProtocolRes.SchemaID''))"

section \<open>The codecs of the two messages\<close>

text \<open>The loop over the entries, with the index that \<open>enumerate\<close> counts.\<close>

fun req_encode_entries :: "nat \<Rightarrow> app_protocol list \<Rightarrow> encoder \<Rightarrow> exi_error + encoder" where
  "req_encode_entries i [] e = Inr e"
| "req_encode_entries i (a # as) e =
     ebind (if i = 0 then enc_event 0 W_ONE e else enc_event 0 W_TWO e) (\<lambda>e.
     ebind (entry_encode a e) (req_encode_entries (i + 1) as))"

definition req_to_slice_with :: "app_req \<Rightarrow> value_coding \<Rightarrow> bytes \<Rightarrow> exi_error + (nat \<times> bytes)" where
  "req_to_slice_with req coding buf =
     (if req = [] \<or> length req > MAX_APP_PROTOCOLS then Inl ValueTooLong
      else
        ebind (enc_write_header ISO15118 (enc_with_value_coding buf coding)) (\<lambda>e.
        ebind (enc_event EC_REQ W_ROOT e) (\<lambda>e.
        ebind (req_encode_entries 0 req e) (\<lambda>e.
        ebind (if length req = MAX_APP_PROTOCOLS then enc_event 0 W_ONE e else enc_event 1 W_TWO e) enc_finish))))"

text \<open>
  The decoding loop; its first argument is the number of entries that may still follow, the distance of
  \<open>app_protocols.len()\<close> from \<open>MAX_APP_PROTOCOLS\<close>, which the source compares.
\<close>

fun req_decode_loop :: "nat \<Rightarrow> app_protocol list \<Rightarrow> decoder \<Rightarrow> exi_error + (app_protocol list \<times> decoder)" where
  "req_decode_loop 0 acc d = ebind (dec_expect W_ONE 0 d) (\<lambda>d. Inr (acc, d))"
| "req_decode_loop (Suc room) acc d =
     ebind (dec_event W_TWO d) (\<lambda>(c, d).
     if c = 0 then ebind (entry_decode d) (\<lambda>(a, d). req_decode_loop room (acc @ [a]) d)
     else if c = 1 then Inr (acc, d)
     else Inl UnknownEventCode)"

definition req_from_bytes :: "bytes \<Rightarrow> exi_error + app_req" where
  "req_from_bytes buf =
     ebind (dec_read_header (dec_new buf)) (\<lambda>(_, d).
     ebind (dec_event W_ROOT d) (\<lambda>(c, d).
     if c \<noteq> EC_REQ then Inl UnknownEventCode
     else
       ebind (dec_expect W_ONE 0 d) (\<lambda>d.
       ebind (entry_decode d) (\<lambda>(a, d).
       ebind (req_decode_loop (MAX_APP_PROTOCOLS - 1) [a] d) (\<lambda>(as, d).
       ebind (dec_finish d) (\<lambda>_. Inr as))))))"

definition res_to_slice_with :: "app_res \<Rightarrow> value_coding \<Rightarrow> bytes \<Rightarrow> exi_error + (nat \<times> bytes)" where
  "res_to_slice_with r coding buf =
     ebind (enc_write_header ISO15118 (enc_with_value_coding buf coding)) (\<lambda>e.
     ebind (enc_event EC_RES W_ROOT e) (\<lambda>e.
     ebind (enc_event 0 W_ONE e) (\<lambda>e.
     ebind (enc_event 0 W_ONE e) (\<lambda>e.
     ebind (enc_nbit (response_code_index (res_response_code r)) W_RESPONSE_CODE e) (\<lambda>e.
     ebind (enc_event 0 W_ONE e) (\<lambda>e.
     ebind (case res_schema_id r of
         Some i \<Rightarrow>
           ebind (enc_event 0 W_TWO e) (\<lambda>e.
           ebind (enc_event 0 W_ONE e) (\<lambda>e.
           ebind (enc_restricted (uint i) (fst SCHEMA_ID_RANGE) (snd SCHEMA_ID_RANGE) e) (\<lambda>e.
           ebind (enc_event 0 W_ONE e) (\<lambda>e.
           enc_event 0 W_ONE e))))
       | None \<Rightarrow> enc_event 1 W_TWO e) enc_finish))))))"

definition res_from_bytes :: "bytes \<Rightarrow> exi_error + app_res" where
  "res_from_bytes buf =
     ebind (dec_read_header (dec_new buf)) (\<lambda>(_, d).
     ebind (dec_event W_ROOT d) (\<lambda>(c, d).
     if c \<noteq> EC_RES then Inl UnknownEventCode
     else
       ebind (dec_expect W_ONE 0 d) (\<lambda>d.
       ebind (dec_expect W_ONE 0 d) (\<lambda>d.
       ebind (dec_nbit W_RESPONSE_CODE d) (\<lambda>(v, d).
       ebind (response_code_from_index v) (\<lambda>code.
       ebind (dec_expect W_ONE 0 d) (\<lambda>d.
       ebind (dec_event W_TWO d) (\<lambda>(c, d).
       ebind (if c = 0 then
           ebind (dec_expect W_ONE 0 d) (\<lambda>d.
           ebind (dec_restricted (fst SCHEMA_ID_RANGE) (snd SCHEMA_ID_RANGE) d) (\<lambda>(v, d).
           ebind (ok_or (u8_try_from v) ValueOutOfRange) (\<lambda>i.
           ebind (dec_expect W_ONE 0 d) (\<lambda>d.
           ebind (dec_expect W_ONE 0 d) (\<lambda>d.
           Inr (Some i, d))))))
         else if c = 1 then Inr (None, d)
         else Inl UnknownEventCode) (\<lambda>(schema_id, d).
       ebind (dec_finish d) (\<lambda>_.
       Inr \<lparr>res_response_code = code, res_schema_id = schema_id\<rparr>))))))))))"

section \<open>The codecs as sequences of operations\<close>

definition entry_items :: "app_protocol \<Rightarrow> exi_item list" where
  "entry_items a =
     [I_Enter, I_Event 0 W_ONE, I_Event 0 W_ONE, I_String CTX_PROTOCOL_NAMESPACE (ap_namespace a) NAMESPACE_LEN,
      I_Event 0 W_ONE, I_Event 0 W_ONE, I_Event 0 W_ONE, I_Uint (ucast (ap_major a)),
      I_Event 0 W_ONE, I_Event 0 W_ONE, I_Event 0 W_ONE, I_Uint (ucast (ap_minor a)),
      I_Event 0 W_ONE, I_Event 0 W_ONE, I_Event 0 W_ONE,
      I_Restricted (uint (ap_schema_id a)) (fst SCHEMA_ID_RANGE) (snd SCHEMA_ID_RANGE),
      I_Event 0 W_ONE, I_Event 0 W_ONE, I_Event 0 W_ONE,
      I_Restricted (uint (ap_priority a)) (fst PRIORITY_RANGE) (snd PRIORITY_RANGE),
      I_Event 0 W_ONE, I_Event 0 W_ONE, I_Leave]"

fun entries_items :: "nat \<Rightarrow> app_protocol list \<Rightarrow> exi_item list" where
  "entries_items i [] = []"
| "entries_items i (a # as) = I_Event 0 (if i = 0 then W_ONE else W_TWO) # entry_items a @ entries_items (i + 1) as"

definition end_item :: "nat \<Rightarrow> exi_item" where
  "end_item n = (if n = MAX_APP_PROTOCOLS then I_Event 0 W_ONE else I_Event 1 W_TWO)"

definition req_items :: "app_req \<Rightarrow> exi_item list" where
  "req_items req = I_Event EC_REQ W_ROOT # entries_items 0 req @ [end_item (length req)]"

definition res_items :: "app_res \<Rightarrow> exi_item list" where
  "res_items r =
     [I_Event EC_RES W_ROOT, I_Event 0 W_ONE, I_Event 0 W_ONE,
      I_Nbit (response_code_index (res_response_code r)) W_RESPONSE_CODE, I_Event 0 W_ONE]
     @ (case res_schema_id r of
          Some i \<Rightarrow> [I_Event 0 W_TWO, I_Event 0 W_ONE,
            I_Restricted (uint i) (fst SCHEMA_ID_RANGE) (snd SCHEMA_ID_RANGE), I_Event 0 W_ONE, I_Event 0 W_ONE]
        | None \<Rightarrow> [I_Event 1 W_TWO])"

lemma encode_items_fun:
  "encode_items [] = Inr" "encode_items (it # its) = (\<lambda>e. ebind (encode_item it e) (encode_items its))"
  by (simp_all add: fun_eq_iff)

lemma encode_items_append: "encode_items (xs @ ys) = (\<lambda>e. ebind (encode_items xs e) (encode_items ys))"
  by (induction xs) (simp_all add: encode_items_fun ebind_assoc)

lemma decode_items_length: "decode_items its d = Inr (vs, d') \<Longrightarrow> length vs = length its"
  by (induction its arbitrary: d vs) (auto simp: ebind_eq_Inr)

lemma decode_items_append:
  "decode_items (xs @ ys) d = Inr (xs @ ys, d') \<Longrightarrow>
     \<exists>d1. decode_items xs d = Inr (xs, d1) \<and> decode_items ys d1 = Inr (ys, d')"
  by (induction xs arbitrary: d) (fastforce simp: ebind_eq_Inr)+

lemma entry_encode_items: "entry_encode a e = encode_items (entry_items a) e"
  by (simp add: entry_encode_def entry_items_def encode_items_fun Let_def ebind_assoc split: prod.splits)

lemma req_encode_entries_items: "req_encode_entries i as = encode_items (entries_items i as)"
proof (induction as arbitrary: i)
  case (Cons a as)
  then show ?case by (intro ext) (simp add: entry_encode_items encode_items_append ebind_assoc)
qed (simp add: fun_eq_iff)

lemma req_to_slice_items:
  "req \<noteq> [] \<Longrightarrow> length req \<le> MAX_APP_PROTOCOLS \<Longrightarrow>
     req_to_slice_with req coding buf = encode_document ISO15118 (req_items req) coding buf"
  by (simp add: req_to_slice_with_def encode_document_def req_items_def end_item_def req_encode_entries_items
      encode_items_append encode_items_fun ebind_assoc)

lemma res_to_slice_items: "res_to_slice_with r coding buf = encode_document ISO15118 (res_items r) coding buf"
  by (cases "res_schema_id r") (simp_all add: res_to_slice_with_def encode_document_def res_items_def encode_items_fun ebind_assoc)

section \<open>Decoding follows the items\<close>

lemma decode_event_expect:
  "decode_item (I_Event c w) d = Inr (I_Event c w, d') \<longleftrightarrow> dec_expect w c d = Inr d'"
  by (auto simp: dec_expect_def ebind_eq_Inr split: if_splits)

lemma decode_event_code: "decode_item (I_Event c w) d = Inr (I_Event c w, d') \<longleftrightarrow> dec_event w d = Inr (c, d')"
  by (auto simp: ebind_eq_Inr)

lemma decode_items_Cons:
  "decode_items (it # its) d = Inr (it # its, d') \<longleftrightarrow>
     (\<exists>d1. decode_item it d = Inr (it, d1) \<and> decode_items its d1 = Inr (its, d'))"
  by (fastforce simp: ebind_eq_Inr)

lemma u8_try_from_uint [simp]: "u8_try_from (uint v) = Some v"
  using unsigned_less [of v] by (simp add: u8_try_from_def)

lemma u32_try_from_ucast [simp]: "u32_try_from (ucast v) = Some v"
proof -
  have "unat (ucast v :: u64) = unat v" using unsigned_less [of v, where 'a = nat] by (simp add: unsigned_ucast_eq take_bit_nat_eq_self)
  moreover have "ucast (ucast v :: u64) = v" by (rule bit_word_eqI) (simp add: bit_simps)
  ultimately show ?thesis using unsigned_less [of v, where 'a = nat] by (simp add: u32_try_from_def)
qed

lemma response_code_from_index_index [simp]: "response_code_from_index (response_code_index c) = Inr c"
  by (cases c) (simp_all add: response_code_from_index_def)

lemmas decode_items_simps = decode_items_Cons decode_event_expect

lemma entry_decode_items:
  assumes "decode_items (entry_items a) d = Inr (entry_items a, d')"
  shows "entry_decode d = Inr (a, d')"
  using assms unfolding entry_items_def
  by (auto simp: decode_items_simps entry_decode_def ebind_eq_Inr simp del: decode_item.simps(1) decode_items.simps(2)
      split: prod.splits)

lemma req_decode_loop_items:
  assumes "decode_items (entries_items i as @ [end_item (i + length as)]) d =
      Inr (entries_items i as @ [end_item (i + length as)], d')"
    and "0 < i" and "i + length as \<le> MAX_APP_PROTOCOLS"
  shows "req_decode_loop (MAX_APP_PROTOCOLS - i) acc d = Inr (acc @ as, d')"
  using assms
proof (induction as arbitrary: i acc d)
  case Nil
  then show ?case
    by (cases "MAX_APP_PROTOCOLS - i") (auto simp: end_item_def decode_items_simps decode_event_code simp del: decode_item.simps(1)
        dest: decode_event_code [THEN iffD1] simp: dec_expect_def ebind_eq_Inr split: if_splits)
next
  case (Cons a as)
  have room: "MAX_APP_PROTOCOLS - i = Suc (MAX_APP_PROTOCOLS - (i + 1))" using Cons.prems(3) by simp
  have "decode_items (I_Event 0 W_TWO # entry_items a @ entries_items (i + 1) as @ [end_item (i + 1 + length as)]) d =
      Inr (I_Event 0 W_TWO # entry_items a @ entries_items (i + 1) as @ [end_item (i + 1 + length as)], d')"
    using Cons.prems(1,2) by simp
  then obtain d1 d2 where "dec_event W_TWO d = Inr (0, d1)" "decode_items (entry_items a) d1 = Inr (entry_items a, d2)"
      "decode_items (entries_items (i + 1) as @ [end_item (i + 1 + length as)]) d2 =
         Inr (entries_items (i + 1) as @ [end_item (i + 1 + length as)], d')"
    unfolding decode_items_Cons decode_event_code using decode_items_append by blast
  moreover from this(3) have "req_decode_loop (MAX_APP_PROTOCOLS - (i + 1)) (acc @ [a]) d2 = Inr ((acc @ [a]) @ as, d')"
    by (rule Cons.IH) (use Cons.prems(3) in simp_all)
  ultimately show ?case using room entry_decode_items by simp
qed

lemma req_from_bytes_items:
  assumes "decode_document (req_items req) buf = Inr (h, req_items req)"
    and "req \<noteq> []" and "length req \<le> MAX_APP_PROTOCOLS"
  shows "req_from_bytes buf = Inr req"
proof -
  obtain a as where req: "req = a # as" using assms(2) by (cases req) auto
  let ?rest = "entries_items 1 as @ [end_item (1 + length as)]"
  obtain d d' where hd: "dec_read_header (dec_new buf) = Inr (h, d)" "dec_finish d' = Inr ()"
    and "decode_items (I_Event EC_REQ W_ROOT # I_Event 0 W_ONE # entry_items a @ ?rest) d =
      Inr (I_Event EC_REQ W_ROOT # I_Event 0 W_ONE # entry_items a @ ?rest, d')"
    using assms(1) by (fastforce simp: decode_document_def ebind_eq_Inr req_items_def req simp del: decode_items.simps)
  then obtain d1 d2 d3 where "dec_event W_ROOT d = Inr (EC_REQ, d1)" "dec_expect W_ONE 0 d1 = Inr d2"
      "decode_items (entry_items a) d2 = Inr (entry_items a, d3)" "decode_items ?rest d3 = Inr (?rest, d')"
    unfolding decode_items_Cons [of "I_Event EC_REQ W_ROOT"] decode_items_Cons [of "I_Event 0 W_ONE"]
      decode_event_code [of EC_REQ] decode_event_expect [of 0 W_ONE] using decode_items_append by blast
  moreover from this(4) have "req_decode_loop (MAX_APP_PROTOCOLS - 1) [a] d3 = Inr ([a] @ as, d')"
    by (rule req_decode_loop_items) (use assms(3) req in simp_all)
  ultimately show ?thesis using hd entry_decode_items by (simp add: req_from_bytes_def req)
qed

lemma res_from_bytes_items:
  assumes "decode_document (res_items r) buf = Inr (h, res_items r)"
  shows "res_from_bytes buf = Inr r"
  using assms
  by (cases "res_schema_id r")
    (clarsimp simp: decode_document_def ebind_eq_Inr res_items_def, simp add: res_from_bytes_def dec_expect_def)+

section \<open>Only valid messages are written\<close>

lemma entry_encode_valid:
  assumes "entry_encode a e = Inr e'"
  shows "entry_validate a = Inr ()"
  using assms
  by (auto simp: entry_encode_def entry_validate_def ebind_eq_Inr enc_string_def enc_restricted_def Let_def lengths_check_ok
      admits_def lengths_max_def app_consts word_le_def split: prod.splits if_splits)

lemma req_encode_entries_valid: "req_encode_entries i as e = Inr e' \<Longrightarrow> validate_entries as = Inr ()"
  by (induction as arbitrary: i e) (auto simp: ebind_eq_Inr dest: entry_encode_valid)

lemma req_to_slice_valid: "req_to_slice_with req coding buf = Inr (n, out) \<Longrightarrow> req_validate req = Inr ()"
  by (auto simp: req_to_slice_with_def req_validate_def ebind_eq_Inr dest: req_encode_entries_valid split: if_splits)

text \<open>What \<open>validate\<close> passes are valid items; the strings are Rust strings.\<close>

lemma i64_range_u8 [simp]: "i64_range (uint (v :: u8))"
  using unsigned_less [of v, where 'a = int] by (auto simp: i64_range_def intro: order.trans [OF _ unsigned_greater_eq])

lemma i64_range_facets [simp]: "i64_range 0" "i64_range 1" "i64_range 20" "i64_range 255"
  by (simp_all add: i64_range_def)

lemma valid_entry_items:
  assumes "entry_validate a = Inr ()" and "wf_string (ap_namespace a)"
  shows "list_all valid_item (entry_items a)"
  using assms by (auto simp: entry_items_def entry_validate_def char_len_def fits_bits_def app_consts
      split: if_splits)

lemma valid_entries_items:
  "validate_entries as = Inr () \<Longrightarrow> list_all (\<lambda>a. wf_string (ap_namespace a)) as \<Longrightarrow> list_all valid_item (entries_items i as)"
  by (induction as arbitrary: i) (auto simp: ebind_eq_Inr valid_entry_items fits_bits_def app_consts)

lemma length_entries_items: "length (entries_items i as) = 24 * length as"
  by (induction as arbitrary: i) (simp_all add: entry_items_def)

lemma valid_req_items:
  assumes "req_validate req = Inr ()" and "list_all (\<lambda>a. wf_string (ap_namespace a)) req"
  shows "list_all valid_item (req_items req) \<and> length (req_items req) + 1 < 2 ^ 64"
  using assms valid_entries_items [of req 0]
  by (auto simp: req_items_def req_validate_def length_entries_items end_item_def fits_bits_def app_consts split: if_splits)

lemma req_roundtrip_aux:
  assumes "list_all (\<lambda>a. wf_string (ap_namespace a)) req" and "req_to_slice_with req coding buf = Inr (n, out)"
  shows "req_from_bytes (take n out) = Inr req"
proof -
  have v: "req_validate req = Inr ()" using req_to_slice_valid [OF assms(2)] .
  then have ne: "req \<noteq> []" "length req \<le> MAX_APP_PROTOCOLS" by (auto simp: req_validate_def split: if_splits)
  have "encode_document ISO15118 (req_items req) coding buf = Inr (n, out)" using req_to_slice_items [OF ne] assms(2) by simp
  then have "decode_document (req_items req) (take n out) = Inr (ISO15118, req_items req)"
    using valid_req_items [OF v assms(1)] by (intro document_roundtrip_aux) (simp_all add: ISO15118_def)
  then show ?thesis using req_from_bytes_items ne by blast
qed

lemma res_roundtrip_aux:
  assumes "res_to_slice_with r coding buf = Inr (n, out)"
  shows "res_from_bytes (take n out) = Inr r"
proof (rule res_from_bytes_items)
  have "list_all valid_item (res_items r)"
    by (cases "res_response_code r"; cases "res_schema_id r") (simp_all add: res_items_def fits_bits_def app_consts)
  then show "decode_document (res_items r) (take n out) = Inr (ISO15118, res_items r)"
    using assms by (intro document_roundtrip_aux) (simp_all add: ISO15118_def res_to_slice_items res_items_def split: option.splits)
qed

text \<open>A valid request fits into 22000 bytes, whatever its namespaces are.\<close>

lemma entry_items_ok:
  assumes "entry_validate a = Inr ()" and "items_ok 0 its"
  shows "items_ok 0 (entry_items a @ its)" and "sum_list (map item_bits (entry_items a)) \<le> 8500"
proof -
  have v: "length (ap_namespace a) \<le> 100" "1 \<le> uint (ap_priority a)" "uint (ap_priority a) \<le> 20"
    using assms(1) by (auto simp: entry_validate_def char_len_def app_consts word_le_def split: if_splits)
  have "0 \<le> uint (ap_schema_id a)" "uint (ap_schema_id a) \<le> 255" using unsigned_less [of "ap_schema_id a", where 'a = int] by auto
  with v assms(2) show "items_ok 0 (entry_items a @ its)"
    by (simp add: entry_items_def app_consts MAX_DEPTH_def admits_def lengths_max_def)
  show "sum_list (map item_bits (entry_items a)) \<le> 8500" using v(1) by (simp add: entry_items_def app_consts)
qed

lemma entries_items_ok:
  "validate_entries as = Inr () \<Longrightarrow> items_ok 0 its \<Longrightarrow>
     items_ok 0 (entries_items i as @ its) \<and> sum_list (map item_bits (entries_items i as)) \<le> 8502 * length as"
proof (induction as arbitrary: i)
  case (Cons a as)
  then have "entry_validate a = Inr ()" "validate_entries as = Inr ()" by (auto simp: ebind_eq_Inr)
  moreover from Cons this have "items_ok 0 (entries_items (i + 1) as @ its)"
    "sum_list (map item_bits (entries_items (i + 1) as)) \<le> 8502 * length as" by blast+
  ultimately show ?case using entry_items_ok [of a "entries_items (i + 1) as @ its"] by (auto simp: app_consts)
qed simp

lemma req_to_slice_room:
  assumes "req_validate req = Inr ()" and "22000 \<le> length buf"
  shows "\<exists>n out. req_to_slice_with req Literal buf = Inr (n, out)"
proof -
  have v: "req \<noteq> []" "length req \<le> MAX_APP_PROTOCOLS" "validate_entries req = Inr ()"
    using assms(1) by (auto simp: req_validate_def split: if_splits)
  have ok: "items_ok 0 (entries_items 0 req @ [end_item (length req)])"
      "sum_list (map item_bits (entries_items 0 req)) \<le> 8502 * length req"
    using entries_items_ok [OF v(3), of "[end_item (length req)]" 0] by (auto simp: end_item_def)
  have "sum_list (map item_bits (req_items req)) \<le> 8502 * length req + 4"
    using ok(2) by (simp add: req_items_def end_item_def app_consts)
  then have "40 + sum_list (map item_bits (req_items req)) \<le> 8 * length buf"
    using v(2) assms(2) by (simp add: app_consts)
  then show ?thesis using encode_document_room [of ISO15118 "req_items req" buf] ok(1)
    by (simp add: req_to_slice_items v(1,2) ISO15118_def req_items_def)
qed

lemma res_to_slice_room: "50 \<le> length buf \<Longrightarrow> \<exists>n out. res_to_slice_with r Literal buf = Inr (n, out)"
proof -
  assume len: "50 \<le> length buf"
  have "uint i \<le> 255" for i :: u8 using unsigned_less [of i, where 'a = int] by simp
  then have "items_ok 0 (res_items r)" by (simp add: res_items_def app_consts split: option.splits)
  moreover have "40 + sum_list (map item_bits (res_items r)) \<le> 8 * length buf"
    using len by (simp add: res_items_def app_consts split: option.splits)
  ultimately show ?thesis using encode_document_room [of ISO15118] by (simp add: res_to_slice_items ISO15118_def)
qed

section \<open>Negotiation picks the vehicle's first choice\<close>

text \<open>The entries a station can take, and what it makes of one.\<close>

definition acceptable :: "protocols \<Rightarrow> iso20_set list \<Rightarrow> app_protocol \<Rightarrow> bool" where
  "acceptable supported sets a \<longleftrightarrow>
     (case entry_protocol a of None \<Rightarrow> False
      | Some p \<Rightarrow> protocols_contains supported p \<and> (\<forall>s. entry_iso20_set a = Some s \<longrightarrow> s \<in> set sets)
          \<and> ap_major a = of_nat (fst (protocol_version p)))"

definition outcome_of :: "app_protocol \<Rightarrow> negotiated" where
  "outcome_of a =
     (let p = the (entry_protocol a) in
      \<lparr>ng_protocol = p, ng_iso20_set = entry_iso20_set a, ng_schema_id = ap_schema_id a,
       ng_minor_deviation = (ap_minor a \<noteq> of_nat (snd (protocol_version p)))\<rparr>)"

text \<open>The first entry of least priority value among the acceptable ones.\<close>

definition first_choice :: "('a \<Rightarrow> bool) \<Rightarrow> ('a \<Rightarrow> 'k::linorder) \<Rightarrow> 'a list \<Rightarrow> 'a \<Rightarrow> bool" where
  "first_choice ok key xs x \<longleftrightarrow>
     (\<exists>as bs. xs = as @ x # bs \<and> ok x \<and> (\<forall>y \<in> set as. ok y \<longrightarrow> key x < key y) \<and> (\<forall>y \<in> set bs. ok y \<longrightarrow> key x \<le> key y))"

lemma negotiate_step_acceptable:
  "negotiate_step supported sets best a =
     (if acceptable supported sets a \<and> (\<forall>q n. best = Some (q, n) \<longrightarrow> ap_priority a < q)
      then Some (ap_priority a, outcome_of a) else best)"
  by (cases "protocol_version (the (entry_protocol a))")
    (auto simp: negotiate_step_def acceptable_def outcome_of_def Let_def not_le split: option.splits prod.splits)

lemma negotiate_fold:
  "case foldl (negotiate_step supported sets) None as of
     None \<Rightarrow> (\<forall>a \<in> set as. \<not> acceptable supported sets a)
   | Some (q, n) \<Rightarrow> (\<exists>a. first_choice (acceptable supported sets) ap_priority as a \<and> q = ap_priority a \<and> n = outcome_of a)"
proof (induction as rule: rev_induct)
  case (snoc a as)
  let ?ok = "acceptable supported sets"
  show ?case
  proof (cases "foldl (negotiate_step supported sets) None as")
    case None
    with snoc have none: "\<forall>b \<in> set as. \<not> ?ok b" by simp
    then have "?ok a \<Longrightarrow> first_choice ?ok ap_priority (as @ [a]) a"
      unfolding first_choice_def by (intro exI [of _ as] exI [of _ "[]"]) simp
    with None none show ?thesis by (auto simp: negotiate_step_acceptable [of supported sets None a])
  next
    case (Some qn)
    obtain q n where qn: "qn = (q, n)" by fastforce
    with snoc Some obtain b xs ys where b: "as = xs @ b # ys" "?ok b" "\<forall>y \<in> set xs. ?ok y \<longrightarrow> ap_priority b < ap_priority y"
        "\<forall>y \<in> set ys. ?ok y \<longrightarrow> ap_priority b \<le> ap_priority y" "q = ap_priority b" "n = outcome_of b"
      by (auto simp: first_choice_def)
    show ?thesis
    proof (cases "?ok a \<and> ap_priority a < q")
      case True
      then have "first_choice ?ok ap_priority (as @ [a]) a"
        unfolding first_choice_def using b by (intro exI [of _ as] exI [of _ "[]"]) force
      with True Some qn show ?thesis by (auto simp: negotiate_step_acceptable [of supported sets "Some (q, n)" a])
    next
      case False
      then have "first_choice ?ok ap_priority (as @ [a]) b"
        unfolding first_choice_def using b by (intro exI [of _ xs] exI [of _ "ys @ [a]"]) auto
      moreover have "negotiate_step supported sets (Some (q, n)) a = Some (q, n)"
        using False by (auto simp: negotiate_step_acceptable)
      ultimately show ?thesis using Some qn b(5,6) by auto
    qed
  qed
qed simp

lemma negotiate_Some:
  assumes "negotiate_with supported sets req = Some n"
  shows "\<exists>a. first_choice (acceptable supported sets) ap_priority req a \<and> n = outcome_of a"
  using assms negotiate_fold [where supported = supported and sets = sets and as = req]
  by (auto simp: negotiate_with_def split: option.splits)

lemma negotiate_None:
  "negotiate_with supported sets req = None \<longleftrightarrow> (\<forall>a \<in> set req. \<not> acceptable supported sets a)"
proof (cases "foldl (negotiate_step supported sets) None req")
  case None
  then show ?thesis using negotiate_fold [where supported = supported and sets = sets and as = req] by (simp add: negotiate_with_def)
next
  case (Some qn)
  then show ?thesis using negotiate_fold [where supported = supported and sets = sets and as = req]
    by (cases qn) (auto simp: negotiate_with_def first_choice_def)
qed

section \<open>What a vehicle advertises\<close>

definition is_ascii :: "string \<Rightarrow> bool" where
  "is_ascii s \<longleftrightarrow> list_all (\<lambda>c. (of_char c :: nat) < 128) s"

lemma unat_of_char: "unat (of_nat (of_char c) :: u32) = of_char c"
proof -
  have "of_char c < (2 ^ 32 :: nat)" by (rule less_trans [OF nat_of_char_less_256]) simp
  then show ?thesis by (simp add: unsigned_of_nat take_bit_nat_eq_self)
qed

lemma ascii_of_rust_str: "is_ascii s \<Longrightarrow> ascii_of (rust_str s) = Some s"
  by (simp add: ascii_of_def rust_str_def is_ascii_def list_all_length unat_of_char comp_def)

lemma wf_rust_str: "is_ascii s \<Longrightarrow> wf_string (rust_str s)"
  by (auto simp: wf_string_def is_scalar_def rust_str_def is_ascii_def list_all_iff word_less_nat_alt unat_of_char)

lemma ascii_namespaces [simp]: "is_ascii (protocol_namespace p)" "is_ascii (set_namespace st)"
proof -
  show set: "is_ascii (set_namespace st)" for st by (cases st) (simp_all add: is_ascii_def)
  show "is_ascii (protocol_namespace p)" using set by (cases p) (simp_all add: is_ascii_def)
qed

lemma protocol_from_namespace_self [simp]: "protocol_from_namespace (protocol_namespace p) = Some p"
  by (cases p) (simp_all add: protocol_from_namespace_def set_from_namespace_def Iso20Set_ALL_def)

lemma set_from_namespace_self [simp]: "set_from_namespace (set_namespace st) = Some st"
  by (cases st) (simp_all add: set_from_namespace_def Iso20Set_ALL_def)

lemma set_from_namespace_protocol: "p \<noteq> Iso20 \<Longrightarrow> set_from_namespace (protocol_namespace p) = None"
  by (cases p) (simp_all add: set_from_namespace_def Iso20Set_ALL_def)

lemma entry_protocol_for [simp]:
  "entry_protocol (for_protocol p i j) = Some p" "entry_protocol (for_iso20_set st i j) = Some Iso20"
  "entry_iso20_set (for_iso20_set st i j) = Some st"
  by (simp_all add: entry_protocol_def entry_iso20_set_def for_protocol_def for_iso20_set_def from_namespace_set
      ascii_of_rust_str)

lemma entry_iso20_set_for_protocol [simp]: "p \<noteq> Iso20 \<Longrightarrow> entry_iso20_set (for_protocol p i j) = None"
  by (simp add: entry_iso20_set_def for_protocol_def ascii_of_rust_str set_from_namespace_protocol)

lemma entry_fields [simp]:
  "ap_major (for_protocol p i j) = of_nat (fst (protocol_version p))" "ap_major (for_iso20_set st i j) = 1"
  "ap_schema_id (for_protocol p i j) = i" "ap_schema_id (for_iso20_set st i j) = i"
  "ap_priority (for_protocol p i j) = j" "ap_priority (for_iso20_set st i j) = j"
  by (simp_all add: for_protocol_def for_iso20_set_def)

text \<open>Entries are numbered from one, with equal schema ids and priorities.\<close>

definition numbered :: "app_req \<Rightarrow> bool" where
  "numbered req \<longleftrightarrow> (\<forall>i < length req. ap_schema_id (req ! i) = schema_id_for_index i \<and> ap_priority (req ! i) = schema_id_for_index i)"

definition offers :: "protocol set \<Rightarrow> iso20_set set \<Rightarrow> app_protocol \<Rightarrow> bool" where
  "offers ps sets a \<longleftrightarrow>
     (\<exists>n. (\<exists>p. p \<in> ps \<and> p \<noteq> Iso20 \<and> a = for_protocol p n n) \<or> (\<exists>st. Iso20 \<in> ps \<and> st \<in> sets \<and> a = for_iso20_set st n n))"

lemma numbered_snoc:
  "numbered acc \<Longrightarrow> ap_schema_id a = schema_id_for_index (length acc) \<Longrightarrow> ap_priority a = schema_id_for_index (length acc) \<Longrightarrow>
     numbered (acc @ [a])"
  by (auto simp: numbered_def nth_append less_Suc_eq)

lemma push_sets_numbered:
  "numbered acc \<Longrightarrow> list_all (offers ps sets) acc \<Longrightarrow> Iso20 \<in> ps \<Longrightarrow> set sts \<subseteq> sets \<Longrightarrow>
     numbered (push_sets before sts acc) \<and> list_all (offers ps sets) (push_sets before sts acc)"
proof (induction before sts acc rule: push_sets.induct)
  case (2 before st sts acc)
  let ?n = "schema_id_for_index (length acc)"
  have "numbered (acc @ [for_iso20_set st ?n ?n])" using 2(3) by (rule numbered_snoc) (simp_all add: for_iso20_set_def)
  moreover have "offers ps sets (for_iso20_set st ?n ?n)" using 2(5,6) by (auto simp: offers_def)
  ultimately show ?case using 2 by (auto simp: Let_def)
qed simp

lemma push_protocols_numbered:
  "numbered acc \<Longrightarrow> list_all (offers ps (set sets)) acc \<Longrightarrow> set qs \<subseteq> ps \<Longrightarrow>
     numbered (push_protocols sets qs acc) \<and> list_all (offers ps (set sets)) (push_protocols sets qs acc)"
proof (induction sets qs acc rule: push_protocols.induct)
  case (2 sets p qs acc)
  let ?n = "schema_id_for_index (length acc)"
  have "numbered (acc @ [for_protocol p ?n ?n])" using 2(3) by (rule numbered_snoc) (simp_all add: for_protocol_def)
  moreover have "offers ps (set sets) (for_protocol p ?n ?n)" if "p \<noteq> Iso20" using 2(5) that by (auto simp: offers_def)
  moreover have "numbered (push_sets [] sets acc) \<and> list_all (offers ps (set sets)) (push_sets [] sets acc)" if "p = Iso20"
    using 2 that by (intro push_sets_numbered) auto
  ultimately show ?case using 2 by (auto simp: Let_def)
qed simp

lemma advertising_with_offers:
  "numbered (advertising_with protocols sets)
   \<and> list_all (offers (set (protocols_iter protocols)) (set sets)) (advertising_with protocols sets)
   \<and> length (advertising_with protocols sets) \<le> MAX_APP_PROTOCOLS"
  using push_protocols_numbered [of "[]" "set (protocols_iter protocols)" sets "protocols_iter protocols"]
  by (auto simp: advertising_with_def numbered_def list_all_iff dest: in_set_takeD)

lemma numbered_distinct:
  assumes "numbered req" and "length req \<le> MAX_APP_PROTOCOLS"
  shows "distinct (map ap_schema_id req)"
proof -
  have "schema_id_for_index i = schema_id_for_index j \<longleftrightarrow> i = j" if "i < 20" "j < 20" for i j
  proof -
    have "unat (schema_id_for_index k) = k + 1" if "k < 20" for k
      using that by (simp add: schema_id_for_index_def unsigned_of_nat take_bit_nat_eq_self del: of_nat_Suc)
    then show ?thesis using that by (metis add_right_cancel)
  qed
  then show ?thesis using assms by (auto simp: distinct_conv_nth numbered_def app_consts)
qed

lemma find_distinct: "distinct (map f xs) \<Longrightarrow> x \<in> set xs \<Longrightarrow> List.find (\<lambda>y. f y = f x) xs = Some x"
  by (induction xs) (auto simp: image_iff)

text \<open>Where schema ids are distinct, the echoed id names the entry the station chose.\<close>

lemma negotiated_schema_id:
  assumes "distinct (map ap_schema_id req)" and "negotiate_with supported sets req = Some n"
  shows "protocol_for_schema_id req (ng_schema_id n) = Some (ng_protocol n)"
proof -
  obtain a where a: "first_choice (acceptable supported sets) ap_priority req a" "n = outcome_of a"
    using negotiate_Some [OF assms(2)] by blast
  then have "a \<in> set req" "acceptable supported sets a" by (auto simp: first_choice_def)
  moreover obtain p where "entry_protocol a = Some p" using calculation(2) by (auto simp: acceptable_def split: option.splits)
  ultimately show ?thesis using find_distinct [OF assms(1)] a(2)
    by (simp add: protocol_for_schema_id_def outcome_of_def Let_def)
qed

lemma advertised_wf: "list_all (\<lambda>a. wf_string (ap_namespace a)) (advertising_with protocols sets)"
proof -
  have "offers ps st a \<Longrightarrow> wf_string (ap_namespace a)" for ps st a
    by (auto simp: offers_def for_protocol_def for_iso20_set_def wf_rust_str)
  then show ?thesis using advertising_with_offers [of protocols sets] by (auto simp: list_all_iff)
qed

lemma acceptable_offer:
  assumes "offers ps sets a" and "acceptable supported sets' a"
  shows "ng_protocol (outcome_of a) \<in> ps \<and> protocols_contains supported (ng_protocol (outcome_of a))
     \<and> (ng_protocol (outcome_of a) = Iso20 \<longrightarrow> (\<exists>st \<in> sets \<inter> set sets'. ng_iso20_set (outcome_of a) = Some st))"
  using assms by (auto simp: offers_def acceptable_def outcome_of_def)

section \<open>Properties\<close>

text \<open>
  A \<open>supportedAppProtocolReq\<close> that is written, in any buffer and under either coding of repeated
  namespaces, obeys the facets of the schema and is read back entry by entry, from one entry to twenty; and
  every request that obeys them is written into a buffer of 22000 bytes.
\<close>

lemma app_req_roundtrip:
  assumes "list_all (\<lambda>a. wf_string (ap_namespace a)) req"
  shows "(req_to_slice_with req coding buf = Inr (n, out) \<longrightarrow>
           req_validate req = Inr () \<and> req_from_bytes (take n out) = Inr req)
    \<and> (req_validate req = Inr () \<and> 22000 \<le> length buf \<longrightarrow> (\<exists>n out. req_to_slice_with req Literal buf = Inr (n, out)))"
  using req_roundtrip_aux [OF assms] req_to_slice_valid req_to_slice_room by blast

definition sample_req :: app_req where
  "sample_req =
     [\<lparr>ap_namespace = [117, 114, 110], ap_major = 2, ap_minor = 0, ap_schema_id = 10, ap_priority = 1\<rparr>,
      \<lparr>ap_namespace = [117, 233], ap_major = 300, ap_minor = 1, ap_schema_id = 20, ap_priority = 20\<rparr>]"

lemma app_req_roundtrip_witness:
  "\<exists>n out. req_to_slice_with sample_req Literal (replicate 22000 0) = Inr (n, out)
     \<and> req_from_bytes (take n out) = Inr sample_req"
proof -
  have "list_all (\<lambda>a. wf_string (ap_namespace a)) sample_req" "req_validate sample_req = Inr ()" by code_simp+
  with app_req_roundtrip [of sample_req Literal "replicate 22000 0"] show ?thesis by fastforce
qed

text \<open>
  The station's choice: \<open>negotiate_with\<close> takes, among the entries whose protocol it supports, whose
  message set it offers and whose major version is the protocol's, the one with the least priority value, the
  earliest of equals; it reports a differing minor version, and refuses exactly when no entry qualifies.
\<close>

lemma negotiate_first_choice:
  "case negotiate_with supported sets req of
     None \<Rightarrow> \<forall>a \<in> set req. \<not> acceptable supported sets a
   | Some n \<Rightarrow> \<exists>a. first_choice (acceptable supported sets) ap_priority req a \<and> n = outcome_of a"
  using negotiate_Some negotiate_None by (auto split: option.split)

definition sample_offer :: app_req where
  "sample_offer = [for_iso20_set Set_Dc 1 1, for_protocol Iso2 2 3, for_iso20_set Set_Ac 3 2]"

lemma negotiate_first_choice_witness:
  "\<exists>a. first_choice (acceptable (protocols_from_slice [Iso20, Iso2]) [Set_Ac]) ap_priority sample_offer a
     \<and> ap_schema_id a = 3"
proof -
  have "map_option ng_schema_id (negotiate_with (protocols_from_slice [Iso20, Iso2]) [Set_Ac] sample_offer) = Some 3"
    by (simp add: negotiate_with_def negotiate_step_def protocols_from_slice_def protocols_with_def protocols_contains_def
        protocols_new_def Protocol_COUNT_def Protocol_ALL_def numeral_3_eq_3 sample_offer_def)
  then obtain n where n: "negotiate_with (protocols_from_slice [Iso20, Iso2]) [Set_Ac] sample_offer = Some n" "ng_schema_id n = 3"
    by auto
  from negotiate_first_choice [where supported = "protocols_from_slice [Iso20, Iso2]" and sets = "[Set_Ac]" and req = sample_offer]
  obtain a where "first_choice (acceptable (protocols_from_slice [Iso20, Iso2]) [Set_Ac]) ap_priority sample_offer a"
      "n = outcome_of a" unfolding n(1) by auto
  with n(2) show ?thesis by (intro exI [of _ a]) (simp add: outcome_of_def Let_def)
qed

text \<open>
  C17. The handshake agrees: when a vehicle advertises, the station decodes the request, negotiates and answers,
  and the vehicle decodes the answer, the schema id in it names to the vehicle exactly the protocol the station
  chose; the vehicle had offered it, the station supports it, and for ISO 15118-20 both have the message set.
\<close>

theorem handshake_agreement:
  assumes "req_to_slice_with (advertising_with protocols sets) coding buf = Inr (n, out)"
    and "req_from_bytes (take n out) = Inr req"
    and "negotiate_with supported sets' req = Some chosen"
    and "res_to_slice_with (res_accept chosen) coding' buf' = Inr (n', out')"
    and "res_from_bytes (take n' out') = Inr res"
  shows "res_validate res = Inr ()
    \<and> Option.bind (res_schema_id res) (protocol_for_schema_id (advertising_with protocols sets)) = Some (ng_protocol chosen)
    \<and> ng_protocol chosen \<in> set (protocols_iter protocols) \<and> protocols_contains supported (ng_protocol chosen)
    \<and> (ng_protocol chosen = Iso20 \<longrightarrow> (\<exists>st. ng_iso20_set chosen = Some st \<and> st \<in> set sets \<and> st \<in> set sets'))"
proof -
  let ?req = "advertising_with protocols sets"
  have req: "req = ?req" using req_roundtrip_aux [OF advertised_wf assms(1)] assms(2) by simp
  have res: "res = res_accept chosen" using res_roundtrip_aux [OF assms(4)] assms(5) by simp
  note adv = advertising_with_offers [of protocols sets]
  obtain a where a: "first_choice (acceptable supported sets') ap_priority ?req a" "chosen = outcome_of a"
    using negotiate_Some assms(3) req by blast
  then have "a \<in> set ?req" "acceptable supported sets' a" by (auto simp: first_choice_def)
  moreover from this(1) have "offers (set (protocols_iter protocols)) (set sets) a" using adv by (auto simp: list_all_iff)
  ultimately have "ng_protocol chosen \<in> set (protocols_iter protocols) \<and> protocols_contains supported (ng_protocol chosen)
    \<and> (ng_protocol chosen = Iso20 \<longrightarrow> (\<exists>st. ng_iso20_set chosen = Some st \<and> st \<in> set sets \<and> st \<in> set sets'))"
    using acceptable_offer a(2) by blast
  moreover have "protocol_for_schema_id ?req (ng_schema_id chosen) = Some (ng_protocol chosen)"
    using negotiated_schema_id numbered_distinct adv assms(3) req by blast
  moreover have "res_validate res = Inr ()"
    by (simp add: res res_accept_def res_validate_def negotiated_response_code_def app_code_is_ok_def)
  ultimately show ?thesis by (simp add: res res_accept_def)
qed

theorem handshake_agreement_witness:
  "\<exists>chosen. negotiate_with (protocols_from_slice [Iso2]) [] (advertising_with (protocols_from_slice [Iso20, Iso2]) [Set_Dc])
       = Some chosen
     \<and> Option.bind (res_schema_id (res_accept chosen))
         (protocol_for_schema_id (advertising_with (protocols_from_slice [Iso20, Iso2]) [Set_Dc])) = Some Iso2"
proof -
  let ?req = "advertising_with (protocols_from_slice [Iso20, Iso2]) [Set_Dc]" and ?s = "protocols_from_slice [Iso2]"
  note evals = protocols_from_slice_def protocols_with_def protocols_contains_def protocols_new_def Protocol_COUNT_def
    Protocol_ALL_def numeral_3_eq_3 schema_id_for_index_def
  have req: "?req = [for_iso20_set Set_Dc 1 1, for_protocol Iso2 2 2]"
    by (simp add: advertising_with_def MAX_APP_PROTOCOLS_def evals)
  have "map_option ng_protocol (negotiate_with ?s [] ?req) = Some Iso2"
    unfolding req by (simp add: negotiate_with_def negotiate_step_def evals)
  then obtain chosen where chosen: "negotiate_with ?s [] ?req = Some chosen" "ng_protocol chosen = Iso2" by auto
  have "req_validate ?req = Inr ()"
    by (simp add: req req_validate_def entry_validate_def char_len_def app_consts for_iso20_set_def for_protocol_def rust_str_def)
  then obtain n out where enc: "req_to_slice_with ?req Literal (replicate 22000 0) = Inr (n, out)"
    using req_to_slice_room [of ?req "replicate 22000 0"] by auto
  obtain n' out' where enc': "res_to_slice_with (res_accept chosen) Literal (replicate 50 0) = Inr (n', out')"
    using res_to_slice_room [of "replicate 50 0"] by fastforce
  from handshake_agreement [OF enc req_roundtrip_aux [OF advertised_wf enc] chosen(1) enc' res_roundtrip_aux [OF enc']] chosen
  show ?thesis by auto
qed

end
