(* ===== verification/Message.thy ===== *)
theory Message
  imports V2gtp Bitstream
begin

text \<open>
  The dispatch of \<open>src/src/message.rs\<close>: which message set a payload type means in a session. The
  document types and their EXI codecs are generated from the schemas and stand as a parameter here:
  \<open>codecs\<close> says which sets are compiled in and gives \<open>from_bytes\<close> and \<open>to_vec\<close> of each. A message is a
  document tagged with its set, one tag per variant of the source's enum.
\<close>

section \<open>Data\<close>

datatype message_set =
    M_AppProtocolReq
  | M_AppProtocolRes
  | M_Iso2
  | M_Iso20
  | M_Iso20Ac
  | M_Iso20Dc
  | M_Iso20Wpt
  | M_Iso20Acdp
  | M_Iso20AcDerIec
  | M_Iso20AcDerSae

datatype 'd message = Message (msg_set: message_set) (msg_doc: 'd)

datatype message_error =
    Exi exi_error
  | NotAMessage payload_type
  | NotForThisSession payload_type "protocol option"
  | NoCodec payload_type "protocol option"

record 'd codecs =
  compiled :: "message_set \<Rightarrow> bool"
  from_bytes :: "message_set \<Rightarrow> bytes \<Rightarrow> exi_error + 'd"
  to_vec :: "message_set \<Rightarrow> 'd \<Rightarrow> exi_error + bytes"

section \<open>Operations\<close>

definition decode_as :: "'d codecs \<Rightarrow> message_set \<Rightarrow> bytes \<Rightarrow> message_error + 'd message" where
  "decode_as cs ms bs =
     (case from_bytes cs ms bs of Inr m \<Rightarrow> Inr (Message ms m) | Inl e \<Rightarrow> Inl (Exi e))"

text \<open>The set whose codec the match of \<open>decode\<close> selects; the handshake has two roots of its own.\<close>

fun session_set :: "payload_type \<Rightarrow> protocol option \<Rightarrow> message_set option" where
  "session_set ExiEncodedV2gMessage (Some Iso2) = Some M_Iso2"
| "session_set Part20Main (Some Iso20) = Some M_Iso20"
| "session_set Part20Ac (Some Iso20) = Some M_Iso20Ac"
| "session_set Part20Dc (Some Iso20) = Some M_Iso20Dc"
| "session_set Part20Wpt (Some Iso20) = Some M_Iso20Wpt"
| "session_set Part20Acdp (Some Iso20) = Some M_Iso20Acdp"
| "session_set Part20AcDerIec (Some Iso20) = Some M_Iso20AcDerIec"
| "session_set Part20AcDerSae (Some Iso20) = Some M_Iso20AcDerSae"
| "session_set _ _ = None"

definition message_decode :: "'d codecs \<Rightarrow> protocol option \<Rightarrow> payload_type \<Rightarrow> bytes \<Rightarrow> message_error + 'd message" where
  "message_decode cs p t bs =
     (if \<not> is_exi t then Inl (NotAMessage t)
      else if t = ExiEncodedV2gMessage \<and> p = None then
        (case decode_as cs M_AppProtocolReq bs of
           Inr m \<Rightarrow> Inr m
         | Inl _ \<Rightarrow> decode_as cs M_AppProtocolRes bs)
      else
        (case session_set t p of
           Some ms \<Rightarrow>
             if compiled cs ms then decode_as cs ms bs
             else if \<not> belongs_to t p then Inl (NotForThisSession t p)
             else Inl (NoCodec t p)
         | None \<Rightarrow>
             if \<not> belongs_to t p then Inl (NotForThisSession t p) else Inl (NoCodec t p)))"

fun set_payload_type :: "message_set \<Rightarrow> payload_type" where
  "set_payload_type M_AppProtocolReq = ExiEncodedV2gMessage"
| "set_payload_type M_AppProtocolRes = ExiEncodedV2gMessage"
| "set_payload_type M_Iso2 = ExiEncodedV2gMessage"
| "set_payload_type M_Iso20 = Part20Main"
| "set_payload_type M_Iso20Ac = Part20Ac"
| "set_payload_type M_Iso20Dc = Part20Dc"
| "set_payload_type M_Iso20Wpt = Part20Wpt"
| "set_payload_type M_Iso20Acdp = Part20Acdp"
| "set_payload_type M_Iso20AcDerIec = Part20AcDerIec"
| "set_payload_type M_Iso20AcDerSae = Part20AcDerSae"

definition message_payload_type :: "'d message \<Rightarrow> payload_type" where
  "message_payload_type m = set_payload_type (msg_set m)"

definition message_encode :: "'d codecs \<Rightarrow> 'd message \<Rightarrow> message_error + (payload_type \<times> bytes)" where
  "message_encode cs m =
     (case to_vec cs (msg_set m) (msg_doc m) of
        Inl e \<Rightarrow> Inl (Exi e)
      | Inr bs \<Rightarrow> Inr (message_payload_type m, bs))"

section \<open>Which session a message belongs to\<close>

fun speaks :: "message_set \<Rightarrow> protocol option \<Rightarrow> bool" where
  "speaks M_AppProtocolReq p = (p = None)"
| "speaks M_AppProtocolRes p = (p = None)"
| "speaks M_Iso2 p = (p = Some Iso2)"
| "speaks _ p = (p = Some Iso20)"

lemma session_set_sound: "session_set t p = Some ms \<Longrightarrow> speaks ms p \<and> belongs_to t p \<and> set_payload_type ms = t"
  by (cases "(t, p)" rule: session_set.cases) (auto simp: belongs_to_def)

lemma session_set_complete:
  "speaks ms p \<Longrightarrow> p \<noteq> None \<Longrightarrow> session_set (set_payload_type ms) p = Some ms"
  by (cases ms) auto

lemma payload_type_wf: "wf_payload_type (set_payload_type ms)" "is_exi (set_payload_type ms)"
  by (cases ms; simp add: wf_payload_type_def from_u16_def is_exi_def)+

lemma decode_as_set: "decode_as cs ms bs = Inr m \<Longrightarrow> msg_set m = ms"
  by (auto simp: decode_as_def split: sum.splits)

text \<open>
  A message that comes out of \<open>decode\<close> is of the generation the session agreed on, and was carried
  under that set's payload type. A frame is set aside exactly when its type is not the session's.
\<close>

lemma message_decode_speaks:
  assumes "message_decode cs p t bs = Inr m"
  shows "speaks (msg_set m) p \<and> belongs_to t p \<and> message_payload_type m = t"
proof (cases "t = ExiEncodedV2gMessage \<and> p = None")
  case True
  then have "msg_set m = M_AppProtocolReq \<or> msg_set m = M_AppProtocolRes"
    using assms by (auto simp: message_decode_def is_exi_def dest: decode_as_set split: sum.splits)
  then show ?thesis using True by (auto simp: message_payload_type_def belongs_to_def)
next
  case False
  then obtain ms where "session_set t p = Some ms" "decode_as cs ms bs = Inr m"
    using assms by (auto simp: message_decode_def split: if_splits option.splits)
  then show ?thesis using session_set_sound decode_as_set by (fastforce simp: message_payload_type_def)
qed

lemma message_decode_ignored:
  "(\<exists>e. message_decode cs p t bs = Inl e \<and> (e = NotAMessage t \<or> e = NotForThisSession t p)) \<longleftrightarrow> \<not> belongs_to t p"
proof (cases "t = ExiEncodedV2gMessage \<and> p = None")
  case True
  then show ?thesis
    by (auto simp: message_decode_def belongs_to_def is_exi_def decode_as_def split: sum.splits)
next
  case False
  then show ?thesis using belongs_to_exi [of t p] session_set_sound [of t p]
    by (auto simp: message_decode_def decode_as_def split: option.splits sum.splits)
qed

lemma message_encode_decode:
  assumes "speaks (msg_set m) p" and "compiled cs (msg_set m)" and "message_encode cs m = Inr (t, bs)"
    and trip: "from_bytes cs (msg_set m) bs = Inr (msg_doc m)"
    and root: "msg_set m = M_AppProtocolRes \<Longrightarrow> \<exists>e. from_bytes cs M_AppProtocolReq bs = Inl e"
  shows "message_decode cs p t bs = Inr m"
proof -
  have t: "t = set_payload_type (msg_set m)"
    using assms(3) by (auto simp: message_encode_def message_payload_type_def split: sum.splits)
  have here: "decode_as cs (msg_set m) bs = Inr m" using trip by (simp add: decode_as_def)
  show ?thesis
  proof (cases "p = None")
    case True
    then consider "msg_set m = M_AppProtocolReq" | "msg_set m = M_AppProtocolRes"
      using assms(1) by (cases "msg_set m") auto
    then show ?thesis
    proof cases
      case 1
      then show ?thesis using here t True by (simp add: message_decode_def is_exi_def)
    next
      case 2
      then show ?thesis using here t True root by (auto simp: message_decode_def is_exi_def decode_as_def)
    qed
  next
    case False
    then have "session_set t p = Some (msg_set m)" using session_set_complete assms(1) t by simp
    then show ?thesis using here False assms(2) t payload_type_wf(2) by (auto simp: message_decode_def)
  qed
qed

section \<open>Properties\<close>

text \<open>
  A session only ever sees its own messages: whatever the bytes and the codecs, a message that comes
  out of \<open>decode\<close> is of a set the agreed protocol speaks, and was carried under that set's payload type.
\<close>

lemma message_generation:
  assumes "message_decode cs p t bs = Inr m"
  shows "speaks (msg_set m) p \<and> belongs_to t p \<and> message_payload_type m = t"
  using assms by (rule message_decode_speaks)

lemma message_generation_witness:
  "speaks M_Iso20Dc (Some Iso20) \<and> belongs_to Part20Dc (Some Iso20)"
proof -
  let ?cs = "\<lparr>compiled = (\<lambda>_. True), from_bytes = (\<lambda>_ bs. Inr bs), to_vec = (\<lambda>_ bs. Inr bs)\<rparr> :: bytes codecs"
  have "message_decode ?cs (Some Iso20) Part20Dc [1] = Inr (Message M_Iso20Dc [1])" by code_simp
  from message_generation [OF this] show ?thesis by simp
qed

text \<open>
  A frame is set aside, rather than refused or decoded, exactly when its payload type does not belong
  to the session, independently of its bytes and of the codecs compiled in.
\<close>

lemma message_set_aside:
  "(\<exists>e. message_decode cs p t bs = Inl e \<and> (e = NotAMessage t \<or> e = NotForThisSession t p)) \<longleftrightarrow> \<not> belongs_to t p"
  by (rule message_decode_ignored)

end
