(* ===== verification/Iso20_Session.thy ===== *)
theory Iso20_Session
  imports Session_Common V2gtp "HOL-Library.Sublist"
begin

text \<open>
  The ISO 15118-20 message sequence, \<open>src/src/session/iso20.rs\<close>: services and the message sets they
  admit, requests, phases, the sequencer with its transition table, and the time budgets. As for
  ISO 15118-2, \<open>iso20_run\<close> keeps the accepted requests; here also the resumption of a paused session
  is an event.
\<close>

section \<open>Services\<close>

datatype service = Sv_Ac | Sv_Dc | Sv_Wpt | Sv_Acdp | Sv_AcDerIec | Sv_AcDerSae | Sv_Mcs

fun service_payload_type :: "service \<Rightarrow> payload_type" where
  "service_payload_type Sv_Ac = Part20Ac"
| "service_payload_type Sv_Dc = Part20Dc"
| "service_payload_type Sv_Mcs = Part20Dc"
| "service_payload_type Sv_Wpt = Part20Wpt"
| "service_payload_type Sv_Acdp = Part20Acdp"
| "service_payload_type Sv_AcDerIec = Part20AcDerIec"
| "service_payload_type Sv_AcDerSae = Part20AcDerSae"

definition service_is_dc :: "service \<Rightarrow> bool" where
  "service_is_dc s \<longleftrightarrow> s = Sv_Dc \<or> s = Sv_Mcs \<or> s = Sv_Acdp"

definition service_admits :: "service \<Rightarrow> payload_type \<Rightarrow> bool" where
  "service_admits s t \<longleftrightarrow>
     (if s = Sv_Acdp then t = Part20Dc \<or> t = Part20Acdp
      else as_u16 (service_payload_type s) = as_u16 t)"

definition service_from_id :: "nat \<Rightarrow> service option" where
  "service_from_id i =
     (if i = 1 \<or> i = 5 then Some Sv_Ac
      else if i = 2 \<or> i = 6 then Some Sv_Dc
      else if i = 3 then Some Sv_Wpt
      else if i = 4 \<or> i = 7 then Some Sv_Acdp
      else if i = 8 \<or> i = 9 then Some Sv_Mcs
      else if i = 10 then Some Sv_AcDerIec
      else if i = 11 then Some Sv_AcDerSae
      else None)"

record energy_transfer =
  et_service :: service
  et_bidirectional :: bool

definition transfer_from_id :: "nat \<Rightarrow> energy_transfer option" where
  "transfer_from_id i =
     (case service_from_id i of
        None \<Rightarrow> None
      | Some s \<Rightarrow> Some \<lparr>et_service = s, et_bidirectional = (5 \<le> i \<and> i \<le> 7 \<or> 9 \<le> i \<and> i \<le> 11)\<rparr>)"

section \<open>Requests and phases\<close>

datatype charge_progress20 = CP20_Start | CP20_Stop | CP20_Standby | CP20_ScheduleRenegotiation

datatype charging_session20 = CS20_Pause | CS20_Terminate | CS20_ServiceRenegotiation

datatype iso20_request =
    R20_SessionSetup
  | R20_AuthorizationSetup
  | R20_Authorization
  | R20_ServiceDiscovery
  | R20_ServiceDetail
  | R20_ServiceSelection energy_transfer
  | R20_CertificateInstallation
  | R20_ChargeParameterDiscovery
  | R20_ScheduleExchange
  | R20_CableCheck
  | R20_PreCharge
  | R20_PowerDelivery charge_progress20
  | R20_ChargeLoop
  | R20_MeteringConfirmation
  | R20_WeldingDetection
  | R20_SessionStop charging_session20
  | R20_VehicleCheckIn
  | R20_VehicleCheckOut
  | R20_AcdpControl
  | R20_WptPositioning

fun iso20_request_name :: "iso20_request \<Rightarrow> string" where
  "iso20_request_name R20_SessionSetup = ''SessionSetupReq''"
| "iso20_request_name R20_AuthorizationSetup = ''AuthorizationSetupReq''"
| "iso20_request_name R20_Authorization = ''AuthorizationReq''"
| "iso20_request_name R20_ServiceDiscovery = ''ServiceDiscoveryReq''"
| "iso20_request_name R20_ServiceDetail = ''ServiceDetailReq''"
| "iso20_request_name (R20_ServiceSelection _) = ''ServiceSelectionReq''"
| "iso20_request_name R20_CertificateInstallation = ''CertificateInstallationReq''"
| "iso20_request_name R20_ChargeParameterDiscovery = ''ChargeParameterDiscoveryReq''"
| "iso20_request_name R20_ScheduleExchange = ''ScheduleExchangeReq''"
| "iso20_request_name R20_CableCheck = ''DC_CableCheckReq''"
| "iso20_request_name R20_PreCharge = ''DC_PreChargeReq''"
| "iso20_request_name (R20_PowerDelivery _) = ''PowerDeliveryReq''"
| "iso20_request_name R20_ChargeLoop = ''ChargeLoopReq''"
| "iso20_request_name R20_MeteringConfirmation = ''MeteringConfirmationReq''"
| "iso20_request_name R20_WeldingDetection = ''DC_WeldingDetectionReq''"
| "iso20_request_name (R20_SessionStop _) = ''SessionStopReq''"
| "iso20_request_name R20_VehicleCheckIn = ''VehicleCheckInReq''"
| "iso20_request_name R20_VehicleCheckOut = ''VehicleCheckOutReq''"
| "iso20_request_name R20_AcdpControl = ''ACDP control message''"
| "iso20_request_name R20_WptPositioning = ''WPT positioning message''"

fun iso20_backend_request :: "iso20_request \<Rightarrow> bool" where
  "iso20_backend_request R20_Authorization = True"
| "iso20_backend_request R20_AuthorizationSetup = True"
| "iso20_backend_request R20_CertificateInstallation = True"
| "iso20_backend_request R20_ServiceDetail = True"
| "iso20_backend_request R20_ScheduleExchange = True"
| "iso20_backend_request (R20_PowerDelivery _) = True"
| "iso20_backend_request R20_MeteringConfirmation = True"
| "iso20_backend_request _ = False"

definition iso20_response_timeout :: "iso20_request \<Rightarrow> millis" where
  "iso20_response_timeout r =
     (if r = R20_ChargeLoop then iso2_MSG_TIMEOUT_CURRENT_DEMAND
      else if iso20_backend_request r then iso2_MSG_TIMEOUT_BACKEND
      else iso2_MSG_TIMEOUT_DEFAULT)"

definition iso20_performance_time :: "iso20_request \<Rightarrow> millis" where
  "iso20_performance_time r =
     (if r = R20_ChargeLoop then iso2_SECC_MSG_PERFORMANCE_CURRENT_DEMAND
      else if iso20_backend_request r then iso2_SECC_MSG_PERFORMANCE_BACKEND
      else iso2_SECC_MSG_PERFORMANCE_DEFAULT)"

datatype iso20_phase =
    P20_Start
  | P20_SessionSetup
  | P20_AuthorizationSetup
  | P20_Authorized
  | P20_ServiceDiscovery
  | P20_ServiceSelected
  | P20_ChargeParameters
  | P20_ScheduleExchanged
  | P20_CableCheck
  | P20_PreCharge
  | P20_Charging
  | P20_Standby
  | P20_PowerStopped
  | P20_WeldingDetection
  | P20_Paused
  | P20_Stopped

definition iso20_phase_loop_timeout :: "iso20_phase \<Rightarrow> role \<Rightarrow> millis option" where
  "iso20_phase_loop_timeout p role =
     (case (p, role) of
        (P20_Authorized, Evcc) \<Rightarrow> Some iso20_EIM_ONGOING_TIMEOUT
      | (P20_Authorized, Secc) \<Rightarrow> Some iso20_SECC_EIM_ONGOING_PERFORMANCE_TIME
      | (P20_ChargeParameters, Evcc) \<Rightarrow> Some iso20_ONGOING_TIMEOUT
      | (P20_ScheduleExchanged, Evcc) \<Rightarrow> Some iso20_ONGOING_TIMEOUT
      | (P20_WeldingDetection, Evcc) \<Rightarrow> Some iso20_ONGOING_TIMEOUT
      | (P20_ChargeParameters, Secc) \<Rightarrow> Some iso20_SECC_ONGOING_PERFORMANCE_TIME
      | (P20_ScheduleExchanged, Secc) \<Rightarrow> Some iso20_SECC_ONGOING_PERFORMANCE_TIME
      | (P20_WeldingDetection, Secc) \<Rightarrow> Some iso20_SECC_ONGOING_PERFORMANCE_TIME
      | (P20_CableCheck, Evcc) \<Rightarrow> Some iso2_EVCC_CABLE_CHECK_TIMEOUT
      | (P20_CableCheck, Secc) \<Rightarrow> Some iso2_SECC_CABLE_CHECK_PERFORMANCE_TIME
      | (P20_PreCharge, Evcc) \<Rightarrow> Some iso2_EVCC_PRE_CHARGE_TIMEOUT
      | (P20_PreCharge, Secc) \<Rightarrow> Some iso2_SECC_PRE_CHARGE_PERFORMANCE_TIME
      | _ \<Rightarrow> None)"

section \<open>The sequencer\<close>

record iso20_sequencer =
  s20_phase :: iso20_phase
  s20_transfer :: "energy_transfer option"
  s20_renegotiated :: bool
  s20_failed :: bool
  s20_starting :: bool

definition iso20_new :: iso20_sequencer where
  "iso20_new =
     \<lparr>s20_phase = P20_Start, s20_transfer = None, s20_renegotiated = False, s20_failed = False,
      s20_starting = False\<rparr>"

definition iso20_resume :: "energy_transfer \<Rightarrow> iso20_sequencer \<Rightarrow> iso20_sequencer" where
  "iso20_resume t s =
     s\<lparr>s20_transfer := Some t, s20_phase := P20_ServiceSelected, s20_renegotiated := False, s20_starting := False\<rparr>"

definition iso20_fail :: "iso20_sequencer \<Rightarrow> iso20_sequencer" where
  "iso20_fail s = s\<lparr>s20_failed := True\<rparr>"

definition iso20_service :: "iso20_sequencer \<Rightarrow> service option" where
  "iso20_service s = map_option et_service (s20_transfer s)"

definition iso20_is_finished :: "iso20_sequencer \<Rightarrow> bool" where
  "iso20_is_finished s \<longleftrightarrow> s20_phase s = P20_Stopped \<or> s20_phase s = P20_Paused"

definition iso20_is_paused :: "iso20_sequencer \<Rightarrow> bool" where
  "iso20_is_paused s \<longleftrightarrow> s20_phase s = P20_Paused"

definition iso20_admits :: "iso20_sequencer \<Rightarrow> payload_type \<Rightarrow> bool" where
  "iso20_admits s t \<longleftrightarrow>
     t = Part20Main \<or> (case iso20_service s of None \<Rightarrow> False | Some sv \<Rightarrow> service_admits sv t)"

definition iso20_next_failed :: "iso20_phase \<Rightarrow> iso20_request \<Rightarrow> iso20_phase option" where
  "iso20_next_failed p r =
     (if p = P20_Start \<or> p = P20_Stopped \<or> p = P20_Paused then None
      else case r of
        R20_SessionStop CS20_Terminate \<Rightarrow> Some P20_Stopped
      | R20_SessionStop CS20_Pause \<Rightarrow>
          if p = P20_CableCheck \<or> p = P20_PreCharge \<or> p = P20_Charging then None else Some P20_Paused
      | _ \<Rightarrow> None)"

text \<open>The arms of \<open>next_phase\<close> that are about one phase.\<close>

definition iso20_next_flow :: "bool \<Rightarrow> bool \<Rightarrow> bool \<Rightarrow> iso20_sequencer \<Rightarrow> iso20_request \<Rightarrow> iso20_phase option" where
  "iso20_next_flow dc acdp wpt s r =
     (case s20_phase s of
        P20_Start \<Rightarrow> (case r of R20_SessionSetup \<Rightarrow> Some P20_SessionSetup | _ \<Rightarrow> None)
      | P20_SessionSetup \<Rightarrow> (case r of R20_AuthorizationSetup \<Rightarrow> Some P20_AuthorizationSetup | _ \<Rightarrow> None)
      | P20_AuthorizationSetup \<Rightarrow>
          (case r of
             R20_CertificateInstallation \<Rightarrow> Some P20_AuthorizationSetup
           | R20_Authorization \<Rightarrow> Some P20_Authorized
           | _ \<Rightarrow> None)
      | P20_Authorized \<Rightarrow>
          (case r of
             R20_Authorization \<Rightarrow> Some P20_Authorized
           | R20_ServiceDiscovery \<Rightarrow> Some P20_ServiceDiscovery
           | _ \<Rightarrow> None)
      | P20_ServiceDiscovery \<Rightarrow>
          (case r of
             R20_ServiceDetail \<Rightarrow> Some P20_ServiceDiscovery
           | R20_ServiceSelection _ \<Rightarrow> Some P20_ServiceSelected
           | _ \<Rightarrow> None)
      | P20_ServiceSelected \<Rightarrow>
          (case r of
             R20_VehicleCheckIn \<Rightarrow> if acdp then Some P20_ServiceSelected else None
           | R20_AcdpControl \<Rightarrow> if acdp then Some P20_ServiceSelected else None
           | R20_WptPositioning \<Rightarrow> if wpt then Some P20_ServiceSelected else None
           | R20_ChargeParameterDiscovery \<Rightarrow> Some P20_ChargeParameters
           | _ \<Rightarrow> None)
      | P20_ChargeParameters \<Rightarrow>
          (case r of
             R20_ChargeParameterDiscovery \<Rightarrow> Some P20_ChargeParameters
           | R20_ScheduleExchange \<Rightarrow> Some P20_ScheduleExchanged
           | _ \<Rightarrow> None)
      | P20_ScheduleExchanged \<Rightarrow>
          (case r of
             R20_ScheduleExchange \<Rightarrow> Some P20_ScheduleExchanged
           | R20_CableCheck \<Rightarrow> if dc then Some P20_CableCheck else None
           | R20_PowerDelivery CP20_Start \<Rightarrow> if \<not> dc \<or> s20_renegotiated s then Some P20_Charging else None
           | _ \<Rightarrow> None)
      | P20_CableCheck \<Rightarrow>
          (case r of R20_CableCheck \<Rightarrow> Some P20_CableCheck | R20_PreCharge \<Rightarrow> Some P20_PreCharge | _ \<Rightarrow> None)
      | P20_PreCharge \<Rightarrow>
          (case r of
             R20_PreCharge \<Rightarrow> Some P20_PreCharge
           | R20_PowerDelivery CP20_Start \<Rightarrow> Some P20_Charging
           | _ \<Rightarrow> None)
      | P20_Charging \<Rightarrow>
          (case r of
             R20_PowerDelivery CP20_Start \<Rightarrow> if s20_starting s then Some P20_Charging else None
           | R20_ChargeLoop \<Rightarrow> Some P20_Charging
           | R20_MeteringConfirmation \<Rightarrow> Some P20_Charging
           | R20_PowerDelivery CP20_ScheduleRenegotiation \<Rightarrow> Some P20_ChargeParameters
           | R20_PowerDelivery CP20_Standby \<Rightarrow> Some P20_Standby
           | R20_PowerDelivery CP20_Stop \<Rightarrow> Some P20_PowerStopped
           | _ \<Rightarrow> None)
      | P20_Standby \<Rightarrow>
          (case r of
             R20_PowerDelivery CP20_Start \<Rightarrow> Some P20_Charging
           | R20_PowerDelivery CP20_Stop \<Rightarrow> Some P20_PowerStopped
           | _ \<Rightarrow> None)
      | P20_PowerStopped \<Rightarrow>
          (case r of
             R20_WeldingDetection \<Rightarrow> if dc then Some P20_WeldingDetection else None
           | R20_VehicleCheckOut \<Rightarrow> if acdp then Some P20_PowerStopped else None
           | R20_AcdpControl \<Rightarrow> if acdp then Some P20_PowerStopped else None
           | _ \<Rightarrow> None)
      | P20_WeldingDetection \<Rightarrow>
          (case r of
             R20_WeldingDetection \<Rightarrow> Some P20_WeldingDetection
           | R20_VehicleCheckOut \<Rightarrow> if acdp then Some P20_WeldingDetection else None
           | R20_AcdpControl \<Rightarrow> if acdp then Some P20_WeldingDetection else None
           | _ \<Rightarrow> None)
      | P20_Paused \<Rightarrow> None
      | P20_Stopped \<Rightarrow> None)"

definition renegotiable_phases :: "iso20_phase list" where
  "renegotiable_phases =
     [P20_ServiceSelected, P20_ChargeParameters, P20_ScheduleExchanged, P20_CableCheck, P20_PreCharge,
      P20_Charging, P20_Standby, P20_PowerStopped, P20_WeldingDetection]"

text \<open>The arms of \<open>next_phase\<close> on \<open>SessionStopReq\<close>.\<close>

definition iso20_next_stop :: "iso20_phase \<Rightarrow> charging_session20 \<Rightarrow> iso20_phase option" where
  "iso20_next_stop p c =
     (if p = P20_Start \<or> p = P20_Stopped \<or> p = P20_Paused then None
      else case c of
        CS20_Terminate \<Rightarrow> Some P20_Stopped
      | CS20_Pause \<Rightarrow>
          if p = P20_CableCheck \<or> p = P20_PreCharge \<or> p = P20_Charging then None else Some P20_Paused
      | CS20_ServiceRenegotiation \<Rightarrow>
          if List.member renegotiable_phases p then Some P20_Authorized else None)"

definition iso20_next_phase :: "iso20_sequencer \<Rightarrow> iso20_request \<Rightarrow> iso20_phase option" where
  "iso20_next_phase s r =
     (let dc = (case iso20_service s of None \<Rightarrow> False | Some sv \<Rightarrow> service_is_dc sv);
          acdp = (iso20_service s = Some Sv_Acdp);
          wpt = (iso20_service s = Some Sv_Wpt) in
      if s20_failed s then iso20_next_failed (s20_phase s) r
      else case r of
        R20_SessionStop c \<Rightarrow> iso20_next_stop (s20_phase s) c
      | _ \<Rightarrow> iso20_next_flow dc acdp wpt s r)"

definition iso20_permits :: "iso20_sequencer \<Rightarrow> iso20_request \<Rightarrow> bool" where
  "iso20_permits s r \<longleftrightarrow> iso20_next_phase s r \<noteq> None"

fun iso20_phase_name :: "iso20_phase \<Rightarrow> string" where
  "iso20_phase_name P20_Start = ''Start''"
| "iso20_phase_name P20_SessionSetup = ''SessionSetup''"
| "iso20_phase_name P20_AuthorizationSetup = ''AuthorizationSetup''"
| "iso20_phase_name P20_Authorized = ''Authorized''"
| "iso20_phase_name P20_ServiceDiscovery = ''ServiceDiscovery''"
| "iso20_phase_name P20_ServiceSelected = ''ServiceSelected''"
| "iso20_phase_name P20_ChargeParameters = ''ChargeParameters''"
| "iso20_phase_name P20_ScheduleExchanged = ''ScheduleExchanged''"
| "iso20_phase_name P20_CableCheck = ''CableCheck''"
| "iso20_phase_name P20_PreCharge = ''PreCharge''"
| "iso20_phase_name P20_Charging = ''Charging''"
| "iso20_phase_name P20_Standby = ''Standby''"
| "iso20_phase_name P20_PowerStopped = ''PowerStopped''"
| "iso20_phase_name P20_WeldingDetection = ''WeldingDetection''"
| "iso20_phase_name P20_Paused = ''Paused''"
| "iso20_phase_name P20_Stopped = ''Stopped''"

text \<open>\<open>FAILED_SequenceError\<close> is value 34 of the ISO 15118-20 response codes.\<close>

definition iso20_refusal :: "iso20_sequencer \<Rightarrow> iso20_request \<Rightarrow> sequence_error" where
  "iso20_refusal s r =
     \<lparr>se_got = iso20_request_name r, se_phase = iso20_phase_name (s20_phase s), se_response_code = 34\<rparr>"

definition iso20_record :: "iso20_request \<Rightarrow> iso20_sequencer \<Rightarrow> iso20_sequencer" where
  "iso20_record r s =
     (case r of
        R20_ServiceSelection t \<Rightarrow> s\<lparr>s20_transfer := Some t\<rparr>
      | R20_SessionStop CS20_ServiceRenegotiation \<Rightarrow> s\<lparr>s20_transfer := None, s20_renegotiated := False\<rparr>
      | _ \<Rightarrow> s)"

definition iso20_accept_processing ::
    "iso20_sequencer \<Rightarrow> iso20_request \<Rightarrow> bool \<Rightarrow> (sequence_error + iso20_phase) \<times> iso20_sequencer" where
  "iso20_accept_processing s r ongoing =
     (case iso20_next_phase s r of
        None \<Rightarrow> (Inl (iso20_refusal s r), s)
      | Some next \<Rightarrow>
        let s1 = (if next = P20_ChargeParameters
                     \<and> (s20_phase s = P20_Charging \<or> s20_phase s = P20_Standby \<or> s20_phase s = P20_PowerStopped)
                  then s\<lparr>s20_renegotiated := True\<rparr> else s);
            s2 = iso20_record r s1
        in (Inr next, s2\<lparr>s20_phase := next, s20_starting := ongoing \<and> r = R20_PowerDelivery CP20_Start\<rparr>))"

definition iso20_accept :: "iso20_sequencer \<Rightarrow> iso20_request \<Rightarrow> (sequence_error + iso20_phase) \<times> iso20_sequencer" where
  "iso20_accept s r = iso20_accept_processing s r False"

definition iso20_loop_timeout :: "iso20_sequencer \<Rightarrow> role \<Rightarrow> millis option" where
  "iso20_loop_timeout s role = iso20_phase_loop_timeout (s20_phase s) role"

section \<open>The sequencer keeps its contract\<close>

lemmas iso20_table_defs =
  iso20_next_phase_def iso20_next_flow_def iso20_next_stop_def iso20_next_failed_def Let_def

lemmas iso20_table_splits = if_splits charge_progress20.splits charging_session20.splits

definition iso20_is_stop :: "iso20_request \<Rightarrow> bool" where
  "iso20_is_stop r \<longleftrightarrow> r = R20_SessionStop CS20_Terminate \<or> r = R20_SessionStop CS20_Pause"

text \<open>What an accepted request leaves behind, field by field.\<close>

lemma iso20_accept_Inr:
  assumes "iso20_accept_processing s r ongoing = (Inr p, s')"
  shows "iso20_next_phase s r = Some p \<and> s20_phase s' = p \<and> s20_failed s' = s20_failed s
    \<and> s20_transfer s' = (case r of R20_ServiceSelection t \<Rightarrow> Some t
         | R20_SessionStop CS20_ServiceRenegotiation \<Rightarrow> None | _ \<Rightarrow> s20_transfer s)
    \<and> s20_renegotiated s' = (r \<noteq> R20_SessionStop CS20_ServiceRenegotiation
         \<and> (s20_renegotiated s \<or> p = P20_ChargeParameters \<and> s20_phase s \<in> {P20_Charging, P20_Standby, P20_PowerStopped}))"
  using assms
  by (cases r)
    (auto simp: iso20_accept_processing_def iso20_record_def Let_def split: option.splits if_splits charging_session20.splits)

lemma iso20_accept_Inl:
  "iso20_accept_processing s r ongoing = (Inl e, s') \<Longrightarrow> s' = s \<and> iso20_next_phase s r = None \<and> e = iso20_refusal s r"
  by (auto simp: iso20_accept_processing_def Let_def split: option.splits)

lemma iso20_accept_permits: "(\<exists>p. fst (iso20_accept_processing s r ongoing) = Inr p) \<longleftrightarrow> iso20_permits s r"
  by (auto simp: iso20_accept_processing_def iso20_permits_def Let_def split: option.splits)

lemma iso20_failed_next: "s20_failed s \<Longrightarrow> iso20_next_phase s r = Some p \<Longrightarrow>
    iso20_is_stop r \<and> (p = P20_Stopped \<or> p = P20_Paused)"
  by (auto simp: iso20_table_defs iso20_is_stop_def split: if_splits iso20_request.splits charging_session20.splits)

lemma iso20_finished_next: "iso20_is_finished s \<Longrightarrow> iso20_next_phase s r = None"
  by (cases r; cases "s20_failed s"; auto simp: iso20_is_finished_def iso20_table_defs)

interpretation iso20: sequencer "\<lambda>s r. iso20_accept_processing s r ongoing" iso20_permits iso20_fail s20_failed
    iso20_is_finished iso20_is_stop for ongoing
proof unfold_locales
  fix s r
  show "(\<exists>p. fst (iso20_accept_processing s r ongoing) = Inr p) \<longleftrightarrow> iso20_permits s r" by (rule iso20_accept_permits)
  show "\<not> iso20_permits s r \<Longrightarrow> snd (iso20_accept_processing s r ongoing) = s"
    by (auto simp: iso20_accept_processing_def iso20_permits_def)
  show "iso20_is_finished s \<Longrightarrow> \<not> iso20_permits s r" by (simp add: iso20_permits_def iso20_finished_next)
  obtain res s' where a: "iso20_accept_processing s r ongoing = (res, s')" by fastforce
  show "s20_failed s \<Longrightarrow> iso20_permits s r \<Longrightarrow>
      iso20_is_stop r \<and> iso20_is_finished (snd (iso20_accept_processing s r ongoing))"
    using a iso20_accept_Inr [of s r ongoing _ s'] iso20_failed_next [of s r]
    by (cases res) (auto simp: iso20_permits_def iso20_is_finished_def dest: iso20_accept_Inl)
  show "s20_failed s \<Longrightarrow> s20_failed (snd (iso20_accept_processing s r ongoing))"
    using a iso20_accept_Inr [of s r ongoing _ s'] by (cases res) (auto dest: iso20_accept_Inl)
  show "s20_failed (iso20_fail s)" by (simp add: iso20_fail_def)
qed

section \<open>Sessions\<close>

text \<open>
  The history of a session: the requests that were accepted and the resumptions of a paused one. The
  response to a request may announce more processing, which the sequencer is told.
\<close>

datatype iso20_event = Accepted iso20_request | Resumed energy_transfer

inductive iso20_run :: "iso20_event list \<Rightarrow> iso20_sequencer \<Rightarrow> bool" where
  run20_start: "iso20_run [] iso20_new"
| run20_accept: "iso20_run es s \<Longrightarrow> iso20_accept_processing s r ongoing = (Inr p, s') \<Longrightarrow> iso20_run (es @ [Accepted r]) s'"
| run20_refuse: "iso20_run es s \<Longrightarrow> iso20_accept_processing s r ongoing = (Inl e, s') \<Longrightarrow> iso20_run es s'"
| run20_fail: "iso20_run es s \<Longrightarrow> iso20_run es (iso20_fail s)"
| run20_resume: "iso20_run es s \<Longrightarrow> iso20_run (es @ [Resumed t]) (iso20_resume t s)"

inductive_cases iso20_runE: "iso20_run es s"

text \<open>The part of the history since a service was selected or taken over from the paused session.\<close>

fun selects :: "iso20_event \<Rightarrow> bool" where
  "selects (Accepted (R20_ServiceSelection _)) = True"
| "selects (Resumed _) = True"
| "selects _ = False"

definition since_selection :: "iso20_event list \<Rightarrow> iso20_event list" where
  "since_selection es = rev (takeWhile (\<lambda>e. \<not> selects e) (rev es))"

lemma since_selection_simps [simp]:
  "since_selection [] = []"
  "since_selection (es @ [e]) = (if selects e then [] else since_selection es @ [e])"
  by (simp_all add: since_selection_def)

section \<open>DC safety\<close>

definition iso20_dc :: "iso20_sequencer \<Rightarrow> bool" where
  "iso20_dc s \<longleftrightarrow> (case iso20_service s of None \<Rightarrow> False | Some sv \<Rightarrow> service_is_dc sv)"

definition iso20_early_phases :: "iso20_phase set" where
  "iso20_early_phases = {P20_Start, P20_SessionSetup, P20_AuthorizationSetup, P20_Authorized, P20_ServiceDiscovery, P20_ServiceSelected}"

definition iso20_powered_phases :: "iso20_phase set" where
  "iso20_powered_phases = {P20_Charging, P20_Standby, P20_PowerStopped, P20_WeldingDetection}"

text \<open>The ways into the phases of a charge.\<close>

lemma iso20_into_early: "iso20_next_phase s r = Some p \<Longrightarrow> p \<in> iso20_early_phases \<Longrightarrow>
    s20_phase s \<in> iso20_early_phases \<or> r = R20_SessionStop CS20_ServiceRenegotiation"
  by (cases "s20_phase s"; cases r)
    (auto simp: iso20_table_defs iso20_early_phases_def split: iso20_table_splits)

lemma iso20_into_cable_check: "iso20_next_phase s r = Some P20_CableCheck \<Longrightarrow> r = R20_CableCheck"
  by (cases "s20_phase s"; cases r) (auto simp: iso20_table_defs split: iso20_table_splits)

lemma iso20_into_pre_charge: "iso20_next_phase s r = Some P20_PreCharge \<Longrightarrow>
    r = R20_PreCharge \<and> (s20_phase s = P20_CableCheck \<or> s20_phase s = P20_PreCharge)"
  by (cases "s20_phase s"; cases r) (auto simp: iso20_table_defs split: iso20_table_splits)

lemma iso20_into_charging: "iso20_next_phase s r = Some P20_Charging \<Longrightarrow>
    s20_phase s \<in> iso20_powered_phases
    \<or> r = R20_PowerDelivery CP20_Start \<and> (s20_phase s = P20_PreCharge
         \<or> s20_phase s = P20_ScheduleExchanged \<and> (iso20_dc s \<longrightarrow> s20_renegotiated s))"
  by (cases "s20_phase s"; cases r)
    (auto simp: iso20_table_defs iso20_powered_phases_def iso20_dc_def split: iso20_table_splits)

lemma iso20_into_powered: "iso20_next_phase s r = Some p \<Longrightarrow> p \<in> iso20_powered_phases - {P20_Charging} \<Longrightarrow>
    s20_phase s \<in> iso20_powered_phases"
  by (cases "s20_phase s"; cases r)
    (auto simp: iso20_table_defs iso20_powered_phases_def split: iso20_table_splits)

lemma iso20_into_selected: "iso20_next_phase s (R20_ServiceSelection t) = Some p \<Longrightarrow>
    p = P20_ServiceSelected \<and> s20_phase s = P20_ServiceDiscovery"
  by (cases "s20_phase s") (auto simp: iso20_table_defs split: if_splits)

definition iso20_isolation :: "iso20_event list" where
  "iso20_isolation = map Accepted [R20_CableCheck, R20_PreCharge, R20_PowerDelivery CP20_Start]"

definition iso20_dc_inv :: "iso20_event list \<Rightarrow> iso20_sequencer \<Rightarrow> bool" where
  "iso20_dc_inv es s \<longleftrightarrow>
     (s20_phase s \<in> iso20_early_phases \<longrightarrow> \<not> s20_renegotiated s)
     \<and> (s20_phase s = P20_CableCheck \<longrightarrow> subseq [Accepted R20_CableCheck] (since_selection es))
     \<and> (s20_phase s = P20_PreCharge \<longrightarrow> subseq [Accepted R20_CableCheck, Accepted R20_PreCharge] (since_selection es))
     \<and> (iso20_dc s \<and> (s20_renegotiated s \<or> s20_phase s \<in> iso20_powered_phases) \<longrightarrow>
          subseq iso20_isolation (since_selection es))"

text \<open>A selection starts afresh: the phase is early, so nothing is claimed of an isolation test.\<close>

lemma iso20_dc_fresh:
  "s20_phase s = P20_ServiceSelected \<Longrightarrow> \<not> s20_renegotiated s \<Longrightarrow> iso20_dc_inv es s"
  by (simp add: iso20_dc_inv_def iso20_powered_phases_def)

lemma iso20_dc_selected:
  assumes "iso20_dc_inv es s" and acc: "iso20_accept_processing s (R20_ServiceSelection t) ongoing = (Inr p, s')"
  shows "iso20_dc_inv (es @ [Accepted (R20_ServiceSelection t)]) s'"
proof (rule iso20_dc_fresh)
  note a = iso20_accept_Inr [OF acc]
  then have "p = P20_ServiceSelected" "s20_phase s = P20_ServiceDiscovery" using iso20_into_selected by blast+
  then show "s20_phase s' = P20_ServiceSelected" "\<not> s20_renegotiated s'"
    using a assms(1) by (auto simp: iso20_dc_inv_def iso20_early_phases_def)
qed

lemma iso20_dc_step:
  assumes inv: "iso20_dc_inv es s" and acc: "iso20_accept_processing s r ongoing = (Inr p, s')"
    and keep: "\<not> selects (Accepted r)"
  shows "iso20_dc_inv (es @ [Accepted r]) s'"
proof -
  let ?h = "since_selection es" and ?h' = "since_selection es @ [Accepted r]"
  note a = iso20_accept_Inr [OF acc]
  then have nx: "iso20_next_phase s r = Some p" and ph: "s20_phase s' = p" by blast+
  note i = inv [unfolded iso20_dc_inv_def]
  have later: "subseq xs ?h \<Longrightarrow> subseq xs ?h'" for xs by (rule subseq_rev_drop_many)
  have snoc: "subseq xs ?h \<Longrightarrow> e = Accepted r \<Longrightarrow> subseq (xs @ [e]) ?h'" for xs e by (simp add: subseq_append)
  have dc: "iso20_dc s' \<Longrightarrow> iso20_dc s"
    using a keep by (cases r) (auto simp: iso20_dc_def iso20_service_def split: charging_session20.splits)
  have rn: "s20_renegotiated s' \<Longrightarrow> s20_renegotiated s \<or> s20_phase s \<in> iso20_powered_phases"
    using a by (auto simp: iso20_powered_phases_def)
  have old: "iso20_dc s' \<Longrightarrow> s20_renegotiated s \<or> s20_phase s \<in> iso20_powered_phases \<Longrightarrow> subseq iso20_isolation ?h'"
    using i dc later by blast
  have "p \<in> iso20_early_phases \<longrightarrow> \<not> s20_renegotiated s'"
  proof
    assume early: "p \<in> iso20_early_phases"
    then have "p \<noteq> P20_ChargeParameters" by (auto simp: iso20_early_phases_def)
    moreover have "\<not> s20_renegotiated s \<or> r = R20_SessionStop CS20_ServiceRenegotiation"
      using i iso20_into_early [OF nx early] by blast
    ultimately show "\<not> s20_renegotiated s'" using a by blast
  qed
  moreover have "p = P20_CableCheck \<longrightarrow> subseq [Accepted R20_CableCheck] ?h'"
    using iso20_into_cable_check nx snoc [of "[]"] by auto
  moreover have "p = P20_PreCharge \<longrightarrow> subseq [Accepted R20_CableCheck, Accepted R20_PreCharge] ?h'"
    using iso20_into_pre_charge [of s r] nx i later snoc [of "[Accepted R20_CableCheck]" "Accepted R20_PreCharge"] by auto
  moreover have "subseq iso20_isolation ?h'" if ch: "iso20_dc s'" "p = P20_Charging"
  proof -
    consider "s20_phase s \<in> iso20_powered_phases" | "r = R20_PowerDelivery CP20_Start" "s20_phase s = P20_PreCharge" | "s20_renegotiated s"
      using iso20_into_charging [of s r] nx ch dc by blast
    then show ?thesis
    proof cases
      case 2
      then show ?thesis
        using i snoc [of "[Accepted R20_CableCheck, Accepted R20_PreCharge]" "Accepted (R20_PowerDelivery CP20_Start)"]
        by (simp add: iso20_isolation_def)
    qed (use old ch in blast)+
  qed
  moreover have "subseq iso20_isolation ?h'" if "iso20_dc s'" "p \<in> iso20_powered_phases" "p \<noteq> P20_Charging"
    using iso20_into_powered [OF nx] that old by blast
  ultimately show ?thesis using ph rn old keep by (auto simp: iso20_dc_inv_def)
qed

lemma iso20_run_dc:
  assumes "iso20_run es s"
  shows "iso20_dc_inv es s"
  using assms
proof (induction rule: iso20_run.induct)
  case run20_start
  then show ?case by (simp add: iso20_dc_inv_def iso20_new_def iso20_powered_phases_def)
next
  case (run20_accept es s r ongoing p s')
  then show ?case using iso20_dc_selected iso20_dc_step by (cases "selects (Accepted r)") (auto elim: selects.elims)
next
  case (run20_refuse es s r ongoing e s')
  then show ?case using iso20_accept_Inl by blast
next
  case (run20_fail es s)
  then show ?case by (simp add: iso20_dc_inv_def iso20_fail_def iso20_dc_def iso20_service_def)
next
  case (run20_resume es s t)
  then show ?case by (intro iso20_dc_fresh) (simp_all add: iso20_resume_def)
qed

section \<open>Authorization\<close>

definition iso20_authorized_phases :: "iso20_phase set" where
  "iso20_authorized_phases = - {P20_Start, P20_SessionSetup, P20_AuthorizationSetup, P20_Paused, P20_Stopped}"

lemma iso20_next_authorized: "iso20_next_phase s r = Some p \<Longrightarrow> p \<in> iso20_authorized_phases \<Longrightarrow>
    s20_phase s \<in> iso20_authorized_phases \<or> r = R20_Authorization \<and> s20_phase s = P20_AuthorizationSetup"
  by (cases "s20_phase s"; cases r)
    (auto simp: iso20_table_defs iso20_authorized_phases_def renegotiable_phases_def split: iso20_table_splits)

text \<open>A session is authorized by a request it accepted or by the paused session it takes over.\<close>

lemma iso20_run_authorized:
  "iso20_run es s \<Longrightarrow> s20_phase s \<in> iso20_authorized_phases \<Longrightarrow>
     Accepted R20_Authorization \<in> set es \<or> (\<exists>t. Resumed t \<in> set es)"
proof (induction rule: iso20_run.induct)
  case run20_start
  then show ?case by (simp add: iso20_new_def iso20_authorized_phases_def)
next
  case (run20_accept es s r ongoing p s')
  then show ?case using iso20_accept_Inr [OF run20_accept.hyps(2)] iso20_next_authorized [of s r p] by auto
next
  case (run20_refuse es s r ongoing e s')
  then show ?case using iso20_accept_Inl by blast
next
  case (run20_fail es s)
  then show ?case by (simp add: iso20_fail_def)
next
  case (run20_resume es s t)
  then show ?case by auto
qed

section \<open>A session whose requests are all accepted\<close>

primrec iso20_drive :: "iso20_sequencer \<Rightarrow> iso20_request list \<Rightarrow> iso20_sequencer option" where
  "iso20_drive s [] = Some s"
| "iso20_drive s (r # rs) =
     (case iso20_accept s r of (Inr _, s') \<Rightarrow> iso20_drive s' rs | (Inl _, _) \<Rightarrow> None)"

lemma iso20_drive_run: "iso20_run es s \<Longrightarrow> iso20_drive s qs = Some s' \<Longrightarrow> iso20_run (es @ map Accepted qs) s'"
proof (induction qs arbitrary: es s)
  case (Cons q qs)
  obtain res s1 where a: "iso20_accept_processing s q False = (res, s1)" by fastforce
  with Cons.prems(2) obtain p where res: "res = Inr p" by (cases res) (auto simp: iso20_accept_def)
  have "iso20_run (es @ [Accepted q]) s1" using run20_accept Cons.prems(1) a res by blast
  then show ?case using Cons.IH [of "es @ [Accepted q]" s1] Cons.prems(2) a res by (simp add: iso20_accept_def)
qed simp

lemma iso20_drive_new: "iso20_drive iso20_new qs = Some s \<Longrightarrow> iso20_run (map Accepted qs) s"
  using iso20_drive_run [OF run20_start] by simp

definition sample20_transfer :: energy_transfer where
  "sample20_transfer = \<lparr>et_service = Sv_Dc, et_bidirectional = False\<rparr>"

definition sample20_dc :: "iso20_request list" where
  "sample20_dc = [R20_SessionSetup, R20_AuthorizationSetup, R20_Authorization, R20_ServiceDiscovery,
     R20_ServiceSelection sample20_transfer, R20_ChargeParameterDiscovery, R20_ScheduleExchange, R20_CableCheck,
     R20_PreCharge, R20_PowerDelivery CP20_Start]"

definition sample20_dc_end :: iso20_sequencer where
  "sample20_dc_end = \<lparr>s20_phase = P20_Charging, s20_transfer = Some sample20_transfer, s20_renegotiated = False,
     s20_failed = False, s20_starting = False\<rparr>"

lemma sample20_dc_run: "iso20_run (map Accepted sample20_dc) sample20_dc_end"
  by (rule iso20_drive_new) code_simp

section \<open>Properties\<close>

text \<open>
  DC safety of ISO 15118-20: whatever arrives, is refused, fails or is resumed, a session with a DC
  service in which power is flowing or has been flowing has, since this service was selected or taken
  over, an accepted isolation test, pre-charge and \<open>PowerDelivery(Start)\<close> behind it, in this order. A
  renegotiated or resumed session cannot lean on the tests of the service it had before.
\<close>

lemma iso20_dc_safety:
  assumes "iso20_run es s" and "iso20_dc s" and "s20_phase s \<in> iso20_powered_phases"
  shows "subseq (map Accepted [R20_CableCheck, R20_PreCharge, R20_PowerDelivery CP20_Start]) (since_selection es)"
  using iso20_run_dc [OF assms(1)] assms(2,3) by (simp add: iso20_dc_inv_def iso20_isolation_def)

lemma iso20_dc_safety_witness:
  "subseq (map Accepted [R20_CableCheck, R20_PreCharge, R20_PowerDelivery CP20_Start])
     (since_selection (map Accepted sample20_dc))"
  using iso20_dc_safety [OF sample20_dc_run]
  by (simp add: sample20_dc_end_def iso20_powered_phases_def iso20_dc_def iso20_service_def service_is_dc_def
      sample20_transfer_def)

text \<open>
  Authorization of ISO 15118-20: a session that was not resumed gets behind the authorization setup only
  with an accepted \<open>AuthorizationReq\<close>.
\<close>

lemma iso20_authorization:
  assumes "iso20_run es s" and "\<forall>t. Resumed t \<notin> set es"
    and "s20_phase s \<notin> {P20_Start, P20_SessionSetup, P20_AuthorizationSetup, P20_Paused, P20_Stopped}"
  shows "Accepted R20_Authorization \<in> set es"
  using iso20_run_authorized [OF assms(1)] assms(2,3) by (auto simp: iso20_authorized_phases_def)

lemma iso20_authorization_witness: "Accepted R20_Authorization \<in> set (map Accepted sample20_dc)"
  by (rule iso20_authorization [OF sample20_dc_run]) (auto simp: sample20_dc_end_def)

text \<open>
  An open ISO 15118-20 session, failed or not, can always be ended by \<open>SessionStopReq(Terminate)\<close>, after
  which nothing is accepted; and of the requests that follow a failure at most one is accepted, a
  \<open>SessionStopReq\<close> that terminates or pauses.
\<close>

lemma iso20_termination:
  assumes "s20_phase s \<noteq> P20_Start" and "\<not> iso20_is_finished s"
  shows "(\<exists>s'. iso20_accept s (R20_SessionStop CS20_Terminate) = (Inr P20_Stopped, s') \<and> (\<forall>r. \<not> iso20_permits s' r))
    \<and> length (iso20.accepted ongoing (iso20_fail s) rs) \<le> 1
    \<and> list_all iso20_is_stop (iso20.accepted ongoing (iso20_fail s) rs)"
proof -
  have "iso20_next_phase s (R20_SessionStop CS20_Terminate) = Some P20_Stopped"
    using assms by (auto simp: iso20_table_defs iso20_is_finished_def)
  moreover from this have "iso20_is_finished (snd (iso20_accept s (R20_SessionStop CS20_Terminate)))"
    by (simp add: iso20_accept_def iso20_accept_processing_def iso20_record_def iso20_is_finished_def)
  ultimately show ?thesis using iso20.finished_refuses iso20.after_fail
    by (auto simp: iso20_accept_def iso20_accept_processing_def split: prod.splits)
qed

lemma iso20_termination_witness:
  "\<exists>s'. iso20_accept (iso20_fail sample20_dc_end) (R20_SessionStop CS20_Terminate) = (Inr P20_Stopped, s')"
  using iso20_termination [of "iso20_fail sample20_dc_end" False "[]"]
  by (auto simp: iso20_fail_def sample20_dc_end_def iso20_is_finished_def)

end
