(* ===== verification/Iso20_Documents.thy ===== *)
theory Iso20_Documents
  imports Iso20_Session Bitstream
begin

text \<open>
  The documents of ISO 15118-20 as \<open>src/src/generated/iso20/\<close> declares them, one type per message set, with
  the fields the sessions read: the header's session identifier, the response code, the selected service, the
  progress and processing state of a power delivery and the kind of a session stop. Everything else of a
  document is one opaque value. Names, headers, codes and refusals are the generated functions.
\<close>

section \<open>Response codes\<close>

datatype code20 =
    C20_OK
  | C20_OKCertificateExpiresSoon
  | C20_OKNewSessionEstablished
  | C20_OKOldSessionJoined
  | C20_OKPowerToleranceConfirmed
  | C20_WARNINGAuthorizationSelectionInvalid
  | C20_WARNINGCertificateExpired
  | C20_WARNINGCertificateNotYetValid
  | C20_WARNINGCertificateRevoked
  | C20_WARNINGCertificateValidationError
  | C20_WARNINGChallengeInvalid
  | C20_WARNINGEIMAuthorizationFailure
  | C20_WARNINGEMSPUnknown
  | C20_WARNINGEVPowerProfileViolation
  | C20_WARNINGGeneralPnCAuthorizationError
  | C20_WARNINGNoCertificateAvailable
  | C20_WARNINGNoContractMatchingPCIDFound
  | C20_WARNINGPowerToleranceNotConfirmed
  | C20_WARNINGScheduleRenegotiationFailed
  | C20_WARNINGStandbyNotAllowed
  | C20_WARNINGWPT
  | C20_FAILED
  | C20_FAILEDAssociationError
  | C20_FAILEDContactorError
  | C20_FAILEDEVPowerProfileInvalid
  | C20_FAILEDEVPowerProfileViolation
  | C20_FAILEDMeteringSignatureNotValid
  | C20_FAILEDNoEnergyTransferServiceSelected
  | C20_FAILEDNoServiceRenegotiationSupported
  | C20_FAILEDPauseNotAllowed
  | C20_FAILEDPowerDeliveryNotApplied
  | C20_FAILEDPowerToleranceNotConfirmed
  | C20_FAILEDScheduleRenegotiation
  | C20_FAILEDScheduleSelectionInvalid
  | C20_FAILEDSequenceError
  | C20_FAILEDServiceIDInvalid
  | C20_FAILEDServiceSelectionInvalid
  | C20_FAILEDSignatureError
  | C20_FAILEDUnknownSession
  | C20_FAILEDWrongChargeParameter

definition code20_ALL :: "code20 list" where
  "code20_ALL =
     [C20_OK,
      C20_OKCertificateExpiresSoon,
      C20_OKNewSessionEstablished,
      C20_OKOldSessionJoined,
      C20_OKPowerToleranceConfirmed,
      C20_WARNINGAuthorizationSelectionInvalid,
      C20_WARNINGCertificateExpired,
      C20_WARNINGCertificateNotYetValid,
      C20_WARNINGCertificateRevoked,
      C20_WARNINGCertificateValidationError,
      C20_WARNINGChallengeInvalid,
      C20_WARNINGEIMAuthorizationFailure,
      C20_WARNINGEMSPUnknown,
      C20_WARNINGEVPowerProfileViolation,
      C20_WARNINGGeneralPnCAuthorizationError,
      C20_WARNINGNoCertificateAvailable,
      C20_WARNINGNoContractMatchingPCIDFound,
      C20_WARNINGPowerToleranceNotConfirmed,
      C20_WARNINGScheduleRenegotiationFailed,
      C20_WARNINGStandbyNotAllowed,
      C20_WARNINGWPT,
      C20_FAILED,
      C20_FAILEDAssociationError,
      C20_FAILEDContactorError,
      C20_FAILEDEVPowerProfileInvalid,
      C20_FAILEDEVPowerProfileViolation,
      C20_FAILEDMeteringSignatureNotValid,
      C20_FAILEDNoEnergyTransferServiceSelected,
      C20_FAILEDNoServiceRenegotiationSupported,
      C20_FAILEDPauseNotAllowed,
      C20_FAILEDPowerDeliveryNotApplied,
      C20_FAILEDPowerToleranceNotConfirmed,
      C20_FAILEDScheduleRenegotiation,
      C20_FAILEDScheduleSelectionInvalid,
      C20_FAILEDSequenceError,
      C20_FAILEDServiceIDInvalid,
      C20_FAILEDServiceSelectionInvalid,
      C20_FAILEDSignatureError,
      C20_FAILEDUnknownSession,
      C20_FAILEDWrongChargeParameter]"

text \<open>
  The arms of \<open>from_index\<close> are the values in the order of \<open>ALL\<close>.
\<close>

definition code20_from_index :: "nat \<Rightarrow> exi_error + code20" where
  "code20_from_index i = (if i < 40 then Inr (code20_ALL ! i) else Inl UnknownEnumValue)"

fun code20_is_ok :: "code20 \<Rightarrow> bool" where
  "code20_is_ok C20_OK = True"
| "code20_is_ok C20_OKCertificateExpiresSoon = True"
| "code20_is_ok C20_OKNewSessionEstablished = True"
| "code20_is_ok C20_OKOldSessionJoined = True"
| "code20_is_ok C20_OKPowerToleranceConfirmed = True"
| "code20_is_ok _ = False"

fun code20_is_warning :: "code20 \<Rightarrow> bool" where
  "code20_is_warning C20_WARNINGAuthorizationSelectionInvalid = True"
| "code20_is_warning C20_WARNINGCertificateExpired = True"
| "code20_is_warning C20_WARNINGCertificateNotYetValid = True"
| "code20_is_warning C20_WARNINGCertificateRevoked = True"
| "code20_is_warning C20_WARNINGCertificateValidationError = True"
| "code20_is_warning C20_WARNINGChallengeInvalid = True"
| "code20_is_warning C20_WARNINGEIMAuthorizationFailure = True"
| "code20_is_warning C20_WARNINGEMSPUnknown = True"
| "code20_is_warning C20_WARNINGEVPowerProfileViolation = True"
| "code20_is_warning C20_WARNINGGeneralPnCAuthorizationError = True"
| "code20_is_warning C20_WARNINGNoCertificateAvailable = True"
| "code20_is_warning C20_WARNINGNoContractMatchingPCIDFound = True"
| "code20_is_warning C20_WARNINGPowerToleranceNotConfirmed = True"
| "code20_is_warning C20_WARNINGScheduleRenegotiationFailed = True"
| "code20_is_warning C20_WARNINGStandbyNotAllowed = True"
| "code20_is_warning C20_WARNINGWPT = True"
| "code20_is_warning _ = False"

fun code20_is_failure :: "code20 \<Rightarrow> bool" where
  "code20_is_failure C20_FAILED = True"
| "code20_is_failure C20_FAILEDAssociationError = True"
| "code20_is_failure C20_FAILEDContactorError = True"
| "code20_is_failure C20_FAILEDEVPowerProfileInvalid = True"
| "code20_is_failure C20_FAILEDEVPowerProfileViolation = True"
| "code20_is_failure C20_FAILEDMeteringSignatureNotValid = True"
| "code20_is_failure C20_FAILEDNoEnergyTransferServiceSelected = True"
| "code20_is_failure C20_FAILEDNoServiceRenegotiationSupported = True"
| "code20_is_failure C20_FAILEDPauseNotAllowed = True"
| "code20_is_failure C20_FAILEDPowerDeliveryNotApplied = True"
| "code20_is_failure C20_FAILEDPowerToleranceNotConfirmed = True"
| "code20_is_failure C20_FAILEDScheduleRenegotiation = True"
| "code20_is_failure C20_FAILEDScheduleSelectionInvalid = True"
| "code20_is_failure C20_FAILEDSequenceError = True"
| "code20_is_failure C20_FAILEDServiceIDInvalid = True"
| "code20_is_failure C20_FAILEDServiceSelectionInvalid = True"
| "code20_is_failure C20_FAILEDSignatureError = True"
| "code20_is_failure C20_FAILEDUnknownSession = True"
| "code20_is_failure C20_FAILEDWrongChargeParameter = True"
| "code20_is_failure _ = False"

section \<open>Headers\<close>

record 'x header20 =
  h20_session_id :: bytes
  h20_rest :: 'x

datatype processing = Finished | Ongoing | OngoingWaitingForCustomerInteraction

text \<open>
  A refusal is built from the schema's minimum, \<open>minimal()\<close> of the header and of the response type.
\<close>

record 'x minimum20 =
  min_header :: "'x header20"
  min_content :: "string \<Rightarrow> 'x"

section \<open>Common messages\<close>

datatype 'x common_doc =
    Cm_AuthorizationReq "'x header20" 'x
  | Cm_AuthorizationRes "'x header20" code20 'x
  | Cm_AuthorizationSetupReq "'x header20" 'x
  | Cm_AuthorizationSetupRes "'x header20" code20 'x
  | Cm_CertificateInstallationReq "'x header20" 'x
  | Cm_CertificateInstallationRes "'x header20" code20 'x
  | Cm_MeteringConfirmationReq "'x header20" 'x
  | Cm_MeteringConfirmationRes "'x header20" code20 'x
  | Cm_PowerDeliveryReq "'x header20" processing charge_progress20 'x
  | Cm_PowerDeliveryRes "'x header20" code20 'x
  | Cm_ScheduleExchangeReq "'x header20" 'x
  | Cm_ScheduleExchangeRes "'x header20" code20 'x
  | Cm_ServiceDetailReq "'x header20" 'x
  | Cm_ServiceDetailRes "'x header20" code20 'x
  | Cm_ServiceDiscoveryReq "'x header20" 'x
  | Cm_ServiceDiscoveryRes "'x header20" code20 'x
  | Cm_ServiceSelectionReq "'x header20" nat 'x
  | Cm_ServiceSelectionRes "'x header20" code20 'x
  | Cm_SessionSetupReq "'x header20" 'x
  | Cm_SessionSetupRes "'x header20" code20 'x
  | Cm_SessionStopReq "'x header20" charging_session20 'x
  | Cm_SessionStopRes "'x header20" code20 'x
  | Cm_SignedInstallationData 'x
  | Cm_SignedMeteringData 'x
  | Cm_VehicleCheckInReq "'x header20" 'x
  | Cm_VehicleCheckInRes "'x header20" code20 'x
  | Cm_VehicleCheckOutReq "'x header20" 'x
  | Cm_VehicleCheckOutRes "'x header20" code20 'x

primrec common_name :: "'x common_doc \<Rightarrow> string" where
  "common_name (Cm_AuthorizationReq _ _) = ''AuthorizationReq''"
| "common_name (Cm_AuthorizationRes _ _ _) = ''AuthorizationRes''"
| "common_name (Cm_AuthorizationSetupReq _ _) = ''AuthorizationSetupReq''"
| "common_name (Cm_AuthorizationSetupRes _ _ _) = ''AuthorizationSetupRes''"
| "common_name (Cm_CertificateInstallationReq _ _) = ''CertificateInstallationReq''"
| "common_name (Cm_CertificateInstallationRes _ _ _) = ''CertificateInstallationRes''"
| "common_name (Cm_MeteringConfirmationReq _ _) = ''MeteringConfirmationReq''"
| "common_name (Cm_MeteringConfirmationRes _ _ _) = ''MeteringConfirmationRes''"
| "common_name (Cm_PowerDeliveryReq _ _ _ _) = ''PowerDeliveryReq''"
| "common_name (Cm_PowerDeliveryRes _ _ _) = ''PowerDeliveryRes''"
| "common_name (Cm_ScheduleExchangeReq _ _) = ''ScheduleExchangeReq''"
| "common_name (Cm_ScheduleExchangeRes _ _ _) = ''ScheduleExchangeRes''"
| "common_name (Cm_ServiceDetailReq _ _) = ''ServiceDetailReq''"
| "common_name (Cm_ServiceDetailRes _ _ _) = ''ServiceDetailRes''"
| "common_name (Cm_ServiceDiscoveryReq _ _) = ''ServiceDiscoveryReq''"
| "common_name (Cm_ServiceDiscoveryRes _ _ _) = ''ServiceDiscoveryRes''"
| "common_name (Cm_ServiceSelectionReq _ _ _) = ''ServiceSelectionReq''"
| "common_name (Cm_ServiceSelectionRes _ _ _) = ''ServiceSelectionRes''"
| "common_name (Cm_SessionSetupReq _ _) = ''SessionSetupReq''"
| "common_name (Cm_SessionSetupRes _ _ _) = ''SessionSetupRes''"
| "common_name (Cm_SessionStopReq _ _ _) = ''SessionStopReq''"
| "common_name (Cm_SessionStopRes _ _ _) = ''SessionStopRes''"
| "common_name (Cm_SignedInstallationData _) = ''SignedInstallationData''"
| "common_name (Cm_SignedMeteringData _) = ''SignedMeteringData''"
| "common_name (Cm_VehicleCheckInReq _ _) = ''VehicleCheckInReq''"
| "common_name (Cm_VehicleCheckInRes _ _ _) = ''VehicleCheckInRes''"
| "common_name (Cm_VehicleCheckOutReq _ _) = ''VehicleCheckOutReq''"
| "common_name (Cm_VehicleCheckOutRes _ _ _) = ''VehicleCheckOutRes''"

fun common_header :: "'x common_doc \<Rightarrow> 'x header20 option" where
  "common_header (Cm_AuthorizationReq h _) = Some h"
| "common_header (Cm_AuthorizationRes h _ _) = Some h"
| "common_header (Cm_AuthorizationSetupReq h _) = Some h"
| "common_header (Cm_AuthorizationSetupRes h _ _) = Some h"
| "common_header (Cm_CertificateInstallationReq h _) = Some h"
| "common_header (Cm_CertificateInstallationRes h _ _) = Some h"
| "common_header (Cm_MeteringConfirmationReq h _) = Some h"
| "common_header (Cm_MeteringConfirmationRes h _ _) = Some h"
| "common_header (Cm_PowerDeliveryReq h _ _ _) = Some h"
| "common_header (Cm_PowerDeliveryRes h _ _) = Some h"
| "common_header (Cm_ScheduleExchangeReq h _) = Some h"
| "common_header (Cm_ScheduleExchangeRes h _ _) = Some h"
| "common_header (Cm_ServiceDetailReq h _) = Some h"
| "common_header (Cm_ServiceDetailRes h _ _) = Some h"
| "common_header (Cm_ServiceDiscoveryReq h _) = Some h"
| "common_header (Cm_ServiceDiscoveryRes h _ _) = Some h"
| "common_header (Cm_ServiceSelectionReq h _ _) = Some h"
| "common_header (Cm_ServiceSelectionRes h _ _) = Some h"
| "common_header (Cm_SessionSetupReq h _) = Some h"
| "common_header (Cm_SessionSetupRes h _ _) = Some h"
| "common_header (Cm_SessionStopReq h _ _) = Some h"
| "common_header (Cm_SessionStopRes h _ _) = Some h"
| "common_header (Cm_VehicleCheckInReq h _) = Some h"
| "common_header (Cm_VehicleCheckInRes h _ _) = Some h"
| "common_header (Cm_VehicleCheckOutReq h _) = Some h"
| "common_header (Cm_VehicleCheckOutRes h _ _) = Some h"
| "common_header _ = None"

fun common_set_header :: "'x header20 \<Rightarrow> 'x common_doc \<Rightarrow> 'x common_doc" where
  "common_set_header h (Cm_AuthorizationReq _ a) = Cm_AuthorizationReq h a"
| "common_set_header h (Cm_AuthorizationRes _ a b) = Cm_AuthorizationRes h a b"
| "common_set_header h (Cm_AuthorizationSetupReq _ a) = Cm_AuthorizationSetupReq h a"
| "common_set_header h (Cm_AuthorizationSetupRes _ a b) = Cm_AuthorizationSetupRes h a b"
| "common_set_header h (Cm_CertificateInstallationReq _ a) = Cm_CertificateInstallationReq h a"
| "common_set_header h (Cm_CertificateInstallationRes _ a b) = Cm_CertificateInstallationRes h a b"
| "common_set_header h (Cm_MeteringConfirmationReq _ a) = Cm_MeteringConfirmationReq h a"
| "common_set_header h (Cm_MeteringConfirmationRes _ a b) = Cm_MeteringConfirmationRes h a b"
| "common_set_header h (Cm_PowerDeliveryReq _ a b c) = Cm_PowerDeliveryReq h a b c"
| "common_set_header h (Cm_PowerDeliveryRes _ a b) = Cm_PowerDeliveryRes h a b"
| "common_set_header h (Cm_ScheduleExchangeReq _ a) = Cm_ScheduleExchangeReq h a"
| "common_set_header h (Cm_ScheduleExchangeRes _ a b) = Cm_ScheduleExchangeRes h a b"
| "common_set_header h (Cm_ServiceDetailReq _ a) = Cm_ServiceDetailReq h a"
| "common_set_header h (Cm_ServiceDetailRes _ a b) = Cm_ServiceDetailRes h a b"
| "common_set_header h (Cm_ServiceDiscoveryReq _ a) = Cm_ServiceDiscoveryReq h a"
| "common_set_header h (Cm_ServiceDiscoveryRes _ a b) = Cm_ServiceDiscoveryRes h a b"
| "common_set_header h (Cm_ServiceSelectionReq _ a b) = Cm_ServiceSelectionReq h a b"
| "common_set_header h (Cm_ServiceSelectionRes _ a b) = Cm_ServiceSelectionRes h a b"
| "common_set_header h (Cm_SessionSetupReq _ a) = Cm_SessionSetupReq h a"
| "common_set_header h (Cm_SessionSetupRes _ a b) = Cm_SessionSetupRes h a b"
| "common_set_header h (Cm_SessionStopReq _ a b) = Cm_SessionStopReq h a b"
| "common_set_header h (Cm_SessionStopRes _ a b) = Cm_SessionStopRes h a b"
| "common_set_header h (Cm_VehicleCheckInReq _ a) = Cm_VehicleCheckInReq h a"
| "common_set_header h (Cm_VehicleCheckInRes _ a b) = Cm_VehicleCheckInRes h a b"
| "common_set_header h (Cm_VehicleCheckOutReq _ a) = Cm_VehicleCheckOutReq h a"
| "common_set_header h (Cm_VehicleCheckOutRes _ a b) = Cm_VehicleCheckOutRes h a b"
| "common_set_header h d = d"

fun common_response_code :: "'x common_doc \<Rightarrow> code20 option" where
  "common_response_code (Cm_AuthorizationRes _ c _) = Some c"
| "common_response_code (Cm_AuthorizationSetupRes _ c _) = Some c"
| "common_response_code (Cm_CertificateInstallationRes _ c _) = Some c"
| "common_response_code (Cm_MeteringConfirmationRes _ c _) = Some c"
| "common_response_code (Cm_PowerDeliveryRes _ c _) = Some c"
| "common_response_code (Cm_ScheduleExchangeRes _ c _) = Some c"
| "common_response_code (Cm_ServiceDetailRes _ c _) = Some c"
| "common_response_code (Cm_ServiceDiscoveryRes _ c _) = Some c"
| "common_response_code (Cm_ServiceSelectionRes _ c _) = Some c"
| "common_response_code (Cm_SessionSetupRes _ c _) = Some c"
| "common_response_code (Cm_SessionStopRes _ c _) = Some c"
| "common_response_code (Cm_VehicleCheckInRes _ c _) = Some c"
| "common_response_code (Cm_VehicleCheckOutRes _ c _) = Some c"
| "common_response_code _ = None"

fun common_refusal :: "'x minimum20 \<Rightarrow> code20 \<Rightarrow> 'x common_doc \<Rightarrow> 'x common_doc option" where
  "common_refusal mn code (Cm_AuthorizationReq _ _) = Some (Cm_AuthorizationRes (min_header mn) code (min_content mn ''AuthorizationRes''))"
| "common_refusal mn code (Cm_AuthorizationSetupReq _ _) = Some (Cm_AuthorizationSetupRes (min_header mn) code (min_content mn ''AuthorizationSetupRes''))"
| "common_refusal mn code (Cm_CertificateInstallationReq _ _) = Some (Cm_CertificateInstallationRes (min_header mn) code (min_content mn ''CertificateInstallationRes''))"
| "common_refusal mn code (Cm_MeteringConfirmationReq _ _) = Some (Cm_MeteringConfirmationRes (min_header mn) code (min_content mn ''MeteringConfirmationRes''))"
| "common_refusal mn code (Cm_PowerDeliveryReq _ _ _ _) = Some (Cm_PowerDeliveryRes (min_header mn) code (min_content mn ''PowerDeliveryRes''))"
| "common_refusal mn code (Cm_ScheduleExchangeReq _ _) = Some (Cm_ScheduleExchangeRes (min_header mn) code (min_content mn ''ScheduleExchangeRes''))"
| "common_refusal mn code (Cm_ServiceDetailReq _ _) = Some (Cm_ServiceDetailRes (min_header mn) code (min_content mn ''ServiceDetailRes''))"
| "common_refusal mn code (Cm_ServiceDiscoveryReq _ _) = Some (Cm_ServiceDiscoveryRes (min_header mn) code (min_content mn ''ServiceDiscoveryRes''))"
| "common_refusal mn code (Cm_ServiceSelectionReq _ _ _) = Some (Cm_ServiceSelectionRes (min_header mn) code (min_content mn ''ServiceSelectionRes''))"
| "common_refusal mn code (Cm_SessionSetupReq _ _) = Some (Cm_SessionSetupRes (min_header mn) code (min_content mn ''SessionSetupRes''))"
| "common_refusal mn code (Cm_SessionStopReq _ _ _) = Some (Cm_SessionStopRes (min_header mn) code (min_content mn ''SessionStopRes''))"
| "common_refusal mn code (Cm_VehicleCheckInReq _ _) = Some (Cm_VehicleCheckInRes (min_header mn) code (min_content mn ''VehicleCheckInRes''))"
| "common_refusal mn code (Cm_VehicleCheckOutReq _ _) = Some (Cm_VehicleCheckOutRes (min_header mn) code (min_content mn ''VehicleCheckOutRes''))"
| "common_refusal mn code _ = None"

section \<open>AC\<close>

datatype 'x ac_doc =
    Ac_ACCPDReqEnergyTransferMode 'x
  | Ac_ACCPDResEnergyTransferMode 'x
  | Ac_ACChargeLoopReq "'x header20" 'x
  | Ac_ACChargeLoopRes "'x header20" code20 'x
  | Ac_ACChargeParameterDiscoveryReq "'x header20" 'x
  | Ac_ACChargeParameterDiscoveryRes "'x header20" code20 'x
  | Ac_BPTACCPDReqEnergyTransferMode 'x
  | Ac_BPTACCPDResEnergyTransferMode 'x
  | Ac_BPTDynamicACCLReqControlMode 'x
  | Ac_BPTDynamicACCLResControlMode 'x
  | Ac_BPTScheduledACCLReqControlMode 'x
  | Ac_BPTScheduledACCLResControlMode 'x
  | Ac_DynamicACCLReqControlMode 'x
  | Ac_DynamicACCLResControlMode 'x
  | Ac_ScheduledACCLReqControlMode 'x
  | Ac_ScheduledACCLResControlMode 'x

primrec ac_name :: "'x ac_doc \<Rightarrow> string" where
  "ac_name (Ac_ACCPDReqEnergyTransferMode _) = ''AC_CPDReqEnergyTransferMode''"
| "ac_name (Ac_ACCPDResEnergyTransferMode _) = ''AC_CPDResEnergyTransferMode''"
| "ac_name (Ac_ACChargeLoopReq _ _) = ''AC_ChargeLoopReq''"
| "ac_name (Ac_ACChargeLoopRes _ _ _) = ''AC_ChargeLoopRes''"
| "ac_name (Ac_ACChargeParameterDiscoveryReq _ _) = ''AC_ChargeParameterDiscoveryReq''"
| "ac_name (Ac_ACChargeParameterDiscoveryRes _ _ _) = ''AC_ChargeParameterDiscoveryRes''"
| "ac_name (Ac_BPTACCPDReqEnergyTransferMode _) = ''BPT_AC_CPDReqEnergyTransferMode''"
| "ac_name (Ac_BPTACCPDResEnergyTransferMode _) = ''BPT_AC_CPDResEnergyTransferMode''"
| "ac_name (Ac_BPTDynamicACCLReqControlMode _) = ''BPT_Dynamic_AC_CLReqControlMode''"
| "ac_name (Ac_BPTDynamicACCLResControlMode _) = ''BPT_Dynamic_AC_CLResControlMode''"
| "ac_name (Ac_BPTScheduledACCLReqControlMode _) = ''BPT_Scheduled_AC_CLReqControlMode''"
| "ac_name (Ac_BPTScheduledACCLResControlMode _) = ''BPT_Scheduled_AC_CLResControlMode''"
| "ac_name (Ac_DynamicACCLReqControlMode _) = ''Dynamic_AC_CLReqControlMode''"
| "ac_name (Ac_DynamicACCLResControlMode _) = ''Dynamic_AC_CLResControlMode''"
| "ac_name (Ac_ScheduledACCLReqControlMode _) = ''Scheduled_AC_CLReqControlMode''"
| "ac_name (Ac_ScheduledACCLResControlMode _) = ''Scheduled_AC_CLResControlMode''"

fun ac_header :: "'x ac_doc \<Rightarrow> 'x header20 option" where
  "ac_header (Ac_ACChargeLoopReq h _) = Some h"
| "ac_header (Ac_ACChargeLoopRes h _ _) = Some h"
| "ac_header (Ac_ACChargeParameterDiscoveryReq h _) = Some h"
| "ac_header (Ac_ACChargeParameterDiscoveryRes h _ _) = Some h"
| "ac_header _ = None"

fun ac_set_header :: "'x header20 \<Rightarrow> 'x ac_doc \<Rightarrow> 'x ac_doc" where
  "ac_set_header h (Ac_ACChargeLoopReq _ a) = Ac_ACChargeLoopReq h a"
| "ac_set_header h (Ac_ACChargeLoopRes _ a b) = Ac_ACChargeLoopRes h a b"
| "ac_set_header h (Ac_ACChargeParameterDiscoveryReq _ a) = Ac_ACChargeParameterDiscoveryReq h a"
| "ac_set_header h (Ac_ACChargeParameterDiscoveryRes _ a b) = Ac_ACChargeParameterDiscoveryRes h a b"
| "ac_set_header h d = d"

fun ac_response_code :: "'x ac_doc \<Rightarrow> code20 option" where
  "ac_response_code (Ac_ACChargeLoopRes _ c _) = Some c"
| "ac_response_code (Ac_ACChargeParameterDiscoveryRes _ c _) = Some c"
| "ac_response_code _ = None"

fun ac_refusal :: "'x minimum20 \<Rightarrow> code20 \<Rightarrow> 'x ac_doc \<Rightarrow> 'x ac_doc option" where
  "ac_refusal mn code (Ac_ACChargeLoopReq _ _) = Some (Ac_ACChargeLoopRes (min_header mn) code (min_content mn ''ACChargeLoopRes''))"
| "ac_refusal mn code (Ac_ACChargeParameterDiscoveryReq _ _) = Some (Ac_ACChargeParameterDiscoveryRes (min_header mn) code (min_content mn ''ACChargeParameterDiscoveryRes''))"
| "ac_refusal mn code _ = None"

section \<open>DC\<close>

datatype 'x dc_doc =
    Dc_BPTDCCPDReqEnergyTransferMode 'x
  | Dc_BPTDCCPDResEnergyTransferMode 'x
  | Dc_BPTDynamicDCCLReqControlMode 'x
  | Dc_BPTDynamicDCCLResControlMode 'x
  | Dc_BPTScheduledDCCLReqControlMode 'x
  | Dc_BPTScheduledDCCLResControlMode 'x
  | Dc_DCCPDReqEnergyTransferMode 'x
  | Dc_DCCPDResEnergyTransferMode 'x
  | Dc_DCCableCheckReq "'x header20" 'x
  | Dc_DCCableCheckRes "'x header20" code20 'x
  | Dc_DCChargeLoopReq "'x header20" 'x
  | Dc_DCChargeLoopRes "'x header20" code20 'x
  | Dc_DCChargeParameterDiscoveryReq "'x header20" 'x
  | Dc_DCChargeParameterDiscoveryRes "'x header20" code20 'x
  | Dc_DCPreChargeReq "'x header20" 'x
  | Dc_DCPreChargeRes "'x header20" code20 'x
  | Dc_DCWeldingDetectionReq "'x header20" 'x
  | Dc_DCWeldingDetectionRes "'x header20" code20 'x
  | Dc_DynamicDCCLReqControlMode 'x
  | Dc_DynamicDCCLResControlMode 'x
  | Dc_ScheduledDCCLReqControlMode 'x
  | Dc_ScheduledDCCLResControlMode 'x

primrec dc_name :: "'x dc_doc \<Rightarrow> string" where
  "dc_name (Dc_BPTDCCPDReqEnergyTransferMode _) = ''BPT_DC_CPDReqEnergyTransferMode''"
| "dc_name (Dc_BPTDCCPDResEnergyTransferMode _) = ''BPT_DC_CPDResEnergyTransferMode''"
| "dc_name (Dc_BPTDynamicDCCLReqControlMode _) = ''BPT_Dynamic_DC_CLReqControlMode''"
| "dc_name (Dc_BPTDynamicDCCLResControlMode _) = ''BPT_Dynamic_DC_CLResControlMode''"
| "dc_name (Dc_BPTScheduledDCCLReqControlMode _) = ''BPT_Scheduled_DC_CLReqControlMode''"
| "dc_name (Dc_BPTScheduledDCCLResControlMode _) = ''BPT_Scheduled_DC_CLResControlMode''"
| "dc_name (Dc_DCCPDReqEnergyTransferMode _) = ''DC_CPDReqEnergyTransferMode''"
| "dc_name (Dc_DCCPDResEnergyTransferMode _) = ''DC_CPDResEnergyTransferMode''"
| "dc_name (Dc_DCCableCheckReq _ _) = ''DC_CableCheckReq''"
| "dc_name (Dc_DCCableCheckRes _ _ _) = ''DC_CableCheckRes''"
| "dc_name (Dc_DCChargeLoopReq _ _) = ''DC_ChargeLoopReq''"
| "dc_name (Dc_DCChargeLoopRes _ _ _) = ''DC_ChargeLoopRes''"
| "dc_name (Dc_DCChargeParameterDiscoveryReq _ _) = ''DC_ChargeParameterDiscoveryReq''"
| "dc_name (Dc_DCChargeParameterDiscoveryRes _ _ _) = ''DC_ChargeParameterDiscoveryRes''"
| "dc_name (Dc_DCPreChargeReq _ _) = ''DC_PreChargeReq''"
| "dc_name (Dc_DCPreChargeRes _ _ _) = ''DC_PreChargeRes''"
| "dc_name (Dc_DCWeldingDetectionReq _ _) = ''DC_WeldingDetectionReq''"
| "dc_name (Dc_DCWeldingDetectionRes _ _ _) = ''DC_WeldingDetectionRes''"
| "dc_name (Dc_DynamicDCCLReqControlMode _) = ''Dynamic_DC_CLReqControlMode''"
| "dc_name (Dc_DynamicDCCLResControlMode _) = ''Dynamic_DC_CLResControlMode''"
| "dc_name (Dc_ScheduledDCCLReqControlMode _) = ''Scheduled_DC_CLReqControlMode''"
| "dc_name (Dc_ScheduledDCCLResControlMode _) = ''Scheduled_DC_CLResControlMode''"

fun dc_header :: "'x dc_doc \<Rightarrow> 'x header20 option" where
  "dc_header (Dc_DCCableCheckReq h _) = Some h"
| "dc_header (Dc_DCCableCheckRes h _ _) = Some h"
| "dc_header (Dc_DCChargeLoopReq h _) = Some h"
| "dc_header (Dc_DCChargeLoopRes h _ _) = Some h"
| "dc_header (Dc_DCChargeParameterDiscoveryReq h _) = Some h"
| "dc_header (Dc_DCChargeParameterDiscoveryRes h _ _) = Some h"
| "dc_header (Dc_DCPreChargeReq h _) = Some h"
| "dc_header (Dc_DCPreChargeRes h _ _) = Some h"
| "dc_header (Dc_DCWeldingDetectionReq h _) = Some h"
| "dc_header (Dc_DCWeldingDetectionRes h _ _) = Some h"
| "dc_header _ = None"

fun dc_set_header :: "'x header20 \<Rightarrow> 'x dc_doc \<Rightarrow> 'x dc_doc" where
  "dc_set_header h (Dc_DCCableCheckReq _ a) = Dc_DCCableCheckReq h a"
| "dc_set_header h (Dc_DCCableCheckRes _ a b) = Dc_DCCableCheckRes h a b"
| "dc_set_header h (Dc_DCChargeLoopReq _ a) = Dc_DCChargeLoopReq h a"
| "dc_set_header h (Dc_DCChargeLoopRes _ a b) = Dc_DCChargeLoopRes h a b"
| "dc_set_header h (Dc_DCChargeParameterDiscoveryReq _ a) = Dc_DCChargeParameterDiscoveryReq h a"
| "dc_set_header h (Dc_DCChargeParameterDiscoveryRes _ a b) = Dc_DCChargeParameterDiscoveryRes h a b"
| "dc_set_header h (Dc_DCPreChargeReq _ a) = Dc_DCPreChargeReq h a"
| "dc_set_header h (Dc_DCPreChargeRes _ a b) = Dc_DCPreChargeRes h a b"
| "dc_set_header h (Dc_DCWeldingDetectionReq _ a) = Dc_DCWeldingDetectionReq h a"
| "dc_set_header h (Dc_DCWeldingDetectionRes _ a b) = Dc_DCWeldingDetectionRes h a b"
| "dc_set_header h d = d"

fun dc_response_code :: "'x dc_doc \<Rightarrow> code20 option" where
  "dc_response_code (Dc_DCCableCheckRes _ c _) = Some c"
| "dc_response_code (Dc_DCChargeLoopRes _ c _) = Some c"
| "dc_response_code (Dc_DCChargeParameterDiscoveryRes _ c _) = Some c"
| "dc_response_code (Dc_DCPreChargeRes _ c _) = Some c"
| "dc_response_code (Dc_DCWeldingDetectionRes _ c _) = Some c"
| "dc_response_code _ = None"

fun dc_refusal :: "'x minimum20 \<Rightarrow> code20 \<Rightarrow> 'x dc_doc \<Rightarrow> 'x dc_doc option" where
  "dc_refusal mn code (Dc_DCCableCheckReq _ _) = Some (Dc_DCCableCheckRes (min_header mn) code (min_content mn ''DCCableCheckRes''))"
| "dc_refusal mn code (Dc_DCChargeLoopReq _ _) = Some (Dc_DCChargeLoopRes (min_header mn) code (min_content mn ''DCChargeLoopRes''))"
| "dc_refusal mn code (Dc_DCChargeParameterDiscoveryReq _ _) = Some (Dc_DCChargeParameterDiscoveryRes (min_header mn) code (min_content mn ''DCChargeParameterDiscoveryRes''))"
| "dc_refusal mn code (Dc_DCPreChargeReq _ _) = Some (Dc_DCPreChargeRes (min_header mn) code (min_content mn ''DCPreChargeRes''))"
| "dc_refusal mn code (Dc_DCWeldingDetectionReq _ _) = Some (Dc_DCWeldingDetectionRes (min_header mn) code (min_content mn ''DCWeldingDetectionRes''))"
| "dc_refusal mn code _ = None"

section \<open>Wireless power transfer\<close>

datatype 'x wpt_doc =
    Wpt_WPTAlignmentCheckReq "'x header20" 'x
  | Wpt_WPTAlignmentCheckRes "'x header20" code20 'x
  | Wpt_WPTChargeLoopReq "'x header20" 'x
  | Wpt_WPTChargeLoopRes "'x header20" code20 'x
  | Wpt_WPTChargeParameterDiscoveryReq "'x header20" 'x
  | Wpt_WPTChargeParameterDiscoveryRes "'x header20" code20 'x
  | Wpt_WPTFinePositioningReq "'x header20" 'x
  | Wpt_WPTFinePositioningRes "'x header20" code20 'x
  | Wpt_WPTFinePositioningSetupReq "'x header20" 'x
  | Wpt_WPTFinePositioningSetupRes "'x header20" code20 'x
  | Wpt_WPTPairingReq "'x header20" 'x
  | Wpt_WPTPairingRes "'x header20" code20 'x

primrec wpt_name :: "'x wpt_doc \<Rightarrow> string" where
  "wpt_name (Wpt_WPTAlignmentCheckReq _ _) = ''WPT_AlignmentCheckReq''"
| "wpt_name (Wpt_WPTAlignmentCheckRes _ _ _) = ''WPT_AlignmentCheckRes''"
| "wpt_name (Wpt_WPTChargeLoopReq _ _) = ''WPT_ChargeLoopReq''"
| "wpt_name (Wpt_WPTChargeLoopRes _ _ _) = ''WPT_ChargeLoopRes''"
| "wpt_name (Wpt_WPTChargeParameterDiscoveryReq _ _) = ''WPT_ChargeParameterDiscoveryReq''"
| "wpt_name (Wpt_WPTChargeParameterDiscoveryRes _ _ _) = ''WPT_ChargeParameterDiscoveryRes''"
| "wpt_name (Wpt_WPTFinePositioningReq _ _) = ''WPT_FinePositioningReq''"
| "wpt_name (Wpt_WPTFinePositioningRes _ _ _) = ''WPT_FinePositioningRes''"
| "wpt_name (Wpt_WPTFinePositioningSetupReq _ _) = ''WPT_FinePositioningSetupReq''"
| "wpt_name (Wpt_WPTFinePositioningSetupRes _ _ _) = ''WPT_FinePositioningSetupRes''"
| "wpt_name (Wpt_WPTPairingReq _ _) = ''WPT_PairingReq''"
| "wpt_name (Wpt_WPTPairingRes _ _ _) = ''WPT_PairingRes''"

fun wpt_header :: "'x wpt_doc \<Rightarrow> 'x header20 option" where
  "wpt_header (Wpt_WPTAlignmentCheckReq h _) = Some h"
| "wpt_header (Wpt_WPTAlignmentCheckRes h _ _) = Some h"
| "wpt_header (Wpt_WPTChargeLoopReq h _) = Some h"
| "wpt_header (Wpt_WPTChargeLoopRes h _ _) = Some h"
| "wpt_header (Wpt_WPTChargeParameterDiscoveryReq h _) = Some h"
| "wpt_header (Wpt_WPTChargeParameterDiscoveryRes h _ _) = Some h"
| "wpt_header (Wpt_WPTFinePositioningReq h _) = Some h"
| "wpt_header (Wpt_WPTFinePositioningRes h _ _) = Some h"
| "wpt_header (Wpt_WPTFinePositioningSetupReq h _) = Some h"
| "wpt_header (Wpt_WPTFinePositioningSetupRes h _ _) = Some h"
| "wpt_header (Wpt_WPTPairingReq h _) = Some h"
| "wpt_header (Wpt_WPTPairingRes h _ _) = Some h"

fun wpt_set_header :: "'x header20 \<Rightarrow> 'x wpt_doc \<Rightarrow> 'x wpt_doc" where
  "wpt_set_header h (Wpt_WPTAlignmentCheckReq _ a) = Wpt_WPTAlignmentCheckReq h a"
| "wpt_set_header h (Wpt_WPTAlignmentCheckRes _ a b) = Wpt_WPTAlignmentCheckRes h a b"
| "wpt_set_header h (Wpt_WPTChargeLoopReq _ a) = Wpt_WPTChargeLoopReq h a"
| "wpt_set_header h (Wpt_WPTChargeLoopRes _ a b) = Wpt_WPTChargeLoopRes h a b"
| "wpt_set_header h (Wpt_WPTChargeParameterDiscoveryReq _ a) = Wpt_WPTChargeParameterDiscoveryReq h a"
| "wpt_set_header h (Wpt_WPTChargeParameterDiscoveryRes _ a b) = Wpt_WPTChargeParameterDiscoveryRes h a b"
| "wpt_set_header h (Wpt_WPTFinePositioningReq _ a) = Wpt_WPTFinePositioningReq h a"
| "wpt_set_header h (Wpt_WPTFinePositioningRes _ a b) = Wpt_WPTFinePositioningRes h a b"
| "wpt_set_header h (Wpt_WPTFinePositioningSetupReq _ a) = Wpt_WPTFinePositioningSetupReq h a"
| "wpt_set_header h (Wpt_WPTFinePositioningSetupRes _ a b) = Wpt_WPTFinePositioningSetupRes h a b"
| "wpt_set_header h (Wpt_WPTPairingReq _ a) = Wpt_WPTPairingReq h a"
| "wpt_set_header h (Wpt_WPTPairingRes _ a b) = Wpt_WPTPairingRes h a b"

fun wpt_response_code :: "'x wpt_doc \<Rightarrow> code20 option" where
  "wpt_response_code (Wpt_WPTAlignmentCheckRes _ c _) = Some c"
| "wpt_response_code (Wpt_WPTChargeLoopRes _ c _) = Some c"
| "wpt_response_code (Wpt_WPTChargeParameterDiscoveryRes _ c _) = Some c"
| "wpt_response_code (Wpt_WPTFinePositioningRes _ c _) = Some c"
| "wpt_response_code (Wpt_WPTFinePositioningSetupRes _ c _) = Some c"
| "wpt_response_code (Wpt_WPTPairingRes _ c _) = Some c"
| "wpt_response_code _ = None"

fun wpt_refusal :: "'x minimum20 \<Rightarrow> code20 \<Rightarrow> 'x wpt_doc \<Rightarrow> 'x wpt_doc option" where
  "wpt_refusal mn code (Wpt_WPTAlignmentCheckReq _ _) = Some (Wpt_WPTAlignmentCheckRes (min_header mn) code (min_content mn ''WPTAlignmentCheckRes''))"
| "wpt_refusal mn code (Wpt_WPTChargeLoopReq _ _) = Some (Wpt_WPTChargeLoopRes (min_header mn) code (min_content mn ''WPTChargeLoopRes''))"
| "wpt_refusal mn code (Wpt_WPTChargeParameterDiscoveryReq _ _) = Some (Wpt_WPTChargeParameterDiscoveryRes (min_header mn) code (min_content mn ''WPTChargeParameterDiscoveryRes''))"
| "wpt_refusal mn code (Wpt_WPTFinePositioningReq _ _) = Some (Wpt_WPTFinePositioningRes (min_header mn) code (min_content mn ''WPTFinePositioningRes''))"
| "wpt_refusal mn code (Wpt_WPTFinePositioningSetupReq _ _) = Some (Wpt_WPTFinePositioningSetupRes (min_header mn) code (min_content mn ''WPTFinePositioningSetupRes''))"
| "wpt_refusal mn code (Wpt_WPTPairingReq _ _) = Some (Wpt_WPTPairingRes (min_header mn) code (min_content mn ''WPTPairingRes''))"
| "wpt_refusal mn code _ = None"

section \<open>Automated connection device\<close>

datatype 'x acdp_doc =
    Acdp_ACDPConnectReq "'x header20" 'x
  | Acdp_ACDPConnectRes "'x header20" code20 'x
  | Acdp_ACDPDisconnectReq "'x header20" 'x
  | Acdp_ACDPDisconnectRes "'x header20" code20 'x
  | Acdp_ACDPSystemStatusReq "'x header20" 'x
  | Acdp_ACDPSystemStatusRes "'x header20" code20 'x
  | Acdp_ACDPVehiclePositioningReq "'x header20" 'x
  | Acdp_ACDPVehiclePositioningRes "'x header20" code20 'x

primrec acdp_name :: "'x acdp_doc \<Rightarrow> string" where
  "acdp_name (Acdp_ACDPConnectReq _ _) = ''ACDP_ConnectReq''"
| "acdp_name (Acdp_ACDPConnectRes _ _ _) = ''ACDP_ConnectRes''"
| "acdp_name (Acdp_ACDPDisconnectReq _ _) = ''ACDP_DisconnectReq''"
| "acdp_name (Acdp_ACDPDisconnectRes _ _ _) = ''ACDP_DisconnectRes''"
| "acdp_name (Acdp_ACDPSystemStatusReq _ _) = ''ACDP_SystemStatusReq''"
| "acdp_name (Acdp_ACDPSystemStatusRes _ _ _) = ''ACDP_SystemStatusRes''"
| "acdp_name (Acdp_ACDPVehiclePositioningReq _ _) = ''ACDP_VehiclePositioningReq''"
| "acdp_name (Acdp_ACDPVehiclePositioningRes _ _ _) = ''ACDP_VehiclePositioningRes''"

fun acdp_header :: "'x acdp_doc \<Rightarrow> 'x header20 option" where
  "acdp_header (Acdp_ACDPConnectReq h _) = Some h"
| "acdp_header (Acdp_ACDPConnectRes h _ _) = Some h"
| "acdp_header (Acdp_ACDPDisconnectReq h _) = Some h"
| "acdp_header (Acdp_ACDPDisconnectRes h _ _) = Some h"
| "acdp_header (Acdp_ACDPSystemStatusReq h _) = Some h"
| "acdp_header (Acdp_ACDPSystemStatusRes h _ _) = Some h"
| "acdp_header (Acdp_ACDPVehiclePositioningReq h _) = Some h"
| "acdp_header (Acdp_ACDPVehiclePositioningRes h _ _) = Some h"

fun acdp_set_header :: "'x header20 \<Rightarrow> 'x acdp_doc \<Rightarrow> 'x acdp_doc" where
  "acdp_set_header h (Acdp_ACDPConnectReq _ a) = Acdp_ACDPConnectReq h a"
| "acdp_set_header h (Acdp_ACDPConnectRes _ a b) = Acdp_ACDPConnectRes h a b"
| "acdp_set_header h (Acdp_ACDPDisconnectReq _ a) = Acdp_ACDPDisconnectReq h a"
| "acdp_set_header h (Acdp_ACDPDisconnectRes _ a b) = Acdp_ACDPDisconnectRes h a b"
| "acdp_set_header h (Acdp_ACDPSystemStatusReq _ a) = Acdp_ACDPSystemStatusReq h a"
| "acdp_set_header h (Acdp_ACDPSystemStatusRes _ a b) = Acdp_ACDPSystemStatusRes h a b"
| "acdp_set_header h (Acdp_ACDPVehiclePositioningReq _ a) = Acdp_ACDPVehiclePositioningReq h a"
| "acdp_set_header h (Acdp_ACDPVehiclePositioningRes _ a b) = Acdp_ACDPVehiclePositioningRes h a b"

fun acdp_response_code :: "'x acdp_doc \<Rightarrow> code20 option" where
  "acdp_response_code (Acdp_ACDPConnectRes _ c _) = Some c"
| "acdp_response_code (Acdp_ACDPDisconnectRes _ c _) = Some c"
| "acdp_response_code (Acdp_ACDPSystemStatusRes _ c _) = Some c"
| "acdp_response_code (Acdp_ACDPVehiclePositioningRes _ c _) = Some c"
| "acdp_response_code _ = None"

fun acdp_refusal :: "'x minimum20 \<Rightarrow> code20 \<Rightarrow> 'x acdp_doc \<Rightarrow> 'x acdp_doc option" where
  "acdp_refusal mn code (Acdp_ACDPConnectReq _ _) = Some (Acdp_ACDPConnectRes (min_header mn) code (min_content mn ''ACDPConnectRes''))"
| "acdp_refusal mn code (Acdp_ACDPDisconnectReq _ _) = Some (Acdp_ACDPDisconnectRes (min_header mn) code (min_content mn ''ACDPDisconnectRes''))"
| "acdp_refusal mn code (Acdp_ACDPSystemStatusReq _ _) = Some (Acdp_ACDPSystemStatusRes (min_header mn) code (min_content mn ''ACDPSystemStatusRes''))"
| "acdp_refusal mn code (Acdp_ACDPVehiclePositioningReq _ _) = Some (Acdp_ACDPVehiclePositioningRes (min_header mn) code (min_content mn ''ACDPVehiclePositioningRes''))"
| "acdp_refusal mn code _ = None"

section \<open>AC with distributed energy resources, IEC\<close>

datatype 'x ac_der_iec_doc =
    Iec_ACCPDReqEnergyTransferMode 'x
  | Iec_ACCPDResEnergyTransferMode 'x
  | Iec_ACChargeLoopReq "'x header20" 'x
  | Iec_ACChargeLoopRes "'x header20" code20 'x
  | Iec_ACChargeParameterDiscoveryReq "'x header20" 'x
  | Iec_ACChargeParameterDiscoveryRes "'x header20" code20 'x
  | Iec_BPTACCPDReqEnergyTransferMode 'x
  | Iec_BPTACCPDResEnergyTransferMode 'x
  | Iec_BPTDynamicACCLReqControlMode 'x
  | Iec_BPTDynamicACCLResControlMode 'x
  | Iec_BPTScheduledACCLReqControlMode 'x
  | Iec_BPTScheduledACCLResControlMode 'x
  | Iec_DERACCPDReqEnergyTransferMode 'x
  | Iec_DERACCPDResEnergyTransferMode 'x
  | Iec_DERDynamicACCLReqControlMode 'x
  | Iec_DERDynamicACCLResControlMode 'x
  | Iec_DERScheduledACCLReqControlMode 'x
  | Iec_DERScheduledACCLResControlMode 'x
  | Iec_DynamicACCLReqControlMode 'x
  | Iec_DynamicACCLResControlMode 'x
  | Iec_ScheduledACCLReqControlMode 'x
  | Iec_ScheduledACCLResControlMode 'x

primrec ac_der_iec_name :: "'x ac_der_iec_doc \<Rightarrow> string" where
  "ac_der_iec_name (Iec_ACCPDReqEnergyTransferMode _) = ''AC_CPDReqEnergyTransferMode''"
| "ac_der_iec_name (Iec_ACCPDResEnergyTransferMode _) = ''AC_CPDResEnergyTransferMode''"
| "ac_der_iec_name (Iec_ACChargeLoopReq _ _) = ''AC_ChargeLoopReq''"
| "ac_der_iec_name (Iec_ACChargeLoopRes _ _ _) = ''AC_ChargeLoopRes''"
| "ac_der_iec_name (Iec_ACChargeParameterDiscoveryReq _ _) = ''AC_ChargeParameterDiscoveryReq''"
| "ac_der_iec_name (Iec_ACChargeParameterDiscoveryRes _ _ _) = ''AC_ChargeParameterDiscoveryRes''"
| "ac_der_iec_name (Iec_BPTACCPDReqEnergyTransferMode _) = ''BPT_AC_CPDReqEnergyTransferMode''"
| "ac_der_iec_name (Iec_BPTACCPDResEnergyTransferMode _) = ''BPT_AC_CPDResEnergyTransferMode''"
| "ac_der_iec_name (Iec_BPTDynamicACCLReqControlMode _) = ''BPT_Dynamic_AC_CLReqControlMode''"
| "ac_der_iec_name (Iec_BPTDynamicACCLResControlMode _) = ''BPT_Dynamic_AC_CLResControlMode''"
| "ac_der_iec_name (Iec_BPTScheduledACCLReqControlMode _) = ''BPT_Scheduled_AC_CLReqControlMode''"
| "ac_der_iec_name (Iec_BPTScheduledACCLResControlMode _) = ''BPT_Scheduled_AC_CLResControlMode''"
| "ac_der_iec_name (Iec_DERACCPDReqEnergyTransferMode _) = ''DER_AC_CPDReqEnergyTransferMode''"
| "ac_der_iec_name (Iec_DERACCPDResEnergyTransferMode _) = ''DER_AC_CPDResEnergyTransferMode''"
| "ac_der_iec_name (Iec_DERDynamicACCLReqControlMode _) = ''DER_Dynamic_AC_CLReqControlMode''"
| "ac_der_iec_name (Iec_DERDynamicACCLResControlMode _) = ''DER_Dynamic_AC_CLResControlMode''"
| "ac_der_iec_name (Iec_DERScheduledACCLReqControlMode _) = ''DER_Scheduled_AC_CLReqControlMode''"
| "ac_der_iec_name (Iec_DERScheduledACCLResControlMode _) = ''DER_Scheduled_AC_CLResControlMode''"
| "ac_der_iec_name (Iec_DynamicACCLReqControlMode _) = ''Dynamic_AC_CLReqControlMode''"
| "ac_der_iec_name (Iec_DynamicACCLResControlMode _) = ''Dynamic_AC_CLResControlMode''"
| "ac_der_iec_name (Iec_ScheduledACCLReqControlMode _) = ''Scheduled_AC_CLReqControlMode''"
| "ac_der_iec_name (Iec_ScheduledACCLResControlMode _) = ''Scheduled_AC_CLResControlMode''"

fun ac_der_iec_header :: "'x ac_der_iec_doc \<Rightarrow> 'x header20 option" where
  "ac_der_iec_header (Iec_ACChargeLoopReq h _) = Some h"
| "ac_der_iec_header (Iec_ACChargeLoopRes h _ _) = Some h"
| "ac_der_iec_header (Iec_ACChargeParameterDiscoveryReq h _) = Some h"
| "ac_der_iec_header (Iec_ACChargeParameterDiscoveryRes h _ _) = Some h"
| "ac_der_iec_header _ = None"

fun ac_der_iec_set_header :: "'x header20 \<Rightarrow> 'x ac_der_iec_doc \<Rightarrow> 'x ac_der_iec_doc" where
  "ac_der_iec_set_header h (Iec_ACChargeLoopReq _ a) = Iec_ACChargeLoopReq h a"
| "ac_der_iec_set_header h (Iec_ACChargeLoopRes _ a b) = Iec_ACChargeLoopRes h a b"
| "ac_der_iec_set_header h (Iec_ACChargeParameterDiscoveryReq _ a) = Iec_ACChargeParameterDiscoveryReq h a"
| "ac_der_iec_set_header h (Iec_ACChargeParameterDiscoveryRes _ a b) = Iec_ACChargeParameterDiscoveryRes h a b"
| "ac_der_iec_set_header h d = d"

fun ac_der_iec_response_code :: "'x ac_der_iec_doc \<Rightarrow> code20 option" where
  "ac_der_iec_response_code (Iec_ACChargeLoopRes _ c _) = Some c"
| "ac_der_iec_response_code (Iec_ACChargeParameterDiscoveryRes _ c _) = Some c"
| "ac_der_iec_response_code _ = None"

fun ac_der_iec_refusal :: "'x minimum20 \<Rightarrow> code20 \<Rightarrow> 'x ac_der_iec_doc \<Rightarrow> 'x ac_der_iec_doc option" where
  "ac_der_iec_refusal mn code (Iec_ACChargeLoopReq _ _) = Some (Iec_ACChargeLoopRes (min_header mn) code (min_content mn ''ACChargeLoopRes''))"
| "ac_der_iec_refusal mn code (Iec_ACChargeParameterDiscoveryReq _ _) = Some (Iec_ACChargeParameterDiscoveryRes (min_header mn) code (min_content mn ''ACChargeParameterDiscoveryRes''))"
| "ac_der_iec_refusal mn code _ = None"

section \<open>AC with distributed energy resources, SAE\<close>

datatype 'x ac_der_sae_doc =
    Sae_ACCPDReqEnergyTransferMode 'x
  | Sae_ACCPDResEnergyTransferMode 'x
  | Sae_ACChargeLoopReq "'x header20" 'x
  | Sae_ACChargeLoopRes "'x header20" code20 'x
  | Sae_ACChargeParameterDiscoveryReq "'x header20" 'x
  | Sae_ACChargeParameterDiscoveryRes "'x header20" code20 'x
  | Sae_BPTACCPDReqEnergyTransferMode 'x
  | Sae_BPTACCPDResEnergyTransferMode 'x
  | Sae_BPTDynamicACCLReqControlMode 'x
  | Sae_BPTDynamicACCLResControlMode 'x
  | Sae_BPTScheduledACCLReqControlMode 'x
  | Sae_BPTScheduledACCLResControlMode 'x
  | Sae_DERACCPDReqEnergyTransferMode 'x
  | Sae_DERACCPDResEnergyTransferMode 'x
  | Sae_DERDynamicACCLReqControlMode 'x
  | Sae_DERDynamicACCLResControlMode 'x
  | Sae_DERScheduledACCLReqControlMode 'x
  | Sae_DERScheduledACCLResControlMode 'x
  | Sae_DynamicACCLReqControlMode 'x
  | Sae_DynamicACCLResControlMode 'x
  | Sae_FrequencyDroop 'x
  | Sae_ScheduledACCLReqControlMode 'x
  | Sae_ScheduledACCLResControlMode 'x

primrec ac_der_sae_name :: "'x ac_der_sae_doc \<Rightarrow> string" where
  "ac_der_sae_name (Sae_ACCPDReqEnergyTransferMode _) = ''AC_CPDReqEnergyTransferMode''"
| "ac_der_sae_name (Sae_ACCPDResEnergyTransferMode _) = ''AC_CPDResEnergyTransferMode''"
| "ac_der_sae_name (Sae_ACChargeLoopReq _ _) = ''AC_ChargeLoopReq''"
| "ac_der_sae_name (Sae_ACChargeLoopRes _ _ _) = ''AC_ChargeLoopRes''"
| "ac_der_sae_name (Sae_ACChargeParameterDiscoveryReq _ _) = ''AC_ChargeParameterDiscoveryReq''"
| "ac_der_sae_name (Sae_ACChargeParameterDiscoveryRes _ _ _) = ''AC_ChargeParameterDiscoveryRes''"
| "ac_der_sae_name (Sae_BPTACCPDReqEnergyTransferMode _) = ''BPT_AC_CPDReqEnergyTransferMode''"
| "ac_der_sae_name (Sae_BPTACCPDResEnergyTransferMode _) = ''BPT_AC_CPDResEnergyTransferMode''"
| "ac_der_sae_name (Sae_BPTDynamicACCLReqControlMode _) = ''BPT_Dynamic_AC_CLReqControlMode''"
| "ac_der_sae_name (Sae_BPTDynamicACCLResControlMode _) = ''BPT_Dynamic_AC_CLResControlMode''"
| "ac_der_sae_name (Sae_BPTScheduledACCLReqControlMode _) = ''BPT_Scheduled_AC_CLReqControlMode''"
| "ac_der_sae_name (Sae_BPTScheduledACCLResControlMode _) = ''BPT_Scheduled_AC_CLResControlMode''"
| "ac_der_sae_name (Sae_DERACCPDReqEnergyTransferMode _) = ''DER_AC_CPDReqEnergyTransferMode''"
| "ac_der_sae_name (Sae_DERACCPDResEnergyTransferMode _) = ''DER_AC_CPDResEnergyTransferMode''"
| "ac_der_sae_name (Sae_DERDynamicACCLReqControlMode _) = ''DER_Dynamic_AC_CLReqControlMode''"
| "ac_der_sae_name (Sae_DERDynamicACCLResControlMode _) = ''DER_Dynamic_AC_CLResControlMode''"
| "ac_der_sae_name (Sae_DERScheduledACCLReqControlMode _) = ''DER_Scheduled_AC_CLReqControlMode''"
| "ac_der_sae_name (Sae_DERScheduledACCLResControlMode _) = ''DER_Scheduled_AC_CLResControlMode''"
| "ac_der_sae_name (Sae_DynamicACCLReqControlMode _) = ''Dynamic_AC_CLReqControlMode''"
| "ac_der_sae_name (Sae_DynamicACCLResControlMode _) = ''Dynamic_AC_CLResControlMode''"
| "ac_der_sae_name (Sae_FrequencyDroop _) = ''FrequencyDroop''"
| "ac_der_sae_name (Sae_ScheduledACCLReqControlMode _) = ''Scheduled_AC_CLReqControlMode''"
| "ac_der_sae_name (Sae_ScheduledACCLResControlMode _) = ''Scheduled_AC_CLResControlMode''"

fun ac_der_sae_header :: "'x ac_der_sae_doc \<Rightarrow> 'x header20 option" where
  "ac_der_sae_header (Sae_ACChargeLoopReq h _) = Some h"
| "ac_der_sae_header (Sae_ACChargeLoopRes h _ _) = Some h"
| "ac_der_sae_header (Sae_ACChargeParameterDiscoveryReq h _) = Some h"
| "ac_der_sae_header (Sae_ACChargeParameterDiscoveryRes h _ _) = Some h"
| "ac_der_sae_header _ = None"

fun ac_der_sae_set_header :: "'x header20 \<Rightarrow> 'x ac_der_sae_doc \<Rightarrow> 'x ac_der_sae_doc" where
  "ac_der_sae_set_header h (Sae_ACChargeLoopReq _ a) = Sae_ACChargeLoopReq h a"
| "ac_der_sae_set_header h (Sae_ACChargeLoopRes _ a b) = Sae_ACChargeLoopRes h a b"
| "ac_der_sae_set_header h (Sae_ACChargeParameterDiscoveryReq _ a) = Sae_ACChargeParameterDiscoveryReq h a"
| "ac_der_sae_set_header h (Sae_ACChargeParameterDiscoveryRes _ a b) = Sae_ACChargeParameterDiscoveryRes h a b"
| "ac_der_sae_set_header h d = d"

fun ac_der_sae_response_code :: "'x ac_der_sae_doc \<Rightarrow> code20 option" where
  "ac_der_sae_response_code (Sae_ACChargeLoopRes _ c _) = Some c"
| "ac_der_sae_response_code (Sae_ACChargeParameterDiscoveryRes _ c _) = Some c"
| "ac_der_sae_response_code _ = None"

fun ac_der_sae_refusal :: "'x minimum20 \<Rightarrow> code20 \<Rightarrow> 'x ac_der_sae_doc \<Rightarrow> 'x ac_der_sae_doc option" where
  "ac_der_sae_refusal mn code (Sae_ACChargeLoopReq _ _) = Some (Sae_ACChargeLoopRes (min_header mn) code (min_content mn ''ACChargeLoopRes''))"
| "ac_der_sae_refusal mn code (Sae_ACChargeParameterDiscoveryReq _ _) = Some (Sae_ACChargeParameterDiscoveryRes (min_header mn) code (min_content mn ''ACChargeParameterDiscoveryRes''))"
| "ac_der_sae_refusal mn code _ = None"

end
