(* ===== verification/Documents.thy ===== *)
theory Documents
  imports App_Protocol Message Iso2_Documents Iso20_Documents
begin

text \<open>
  The projections of \<open>src/src/message.rs\<close> from a message whatever its set: its name, what its response code
  means, the session identifier it carries, which request it answers, the refusal of a request; and
  \<open>Request::of\<close> of the two sequencers, which reduces a message to what the order of messages depends on.
  A document is of one of the ten types of the enum \<open>Message\<close>; \<open>doc_set\<close> is its variant.
\<close>

section \<open>Documents of every set\<close>

datatype 'x document =
    Doc_AppProtocolReq app_req
  | Doc_AppProtocolRes app_res
  | Doc_Iso2 "'x iso2_doc"
  | Doc_Iso20 "'x common_doc"
  | Doc_Iso20Ac "'x ac_doc"
  | Doc_Iso20Dc "'x dc_doc"
  | Doc_Iso20Wpt "'x wpt_doc"
  | Doc_Iso20Acdp "'x acdp_doc"
  | Doc_Iso20AcDerIec "'x ac_der_iec_doc"
  | Doc_Iso20AcDerSae "'x ac_der_sae_doc"

primrec doc_set :: "'x document \<Rightarrow> message_set" where
  "doc_set (Doc_AppProtocolReq _) = M_AppProtocolReq"
| "doc_set (Doc_AppProtocolRes _) = M_AppProtocolRes"
| "doc_set (Doc_Iso2 _) = M_Iso2"
| "doc_set (Doc_Iso20 _) = M_Iso20"
| "doc_set (Doc_Iso20Ac _) = M_Iso20Ac"
| "doc_set (Doc_Iso20Dc _) = M_Iso20Dc"
| "doc_set (Doc_Iso20Wpt _) = M_Iso20Wpt"
| "doc_set (Doc_Iso20Acdp _) = M_Iso20Acdp"
| "doc_set (Doc_Iso20AcDerIec _) = M_Iso20AcDerIec"
| "doc_set (Doc_Iso20AcDerSae _) = M_Iso20AcDerSae"

type_synonym 'x msg = "'x document message"

definition of_doc :: "'x document \<Rightarrow> 'x msg" where
  "of_doc d = Message (doc_set d) d"

text \<open>A variant of the enum holds a document of its own type; so do the codecs of a set.\<close>

definition typed :: "'x msg \<Rightarrow> bool" where
  "typed m \<longleftrightarrow> msg_set m = doc_set (msg_doc m)"

definition typed_codecs :: "'x document codecs \<Rightarrow> bool" where
  "typed_codecs cs \<longleftrightarrow> (\<forall>ms bs d. from_bytes cs ms bs = Inr d \<longrightarrow> doc_set d = ms)"

lemma typed_of_doc [simp]: "typed (of_doc d)" "msg_doc (of_doc d) = d" "msg_set (of_doc d) = doc_set d"
  by (simp_all add: typed_def of_doc_def)

section \<open>Names\<close>

text \<open>Rust's \<open>strip_suffix\<close> and \<open>ends_with\<close>.\<close>

definition strip_suffix :: "string \<Rightarrow> string \<Rightarrow> string option" where
  "strip_suffix suf s =
     (if drop (length s - length suf) s = suf then Some (take (length s - length suf) s) else None)"

definition ends_with :: "string \<Rightarrow> string \<Rightarrow> bool" where
  "ends_with suf s \<longleftrightarrow> strip_suffix suf s \<noteq> None"

lemma strip_suffix_append [simp]: "strip_suffix suf (s @ suf) = Some s"
  by (simp add: strip_suffix_def)

lemma strip_suffix_Some: "strip_suffix suf s = Some a \<longleftrightarrow> s = a @ suf"
proof
  assume "strip_suffix suf s = Some a"
  then have "drop (length s - length suf) s = suf" "a = take (length s - length suf) s"
    by (auto simp: strip_suffix_def split: if_splits)
  then show "s = a @ suf" by (metis append_take_drop_id)
qed simp

primrec doc_name :: "'x document \<Rightarrow> string" where
  "doc_name (Doc_AppProtocolReq _) = ''supportedAppProtocolReq''"
| "doc_name (Doc_AppProtocolRes _) = ''supportedAppProtocolRes''"
| "doc_name (Doc_Iso2 d) =
     (case d of
        D2_V2GMessage v \<Rightarrow> (case v2g_body v of Some b \<Rightarrow> body2_name b | None \<Rightarrow> ''V2G_Message'')
      | D2_Element _ _ \<Rightarrow> iso2_doc_name d)"
| "doc_name (Doc_Iso20 d) = common_name d"
| "doc_name (Doc_Iso20Ac d) = ac_name d"
| "doc_name (Doc_Iso20Dc d) = dc_name d"
| "doc_name (Doc_Iso20Wpt d) = wpt_name d"
| "doc_name (Doc_Iso20Acdp d) = acdp_name d"
| "doc_name (Doc_Iso20AcDerIec d) = ac_der_iec_name d"
| "doc_name (Doc_Iso20AcDerSae d) = ac_der_sae_name d"

definition message_name :: "'x msg \<Rightarrow> string" where
  "message_name m = doc_name (msg_doc m)"

definition is_request :: "'x msg \<Rightarrow> bool" where
  "is_request m \<longleftrightarrow> ends_with ''Req'' (message_name m)"

definition answers :: "'x msg \<Rightarrow> string \<Rightarrow> bool" where
  "answers m request \<longleftrightarrow>
     (case (strip_suffix ''Req'' request, strip_suffix ''Res'' (message_name m)) of
        (Some a, Some b) \<Rightarrow> a = b
      | _ \<Rightarrow> False)"

section \<open>What a response says\<close>

datatype outcome = Outcome_Ok | Outcome_Warning | Outcome_Failed

definition is_failure :: "outcome \<Rightarrow> bool" where
  "is_failure out \<longleftrightarrow> out = Outcome_Failed"

definition classify :: "bool \<Rightarrow> bool \<Rightarrow> outcome" where
  "classify is_ok is_warning =
     (if is_ok then Outcome_Ok else if is_warning then Outcome_Warning else Outcome_Failed)"

definition classify2 :: "code2 \<Rightarrow> outcome" where
  "classify2 c = classify (code2_is_ok c) (code2_is_warning c)"

definition classify20 :: "code20 \<Rightarrow> outcome" where
  "classify20 c = classify (code20_is_ok c) (code20_is_warning c)"

primrec doc_outcome :: "'x document \<Rightarrow> outcome option" where
  "doc_outcome (Doc_AppProtocolReq _) = None"
| "doc_outcome (Doc_AppProtocolRes m) =
     Some (if app_code_is_ok (res_response_code m) then Outcome_Ok else Outcome_Failed)"
| "doc_outcome (Doc_Iso2 d) =
     (case d of
        D2_V2GMessage v \<Rightarrow> Option.bind (v2g_body v) (\<lambda>b. map_option classify2 (body2_response_code b))
      | D2_Element _ _ \<Rightarrow> None)"
| "doc_outcome (Doc_Iso20 d) = map_option classify20 (common_response_code d)"
| "doc_outcome (Doc_Iso20Ac d) = map_option classify20 (ac_response_code d)"
| "doc_outcome (Doc_Iso20Dc d) = map_option classify20 (dc_response_code d)"
| "doc_outcome (Doc_Iso20Wpt d) = map_option classify20 (wpt_response_code d)"
| "doc_outcome (Doc_Iso20Acdp d) = map_option classify20 (acdp_response_code d)"
| "doc_outcome (Doc_Iso20AcDerIec d) = map_option classify20 (ac_der_iec_response_code d)"
| "doc_outcome (Doc_Iso20AcDerSae d) = map_option classify20 (ac_der_sae_response_code d)"

definition message_outcome :: "'x msg \<Rightarrow> outcome option" where
  "message_outcome m = doc_outcome (msg_doc m)"

section \<open>Session identifiers\<close>

definition ok_id :: "'e + bytes \<Rightarrow> bytes option" where
  "ok_id r = (case r of Inr i \<Rightarrow> Some i | Inl _ \<Rightarrow> None)"

definition header_session_id :: "'x header20 option \<Rightarrow> bytes option" where
  "header_session_id h = Option.bind h (\<lambda>h. ok_id (session_id_from_slice (h20_session_id h)))"

primrec doc_session_id :: "'x document \<Rightarrow> bytes option" where
  "doc_session_id (Doc_AppProtocolReq _) = None"
| "doc_session_id (Doc_AppProtocolRes _) = None"
| "doc_session_id (Doc_Iso2 d) =
     (case d of
        D2_V2GMessage v \<Rightarrow> ok_id (session_id_from_slice (h2_session_id (v2g_header v)))
      | D2_Element _ _ \<Rightarrow> None)"
| "doc_session_id (Doc_Iso20 d) = header_session_id (common_header d)"
| "doc_session_id (Doc_Iso20Ac d) = header_session_id (ac_header d)"
| "doc_session_id (Doc_Iso20Dc d) = header_session_id (dc_header d)"
| "doc_session_id (Doc_Iso20Wpt d) = header_session_id (wpt_header d)"
| "doc_session_id (Doc_Iso20Acdp d) = header_session_id (acdp_header d)"
| "doc_session_id (Doc_Iso20AcDerIec d) = header_session_id (ac_der_iec_header d)"
| "doc_session_id (Doc_Iso20AcDerSae d) = header_session_id (ac_der_sae_header d)"

definition message_session_id :: "'x msg \<Rightarrow> bytes option" where
  "message_session_id m = doc_session_id (msg_doc m)"

text \<open>\<open>header_mut\<close> hands out the header for writing; here the document is rebuilt with the new header.\<close>

definition set_header_session_id ::
    "'x header20 option \<Rightarrow> ('x header20 \<Rightarrow> 'd) \<Rightarrow> 'd \<Rightarrow> bytes \<Rightarrow> bool \<times> 'd" where
  "set_header_session_id header set_header d i =
     (case header of
        Some h \<Rightarrow> (True, set_header (h\<lparr>h20_session_id := i\<rparr>))
      | None \<Rightarrow> (False, d))"

primrec doc_set_session_id :: "bytes \<Rightarrow> 'x document \<Rightarrow> bool \<times> 'x document" where
  "doc_set_session_id i (Doc_AppProtocolReq m) = (False, Doc_AppProtocolReq m)"
| "doc_set_session_id i (Doc_AppProtocolRes m) = (False, Doc_AppProtocolRes m)"
| "doc_set_session_id i (Doc_Iso2 d) =
     (case d of
        D2_V2GMessage v \<Rightarrow> (True, Doc_Iso2 (D2_V2GMessage (v\<lparr>v2g_header := (v2g_header v)\<lparr>h2_session_id := i\<rparr>\<rparr>)))
      | D2_Element _ _ \<Rightarrow> (False, Doc_Iso2 d))"
| "doc_set_session_id i (Doc_Iso20 d) =
     map_prod id Doc_Iso20 (set_header_session_id (common_header d) (\<lambda>h. common_set_header h d) d i)"
| "doc_set_session_id i (Doc_Iso20Ac d) =
     map_prod id Doc_Iso20Ac (set_header_session_id (ac_header d) (\<lambda>h. ac_set_header h d) d i)"
| "doc_set_session_id i (Doc_Iso20Dc d) =
     map_prod id Doc_Iso20Dc (set_header_session_id (dc_header d) (\<lambda>h. dc_set_header h d) d i)"
| "doc_set_session_id i (Doc_Iso20Wpt d) =
     map_prod id Doc_Iso20Wpt (set_header_session_id (wpt_header d) (\<lambda>h. wpt_set_header h d) d i)"
| "doc_set_session_id i (Doc_Iso20Acdp d) =
     map_prod id Doc_Iso20Acdp (set_header_session_id (acdp_header d) (\<lambda>h. acdp_set_header h d) d i)"
| "doc_set_session_id i (Doc_Iso20AcDerIec d) =
     map_prod id Doc_Iso20AcDerIec (set_header_session_id (ac_der_iec_header d) (\<lambda>h. ac_der_iec_set_header h d) d i)"
| "doc_set_session_id i (Doc_Iso20AcDerSae d) =
     map_prod id Doc_Iso20AcDerSae (set_header_session_id (ac_der_sae_header d) (\<lambda>h. ac_der_sae_set_header h d) d i)"

definition set_session_id :: "bytes \<Rightarrow> 'x msg \<Rightarrow> bool \<times> 'x msg" where
  "set_session_id i m = (let (done, d) = doc_set_session_id i (msg_doc m) in (done, Message (msg_set m) d))"

section \<open>Refusals\<close>

text \<open>
  The minimal contents of the generated types, of the two generations. The header of an ISO 15118-2
  refusal is the request's, without notification and signature.
\<close>

record 'x minima =
  min2 :: "string \<Rightarrow> 'x"
  min2_header_rest :: 'x
  min20 :: "'x minimum20"

definition refusal20 :: "(code20 \<Rightarrow> 'd option) \<Rightarrow> nat \<Rightarrow> 'd option" where
  "refusal20 refuse code = (case code20_from_index code of Inl _ \<Rightarrow> None | Inr c \<Rightarrow> refuse c)"

primrec doc_refusal :: "'x minima \<Rightarrow> nat \<Rightarrow> 'x document \<Rightarrow> 'x document option" where
  "doc_refusal mn code (Doc_AppProtocolReq _) = None"
| "doc_refusal mn code (Doc_AppProtocolRes _) = None"
| "doc_refusal mn code (Doc_Iso2 d) =
     (case d of
        D2_Element _ _ \<Rightarrow> None
      | D2_V2GMessage v \<Rightarrow>
        (case code2_from_index code of
           Inl _ \<Rightarrow> None
         | Inr c \<Rightarrow>
           Option.bind (v2g_body v) (\<lambda>b.
           map_option (\<lambda>r. Doc_Iso2 (D2_V2GMessage
             \<lparr>v2g_header = \<lparr>h2_session_id = h2_session_id (v2g_header v), h2_rest = min2_header_rest mn\<rparr>,
              v2g_body = Some r\<rparr>)) (body2_refusal (min2 mn) c b))))"
| "doc_refusal mn code (Doc_Iso20 d) = map_option Doc_Iso20 (refusal20 (\<lambda>c. common_refusal (min20 mn) c d) code)"
| "doc_refusal mn code (Doc_Iso20Ac d) = map_option Doc_Iso20Ac (refusal20 (\<lambda>c. ac_refusal (min20 mn) c d) code)"
| "doc_refusal mn code (Doc_Iso20Dc d) = map_option Doc_Iso20Dc (refusal20 (\<lambda>c. dc_refusal (min20 mn) c d) code)"
| "doc_refusal mn code (Doc_Iso20Wpt d) = map_option Doc_Iso20Wpt (refusal20 (\<lambda>c. wpt_refusal (min20 mn) c d) code)"
| "doc_refusal mn code (Doc_Iso20Acdp d) = map_option Doc_Iso20Acdp (refusal20 (\<lambda>c. acdp_refusal (min20 mn) c d) code)"
| "doc_refusal mn code (Doc_Iso20AcDerIec d) =
     map_option Doc_Iso20AcDerIec (refusal20 (\<lambda>c. ac_der_iec_refusal (min20 mn) c d) code)"
| "doc_refusal mn code (Doc_Iso20AcDerSae d) =
     map_option Doc_Iso20AcDerSae (refusal20 (\<lambda>c. ac_der_sae_refusal (min20 mn) c d) code)"

definition message_refusal :: "'x minima \<Rightarrow> nat \<Rightarrow> 'x msg \<Rightarrow> 'x msg option" where
  "message_refusal mn code m = map_option (Message (msg_set m)) (doc_refusal mn code (msg_doc m))"

section \<open>Requests as the sequencers see them\<close>

fun iso2_of_body :: "'x body2 \<Rightarrow> iso2_request option" where
  "iso2_of_body (B2_SessionSetupReq _) = Some R2_SessionSetup"
| "iso2_of_body (B2_ServiceDiscoveryReq _) = Some R2_ServiceDiscovery"
| "iso2_of_body (B2_ServiceDetailReq _) = Some R2_ServiceDetail"
| "iso2_of_body (B2_PaymentServiceSelectionReq option _) = Some (R2_PaymentServiceSelection option)"
| "iso2_of_body (B2_CertificateInstallationReq _) = Some R2_CertificateInstallation"
| "iso2_of_body (B2_CertificateUpdateReq _) = Some R2_CertificateUpdate"
| "iso2_of_body (B2_PaymentDetailsReq _) = Some R2_PaymentDetails"
| "iso2_of_body (B2_AuthorizationReq _) = Some R2_Authorization"
| "iso2_of_body (B2_ChargeParameterDiscoveryReq mode _) = Some (R2_ChargeParameterDiscovery mode)"
| "iso2_of_body (B2_CableCheckReq _) = Some R2_CableCheck"
| "iso2_of_body (B2_PreChargeReq _) = Some R2_PreCharge"
| "iso2_of_body (B2_PowerDeliveryReq progress _) = Some (R2_PowerDelivery progress)"
| "iso2_of_body (B2_ChargingStatusReq _) = Some R2_ChargingStatus"
| "iso2_of_body (B2_CurrentDemandReq _) = Some R2_CurrentDemand"
| "iso2_of_body (B2_MeteringReceiptReq _) = Some R2_MeteringReceipt"
| "iso2_of_body (B2_WeldingDetectionReq _) = Some R2_WeldingDetection"
| "iso2_of_body (B2_SessionStopReq session _) = Some (R2_SessionStop session)"
| "iso2_of_body _ = None"

definition iso2_request_of :: "'x msg \<Rightarrow> iso2_request option" where
  "iso2_request_of m =
     (case msg_doc m of
        Doc_Iso2 (D2_V2GMessage v) \<Rightarrow> Option.bind (v2g_body v) iso2_of_body
      | _ \<Rightarrow> None)"

definition power_delivery_ongoing :: "'x msg \<Rightarrow> bool" where
  "power_delivery_ongoing m =
     (case msg_doc m of
        Doc_Iso20 (Cm_PowerDeliveryReq _ processing _ _) \<Rightarrow> processing \<noteq> Finished
      | _ \<Rightarrow> False)"

fun iso20_of_common :: "'x common_doc \<Rightarrow> iso20_request option" where
  "iso20_of_common (Cm_SessionSetupReq _ _) = Some R20_SessionSetup"
| "iso20_of_common (Cm_AuthorizationSetupReq _ _) = Some R20_AuthorizationSetup"
| "iso20_of_common (Cm_AuthorizationReq _ _) = Some R20_Authorization"
| "iso20_of_common (Cm_CertificateInstallationReq _ _) = Some R20_CertificateInstallation"
| "iso20_of_common (Cm_ServiceDiscoveryReq _ _) = Some R20_ServiceDiscovery"
| "iso20_of_common (Cm_ServiceDetailReq _ _) = Some R20_ServiceDetail"
| "iso20_of_common (Cm_ServiceSelectionReq _ service_id _) =
     map_option R20_ServiceSelection (transfer_from_id service_id)"
| "iso20_of_common (Cm_ScheduleExchangeReq _ _) = Some R20_ScheduleExchange"
| "iso20_of_common (Cm_PowerDeliveryReq _ _ progress _) = Some (R20_PowerDelivery progress)"
| "iso20_of_common (Cm_MeteringConfirmationReq _ _) = Some R20_MeteringConfirmation"
| "iso20_of_common (Cm_SessionStopReq _ session _) = Some (R20_SessionStop session)"
| "iso20_of_common (Cm_VehicleCheckInReq _ _) = Some R20_VehicleCheckIn"
| "iso20_of_common (Cm_VehicleCheckOutReq _ _) = Some R20_VehicleCheckOut"
| "iso20_of_common _ = None"

fun iso20_of_ac :: "'x ac_doc \<Rightarrow> iso20_request option" where
  "iso20_of_ac (Ac_ACChargeParameterDiscoveryReq _ _) = Some R20_ChargeParameterDiscovery"
| "iso20_of_ac (Ac_ACChargeLoopReq _ _) = Some R20_ChargeLoop"
| "iso20_of_ac _ = None"

fun iso20_of_dc :: "'x dc_doc \<Rightarrow> iso20_request option" where
  "iso20_of_dc (Dc_DCChargeParameterDiscoveryReq _ _) = Some R20_ChargeParameterDiscovery"
| "iso20_of_dc (Dc_DCCableCheckReq _ _) = Some R20_CableCheck"
| "iso20_of_dc (Dc_DCPreChargeReq _ _) = Some R20_PreCharge"
| "iso20_of_dc (Dc_DCChargeLoopReq _ _) = Some R20_ChargeLoop"
| "iso20_of_dc (Dc_DCWeldingDetectionReq _ _) = Some R20_WeldingDetection"
| "iso20_of_dc _ = None"

fun iso20_of_wpt :: "'x wpt_doc \<Rightarrow> iso20_request option" where
  "iso20_of_wpt (Wpt_WPTChargeParameterDiscoveryReq _ _) = Some R20_ChargeParameterDiscovery"
| "iso20_of_wpt (Wpt_WPTChargeLoopReq _ _) = Some R20_ChargeLoop"
| "iso20_of_wpt (Wpt_WPTFinePositioningSetupReq _ _) = Some R20_WptPositioning"
| "iso20_of_wpt (Wpt_WPTFinePositioningReq _ _) = Some R20_WptPositioning"
| "iso20_of_wpt (Wpt_WPTPairingReq _ _) = Some R20_WptPositioning"
| "iso20_of_wpt (Wpt_WPTAlignmentCheckReq _ _) = Some R20_WptPositioning"
| "iso20_of_wpt _ = None"

fun iso20_of_acdp :: "'x acdp_doc \<Rightarrow> iso20_request option" where
  "iso20_of_acdp (Acdp_ACDPVehiclePositioningReq _ _) = Some R20_AcdpControl"
| "iso20_of_acdp (Acdp_ACDPConnectReq _ _) = Some R20_AcdpControl"
| "iso20_of_acdp (Acdp_ACDPDisconnectReq _ _) = Some R20_AcdpControl"
| "iso20_of_acdp (Acdp_ACDPSystemStatusReq _ _) = Some R20_AcdpControl"
| "iso20_of_acdp _ = None"

definition iso20_request_of :: "'x msg \<Rightarrow> iso20_request option" where
  "iso20_request_of m =
     (case msg_doc m of
        Doc_Iso20 d \<Rightarrow> iso20_of_common d
      | Doc_Iso20Ac d \<Rightarrow> iso20_of_ac d
      | Doc_Iso20Dc d \<Rightarrow> iso20_of_dc d
      | Doc_Iso20Wpt d \<Rightarrow> iso20_of_wpt d
      | Doc_Iso20Acdp d \<Rightarrow> iso20_of_acdp d
      | Doc_Iso20AcDerIec (Iec_ACChargeParameterDiscoveryReq _ _) \<Rightarrow> Some R20_ChargeParameterDiscovery
      | Doc_Iso20AcDerIec (Iec_ACChargeLoopReq _ _) \<Rightarrow> Some R20_ChargeLoop
      | Doc_Iso20AcDerSae (Sae_ACChargeParameterDiscoveryReq _ _) \<Rightarrow> Some R20_ChargeParameterDiscovery
      | Doc_Iso20AcDerSae (Sae_ACChargeLoopReq _ _) \<Rightarrow> Some R20_ChargeLoop
      | _ \<Rightarrow> None)"

section \<open>The contract of a message set\<close>

text \<open>The names of the two messages of one exchange.\<close>

definition same_stem :: "string \<Rightarrow> string \<Rightarrow> bool" where
  "same_stem request response \<longleftrightarrow>
     strip_suffix ''Req'' request \<noteq> None \<and> strip_suffix ''Req'' request = strip_suffix ''Res'' response"

lemma answers_stem: "answers m request \<longleftrightarrow> same_stem request (message_name m)"
  by (auto simp: answers_def same_stem_def split: option.splits)

text \<open>
  What the generated functions of an ISO 15118-20 message set promise: writing the header changes the header
  only, a refusal is the response of the same exchange, with the code it was given.
\<close>

locale document_set =
  fixes name :: "'d \<Rightarrow> string"
    and header :: "'d \<Rightarrow> 'x header20 option"
    and set_header :: "'x header20 \<Rightarrow> 'd \<Rightarrow> 'd"
    and response_code :: "'d \<Rightarrow> code20 option"
    and refusal :: "'x minimum20 \<Rightarrow> code20 \<Rightarrow> 'd \<Rightarrow> 'd option"
  assumes header_set: "header (set_header h d) = map_option (\<lambda>_. h) (header d)"
    and name_set: "name (set_header h d) = name d"
    and code_set: "response_code (set_header h d) = response_code d"
    and refusal_code: "refusal mn c d = Some r \<Longrightarrow> response_code r = Some c"
    and refusal_stem: "refusal mn c d = Some r \<Longrightarrow> same_stem (name d) (name r)"
    and refusal_header: "refusal mn c d = Some r \<Longrightarrow> header r = Some (min_header mn)"
    and response_suffix: "response_code d = Some c \<Longrightarrow> ends_with ''Res'' (name d) \<and> header d \<noteq> None"
begin

lemma set_id:
  assumes "set_header_session_id (header d) (\<lambda>h. set_header h d) d i = (b, d')" and "length i = SESSION_ID_LEN"
  shows "name d' = name d \<and> response_code d' = response_code d \<and> b = (header d \<noteq> None)
    \<and> header_session_id (header d') = (if b then Some i else None)"
  using assms by (auto simp: set_header_session_id_def header_session_id_def header_set name_set code_set ok_id_def
      session_id_from_slice_def split: option.splits)

lemma refusal20_answers:
  assumes "refusal20 (\<lambda>c. refusal mn c d) code = Some r"
  shows "(\<exists>c. code20_from_index code = Inr c \<and> response_code r = Some c)
    \<and> same_stem (name d) (name r)"
  using assms refusal_code refusal_stem by (auto simp: refusal20_def split: sum.splits)

end

interpretation common_set: document_set common_name common_header common_set_header common_response_code common_refusal
proof unfold_locales
  fix h and d r :: "'x common_doc" and mn c
  show "common_header (common_set_header h d) = map_option (\<lambda>_. h) (common_header d)"
    "common_name (common_set_header h d) = common_name d"
    "common_response_code (common_set_header h d) = common_response_code d" by (cases d; simp)+
  show "common_refusal mn c d = Some r \<Longrightarrow> common_response_code r = Some c"
    "common_refusal mn c d = Some r \<Longrightarrow> common_header r = Some (min_header mn)"
    "common_refusal mn c d = Some r \<Longrightarrow> same_stem (common_name d) (common_name r)"
    by (cases d; auto simp: same_stem_def strip_suffix_def)+
  show "common_response_code d = Some c \<Longrightarrow> ends_with ''Res'' (common_name d) \<and> common_header d \<noteq> None"
    by (cases d; simp add: ends_with_def strip_suffix_def)
qed

interpretation ac_set: document_set ac_name ac_header ac_set_header ac_response_code ac_refusal
proof unfold_locales
  fix h and d r :: "'x ac_doc" and mn c
  show "ac_header (ac_set_header h d) = map_option (\<lambda>_. h) (ac_header d)"
    "ac_name (ac_set_header h d) = ac_name d"
    "ac_response_code (ac_set_header h d) = ac_response_code d" by (cases d; simp)+
  show "ac_refusal mn c d = Some r \<Longrightarrow> ac_response_code r = Some c"
    "ac_refusal mn c d = Some r \<Longrightarrow> ac_header r = Some (min_header mn)"
    "ac_refusal mn c d = Some r \<Longrightarrow> same_stem (ac_name d) (ac_name r)"
    by (cases d; auto simp: same_stem_def strip_suffix_def)+
  show "ac_response_code d = Some c \<Longrightarrow> ends_with ''Res'' (ac_name d) \<and> ac_header d \<noteq> None"
    by (cases d; simp add: ends_with_def strip_suffix_def)
qed

interpretation dc_set: document_set dc_name dc_header dc_set_header dc_response_code dc_refusal
proof unfold_locales
  fix h and d r :: "'x dc_doc" and mn c
  show "dc_header (dc_set_header h d) = map_option (\<lambda>_. h) (dc_header d)"
    "dc_name (dc_set_header h d) = dc_name d"
    "dc_response_code (dc_set_header h d) = dc_response_code d" by (cases d; simp)+
  show "dc_refusal mn c d = Some r \<Longrightarrow> dc_response_code r = Some c"
    "dc_refusal mn c d = Some r \<Longrightarrow> dc_header r = Some (min_header mn)"
    "dc_refusal mn c d = Some r \<Longrightarrow> same_stem (dc_name d) (dc_name r)"
    by (cases d; auto simp: same_stem_def strip_suffix_def)+
  show "dc_response_code d = Some c \<Longrightarrow> ends_with ''Res'' (dc_name d) \<and> dc_header d \<noteq> None"
    by (cases d; simp add: ends_with_def strip_suffix_def)
qed

interpretation wpt_set: document_set wpt_name wpt_header wpt_set_header wpt_response_code wpt_refusal
proof unfold_locales
  fix h and d r :: "'x wpt_doc" and mn c
  show "wpt_header (wpt_set_header h d) = map_option (\<lambda>_. h) (wpt_header d)"
    "wpt_name (wpt_set_header h d) = wpt_name d"
    "wpt_response_code (wpt_set_header h d) = wpt_response_code d" by (cases d; simp)+
  show "wpt_refusal mn c d = Some r \<Longrightarrow> wpt_response_code r = Some c"
    "wpt_refusal mn c d = Some r \<Longrightarrow> wpt_header r = Some (min_header mn)"
    "wpt_refusal mn c d = Some r \<Longrightarrow> same_stem (wpt_name d) (wpt_name r)"
    by (cases d; auto simp: same_stem_def strip_suffix_def)+
  show "wpt_response_code d = Some c \<Longrightarrow> ends_with ''Res'' (wpt_name d) \<and> wpt_header d \<noteq> None"
    by (cases d; simp add: ends_with_def strip_suffix_def)
qed

interpretation acdp_set: document_set acdp_name acdp_header acdp_set_header acdp_response_code acdp_refusal
proof unfold_locales
  fix h and d r :: "'x acdp_doc" and mn c
  show "acdp_header (acdp_set_header h d) = map_option (\<lambda>_. h) (acdp_header d)"
    "acdp_name (acdp_set_header h d) = acdp_name d"
    "acdp_response_code (acdp_set_header h d) = acdp_response_code d" by (cases d; simp)+
  show "acdp_refusal mn c d = Some r \<Longrightarrow> acdp_response_code r = Some c"
    "acdp_refusal mn c d = Some r \<Longrightarrow> acdp_header r = Some (min_header mn)"
    "acdp_refusal mn c d = Some r \<Longrightarrow> same_stem (acdp_name d) (acdp_name r)"
    by (cases d; auto simp: same_stem_def strip_suffix_def)+
  show "acdp_response_code d = Some c \<Longrightarrow> ends_with ''Res'' (acdp_name d) \<and> acdp_header d \<noteq> None"
    by (cases d; simp add: ends_with_def strip_suffix_def)
qed

interpretation der_iec_set: document_set ac_der_iec_name ac_der_iec_header ac_der_iec_set_header ac_der_iec_response_code ac_der_iec_refusal
proof unfold_locales
  fix h and d r :: "'x ac_der_iec_doc" and mn c
  show "ac_der_iec_header (ac_der_iec_set_header h d) = map_option (\<lambda>_. h) (ac_der_iec_header d)"
    "ac_der_iec_name (ac_der_iec_set_header h d) = ac_der_iec_name d"
    "ac_der_iec_response_code (ac_der_iec_set_header h d) = ac_der_iec_response_code d" by (cases d; simp)+
  show "ac_der_iec_refusal mn c d = Some r \<Longrightarrow> ac_der_iec_response_code r = Some c"
    "ac_der_iec_refusal mn c d = Some r \<Longrightarrow> ac_der_iec_header r = Some (min_header mn)"
    "ac_der_iec_refusal mn c d = Some r \<Longrightarrow> same_stem (ac_der_iec_name d) (ac_der_iec_name r)"
    by (cases d; auto simp: same_stem_def strip_suffix_def)+
  show "ac_der_iec_response_code d = Some c \<Longrightarrow> ends_with ''Res'' (ac_der_iec_name d) \<and> ac_der_iec_header d \<noteq> None"
    by (cases d; simp add: ends_with_def strip_suffix_def)
qed

interpretation der_sae_set: document_set ac_der_sae_name ac_der_sae_header ac_der_sae_set_header ac_der_sae_response_code ac_der_sae_refusal
proof unfold_locales
  fix h and d r :: "'x ac_der_sae_doc" and mn c
  show "ac_der_sae_header (ac_der_sae_set_header h d) = map_option (\<lambda>_. h) (ac_der_sae_header d)"
    "ac_der_sae_name (ac_der_sae_set_header h d) = ac_der_sae_name d"
    "ac_der_sae_response_code (ac_der_sae_set_header h d) = ac_der_sae_response_code d" by (cases d; simp)+
  show "ac_der_sae_refusal mn c d = Some r \<Longrightarrow> ac_der_sae_response_code r = Some c"
    "ac_der_sae_refusal mn c d = Some r \<Longrightarrow> ac_der_sae_header r = Some (min_header mn)"
    "ac_der_sae_refusal mn c d = Some r \<Longrightarrow> same_stem (ac_der_sae_name d) (ac_der_sae_name r)"
    by (cases d; auto simp: same_stem_def strip_suffix_def)+
  show "ac_der_sae_response_code d = Some c \<Longrightarrow> ends_with ''Res'' (ac_der_sae_name d) \<and> ac_der_sae_header d \<noteq> None"
    by (cases d; simp add: ends_with_def strip_suffix_def)
qed

lemmas set_ids = common_set.set_id ac_set.set_id dc_set.set_id wpt_set.set_id acdp_set.set_id der_iec_set.set_id der_sae_set.set_id

lemmas refusal_answers20 = common_set.refusal20_answers ac_set.refusal20_answers dc_set.refusal20_answers
  wpt_set.refusal20_answers acdp_set.refusal20_answers der_iec_set.refusal20_answers der_sae_set.refusal20_answers

section \<open>Laws of the projections\<close>

text \<open>Stamping a session identifier touches nothing else that a session reads.\<close>

definition same_but_id :: "'x document \<Rightarrow> 'x document \<Rightarrow> bool" where
  "same_but_id d d' \<longleftrightarrow> doc_set d' = doc_set d \<and> doc_name d' = doc_name d \<and> doc_outcome d' = doc_outcome d"

lemma doc_set_session_id_effect:
  assumes "doc_set_session_id i d = (b, d')" and "length i = SESSION_ID_LEN"
  shows "same_but_id d d' \<and> doc_session_id d' = (if b then Some i else None)"
proof (cases d)
  case (Doc_Iso2 x)
  then show ?thesis using assms
    by (cases x) (auto simp: same_but_id_def ok_id_def session_id_from_slice_def split: option.splits)
next
  case (Doc_Iso20 x)
  obtain b' x' where "set_header_session_id (common_header x) (\<lambda>h. common_set_header h x) x i = (b', x')" by fastforce
  with Doc_Iso20 assms set_ids(1) [OF this] show ?thesis by (auto simp: same_but_id_def)
next
  case (Doc_Iso20Ac x)
  obtain b' x' where "set_header_session_id (ac_header x) (\<lambda>h. ac_set_header h x) x i = (b', x')" by fastforce
  with Doc_Iso20Ac assms set_ids(2) [OF this] show ?thesis by (auto simp: same_but_id_def)
next
  case (Doc_Iso20Dc x)
  obtain b' x' where "set_header_session_id (dc_header x) (\<lambda>h. dc_set_header h x) x i = (b', x')" by fastforce
  with Doc_Iso20Dc assms set_ids(3) [OF this] show ?thesis by (auto simp: same_but_id_def)
next
  case (Doc_Iso20Wpt x)
  obtain b' x' where "set_header_session_id (wpt_header x) (\<lambda>h. wpt_set_header h x) x i = (b', x')" by fastforce
  with Doc_Iso20Wpt assms set_ids(4) [OF this] show ?thesis by (auto simp: same_but_id_def)
next
  case (Doc_Iso20Acdp x)
  obtain b' x' where "set_header_session_id (acdp_header x) (\<lambda>h. acdp_set_header h x) x i = (b', x')" by fastforce
  with Doc_Iso20Acdp assms set_ids(5) [OF this] show ?thesis by (auto simp: same_but_id_def)
next
  case (Doc_Iso20AcDerIec x)
  obtain b' x' where "set_header_session_id (ac_der_iec_header x) (\<lambda>h. ac_der_iec_set_header h x) x i = (b', x')" by fastforce
  with Doc_Iso20AcDerIec assms set_ids(6) [OF this] show ?thesis by (auto simp: same_but_id_def)
next
  case (Doc_Iso20AcDerSae x)
  obtain b' x' where "set_header_session_id (ac_der_sae_header x) (\<lambda>h. ac_der_sae_set_header h x) x i = (b', x')" by fastforce
  with Doc_Iso20AcDerSae assms set_ids(7) [OF this] show ?thesis by (auto simp: same_but_id_def)
qed (use assms in \<open>auto simp: same_but_id_def\<close>)

lemma set_session_id_effect:
  assumes "set_session_id i m = (b, m')" and "length i = SESSION_ID_LEN"
  shows "message_name m' = message_name m" and "message_outcome m' = message_outcome m" and "msg_set m' = msg_set m"
    and "typed m' = typed m" and "message_session_id m' = (if b then Some i else None)"
proof -
  obtain d' where d': "doc_set_session_id i (msg_doc m) = (b, d')" "m' = Message (msg_set m) d'"
    using assms(1) by (auto simp: set_session_id_def split: prod.splits)
  from doc_set_session_id_effect [OF d'(1) assms(2)]
  show "message_name m' = message_name m" "message_outcome m' = message_outcome m" "msg_set m' = msg_set m"
    "typed m' = typed m" "message_session_id m' = (if b then Some i else None)"
    by (simp_all add: d'(2) same_but_id_def message_name_def message_outcome_def message_session_id_def typed_def)
qed

text \<open>The outcome a code means, from its index.\<close>

definition index_outcome :: "message_set \<Rightarrow> nat \<Rightarrow> outcome option" where
  "index_outcome ms code =
     (if ms = M_Iso2 then (case code2_from_index code of Inr c \<Rightarrow> Some (classify2 c) | Inl _ \<Rightarrow> None)
      else (case code20_from_index code of Inr c \<Rightarrow> Some (classify20 c) | Inl _ \<Rightarrow> None))"

lemma body2_refusal_stem:
  "body2_refusal mn c b = Some r \<Longrightarrow> same_stem (body2_name b) (body2_name r) \<and> body2_response_code r = Some c"
  by (cases b) (auto simp: same_stem_def strip_suffix_def)

lemma doc_refusal_answers:
  assumes "doc_refusal mn code d = Some r"
  shows "same_stem (doc_name d) (doc_name r) \<and> doc_set r = doc_set d \<and> doc_outcome r = index_outcome (doc_set d) code
    \<and> doc_outcome r \<noteq> None"
proof (cases d)
  case (Doc_Iso2 x)
  with assms obtain v c b b' where "x = D2_V2GMessage v" "code2_from_index code = Inr c" "v2g_body v = Some b"
      "body2_refusal (min2 mn) c b = Some b'" "r = Doc_Iso2 (D2_V2GMessage
         \<lparr>v2g_header = \<lparr>h2_session_id = h2_session_id (v2g_header v), h2_rest = min2_header_rest mn\<rparr>, v2g_body = Some b'\<rparr>)"
    by (auto split: iso2_doc.splits sum.splits simp: bind_eq_Some_conv)
  then show ?thesis using body2_refusal_stem Doc_Iso2 by (fastforce simp: index_outcome_def)
qed (use assms in \<open>auto simp: index_outcome_def dest!: refusal_answers20\<close>)

text \<open>Only requests reach a sequencer, and the ISO 15118-2 sequencer calls them by their names.\<close>

lemma iso2_of_body_name: "iso2_of_body b = Some r \<Longrightarrow> iso2_request_name r = body2_name b \<and> ends_with ''Req'' (body2_name b)"
  by (cases b) (auto simp: ends_with_def strip_suffix_def)

lemma iso2_request_of_name: "iso2_request_of m = Some r \<Longrightarrow> message_name m = iso2_request_name r \<and> is_request m"
  by (auto simp: iso2_request_of_def message_name_def is_request_def bind_eq_Some_conv dest: iso2_of_body_name
      split: document.splits iso2_doc.splits)

lemma iso20_of_parts_request:
  "iso20_of_common d1 = Some r \<Longrightarrow> ends_with ''Req'' (common_name d1)"
  "iso20_of_ac d2 = Some r \<Longrightarrow> ends_with ''Req'' (ac_name d2)"
  "iso20_of_dc d3 = Some r \<Longrightarrow> ends_with ''Req'' (dc_name d3)"
  "iso20_of_wpt d4 = Some r \<Longrightarrow> ends_with ''Req'' (wpt_name d4)"
  "iso20_of_acdp d5 = Some r \<Longrightarrow> ends_with ''Req'' (acdp_name d5)"
proof -
  show "iso20_of_common d1 = Some r \<Longrightarrow> ends_with ''Req'' (common_name d1)"
    by (cases d1; simp add: ends_with_def strip_suffix_def)
  show "iso20_of_ac d2 = Some r \<Longrightarrow> ends_with ''Req'' (ac_name d2)"
    by (cases d2; simp add: ends_with_def strip_suffix_def)
  show "iso20_of_dc d3 = Some r \<Longrightarrow> ends_with ''Req'' (dc_name d3)"
    by (cases d3; simp add: ends_with_def strip_suffix_def)
  show "iso20_of_wpt d4 = Some r \<Longrightarrow> ends_with ''Req'' (wpt_name d4)"
    by (cases d4; simp add: ends_with_def strip_suffix_def)
  show "iso20_of_acdp d5 = Some r \<Longrightarrow> ends_with ''Req'' (acdp_name d5)"
    by (cases d5; simp add: ends_with_def strip_suffix_def)
qed

lemma iso20_request_of_request: "iso20_request_of m = Some r \<Longrightarrow> is_request m"
  by (cases "msg_doc m")
    (auto simp: iso20_request_of_def message_name_def is_request_def dest: iso20_of_parts_request
      split: ac_der_iec_doc.splits ac_der_sae_doc.splits, auto simp: ends_with_def strip_suffix_def)

section \<open>Properties\<close>

text \<open>
  A refusal answers the request it refuses: it exists only for a request, is the response of the same
  exchange and the same message set, and means to the session exactly what the code given means, so a
  \<open>FAILED\<close> code ends the session.
\<close>

lemma refusal_answers:
  assumes "message_refusal mn code m = Some r" and "typed m"
  shows "is_request m \<and> answers r (message_name m) \<and> typed r \<and> msg_set r = msg_set m
    \<and> message_outcome r = index_outcome (msg_set m) code \<and> message_outcome r \<noteq> None"
proof -
  obtain d where d: "doc_refusal mn code (msg_doc m) = Some d" "r = Message (msg_set m) d"
    using assms(1) by (auto simp: message_refusal_def)
  note a = doc_refusal_answers [OF d(1)]
  then have "strip_suffix ''Req'' (doc_name (msg_doc m)) \<noteq> None" unfolding same_stem_def by blast
  then have "is_request m" by (simp add: is_request_def ends_with_def message_name_def)
  moreover obtain y where "doc_outcome d = Some y" using a by blast
  ultimately show ?thesis using a assms(2) by (simp add: d(2) typed_def answers_stem message_name_def message_outcome_def)
qed

definition sample_minima :: "nat minima" where
  "sample_minima = \<lparr>min2 = (\<lambda>_. 0), min2_header_rest = 0, min20 = \<lparr>min_header = \<lparr>h20_session_id = [], h20_rest = 0\<rparr>,
     min_content = (\<lambda>_. 0)\<rparr>\<rparr>"

definition sample_header :: "nat header20" where
  "sample_header = \<lparr>h20_session_id = [1, 2, 3, 4, 5, 6, 7, 8], h20_rest = 5\<rparr>"

lemma refusal_answers_witness:
  "\<exists>r. message_refusal sample_minima 34 (of_doc (Doc_Iso20Dc (Dc_DCPreChargeReq sample_header 0))) = Some r
     \<and> answers r ''DC_PreChargeReq'' \<and> message_outcome r = Some Outcome_Failed"
proof -
  let ?m = "of_doc (Doc_Iso20Dc (Dc_DCPreChargeReq sample_header 0))"
  have c: "code20_from_index 34 = Inr C20_FAILEDSequenceError" by code_simp
  then obtain r where r: "message_refusal sample_minima 34 ?m = Some r"
    by (auto simp: message_refusal_def refusal20_def)
  have "index_outcome M_Iso20Dc 34 = Some Outcome_Failed"
    by (simp add: index_outcome_def c classify20_def classify_def)
  with r refusal_answers [OF r] show ?thesis by (auto simp: message_name_def)
qed

text \<open>
  Stamping a session identifier of eight bytes into a message makes it the identifier the peer reads, and
  leaves its set, its name and its outcome as they were; a message without a header is left alone.
\<close>

lemma session_id_stamped:
  assumes "set_session_id i m = (done, m')" and "length i = SESSION_ID_LEN"
  shows "message_session_id m' = (if done then Some i else None) \<and> msg_set m' = msg_set m
    \<and> message_name m' = message_name m \<and> message_outcome m' = message_outcome m \<and> typed m' = typed m"
  using set_session_id_effect [OF assms] by simp

lemma session_id_stamped_witness:
  "message_session_id (snd (set_session_id [8, 7, 6, 5, 4, 3, 2, 1] (of_doc (Doc_Iso20 (Cm_SessionSetupReq sample_header 0)))))
     = Some [8, 7, 6, 5, 4, 3, 2, 1]"
proof -
  let ?m = "of_doc (Doc_Iso20 (Cm_SessionSetupReq sample_header 0))"
  obtain m' where "set_session_id [8, 7, 6, 5, 4, 3, 2, 1] ?m = (True, m')"
    by (auto simp: set_session_id_def set_header_session_id_def)
  with session_id_stamped [OF this] show ?thesis by (simp add: SESSION_ID_LEN_def)
qed

end
