(* ===== verification/Energy_Status.thy ===== *)
theory Energy_Status
  imports Schedule Documents
begin

text \<open>
  What a message says about the vehicle's battery, \<open>ev_energy_status\<close> of \<open>src/src/message.rs\<close>. The documents leave the content
  of a message open; the fields of the generated structs that are read here are the selectors of the record \<open>energy_fields\<close>.
\<close>

section \<open>The generated types\<close>

record rational_number =
  rn_exponent :: "8 word"
  rn_value :: "16 word"

text \<open>Of \<open>DCEVStatus\<close> only the state of charge is read.\<close>

record dc_ev_status =
  ev_ress_soc :: u8

record dc_power_delivery_parameter =
  dpd_dc_ev_status :: dc_ev_status
  dpd_charging_complete :: bool

datatype power_delivery_choice =
    DCEVPowerDeliveryParameter dc_power_delivery_parameter
  | EVPowerDeliveryParameter

record ac_charge_parameter =
  acp_departure_time :: "u32 option"
  acp_e_amount :: physical_value

record dc_charge_parameter =
  dcp_departure_time :: "u32 option"
  dcp_dc_ev_status :: dc_ev_status
  dcp_ev_energy_capacity :: "physical_value option"
  dcp_ev_energy_request :: "physical_value option"
  dcp_full_soc :: "u8 option"
  dcp_bulk_soc :: "u8 option"

datatype charge_parameter_choice =
    ACEVChargeParameter ac_charge_parameter
  | DCEVChargeParameter dc_charge_parameter
  | EVChargeParameter

record dynamic_se_mode =
  dse_departure_time :: u32
  dse_minimum_soc :: "u8 option"
  dse_target_soc :: "u8 option"
  dse_target_energy_request :: rational_number
  dse_maximum_energy_request :: rational_number
  dse_minimum_energy_request :: rational_number

record scheduled_se_mode =
  sse_departure_time :: "u32 option"
  sse_target_energy_request :: "rational_number option"
  sse_maximum_energy_request :: "rational_number option"
  sse_minimum_energy_request :: "rational_number option"

datatype se_choice =
    DynamicSEReqControlMode dynamic_se_mode
  | ScheduledSEReqControlMode scheduled_se_mode

record display_parameters =
  dp_present_soc :: "u8 option"
  dp_minimum_soc :: "u8 option"
  dp_target_soc :: "u8 option"
  dp_maximum_soc :: "u8 option"
  dp_charging_complete :: "bool option"
  dp_battery_energy_capacity :: "rational_number option"

text \<open>The dynamic control modes of a charge loop state the same four fields; the other modes state none of them.\<close>

record dynamic_cl_mode =
  dcl_departure_time :: "u32 option"
  dcl_target_energy_request :: rational_number
  dcl_maximum_energy_request :: rational_number
  dcl_minimum_energy_request :: rational_number

datatype cl_choice =
    DynamicCLReqControlMode dynamic_cl_mode
  | BPTDynamicCLReqControlMode dynamic_cl_mode
  | OtherCLReqControlMode

record 'x energy_fields =
  ef_dc_ev_status :: "'x \<Rightarrow> dc_ev_status"
  ef_charging_complete :: "'x \<Rightarrow> bool"
  ef_power_delivery_choice :: "'x \<Rightarrow> power_delivery_choice option"
  ef_charge_parameter_choice :: "'x \<Rightarrow> charge_parameter_choice"
  ef_se_choice :: "'x \<Rightarrow> se_choice"
  ef_display_parameters :: "'x \<Rightarrow> display_parameters option"
  ef_cl_choice :: "'x \<Rightarrow> cl_choice"

section \<open>Figures\<close>

text \<open>A figure is in milliwatt-hours, an \<open>i64\<close>. \<open>checked_add\<close> is of \<open>i32\<close>, \<open>checked_pow\<close> and \<open>checked_mul\<close> are of \<open>i64\<close>.\<close>

definition scale_mwh :: "int \<Rightarrow> int \<Rightarrow> int option" where
  "scale_mwh v ex =
     (let ex = ex + 3 in
      if \<not> (- (2 ^ 31) \<le> ex \<and> ex < 2 ^ 31) then None
      else if ex < 0 then None
      else
        let scale = 10 ^ nat ex in
        if \<not> i64_range scale then None
        else if i64_range (v * scale) then Some (v * scale) else None)"

definition energy_mwh :: "physical_value \<Rightarrow> int option" where
  "energy_mwh v = (if pv_unit v \<noteq> Unit_Wh then None else scale_mwh (sint (pv_value v)) (sint (pv_multiplier v)))"

definition rational_mwh :: "rational_number \<Rightarrow> int option" where
  "rational_mwh v = scale_mwh (sint (rn_value v)) (sint (rn_exponent v))"

section \<open>The status\<close>

record ev_energy_status =
  es_present_soc :: "u8 option"
  es_target_soc :: "u8 option"
  es_minimum_soc :: "u8 option"
  es_full_soc :: "u8 option"
  es_bulk_soc :: "u8 option"
  es_energy_capacity :: "int option"
  es_target_energy_request :: "int option"
  es_minimum_energy_request :: "int option"
  es_maximum_energy_request :: "int option"
  es_departure_in :: "u32 option"
  es_charging_complete :: "bool option"

definition status_default :: ev_energy_status where
  "status_default =
     \<lparr>es_present_soc = None, es_target_soc = None, es_minimum_soc = None, es_full_soc = None, es_bulk_soc = None,
      es_energy_capacity = None, es_target_energy_request = None, es_minimum_energy_request = None,
      es_maximum_energy_request = None, es_departure_in = None, es_charging_complete = None\<rparr>"

definition status_is_empty :: "ev_energy_status \<Rightarrow> bool" where
  "status_is_empty s \<longleftrightarrow> s = status_default"

definition take_request :: "dynamic_cl_mode \<Rightarrow> ev_energy_status \<Rightarrow> ev_energy_status" where
  "take_request c s =
     s\<lparr>es_departure_in := dcl_departure_time c,
       es_target_energy_request := rational_mwh (dcl_target_energy_request c),
       es_minimum_energy_request := rational_mwh (dcl_minimum_energy_request c),
       es_maximum_energy_request := rational_mwh (dcl_maximum_energy_request c)\<rparr>"

definition display_energy_status :: "display_parameters option \<Rightarrow> ev_energy_status" where
  "display_energy_status p =
     (case p of
        None \<Rightarrow> status_default
      | Some p \<Rightarrow>
          \<lparr>es_present_soc = dp_present_soc p, es_target_soc = dp_target_soc p, es_minimum_soc = dp_minimum_soc p,
           es_full_soc = dp_maximum_soc p, es_bulk_soc = None,
           es_energy_capacity = Option.bind (dp_battery_energy_capacity p) rational_mwh, es_target_energy_request = None,
           es_minimum_energy_request = None, es_maximum_energy_request = None, es_departure_in = None,
           es_charging_complete = dp_charging_complete p\<rparr>)"

text \<open>The match of \<open>iso2_energy_status\<close>: the status so far and the \<open>DC_EVStatus\<close> it found.\<close>

fun iso2_body_status :: "'x energy_fields \<Rightarrow> 'x body2 \<Rightarrow> (ev_energy_status \<times> dc_ev_status option) option" where
  "iso2_body_status fs (B2_CableCheckReq x) = Some (status_default, Some (ef_dc_ev_status fs x))"
| "iso2_body_status fs (B2_PreChargeReq x) = Some (status_default, Some (ef_dc_ev_status fs x))"
| "iso2_body_status fs (B2_WeldingDetectionReq x) = Some (status_default, Some (ef_dc_ev_status fs x))"
| "iso2_body_status fs (B2_CurrentDemandReq x) =
     Some (status_default\<lparr>es_charging_complete := Some (ef_charging_complete fs x)\<rparr>, Some (ef_dc_ev_status fs x))"
| "iso2_body_status fs (B2_PowerDeliveryReq _ x) =
     Some (case ef_power_delivery_choice fs x of
             Some (DCEVPowerDeliveryParameter p) \<Rightarrow>
               (status_default\<lparr>es_charging_complete := Some (dpd_charging_complete p)\<rparr>, Some (dpd_dc_ev_status p))
           | _ \<Rightarrow> (status_default, None))"
| "iso2_body_status fs (B2_ChargeParameterDiscoveryReq _ x) =
     Some (case ef_charge_parameter_choice fs x of
             DCEVChargeParameter p \<Rightarrow>
               (status_default\<lparr>es_departure_in := dcp_departure_time p, es_full_soc := dcp_full_soc p, es_bulk_soc := dcp_bulk_soc p,
                  es_energy_capacity := Option.bind (dcp_ev_energy_capacity p) energy_mwh,
                  es_target_energy_request := Option.bind (dcp_ev_energy_request p) energy_mwh\<rparr>, Some (dcp_dc_ev_status p))
           | ACEVChargeParameter p \<Rightarrow>
               (status_default\<lparr>es_departure_in := acp_departure_time p, es_target_energy_request := energy_mwh (acp_e_amount p)\<rparr>, None)
           | EVChargeParameter \<Rightarrow> (status_default, None))"
| "iso2_body_status fs _ = None"

definition iso2_energy_status :: "'x energy_fields \<Rightarrow> 'x iso2_doc \<Rightarrow> ev_energy_status option" where
  "iso2_energy_status fs d =
     (case d of
        D2_V2GMessage v \<Rightarrow>
          Option.bind (v2g_body v) (\<lambda>b.
          Option.bind (iso2_body_status fs b) (\<lambda>(out, dc_status).
          Some (case dc_status of Some dc \<Rightarrow> out\<lparr>es_present_soc := Some (ev_ress_soc dc)\<rparr> | None \<Rightarrow> out)))
      | D2_Element _ _ \<Rightarrow> None)"

definition iso20_common_energy_status :: "'x energy_fields \<Rightarrow> 'x common_doc \<Rightarrow> ev_energy_status option" where
  "iso20_common_energy_status fs d =
     (case d of
        Cm_ScheduleExchangeReq _ x \<Rightarrow>
          Some (case ef_se_choice fs x of
                  DynamicSEReqControlMode m \<Rightarrow>
                    status_default\<lparr>es_departure_in := Some (dse_departure_time m), es_minimum_soc := dse_minimum_soc m,
                      es_target_soc := dse_target_soc m, es_target_energy_request := rational_mwh (dse_target_energy_request m),
                      es_minimum_energy_request := rational_mwh (dse_minimum_energy_request m),
                      es_maximum_energy_request := rational_mwh (dse_maximum_energy_request m)\<rparr>
                | ScheduledSEReqControlMode m \<Rightarrow>
                    status_default\<lparr>es_departure_in := sse_departure_time m,
                      es_target_energy_request := Option.bind (sse_target_energy_request m) rational_mwh,
                      es_minimum_energy_request := Option.bind (sse_minimum_energy_request m) rational_mwh,
                      es_maximum_energy_request := Option.bind (sse_maximum_energy_request m) rational_mwh\<rparr>)
      | _ \<Rightarrow> None)"

text \<open>A charge loop, for AC (the macro \<open>ac_charge_loop_status\<close>) and DC.\<close>

definition charge_loop_status :: "'x energy_fields \<Rightarrow> 'x \<Rightarrow> ev_energy_status" where
  "charge_loop_status fs x =
     (let out = display_energy_status (ef_display_parameters fs x) in
      case ef_cl_choice fs x of
        DynamicCLReqControlMode c \<Rightarrow> take_request c out
      | BPTDynamicCLReqControlMode c \<Rightarrow> take_request c out
      | OtherCLReqControlMode \<Rightarrow> out)"

definition energy_status_of :: "'x energy_fields \<Rightarrow> 'x msg \<Rightarrow> ev_energy_status option" where
  "energy_status_of fs m =
     Option.bind
       (case msg_doc m of
          Doc_Iso2 d \<Rightarrow> iso2_energy_status fs d
        | Doc_Iso20 d \<Rightarrow> iso20_common_energy_status fs d
        | Doc_Iso20Ac d \<Rightarrow> (case d of Ac_ACChargeLoopReq _ x \<Rightarrow> Some (charge_loop_status fs x) | _ \<Rightarrow> None)
        | Doc_Iso20AcDerIec d \<Rightarrow> (case d of Iec_ACChargeLoopReq _ x \<Rightarrow> Some (charge_loop_status fs x) | _ \<Rightarrow> None)
        | Doc_Iso20AcDerSae d \<Rightarrow> (case d of Sae_ACChargeLoopReq _ x \<Rightarrow> Some (charge_loop_status fs x) | _ \<Rightarrow> None)
        | Doc_Iso20Dc d \<Rightarrow> (case d of Dc_DCChargeLoopReq _ x \<Rightarrow> Some (charge_loop_status fs x) | _ \<Rightarrow> None)
        | Doc_Iso20Wpt d \<Rightarrow>
            (case d of Wpt_WPTChargeLoopReq _ x \<Rightarrow> Some (display_energy_status (ef_display_parameters fs x)) | _ \<Rightarrow> None)
        | _ \<Rightarrow> None)
       (\<lambda>status. if status_is_empty status then None else Some status)"

section \<open>Exactness\<close>

lemma i64_pow10: "i64_range (10 ^ n) \<longleftrightarrow> n \<le> 18"
proof
  assume "i64_range (10 ^ n)"
  then have "(10 :: int) ^ n < 10 ^ 19" by (simp add: i64_range_def)
  then have "n < 19" by (rule power_less_imp_less_exp [rotated]) simp
  then show "n \<le> 18" by simp
next
  assume "n \<le> 18"
  then have "(10 :: int) ^ n \<le> 10 ^ 18" by (intro power_increasing) simp_all
  moreover have "- (2 ^ 63) \<le> (10 :: int) ^ n" by (rule order.trans [of _ 0]) simp_all
  ultimately show "i64_range (10 ^ n)" by (simp add: i64_range_def)
qed

lemma scale_mwh_Some:
  "scale_mwh v e = Some m \<longleftrightarrow> - 3 \<le> e \<and> e \<le> 15 \<and> m = v * 10 ^ nat (e + 3) \<and> i64_range m"
  by (auto simp: scale_mwh_def Let_def i64_pow10 split: if_splits)

lemma scale_mwh_small:
  assumes "- 3 \<le> e" and "e \<le> 3" and "- (2 ^ 15) \<le> v" and "v < 2 ^ 15"
  shows "scale_mwh v e = Some (v * 10 ^ nat (e + 3))"
proof -
  have "(10 :: int) ^ nat (e + 3) \<le> 10 ^ 6" using assms by (intro power_increasing) auto
  then have "\<bar>v\<bar> * 10 ^ nat (e + 3) \<le> 2 ^ 15 * 10 ^ 6" using assms by (intro mult_mono) auto
  then have "\<bar>v * 10 ^ nat (e + 3)\<bar> \<le> 2 ^ 15 * 10 ^ 6" by (simp add: abs_mult)
  then have "i64_range (v * 10 ^ nat (e + 3))" unfolding i64_range_def by (simp add: abs_le_iff)
  with assms show ?thesis by (simp add: scale_mwh_Some)
qed

lemma iso2_body_status_request: "iso2_body_status fs b = Some s \<Longrightarrow> ends_with ''Req'' (body2_name b)"
  by (cases "(fs, b)" rule: iso2_body_status.cases) (auto simp: ends_with_def strip_suffix_def)

lemma energy_status_request: "energy_status_of fs m = Some s \<Longrightarrow> is_request m \<and> s \<noteq> status_default"
  by (auto simp: energy_status_of_def bind_eq_Some_conv status_is_empty_def is_request_def message_name_def iso2_energy_status_def
      iso20_common_energy_status_def ends_with_def strip_suffix_def split: if_splits document.splits iso2_doc.splits common_doc.splits
      ac_doc.splits dc_doc.splits wpt_doc.splits ac_der_iec_doc.splits ac_der_sae_doc.splits
      dest!: iso2_body_status_request)

section \<open>Figure by figure\<close>

text \<open>
  The same status read the other way round: for each figure the fields that state it, in all the messages. First the
  parts of a message that state figures.
\<close>

definition body2_of :: "'x msg \<Rightarrow> 'x body2 option" where
  "body2_of m = (case msg_doc m of Doc_Iso2 (D2_V2GMessage v) \<Rightarrow> v2g_body v | _ \<Rightarrow> None)"

definition charge_loop_of :: "'x msg \<Rightarrow> 'x option" where
  "charge_loop_of m =
     (case msg_doc m of
        Doc_Iso20Ac (Ac_ACChargeLoopReq _ x) \<Rightarrow> Some x
      | Doc_Iso20AcDerIec (Iec_ACChargeLoopReq _ x) \<Rightarrow> Some x
      | Doc_Iso20AcDerSae (Sae_ACChargeLoopReq _ x) \<Rightarrow> Some x
      | Doc_Iso20Dc (Dc_DCChargeLoopReq _ x) \<Rightarrow> Some x
      | _ \<Rightarrow> None)"

definition loop_mode_of :: "'x energy_fields \<Rightarrow> 'x msg \<Rightarrow> dynamic_cl_mode option" where
  "loop_mode_of fs m =
     Option.bind (charge_loop_of m) (\<lambda>x. case ef_cl_choice fs x of
        DynamicCLReqControlMode c \<Rightarrow> Some c | BPTDynamicCLReqControlMode c \<Rightarrow> Some c | OtherCLReqControlMode \<Rightarrow> None)"

definition display_of :: "'x energy_fields \<Rightarrow> 'x msg \<Rightarrow> display_parameters option" where
  "display_of fs m =
     (case msg_doc m of
        Doc_Iso20Wpt (Wpt_WPTChargeLoopReq _ x) \<Rightarrow> ef_display_parameters fs x
      | _ \<Rightarrow> Option.bind (charge_loop_of m) (ef_display_parameters fs))"

definition dynamic_se_of :: "'x energy_fields \<Rightarrow> 'x msg \<Rightarrow> dynamic_se_mode option" where
  "dynamic_se_of fs m =
     (case msg_doc m of
        Doc_Iso20 (Cm_ScheduleExchangeReq _ x) \<Rightarrow> (case ef_se_choice fs x of DynamicSEReqControlMode c \<Rightarrow> Some c | _ \<Rightarrow> None)
      | _ \<Rightarrow> None)"

definition scheduled_se_of :: "'x energy_fields \<Rightarrow> 'x msg \<Rightarrow> scheduled_se_mode option" where
  "scheduled_se_of fs m =
     (case msg_doc m of
        Doc_Iso20 (Cm_ScheduleExchangeReq _ x) \<Rightarrow> (case ef_se_choice fs x of ScheduledSEReqControlMode c \<Rightarrow> Some c | _ \<Rightarrow> None)
      | _ \<Rightarrow> None)"

definition dc_parameter_of :: "'x energy_fields \<Rightarrow> 'x msg \<Rightarrow> dc_charge_parameter option" where
  "dc_parameter_of fs m =
     (case body2_of m of
        Some (B2_ChargeParameterDiscoveryReq _ x) \<Rightarrow> (case ef_charge_parameter_choice fs x of DCEVChargeParameter p \<Rightarrow> Some p | _ \<Rightarrow> None)
      | _ \<Rightarrow> None)"

definition ac_parameter_of :: "'x energy_fields \<Rightarrow> 'x msg \<Rightarrow> ac_charge_parameter option" where
  "ac_parameter_of fs m =
     (case body2_of m of
        Some (B2_ChargeParameterDiscoveryReq _ x) \<Rightarrow> (case ef_charge_parameter_choice fs x of ACEVChargeParameter p \<Rightarrow> Some p | _ \<Rightarrow> None)
      | _ \<Rightarrow> None)"

definition dc_delivery_of :: "'x energy_fields \<Rightarrow> 'x msg \<Rightarrow> dc_power_delivery_parameter option" where
  "dc_delivery_of fs m =
     (case body2_of m of
        Some (B2_PowerDeliveryReq _ x) \<Rightarrow>
          (case ef_power_delivery_choice fs x of Some (DCEVPowerDeliveryParameter p) \<Rightarrow> Some p | _ \<Rightarrow> None)
      | _ \<Rightarrow> None)"

definition dc_status_of :: "'x energy_fields \<Rightarrow> 'x msg \<Rightarrow> dc_ev_status option" where
  "dc_status_of fs m =
     (case body2_of m of
        Some (B2_CableCheckReq x) \<Rightarrow> Some (ef_dc_ev_status fs x)
      | Some (B2_PreChargeReq x) \<Rightarrow> Some (ef_dc_ev_status fs x)
      | Some (B2_CurrentDemandReq x) \<Rightarrow> Some (ef_dc_ev_status fs x)
      | Some (B2_WeldingDetectionReq x) \<Rightarrow> Some (ef_dc_ev_status fs x)
      | Some (B2_PowerDeliveryReq _ _) \<Rightarrow> map_option dpd_dc_ev_status (dc_delivery_of fs m)
      | Some (B2_ChargeParameterDiscoveryReq _ _) \<Rightarrow> map_option dcp_dc_ev_status (dc_parameter_of fs m)
      | _ \<Rightarrow> None)"

definition demand_complete_of :: "'x energy_fields \<Rightarrow> 'x msg \<Rightarrow> bool option" where
  "demand_complete_of fs m = (case body2_of m of Some (B2_CurrentDemandReq x) \<Rightarrow> Some (ef_charging_complete fs x) | _ \<Rightarrow> None)"

text \<open>The figure is taken from the part that states it; a message has one such part at most.\<close>

fun stated :: "'a option list \<Rightarrow> 'a option" where
  "stated [] = None"
| "stated (Some x # xs) = Some x"
| "stated (None # xs) = stated xs"

definition stated_status :: "'x energy_fields \<Rightarrow> 'x msg \<Rightarrow> ev_energy_status" where
  "stated_status fs m =
     (let loop = loop_mode_of fs m; shown = display_of fs m; dynamic = dynamic_se_of fs m; scheduled = scheduled_se_of fs m;
          dc = dc_parameter_of fs m; ac = ac_parameter_of fs m in
      \<lparr>es_present_soc = stated [map_option ev_ress_soc (dc_status_of fs m), Option.bind shown dp_present_soc],
       es_target_soc = stated [Option.bind dynamic dse_target_soc, Option.bind shown dp_target_soc],
       es_minimum_soc = stated [Option.bind dynamic dse_minimum_soc, Option.bind shown dp_minimum_soc],
       es_full_soc = stated [Option.bind dc dcp_full_soc, Option.bind shown dp_maximum_soc],
       es_bulk_soc = Option.bind dc dcp_bulk_soc,
       es_energy_capacity = stated [Option.bind (Option.bind dc dcp_ev_energy_capacity) energy_mwh,
         Option.bind (Option.bind shown dp_battery_energy_capacity) rational_mwh],
       es_target_energy_request = stated [Option.bind (Option.bind dc dcp_ev_energy_request) energy_mwh,
         Option.bind ac (\<lambda>p. energy_mwh (acp_e_amount p)),
         Option.bind dynamic (\<lambda>d. rational_mwh (dse_target_energy_request d)),
         Option.bind (Option.bind scheduled sse_target_energy_request) rational_mwh,
         Option.bind loop (\<lambda>c. rational_mwh (dcl_target_energy_request c))],
       es_minimum_energy_request = stated [Option.bind dynamic (\<lambda>d. rational_mwh (dse_minimum_energy_request d)),
         Option.bind (Option.bind scheduled sse_minimum_energy_request) rational_mwh,
         Option.bind loop (\<lambda>c. rational_mwh (dcl_minimum_energy_request c))],
       es_maximum_energy_request = stated [Option.bind dynamic (\<lambda>d. rational_mwh (dse_maximum_energy_request d)),
         Option.bind (Option.bind scheduled sse_maximum_energy_request) rational_mwh,
         Option.bind loop (\<lambda>c. rational_mwh (dcl_maximum_energy_request c))],
       es_departure_in = stated [Option.bind dc dcp_departure_time, Option.bind ac acp_departure_time,
         map_option dse_departure_time dynamic, Option.bind scheduled sse_departure_time, Option.bind loop dcl_departure_time],
       es_charging_complete = stated [demand_complete_of fs m, map_option dpd_charging_complete (dc_delivery_of fs m),
         Option.bind shown dp_charging_complete]\<rparr>)"

lemmas stated_defs = stated_status_def body2_of_def charge_loop_of_def loop_mode_of_def display_of_def dynamic_se_of_def
  scheduled_se_of_def dc_parameter_of_def ac_parameter_of_def dc_delivery_of_def dc_status_of_def demand_complete_of_def

lemma stated_one [simp]: "stated [x] = x" "stated (x # None # xs) = stated (x # xs)"
  by (cases x; simp)+

lemma iso2_stated:
  assumes "msg_doc m = Doc_Iso2 d"
  shows "stated_status fs m = (case iso2_energy_status fs d of Some s \<Rightarrow> s | None \<Rightarrow> status_default)"
proof (cases d)
  case (D2_V2GMessage v)
  show ?thesis
  proof (cases "v2g_body v")
    case (Some b)
    show ?thesis using assms D2_V2GMessage Some
      by (cases b) (auto simp: stated_defs iso2_energy_status_def status_default_def Let_def
          split: option.split power_delivery_choice.split charge_parameter_choice.split)
  qed (use assms D2_V2GMessage in \<open>simp add: stated_defs iso2_energy_status_def status_default_def\<close>)
qed (use assms in \<open>simp add: stated_defs iso2_energy_status_def status_default_def\<close>)

lemma common_stated:
  assumes "msg_doc m = Doc_Iso20 d"
  shows "stated_status fs m = (case iso20_common_energy_status fs d of Some s \<Rightarrow> s | None \<Rightarrow> status_default)"
  using assms
  by (cases d) (auto simp: stated_defs iso20_common_energy_status_def status_default_def Let_def split: se_choice.split option.split)

lemma loop_stated:
  assumes "charge_loop_of m = Some x"
  shows "stated_status fs m = charge_loop_status fs x"
proof -
  have parts: "body2_of m = None" "dynamic_se_of fs m = None" "scheduled_se_of fs m = None"
      "display_of fs m = ef_display_parameters fs x"
    using assms by (auto simp: charge_loop_of_def body2_of_def dynamic_se_of_def scheduled_se_of_def display_of_def
        split: document.splits ac_doc.splits dc_doc.splits ac_der_iec_doc.splits ac_der_sae_doc.splits)
  show ?thesis
    by (cases "ef_cl_choice fs x"; cases "ef_display_parameters fs x")
      (simp_all add: stated_status_def parts loop_mode_of_def assms charge_loop_status_def take_request_def
        display_energy_status_def status_default_def dc_parameter_of_def ac_parameter_of_def dc_delivery_of_def
        dc_status_of_def demand_complete_of_def Let_def)
qed

lemma nothing_stated:
  assumes "body2_of m = None" and "charge_loop_of m = None" and "display_of fs m = None"
    and "dynamic_se_of fs m = None" and "scheduled_se_of fs m = None"
  shows "stated_status fs m = status_default"
  using assms
  by (simp add: stated_status_def loop_mode_of_def status_default_def dc_parameter_of_def ac_parameter_of_def dc_delivery_of_def
      dc_status_of_def demand_complete_of_def Let_def)

lemma energy_status_stated:
  "energy_status_of fs m = (if stated_status fs m = status_default then None else Some (stated_status fs m))"
proof (cases "msg_doc m")
  case (Doc_Iso2 d)
  then show ?thesis using iso2_stated [OF Doc_Iso2, of fs]
    by (cases "iso2_energy_status fs d") (simp_all add: energy_status_of_def status_is_empty_def)
next
  case (Doc_Iso20 d)
  then show ?thesis using common_stated [OF Doc_Iso20, of fs]
    by (cases "iso20_common_energy_status fs d") (simp_all add: energy_status_of_def status_is_empty_def)
next
  case (Doc_Iso20Wpt d)
  show ?thesis
  proof (cases "\<exists>h x. d = Wpt_WPTChargeLoopReq h x")
    case True
    then obtain h x where d: "d = Wpt_WPTChargeLoopReq h x" by blast
    have "stated_status fs m = display_energy_status (ef_display_parameters fs x)"
      by (cases "ef_display_parameters fs x")
        (simp_all add: stated_defs Doc_Iso20Wpt d display_energy_status_def status_default_def)
    then show ?thesis by (simp add: energy_status_of_def status_is_empty_def Doc_Iso20Wpt d)
  next
    case False
    then have "stated_status fs m = status_default"
      by (intro nothing_stated) (auto simp: stated_defs Doc_Iso20Wpt split: wpt_doc.splits)
    moreover have "energy_status_of fs m = None" using False by (auto simp: energy_status_of_def Doc_Iso20Wpt split: wpt_doc.splits)
    ultimately show ?thesis by simp
  qed
qed (cases "charge_loop_of m";
  use loop_stated [of m _ fs] nothing_stated [of m fs] in
    \<open>auto simp: energy_status_of_def status_is_empty_def charge_loop_of_def stated_defs
      split: ac_doc.splits dc_doc.splits ac_der_iec_doc.splits ac_der_sae_doc.splits\<close>)+

section \<open>Properties\<close>

text \<open>
  C34. The status of a message is what its fields state, and a figure is exact or not reported. \<open>stated_status\<close> lists for each
  figure the fields that state it (a minimum from minima, a maximum from maxima, a capacity from capacities), and
  \<open>energy_status_of\<close> is that status, or nothing where no figure is stated. An energy is the exact product of its value
  and its power of ten in milliwatt-hours, for ISO 15118-2 if it is in watt-hours, if the exponent is from \<open>-3\<close> to 15 and the
  product fits 64 bits, and is not reported otherwise: not with an exponent below \<open>-3\<close>, also where the product is an
  integer, which the comment on \<open>scale_mwh\<close> denies. Within the schema's facets for a multiplier, \<open>-3\<close> to 3, it is always
  reported. Only requests have a status, and never an empty one.
\<close>

theorem energy_status_exact:
  "energy_status_of fs m = (if stated_status fs m = status_default then None else Some (stated_status fs m))
   \<and> energy_mwh p =
       (let e = sint (pv_multiplier p); w = sint (pv_value p) * 10 ^ nat (e + 3) in
        if pv_unit p = Unit_Wh \<and> - 3 \<le> e \<and> e \<le> 15 \<and> - (2 ^ 63) \<le> w \<and> w < 2 ^ 63 then Some w else None)
   \<and> rational_mwh r =
       (let e = sint (rn_exponent r); w = sint (rn_value r) * 10 ^ nat (e + 3) in
        if - 3 \<le> e \<and> e \<le> 15 \<and> - (2 ^ 63) \<le> w \<and> w < 2 ^ 63 then Some w else None)
   \<and> (pv_unit p = Unit_Wh \<and> - 3 \<le> sint (pv_multiplier p) \<and> sint (pv_multiplier p) \<le> 3 \<longrightarrow> energy_mwh p \<noteq> None)
   \<and> (energy_status_of fs m = Some s \<longrightarrow> is_request m \<and> \<not> status_is_empty s)"
proof (intro conjI impI)
  have scale: "scale_mwh v e = (let w = v * 10 ^ nat (e + 3) in
      if - 3 \<le> e \<and> e \<le> 15 \<and> - (2 ^ 63) \<le> w \<and> w < 2 ^ 63 then Some w else None)" for v e
    using scale_mwh_Some [of v e] by (cases "scale_mwh v e") (auto simp: i64_range_def Let_def)
  show "energy_status_of fs m = (if stated_status fs m = status_default then None else Some (stated_status fs m))"
    by (rule energy_status_stated)
  show "energy_mwh p =
       (let e = sint (pv_multiplier p); w = sint (pv_value p) * 10 ^ nat (e + 3) in
        if pv_unit p = Unit_Wh \<and> - 3 \<le> e \<and> e \<le> 15 \<and> - (2 ^ 63) \<le> w \<and> w < 2 ^ 63 then Some w else None)"
    by (simp add: energy_mwh_def scale Let_def)
  show "rational_mwh r =
       (let e = sint (rn_exponent r); w = sint (rn_value r) * 10 ^ nat (e + 3) in
        if - 3 \<le> e \<and> e \<le> 15 \<and> - (2 ^ 63) \<le> w \<and> w < 2 ^ 63 then Some w else None)"
    by (simp add: rational_mwh_def scale Let_def)
  show "energy_mwh p \<noteq> None" if "pv_unit p = Unit_Wh \<and> - 3 \<le> sint (pv_multiplier p) \<and> sint (pv_multiplier p) \<le> 3"
    using that sint_ge [of "pv_value p"] sint_lt [of "pv_value p"] by (simp add: energy_mwh_def scale_mwh_small)
next
  assume "energy_status_of fs m = Some s"
  from energy_status_request [OF this] show "is_request m" "\<not> status_is_empty s" by (simp_all add: status_is_empty_def)
qed

definition sample_kwh :: physical_value where
  "sample_kwh = \<lparr>pv_multiplier = 3, pv_unit = Unit_Wh, pv_value = 40\<rparr>"

definition sample_energy_fields :: "unit energy_fields" where
  "sample_energy_fields =
     \<lparr>ef_dc_ev_status = \<lambda>_. \<lparr>ev_ress_soc = 42\<rparr>, ef_charging_complete = \<lambda>_. False, ef_power_delivery_choice = \<lambda>_. None,
      ef_charge_parameter_choice = \<lambda>_. EVChargeParameter,
      ef_se_choice = \<lambda>_. ScheduledSEReqControlMode \<lparr>sse_departure_time = None, sse_target_energy_request = None,
        sse_maximum_energy_request = None, sse_minimum_energy_request = None\<rparr>,
      ef_display_parameters = \<lambda>_. None, ef_cl_choice = \<lambda>_. OtherCLReqControlMode\<rparr>"

definition sample_cable_check :: "unit msg" where
  "sample_cable_check = Message M_Iso2 (Doc_Iso2 (D2_V2GMessage
     \<lparr>v2g_header = \<lparr>h2_session_id = [], h2_rest = ()\<rparr>, v2g_body = Some (B2_CableCheckReq ())\<rparr>))"

theorem energy_status_exact_witness:
  "energy_mwh sample_kwh = Some 40000000 \<and> rational_mwh \<lparr>rn_exponent = 2, rn_value = 7\<rparr> = Some 700000
   \<and> energy_status_of sample_energy_fields sample_cable_check = Some (status_default\<lparr>es_present_soc := Some 42\<rparr>)
   \<and> is_request sample_cable_check"
proof -
  have "energy_status_of sample_energy_fields sample_cable_check = Some (status_default\<lparr>es_present_soc := Some 42\<rparr>)"
    by (simp add: energy_status_of_def sample_cable_check_def iso2_energy_status_def sample_energy_fields_def status_is_empty_def
        status_default_def)
  then show ?thesis
    using energy_status_exact [of sample_energy_fields sample_cable_check sample_kwh "\<lparr>rn_exponent = 2, rn_value = 7\<rparr>"
        "status_default\<lparr>es_present_soc := Some 42\<rparr>"]
    by (simp add: sample_kwh_def)
qed

end
