(* ===== verification/Sdp.thy ===== *)
theory Sdp
  imports V2gtp Session_Common
begin

text \<open>
  SECC discovery, \<open>src/src/sdp.rs\<close>: the two datagrams, the answer a station gives, and the vehicle's search as a
  state machine, with what every search guarantees on a segment where anybody may answer.
\<close>

section \<open>Datagrams\<close>

definition REQUEST_LEN :: nat where
  "REQUEST_LEN = 2"

definition RESPONSE_LEN :: nat where
  "RESPONSE_LEN = 20"

datatype sdp_error =
    Sdp_BadLength nat nat
  | Sdp_UnknownSecurity u8
  | Sdp_UnknownTransport u8
  | Sdp_InvalidPort
  | Sdp_InvalidAddress bytes
  | Sdp_WrongPayloadType payload_type
  | Sdp_TrailingData
  | Sdp_Framing v2gtp_error

fun security_as_u8 :: "security \<Rightarrow> u8" where
  "security_as_u8 Tls = 0x00"
| "security_as_u8 No_Security = 0x10"

definition security_from_u8 :: "u8 \<Rightarrow> sdp_error + security" where
  "security_from_u8 v =
     (if v = 0x00 then Inr Tls else if v = 0x10 then Inr No_Security else Inl (Sdp_UnknownSecurity v))"

datatype transport_protocol = Tcp | Udp

fun transport_as_u8 :: "transport_protocol \<Rightarrow> u8" where
  "transport_as_u8 Tcp = 0x00"
| "transport_as_u8 Udp = 0x10"

definition transport_from_u8 :: "u8 \<Rightarrow> sdp_error + transport_protocol" where
  "transport_from_u8 v =
     (if v = 0x00 then Inr Tcp else if v = 0x10 then Inr Udp else Inl (Sdp_UnknownTransport v))"

datatype tls_policy = Unsupported | Supported | Required

record sdp_request =
  rq_security :: security
  rq_transport :: transport_protocol

definition request_TLS :: sdp_request where
  "request_TLS = \<lparr>rq_security = Tls, rq_transport = Tcp\<rparr>"

definition request_PLAIN :: sdp_request where
  "request_PLAIN = \<lparr>rq_security = No_Security, rq_transport = Tcp\<rparr>"

definition request_to_payload :: "sdp_request \<Rightarrow> bytes" where
  "request_to_payload q = [security_as_u8 (rq_security q), transport_as_u8 (rq_transport q)]"

definition request_from_payload :: "bytes \<Rightarrow> sdp_error + sdp_request" where
  "request_from_payload payload =
     (if length payload \<noteq> REQUEST_LEN then Inl (Sdp_BadLength REQUEST_LEN (length payload))
      else
        ebind (security_from_u8 (payload ! 0)) (\<lambda>s.
        ebind (transport_from_u8 (payload ! 1)) (\<lambda>t. Inr \<lparr>rq_security = s, rq_transport = t\<rparr>)))"

text \<open>The \<open>?\<close> on an error of the framing.\<close>

definition framed :: "v2gtp_error + 'a \<Rightarrow> sdp_error + 'a" where
  "framed r = (case r of Inl e \<Rightarrow> Inl (Sdp_Framing e) | Inr x \<Rightarrow> Inr x)"

definition request_write_frame :: "sdp_request \<Rightarrow> bytes \<Rightarrow> bool \<Rightarrow> sdp_error + (nat \<times> bytes)" where
  "request_write_frame q out wireless =
     framed (write_frame (if wireless then SdpWirelessRequest else SdpRequest) (request_to_payload q) out)"

definition request_from_frame :: "bytes \<Rightarrow> sdp_error + sdp_request" where
  "request_from_frame frame =
     ebind (framed (split_frame frame (max RESPONSE_LEN REQUEST_LEN))) (\<lambda>(header, payload, rest).
     if \<not> is_sdp_request (payload_type header) then Inl (Sdp_WrongPayloadType (payload_type header))
     else if rest \<noteq> [] then Inl Sdp_TrailingData
     else request_from_payload payload)"

text \<open>The address is sixteen bytes.\<close>

record sdp_response =
  rs_address :: bytes
  rs_port :: u16
  rs_security :: security
  rs_transport :: transport_protocol

definition response_to_payload :: "sdp_response \<Rightarrow> bytes" where
  "response_to_payload r =
     rs_address r @ u16_to_be (rs_port r) @ [security_as_u8 (rs_security r), transport_as_u8 (rs_transport r)]"

definition response_from_payload :: "bytes \<Rightarrow> sdp_error + sdp_response" where
  "response_from_payload payload =
     (if length payload \<noteq> RESPONSE_LEN then Inl (Sdp_BadLength RESPONSE_LEN (length payload))
      else
        let address = take 16 payload; port = u16_from_be (payload ! 16) (payload ! 17) in
        if port = 0 then Inl Sdp_InvalidPort
        else if address = replicate 16 0 \<or> address ! 0 = 0xff then Inl (Sdp_InvalidAddress address)
        else
          ebind (security_from_u8 (payload ! 18)) (\<lambda>s.
          ebind (transport_from_u8 (payload ! 19)) (\<lambda>t.
          Inr \<lparr>rs_address = address, rs_port = port, rs_security = s, rs_transport = t\<rparr>)))"

definition response_write_frame :: "sdp_response \<Rightarrow> bytes \<Rightarrow> bool \<Rightarrow> sdp_error + (nat \<times> bytes)" where
  "response_write_frame r out wireless =
     framed (write_frame (if wireless then SdpWirelessResponse else SdpResponse) (response_to_payload r) out)"

definition response_from_frame :: "bytes \<Rightarrow> sdp_error + sdp_response" where
  "response_from_frame frame =
     ebind (framed (split_frame frame RESPONSE_LEN)) (\<lambda>(header, payload, rest).
     if \<not> is_sdp_response (payload_type header) then Inl (Sdp_WrongPayloadType (payload_type header))
     else if rest \<noteq> [] then Inl Sdp_TrailingData
     else response_from_payload payload)"

definition satisfies :: "sdp_response \<Rightarrow> sdp_request \<Rightarrow> bool" where
  "satisfies r q \<longleftrightarrow> rs_transport r = rq_transport q \<and> \<not> (rq_security q = Tls \<and> rs_security r = No_Security)"

definition answering :: "sdp_request \<Rightarrow> bytes \<Rightarrow> u16 \<Rightarrow> tls_policy \<Rightarrow> sdp_response" where
  "answering q address port tls =
     (let security = (case (rq_security q, tls) of
          (Tls, Supported) \<Rightarrow> Tls
        | (Tls, Required) \<Rightarrow> Tls
        | (No_Security, Required) \<Rightarrow> Tls
        | (Tls, Unsupported) \<Rightarrow> No_Security
        | (No_Security, Unsupported) \<Rightarrow> No_Security
        | (No_Security, Supported) \<Rightarrow> No_Security)
      in \<lparr>rs_address = address, rs_port = port, rs_security = security, rs_transport = rq_transport q\<rparr>)"

definition is_link_local :: "sdp_response \<Rightarrow> bool" where
  "is_link_local r \<longleftrightarrow> rs_address r ! 0 = 0xfe \<and> rs_address r ! 1 AND 0xc0 = 0x80"

section \<open>Discovery\<close>

datatype sdp_refusal = SecurityDowngrade | TransportMismatch | OffLink

datatype sdp_event =
    Found sdp_response
  | Sdp_Refused sdp_response sdp_refusal
  | GaveUp u32
  | Conflict sdp_response sdp_response

record discovery =
  dv_request :: sdp_request
  dv_wireless :: bool
  dv_allow_off_link :: bool
  dv_interval :: millis
  dv_max_attempts :: u32
  dv_attempts :: u32
  dv_deadline :: "instant option"
  dv_pending :: "bytes option"
  dv_outcome :: "sdp_event option"
  dv_notice :: "sdp_event option"
  dv_accepted :: "sdp_response option"
  dv_done :: bool

definition discovery_new :: "sdp_request \<Rightarrow> discovery" where
  "discovery_new q =
     \<lparr>dv_request = q, dv_wireless = False, dv_allow_off_link = False, dv_interval = sdp_RESPONSE_TIMEOUT,
      dv_max_attempts = of_nat sdp_MAX_REQUESTS, dv_attempts = 0, dv_deadline = None, dv_pending = None,
      dv_outcome = None, dv_notice = None, dv_accepted = None, dv_done = False\<rparr>"

definition discovery_wireless :: "bool \<Rightarrow> discovery \<Rightarrow> discovery" where
  "discovery_wireless b d = d\<lparr>dv_wireless := b\<rparr>"

definition allow_off_link :: "bool \<Rightarrow> discovery \<Rightarrow> discovery" where
  "allow_off_link b d = d\<lparr>dv_allow_off_link := b\<rparr>"

definition with_interval :: "millis \<Rightarrow> discovery \<Rightarrow> discovery" where
  "with_interval i d = d\<lparr>dv_interval := i\<rparr>"

definition with_max_attempts :: "u32 \<Rightarrow> discovery \<Rightarrow> discovery" where
  "with_max_attempts n d = d\<lparr>dv_max_attempts := n\<rparr>"

text \<open>The buffer is as long as the frame, so writing it cannot fail; the model keeps the test of the source.\<close>

definition discovery_send :: "instant \<Rightarrow> discovery \<Rightarrow> discovery" where
  "discovery_send now d =
     (let d = (case request_write_frame (dv_request d) (replicate (HEADER_LEN + REQUEST_LEN) 0) (dv_wireless d) of
          Inr (_, frame) \<Rightarrow> d\<lparr>dv_pending := Some frame\<rparr>
        | Inl _ \<Rightarrow> d)
      in d\<lparr>dv_attempts := dv_attempts d + 1, dv_deadline := Some (instant_add now (dv_interval d))\<rparr>)"

definition discovery_start :: "instant \<Rightarrow> discovery \<Rightarrow> discovery" where
  "discovery_start now d =
     discovery_send now (d\<lparr>dv_attempts := 0, dv_done := False, dv_outcome := None, dv_notice := None, dv_accepted := None\<rparr>)"

definition discovery_poll_transmit :: "discovery \<Rightarrow> bytes option \<times> discovery" where
  "discovery_poll_transmit d = (dv_pending d, d\<lparr>dv_pending := None\<rparr>)"

definition discovery_handle_timeout :: "instant \<Rightarrow> discovery \<Rightarrow> discovery" where
  "discovery_handle_timeout now d =
     (if dv_done d \<or> (case dv_deadline d of None \<Rightarrow> True | Some t \<Rightarrow> t > now) then d
      else
        let d = d\<lparr>dv_deadline := None\<rparr> in
        if dv_attempts d \<ge> dv_max_attempts d then d\<lparr>dv_done := True, dv_outcome := Some (GaveUp (dv_attempts d))\<rparr>
        else discovery_send now d)"

definition discovery_refusal :: "discovery \<Rightarrow> sdp_response \<Rightarrow> sdp_refusal option" where
  "discovery_refusal d r =
     (if rs_transport r \<noteq> rq_transport (dv_request d) then Some TransportMismatch
      else if rq_security (dv_request d) = Tls \<and> rs_security r = No_Security then Some SecurityDowngrade
      else if \<not> dv_allow_off_link d \<and> \<not> is_link_local r then Some OffLink
      else None)"

definition discovery_handle_datagram :: "bytes \<Rightarrow> discovery \<Rightarrow> (sdp_error + unit) \<times> discovery" where
  "discovery_handle_datagram frame d =
     (case response_from_frame frame of
        Inl e \<Rightarrow> (Inl e, d)
      | Inr response \<Rightarrow>
        (case dv_accepted d of
           Some accepted \<Rightarrow>
             (Inr (), if response \<noteq> accepted \<and> discovery_refusal d response = None
                      then d\<lparr>dv_notice := Some (Conflict accepted response)\<rparr> else d)
         | None \<Rightarrow>
             if dv_done d then (Inr (), d)
             else
               (case discovery_refusal d response of
                  Some reason \<Rightarrow> (Inr (), d\<lparr>dv_notice := Some (Sdp_Refused response reason)\<rparr>)
                | None \<Rightarrow>
                    (Inr (), d\<lparr>dv_done := True, dv_deadline := None, dv_pending := None,
                       dv_accepted := Some response, dv_outcome := Some (Found response)\<rparr>))))"

definition discovery_poll_event :: "discovery \<Rightarrow> sdp_event option \<times> discovery" where
  "discovery_poll_event d =
     (case dv_notice d of
        Some e \<Rightarrow> (Some e, d\<lparr>dv_notice := None\<rparr>)
      | None \<Rightarrow> (dv_outcome d, d\<lparr>dv_outcome := None\<rparr>))"

section \<open>The datagrams are read back\<close>

lemma security_u8 [simp]: "security_from_u8 (security_as_u8 s) = Inr s"
  by (cases s) (simp_all add: security_from_u8_def)

lemma transport_u8 [simp]: "transport_from_u8 (transport_as_u8 t) = Inr t"
  by (cases t) (simp_all add: transport_from_u8_def)

definition connectable :: "sdp_response \<Rightarrow> bool" where
  "connectable r \<longleftrightarrow> length (rs_address r) = 16 \<and> rs_port r \<noteq> 0
     \<and> rs_address r \<noteq> replicate 16 0 \<and> rs_address r ! 0 \<noteq> 0xff"

lemma request_payload_roundtrip: "request_from_payload (request_to_payload q) = Inr q"
  by (simp add: request_from_payload_def request_to_payload_def REQUEST_LEN_def)

lemma response_payload_roundtrip: "connectable r \<Longrightarrow> response_from_payload (response_to_payload r) = Inr r"
  by (simp add: response_from_payload_def response_to_payload_def RESPONSE_LEN_def connectable_def u16_to_be_def nth_append)

lemma response_from_payload_connectable:
  "response_from_payload payload = Inr r \<Longrightarrow> connectable r \<and> response_to_payload r = payload"
proof -
  assume r: "response_from_payload payload = Inr r"
  then have len: "length payload = 20"
    by (auto simp: response_from_payload_def RESPONSE_LEN_def split: if_splits)
  have tail: "payload = take 16 payload @ [payload ! 16, payload ! 17, payload ! 18, payload ! 19]"
    using len by (intro nth_equalityI) (auto simp: nth_append less_Suc_eq numeral_eq_Suc)
  have be: "u16_to_be (u16_from_be a b) = [a, b]" for a b
    by (simp add: u16_to_be_def u16_from_be_def) (intro conjI bit_word_eqI; auto simp: bit_simps dest: bit_imp_le_length)
  show ?thesis
    using r len tail
    by (auto simp: response_from_payload_def response_to_payload_def RESPONSE_LEN_def connectable_def ebind_eq_Inr Let_def be
        security_from_u8_def transport_from_u8_def split: if_splits)
qed

lemma split_written:
  assumes "framed (write_frame t payload out) = Inr (n, out')" and "\<not> is_ignorable t" and "length payload \<le> limit"
  shows "framed (split_frame (take n out') limit)
     = Inr (\<lparr>payload_type = t, payload_len = of_nat (length payload)\<rparr>, payload, [])"
proof -
  have w: "write_frame t payload out = Inr (n, out')"
    using assms(1) by (auto simp: framed_def split: sum.splits)
  show ?thesis
    using split_frame_written [OF wf_assigned [OF assms(2)] write_frame_bytes(1) [OF w] assms(3), of "[]"]
    by (simp add: framed_def write_frame_bytes(4) [OF w])
qed

lemma request_frame_roundtrip:
  assumes "request_write_frame q out wireless = Inr (n, out')"
  shows "request_from_frame (take n out') = Inr q"
proof -
  have "length (request_to_payload q) \<le> max RESPONSE_LEN REQUEST_LEN"
    by (simp add: request_to_payload_def REQUEST_LEN_def)
  from split_written [OF assms [unfolded request_write_frame_def] _ this] show ?thesis
    by (simp add: request_from_frame_def is_sdp_request_def request_payload_roundtrip)
qed

lemma response_frame_roundtrip:
  assumes "response_write_frame r out wireless = Inr (n, out')" and "connectable r"
  shows "response_from_frame (take n out') = Inr r"
proof -
  have "length (response_to_payload r) \<le> RESPONSE_LEN"
    using assms(2) by (simp add: response_to_payload_def RESPONSE_LEN_def connectable_def u16_to_be_def)
  from split_written [OF assms(1) [unfolded response_write_frame_def] _ this] assms(2) show ?thesis
    by (simp add: response_from_frame_def is_sdp_response_def response_payload_roundtrip)
qed

section \<open>Every search\<close>

text \<open>
  A search from its start: clock, segment and application call its operations in any order. Recorded are the
  instants at which a request went out, the datagrams fed in and the events handed over.
\<close>

datatype sdp_log = Asked_at instant | Heard bytes | Told sdp_event

definition asks :: "discovery \<Rightarrow> discovery \<Rightarrow> instant \<Rightarrow> sdp_log list" where
  "asks d d' now = (if dv_attempts d' = dv_attempts d then [] else [Asked_at now])"

inductive sdp_run :: "discovery \<Rightarrow> sdp_log list \<Rightarrow> discovery \<Rightarrow> bool" for d0 where
  sdp_begin: "sdp_run d0 [Asked_at now] (discovery_start now d0)"
| sdp_timeout: "sdp_run d0 log d \<Longrightarrow> d' = discovery_handle_timeout now d \<Longrightarrow> sdp_run d0 (log @ asks d d' now) d'"
| sdp_datagram: "sdp_run d0 log d \<Longrightarrow> discovery_handle_datagram frame d = (r, d') \<Longrightarrow> sdp_run d0 (log @ [Heard frame]) d'"
| sdp_event: "sdp_run d0 log d \<Longrightarrow> discovery_poll_event d = (Some e, d') \<Longrightarrow> sdp_run d0 (log @ [Told e]) d'"
| sdp_no_event: "sdp_run d0 log d \<Longrightarrow> discovery_poll_event d = (None, d') \<Longrightarrow> sdp_run d0 log d'"
| sdp_transmit: "sdp_run d0 log d \<Longrightarrow> discovery_poll_transmit d = (frame, d') \<Longrightarrow> sdp_run d0 log d'"

fun asked_at :: "sdp_log list \<Rightarrow> instant list" where
  "asked_at [] = []"
| "asked_at (Asked_at t # log) = t # asked_at log"
| "asked_at (_ # log) = asked_at log"

fun outcome_of :: "sdp_event \<Rightarrow> sdp_event list" where
  "outcome_of (Found r) = [Found r]"
| "outcome_of (GaveUp n) = [GaveUp n]"
| "outcome_of _ = []"

fun outcomes :: "sdp_log list \<Rightarrow> sdp_event list" where
  "outcomes [] = []"
| "outcomes (Told e # log) = outcome_of e @ outcomes log"
| "outcomes (_ # log) = outcomes log"

lemma log_append [simp]:
  "asked_at (l @ m) = asked_at l @ asked_at m"
  "outcomes (l @ m) = outcomes l @ outcomes m"
  by (induction l rule: asked_at.induct) auto

definition heard :: "sdp_log list \<Rightarrow> sdp_response \<Rightarrow> bool" where
  "heard log r \<longleftrightarrow> (\<exists>frame. Heard frame \<in> set log \<and> response_from_frame frame = Inr r)"

definition usable :: "discovery \<Rightarrow> sdp_response \<Rightarrow> bool" where
  "usable d r \<longleftrightarrow> satisfies r (dv_request d) \<and> (dv_allow_off_link d \<or> is_link_local r)"

lemma discovery_refusal_None: "discovery_refusal d r = None \<longleftrightarrow> usable d r"
  by (auto simp: discovery_refusal_def usable_def satisfies_def)

text \<open>What may be told of a search: its outcome, refusals of what was heard, conflicts with what was accepted.\<close>

fun truthful :: "discovery \<Rightarrow> sdp_log list \<Rightarrow> sdp_response option \<Rightarrow> sdp_event \<Rightarrow> bool" where
  "truthful d log acc (Found r) \<longleftrightarrow> acc = Some r"
| "truthful d log acc (GaveUp n) \<longleftrightarrow> acc = None"
| "truthful d log acc (Sdp_Refused r why) \<longleftrightarrow> heard log r \<and> discovery_refusal d r = Some why"
| "truthful d log acc (Conflict a r) \<longleftrightarrow> acc = Some a \<and> heard log r \<and> r \<noteq> a \<and> usable d r"

fun paced :: "millis \<Rightarrow> instant list \<Rightarrow> bool" where
  "paced i (t # u # ts) \<longleftrightarrow> instant_add t i \<le> u \<and> paced i (u # ts)"
| "paced i _ = True"

definition same_search :: "discovery \<Rightarrow> discovery \<Rightarrow> bool" where
  "same_search d d' \<longleftrightarrow> dv_request d' = dv_request d \<and> dv_wireless d' = dv_wireless d
     \<and> dv_allow_off_link d' = dv_allow_off_link d \<and> dv_interval d' = dv_interval d \<and> dv_max_attempts d' = dv_max_attempts d"

definition the_outcome :: "discovery \<Rightarrow> sdp_event list" where
  "the_outcome d =
     (if \<not> dv_done d then []
      else case dv_accepted d of Some r \<Rightarrow> [Found r] | None \<Rightarrow> [GaveUp (dv_attempts d)])"

lemma the_outcome_slots [simp]:
  "the_outcome (d\<lparr>dv_notice := n\<rparr>) = the_outcome d"
  "the_outcome (d\<lparr>dv_outcome := e\<rparr>) = the_outcome d"
  by (simp_all add: the_outcome_def split: option.split)

definition clock_inv :: "discovery \<Rightarrow> sdp_log list \<Rightarrow> bool" where
  "clock_inv d log \<longleftrightarrow> asked_at log \<noteq> [] \<and> paced (dv_interval d) (asked_at log)
     \<and> unat (dv_attempts d) = length (asked_at log) \<and> length (asked_at log) \<le> max 1 (unat (dv_max_attempts d))
     \<and> dv_deadline d = (if dv_done d then None else Some (instant_add (last (asked_at log)) (dv_interval d)))
     \<and> (dv_done d \<and> dv_accepted d = None \<longrightarrow> unat (dv_max_attempts d) \<le> length (asked_at log))"

definition answer_inv :: "discovery \<Rightarrow> sdp_log list \<Rightarrow> bool" where
  "answer_inv d log \<longleftrightarrow> outcomes log @ (case dv_outcome d of Some e \<Rightarrow> [e] | None \<Rightarrow> []) = the_outcome d
     \<and> (\<forall>e. Told e \<in> set log \<or> dv_notice d = Some e \<longrightarrow> truthful d log (dv_accepted d) e)
     \<and> (\<forall>r. dv_accepted d = Some r \<longrightarrow> dv_done d \<and> usable d r \<and> heard log r)
     \<and> (\<forall>e. dv_notice d = Some e \<longrightarrow> outcome_of e = [])"

lemma discovery_send_frame:
  obtains frame where "request_write_frame (dv_request d) (replicate (HEADER_LEN + REQUEST_LEN) 0) (dv_wireless d)
      = Inr (HEADER_LEN + REQUEST_LEN, frame)"
    and "length frame = HEADER_LEN + REQUEST_LEN"
    and "discovery_send now d = d\<lparr>dv_pending := Some frame, dv_attempts := dv_attempts d + 1,
      dv_deadline := Some (instant_add now (dv_interval d))\<rparr>"
proof -
  obtain frame where "request_write_frame (dv_request d) (replicate (HEADER_LEN + REQUEST_LEN) 0) (dv_wireless d)
      = Inr (HEADER_LEN + REQUEST_LEN, frame)" and "length frame = HEADER_LEN + REQUEST_LEN"
    by (simp add: request_write_frame_def framed_def write_frame_def write_to_def request_to_payload_def
        HEADER_LEN_def REQUEST_LEN_def)
  then show thesis using that by (simp add: discovery_send_def)
qed

lemma discovery_send_fields [simp]:
  "dv_attempts (discovery_send now d) = dv_attempts d + 1"
  "dv_deadline (discovery_send now d) = Some (instant_add now (dv_interval d))"
  "dv_done (discovery_send now d) = dv_done d"
  "dv_outcome (discovery_send now d) = dv_outcome d"
  "dv_notice (discovery_send now d) = dv_notice d"
  "dv_accepted (discovery_send now d) = dv_accepted d"
  "dv_request (discovery_send now d) = dv_request d"
  "dv_wireless (discovery_send now d) = dv_wireless d"
  "dv_allow_off_link (discovery_send now d) = dv_allow_off_link d"
  "dv_interval (discovery_send now d) = dv_interval d"
  "dv_max_attempts (discovery_send now d) = dv_max_attempts d"
  by (simp_all add: discovery_send_def same_search_def split: sum.splits prod.splits)

lemma same_search_refl [simp]: "same_search d d"
  by (simp add: same_search_def)

lemma same_search_usable: "same_search d d' \<Longrightarrow> usable d' = usable d" "same_search d d' \<Longrightarrow> discovery_refusal d' = discovery_refusal d"
  by (auto simp: same_search_def usable_def discovery_refusal_def fun_eq_iff)

lemma heard_mono: "heard log r \<Longrightarrow> heard (log @ m) r"
  by (auto simp: heard_def)

lemma truthful_mono: "truthful d log acc e \<Longrightarrow> same_search d d' \<Longrightarrow> truthful d' (log @ m) acc e"
  by (cases e) (auto simp: same_search_usable heard_mono)

lemma truthful_accept: "truthful d log None e \<Longrightarrow> outcome_of e = [] \<Longrightarrow> truthful d log acc e"
  by (cases e) auto

lemma outcomes_told: "Told e \<in> set log \<Longrightarrow> outcome_of e \<noteq> [] \<Longrightarrow> outcomes log \<noteq> []"
  by (induction log rule: outcomes.induct) auto

lemma paced_snoc: "paced i (ts @ [t]) \<Longrightarrow> instant_add t i \<le> u \<Longrightarrow> paced i (ts @ [t, u])"
proof (induction ts)
  case (Cons v ts)
  then show ?case by (cases ts) auto
qed simp

section \<open>What a search keeps\<close>

lemma sdp_same_search:
  "sdp_run d0 log d \<Longrightarrow> same_search d0 d"
  by (induction rule: sdp_run.induct)
    (auto simp: discovery_start_def discovery_handle_timeout_def discovery_handle_datagram_def discovery_poll_event_def
      discovery_poll_transmit_def Let_def same_search_def split: if_splits sum.splits option.splits)

lemma sdp_clock_timeout:
  assumes "clock_inv d log" and "d' = discovery_handle_timeout now d"
  shows "clock_inv d' (log @ asks d d' now)"
proof -
  obtain ts t where asked: "asked_at log = ts @ [t]"
    using assms(1) by (cases "asked_at log" rule: rev_cases) (auto simp: clock_inv_def)
  consider (idle) "d' = d" | (ends) "d' = d\<lparr>dv_deadline := None, dv_done := True, dv_outcome := Some (GaveUp (dv_attempts d))\<rparr>"
      and "dv_max_attempts d \<le> dv_attempts d" "\<not> dv_done d"
    | (again) "d' = discovery_send now (d\<lparr>dv_deadline := None\<rparr>)" "dv_attempts d < dv_max_attempts d" "\<not> dv_done d"
      "instant_add t (dv_interval d) \<le> now"
    using assms asked by (auto simp: discovery_handle_timeout_def clock_inv_def Let_def not_le split: if_splits)
  then show ?thesis
  proof cases
    case idle
    then show ?thesis using assms(1) by (simp add: asks_def)
  next
    case ends
    then show ?thesis using assms(1) by (simp add: clock_inv_def asks_def word_le_nat_alt)
  next
    case again
    have less: "unat (dv_attempts d) < unat (dv_max_attempts d)" using again(2) by (simp add: word_less_nat_alt)
    then have suc: "unat (dv_attempts d + 1) = Suc (unat (dv_attempts d))"
      using unsigned_less [of "dv_max_attempts d", where 'a = nat] by (simp add: unat_word_ariths)
    show ?thesis
      using assms(1) again suc less asked paced_snoc [of _ ts t now]
      by (auto simp: clock_inv_def asks_def)
  qed
qed

lemma sdp_clock:
  "sdp_run d0 log d \<Longrightarrow> clock_inv d log"
proof (induction rule: sdp_run.induct)
  case (sdp_timeout log d d' now)
  then show ?case by (blast intro: sdp_clock_timeout)
next
  case (sdp_datagram log d frame r d')
  then show ?case
    by (auto simp: discovery_handle_datagram_def clock_inv_def split: sum.splits option.splits if_splits)
qed (auto simp: discovery_start_def discovery_poll_event_def discovery_poll_transmit_def clock_inv_def split: option.splits)

lemma answer_invI:
  assumes "answer_inv d log" and "same_search d d'" and "dv_outcome d' = dv_outcome d" and "dv_notice d' = dv_notice d"
    and "dv_accepted d' = dv_accepted d" and "dv_done d' = dv_done d" and "dv_done d \<Longrightarrow> dv_attempts d' = dv_attempts d"
    and "outcomes m = []" and "\<And>e. Told e \<notin> set m"
  shows "answer_inv d' (log @ m)"
  using assms
  by (auto simp: answer_inv_def the_outcome_def truthful_mono same_search_usable heard_mono split: option.splits)

lemma sdp_answer_timeout:
  assumes "answer_inv d log" and "d' = discovery_handle_timeout now d"
  shows "answer_inv d' (log @ asks d d' now)"
proof (cases "dv_done d' = dv_done d")
  case True
  then show ?thesis
    using assms(2)
    by (intro answer_invI [OF assms(1)])
      (auto simp: discovery_handle_timeout_def same_search_def asks_def Let_def split: if_splits)
next
  case False
  then have d': "d' = d\<lparr>dv_deadline := None, dv_done := True, dv_outcome := Some (GaveUp (dv_attempts d))\<rparr>" "\<not> dv_done d"
    using assms(2) by (auto simp: discovery_handle_timeout_def Let_def split: if_splits)
  have "dv_accepted d = None" using assms(1) d'(2) by (cases "dv_accepted d") (auto simp: answer_inv_def)
  moreover have "same_search d d'" using d'(1) by (simp add: same_search_def)
  ultimately show ?thesis
    using assms(1) d'
    by (auto simp: answer_inv_def the_outcome_def asks_def same_search_usable split: option.splits
        intro: truthful_mono [where m = "[]", simplified])
qed

lemma heard_now: "response_from_frame frame = Inr r \<Longrightarrow> heard (log @ [Heard frame]) r"
  by (auto simp: heard_def)

lemma sdp_answer_datagram:
  assumes inv: "answer_inv d log" and step: "discovery_handle_datagram frame d = (r, d')"
  shows "answer_inv d' (log @ [Heard frame])"
proof -
  have search: "same_search d d'"
    using step by (auto simp: discovery_handle_datagram_def same_search_def split: sum.splits option.splits if_splits)
  consider (same) "d' = d"
    | (notice) e where "d' = d\<lparr>dv_notice := Some e\<rparr>" "truthful d (log @ [Heard frame]) (dv_accepted d) e" "outcome_of e = []"
    | (found) q where "d' = d\<lparr>dv_done := True, dv_deadline := None, dv_pending := None,
         dv_accepted := Some q, dv_outcome := Some (Found q)\<rparr>" "dv_accepted d = None" "\<not> dv_done d"
         "usable d q" "heard (log @ [Heard frame]) q"
  proof (cases "response_from_frame frame")
    case (Inl e)
    then show thesis using that(1) step by (simp add: discovery_handle_datagram_def)
  next
    case (Inr q)
    note now = heard_now [OF Inr, of log]
    show thesis
    proof (cases "dv_accepted d")
      case (Some a)
      then show thesis
        using that(1) that(2) [of "Conflict a q"] step Inr now
        by (cases "q \<noteq> a \<and> discovery_refusal d q = None")
          (auto simp: discovery_handle_datagram_def discovery_refusal_None)
    next
      case None
      note none = None
      show thesis
      proof (cases "dv_done d")
        case True
        then show thesis using that(1) step Inr none by (simp add: discovery_handle_datagram_def)
      next
        case False
        note step = step [unfolded discovery_handle_datagram_def, simplified Inr none False]
        show thesis
        proof (cases "discovery_refusal d q")
          case None
          then show thesis using that(3) [of q] step none False now discovery_refusal_None [of d q] by simp
        next
          case (Some why)
          then show thesis using that(2) [of "Sdp_Refused q why"] step now by simp
        qed
      qed
    qed
  qed
  then show ?thesis
  proof cases
    case same
    then show ?thesis by (intro answer_invI [OF inv]) simp_all
  next
    case (notice e)
    then show ?thesis
      using inv search truthful_mono [OF _ search, of log _ _ "[Heard frame]"]
        truthful_mono [OF notice(2) search, of "[]"]
      by (auto simp: answer_inv_def usable_def heard_mono)
  next
    case (found q)
    have none: "outcomes log = []" using inv found by (simp add: answer_inv_def the_outcome_def)
    have silent: "outcome_of e = []" if "Told e \<in> set log \<or> dv_notice d = Some e" for e
      using that inv none outcomes_told [of e log] by (auto simp: answer_inv_def)
    have "truthful d' (log @ [Heard frame]) (Some q) e" if e: "Told e \<in> set log \<or> dv_notice d = Some e" for e
      using inv e found(2) silent [OF e] truthful_mono [OF truthful_accept search]
      by (auto simp: answer_inv_def)
    then show ?thesis
      using inv found none silent by (auto simp: answer_inv_def the_outcome_def usable_def)
  qed
qed

lemma sdp_answer_event:
  assumes "answer_inv d log" and "discovery_poll_event d = (Some e, d')"
  shows "answer_inv d' (log @ [Told e])"
proof (cases "dv_notice d")
  case (Some n)
  then show ?thesis
    using assms truthful_mono [of d log _ _ d' "[Told e]"]
    by (auto simp: answer_inv_def discovery_poll_event_def same_search_def heard_mono usable_def)
next
  case None
  have own: "dv_outcome d = Some e" "d' = d\<lparr>dv_outcome := None\<rparr>"
    using None assms(2) by (auto simp: discovery_poll_event_def)
  have "outcomes log @ [e] = the_outcome d" using assms(1) own by (simp add: answer_inv_def)
  then have e: "outcomes log = []" "dv_done d" "e = (case dv_accepted d of Some r \<Rightarrow> Found r | None \<Rightarrow> GaveUp (dv_attempts d))"
    by (auto simp: the_outcome_def split: option.splits if_splits)
  then show ?thesis
    using assms(1) own None truthful_mono [of d log _ _ d' "[Told e]"]
    by (auto simp: answer_inv_def the_outcome_def same_search_def heard_mono usable_def split: option.splits)
qed

lemma sdp_answer:
  "sdp_run d0 log d \<Longrightarrow> answer_inv d log"
proof (induction rule: sdp_run.induct)
  case (sdp_begin now)
  then show ?case by (simp add: answer_inv_def discovery_start_def the_outcome_def)
next
  case (sdp_timeout log d d' now)
  then show ?case by (blast intro: sdp_answer_timeout)
next
  case (sdp_datagram log d frame r d')
  then show ?case by (blast intro: sdp_answer_datagram)
next
  case (sdp_event log d e d')
  then show ?case by (blast intro: sdp_answer_event)
next
  case (sdp_no_event log d d')
  then show ?case
    by (rule_tac answer_invI [where d = d and m = "[]", simplified])
      (auto simp: discovery_poll_event_def same_search_def split: option.splits)
next
  case (sdp_transmit log d frame d')
  then show ?case
    by (rule_tac answer_invI [where d = d and m = "[]", simplified])
      (auto simp: discovery_poll_transmit_def same_search_def)
qed

lemma at_most_one_outcome: "answer_inv d log \<Longrightarrow> length (outcomes log) \<le> 1"
proof -
  assume "answer_inv d log"
  then have "length (outcomes log @ (case dv_outcome d of Some e \<Rightarrow> [e] | None \<Rightarrow> [])) = length (the_outcome d)"
    by (simp add: answer_inv_def)
  then show ?thesis by (auto simp: the_outcome_def split: option.splits if_splits)
qed

text \<open>The clock of a search that hears nothing: each timeout is handled when it is due.\<close>

definition tick :: "discovery \<Rightarrow> discovery" where
  "tick d = (case dv_deadline d of None \<Rightarrow> d | Some t \<Rightarrow> discovery_handle_timeout t d)"

lemma tick_run: "sdp_run d0 log d \<Longrightarrow> \<exists>log'. sdp_run d0 log' (tick d)"
  by (auto simp: tick_def split: option.splits intro: sdp_timeout)

lemma tick_progress:
  assumes "sdp_run d0 log d" and "\<not> dv_done d"
  shows "dv_done (tick d) \<and> unat (dv_max_attempts d0) \<le> unat (dv_attempts d)
    \<or> \<not> dv_done (tick d) \<and> unat (dv_attempts (tick d)) = Suc (unat (dv_attempts d))
      \<and> unat (dv_attempts d) < unat (dv_max_attempts d0)"
proof -
  have inv: "clock_inv d log" and max: "dv_max_attempts d = dv_max_attempts d0"
    using assms(1) sdp_clock sdp_same_search by (auto simp: same_search_def)
  then obtain t where t: "dv_deadline d = Some t" using assms(2) by (auto simp: clock_inv_def)
  show ?thesis
  proof (cases "dv_max_attempts d \<le> dv_attempts d")
    case True
    then show ?thesis using t assms(2) max by (simp add: tick_def discovery_handle_timeout_def word_le_nat_alt)
  next
    case False
    then have "unat (dv_attempts d + 1) = Suc (unat (dv_attempts d))"
      using unsigned_less [of "dv_max_attempts d", where 'a = nat] by (simp add: unat_word_ariths word_le_nat_alt)
    then show ?thesis
      using t assms(2) False max by (simp add: tick_def discovery_handle_timeout_def Let_def word_le_nat_alt)
  qed
qed

lemma tick_ends:
  "sdp_run d0 log d \<Longrightarrow> n = Suc (unat (dv_max_attempts d0)) - unat (dv_attempts d) \<Longrightarrow>
     \<exists>k \<le> max 1 n. dv_done ((tick ^^ k) d)"
proof (induction n arbitrary: log d)
  case 0
  show ?case
  proof (cases "dv_done d")
    case True
    then show ?thesis by (intro exI [of _ 0]) simp
  next
    case False
    with tick_progress [OF 0(1)] 0(2) show ?thesis by (intro exI [of _ 1]) auto
  qed
next
  case (Suc n)
  show ?case
  proof (cases "dv_done d \<or> dv_done (tick d)")
    case True
    then show ?thesis
    proof
      assume "dv_done d"
      then show ?thesis by (intro exI [of _ 0]) simp
    next
      assume "dv_done (tick d)"
      then show ?thesis by (intro exI [of _ 1]) simp
    qed
  next
    case False
    then have more: "unat (dv_attempts (tick d)) = Suc (unat (dv_attempts d))"
        "unat (dv_attempts d) < unat (dv_max_attempts d0)"
      using tick_progress [OF Suc.prems(1)] by simp_all
    obtain log' where run: "sdp_run d0 log' (tick d)" using tick_run [OF Suc.prems(1)] by blast
    have "n = Suc (unat (dv_max_attempts d0)) - unat (dv_attempts (tick d))" using Suc.prems(2) more by simp
    from Suc.IH [OF run this] obtain k where "k \<le> max 1 n" "dv_done ((tick ^^ k) (tick d))" by blast
    moreover have "1 \<le> n" using Suc.prems(2) more by simp
    ultimately show ?thesis by (intro exI [of _ "Suc k"]) (auto simp: funpow_swap1)
  qed
qed

lemma sdp_pending: "sdp_run d0 log d \<Longrightarrow> dv_pending d = Some frame \<Longrightarrow> request_from_frame frame = Inr (dv_request d)"
proof (induction arbitrary: frame rule: sdp_run.induct)
  case (sdp_begin now)
  obtain f where f: "request_write_frame (dv_request d0) (replicate (HEADER_LEN + REQUEST_LEN) 0) (dv_wireless d0)
      = Inr (HEADER_LEN + REQUEST_LEN, f)" "length f = HEADER_LEN + REQUEST_LEN"
    "discovery_start now d0 = d0\<lparr>dv_attempts := 1, dv_done := False, dv_outcome := None, dv_notice := None, dv_accepted := None,
       dv_pending := Some f, dv_deadline := Some (instant_add now (dv_interval d0))\<rparr>"
    by (rule discovery_send_frame [of "d0\<lparr>dv_attempts := 0, dv_done := False, dv_outcome := None, dv_notice := None,
          dv_accepted := None\<rparr>" now]) (simp add: discovery_start_def)
  show ?case using request_frame_roundtrip [OF f(1)] f(2,3) sdp_begin by simp
next
  case (sdp_timeout log d d' now)
  obtain f where f: "request_write_frame (dv_request d) (replicate (HEADER_LEN + REQUEST_LEN) 0) (dv_wireless d)
      = Inr (HEADER_LEN + REQUEST_LEN, f)" "length f = HEADER_LEN + REQUEST_LEN"
    "dv_pending (discovery_send now (d\<lparr>dv_deadline := None\<rparr>)) = Some f"
    by (rule discovery_send_frame [of "d\<lparr>dv_deadline := None\<rparr>" now]) simp
  show ?case
    using sdp_timeout request_frame_roundtrip [OF f(1)] f(2,3)
    by (auto simp: discovery_handle_timeout_def Let_def split: if_splits)
qed (auto simp: discovery_handle_datagram_def discovery_poll_event_def discovery_poll_transmit_def
      split: sum.splits option.splits if_splits)

text \<open>A link-local address names an endpoint.\<close>

lemma link_local_connectable:
  "length (rs_address r) = 16 \<Longrightarrow> rs_port r \<noteq> 0 \<Longrightarrow> is_link_local r \<Longrightarrow> connectable r"
  by (auto simp: connectable_def is_link_local_def)

lemma answering_transport [simp]: "rs_transport (answering q address port tls) = rq_transport q"
  by (simp add: answering_def)

lemma answering_usable:
  "is_link_local (answering q address port tls) \<Longrightarrow>
   discovery_refusal d (answering q address port tls) =
     (if rq_transport q \<noteq> rq_transport (dv_request d) then Some TransportMismatch
      else if rq_security (dv_request d) = Tls \<and> rs_security (answering q address port tls) = No_Security
      then Some SecurityDowngrade else None)"
  by (simp add: discovery_refusal_def)

section \<open>Properties\<close>

text \<open>
  C19. A vehicle's search is not led astray by whoever answers: in every search, whatever datagrams arrive, what is
  reported as found was received, offers the transport and at least the security that was asked for, and is on
  the link unless that is waived; there is one outcome at most, found or given up; and a conflict is reported only
  between the answer found and another usable one that was received.
\<close>
theorem discovery_not_misled:
  assumes "sdp_run d0 log d"
  shows "length (outcomes log) \<le> 1
    \<and> (Told (Found r) \<in> set log \<longrightarrow> heard log r \<and> satisfies r (dv_request d0) \<and> (dv_allow_off_link d0 \<or> is_link_local r))
    \<and> (Told (Conflict a b) \<in> set log \<longrightarrow> dv_accepted d = Some a \<and> a \<noteq> b \<and> usable d0 a \<and> usable d0 b \<and> heard log a \<and> heard log b)"
proof -
  have inv: "answer_inv d log" and same: "usable d = usable d0"
    using assms sdp_answer sdp_same_search same_search_usable(1) by blast+
  have acc: "dv_accepted d = Some q \<Longrightarrow> usable d0 q \<and> heard log q" for q
    using inv by (simp add: answer_inv_def same)
  have told: "Told e \<in> set log \<Longrightarrow> truthful d log (dv_accepted d) e" for e
    using inv by (simp add: answer_inv_def)
  show ?thesis
    using at_most_one_outcome [OF inv] told [of "Found r"] told [of "Conflict a b"] acc same
    by (auto simp: usable_def)
qed

definition sample_station :: sdp_response where
  "sample_station = \<lparr>rs_address = [0xfe, 0x80, 0, 0, 0, 0, 0, 0, 0, 0, 0, 0, 0, 0, 0, 1], rs_port = 15118,
     rs_security = Tls, rs_transport = Tcp\<rparr>"

definition sample_datagram :: bytes where
  "sample_datagram = [0x01, 0xfe, 0x90, 0x01, 0, 0, 0, 20] @ rs_address sample_station @ [0x3b, 0x0e, 0x00, 0x00]"

definition sample_search :: discovery where
  "sample_search = discovery_start 0 (discovery_new request_TLS)"

lemma sample_search_run: "sdp_run (discovery_new request_TLS) [Asked_at 0] sample_search"
  unfolding sample_search_def by (rule sdp_begin)

theorem discovery_not_misled_witness:
  "\<exists>log d. sdp_run (discovery_new request_TLS) log d \<and> Told (Found sample_station) \<in> set log
     \<and> heard log sample_station \<and> satisfies sample_station request_TLS"
proof -
  obtain d1 where d1: "discovery_handle_datagram sample_datagram sample_search = (Inr (), d1)"
      "discovery_poll_event d1 = (Some (Found sample_station), d1\<lparr>dv_outcome := None\<rparr>)"
  proof -
    have "fst (discovery_handle_datagram sample_datagram sample_search) = Inr ()
      \<and> dv_notice (snd (discovery_handle_datagram sample_datagram sample_search)) = None
      \<and> dv_outcome (snd (discovery_handle_datagram sample_datagram sample_search)) = Some (Found sample_station)"
      by code_simp
    then show thesis
      using that [of "snd (discovery_handle_datagram sample_datagram sample_search)"]
      by (simp add: prod_eq_iff discovery_poll_event_def)
  qed
  from sdp_event [OF sdp_datagram [OF sample_search_run d1(1)] d1(2)]
  have run: "sdp_run (discovery_new request_TLS) [Asked_at 0, Heard sample_datagram, Told (Found sample_station)]
     (d1\<lparr>dv_outcome := None\<rparr>)" by simp
  show ?thesis
    using run discovery_not_misled [OF run, of sample_station sample_station sample_station]
    by (auto simp: discovery_new_def)
qed

text \<open>
  C21. A search is paced and ends: its requests are at least the interval apart and no more than configured (but
  one), and a search that goes on has a deadline; handling each timeout when it is due ends it within the
  configured number of rounds.
\<close>
theorem discovery_paced:
  assumes "sdp_run d0 log d"
  shows "paced (dv_interval d0) (asked_at log) \<and> length (asked_at log) \<le> max 1 (unat (dv_max_attempts d0))
    \<and> (dv_done d \<or> dv_deadline d \<noteq> None)
    \<and> (\<exists>k \<le> max 1 (unat (dv_max_attempts d0)). dv_done ((tick ^^ k) d))"
proof -
  have inv: "clock_inv d log" and same: "same_search d0 d"
    using assms sdp_clock sdp_same_search by blast+
  have "unat (dv_attempts d) \<ge> 1" using inv by (auto simp: clock_inv_def Suc_le_eq)
  then have "max 1 (Suc (unat (dv_max_attempts d0)) - unat (dv_attempts d)) \<le> max 1 (unat (dv_max_attempts d0))" by auto
  then have "\<exists>k \<le> max 1 (unat (dv_max_attempts d0)). dv_done ((tick ^^ k) d)"
    using tick_ends [OF assms refl] by (meson order_trans)
  then show ?thesis using inv same by (auto simp: clock_inv_def same_search_def)
qed

theorem discovery_paced_witness:
  "sdp_run (discovery_new request_TLS) [Asked_at 0] sample_search \<and> (\<exists>k \<le> 50. dv_done ((tick ^^ k) sample_search))"
proof -
  have "max 1 (unat (dv_max_attempts (discovery_new request_TLS))) = 50"
    by (simp add: discovery_new_def sdp_MAX_REQUESTS_def)
  then show ?thesis using sample_search_run discovery_paced [OF sample_search_run] by metis
qed

text \<open>
  C20. Vehicle and station find each other: the datagram a search has pending is read by a station as the vehicle's
  request; and the datagram of the answer \<open>Response::answering\<close> gives to it, from a link-local endpoint, is what
  the search reports as found, unless the station has no TLS to offer a vehicle that asked for it, in which case
  the answer is reported as a downgrade and the search goes on as it was.
\<close>
theorem discovery_finds_station:
  assumes "sdp_run d0 log d" and "\<not> dv_done d" and "dv_pending d = Some frame"
    and "length address = 16" and "port \<noteq> 0" and "answer = answering (dv_request d0) address port tls"
    and "is_link_local answer" and "response_write_frame answer out wireless = Inr (n, out')"
  shows "request_from_frame frame = Inr (dv_request d0)
    \<and> (if rq_security (dv_request d0) = Tls \<and> tls = Unsupported
       then discovery_handle_datagram (take n out') d = (Inr (), d\<lparr>dv_notice := Some (Sdp_Refused answer SecurityDowngrade)\<rparr>)
       else \<exists>d'. discovery_handle_datagram (take n out') d = (Inr (), d') \<and> dv_done d' \<and> dv_outcome d' = Some (Found answer)
         \<and> dv_accepted d' = Some answer \<and> satisfies answer (dv_request d0))"
proof -
  have same: "dv_request d = dv_request d0" using sdp_same_search [OF assms(1)] by (simp add: same_search_def)
  have "connectable answer"
    using assms(4-7) by (intro link_local_connectable) (simp_all add: answering_def)
  note read = response_frame_roundtrip [OF assms(8) this]
  have fresh: "dv_accepted d = None"
    using sdp_answer [OF assms(1)] assms(2) by (cases "dv_accepted d") (auto simp: answer_inv_def)
  have sec: "rs_security answer = No_Security \<longleftrightarrow> tls = Unsupported \<or> rq_security (dv_request d0) = No_Security \<and> tls = Supported"
    by (cases tls; cases "rq_security (dv_request d0)") (simp_all add: assms(6) answering_def)
  have ref: "discovery_refusal d answer = (if rq_security (dv_request d0) = Tls \<and> tls = Unsupported then Some SecurityDowngrade else None)"
    using answering_usable [of "dv_request d0" address port tls d] assms(6,7) sec same
    by (cases tls) auto
  have "\<not> (rq_security (dv_request d0) = Tls \<and> tls = Unsupported) \<Longrightarrow> satisfies answer (dv_request d0)"
    using ref discovery_refusal_None [of d answer] by (auto simp: usable_def same)
  then show ?thesis
    using sdp_pending [OF assms(1,3)] read fresh ref assms(2) same by (simp add: discovery_handle_datagram_def)
qed

theorem discovery_finds_station_witness:
  "\<exists>d'. discovery_handle_datagram sample_datagram sample_search = (Inr (), d') \<and> dv_outcome d' = Some (Found sample_station)"
proof -
  have request: "dv_request (discovery_new request_TLS) = request_TLS" by (simp add: discovery_new_def)
  have answer: "sample_station = answering (dv_request (discovery_new request_TLS)) (rs_address sample_station) 15118 Supported"
    by (simp add: discovery_new_def sample_station_def answering_def request_TLS_def)
  have out: "response_write_frame sample_station (replicate 28 0) False = Inr (28, sample_datagram)"
    by code_simp
  have state: "\<not> dv_done sample_search" "dv_pending sample_search = Some [0x01, 0xfe, 0x90, 0x00, 0, 0, 0, 2, 0, 0]"
      "is_link_local sample_station" "length (rs_address sample_station) = 16"
    by code_simp+
  have "take 28 sample_datagram = sample_datagram" by code_simp
  with discovery_finds_station [OF sample_search_run state(1,2,4) _ answer state(3) out]
  show ?thesis by (auto simp: request)
qed

end
