(* ===== verification/Slac_Messages.thy ===== *)
theory Slac_Messages
  imports Prelude
begin

text \<open>
  SLAC frames and messages, \<open>src/src/slac/mod.rs\<close> and \<open>src/src/slac/message.rs\<close>: management messages of the
  powerline modems, fixed layouts in Ethernet frames. The cursors that write and read the fields are modelled with
  their buffers and positions; the locale \<open>slac_message\<close> states what the matching engines rely on of a message, and
  every message is an interpretation of it.
\<close>

section \<open>Frames\<close>

definition ETHERTYPE_HOMEPLUG_AV :: u16 where
  "ETHERTYPE_HOMEPLUG_AV = 0x88E1"

definition ETHERNET_HEADER_LEN :: nat where
  "ETHERNET_HEADER_LEN = 14"

definition MIN_FRAME_LEN :: nat where
  "MIN_FRAME_LEN = 60"

definition STATION_ID_LEN :: nat where
  "STATION_ID_LEN = 17"

definition RUN_ID_LEN :: nat where
  "RUN_ID_LEN = 8"

definition NMK_LEN :: nat where
  "NMK_LEN = 16"

definition NID_LEN :: nat where
  "NID_LEN = 7"

definition AAG_LEN :: nat where
  "AAG_LEN = 58"

text \<open>A MAC address is six bytes.\<close>

type_synonym mac_addr = bytes

definition BROADCAST :: mac_addr where
  "BROADCAST = replicate 6 0xFF"

definition APPLICATION_TYPE_PEV_EVSE :: u8 where
  "APPLICATION_TYPE_PEV_EVSE = 0x00"

definition SECURITY_TYPE_NONE :: u8 where
  "SECURITY_TYPE_NONE = 0x00"

lemmas slac_lengths = ETHERNET_HEADER_LEN_def MIN_FRAME_LEN_def STATION_ID_LEN_def RUN_ID_LEN_def NMK_LEN_def
  NID_LEN_def AAG_LEN_def

datatype mmv = Av1_0 | Av1_1 | Av2_0

datatype mmtype =
    MM_SetKeyReq | MM_SetKeyCnf | MM_SlacParmReq | MM_SlacParmCnf | MM_StartAttenCharInd | MM_AttenCharInd
  | MM_AttenCharRsp | MM_MnbcSoundInd | MM_ValidateReq | MM_ValidateCnf | MM_SlacMatchReq | MM_SlacMatchCnf
  | MM_AttenProfileInd | MM_Other u16

datatype slac_error =
    Slac_Truncated
  | Slac_BufferTooSmall
  | Slac_NotHomeplug u16
  | Slac_UnknownMmv u8
  | Slac_UnexpectedMmtype mmtype mmtype
  | Slac_UnsupportedProfile u8 u8
  | Slac_BadLength nat nat
  | Slac_TooManyGroups u8

fun mmv_as_u8 :: "mmv \<Rightarrow> u8" where
  "mmv_as_u8 Av1_0 = 0x00"
| "mmv_as_u8 Av1_1 = 0x01"
| "mmv_as_u8 Av2_0 = 0x02"

definition mmv_from_u8 :: "u8 \<Rightarrow> slac_error + mmv" where
  "mmv_from_u8 v =
     (if v = 0x00 then Inr Av1_0 else if v = 0x01 then Inr Av1_1 else if v = 0x02 then Inr Av2_0
      else Inl (Slac_UnknownMmv v))"

fun fragmentation_len :: "mmv \<Rightarrow> nat" where
  "fragmentation_len Av1_0 = 0"
| "fragmentation_len Av1_1 = 2"
| "fragmentation_len Av2_0 = 2"

fun mmtype_as_u16 :: "mmtype \<Rightarrow> u16" where
  "mmtype_as_u16 MM_SetKeyReq = 0x6008"
| "mmtype_as_u16 MM_SetKeyCnf = 0x6009"
| "mmtype_as_u16 MM_SlacParmReq = 0x6064"
| "mmtype_as_u16 MM_SlacParmCnf = 0x6065"
| "mmtype_as_u16 MM_StartAttenCharInd = 0x606A"
| "mmtype_as_u16 MM_AttenCharInd = 0x606E"
| "mmtype_as_u16 MM_AttenCharRsp = 0x606F"
| "mmtype_as_u16 MM_MnbcSoundInd = 0x6076"
| "mmtype_as_u16 MM_ValidateReq = 0x6078"
| "mmtype_as_u16 MM_ValidateCnf = 0x6079"
| "mmtype_as_u16 MM_SlacMatchReq = 0x607C"
| "mmtype_as_u16 MM_SlacMatchCnf = 0x607D"
| "mmtype_as_u16 MM_AttenProfileInd = 0x6086"
| "mmtype_as_u16 (MM_Other v) = v"

definition mmtype_from_u16 :: "u16 \<Rightarrow> mmtype" where
  "mmtype_from_u16 v =
     (if v = 0x6008 then MM_SetKeyReq else if v = 0x6009 then MM_SetKeyCnf
      else if v = 0x6064 then MM_SlacParmReq else if v = 0x6065 then MM_SlacParmCnf
      else if v = 0x606A then MM_StartAttenCharInd else if v = 0x606E then MM_AttenCharInd
      else if v = 0x606F then MM_AttenCharRsp else if v = 0x6076 then MM_MnbcSoundInd
      else if v = 0x6078 then MM_ValidateReq else if v = 0x6079 then MM_ValidateCnf
      else if v = 0x607C then MM_SlacMatchReq else if v = 0x607D then MM_SlacMatchCnf
      else if v = 0x6086 then MM_AttenProfileInd else MM_Other v)"

text \<open>\<open>to_be_bytes\<close> and \<open>to_le_bytes\<close> with their inverses.\<close>

definition be16 :: "u16 \<Rightarrow> bytes" where
  "be16 v = [ucast (drop_bit 8 v), ucast v]"

definition le16 :: "u16 \<Rightarrow> bytes" where
  "le16 v = [ucast v, ucast (drop_bit 8 v)]"

definition le32 :: "u32 \<Rightarrow> bytes" where
  "le32 v = [ucast v, ucast (drop_bit 8 v), ucast (drop_bit 16 v), ucast (drop_bit 24 v)]"

definition of_le16 :: "u8 \<Rightarrow> u8 \<Rightarrow> u16" where
  "of_le16 a b = ucast a OR push_bit 8 (ucast b)"

definition of_le32 :: "u8 \<Rightarrow> u8 \<Rightarrow> u8 \<Rightarrow> u8 \<Rightarrow> u32" where
  "of_le32 a b c d = ucast a OR push_bit 8 (ucast b) OR push_bit 16 (ucast c) OR push_bit 24 (ucast d)"

lemma of_le16 [simp]: "of_le16 (ucast v) (ucast (drop_bit 8 v)) = v"
  by (rule bit_word_eqI) (auto simp: of_le16_def bit_simps)

lemma of_le16_const [simp]: "of_le16 0xE1 0x88 = 0x88E1" "of_le16 0x3E 0 = 0x3E" "of_le16 0x56 0 = 0x56"
  by code_simp+

lemma of_le32 [simp]:
  "of_le32 (ucast v) (ucast (drop_bit 8 v)) (ucast (drop_bit 16 v)) (ucast (drop_bit 24 v)) = v"
proof (rule bit_word_eqI)
  fix n assume "n < LENGTH(32)"
  then consider "n < 8" | "8 \<le> n" "n < 16" | "16 \<le> n" "n < 24" | "24 \<le> n" "n < 32" by force
  then show "bit (of_le32 (ucast v) (ucast (drop_bit 8 v)) (ucast (drop_bit 16 v)) (ucast (drop_bit 24 v))) n = bit v n"
    by cases (auto simp: of_le32_def bit_simps)
qed

lemma be16_homeplug [simp]: "be16 ETHERTYPE_HOMEPLUG_AV = [0x88, 0xE1]"
  by code_simp

record slac_frame =
  fr_destination :: mac_addr
  fr_source :: mac_addr
  fr_mmv :: mmv
  fr_mmtype :: mmtype
  fr_payload :: bytes

definition slac_write_frame :: "bytes \<Rightarrow> mac_addr \<Rightarrow> mac_addr \<Rightarrow> mmv \<Rightarrow> mmtype \<Rightarrow> bytes \<Rightarrow> slac_error + (nat \<times> bytes)" where
  "slac_write_frame out destination source mmv mmtype payload =
     (let header_len = ETHERNET_HEADER_LEN + 3 + fragmentation_len mmv;
          len = max (header_len + length payload) MIN_FRAME_LEN
      in
      if length out < len then Inl Slac_BufferTooSmall
      else
        let header = destination @ source @ be16 ETHERTYPE_HOMEPLUG_AV @ [mmv_as_u8 mmv] @ le16 (mmtype_as_u16 mmtype)
              @ replicate (fragmentation_len mmv) 0
        in Inr (len, header @ payload @ replicate (len - (header_len + length payload)) 0 @ drop len out))"

definition slac_parse_frame :: "bytes \<Rightarrow> slac_error + slac_frame" where
  "slac_parse_frame frame =
     (if length frame < ETHERNET_HEADER_LEN + 3 then Inl Slac_Truncated
      else
        let ethertype = of_le16 (frame ! 13) (frame ! 12) in
        if ethertype \<noteq> ETHERTYPE_HOMEPLUG_AV then Inl (Slac_NotHomeplug ethertype)
        else
          ebind (mmv_from_u8 (frame ! 14)) (\<lambda>mmv.
          let mmtype = mmtype_from_u16 (of_le16 (frame ! 15) (frame ! 16));
              body_start = ETHERNET_HEADER_LEN + 3 + fragmentation_len mmv
          in
          if body_start > length frame then Inl Slac_Truncated
          else Inr \<lparr>fr_destination = take 6 frame, fr_source = take 6 (drop 6 frame), fr_mmv = mmv, fr_mmtype = mmtype,
                 fr_payload = drop body_start frame\<rparr>))"

lemma mmv_u8 [simp]: "mmv_from_u8 (mmv_as_u8 v) = Inr v"
  by (cases v) (simp_all add: mmv_from_u8_def)

lemma mmtype_u16 [simp]: "mmtype_as_u16 (mmtype_from_u16 v) = v"
  by (simp add: mmtype_from_u16_def)

text \<open>A type this crate does not model is told apart by its code.\<close>

definition wf_mmtype :: "mmtype \<Rightarrow> bool" where
  "wf_mmtype t \<longleftrightarrow> mmtype_from_u16 (mmtype_as_u16 t) = t"

lemma take_length_append: "take (length xs) (xs @ ys) = xs"
  by simp

lemma slac_frame_roundtrip:
  assumes "slac_write_frame out destination source mmv mmtype payload = Inr (n, out')"
    and "length destination = 6" and "length source = 6" and "wf_mmtype mmtype"
  shows "\<exists>pad. slac_parse_frame (take n out') =
     Inr \<lparr>fr_destination = destination, fr_source = source, fr_mmv = mmv, fr_mmtype = mmtype, fr_payload = payload @ pad\<rparr>"
proof -
  define k where "k = max (ETHERNET_HEADER_LEN + 3 + fragmentation_len mmv + length payload) MIN_FRAME_LEN
      - (ETHERNET_HEADER_LEN + 3 + fragmentation_len mmv + length payload)"
  let ?c = "destination @ source @ [0x88, 0xE1] @ [mmv_as_u8 mmv] @ le16 (mmtype_as_u16 mmtype)
      @ replicate (fragmentation_len mmv) 0 @ payload @ replicate k 0"
  have n: "n = length ?c" and all: "out' = ?c @ drop n out"
    using assms(1-3)
    by (auto simp: slac_write_frame_def Let_def k_def le16_def ETHERNET_HEADER_LEN_def split: if_splits)
  have out': "take n out' = ?c"
    unfolding all unfolding n by (rule take_length_append)
  have "slac_parse_frame (take n out') = Inr \<lparr>fr_destination = destination, fr_source = source, fr_mmv = mmv,
      fr_mmtype = mmtype, fr_payload = payload @ replicate k 0\<rparr>"
    using assms(2-4) unfolding out'
    by (cases mmv) (auto simp: slac_parse_frame_def Let_def nth_append le16_def ETHERTYPE_HOMEPLUG_AV_def
        ETHERNET_HEADER_LEN_def wf_mmtype_def mmv_from_u8_def numeral_2_eq_2)
  then show ?thesis by blast
qed

section \<open>The cursors\<close>

record slac_reader =
  rd_buf :: bytes
  rd_pos :: nat

definition reader_new :: "bytes \<Rightarrow> slac_reader" where
  "reader_new buf = \<lparr>rd_buf = buf, rd_pos = 0\<rparr>"

definition rd_take :: "nat \<Rightarrow> slac_reader \<Rightarrow> slac_error + (bytes \<times> slac_reader)" where
  "rd_take n r =
     (let fin = rd_pos r + n in
      if fin \<le> length (rd_buf r) then Inr (take n (drop (rd_pos r) (rd_buf r)), r\<lparr>rd_pos := fin\<rparr>)
      else Inl Slac_Truncated)"

definition rd_u8 :: "slac_reader \<Rightarrow> slac_error + (u8 \<times> slac_reader)" where
  "rd_u8 r = ebind (rd_take 1 r) (\<lambda>(b, r). Inr (b ! 0, r))"

definition rd_u16le :: "slac_reader \<Rightarrow> slac_error + (u16 \<times> slac_reader)" where
  "rd_u16le r = ebind (rd_take 2 r) (\<lambda>(b, r). Inr (of_le16 (b ! 0) (b ! 1), r))"

definition rd_u32le :: "slac_reader \<Rightarrow> slac_error + (u32 \<times> slac_reader)" where
  "rd_u32le r = ebind (rd_take 4 r) (\<lambda>(b, r). Inr (of_le32 (b ! 0) (b ! 1) (b ! 2) (b ! 3), r))"

definition rd_skip :: "nat \<Rightarrow> slac_reader \<Rightarrow> slac_error + slac_reader" where
  "rd_skip n r = ebind (rd_take n r) (\<lambda>(_, r). Inr r)"

definition rd_profile :: "slac_reader \<Rightarrow> slac_error + slac_reader" where
  "rd_profile r =
     ebind (rd_u8 r) (\<lambda>(application_type, r).
     ebind (rd_u8 r) (\<lambda>(security_type, r).
     if application_type \<noteq> APPLICATION_TYPE_PEV_EVSE \<or> security_type \<noteq> SECURITY_TYPE_NONE
     then Inl (Slac_UnsupportedProfile application_type security_type) else Inr r))"

text \<open>The writer owns exactly the bytes of the message.\<close>

record slac_writer =
  wr_buf :: bytes
  wr_pos :: nat

definition writer_new :: "bytes \<Rightarrow> nat \<Rightarrow> slac_error + slac_writer" where
  "writer_new out len =
     (if len \<le> length out then Inr \<lparr>wr_buf = replicate len 0, wr_pos = 0\<rparr> else Inl Slac_BufferTooSmall)"

text \<open>The length of the message and the caller's buffer with it.\<close>

definition writer_finish :: "bytes \<Rightarrow> slac_writer \<Rightarrow> nat \<times> bytes" where
  "writer_finish out w = (length (wr_buf w), wr_buf w @ drop (length (wr_buf w)) out)"

definition wr_bytes :: "bytes \<Rightarrow> slac_writer \<Rightarrow> slac_writer" where
  "wr_bytes src w =
     w\<lparr>wr_buf := take (wr_pos w) (wr_buf w) @ src @ drop (wr_pos w + length src) (wr_buf w),
       wr_pos := wr_pos w + length src\<rparr>"

definition wr_u8 :: "u8 \<Rightarrow> slac_writer \<Rightarrow> slac_writer" where
  "wr_u8 v w = wr_bytes [v] w"

definition wr_u16le :: "u16 \<Rightarrow> slac_writer \<Rightarrow> slac_writer" where
  "wr_u16le v w = wr_bytes (le16 v) w"

definition wr_u32le :: "u32 \<Rightarrow> slac_writer \<Rightarrow> slac_writer" where
  "wr_u32le v w = wr_bytes (le32 v) w"

definition wr_skip :: "nat \<Rightarrow> slac_writer \<Rightarrow> slac_writer" where
  "wr_skip n w = w\<lparr>wr_pos := wr_pos w + n\<rparr>"

definition wr_profile :: "slac_writer \<Rightarrow> slac_writer" where
  "wr_profile w = wr_u8 SECURITY_TYPE_NONE (wr_u8 APPLICATION_TYPE_PEV_EVSE w)"

text \<open>
  A writer that has written \<open>bs\<close> and has \<open>n\<close> bytes left, and a reader behind \<open>pre\<close> with \<open>rest\<close> to come: on these
  every operation computes, and an operation that fits stays within its buffer.
\<close>

definition written :: "bytes \<Rightarrow> nat \<Rightarrow> slac_writer" where
  "written bs n = \<lparr>wr_buf = bs @ replicate n 0, wr_pos = length bs\<rparr>"

definition reading :: "bytes \<Rightarrow> bytes \<Rightarrow> slac_reader" where
  "reading pre rest = \<lparr>rd_buf = pre @ rest, rd_pos = length pre\<rparr>"

named_theorems cursor_simps \<open>what the cursors compute\<close>

lemma writer_new_written [cursor_simps]:
  "writer_new out len = (if len \<le> length out then Inr (written [] len) else Inl Slac_BufferTooSmall)"
  by (simp add: writer_new_def written_def)

lemma wr_bytes_written [cursor_simps]:
  "length src \<le> n \<Longrightarrow> wr_bytes src (written bs n) = written (bs @ src) (n - length src)"
  by (simp add: wr_bytes_def written_def)

lemma wr_skip_written [cursor_simps]: "k \<le> n \<Longrightarrow> wr_skip k (written bs n) = written (bs @ replicate k 0) (n - k)"
  by (simp add: wr_skip_def written_def replicate_add [symmetric])

lemma writer_finish_written [cursor_simps]: "writer_finish out (written bs 0) = (length bs, bs @ drop (length bs) out)"
  by (simp add: writer_finish_def written_def)

lemma reader_new_reading [cursor_simps]: "reader_new buf = reading [] buf"
  by (simp add: reader_new_def reading_def)

lemma rd_take_reading [cursor_simps]:
  "length xs = n \<Longrightarrow> rd_take n (reading pre (xs @ rest)) = Inr (xs, reading (pre @ xs) rest)"
  by (simp add: rd_take_def reading_def)

lemma rd_skip_reading [cursor_simps]:
  "length xs = n \<Longrightarrow> rd_skip n (reading pre (xs @ rest)) = Inr (reading (pre @ xs) rest)"
  by (simp add: rd_skip_def cursor_simps)

lemma rd_skip_one [cursor_simps]: "rd_skip (Suc 0) (reading pre (v # rest)) = Inr (reading (pre @ [v]) rest)"
  using rd_skip_reading [of "[v]" 1 pre rest] by simp

lemma rd_u8_reading [cursor_simps]: "rd_u8 (reading pre (v # rest)) = Inr (v, reading (pre @ [v]) rest)"
  using rd_take_reading [of "[v]" 1 pre rest] by (simp add: rd_u8_def)

lemma rd_u16le_reading [cursor_simps]:
  "rd_u16le (reading pre (a # b # rest)) = Inr (of_le16 a b, reading (pre @ [a, b]) rest)"
  using rd_take_reading [of "[a, b]" 2 pre rest] by (simp add: rd_u16le_def)

lemma rd_u32le_reading [cursor_simps]:
  "rd_u32le (reading pre (a # b # c # d # rest)) = Inr (of_le32 a b c d, reading (pre @ [a, b, c, d]) rest)"
  using rd_take_reading [of "[a, b, c, d]" 4 pre rest] by (simp add: rd_u32le_def numeral_nat)

lemma rd_profile_reading [cursor_simps]: "rd_profile (reading pre (0 # 0 # rest)) = Inr (reading (pre @ [0, 0]) rest)"
  by (simp add: rd_profile_def cursor_simps APPLICATION_TYPE_PEV_EVSE_def SECURITY_TYPE_NONE_def)

lemma rd_take_length: "rd_take n r = Inr (xs, r') \<Longrightarrow> length xs = n"
  by (auto simp: rd_take_def Let_def split: if_splits)

lemma wr_profile_written [cursor_simps]: "2 \<le> n \<Longrightarrow> wr_profile (written bs n) = written (bs @ [0, 0]) (n - 2)"
  by (simp add: wr_profile_def wr_u8_def cursor_simps numeral_2_eq_2 APPLICATION_TYPE_PEV_EVSE_def SECURITY_TYPE_NONE_def)

lemmas wr_defs = wr_u8_def wr_u16le_def wr_u32le_def

section \<open>The contract of a message\<close>

text \<open>
  \<open>body m\<close> is the layout of the message. A well-formed message is written into any buffer of its length, nothing
  else of which is touched; what was written, followed by any padding, is read back; and what is read is well formed.
\<close>

locale slac_message =
  fixes enc :: "'m \<Rightarrow> bytes \<Rightarrow> slac_error + (nat \<times> bytes)"
    and dec :: "bytes \<Rightarrow> slac_error + 'm"
    and body :: "'m \<Rightarrow> bytes"
    and wf :: "'m \<Rightarrow> bool"
    and len :: nat
  assumes body_length: "wf m \<Longrightarrow> length (body m) = len"
    and enc_body: "wf m \<Longrightarrow> enc m out = (if len \<le> length out then Inr (len, body m @ drop len out) else Inl Slac_BufferTooSmall)"
    and dec_body: "wf m \<Longrightarrow> dec (body m @ pad) = Inr m"
    and dec_wf: "dec payload = Inr m \<Longrightarrow> wf m"
begin

lemma message_roundtrip: "wf m \<Longrightarrow> enc m out = Inr (n, out') \<Longrightarrow> dec (take n out' @ pad) = Inr m"
  by (auto simp: enc_body body_length dec_body split: if_splits)

lemma message_fits: "wf m \<Longrightarrow> len \<le> length out \<Longrightarrow> enc m out = Inr (len, body m @ drop len out)"
  by (simp add: enc_body)

text \<open>A message in a frame: what is written is read back behind the frame.\<close>

lemma framed_roundtrip:
  assumes "wf m" and "enc m buf = Inr (n, buf')"
    and "slac_write_frame out destination source mmv mmtype (take n buf') = Inr (k, out')"
    and "length destination = 6" and "length source = 6" and "wf_mmtype mmtype"
  shows "\<exists>f. slac_parse_frame (take k out') = Inr f \<and> fr_destination f = destination \<and> fr_source f = source
    \<and> fr_mmtype f = mmtype \<and> dec (fr_payload f) = Inr m"
  using slac_frame_roundtrip [OF assms(3-6)] message_roundtrip [OF assms(1,2)] by fastforce

end

section \<open>Messages\<close>

record atten_profile =
  at_num_groups :: u8
  at_aag :: bytes

definition atten_default :: atten_profile where
  "atten_default = \<lparr>at_num_groups = 0, at_aag = replicate AAG_LEN 0\<rparr>"

definition atten_groups :: "atten_profile \<Rightarrow> bytes" where
  "atten_groups p = take (min (unat (at_num_groups p)) AAG_LEN) (at_aag p)"

definition mean_attenuation :: "atten_profile \<Rightarrow> u8 option" where
  "mean_attenuation p =
     (let groups = atten_groups p in
      if groups = [] then None
      else let sum = sum_list (map ucast groups) :: u32 in Some (ucast (sum div of_nat (length groups))))"

definition atten_validate :: "u8 \<Rightarrow> slac_error + unit" where
  "atten_validate num_groups = (if unat num_groups > AAG_LEN then Inl (Slac_TooManyGroups num_groups) else Inr ())"

definition MATCH_REQ_MVF_LENGTH :: u16 where
  "MATCH_REQ_MVF_LENGTH = 0x3E"

definition MATCH_CNF_MVF_LENGTH :: u16 where
  "MATCH_CNF_MVF_LENGTH = 0x56"

definition wf_atten :: "atten_profile \<Rightarrow> bool" where
  "wf_atten p \<longleftrightarrow> unat (at_num_groups p) \<le> AAG_LEN \<and> length (at_aag p) = AAG_LEN"

lemmas message_simps = cursor_simps wr_defs slac_lengths le16_def le32_def MATCH_REQ_MVF_LENGTH_def MATCH_CNF_MVF_LENGTH_def
  wf_atten_def atten_validate_def

record slac_parm_req =
  pq_run_id :: bytes

definition parm_req_encode :: "slac_parm_req \<Rightarrow> bytes \<Rightarrow> slac_error + (nat \<times> bytes)" where
  "parm_req_encode m out =
     ebind (writer_new out 10) (\<lambda>w.
     Inr (writer_finish out
       (wr_bytes (pq_run_id m)
       (wr_profile
       w))))"

definition parm_req_decode :: "bytes \<Rightarrow> slac_error + slac_parm_req" where
  "parm_req_decode payload =
     (let r = reader_new payload in
      ebind (rd_profile r) (\<lambda>r.
      ebind (rd_take RUN_ID_LEN r) (\<lambda>(run_id, r).
      Inr \<lparr>pq_run_id = run_id\<rparr>)))"

definition parm_req_body :: "slac_parm_req \<Rightarrow> bytes" where
  "parm_req_body m =
     [0, 0] @ pq_run_id m"

definition wf_parm_req :: "slac_parm_req \<Rightarrow> bool" where
  "wf_parm_req m \<longleftrightarrow>
     length (pq_run_id m) = RUN_ID_LEN"

interpretation parm_req: slac_message parm_req_encode parm_req_decode parm_req_body wf_parm_req 10
proof
  fix m :: slac_parm_req and out pad :: bytes
  assume m: "wf_parm_req m"
  show "length (parm_req_body m) = 10"
    using m by (simp add: parm_req_body_def wf_parm_req_def message_simps)
  show "parm_req_encode m out = (if 10 \<le> length out then Inr (10, parm_req_body m @ drop 10 out) else Inl Slac_BufferTooSmall)"
    using m by (simp add: parm_req_encode_def parm_req_body_def wf_parm_req_def message_simps)
  show "parm_req_decode (parm_req_body m @ pad) = Inr m"
    using m by (simp add: parm_req_decode_def parm_req_body_def wf_parm_req_def message_simps)
next
  fix payload m assume "parm_req_decode payload = Inr m"
  then show "wf_parm_req m"
    by (auto simp: parm_req_decode_def wf_parm_req_def wf_atten_def atten_validate_def ebind_eq_Inr Let_def split: if_splits dest: rd_take_length)
qed

record slac_parm_cnf =
  pc_m_sound_target :: mac_addr
  pc_num_sounds :: u8
  pc_timeout :: u8
  pc_resp_type :: u8
  pc_forwarding_sta :: mac_addr
  pc_run_id :: bytes

definition parm_cnf_encode :: "slac_parm_cnf \<Rightarrow> bytes \<Rightarrow> slac_error + (nat \<times> bytes)" where
  "parm_cnf_encode m out =
     ebind (writer_new out 25) (\<lambda>w.
     Inr (writer_finish out
       (wr_bytes (pc_run_id m)
       (wr_profile
       (wr_bytes (pc_forwarding_sta m)
       (wr_u8 (pc_resp_type m)
       (wr_u8 (pc_timeout m)
       (wr_u8 (pc_num_sounds m)
       (wr_bytes (pc_m_sound_target m)
       w)))))))))"

definition parm_cnf_decode :: "bytes \<Rightarrow> slac_error + slac_parm_cnf" where
  "parm_cnf_decode payload =
     (let r = reader_new payload in
      ebind (rd_take 6 r) (\<lambda>(m_sound_target, r).
      ebind (rd_u8 r) (\<lambda>(num_sounds, r).
      ebind (rd_u8 r) (\<lambda>(timeout, r).
      ebind (rd_u8 r) (\<lambda>(resp_type, r).
      ebind (rd_take 6 r) (\<lambda>(forwarding_sta, r).
      ebind (rd_profile r) (\<lambda>r.
      ebind (rd_take RUN_ID_LEN r) (\<lambda>(run_id, r).
      Inr \<lparr>pc_m_sound_target = m_sound_target, pc_num_sounds = num_sounds, pc_timeout = timeout, pc_resp_type = resp_type, pc_forwarding_sta = forwarding_sta, pc_run_id = run_id\<rparr>))))))))"

definition parm_cnf_body :: "slac_parm_cnf \<Rightarrow> bytes" where
  "parm_cnf_body m =
     pc_m_sound_target m @ [pc_num_sounds m] @ [pc_timeout m] @ [pc_resp_type m] @ pc_forwarding_sta m @ [0, 0] @ pc_run_id m"

definition wf_parm_cnf :: "slac_parm_cnf \<Rightarrow> bool" where
  "wf_parm_cnf m \<longleftrightarrow>
     length (pc_m_sound_target m) = 6 \<and> length (pc_forwarding_sta m) = 6 \<and> length (pc_run_id m) = RUN_ID_LEN"

interpretation parm_cnf: slac_message parm_cnf_encode parm_cnf_decode parm_cnf_body wf_parm_cnf 25
proof
  fix m :: slac_parm_cnf and out pad :: bytes
  assume m: "wf_parm_cnf m"
  show "length (parm_cnf_body m) = 25"
    using m by (simp add: parm_cnf_body_def wf_parm_cnf_def message_simps)
  show "parm_cnf_encode m out = (if 25 \<le> length out then Inr (25, parm_cnf_body m @ drop 25 out) else Inl Slac_BufferTooSmall)"
    using m by (simp add: parm_cnf_encode_def parm_cnf_body_def wf_parm_cnf_def message_simps)
  show "parm_cnf_decode (parm_cnf_body m @ pad) = Inr m"
    using m by (simp add: parm_cnf_decode_def parm_cnf_body_def wf_parm_cnf_def message_simps)
next
  fix payload m assume "parm_cnf_decode payload = Inr m"
  then show "wf_parm_cnf m"
    by (auto simp: parm_cnf_decode_def wf_parm_cnf_def wf_atten_def atten_validate_def ebind_eq_Inr Let_def split: if_splits dest: rd_take_length)
qed

record slac_start_atten =
  sa_num_sounds :: u8
  sa_timeout :: u8
  sa_resp_type :: u8
  sa_forwarding_sta :: mac_addr
  sa_run_id :: bytes

definition start_atten_encode :: "slac_start_atten \<Rightarrow> bytes \<Rightarrow> slac_error + (nat \<times> bytes)" where
  "start_atten_encode m out =
     ebind (writer_new out 19) (\<lambda>w.
     Inr (writer_finish out
       (wr_bytes (sa_run_id m)
       (wr_bytes (sa_forwarding_sta m)
       (wr_u8 (sa_resp_type m)
       (wr_u8 (sa_timeout m)
       (wr_u8 (sa_num_sounds m)
       (wr_profile
       w))))))))"

definition start_atten_decode :: "bytes \<Rightarrow> slac_error + slac_start_atten" where
  "start_atten_decode payload =
     (let r = reader_new payload in
      ebind (rd_profile r) (\<lambda>r.
      ebind (rd_u8 r) (\<lambda>(num_sounds, r).
      ebind (rd_u8 r) (\<lambda>(timeout, r).
      ebind (rd_u8 r) (\<lambda>(resp_type, r).
      ebind (rd_take 6 r) (\<lambda>(forwarding_sta, r).
      ebind (rd_take RUN_ID_LEN r) (\<lambda>(run_id, r).
      Inr \<lparr>sa_num_sounds = num_sounds, sa_timeout = timeout, sa_resp_type = resp_type, sa_forwarding_sta = forwarding_sta, sa_run_id = run_id\<rparr>)))))))"

definition start_atten_body :: "slac_start_atten \<Rightarrow> bytes" where
  "start_atten_body m =
     [0, 0] @ [sa_num_sounds m] @ [sa_timeout m] @ [sa_resp_type m] @ sa_forwarding_sta m @ sa_run_id m"

definition wf_start_atten :: "slac_start_atten \<Rightarrow> bool" where
  "wf_start_atten m \<longleftrightarrow>
     length (sa_forwarding_sta m) = 6 \<and> length (sa_run_id m) = RUN_ID_LEN"

interpretation start_atten: slac_message start_atten_encode start_atten_decode start_atten_body wf_start_atten 19
proof
  fix m :: slac_start_atten and out pad :: bytes
  assume m: "wf_start_atten m"
  show "length (start_atten_body m) = 19"
    using m by (simp add: start_atten_body_def wf_start_atten_def message_simps)
  show "start_atten_encode m out = (if 19 \<le> length out then Inr (19, start_atten_body m @ drop 19 out) else Inl Slac_BufferTooSmall)"
    using m by (simp add: start_atten_encode_def start_atten_body_def wf_start_atten_def message_simps)
  show "start_atten_decode (start_atten_body m @ pad) = Inr m"
    using m by (simp add: start_atten_decode_def start_atten_body_def wf_start_atten_def message_simps)
next
  fix payload m assume "start_atten_decode payload = Inr m"
  then show "wf_start_atten m"
    by (auto simp: start_atten_decode_def wf_start_atten_def wf_atten_def atten_validate_def ebind_eq_Inr Let_def split: if_splits dest: rd_take_length)
qed

record slac_mnbc_sound =
  ms_sender_id :: bytes
  ms_remaining :: u8
  ms_run_id :: bytes
  ms_random :: bytes

definition mnbc_sound_encode :: "slac_mnbc_sound \<Rightarrow> bytes \<Rightarrow> slac_error + (nat \<times> bytes)" where
  "mnbc_sound_encode m out =
     ebind (writer_new out 52) (\<lambda>w.
     Inr (writer_finish out
       (wr_bytes (ms_random m)
       (wr_skip 8
       (wr_bytes (ms_run_id m)
       (wr_u8 (ms_remaining m)
       (wr_bytes (ms_sender_id m)
       (wr_profile
       w))))))))"

definition mnbc_sound_decode :: "bytes \<Rightarrow> slac_error + slac_mnbc_sound" where
  "mnbc_sound_decode payload =
     (let r = reader_new payload in
      ebind (rd_profile r) (\<lambda>r.
      ebind (rd_take STATION_ID_LEN r) (\<lambda>(sender_id, r).
      ebind (rd_u8 r) (\<lambda>(remaining, r).
      ebind (rd_take RUN_ID_LEN r) (\<lambda>(run_id, r).
      ebind (rd_skip 8 r) (\<lambda>r.
      ebind (rd_take 16 r) (\<lambda>(random, r).
      Inr \<lparr>ms_sender_id = sender_id, ms_remaining = remaining, ms_run_id = run_id, ms_random = random\<rparr>)))))))"

definition mnbc_sound_body :: "slac_mnbc_sound \<Rightarrow> bytes" where
  "mnbc_sound_body m =
     [0, 0] @ ms_sender_id m @ [ms_remaining m] @ ms_run_id m @ replicate 8 0 @ ms_random m"

definition wf_mnbc_sound :: "slac_mnbc_sound \<Rightarrow> bool" where
  "wf_mnbc_sound m \<longleftrightarrow>
     length (ms_sender_id m) = STATION_ID_LEN \<and> length (ms_run_id m) = RUN_ID_LEN \<and> length (ms_random m) = 16"

interpretation mnbc_sound: slac_message mnbc_sound_encode mnbc_sound_decode mnbc_sound_body wf_mnbc_sound 52
proof
  fix m :: slac_mnbc_sound and out pad :: bytes
  assume m: "wf_mnbc_sound m"
  show "length (mnbc_sound_body m) = 52"
    using m by (simp add: mnbc_sound_body_def wf_mnbc_sound_def message_simps)
  show "mnbc_sound_encode m out = (if 52 \<le> length out then Inr (52, mnbc_sound_body m @ drop 52 out) else Inl Slac_BufferTooSmall)"
    using m by (simp add: mnbc_sound_encode_def mnbc_sound_body_def wf_mnbc_sound_def message_simps)
  show "mnbc_sound_decode (mnbc_sound_body m @ pad) = Inr m"
    using m by (simp add: mnbc_sound_decode_def mnbc_sound_body_def wf_mnbc_sound_def message_simps)
next
  fix payload m assume "mnbc_sound_decode payload = Inr m"
  then show "wf_mnbc_sound m"
    by (auto simp: mnbc_sound_decode_def wf_mnbc_sound_def wf_atten_def atten_validate_def ebind_eq_Inr Let_def split: if_splits dest: rd_take_length)
qed

record slac_atten_ind =
  ai_source_address :: mac_addr
  ai_run_id :: bytes
  ai_source_id :: bytes
  ai_resp_id :: bytes
  ai_num_sounds :: u8
  ai_profile :: atten_profile

definition atten_ind_encode :: "slac_atten_ind \<Rightarrow> bytes \<Rightarrow> slac_error + (nat \<times> bytes)" where
  "atten_ind_encode m out =
     ebind (atten_validate (at_num_groups (ai_profile m))) (\<lambda>_.
     ebind (writer_new out 110) (\<lambda>w.
     Inr (writer_finish out
       (wr_bytes (at_aag (ai_profile m))
       (wr_u8 (at_num_groups (ai_profile m))
       (wr_u8 (ai_num_sounds m)
       (wr_bytes (ai_resp_id m)
       (wr_bytes (ai_source_id m)
       (wr_bytes (ai_run_id m)
       (wr_bytes (ai_source_address m)
       (wr_profile
       w)))))))))))"

definition atten_ind_decode :: "bytes \<Rightarrow> slac_error + slac_atten_ind" where
  "atten_ind_decode payload =
     (let r = reader_new payload in
      ebind (rd_profile r) (\<lambda>r.
      ebind (rd_take 6 r) (\<lambda>(source_address, r).
      ebind (rd_take RUN_ID_LEN r) (\<lambda>(run_id, r).
      ebind (rd_take STATION_ID_LEN r) (\<lambda>(source_id, r).
      ebind (rd_take STATION_ID_LEN r) (\<lambda>(resp_id, r).
      ebind (rd_u8 r) (\<lambda>(num_sounds, r).
      ebind (rd_u8 r) (\<lambda>(num_groups, r).
      ebind (atten_validate num_groups) (\<lambda>_.
      ebind (rd_take AAG_LEN r) (\<lambda>(aag, r).
      Inr \<lparr>ai_source_address = source_address, ai_run_id = run_id, ai_source_id = source_id, ai_resp_id = resp_id, ai_num_sounds = num_sounds, ai_profile = \<lparr>at_num_groups = num_groups, at_aag = aag\<rparr>\<rparr>))))))))))"

definition atten_ind_body :: "slac_atten_ind \<Rightarrow> bytes" where
  "atten_ind_body m =
     [0, 0] @ ai_source_address m @ ai_run_id m @ ai_source_id m @ ai_resp_id m @ [ai_num_sounds m] @ [at_num_groups (ai_profile m)] @ at_aag (ai_profile m)"

definition wf_atten_ind :: "slac_atten_ind \<Rightarrow> bool" where
  "wf_atten_ind m \<longleftrightarrow>
     length (ai_source_address m) = 6 \<and> length (ai_run_id m) = RUN_ID_LEN \<and> length (ai_source_id m) = STATION_ID_LEN \<and> length (ai_resp_id m) = STATION_ID_LEN \<and> wf_atten (ai_profile m)"

interpretation atten_ind: slac_message atten_ind_encode atten_ind_decode atten_ind_body wf_atten_ind 110
proof
  fix m :: slac_atten_ind and out pad :: bytes
  assume m: "wf_atten_ind m"
  show "length (atten_ind_body m) = 110"
    using m by (simp add: atten_ind_body_def wf_atten_ind_def message_simps)
  show "atten_ind_encode m out = (if 110 \<le> length out then Inr (110, atten_ind_body m @ drop 110 out) else Inl Slac_BufferTooSmall)"
    using m by (simp add: atten_ind_encode_def atten_ind_body_def wf_atten_ind_def message_simps)
  show "atten_ind_decode (atten_ind_body m @ pad) = Inr m"
    using m by (simp add: atten_ind_decode_def atten_ind_body_def wf_atten_ind_def message_simps)
next
  fix payload m assume "atten_ind_decode payload = Inr m"
  then show "wf_atten_ind m"
    by (auto simp: atten_ind_decode_def wf_atten_ind_def wf_atten_def atten_validate_def ebind_eq_Inr Let_def split: if_splits dest: rd_take_length)
qed

record slac_atten_rsp =
  ar_source_address :: mac_addr
  ar_run_id :: bytes
  ar_source_id :: bytes
  ar_resp_id :: bytes
  ar_result :: u8

definition atten_rsp_encode :: "slac_atten_rsp \<Rightarrow> bytes \<Rightarrow> slac_error + (nat \<times> bytes)" where
  "atten_rsp_encode m out =
     ebind (writer_new out 51) (\<lambda>w.
     Inr (writer_finish out
       (wr_u8 (ar_result m)
       (wr_bytes (ar_resp_id m)
       (wr_bytes (ar_source_id m)
       (wr_bytes (ar_run_id m)
       (wr_bytes (ar_source_address m)
       (wr_profile
       w))))))))"

definition atten_rsp_decode :: "bytes \<Rightarrow> slac_error + slac_atten_rsp" where
  "atten_rsp_decode payload =
     (let r = reader_new payload in
      ebind (rd_profile r) (\<lambda>r.
      ebind (rd_take 6 r) (\<lambda>(source_address, r).
      ebind (rd_take RUN_ID_LEN r) (\<lambda>(run_id, r).
      ebind (rd_take STATION_ID_LEN r) (\<lambda>(source_id, r).
      ebind (rd_take STATION_ID_LEN r) (\<lambda>(resp_id, r).
      ebind (rd_u8 r) (\<lambda>(result, r).
      Inr \<lparr>ar_source_address = source_address, ar_run_id = run_id, ar_source_id = source_id, ar_resp_id = resp_id, ar_result = result\<rparr>)))))))"

definition atten_rsp_body :: "slac_atten_rsp \<Rightarrow> bytes" where
  "atten_rsp_body m =
     [0, 0] @ ar_source_address m @ ar_run_id m @ ar_source_id m @ ar_resp_id m @ [ar_result m]"

definition wf_atten_rsp :: "slac_atten_rsp \<Rightarrow> bool" where
  "wf_atten_rsp m \<longleftrightarrow>
     length (ar_source_address m) = 6 \<and> length (ar_run_id m) = RUN_ID_LEN \<and> length (ar_source_id m) = STATION_ID_LEN \<and> length (ar_resp_id m) = STATION_ID_LEN"

interpretation atten_rsp: slac_message atten_rsp_encode atten_rsp_decode atten_rsp_body wf_atten_rsp 51
proof
  fix m :: slac_atten_rsp and out pad :: bytes
  assume m: "wf_atten_rsp m"
  show "length (atten_rsp_body m) = 51"
    using m by (simp add: atten_rsp_body_def wf_atten_rsp_def message_simps)
  show "atten_rsp_encode m out = (if 51 \<le> length out then Inr (51, atten_rsp_body m @ drop 51 out) else Inl Slac_BufferTooSmall)"
    using m by (simp add: atten_rsp_encode_def atten_rsp_body_def wf_atten_rsp_def message_simps)
  show "atten_rsp_decode (atten_rsp_body m @ pad) = Inr m"
    using m by (simp add: atten_rsp_decode_def atten_rsp_body_def wf_atten_rsp_def message_simps)
next
  fix payload m assume "atten_rsp_decode payload = Inr m"
  then show "wf_atten_rsp m"
    by (auto simp: atten_rsp_decode_def wf_atten_rsp_def wf_atten_def atten_validate_def ebind_eq_Inr Let_def split: if_splits dest: rd_take_length)
qed

record slac_profile_ind =
  pi_pev_mac :: mac_addr
  pi_profile :: atten_profile

definition profile_ind_encode :: "slac_profile_ind \<Rightarrow> bytes \<Rightarrow> slac_error + (nat \<times> bytes)" where
  "profile_ind_encode m out =
     ebind (atten_validate (at_num_groups (pi_profile m))) (\<lambda>_.
     ebind (writer_new out 66) (\<lambda>w.
     Inr (writer_finish out
       (wr_bytes (at_aag (pi_profile m))
       (wr_skip 1
       (wr_u8 (at_num_groups (pi_profile m))
       (wr_bytes (pi_pev_mac m)
       w)))))))"

definition profile_ind_decode :: "bytes \<Rightarrow> slac_error + slac_profile_ind" where
  "profile_ind_decode payload =
     (let r = reader_new payload in
      ebind (rd_take 6 r) (\<lambda>(pev_mac, r).
      ebind (rd_u8 r) (\<lambda>(num_groups, r).
      ebind (rd_skip 1 r) (\<lambda>r.
      ebind (atten_validate num_groups) (\<lambda>_.
      ebind (rd_take AAG_LEN r) (\<lambda>(aag, r).
      Inr \<lparr>pi_pev_mac = pev_mac, pi_profile = \<lparr>at_num_groups = num_groups, at_aag = aag\<rparr>\<rparr>))))))"

definition profile_ind_body :: "slac_profile_ind \<Rightarrow> bytes" where
  "profile_ind_body m =
     pi_pev_mac m @ [at_num_groups (pi_profile m)] @ [0] @ at_aag (pi_profile m)"

definition wf_profile_ind :: "slac_profile_ind \<Rightarrow> bool" where
  "wf_profile_ind m \<longleftrightarrow>
     length (pi_pev_mac m) = 6 \<and> wf_atten (pi_profile m)"

interpretation profile_ind: slac_message profile_ind_encode profile_ind_decode profile_ind_body wf_profile_ind 66
proof
  fix m :: slac_profile_ind and out pad :: bytes
  assume m: "wf_profile_ind m"
  show "length (profile_ind_body m) = 66"
    using m by (simp add: profile_ind_body_def wf_profile_ind_def message_simps)
  show "profile_ind_encode m out = (if 66 \<le> length out then Inr (66, profile_ind_body m @ drop 66 out) else Inl Slac_BufferTooSmall)"
    using m by (simp add: profile_ind_encode_def profile_ind_body_def wf_profile_ind_def message_simps)
  show "profile_ind_decode (profile_ind_body m @ pad) = Inr m"
    using m by (simp add: profile_ind_decode_def profile_ind_body_def wf_profile_ind_def message_simps)
next
  fix payload m assume "profile_ind_decode payload = Inr m"
  then show "wf_profile_ind m"
    by (auto simp: profile_ind_decode_def wf_profile_ind_def wf_atten_def atten_validate_def ebind_eq_Inr Let_def split: if_splits dest: rd_take_length)
qed

record slac_match_req =
  mq_pev_id :: bytes
  mq_pev_mac :: mac_addr
  mq_evse_id :: bytes
  mq_evse_mac :: mac_addr
  mq_run_id :: bytes

definition match_req_encode :: "slac_match_req \<Rightarrow> bytes \<Rightarrow> slac_error + (nat \<times> bytes)" where
  "match_req_encode m out =
     ebind (writer_new out 66) (\<lambda>w.
     Inr (writer_finish out
       (wr_skip 8
       (wr_bytes (mq_run_id m)
       (wr_bytes (mq_evse_mac m)
       (wr_bytes (mq_evse_id m)
       (wr_bytes (mq_pev_mac m)
       (wr_bytes (mq_pev_id m)
       (wr_u16le MATCH_REQ_MVF_LENGTH
       (wr_profile
       w))))))))))"

definition match_req_decode :: "bytes \<Rightarrow> slac_error + slac_match_req" where
  "match_req_decode payload =
     (let r = reader_new payload in
      ebind (rd_profile r) (\<lambda>r.
      ebind (rd_u16le r) (\<lambda>(mvf, r).
      if mvf \<noteq> MATCH_REQ_MVF_LENGTH then Inl (Slac_BadLength (unat mvf) (unat MATCH_REQ_MVF_LENGTH)) else
      ebind (rd_take STATION_ID_LEN r) (\<lambda>(pev_id, r).
      ebind (rd_take 6 r) (\<lambda>(pev_mac, r).
      ebind (rd_take STATION_ID_LEN r) (\<lambda>(evse_id, r).
      ebind (rd_take 6 r) (\<lambda>(evse_mac, r).
      ebind (rd_take RUN_ID_LEN r) (\<lambda>(run_id, r).
      Inr \<lparr>mq_pev_id = pev_id, mq_pev_mac = pev_mac, mq_evse_id = evse_id, mq_evse_mac = evse_mac, mq_run_id = run_id\<rparr>))))))))"

definition match_req_body :: "slac_match_req \<Rightarrow> bytes" where
  "match_req_body m =
     [0, 0] @ le16 MATCH_REQ_MVF_LENGTH @ mq_pev_id m @ mq_pev_mac m @ mq_evse_id m @ mq_evse_mac m @ mq_run_id m @ replicate 8 0"

definition wf_match_req :: "slac_match_req \<Rightarrow> bool" where
  "wf_match_req m \<longleftrightarrow>
     length (mq_pev_id m) = STATION_ID_LEN \<and> length (mq_pev_mac m) = 6 \<and> length (mq_evse_id m) = STATION_ID_LEN \<and> length (mq_evse_mac m) = 6 \<and> length (mq_run_id m) = RUN_ID_LEN"

interpretation match_req: slac_message match_req_encode match_req_decode match_req_body wf_match_req 66
proof
  fix m :: slac_match_req and out pad :: bytes
  assume m: "wf_match_req m"
  show "length (match_req_body m) = 66"
    using m by (simp add: match_req_body_def wf_match_req_def message_simps)
  show "match_req_encode m out = (if 66 \<le> length out then Inr (66, match_req_body m @ drop 66 out) else Inl Slac_BufferTooSmall)"
    using m by (simp add: match_req_encode_def match_req_body_def wf_match_req_def message_simps)
  show "match_req_decode (match_req_body m @ pad) = Inr m"
    using m by (simp add: match_req_decode_def match_req_body_def wf_match_req_def message_simps)
next
  fix payload m assume "match_req_decode payload = Inr m"
  then show "wf_match_req m"
    by (auto simp: match_req_decode_def wf_match_req_def wf_atten_def atten_validate_def ebind_eq_Inr Let_def split: if_splits dest: rd_take_length)
qed

record slac_match_cnf =
  mc_pev_id :: bytes
  mc_pev_mac :: mac_addr
  mc_evse_id :: bytes
  mc_evse_mac :: mac_addr
  mc_run_id :: bytes
  mc_nid :: bytes
  mc_nmk :: bytes

definition match_cnf_encode :: "slac_match_cnf \<Rightarrow> bytes \<Rightarrow> slac_error + (nat \<times> bytes)" where
  "match_cnf_encode m out =
     ebind (writer_new out 90) (\<lambda>w.
     Inr (writer_finish out
       (wr_bytes (mc_nmk m)
       (wr_skip 1
       (wr_bytes (mc_nid m)
       (wr_skip 8
       (wr_bytes (mc_run_id m)
       (wr_bytes (mc_evse_mac m)
       (wr_bytes (mc_evse_id m)
       (wr_bytes (mc_pev_mac m)
       (wr_bytes (mc_pev_id m)
       (wr_u16le MATCH_CNF_MVF_LENGTH
       (wr_profile
       w)))))))))))))"

definition match_cnf_decode :: "bytes \<Rightarrow> slac_error + slac_match_cnf" where
  "match_cnf_decode payload =
     (let r = reader_new payload in
      ebind (rd_profile r) (\<lambda>r.
      ebind (rd_u16le r) (\<lambda>(mvf, r).
      if mvf \<noteq> MATCH_CNF_MVF_LENGTH then Inl (Slac_BadLength (unat mvf) (unat MATCH_CNF_MVF_LENGTH)) else
      ebind (rd_take STATION_ID_LEN r) (\<lambda>(pev_id, r).
      ebind (rd_take 6 r) (\<lambda>(pev_mac, r).
      ebind (rd_take STATION_ID_LEN r) (\<lambda>(evse_id, r).
      ebind (rd_take 6 r) (\<lambda>(evse_mac, r).
      ebind (rd_take RUN_ID_LEN r) (\<lambda>(run_id, r).
      ebind (rd_skip 8 r) (\<lambda>r.
      ebind (rd_take NID_LEN r) (\<lambda>(nid, r).
      ebind (rd_skip 1 r) (\<lambda>r.
      ebind (rd_take NMK_LEN r) (\<lambda>(nmk, r).
      Inr \<lparr>mc_pev_id = pev_id, mc_pev_mac = pev_mac, mc_evse_id = evse_id, mc_evse_mac = evse_mac, mc_run_id = run_id, mc_nid = nid, mc_nmk = nmk\<rparr>))))))))))))"

definition match_cnf_body :: "slac_match_cnf \<Rightarrow> bytes" where
  "match_cnf_body m =
     [0, 0] @ le16 MATCH_CNF_MVF_LENGTH @ mc_pev_id m @ mc_pev_mac m @ mc_evse_id m @ mc_evse_mac m @ mc_run_id m @ replicate 8 0 @ mc_nid m @ replicate 1 0 @ mc_nmk m"

definition wf_match_cnf :: "slac_match_cnf \<Rightarrow> bool" where
  "wf_match_cnf m \<longleftrightarrow>
     length (mc_pev_id m) = STATION_ID_LEN \<and> length (mc_pev_mac m) = 6 \<and> length (mc_evse_id m) = STATION_ID_LEN \<and> length (mc_evse_mac m) = 6 \<and> length (mc_run_id m) = RUN_ID_LEN \<and> length (mc_nid m) = NID_LEN \<and> length (mc_nmk m) = NMK_LEN"

interpretation match_cnf: slac_message match_cnf_encode match_cnf_decode match_cnf_body wf_match_cnf 90
proof
  fix m :: slac_match_cnf and out pad :: bytes
  assume m: "wf_match_cnf m"
  show "length (match_cnf_body m) = 90"
    using m by (simp add: match_cnf_body_def wf_match_cnf_def message_simps)
  show "match_cnf_encode m out = (if 90 \<le> length out then Inr (90, match_cnf_body m @ drop 90 out) else Inl Slac_BufferTooSmall)"
    using m by (simp add: match_cnf_encode_def match_cnf_body_def wf_match_cnf_def message_simps)
  show "match_cnf_decode (match_cnf_body m @ pad) = Inr m"
    using m by (simp add: match_cnf_decode_def match_cnf_body_def wf_match_cnf_def message_simps)
next
  fix payload m assume "match_cnf_decode payload = Inr m"
  then show "wf_match_cnf m"
    by (auto simp: match_cnf_decode_def wf_match_cnf_def wf_atten_def atten_validate_def ebind_eq_Inr Let_def split: if_splits dest: rd_take_length)
qed

record slac_validate_req =
  vq_signal_type :: u8
  vq_timer :: u8
  vq_result :: u8

definition validate_req_encode :: "slac_validate_req \<Rightarrow> bytes \<Rightarrow> slac_error + (nat \<times> bytes)" where
  "validate_req_encode m out =
     ebind (writer_new out 3) (\<lambda>w.
     Inr (writer_finish out
       (wr_u8 (vq_result m)
       (wr_u8 (vq_timer m)
       (wr_u8 (vq_signal_type m)
       w)))))"

definition validate_req_decode :: "bytes \<Rightarrow> slac_error + slac_validate_req" where
  "validate_req_decode payload =
     (let r = reader_new payload in
      ebind (rd_u8 r) (\<lambda>(signal_type, r).
      ebind (rd_u8 r) (\<lambda>(timer, r).
      ebind (rd_u8 r) (\<lambda>(result, r).
      Inr \<lparr>vq_signal_type = signal_type, vq_timer = timer, vq_result = result\<rparr>))))"

definition validate_req_body :: "slac_validate_req \<Rightarrow> bytes" where
  "validate_req_body m =
     [vq_signal_type m] @ [vq_timer m] @ [vq_result m]"

definition wf_validate_req :: "slac_validate_req \<Rightarrow> bool" where
  "wf_validate_req m \<longleftrightarrow>
     True"

interpretation validate_req: slac_message validate_req_encode validate_req_decode validate_req_body wf_validate_req 3
proof
  fix m :: slac_validate_req and out pad :: bytes
  assume m: "wf_validate_req m"
  show "length (validate_req_body m) = 3"
    using m by (simp add: validate_req_body_def wf_validate_req_def message_simps)
  show "validate_req_encode m out = (if 3 \<le> length out then Inr (3, validate_req_body m @ drop 3 out) else Inl Slac_BufferTooSmall)"
    using m by (simp add: validate_req_encode_def validate_req_body_def wf_validate_req_def message_simps eval_nat_numeral)
  show "validate_req_decode (validate_req_body m @ pad) = Inr m"
    using m by (simp add: validate_req_decode_def validate_req_body_def wf_validate_req_def message_simps)
next
  fix payload m assume "validate_req_decode payload = Inr m"
  then show "wf_validate_req m"
    by (auto simp: validate_req_decode_def wf_validate_req_def wf_atten_def atten_validate_def ebind_eq_Inr Let_def split: if_splits dest: rd_take_length)
qed

record slac_validate_cnf =
  vc_signal_type :: u8
  vc_toggle_num :: u8
  vc_result :: u8

definition validate_cnf_encode :: "slac_validate_cnf \<Rightarrow> bytes \<Rightarrow> slac_error + (nat \<times> bytes)" where
  "validate_cnf_encode m out =
     ebind (writer_new out 3) (\<lambda>w.
     Inr (writer_finish out
       (wr_u8 (vc_result m)
       (wr_u8 (vc_toggle_num m)
       (wr_u8 (vc_signal_type m)
       w)))))"

definition validate_cnf_decode :: "bytes \<Rightarrow> slac_error + slac_validate_cnf" where
  "validate_cnf_decode payload =
     (let r = reader_new payload in
      ebind (rd_u8 r) (\<lambda>(signal_type, r).
      ebind (rd_u8 r) (\<lambda>(toggle_num, r).
      ebind (rd_u8 r) (\<lambda>(result, r).
      Inr \<lparr>vc_signal_type = signal_type, vc_toggle_num = toggle_num, vc_result = result\<rparr>))))"

definition validate_cnf_body :: "slac_validate_cnf \<Rightarrow> bytes" where
  "validate_cnf_body m =
     [vc_signal_type m] @ [vc_toggle_num m] @ [vc_result m]"

definition wf_validate_cnf :: "slac_validate_cnf \<Rightarrow> bool" where
  "wf_validate_cnf m \<longleftrightarrow>
     True"

interpretation validate_cnf: slac_message validate_cnf_encode validate_cnf_decode validate_cnf_body wf_validate_cnf 3
proof
  fix m :: slac_validate_cnf and out pad :: bytes
  assume m: "wf_validate_cnf m"
  show "length (validate_cnf_body m) = 3"
    using m by (simp add: validate_cnf_body_def wf_validate_cnf_def message_simps)
  show "validate_cnf_encode m out = (if 3 \<le> length out then Inr (3, validate_cnf_body m @ drop 3 out) else Inl Slac_BufferTooSmall)"
    using m by (simp add: validate_cnf_encode_def validate_cnf_body_def wf_validate_cnf_def message_simps eval_nat_numeral)
  show "validate_cnf_decode (validate_cnf_body m @ pad) = Inr m"
    using m by (simp add: validate_cnf_decode_def validate_cnf_body_def wf_validate_cnf_def message_simps)
next
  fix payload m assume "validate_cnf_decode payload = Inr m"
  then show "wf_validate_cnf m"
    by (auto simp: validate_cnf_decode_def wf_validate_cnf_def wf_atten_def atten_validate_def ebind_eq_Inr Let_def split: if_splits dest: rd_take_length)
qed

record slac_set_key_req =
  kq_key_type :: u8
  kq_my_nonce :: u32
  kq_your_nonce :: u32
  kq_pid :: u8
  kq_prn :: u16
  kq_pmn :: u8
  kq_cco_capability :: u8
  kq_nid :: bytes
  kq_new_eks :: u8
  kq_new_key :: bytes

definition set_key_req_encode :: "slac_set_key_req \<Rightarrow> bytes \<Rightarrow> slac_error + (nat \<times> bytes)" where
  "set_key_req_encode m out =
     ebind (writer_new out 38) (\<lambda>w.
     Inr (writer_finish out
       (wr_bytes (kq_new_key m)
       (wr_u8 (kq_new_eks m)
       (wr_bytes (kq_nid m)
       (wr_u8 (kq_cco_capability m)
       (wr_u8 (kq_pmn m)
       (wr_u16le (kq_prn m)
       (wr_u8 (kq_pid m)
       (wr_u32le (kq_your_nonce m)
       (wr_u32le (kq_my_nonce m)
       (wr_u8 (kq_key_type m)
       w))))))))))))"

definition set_key_req_decode :: "bytes \<Rightarrow> slac_error + slac_set_key_req" where
  "set_key_req_decode payload =
     (let r = reader_new payload in
      ebind (rd_u8 r) (\<lambda>(key_type, r).
      ebind (rd_u32le r) (\<lambda>(my_nonce, r).
      ebind (rd_u32le r) (\<lambda>(your_nonce, r).
      ebind (rd_u8 r) (\<lambda>(pid, r).
      ebind (rd_u16le r) (\<lambda>(prn, r).
      ebind (rd_u8 r) (\<lambda>(pmn, r).
      ebind (rd_u8 r) (\<lambda>(cco_capability, r).
      ebind (rd_take NID_LEN r) (\<lambda>(nid, r).
      ebind (rd_u8 r) (\<lambda>(new_eks, r).
      ebind (rd_take NMK_LEN r) (\<lambda>(new_key, r).
      Inr \<lparr>kq_key_type = key_type, kq_my_nonce = my_nonce, kq_your_nonce = your_nonce, kq_pid = pid, kq_prn = prn, kq_pmn = pmn, kq_cco_capability = cco_capability, kq_nid = nid, kq_new_eks = new_eks, kq_new_key = new_key\<rparr>)))))))))))"

definition set_key_req_body :: "slac_set_key_req \<Rightarrow> bytes" where
  "set_key_req_body m =
     [kq_key_type m] @ le32 (kq_my_nonce m) @ le32 (kq_your_nonce m) @ [kq_pid m] @ le16 (kq_prn m) @ [kq_pmn m] @ [kq_cco_capability m] @ kq_nid m @ [kq_new_eks m] @ kq_new_key m"

definition wf_set_key_req :: "slac_set_key_req \<Rightarrow> bool" where
  "wf_set_key_req m \<longleftrightarrow>
     length (kq_nid m) = NID_LEN \<and> length (kq_new_key m) = NMK_LEN"

interpretation set_key_req: slac_message set_key_req_encode set_key_req_decode set_key_req_body wf_set_key_req 38
proof
  fix m :: slac_set_key_req and out pad :: bytes
  assume m: "wf_set_key_req m"
  show "length (set_key_req_body m) = 38"
    using m by (simp add: set_key_req_body_def wf_set_key_req_def message_simps)
  show "set_key_req_encode m out = (if 38 \<le> length out then Inr (38, set_key_req_body m @ drop 38 out) else Inl Slac_BufferTooSmall)"
    using m by (simp add: set_key_req_encode_def set_key_req_body_def wf_set_key_req_def message_simps)
  show "set_key_req_decode (set_key_req_body m @ pad) = Inr m"
    using m by (simp add: set_key_req_decode_def set_key_req_body_def wf_set_key_req_def message_simps)
next
  fix payload m assume "set_key_req_decode payload = Inr m"
  then show "wf_set_key_req m"
    by (auto simp: set_key_req_decode_def wf_set_key_req_def wf_atten_def atten_validate_def ebind_eq_Inr Let_def split: if_splits dest: rd_take_length)
qed

record slac_set_key_cnf =
  kc_result :: u8
  kc_my_nonce :: u32
  kc_your_nonce :: u32
  kc_pid :: u8
  kc_prn :: u16
  kc_pmn :: u8
  kc_cco_capability :: u8

definition set_key_cnf_encode :: "slac_set_key_cnf \<Rightarrow> bytes \<Rightarrow> slac_error + (nat \<times> bytes)" where
  "set_key_cnf_encode m out =
     ebind (writer_new out 14) (\<lambda>w.
     Inr (writer_finish out
       (wr_u8 (kc_cco_capability m)
       (wr_u8 (kc_pmn m)
       (wr_u16le (kc_prn m)
       (wr_u8 (kc_pid m)
       (wr_u32le (kc_your_nonce m)
       (wr_u32le (kc_my_nonce m)
       (wr_u8 (kc_result m)
       w)))))))))"

definition set_key_cnf_decode :: "bytes \<Rightarrow> slac_error + slac_set_key_cnf" where
  "set_key_cnf_decode payload =
     (let r = reader_new payload in
      ebind (rd_u8 r) (\<lambda>(result, r).
      ebind (rd_u32le r) (\<lambda>(my_nonce, r).
      ebind (rd_u32le r) (\<lambda>(your_nonce, r).
      ebind (rd_u8 r) (\<lambda>(pid, r).
      ebind (rd_u16le r) (\<lambda>(prn, r).
      ebind (rd_u8 r) (\<lambda>(pmn, r).
      ebind (rd_u8 r) (\<lambda>(cco_capability, r).
      Inr \<lparr>kc_result = result, kc_my_nonce = my_nonce, kc_your_nonce = your_nonce, kc_pid = pid, kc_prn = prn, kc_pmn = pmn, kc_cco_capability = cco_capability\<rparr>))))))))"

definition set_key_cnf_body :: "slac_set_key_cnf \<Rightarrow> bytes" where
  "set_key_cnf_body m =
     [kc_result m] @ le32 (kc_my_nonce m) @ le32 (kc_your_nonce m) @ [kc_pid m] @ le16 (kc_prn m) @ [kc_pmn m] @ [kc_cco_capability m]"

definition wf_set_key_cnf :: "slac_set_key_cnf \<Rightarrow> bool" where
  "wf_set_key_cnf m \<longleftrightarrow>
     True"

interpretation set_key_cnf: slac_message set_key_cnf_encode set_key_cnf_decode set_key_cnf_body wf_set_key_cnf 14
proof
  fix m :: slac_set_key_cnf and out pad :: bytes
  assume m: "wf_set_key_cnf m"
  show "length (set_key_cnf_body m) = 14"
    using m by (simp add: set_key_cnf_body_def wf_set_key_cnf_def message_simps)
  show "set_key_cnf_encode m out = (if 14 \<le> length out then Inr (14, set_key_cnf_body m @ drop 14 out) else Inl Slac_BufferTooSmall)"
    using m by (simp add: set_key_cnf_encode_def set_key_cnf_body_def wf_set_key_cnf_def message_simps eval_nat_numeral)
  show "set_key_cnf_decode (set_key_cnf_body m @ pad) = Inr m"
    using m by (simp add: set_key_cnf_decode_def set_key_cnf_body_def wf_set_key_cnf_def message_simps)
next
  fix payload m assume "set_key_cnf_decode payload = Inr m"
  then show "wf_set_key_cnf m"
    by (auto simp: set_key_cnf_decode_def wf_set_key_cnf_def wf_atten_def atten_validate_def ebind_eq_Inr Let_def split: if_splits dest: rd_take_length)
qed

end
