(* ===== verification/Slac_Matching.thy ===== *)
theory Slac_Matching
  imports Slac_Messages Timers
begin

text \<open>
  The SLAC matching run, \<open>src/src/slac/matching.rs\<close>: which of the stations on a powerline medium is this cable
  plugged into? The engines of the station and of the vehicle, frame by frame.
\<close>

section \<open>What both engines share\<close>

definition C_EV_START_ATTEN_CHAR_INDS :: u8 where
  "C_EV_START_ATTEN_CHAR_INDS = 3"

definition C_EV_MATCH_MNBC :: u8 where
  "C_EV_MATCH_MNBC = 10"

definition TP_EV_BATCH_MSG_INTERVAL_MS :: millis where
  "TP_EV_BATCH_MSG_INTERVAL_MS = 40"

definition TT_EV_ATTEN_RESULTS_MS :: millis where
  "TT_EV_ATTEN_RESULTS_MS = 1200"

definition TT_EVSE_MATCH_MNBC_MS :: millis where
  "TT_EVSE_MATCH_MNBC_MS = 600"

definition TT_MATCH_RESPONSE_MS :: millis where
  "TT_MATCH_RESPONSE_MS = 200"

definition TT_EVSE_MATCH_SESSION_MS :: millis where
  "TT_EVSE_MATCH_SESSION_MS = 10000"

definition TT_MATCH_JOIN_MS :: millis where
  "TT_MATCH_JOIN_MS = 12000"

lemmas slac_timer_defs = C_EV_START_ATTEN_CHAR_INDS_def C_EV_MATCH_MNBC_def TP_EV_BATCH_MSG_INTERVAL_MS_def
  TT_EV_ATTEN_RESULTS_MS_def TT_EVSE_MATCH_MNBC_MS_def TT_MATCH_RESPONSE_MS_def TT_EVSE_MATCH_SESSION_MS_def TT_MATCH_JOIN_MS_def

definition MMV :: mmv where
  "MMV = Av1_1"

definition RESP_TYPE :: u8 where
  "RESP_TYPE = 0x01"

text \<open>\<open>u8::try_from(TT_EVSE_MATCH_MNBC_MS / 100).unwrap_or(6)\<close>.\<close>

definition SOUND_TIMEOUT :: u8 where
  "SOUND_TIMEOUT =
     (if TT_EVSE_MATCH_MNBC_MS div 100 < 256 then of_nat (TT_EVSE_MATCH_MNBC_MS div 100) else 6)"

definition MAX_STATIONS :: nat where
  "MAX_STATIONS = 32"

definition SLAC_MAX_PENDING_FRAMES :: nat where
  "SLAC_MAX_PENDING_FRAMES = 16"

definition MAX_PENDING_EVENTS :: nat where
  "MAX_PENDING_EVENTS = 64"

definition MAX_FRAME_LEN :: nat where
  "MAX_FRAME_LEN = 192"

datatype slac_reason =
    NoStation | TooFarAway | Slac_Timeout | OutOfSequence | Rejected | NoMeasurement | EncodingFailed

definition accept_frame :: "bytes \<Rightarrow> slac_frame option" where
  "accept_frame raw = (case slac_parse_frame raw of Inr f \<Rightarrow> Some f | Inl _ \<Rightarrow> None)"

definition decoded :: "slac_error + 'm \<Rightarrow> 'm option" where
  "decoded r = (case r of Inr m \<Rightarrow> Some m | Inl _ \<Rightarrow> None)"

record outgoing =
  og_destination :: mac_addr
  og_frame :: bytes

definition slac_build ::
    "mac_addr \<Rightarrow> mac_addr \<Rightarrow> mmtype \<Rightarrow> (bytes \<Rightarrow> slac_error + (nat \<times> bytes)) \<Rightarrow> slac_error + outgoing" where
  "slac_build destination source mmtype enc =
     ebind (enc (replicate MAX_FRAME_LEN 0)) (\<lambda>(n, payload).
     ebind (slac_write_frame (replicate MAX_FRAME_LEN 0) destination source MMV mmtype (take n payload)) (\<lambda>(len, out).
     Inr \<lparr>og_destination = destination, og_frame = take len out\<rparr>))"

section \<open>The station\<close>

record evse_config =
  ec_mac :: mac_addr
  ec_id :: bytes
  ec_nmk :: bytes
  ec_nid :: bytes
  ec_attenuation_limit :: "u8 option"

datatype evse_event =
    SE_RunStarted bytes
  | SE_Measured u8 u8
  | SE_Matched bytes mac_addr bytes
  | SE_Failed slac_reason

datatype evse_state = ES_Idle | ES_Sounding | ES_Measured | ES_Matched | ES_Failed

record slac_run =
  sr_id :: bytes
  sr_pev_mac :: mac_addr
  sr_pev_id :: bytes
  sr_sounds :: u8
  sr_expected_sounds :: u8

record evse =
  es_config :: evse_config
  es_state :: evse_state
  es_run :: "slac_run option"
  es_measured :: "atten_profile option"
  es_deadline :: "instant option"
  es_out :: "outgoing list"
  es_events :: "evse_event list"

definition evse_new :: "evse_config \<Rightarrow> evse" where
  "evse_new c = \<lparr>es_config = c, es_state = ES_Idle, es_run = None, es_measured = None, es_deadline = None,
     es_out = [], es_events = []\<rparr>"

definition evse_fail :: "slac_reason \<Rightarrow> evse \<Rightarrow> evse" where
  "evse_fail reason s =
     (if es_state s = ES_Failed then s
      else s\<lparr>es_state := ES_Failed, es_deadline := None, es_events := es_events s @ [SE_Failed reason]\<rparr>)"

definition evse_queue :: "mac_addr \<Rightarrow> mmtype \<Rightarrow> (bytes \<Rightarrow> slac_error + (nat \<times> bytes)) \<Rightarrow> evse \<Rightarrow> evse" where
  "evse_queue to mmtype enc s =
     (case slac_build to (ec_mac (es_config s)) mmtype enc of
        Inr out \<Rightarrow> if length (es_out s) < SLAC_MAX_PENDING_FRAMES then s\<lparr>es_out := es_out s @ [out]\<rparr> else s
      | Inl _ \<Rightarrow> evse_fail EncodingFailed s)"

definition evse_arm :: "instant \<Rightarrow> millis \<Rightarrow> evse \<Rightarrow> evse" where
  "evse_arm now after s = s\<lparr>es_deadline := Some (instant_add now after)\<rparr>"

definition evse_note :: "evse_event \<Rightarrow> evse \<Rightarrow> evse" where
  "evse_note e s = (if length (es_events s) < MAX_PENDING_EVENTS then s\<lparr>es_events := es_events s @ [e]\<rparr> else s)"

definition on_parm_req :: "instant \<Rightarrow> mac_addr \<Rightarrow> slac_parm_req \<Rightarrow> evse \<Rightarrow> evse" where
  "on_parm_req now source req s =
     (if es_state s = ES_Matched then s
      else if (case es_run s of
                 Some run \<Rightarrow> (es_state s = ES_Sounding \<or> es_state s = ES_Measured)
                   \<and> (sr_pev_mac run \<noteq> source \<or> sr_id run \<noteq> pq_run_id req)
               | None \<Rightarrow> False) then s
      else
        let s = s\<lparr>es_run := Some \<lparr>sr_id = pq_run_id req, sr_pev_mac = source, sr_pev_id = replicate STATION_ID_LEN 0,
                sr_sounds = 0, sr_expected_sounds = C_EV_MATCH_MNBC\<rparr>, es_state := ES_Sounding\<rparr>;
            s = evse_note (SE_RunStarted (pq_run_id req)) s;
            cnf = \<lparr>pc_m_sound_target = BROADCAST, pc_num_sounds = C_EV_MATCH_MNBC, pc_timeout = SOUND_TIMEOUT,
              pc_resp_type = RESP_TYPE, pc_forwarding_sta = source, pc_run_id = pq_run_id req\<rparr>;
            s = evse_queue source MM_SlacParmCnf (parm_cnf_encode cnf) s
        in evse_arm now TT_EVSE_MATCH_SESSION_MS s)"

text \<open>The run a frame belongs to: the identifier alone is broadcast in the clear, so the sender counts too.\<close>

definition run_of :: "bytes \<Rightarrow> mac_addr \<Rightarrow> evse \<Rightarrow> slac_run option" where
  "run_of run_id source s =
     (case es_run s of
        Some run \<Rightarrow> if sr_id run = run_id \<and> sr_pev_mac run = source then Some run else None
      | None \<Rightarrow> None)"

definition on_start_atten :: "instant \<Rightarrow> mac_addr \<Rightarrow> slac_start_atten \<Rightarrow> evse \<Rightarrow> evse" where
  "on_start_atten now source ind s =
     (case run_of (sa_run_id ind) source s of
        None \<Rightarrow> s
      | Some run \<Rightarrow>
          evse_arm now TT_EVSE_MATCH_MNBC_MS (s\<lparr>es_run := Some (run\<lparr>sr_expected_sounds := sa_num_sounds ind\<rparr>)\<rparr>))"

definition finish_sounding :: "instant \<Rightarrow> evse \<Rightarrow> evse" where
  "finish_sounding now s =
     (if es_state s \<noteq> ES_Sounding then s
      else
        (case es_run s of
           None \<Rightarrow> s
         | Some run \<Rightarrow>
           (case es_measured s of
              None \<Rightarrow> evse_fail NoMeasurement s
            | Some profile \<Rightarrow>
              let mean = (case mean_attenuation profile of Some v \<Rightarrow> v | None \<Rightarrow> 255) in
              if (case ec_attenuation_limit (es_config s) of Some limit \<Rightarrow> mean > limit | None \<Rightarrow> False)
              then evse_fail TooFarAway s
              else
                let s = evse_note (SE_Measured mean (sr_sounds run)) (s\<lparr>es_state := ES_Measured\<rparr>);
                    ind = \<lparr>ai_source_address = sr_pev_mac run, ai_run_id = sr_id run, ai_source_id = sr_pev_id run,
                      ai_resp_id = ec_id (es_config s), ai_num_sounds = sr_sounds run, ai_profile = profile\<rparr>;
                    s = evse_queue (sr_pev_mac run) MM_AttenCharInd (atten_ind_encode ind) s
                in evse_arm now TT_EVSE_MATCH_SESSION_MS s)))"

definition on_sound :: "instant \<Rightarrow> mac_addr \<Rightarrow> slac_mnbc_sound \<Rightarrow> evse \<Rightarrow> evse" where
  "on_sound now source ind s =
     (case run_of (ms_run_id ind) source s of
        None \<Rightarrow> s
      | Some run \<Rightarrow>
          let run = run\<lparr>sr_pev_id := ms_sender_id ind,
                sr_sounds := (if sr_sounds run = 255 then 255 else sr_sounds run + 1)\<rparr>;
              s = s\<lparr>es_run := Some run\<rparr>
          in if sr_sounds run \<ge> sr_expected_sounds run then finish_sounding now s else s)"

definition evse_observe :: "atten_profile \<Rightarrow> evse \<Rightarrow> evse" where
  "evse_observe profile s = s\<lparr>es_measured := Some profile\<rparr>"

definition on_atten_rsp :: "mac_addr \<Rightarrow> slac_atten_rsp \<Rightarrow> evse \<Rightarrow> evse" where
  "on_atten_rsp source rsp s =
     (if run_of (ar_run_id rsp) source s = None then s
      else if ar_resp_id rsp \<noteq> ec_id (es_config s) then s
      else if ar_result rsp \<noteq> 0 then evse_fail Rejected s
      else s)"

definition on_match_req :: "mac_addr \<Rightarrow> slac_match_req \<Rightarrow> evse \<Rightarrow> evse" where
  "on_match_req source req s =
     (case run_of (mq_run_id req) source s of
        None \<Rightarrow> s
      | Some run \<Rightarrow>
          if mq_evse_mac req \<noteq> ec_mac (es_config s) \<or> mq_evse_id req \<noteq> ec_id (es_config s) then s
          else if es_state s \<noteq> ES_Measured then evse_fail OutOfSequence s
          else
            let c = es_config s;
                cnf = \<lparr>mc_pev_id = mq_pev_id req, mc_pev_mac = mq_pev_mac req, mc_evse_id = ec_id c, mc_evse_mac = ec_mac c,
                  mc_run_id = sr_id run, mc_nid = ec_nid c, mc_nmk = ec_nmk c\<rparr>;
                s = evse_queue (mq_pev_mac req) MM_SlacMatchCnf (match_cnf_encode cnf) s
            in s\<lparr>es_state := ES_Matched, es_deadline := None,
                 es_events := es_events s @ [SE_Matched (mq_pev_id req) (mq_pev_mac req) (ec_nmk c)]\<rparr>)"

definition evse_handle_frame :: "instant \<Rightarrow> bytes \<Rightarrow> evse \<Rightarrow> evse" where
  "evse_handle_frame now raw s =
     (case accept_frame raw of
        None \<Rightarrow> s
      | Some f \<Rightarrow>
        (case fr_mmtype f of
           MM_SlacParmReq \<Rightarrow>
             (case decoded (parm_req_decode (fr_payload f)) of Some m \<Rightarrow> on_parm_req now (fr_source f) m s | None \<Rightarrow> s)
         | MM_StartAttenCharInd \<Rightarrow>
             (case decoded (start_atten_decode (fr_payload f)) of Some m \<Rightarrow> on_start_atten now (fr_source f) m s | None \<Rightarrow> s)
         | MM_MnbcSoundInd \<Rightarrow>
             (case decoded (mnbc_sound_decode (fr_payload f)) of Some m \<Rightarrow> on_sound now (fr_source f) m s | None \<Rightarrow> s)
         | MM_AttenCharRsp \<Rightarrow>
             (case decoded (atten_rsp_decode (fr_payload f)) of Some m \<Rightarrow> on_atten_rsp (fr_source f) m s | None \<Rightarrow> s)
         | MM_SlacMatchReq \<Rightarrow>
             (case decoded (match_req_decode (fr_payload f)) of Some m \<Rightarrow> on_match_req (fr_source f) m s | None \<Rightarrow> s)
         | _ \<Rightarrow> s))"

definition evse_handle_timeout :: "instant \<Rightarrow> evse \<Rightarrow> evse" where
  "evse_handle_timeout now s =
     (case es_deadline s of
        None \<Rightarrow> s
      | Some d \<Rightarrow>
        if d \<le> now then
          let s = s\<lparr>es_deadline := None\<rparr> in
          (case es_state s of
             ES_Sounding \<Rightarrow>
               if (case es_run s of Some run \<Rightarrow> sr_sounds run > 0 | None \<Rightarrow> False)
               then finish_sounding now s else evse_fail Slac_Timeout s
           | ES_Measured \<Rightarrow> evse_fail Slac_Timeout s
           | _ \<Rightarrow> s)
        else s)"

definition evse_poll_transmit :: "evse \<Rightarrow> outgoing option \<times> evse" where
  "evse_poll_transmit s = (case es_out s of [] \<Rightarrow> (None, s) | out # outs \<Rightarrow> (Some out, s\<lparr>es_out := outs\<rparr>))"

definition evse_poll_event :: "evse \<Rightarrow> evse_event option \<times> evse" where
  "evse_poll_event s = (case es_events s of [] \<Rightarrow> (None, s) | e # es \<Rightarrow> (Some e, s\<lparr>es_events := es\<rparr>))"

definition evse_reset :: "evse \<Rightarrow> evse" where
  "evse_reset s = s\<lparr>es_state := ES_Idle, es_run := None, es_measured := None, es_deadline := None, es_out := []\<rparr>"

section \<open>The vehicle\<close>

record ev_config =
  vc_mac :: mac_addr
  vc_id :: bytes
  vc_run_id :: bytes
  vc_sounding_payload :: bytes
  vc_attenuation_limit :: "u8 option"

datatype ev_event =
    VE_StationFound mac_addr
  | VE_Measurement mac_addr u8
  | VE_Matched mac_addr bytes bytes bytes
  | VE_Failed slac_reason

datatype ev_state =
    VS_Idle | VS_Probing | VS_Sounding | VS_AwaitingMeasurements | VS_AwaitingKey | VS_Matched | VS_Failed

record ev =
  vs_config :: ev_config
  vs_state :: ev_state
  vs_best :: "(mac_addr \<times> bytes \<times> u8) option"
  vs_answered :: "mac_addr list"
  vs_remaining_sounds :: u8
  vs_remaining_starts :: u8
  vs_deadline :: "instant option"
  vs_results_deadline :: "instant option"
  vs_out :: "outgoing list"
  vs_events :: "ev_event list"

definition ev_new :: "ev_config \<Rightarrow> ev" where
  "ev_new c = \<lparr>vs_config = c, vs_state = VS_Idle, vs_best = None, vs_answered = [], vs_remaining_sounds = 0,
     vs_remaining_starts = 0, vs_deadline = None, vs_results_deadline = None, vs_out = [], vs_events = []\<rparr>"

definition ev_fail :: "slac_reason \<Rightarrow> ev \<Rightarrow> ev" where
  "ev_fail reason v =
     (if vs_state v = VS_Failed then v
      else v\<lparr>vs_state := VS_Failed, vs_deadline := None, vs_events := vs_events v @ [VE_Failed reason]\<rparr>)"

definition ev_queue :: "mac_addr \<Rightarrow> mmtype \<Rightarrow> (bytes \<Rightarrow> slac_error + (nat \<times> bytes)) \<Rightarrow> ev \<Rightarrow> ev" where
  "ev_queue to mmtype enc v =
     (case slac_build to (vc_mac (vs_config v)) mmtype enc of
        Inr out \<Rightarrow> if length (vs_out v) < SLAC_MAX_PENDING_FRAMES then v\<lparr>vs_out := vs_out v @ [out]\<rparr> else v
      | Inl _ \<Rightarrow> ev_fail EncodingFailed v)"

definition ev_arm :: "instant \<Rightarrow> millis \<Rightarrow> ev \<Rightarrow> ev" where
  "ev_arm now after v = v\<lparr>vs_deadline := Some (instant_add now after)\<rparr>"

definition ev_note :: "ev_event \<Rightarrow> ev \<Rightarrow> ev" where
  "ev_note e v = (if length (vs_events v) < MAX_PENDING_EVENTS then v\<lparr>vs_events := vs_events v @ [e]\<rparr> else v)"

definition ev_start :: "instant \<Rightarrow> ev \<Rightarrow> ev" where
  "ev_start now v =
     (let v = v\<lparr>vs_best := None, vs_answered := [], vs_remaining_sounds := 0, vs_remaining_starts := 0, vs_out := [],
            vs_results_deadline := None\<rparr>;
          req = \<lparr>pq_run_id = vc_run_id (vs_config v)\<rparr>;
          v = ev_queue BROADCAST MM_SlacParmReq (parm_req_encode req) v
      in ev_arm now TT_MATCH_RESPONSE_MS (v\<lparr>vs_state := VS_Probing\<rparr>))"

definition on_match_cnf :: "mac_addr \<Rightarrow> slac_match_cnf \<Rightarrow> ev \<Rightarrow> ev" where
  "on_match_cnf source cnf v =
     (if vs_state v \<noteq> VS_AwaitingKey \<or> mc_run_id cnf \<noteq> vc_run_id (vs_config v) then v
      else
        (case vs_best v of
           None \<Rightarrow> v
         | Some (chosen_mac, chosen_id, _) \<Rightarrow>
           if source \<noteq> chosen_mac \<or> mc_evse_mac cnf \<noteq> chosen_mac \<or> mc_evse_id cnf \<noteq> chosen_id then v
           else if mc_pev_mac cnf \<noteq> vc_mac (vs_config v) \<or> mc_pev_id cnf \<noteq> vc_id (vs_config v) then v
           else v\<lparr>vs_state := VS_Matched, vs_deadline := None,
                  vs_events := vs_events v @ [VE_Matched (mc_evse_mac cnf) (mc_evse_id cnf) (mc_nmk cnf) (mc_nid cnf)]\<rparr>))"

definition on_measurement :: "instant \<Rightarrow> mac_addr \<Rightarrow> slac_atten_ind \<Rightarrow> ev \<Rightarrow> ev" where
  "on_measurement now source ind v =
     (case mean_attenuation (ai_profile ind) of
        None \<Rightarrow> v
      | Some mean \<Rightarrow>
        let v = ev_note (VE_Measurement source mean) v in
        if (case vc_attenuation_limit (vs_config v) of Some limit \<Rightarrow> mean > limit | None \<Rightarrow> False) then v
        else
          let v = (if (case vs_best v of None \<Rightarrow> True | Some (_, _, best) \<Rightarrow> mean < best)
                   then v\<lparr>vs_best := Some (source, ai_resp_id ind, mean)\<rparr> else v)
          in
          if vs_state v = VS_AwaitingMeasurements then
            let nxt = instant_add now TT_MATCH_RESPONSE_MS in
            v\<lparr>vs_deadline := Some (case vs_results_deadline v of Some e \<Rightarrow> if e < nxt then e else nxt | None \<Rightarrow> nxt)\<rparr>
          else v)"

definition on_parm_cnf :: "mac_addr \<Rightarrow> slac_parm_cnf \<Rightarrow> ev \<Rightarrow> ev" where
  "on_parm_cnf source cnf v =
     (if pc_run_id cnf = vc_run_id (vs_config v) \<and> pc_forwarding_sta cnf = vc_mac (vs_config v)
         \<and> source \<notin> set (vs_answered v) \<and> length (vs_answered v) < MAX_STATIONS
      then ev_note (VE_StationFound source) (v\<lparr>vs_answered := vs_answered v @ [source]\<rparr>)
      else v)"

definition ev_handle_frame :: "instant \<Rightarrow> bytes \<Rightarrow> ev \<Rightarrow> ev" where
  "ev_handle_frame now raw v =
     (case accept_frame raw of
        None \<Rightarrow> v
      | Some f \<Rightarrow>
        (case fr_mmtype f of
           MM_SlacParmCnf \<Rightarrow>
             (case decoded (parm_cnf_decode (fr_payload f)) of Some cnf \<Rightarrow> on_parm_cnf (fr_source f) cnf v | None \<Rightarrow> v)
         | MM_AttenCharInd \<Rightarrow>
             (case decoded (atten_ind_decode (fr_payload f)) of
                Some ind \<Rightarrow>
                  if ai_run_id ind = vc_run_id (vs_config v) \<and> ai_source_address ind = vc_mac (vs_config v)
                     \<and> ai_source_id ind = vc_id (vs_config v)
                  then on_measurement now (fr_source f) ind v else v
              | None \<Rightarrow> v)
         | MM_SlacMatchCnf \<Rightarrow>
             (case decoded (match_cnf_decode (fr_payload f)) of Some cnf \<Rightarrow> on_match_cnf (fr_source f) cnf v | None \<Rightarrow> v)
         | _ \<Rightarrow> v))"

definition send_next_sound :: "instant \<Rightarrow> ev \<Rightarrow> ev" where
  "send_next_sound now v =
     (let c = vs_config v in
      if vs_remaining_starts v > 0 then
        let v = v\<lparr>vs_remaining_starts := vs_remaining_starts v - 1\<rparr>;
            ind = \<lparr>sa_num_sounds = C_EV_MATCH_MNBC, sa_timeout = SOUND_TIMEOUT, sa_resp_type = RESP_TYPE,
              sa_forwarding_sta = vc_mac c, sa_run_id = vc_run_id c\<rparr>
        in ev_arm now TP_EV_BATCH_MSG_INTERVAL_MS (ev_queue BROADCAST MM_StartAttenCharInd (start_atten_encode ind) v)
      else if vs_remaining_sounds v > 0 then
        let v = v\<lparr>vs_remaining_sounds := vs_remaining_sounds v - 1\<rparr>;
            ind = \<lparr>ms_sender_id = vc_id c, ms_remaining = vs_remaining_sounds v, ms_run_id = vc_run_id c,
              ms_random = vc_sounding_payload c\<rparr>
        in ev_arm now TP_EV_BATCH_MSG_INTERVAL_MS (ev_queue BROADCAST MM_MnbcSoundInd (mnbc_sound_encode ind) v)
      else
        let v = ev_arm now TT_EV_ATTEN_RESULTS_MS (v\<lparr>vs_state := VS_AwaitingMeasurements\<rparr>)
        in v\<lparr>vs_results_deadline := vs_deadline v\<rparr>)"

definition begin_sounding :: "instant \<Rightarrow> ev \<Rightarrow> ev" where
  "begin_sounding now v =
     send_next_sound now (v\<lparr>vs_remaining_starts := C_EV_START_ATTEN_CHAR_INDS, vs_remaining_sounds := C_EV_MATCH_MNBC,
       vs_state := VS_Sounding\<rparr>)"

definition ev_choose :: "instant \<Rightarrow> ev \<Rightarrow> ev" where
  "ev_choose now v =
     (case vs_best v of
        None \<Rightarrow> ev_fail TooFarAway v
      | Some (evse_mac, evse_id, _) \<Rightarrow>
        let c = vs_config v;
            rsp = \<lparr>ar_source_address = vc_mac c, ar_run_id = vc_run_id c, ar_source_id = vc_id c, ar_resp_id = evse_id,
              ar_result = 0\<rparr>;
            v = ev_queue evse_mac MM_AttenCharRsp (atten_rsp_encode rsp) v;
            req = \<lparr>mq_pev_id = vc_id c, mq_pev_mac = vc_mac c, mq_evse_id = evse_id, mq_evse_mac = evse_mac,
              mq_run_id = vc_run_id c\<rparr>;
            v = ev_queue evse_mac MM_SlacMatchReq (match_req_encode req) v
        in ev_arm now TT_MATCH_JOIN_MS (v\<lparr>vs_state := VS_AwaitingKey\<rparr>))"

definition ev_handle_timeout :: "instant \<Rightarrow> ev \<Rightarrow> ev" where
  "ev_handle_timeout now v =
     (if (case vs_deadline v of None \<Rightarrow> True | Some d \<Rightarrow> d > now) then v
      else
        let v = v\<lparr>vs_deadline := None\<rparr> in
        (case vs_state v of
           VS_Probing \<Rightarrow> if vs_answered v = [] then ev_fail NoStation v else begin_sounding now v
         | VS_Sounding \<Rightarrow> send_next_sound now v
         | VS_AwaitingMeasurements \<Rightarrow> ev_choose now v
         | VS_AwaitingKey \<Rightarrow> ev_fail Slac_Timeout v
         | _ \<Rightarrow> v))"

definition ev_poll_transmit :: "ev \<Rightarrow> outgoing option \<times> ev" where
  "ev_poll_transmit v = (case vs_out v of [] \<Rightarrow> (None, v) | out # outs \<Rightarrow> (Some out, v\<lparr>vs_out := outs\<rparr>))"

definition ev_poll_event :: "ev \<Rightarrow> ev_event option \<times> ev" where
  "ev_poll_event v = (case vs_events v of [] \<Rightarrow> (None, v) | e # es \<Rightarrow> (Some e, v\<lparr>vs_events := es\<rparr>))"

end
