(* ===== verification/Slac_Station.thy ===== *)
theory Slac_Station
  imports Slac_Matching
begin

text \<open>
  What the station's matching engine guarantees whatever arrives on the medium: the network key leaves it only for a
  run whose sounding it has heard and measured, on the request of the vehicle that opened the run.
\<close>

section \<open>Frames and their types\<close>

lemma slac_build_type:
  assumes "slac_build destination source t enc = Inr out" and "length destination = 6" and "length source = 6" and "wf_mmtype t"
  shows "\<exists>f. slac_parse_frame (og_frame out) = Inr f \<and> fr_mmtype f = t"
proof -
  obtain n payload len frame where
    "slac_write_frame (replicate MAX_FRAME_LEN 0) destination source MMV t (take n payload) = Inr (len, frame)"
    "og_frame out = take len frame"
    using assms(1) by (auto simp: slac_build_def ebind_eq_Inr)
  with slac_frame_roundtrip [OF this(1) assms(2-4)] show ?thesis by fastforce
qed

lemma wf_mmtype_modelled [simp]:
  "wf_mmtype MM_SlacParmReq" "wf_mmtype MM_SlacParmCnf" "wf_mmtype MM_StartAttenCharInd" "wf_mmtype MM_AttenCharInd"
  "wf_mmtype MM_AttenCharRsp" "wf_mmtype MM_MnbcSoundInd" "wf_mmtype MM_SlacMatchReq" "wf_mmtype MM_SlacMatchCnf"
  by (simp_all add: wf_mmtype_def mmtype_from_u16_def)

lemma accept_frame_Some: "accept_frame raw = Some f \<longleftrightarrow> slac_parse_frame raw = Inr f"
  by (auto simp: accept_frame_def split: sum.splits)

lemma decoded_Some: "decoded r = Some m \<longleftrightarrow> r = Inr m"
  by (auto simp: decoded_def split: sum.splits)

lemma parse_frame_source: "slac_parse_frame raw = Inr f \<Longrightarrow> length (fr_source f) = 6 \<and> length (fr_destination f) = 6"
  by (auto simp: slac_parse_frame_def Let_def ebind_eq_Inr ETHERNET_HEADER_LEN_def split: if_splits)

text \<open>A frame of type \<open>t\<close> from \<open>source\<close>, with a payload that decodes to \<open>m\<close>.\<close>

definition brings :: "bytes \<Rightarrow> mmtype \<Rightarrow> (bytes \<Rightarrow> slac_error + 'm) \<Rightarrow> mac_addr \<Rightarrow> 'm \<Rightarrow> bool" where
  "brings raw t dec source m \<longleftrightarrow>
     (\<exists>f. slac_parse_frame raw = Inr f \<and> fr_mmtype f = t \<and> fr_source f = source \<and> dec (fr_payload f) = Inr m)"

section \<open>Runs of a station\<close>

datatype slac_step =
    S_Fed instant bytes
  | S_Passed instant
  | S_Observed atten_profile
  | S_Reset
  | S_Sent outgoing
  | S_Told evse_event

inductive evse_run :: "evse_config \<Rightarrow> slac_step list \<Rightarrow> evse \<Rightarrow> bool" for c where
  evse_begin: "evse_run c [] (evse_new c)"
| evse_frame: "evse_run c h s \<Longrightarrow> evse_run c (h @ [S_Fed now raw]) (evse_handle_frame now raw s)"
| evse_timeout: "evse_run c h s \<Longrightarrow> evse_run c (h @ [S_Passed now]) (evse_handle_timeout now s)"
| evse_observes: "evse_run c h s \<Longrightarrow> evse_run c (h @ [S_Observed p]) (evse_observe p s)"
| evse_resets: "evse_run c h s \<Longrightarrow> evse_run c (h @ [S_Reset]) (evse_reset s)"
| evse_sends: "evse_run c h s \<Longrightarrow> evse_poll_transmit s = (Some out, s') \<Longrightarrow> evse_run c (h @ [S_Sent out]) s'"
| evse_tells: "evse_run c h s \<Longrightarrow> evse_poll_event s = (Some e, s') \<Longrightarrow> evse_run c (h @ [S_Told e]) s'"

text \<open>The steps since the application last freed the station.\<close>

definition since_reset :: "slac_step list \<Rightarrow> slac_step list" where
  "since_reset h = rev (takeWhile (\<lambda>x. x \<noteq> S_Reset) (rev h))"

lemma since_reset_snoc [simp]: "since_reset (h @ [x]) = (if x = S_Reset then [] else since_reset h @ [x])"
  by (simp add: since_reset_def)

lemma since_reset_Nil [simp]: "since_reset [] = []"
  by (simp add: since_reset_def)

definition opened :: "mac_addr \<Rightarrow> bytes \<Rightarrow> slac_step list \<Rightarrow> bool" where
  "opened mac run h \<longleftrightarrow>
     (\<exists>now raw m. S_Fed now raw \<in> set h \<and> brings raw MM_SlacParmReq parm_req_decode mac m \<and> pq_run_id m = run)"

definition sounded :: "mac_addr \<Rightarrow> bytes \<Rightarrow> slac_step list \<Rightarrow> bool" where
  "sounded mac run h \<longleftrightarrow>
     (\<exists>now raw m. S_Fed now raw \<in> set h \<and> brings raw MM_MnbcSoundInd mnbc_sound_decode mac m \<and> ms_run_id m = run)"

definition within_limit :: "u8 option \<Rightarrow> u8 \<Rightarrow> bool" where
  "within_limit limit mean \<longleftrightarrow> (case limit of Some l \<Rightarrow> mean \<le> l | None \<Rightarrow> True)"

definition measured_mean :: "atten_profile \<Rightarrow> u8" where
  "measured_mean p = (case mean_attenuation p of Some v \<Rightarrow> v | None \<Rightarrow> 255)"

definition earned :: "evse_config \<Rightarrow> mac_addr \<Rightarrow> bytes \<Rightarrow> slac_step list \<Rightarrow> bool" where
  "earned c mac run h \<longleftrightarrow> opened mac run h \<and> sounded mac run h
     \<and> (\<exists>p. S_Observed p \<in> set h \<and> within_limit (ec_attenuation_limit c) (measured_mean p))"

definition asks_key :: "evse_config \<Rightarrow> mac_addr \<Rightarrow> bytes \<Rightarrow> bytes \<Rightarrow> bool" where
  "asks_key c mac run raw \<longleftrightarrow>
     (\<exists>m. brings raw MM_SlacMatchReq match_req_decode mac m \<and> mq_run_id m = run
        \<and> mq_evse_mac m = ec_mac c \<and> mq_evse_id m = ec_id c)"

text \<open>The run was earned when the request for the key came in.\<close>

definition keyed :: "evse_config \<Rightarrow> bytes \<Rightarrow> slac_step list \<Rightarrow> bool" where
  "keyed c run h \<longleftrightarrow>
     (\<exists>h0 now raw h1 mac. h = h0 @ S_Fed now raw # h1 \<and> asks_key c mac run raw \<and> earned c mac run (since_reset h0))"

lemma history_mono:
  "opened mac run h \<Longrightarrow> opened mac run (h @ h')"
  "sounded mac run h \<Longrightarrow> sounded mac run (h @ h')"
  "earned c mac run h \<Longrightarrow> earned c mac run (h @ h')"
  "keyed c run h \<Longrightarrow> keyed c run (h @ h')"
proof -
  show "opened mac run h \<Longrightarrow> opened mac run (h @ h')" "sounded mac run h \<Longrightarrow> sounded mac run (h @ h')"
    "earned c mac run h \<Longrightarrow> earned c mac run (h @ h')"
    by (fastforce simp: opened_def sounded_def earned_def)+
  show "keyed c run h \<Longrightarrow> keyed c run (h @ h')"
    unfolding keyed_def by force
qed

text \<open>An outgoing frame that carries a key, and the run it belongs to.\<close>

definition key_frame :: "outgoing \<Rightarrow> bytes \<Rightarrow> bool" where
  "key_frame out run \<longleftrightarrow> (\<exists>f m. slac_parse_frame (og_frame out) = Inr f \<and> fr_mmtype f = MM_SlacMatchCnf
     \<and> match_cnf_decode (fr_payload f) = Inr m \<and> mc_run_id m = run)"

definition wf_evse_config :: "evse_config \<Rightarrow> bool" where
  "wf_evse_config c \<longleftrightarrow> length (ec_mac c) = 6 \<and> length (ec_id c) = STATION_ID_LEN \<and> length (ec_nmk c) = NMK_LEN
     \<and> length (ec_nid c) = NID_LEN"

definition run_inv :: "slac_step list \<Rightarrow> slac_run \<Rightarrow> bool" where
  "run_inv h run \<longleftrightarrow> length (sr_pev_mac run) = 6 \<and> length (sr_id run) = RUN_ID_LEN
     \<and> opened (sr_pev_mac run) (sr_id run) (since_reset h)
     \<and> (sr_sounds run > 0 \<longrightarrow> sounded (sr_pev_mac run) (sr_id run) (since_reset h))"

definition evse_inv :: "evse_config \<Rightarrow> slac_step list \<Rightarrow> evse \<Rightarrow> bool" where
  "evse_inv c h s \<longleftrightarrow> es_config s = c
     \<and> (\<forall>p. es_measured s = Some p \<longrightarrow> S_Observed p \<in> set (since_reset h))
     \<and> (\<forall>run. es_run s = Some run \<longrightarrow> run_inv h run)
     \<and> (es_state s = ES_Measured \<longrightarrow>
          (\<exists>run. es_run s = Some run \<and> earned c (sr_pev_mac run) (sr_id run) (since_reset h)))
     \<and> (\<forall>out run. out \<in> set (es_out s) \<or> S_Sent out \<in> set h \<longrightarrow> key_frame out run \<longrightarrow> keyed c run h)"

text \<open>A step that the station does not act on keeps the invariant.\<close>

lemma run_inv_snoc: "run_inv h run \<Longrightarrow> x \<noteq> S_Reset \<Longrightarrow> run_inv (h @ [x]) run"
  by (auto simp: run_inv_def history_mono)

lemma evse_inv_snoc:
  assumes "evse_inv c h s" and "x \<noteq> S_Reset" and "\<And>out run. x = S_Sent out \<Longrightarrow> key_frame out run \<Longrightarrow> keyed c run h"
  shows "evse_inv c (h @ [x]) s"
  using assms(1-2) assms(3) history_mono(4) [of c _ h "[x]"]
  by (fastforce simp: evse_inv_def run_inv_snoc history_mono)

lemma evse_inv_simps [simp]:
  "evse_inv c h (s\<lparr>es_deadline := d\<rparr>) = evse_inv c h s"
  "evse_inv c h (s\<lparr>es_events := es\<rparr>) = evse_inv c h s"
  "evse_inv c h (evse_arm now after s) = evse_inv c h s"
  "evse_inv c h (evse_note e s) = evse_inv c h s"
  by (simp_all add: evse_inv_def evse_arm_def evse_note_def)

lemma evse_inv_state: "evse_inv c h s \<Longrightarrow> st \<noteq> ES_Measured \<Longrightarrow> evse_inv c h (s\<lparr>es_state := st\<rparr>)"
  by (simp add: evse_inv_def)

lemma evse_inv_fail: "evse_inv c h s \<Longrightarrow> evse_inv c h (evse_fail why s)"
  by (auto simp: evse_fail_def evse_inv_def)

lemma evse_inv_queue:
  assumes "evse_inv c h s" and "wf_evse_config c" and "length to = 6" and "wf_mmtype t"
    and "\<And>out run. slac_build to (ec_mac c) t enc = Inr out \<Longrightarrow> key_frame out run \<Longrightarrow> keyed c run h"
  shows "evse_inv c h (evse_queue to t enc s)"
proof (cases "slac_build to (ec_mac c) t enc")
  case (Inl e)
  then show ?thesis using assms(1) by (simp add: evse_queue_def evse_inv_def [of c h s] evse_inv_fail)
next
  case (Inr out)
  have "es_config s = c" using assms(1) by (simp add: evse_inv_def)
  with Inr assms(1) assms(5) [OF Inr] show ?thesis
    by (auto simp: evse_queue_def evse_inv_def)
qed

lemma evse_inv_queue_other:
  assumes "evse_inv c h s" and "wf_evse_config c" and "length to = 6" and "wf_mmtype t" and "t \<noteq> MM_SlacMatchCnf"
  shows "evse_inv c h (evse_queue to t enc s)"
  using assms(1-4)
proof (rule evse_inv_queue)
  fix out run assume "slac_build to (ec_mac c) t enc = Inr out" and "key_frame out run"
  with slac_build_type [OF this(1) assms(3) _ assms(4)] assms(2,5) show "keyed c run h"
    by (auto simp: key_frame_def wf_evse_config_def)
qed

section \<open>Every operation keeps the invariant\<close>

lemma decode_lengths:
  "parm_req_decode p = Inr q \<Longrightarrow> length (pq_run_id q) = RUN_ID_LEN"
  "match_req_decode p = Inr r \<Longrightarrow> length (mq_run_id r) = RUN_ID_LEN \<and> length (mq_pev_mac r) = 6 \<and> length (mq_pev_id r) = STATION_ID_LEN"
  using parm_req.dec_wf [of p q] match_req.dec_wf [of p r] by (simp_all add: wf_parm_req_def wf_match_req_def)

lemma brings_source: "brings raw t dec source m \<Longrightarrow> length source = 6"
  by (auto simp: brings_def dest: parse_frame_source)

lemma run_of_Some: "run_of i source s = Some run \<longleftrightarrow> es_run s = Some run \<and> sr_id run = i \<and> sr_pev_mac run = source"
  by (auto simp: run_of_def split: option.splits if_splits)

lemma evse_inv_parm_req:
  assumes inv: "evse_inv c h s" and c: "wf_evse_config c"
    and req: "S_Fed now raw \<in> set (since_reset h)" "brings raw MM_SlacParmReq parm_req_decode source m"
  shows "evse_inv c h (on_parm_req now source m s)"
proof -
  let ?run = "\<lparr>sr_id = pq_run_id m, sr_pev_mac = source, sr_pev_id = replicate STATION_ID_LEN 0, sr_sounds = 0,
      sr_expected_sounds = C_EV_MATCH_MNBC\<rparr>"
  have "length (pq_run_id m) = RUN_ID_LEN" using req(2) decode_lengths(1) by (auto simp: brings_def)
  then have "run_inv h ?run"
    using req brings_source [OF req(2)] by (auto simp: run_inv_def opened_def)
  with inv have "evse_inv c h (s\<lparr>es_run := Some ?run, es_state := ES_Sounding\<rparr>)"
    by (simp add: evse_inv_def)
  then show ?thesis
    using inv brings_source [OF req(2)] c
    by (auto simp: on_parm_req_def Let_def intro!: evse_inv_queue_other)
qed

lemma evse_inv_run:
  assumes "evse_inv c h s" and "es_run s = Some run" and "sr_id run' = sr_id run" and "sr_pev_mac run' = sr_pev_mac run" and "run_inv h run'"
  shows "evse_inv c h (s\<lparr>es_run := Some run'\<rparr>)"
  using assms by (auto simp: evse_inv_def)

lemma evse_inv_start_atten:
  assumes "evse_inv c h s"
  shows "evse_inv c h (on_start_atten now source ind s)"
proof (cases "run_of (sa_run_id ind) source s")
  case (Some run)
  then have "run_inv h run" using assms by (simp add: run_of_Some evse_inv_def)
  then have "run_inv h (run\<lparr>sr_expected_sounds := sa_num_sounds ind\<rparr>)" by (simp add: run_inv_def)
  moreover have "es_run s = Some run" using Some by (simp add: run_of_Some)
  ultimately have "evse_inv c h (s\<lparr>es_run := Some (run\<lparr>sr_expected_sounds := sa_num_sounds ind\<rparr>)\<rparr>)"
    using assms by (intro evse_inv_run) simp_all
  then show ?thesis by (simp add: on_start_atten_def Some)
qed (use assms in \<open>simp add: on_start_atten_def\<close>)

lemma evse_inv_finish:
  assumes inv: "evse_inv c h s" and c: "wf_evse_config c" and heard: "\<And>run. es_run s = Some run \<Longrightarrow> sr_sounds run > 0"
  shows "evse_inv c h (finish_sounding now s)"
proof (cases "es_state s = ES_Sounding \<and> es_run s \<noteq> None \<and> es_measured s \<noteq> None")
  case True
  then obtain run p where run: "es_run s = Some run" and p: "es_measured s = Some p" by auto
  have i: "es_config s = c" "run_inv h run" "S_Observed p \<in> set (since_reset h)"
    using inv run p by (auto simp: evse_inv_def)
  show ?thesis
  proof (cases "within_limit (ec_attenuation_limit c) (measured_mean p)")
    case False
    then show ?thesis
      using True run p i(1) inv
      by (auto simp: finish_sounding_def Let_def within_limit_def measured_mean_def not_le intro: evse_inv_fail split: option.splits)
  next
    case within: True
    have "earned c (sr_pev_mac run) (sr_id run) (since_reset h)"
      using i within heard [OF run] by (auto simp: earned_def run_inv_def)
    then have "evse_inv c h (s\<lparr>es_state := ES_Measured\<rparr>)" using inv run by (auto simp: evse_inv_def)
    moreover have "length (sr_pev_mac run) = 6" using i(2) by (simp add: run_inv_def)
    ultimately show ?thesis
      using True run p i(1) within c
      by (auto simp: finish_sounding_def Let_def within_limit_def measured_mean_def not_le intro!: evse_inv_queue_other
          split: option.splits)
  qed
qed (use inv in \<open>auto simp: finish_sounding_def intro: evse_inv_fail split: option.splits\<close>)

lemma u8_suc: "(x :: u8) \<noteq> 255 \<Longrightarrow> x + 1 \<noteq> 0"
proof
  assume x: "x \<noteq> 255" and "x + 1 = 0"
  then have "x = - 1" by (simp only: eq_neg_iff_add_eq_0)
  also have "- 1 = (255 :: u8)" by simp
  finally show False using x by blast
qed

lemma evse_inv_sound:
  assumes inv: "evse_inv c h s" and c: "wf_evse_config c"
    and snd: "S_Fed now raw \<in> set (since_reset h)" "brings raw MM_MnbcSoundInd mnbc_sound_decode source ind"
  shows "evse_inv c h (on_sound now source ind s)"
proof (cases "run_of (ms_run_id ind) source s")
  case (Some run)
  define run' where "run' = run\<lparr>sr_pev_id := ms_sender_id ind, sr_sounds := (if sr_sounds run = 255 then 255 else sr_sounds run + 1)\<rparr>"
  have own: "es_run s = Some run" "sr_id run = ms_run_id ind" "sr_pev_mac run = source" using Some by (simp_all add: run_of_Some)
  have "run_inv h run" using inv own by (simp add: evse_inv_def)
  then have "run_inv h run'"
    using snd own by (auto simp: run_inv_def run'_def sounded_def)
  then have inv': "evse_inv c h (s\<lparr>es_run := Some run'\<rparr>)"
    using evse_inv_run [OF inv own(1), of run'] by (simp add: run'_def)
  have pos: "sr_sounds run' > 0"
    using u8_suc [of "sr_sounds run"] by (simp add: run'_def word_gt_0)
  have "on_sound now source ind s = (if sr_sounds run' \<ge> sr_expected_sounds run' then finish_sounding now (s\<lparr>es_run := Some run'\<rparr>)
      else s\<lparr>es_run := Some run'\<rparr>)"
    using Some by (simp add: on_sound_def run'_def Let_def)
  then show ?thesis using inv' evse_inv_finish [OF inv' c] pos by simp
qed (use inv in \<open>simp add: on_sound_def\<close>)

lemma evse_inv_match_req:
  assumes inv: "evse_inv c h s" and c: "wf_evse_config c"
    and req: "brings raw MM_SlacMatchReq match_req_decode source m"
  shows "evse_inv c (h @ [S_Fed now raw]) (on_match_req source m s)"
proof -
  have inv': "evse_inv c (h @ [S_Fed now raw]) s" using inv by (rule evse_inv_snoc) simp_all
  have conf: "es_config s = c" using inv by (simp add: evse_inv_def)
  show ?thesis
  proof (cases "run_of (mq_run_id m) source s \<noteq> None \<and> mq_evse_mac m = ec_mac c \<and> mq_evse_id m = ec_id c")
    case True
    then obtain run where run: "run_of (mq_run_id m) source s = Some run" by auto
    then have own: "es_run s = Some run" "sr_id run = mq_run_id m" "sr_pev_mac run = source" by (simp_all add: run_of_Some)
    show ?thesis
    proof (cases "es_state s = ES_Measured")
      case False
      then show ?thesis using True run conf inv' by (simp add: on_match_req_def evse_inv_fail)
    next
      case measured: True
      let ?cnf = "\<lparr>mc_pev_id = mq_pev_id m, mc_pev_mac = mq_pev_mac m, mc_evse_id = ec_id c, mc_evse_mac = ec_mac c,
          mc_run_id = sr_id run, mc_nid = ec_nid c, mc_nmk = ec_nmk c\<rparr>"
      have lens: "length (mq_pev_mac m) = 6" "wf_match_cnf ?cnf"
        using req decode_lengths(2) c own(2) by (auto simp: brings_def wf_match_cnf_def wf_evse_config_def)
      have "earned c source (mq_run_id m) (since_reset h)"
        using inv measured own by (auto simp: evse_inv_def)
      moreover have "asks_key c source (mq_run_id m) raw" using True req by (auto simp: asks_key_def)
      ultimately have keyed: "keyed c (mq_run_id m) (h @ [S_Fed now raw])" unfolding keyed_def by blast
      have "keyed c r (h @ [S_Fed now raw])"
        if out: "slac_build (mq_pev_mac m) (ec_mac c) MM_SlacMatchCnf (match_cnf_encode ?cnf) = Inr out" and k: "key_frame out r" for out r
      proof -
        obtain n payload len frame where f: "match_cnf_encode ?cnf (replicate MAX_FRAME_LEN 0) = Inr (n, payload)"
          "slac_write_frame (replicate MAX_FRAME_LEN 0) (mq_pev_mac m) (ec_mac c) MMV MM_SlacMatchCnf (take n payload) = Inr (len, frame)"
          "og_frame out = take len frame"
          using out by (auto simp: slac_build_def ebind_eq_Inr)
        have "r = mc_run_id ?cnf"
          using match_cnf.framed_roundtrip [OF lens(2) f(1,2) lens(1)] c k f(3) by (auto simp: key_frame_def wf_evse_config_def)
        then show ?thesis using keyed own by simp
      qed
      then have "evse_inv c (h @ [S_Fed now raw]) (evse_queue (mq_pev_mac m) MM_SlacMatchCnf (match_cnf_encode ?cnf) s)"
        using inv' c lens(1) by (intro evse_inv_queue) auto
      then show ?thesis
        using True run conf measured by (simp add: on_match_req_def Let_def evse_inv_state)
    qed
  qed (use inv' conf in \<open>auto simp: on_match_req_def split: option.splits\<close>)
qed

lemma evse_inv_frame:
  assumes inv: "evse_inv c h s" and c: "wf_evse_config c"
  shows "evse_inv c (h @ [S_Fed now raw]) (evse_handle_frame now raw s)"
proof -
  have inv': "evse_inv c (h @ [S_Fed now raw]) s" using inv by (rule evse_inv_snoc) simp_all
  have fed: "S_Fed now raw \<in> set (since_reset (h @ [S_Fed now raw]))" by simp
  show ?thesis
  proof (cases "slac_parse_frame raw")
    case (Inl e)
    then show ?thesis using inv' by (simp add: evse_handle_frame_def accept_frame_def)
  next
    case (Inr f)
    note via = brings_def [of raw, unfolded Inr]
    show ?thesis
      using inv' evse_inv_parm_req [OF inv' c fed] evse_inv_start_atten [OF inv'] evse_inv_sound [OF inv' c fed]
        evse_inv_match_req [OF inv c, of raw] evse_inv_fail [OF inv']
      by (auto simp: evse_handle_frame_def accept_frame_def Inr decoded_Some via on_atten_rsp_def
          split: mmtype.split option.split)
  qed
qed

lemma evse_inv_timeout:
  assumes "evse_inv c h s" and "wf_evse_config c"
  shows "evse_inv c h (evse_handle_timeout now s)"
proof -
  have inv: "evse_inv c h (s\<lparr>es_deadline := None\<rparr>)" using assms(1) by simp
  show ?thesis
  proof (cases "\<exists>run. es_run s = Some run \<and> sr_sounds run > 0")
    case True
    then have "evse_inv c h (finish_sounding now (s\<lparr>es_deadline := None\<rparr>))"
      using evse_inv_finish [OF inv assms(2)] by auto
    then show ?thesis
      using assms(1) evse_inv_fail [OF inv] True
      by (auto simp: evse_handle_timeout_def Let_def split: option.splits evse_state.splits)
  next
    case False
    then show ?thesis
      using assms(1) evse_inv_fail [OF inv]
      by (auto simp: evse_handle_timeout_def Let_def split: option.splits evse_state.splits)
  qed
qed

lemma evse_run_inv:
  assumes "evse_run c h s" and "wf_evse_config c"
  shows "evse_inv c h s"
  using assms(1)
proof induction
  case evse_begin
  then show ?case by (simp add: evse_inv_def evse_new_def)
next
  case (evse_frame h s now raw)
  then show ?case using assms(2) by (blast intro: evse_inv_frame)
next
  case (evse_timeout h s now)
  then have "evse_inv c (h @ [S_Passed now]) s" by (intro evse_inv_snoc) simp_all
  then show ?case using assms(2) by (rule evse_inv_timeout)
next
  case (evse_observes h s p)
  then have "evse_inv c (h @ [S_Observed p]) s" by (intro evse_inv_snoc) simp_all
  then show ?case by (auto simp: evse_inv_def evse_observe_def)
next
  case (evse_resets h s)
  then show ?case using history_mono(4) [of c _ h "[S_Reset]"] by (auto simp: evse_inv_def evse_reset_def)
next
  case (evse_sends h s out s')
  then have q: "es_out s = out # es_out s'" "s' = s\<lparr>es_out := es_out s'\<rparr>"
    by (auto simp: evse_poll_transmit_def split: list.splits)
  have "evse_inv c (h @ [S_Sent out]) s"
    using evse_sends.IH q(1) by (intro evse_inv_snoc) (auto simp: evse_inv_def)
  then have "evse_inv c (h @ [S_Sent out]) (s\<lparr>es_out := es_out s'\<rparr>)" using q(1) by (auto simp: evse_inv_def)
  then show ?case using q(2) by simp
next
  case (evse_tells h s e s')
  then have "evse_inv c (h @ [S_Told e]) s" by (intro evse_inv_snoc) simp_all
  then show ?case using evse_tells.hyps(2) by (auto simp: evse_poll_event_def split: list.splits)
qed

end
