(* ===== verification/Slac_Vehicle.thy ===== *)
theory Slac_Vehicle
  imports Slac_Station
begin

text \<open>
  What the vehicle's matching engine guarantees whatever arrives on the medium: a key is taken only from the sender of
  the quietest report received so far, in a confirmation that names both ends and the run.
\<close>

section \<open>Runs of a vehicle\<close>

datatype ev_step =
    V_Started instant
  | V_Fed instant bytes
  | V_Passed instant
  | V_Sent outgoing
  | V_Told ev_event

inductive ev_run :: "ev_config \<Rightarrow> ev_step list \<Rightarrow> ev \<Rightarrow> bool" for c where
  ev_begin: "ev_run c [] (ev_new c)"
| ev_starts: "ev_run c h v \<Longrightarrow> ev_run c (h @ [V_Started now]) (ev_start now v)"
| ev_frame: "ev_run c h v \<Longrightarrow> ev_run c (h @ [V_Fed now raw]) (ev_handle_frame now raw v)"
| ev_timeout: "ev_run c h v \<Longrightarrow> ev_run c (h @ [V_Passed now]) (ev_handle_timeout now v)"
| ev_sends: "ev_run c h v \<Longrightarrow> ev_poll_transmit v = (Some out, v') \<Longrightarrow> ev_run c (h @ [V_Sent out]) v'"
| ev_tells: "ev_run c h v \<Longrightarrow> ev_poll_event v = (Some e, v') \<Longrightarrow> ev_run c (h @ [V_Told e]) v'"

fun is_start :: "ev_step \<Rightarrow> bool" where
  "is_start (V_Started _) = True"
| "is_start _ = False"

definition since_start :: "ev_step list \<Rightarrow> ev_step list" where
  "since_start h = rev (takeWhile (\<lambda>x. \<not> is_start x) (rev h))"

lemma since_start_snoc [simp]: "since_start (h @ [x]) = (if is_start x then [] else since_start h @ [x])"
  by (simp add: since_start_def)

lemma since_start_Nil [simp]: "since_start [] = []"
  by (simp add: since_start_def)

text \<open>The report a frame brings, if it is one on this vehicle's burst and within its limit.\<close>

definition report_of :: "ev_config \<Rightarrow> mac_addr \<Rightarrow> slac_atten_ind \<Rightarrow> (mac_addr \<times> bytes \<times> u8) list" where
  "report_of c source ind =
     (if ai_run_id ind = vc_run_id c \<and> ai_source_address ind = vc_mac c \<and> ai_source_id ind = vc_id c then
        (case mean_attenuation (ai_profile ind) of
           Some mean \<Rightarrow> if within_limit (vc_attenuation_limit c) mean then [(source, ai_resp_id ind, mean)] else []
         | None \<Rightarrow> [])
      else [])"

definition report :: "ev_config \<Rightarrow> bytes \<Rightarrow> (mac_addr \<times> bytes \<times> u8) list" where
  "report c raw =
     (case slac_parse_frame raw of
        Inr f \<Rightarrow>
          if fr_mmtype f = MM_AttenCharInd then
            (case atten_ind_decode (fr_payload f) of Inr ind \<Rightarrow> report_of c (fr_source f) ind | Inl _ \<Rightarrow> [])
          else []
      | Inl _ \<Rightarrow> [])"

fun reports :: "ev_config \<Rightarrow> ev_step list \<Rightarrow> (mac_addr \<times> bytes \<times> u8) list" where
  "reports c [] = []"
| "reports c (V_Fed now raw # h) = report c raw @ reports c h"
| "reports c (_ # h) = reports c h"

lemma reports_append [simp]: "reports c (h @ h') = reports c h @ reports c h'"
  by (induction c h rule: reports.induct) simp_all

text \<open>The quietest of the reports, the first one where several are equal.\<close>

fun quieter :: "(mac_addr \<times> bytes \<times> u8) option \<Rightarrow> mac_addr \<times> bytes \<times> u8 \<Rightarrow> (mac_addr \<times> bytes \<times> u8) option" where
  "quieter None r = Some r"
| "quieter (Some (m, i, best)) (m', i', mean) = (if mean < best then Some (m', i', mean) else Some (m, i, best))"

definition quietest :: "(mac_addr \<times> bytes \<times> u8) list \<Rightarrow> (mac_addr \<times> bytes \<times> u8) option" where
  "quietest rs = foldl quieter None rs"

lemma quietest_Nil [simp]: "quietest [] = None"
  by (simp add: quietest_def)

lemma quietest_snoc [simp]: "quietest (rs @ [r]) = quieter (quietest rs) r"
  by (simp add: quietest_def)

lemma quieter_Some [simp]: "quieter b r \<noteq> None"
  by (cases "(b, r)" rule: quieter.cases) auto

lemma quietest_None: "quietest rs = None \<Longrightarrow> rs = []"
  by (cases rs rule: rev_cases) simp_all

lemma quietest_least:
  "quietest rs = Some (m, i, a) \<Longrightarrow> (m, i, a) \<in> set rs \<and> (\<forall>(m', i', a') \<in> set rs. a \<le> a')"
proof (induction rs arbitrary: m i a rule: rev_induct)
  case (snoc r rs)
  obtain m' i' a' where r: "r = (m', i', a')" by (cases r)
  show ?case
  proof (cases "quietest rs")
    case None
    then have "rs = []" by (rule quietest_None)
    with snoc.prems show ?thesis by (auto simp: quietest_def)
  next
    case (Some b)
    obtain n j d where b: "b = (n, j, d)" by (cases b)
    with Some snoc.IH have "(n, j, d) \<in> set rs \<and> (\<forall>(m', i', a') \<in> set rs. d \<le> a')" by blast
    with snoc.prems Some b r show ?thesis by (auto split: if_splits intro: order.trans [OF less_imp_le])
  qed
qed simp

section \<open>The invariant\<close>

definition taken :: "ev_config \<Rightarrow> ev_step list \<Rightarrow> mac_addr \<Rightarrow> bytes \<Rightarrow> bytes \<Rightarrow> bytes \<Rightarrow> bool" where
  "taken c h mac i nmk nid \<longleftrightarrow>
     (\<exists>h0 now raw h1 cnf a. h = h0 @ V_Fed now raw # h1 \<and> brings raw MM_SlacMatchCnf match_cnf_decode mac cnf
        \<and> mc_evse_mac cnf = mac \<and> mc_evse_id cnf = i \<and> mc_nmk cnf = nmk \<and> mc_nid cnf = nid
        \<and> mc_pev_mac cnf = vc_mac c \<and> mc_pev_id cnf = vc_id c \<and> mc_run_id cnf = vc_run_id c
        \<and> quietest (reports c (since_start h0)) = Some (mac, i, a))"

lemma takenI:
  "brings raw MM_SlacMatchCnf match_cnf_decode mac cnf \<Longrightarrow> mc_evse_mac cnf = mac \<Longrightarrow> mc_pev_mac cnf = vc_mac c \<Longrightarrow>
   mc_pev_id cnf = vc_id c \<Longrightarrow> mc_run_id cnf = vc_run_id c \<Longrightarrow>
   quietest (reports c (since_start h0)) = Some (mac, mc_evse_id cnf, a) \<Longrightarrow>
   taken c (h0 @ V_Fed now raw # h1) mac (mc_evse_id cnf) (mc_nmk cnf) (mc_nid cnf)"
  unfolding taken_def by blast

lemma taken_mono: "taken c h mac i nmk nid \<Longrightarrow> taken c (h @ h') mac i nmk nid"
proof -
  assume "taken c h mac i nmk nid"
  then obtain h0 now raw h1 cnf a where h: "h = h0 @ V_Fed now raw # h1"
    and cnf: "brings raw MM_SlacMatchCnf match_cnf_decode mac cnf" "mc_evse_mac cnf = mac" "mc_pev_mac cnf = vc_mac c"
      "mc_pev_id cnf = vc_id c" "mc_run_id cnf = vc_run_id c"
      "quietest (reports c (since_start h0)) = Some (mac, mc_evse_id cnf, a)"
      "mc_evse_id cnf = i" "mc_nmk cnf = nmk" "mc_nid cnf = nid"
    unfolding taken_def by blast
  from takenI [OF cnf(1-6), of now "h1 @ h'"] show ?thesis using h cnf(7-9) by simp
qed

definition ev_inv :: "ev_config \<Rightarrow> ev_step list \<Rightarrow> ev \<Rightarrow> bool" where
  "ev_inv c h v \<longleftrightarrow> vs_config v = c \<and> vs_best v = quietest (reports c (since_start h))
     \<and> (\<forall>mac i nmk nid. VE_Matched mac i nmk nid \<in> set (vs_events v) \<or> V_Told (VE_Matched mac i nmk nid) \<in> set h \<longrightarrow>
          taken c h mac i nmk nid)"

text \<open>What an operation that takes no key and no report leaves alone.\<close>

definition ev_quiet :: "ev \<Rightarrow> ev \<Rightarrow> bool" where
  "ev_quiet v v' \<longleftrightarrow> vs_config v' = vs_config v \<and> vs_best v' = vs_best v
     \<and> (\<forall>mac i nmk nid. VE_Matched mac i nmk nid \<in> set (vs_events v') \<longrightarrow> VE_Matched mac i nmk nid \<in> set (vs_events v))"

lemma ev_quiet_refl [simp]: "ev_quiet v v"
  by (simp add: ev_quiet_def)

lemma ev_quiet_trans: "ev_quiet u v \<Longrightarrow> ev_quiet v w \<Longrightarrow> ev_quiet u w"
  by (simp add: ev_quiet_def)

lemma ev_quiet_fields [simp]:
  "ev_quiet v (v'\<lparr>vs_state := st\<rparr>) = ev_quiet v v'"
  "ev_quiet v (v'\<lparr>vs_deadline := d\<rparr>) = ev_quiet v v'"
  "ev_quiet v (v'\<lparr>vs_results_deadline := d\<rparr>) = ev_quiet v v'"
  "ev_quiet v (v'\<lparr>vs_out := os\<rparr>) = ev_quiet v v'"
  "ev_quiet v (v'\<lparr>vs_answered := as\<rparr>) = ev_quiet v v'"
  "ev_quiet v (v'\<lparr>vs_remaining_sounds := n\<rparr>) = ev_quiet v v'"
  "ev_quiet v (v'\<lparr>vs_remaining_starts := n\<rparr>) = ev_quiet v v'"
  "ev_quiet v (ev_arm now after v') = ev_quiet v v'"
  by (simp_all add: ev_quiet_def ev_arm_def)

lemma ev_quiet_fail: "ev_quiet v v' \<Longrightarrow> ev_quiet v (ev_fail why v')"
  by (auto simp: ev_quiet_def ev_fail_def)

lemma ev_quiet_note: "ev_quiet v v' \<Longrightarrow> (\<And>mac i nmk nid. e \<noteq> VE_Matched mac i nmk nid) \<Longrightarrow> ev_quiet v (ev_note e v')"
  by (auto simp: ev_quiet_def ev_note_def)

lemma ev_quiet_queue: "ev_quiet v v' \<Longrightarrow> ev_quiet v (ev_queue to t enc v')"
  by (auto simp: ev_queue_def ev_quiet_fail split: sum.splits)

lemma ev_quiet_sound: "ev_quiet v v' \<Longrightarrow> ev_quiet v (send_next_sound now v')"
  by (auto simp: send_next_sound_def Let_def intro: ev_quiet_queue)

lemma ev_quiet_choose: "ev_quiet v v' \<Longrightarrow> ev_quiet v (ev_choose now v')"
  by (auto simp: ev_choose_def Let_def intro: ev_quiet_queue ev_quiet_fail split: option.splits)

lemma ev_quiet_timeout: "ev_quiet v (ev_handle_timeout now v)"
  by (auto simp: ev_handle_timeout_def begin_sounding_def Let_def
      intro: ev_quiet_fail ev_quiet_sound ev_quiet_choose split: ev_state.splits option.splits)

lemma ev_quiet_parm_cnf: "ev_quiet v (on_parm_cnf source cnf v)"
  by (auto simp: on_parm_cnf_def intro: ev_quiet_note)

lemma ev_inv_quiet: "ev_inv c h v \<Longrightarrow> ev_quiet v v' \<Longrightarrow> ev_inv c h v'"
  by (auto simp: ev_inv_def ev_quiet_def)

lemma ev_inv_snoc:
  assumes "ev_inv c h v" and "\<not> is_start x" and "reports c [x] = []"
    and "\<And>mac i nmk nid. x = V_Told (VE_Matched mac i nmk nid) \<Longrightarrow> VE_Matched mac i nmk nid \<in> set (vs_events v)"
  shows "ev_inv c (h @ [x]) v"
  using assms taken_mono [of c h _ _ _ _ "[x]"] by (fastforce simp: ev_inv_def)

lemma ev_inv_measurement:
  assumes inv: "ev_inv c h v"
    and own: "ai_run_id ind = vc_run_id c" "ai_source_address ind = vc_mac c" "ai_source_id ind = vc_id c"
    and rep: "report c raw = report_of c source ind"
  shows "ev_inv c (h @ [V_Fed now raw]) (on_measurement now source ind v)"
proof -
  have conf: "vs_config v = c" and best: "vs_best v = quietest (reports c (since_start h))"
    using inv by (simp_all add: ev_inv_def)
  have keep: "taken c h mac i nmk nid \<Longrightarrow> taken c (h @ [V_Fed now raw]) mac i nmk nid" for mac i nmk nid
    by (rule taken_mono)
  show ?thesis
  proof (cases "mean_attenuation (ai_profile ind)")
    case None
    then show ?thesis
      using inv keep by (auto simp: on_measurement_def ev_inv_def rep report_of_def)
  next
    case (Some mean)
    let ?n = "ev_note (VE_Measurement source mean) v"
    have n: "ev_quiet v ?n" "vs_config ?n = c" "vs_best ?n = vs_best v"
      by (auto simp: ev_note_def ev_quiet_def conf)
    show ?thesis
    proof (cases "within_limit (vc_attenuation_limit c) mean")
      case False
      then have "on_measurement now source ind v = ?n"
        using Some n(2) by (auto simp: on_measurement_def Let_def within_limit_def not_le split: option.splits)
      moreover have "report c raw = []" using False Some by (simp add: rep report_of_def)
      ultimately show ?thesis using inv n keep by (auto simp: ev_inv_def ev_quiet_def)
    next
      case True
      define w where "w = (if (case vs_best ?n of None \<Rightarrow> True | Some (_, _, best) \<Rightarrow> mean < best)
          then ?n\<lparr>vs_best := Some (source, ai_resp_id ind, mean)\<rparr> else ?n)"
      have w: "vs_best w = quieter (vs_best v) (source, ai_resp_id ind, mean)"
        by (cases "vs_best v") (auto simp: w_def n(3))
      have "vs_best (on_measurement now source ind v) = vs_best w \<and> vs_config (on_measurement now source ind v) = vs_config w
          \<and> vs_events (on_measurement now source ind v) = vs_events w"
        using True Some n(2)
        by (auto simp: on_measurement_def Let_def within_limit_def w_def [symmetric] not_less [symmetric] split: option.splits)
      moreover have "vs_config w = c" "vs_events w = vs_events ?n" by (simp_all add: w_def n(2))
      moreover have "report c raw = [(source, ai_resp_id ind, mean)]" using True Some own by (simp add: rep report_of_def)
      ultimately show ?thesis
        using inv n(1) keep w best by (auto simp: ev_inv_def ev_quiet_def)
    qed
  qed
qed

lemma ev_inv_match_cnf:
  assumes inv: "ev_inv c h v" and cnf: "brings raw MM_SlacMatchCnf match_cnf_decode source m" and rep: "report c raw = []"
  shows "ev_inv c (h @ [V_Fed now raw]) (on_match_cnf source m v)"
proof -
  have inv': "ev_inv c (h @ [V_Fed now raw]) v" using inv rep by (intro ev_inv_snoc) simp_all
  show ?thesis
  proof (cases "on_match_cnf source m v = v")
    case False
    obtain a where best: "vs_best v = Some (source, mc_evse_id m, a)" and "mc_evse_mac m = source"
      "mc_pev_mac m = vc_mac c" "mc_pev_id m = vc_id c" "mc_run_id m = vc_run_id c"
      and upd: "on_match_cnf source m v = v\<lparr>vs_state := VS_Matched, vs_deadline := None,
         vs_events := vs_events v @ [VE_Matched (mc_evse_mac m) (mc_evse_id m) (mc_nmk m) (mc_nid m)]\<rparr>"
      using False inv by (auto simp: on_match_cnf_def ev_inv_def split: if_splits option.splits)
    moreover have "quietest (reports c (since_start h)) = Some (source, mc_evse_id m, a)"
      using best inv by (simp add: ev_inv_def)
    ultimately have "taken c (h @ [V_Fed now raw]) (mc_evse_mac m) (mc_evse_id m) (mc_nmk m) (mc_nid m)"
      using takenI [OF cnf, of c h a now "[]"] by simp
    then show ?thesis using inv' upd by (auto simp: ev_inv_def)
  qed (use inv' in simp)
qed

lemma ev_inv_frame:
  assumes inv: "ev_inv c h v"
  shows "ev_inv c (h @ [V_Fed now raw]) (ev_handle_frame now raw v)"
proof (cases "slac_parse_frame raw")
  case (Inl e)
  then have "report c raw = []" by (simp add: report_def)
  then show ?thesis using inv Inl by (auto simp: ev_handle_frame_def accept_frame_def intro: ev_inv_snoc)
next
  case (Inr f)
  have conf: "vs_config v = c" using inv by (simp add: ev_inv_def)
  have rep: "report c raw = (if fr_mmtype f = MM_AttenCharInd then
      (case atten_ind_decode (fr_payload f) of Inr ind \<Rightarrow> report_of c (fr_source f) ind | Inl _ \<Rightarrow> []) else [])"
    by (simp add: report_def Inr)
  have skip: "report c raw = [] \<Longrightarrow> ev_inv c (h @ [V_Fed now raw]) v"
    using inv by (intro ev_inv_snoc) simp_all
  consider (parm) "fr_mmtype f = MM_SlacParmCnf" | (report) "fr_mmtype f = MM_AttenCharInd"
    | (key) "fr_mmtype f = MM_SlacMatchCnf" | (other) "ev_handle_frame now raw v = v" "fr_mmtype f \<noteq> MM_AttenCharInd"
    by (cases "fr_mmtype f") (simp_all add: ev_handle_frame_def accept_frame_def Inr)
  then show ?thesis
  proof cases
    case parm
    then have "report c raw = []" by (simp add: rep)
    then show ?thesis
      using skip parm ev_quiet_parm_cnf ev_inv_quiet
      by (auto simp: ev_handle_frame_def accept_frame_def Inr split: option.split)
  next
    case report
    show ?thesis
    proof (cases "\<exists>ind. atten_ind_decode (fr_payload f) = Inr ind \<and> ai_run_id ind = vc_run_id c
        \<and> ai_source_address ind = vc_mac c \<and> ai_source_id ind = vc_id c")
      case True
      then obtain ind where ind: "atten_ind_decode (fr_payload f) = Inr ind" "ai_run_id ind = vc_run_id c"
        "ai_source_address ind = vc_mac c" "ai_source_id ind = vc_id c" by blast
      then have "report c raw = report_of c (fr_source f) ind" using report by (simp add: rep)
      from ev_inv_measurement [OF inv ind(2-4) this, of now] show ?thesis
        using report ind conf by (simp add: ev_handle_frame_def accept_frame_def Inr decoded_def)
    next
      case False
      then have "report c raw = []" "ev_handle_frame now raw v = v"
        using report conf
        by (auto simp: rep report_of_def ev_handle_frame_def accept_frame_def Inr decoded_def split: sum.splits)
      then show ?thesis using skip by simp
    qed
  next
    case key
    then have none: "report c raw = []" by (simp add: rep)
    show ?thesis
    proof (cases "match_cnf_decode (fr_payload f)")
      case (Inr cnf)
      then have "brings raw MM_SlacMatchCnf match_cnf_decode (fr_source f) cnf"
        using key \<open>slac_parse_frame raw = Inr f\<close> by (simp add: brings_def)
      from ev_inv_match_cnf [OF inv this none, of now] show ?thesis
        using key Inr \<open>slac_parse_frame raw = Inr f\<close> by (simp add: ev_handle_frame_def accept_frame_def decoded_def)
    qed (use key skip none Inr in \<open>simp add: ev_handle_frame_def accept_frame_def decoded_def\<close>)
  next
    case other
    then show ?thesis using skip by (simp add: rep)
  qed
qed

lemma ev_run_inv:
  assumes "ev_run c h v"
  shows "ev_inv c h v"
  using assms
proof induction
  case ev_begin
  then show ?case by (simp add: ev_inv_def ev_new_def)
next
  case (ev_starts h v now)
  have "ev_quiet (v\<lparr>vs_best := None\<rparr>) (ev_start now v)"
    unfolding ev_start_def Let_def by (simp add: ev_quiet_queue)
  moreover have "ev_inv c (h @ [V_Started now]) (v\<lparr>vs_best := None\<rparr>)"
    using ev_starts.IH taken_mono [of c h _ _ _ _ "[V_Started now]"] by (auto simp: ev_inv_def)
  ultimately show ?case by (blast intro: ev_inv_quiet)
next
  case (ev_frame h v now raw)
  then show ?case by (blast intro: ev_inv_frame)
next
  case (ev_timeout h v now)
  then have "ev_inv c (h @ [V_Passed now]) v" by (intro ev_inv_snoc) simp_all
  then show ?case using ev_quiet_timeout by (rule ev_inv_quiet)
next
  case (ev_sends h v out v')
  then have "ev_inv c (h @ [V_Sent out]) v" by (intro ev_inv_snoc) simp_all
  moreover have "ev_quiet v v'" using ev_sends.hyps(2) by (auto simp: ev_poll_transmit_def split: list.splits)
  ultimately show ?case by (rule ev_inv_quiet)
next
  case (ev_tells h v e v')
  then have q: "vs_events v = e # vs_events v'" "ev_quiet v v'"
    by (auto simp: ev_poll_event_def ev_quiet_def split: list.splits)
  have "ev_inv c (h @ [V_Told e]) v" using ev_tells.IH q(1) by (intro ev_inv_snoc) simp_all
  then show ?case using q(2) by (rule ev_inv_quiet)
qed

end
