(* ===== verification/Slac_Frames.thy ===== *)
theory Slac_Frames
  imports Slac_Station
begin

text \<open>
  The frames an engine builds: every message of the right shape fits the frame buffer and is read back from it, and a
  station never fails to build one.
\<close>

section \<open>Messages that cross\<close>

lemma slac_write_frame_fits:
  assumes "length payload \<le> 173" and "length destination = 6" and "length source = 6"
  shows "\<exists>k frame. slac_write_frame (replicate MAX_FRAME_LEN 0) destination source MMV t payload = Inr (k, frame)
    \<and> MIN_FRAME_LEN \<le> k \<and> k \<le> MAX_FRAME_LEN \<and> k \<le> length frame"
proof -
  have "max (ETHERNET_HEADER_LEN + 3 + fragmentation_len MMV + length payload) MIN_FRAME_LEN \<le> MAX_FRAME_LEN"
    using assms(1) by (simp add: MAX_FRAME_LEN_def MMV_def ETHERNET_HEADER_LEN_def MIN_FRAME_LEN_def)
  then show ?thesis
    using assms(2,3) by (auto simp: slac_write_frame_def Let_def not_less le16_def ETHERNET_HEADER_LEN_def MIN_FRAME_LEN_def MAX_FRAME_LEN_def)
qed

context slac_message
begin

lemma message_framed:
  assumes "wf m" and "len \<le> 173" and "length destination = 6" and "length source = 6" and "wf_mmtype t"
  shows "\<exists>out f. slac_build destination source t (enc m) = Inr out \<and> og_destination out = destination
    \<and> MIN_FRAME_LEN \<le> length (og_frame out) \<and> length (og_frame out) \<le> MAX_FRAME_LEN
    \<and> slac_parse_frame (og_frame out) = Inr f \<and> fr_destination f = destination \<and> fr_source f = source
    \<and> fr_mmtype f = t \<and> dec (fr_payload f) = Inr m"
proof -
  let ?buf = "replicate MAX_FRAME_LEN (0 :: u8)"
  have e: "enc m ?buf = Inr (len, body m @ drop len ?buf)"
    using assms(1,2) by (simp add: enc_body MAX_FRAME_LEN_def)
  have "length (take len (body m @ drop len ?buf)) \<le> 173" using assms(1,2) by (simp add: body_length)
  from slac_write_frame_fits [OF this assms(3,4)] obtain k frame where
    w: "slac_write_frame ?buf destination source MMV t (take len (body m @ drop len ?buf)) = Inr (k, frame)"
    and k: "MIN_FRAME_LEN \<le> k" "k \<le> MAX_FRAME_LEN" "k \<le> length frame" by blast
  have "slac_build destination source t (enc m) = Inr \<lparr>og_destination = destination, og_frame = take k frame\<rparr>"
    using e w by (simp add: slac_build_def)
  moreover obtain f where "slac_parse_frame (take k frame) = Inr f" "fr_destination f = destination" "fr_source f = source"
    "fr_mmtype f = t" "dec (fr_payload f) = Inr m"
    using framed_roundtrip [OF assms(1) e w assms(3-5)] by blast
  ultimately show ?thesis using k by force
qed

lemma message_built:
  assumes "wf m" and "len \<le> 173" and "length destination = 6" and "length source = 6" and "wf_mmtype t"
  shows "\<exists>out. slac_build destination source t (enc m) = Inr out \<and> brings (og_frame out) t dec source m"
  using message_framed [OF assms] by (auto simp: brings_def)

end

section \<open>What a station sends\<close>

definition typed_frame :: "evse_config \<Rightarrow> outgoing \<Rightarrow> bool" where
  "typed_frame c out \<longleftrightarrow>
     (\<exists>f. slac_parse_frame (og_frame out) = Inr f \<and> fr_source f = ec_mac c \<and> fr_destination f = og_destination out
        \<and> MIN_FRAME_LEN \<le> length (og_frame out) \<and> length (og_frame out) \<le> MAX_FRAME_LEN
        \<and> (fr_mmtype f = MM_SlacParmCnf \<and> (\<exists>m. parm_cnf_decode (fr_payload f) = Inr m)
         \<or> fr_mmtype f = MM_AttenCharInd \<and> (\<exists>m. atten_ind_decode (fr_payload f) = Inr m \<and> ai_resp_id m = ec_id c)
         \<or> fr_mmtype f = MM_SlacMatchCnf \<and> (\<exists>m. match_cnf_decode (fr_payload f) = Inr m \<and> mc_evse_mac m = ec_mac c
             \<and> mc_evse_id m = ec_id c \<and> mc_nmk m = ec_nmk c \<and> mc_nid m = ec_nid c)))"

definition typed_run :: "slac_run \<Rightarrow> bool" where
  "typed_run run \<longleftrightarrow> length (sr_pev_mac run) = 6 \<and> length (sr_id run) = RUN_ID_LEN \<and> length (sr_pev_id run) = STATION_ID_LEN"

definition typed_evse :: "evse_config \<Rightarrow> evse \<Rightarrow> bool" where
  "typed_evse c s \<longleftrightarrow> es_config s = c \<and> (\<forall>run. es_run s = Some run \<longrightarrow> typed_run run)
     \<and> (\<forall>p. es_measured s = Some p \<longrightarrow> wf_atten p)
     \<and> (\<forall>out \<in> set (es_out s). typed_frame c out) \<and> length (es_out s) \<le> SLAC_MAX_PENDING_FRAMES
     \<and> SE_Failed EncodingFailed \<notin> set (es_events s)"

lemma typed_fields [simp]:
  "typed_evse c (s\<lparr>es_state := st\<rparr>) = typed_evse c s" "typed_evse c (s\<lparr>es_deadline := d\<rparr>) = typed_evse c s"
  "typed_evse c (evse_arm now after s) = typed_evse c s"
  by (simp_all add: typed_evse_def evse_arm_def)

lemma typed_fail: "typed_evse c s \<Longrightarrow> why \<noteq> EncodingFailed \<Longrightarrow> typed_evse c (evse_fail why s)"
  by (auto simp: typed_evse_def evse_fail_def)

lemma typed_note: "typed_evse c s \<Longrightarrow> e \<noteq> SE_Failed EncodingFailed \<Longrightarrow> typed_evse c (evse_note e s)"
  by (auto simp: typed_evse_def evse_note_def)

lemma typed_queue:
  assumes "typed_evse c s" and "slac_build to (ec_mac c) t enc = Inr out" and "typed_frame c out"
  shows "typed_evse c (evse_queue to t enc s)"
  using assms by (auto simp: typed_evse_def evse_queue_def)

lemma typed_set_run: "typed_evse c s \<Longrightarrow> typed_run run \<Longrightarrow> typed_evse c (s\<lparr>es_run := Some run\<rparr>)"
  by (simp add: typed_evse_def)

text \<open>The three messages of a station are built.\<close>

lemma parm_cnf_typed:
  assumes "wf_evse_config c" and "length to = 6" and "wf_parm_cnf m" and "typed_evse c s"
  shows "typed_evse c (evse_queue to MM_SlacParmCnf (parm_cnf_encode m) s)"
proof -
  have "length (ec_mac c) = 6" using assms(1) by (simp add: wf_evse_config_def)
  from parm_cnf.message_framed [OF assms(3) _ assms(2) this, of MM_SlacParmCnf] show ?thesis
    by (auto intro!: typed_queue [OF assms(4)] simp: typed_frame_def)
qed

lemma atten_ind_typed:
  assumes "wf_evse_config c" and "length to = 6" and "wf_atten_ind m" and "ai_resp_id m = ec_id c" and "typed_evse c s"
  shows "typed_evse c (evse_queue to MM_AttenCharInd (atten_ind_encode m) s)"
proof -
  have "length (ec_mac c) = 6" using assms(1) by (simp add: wf_evse_config_def)
  from atten_ind.message_framed [OF assms(3) _ assms(2) this, of MM_AttenCharInd] show ?thesis
    using assms(4) by (auto intro!: typed_queue [OF assms(5)] simp: typed_frame_def)
qed

lemma match_cnf_typed:
  assumes "wf_evse_config c" and "length to = 6" and "wf_match_cnf m" and "typed_evse c s"
    and "mc_evse_mac m = ec_mac c" "mc_evse_id m = ec_id c" "mc_nmk m = ec_nmk c" "mc_nid m = ec_nid c"
  shows "typed_evse c (evse_queue to MM_SlacMatchCnf (match_cnf_encode m) s)"
proof -
  have "length (ec_mac c) = 6" using assms(1) by (simp add: wf_evse_config_def)
  from match_cnf.message_framed [OF assms(3) _ assms(2) this, of MM_SlacMatchCnf] show ?thesis
    using assms(5-8) by (auto intro!: typed_queue [OF assms(4)] simp: typed_frame_def)
qed

section \<open>Every step keeps the types\<close>

lemma typed_parm_req:
  assumes "wf_evse_config c" and "length source = 6" and "wf_parm_req m" and "typed_evse c s"
  shows "typed_evse c (on_parm_req now source m s)"
proof -
  let ?run = "\<lparr>sr_id = pq_run_id m, sr_pev_mac = source, sr_pev_id = replicate STATION_ID_LEN 0, sr_sounds = 0,
    sr_expected_sounds = C_EV_MATCH_MNBC\<rparr>"
  have "typed_run ?run" using assms(2,3) by (simp add: typed_run_def wf_parm_req_def)
  then have "typed_evse c (evse_note (SE_RunStarted (pq_run_id m)) (s\<lparr>es_run := Some ?run, es_state := ES_Sounding\<rparr>))"
    using assms(4) by (intro typed_note) (simp_all add: typed_evse_def)
  then show ?thesis
    using assms by (auto simp: on_parm_req_def Let_def wf_parm_cnf_def wf_parm_req_def BROADCAST_def intro!: parm_cnf_typed)
qed

lemma typed_start_atten: "typed_evse c s \<Longrightarrow> typed_evse c (on_start_atten now source m s)"
  by (auto simp: on_start_atten_def run_of_def typed_evse_def typed_run_def evse_arm_def split: option.splits)

lemma typed_finish:
  assumes "wf_evse_config c" and "typed_evse c s"
  shows "typed_evse c (finish_sounding now s)"
proof (cases "es_run s")
  case (Some run)
  have run: "typed_run run" using assms(2) Some by (simp add: typed_evse_def)
  have c: "es_config s = c" using assms(2) by (simp add: typed_evse_def)
  show ?thesis
  proof (cases "es_measured s")
    case None
    then show ?thesis using assms(2) Some by (auto simp: finish_sounding_def intro: typed_fail)
  next
    case (Some profile)
    have "wf_atten profile" using assms(2) Some by (simp add: typed_evse_def)
    moreover have "es_config (evse_note e (s\<lparr>es_state := st\<rparr>)) = c" for e st by (simp add: evse_note_def c)
    ultimately show ?thesis
      using assms run \<open>es_run s = Some run\<close> Some
      by (auto simp: finish_sounding_def Let_def c typed_run_def wf_atten_ind_def wf_evse_config_def
          intro!: typed_fail atten_ind_typed typed_note)
  qed
qed (use assms in \<open>simp add: finish_sounding_def\<close>)

lemma typed_sound:
  assumes "wf_evse_config c" and "wf_mnbc_sound m" and "typed_evse c s"
  shows "typed_evse c (on_sound now source m s)"
proof (cases "run_of (ms_run_id m) source s")
  case (Some run)
  then have "typed_run run" using assms(3) by (simp add: typed_evse_def run_of_Some)
  then have "typed_evse c (s\<lparr>es_run := Some (run\<lparr>sr_pev_id := ms_sender_id m, sr_sounds := n\<rparr>)\<rparr>)" for n
    using assms(2,3) by (intro typed_set_run) (simp_all add: typed_run_def wf_mnbc_sound_def)
  then show ?thesis using Some assms(1) by (auto simp: on_sound_def Let_def intro: typed_finish)
qed (use assms in \<open>simp add: on_sound_def\<close>)

lemma typed_match_req:
  assumes "wf_evse_config c" and "wf_match_req m" and "typed_evse c s"
  shows "typed_evse c (on_match_req source m s)"
proof (cases "run_of (mq_run_id m) source s")
  case (Some run)
  have c: "es_config s = c" using assms(3) by (simp add: typed_evse_def)
  have "typed_run run" using Some assms(3) by (simp add: typed_evse_def run_of_Some)
  then have "typed_evse c (evse_queue (mq_pev_mac m) MM_SlacMatchCnf (match_cnf_encode
      \<lparr>mc_pev_id = mq_pev_id m, mc_pev_mac = mq_pev_mac m, mc_evse_id = ec_id c, mc_evse_mac = ec_mac c,
       mc_run_id = sr_id run, mc_nid = ec_nid c, mc_nmk = ec_nmk c\<rparr>) s)"
    using assms by (intro match_cnf_typed) (auto simp: wf_match_req_def wf_match_cnf_def wf_evse_config_def typed_run_def)
  then show ?thesis
    using Some assms(3) by (auto simp: on_match_req_def Let_def c typed_fail) (auto simp: typed_evse_def)
qed (use assms in \<open>simp add: on_match_req_def\<close>)

lemma typed_handle_frame:
  assumes "wf_evse_config c" and "typed_evse c s"
  shows "typed_evse c (evse_handle_frame now raw s)"
proof (cases "slac_parse_frame raw")
  case (Inr f)
  have src: "length (fr_source f) = 6" using parse_frame_source [OF Inr] by simp
  have rsp: "typed_evse c (on_atten_rsp source m s)" for source m
    using assms(2) by (auto simp: on_atten_rsp_def intro: typed_fail)
  show ?thesis
    using assms src rsp
    by (auto simp: evse_handle_frame_def accept_frame_def Inr decoded_Some typed_start_atten
        intro: typed_parm_req typed_sound typed_match_req parm_req.dec_wf mnbc_sound.dec_wf match_req.dec_wf
        split: mmtype.split option.split)
qed (use assms in \<open>simp add: evse_handle_frame_def accept_frame_def\<close>)

lemma typed_timeout:
  assumes "wf_evse_config c" and "typed_evse c s"
  shows "typed_evse c (evse_handle_timeout now s)"
  using assms by (auto simp: evse_handle_timeout_def Let_def intro!: typed_finish typed_fail split: option.split evse_state.split)

lemma evse_run_typed:
  assumes "evse_run c h s" and "wf_evse_config c" and "\<forall>p. S_Observed p \<in> set h \<longrightarrow> wf_atten p"
  shows "typed_evse c s \<and> (\<forall>out. S_Sent out \<in> set h \<longrightarrow> typed_frame c out) \<and> S_Told (SE_Failed EncodingFailed) \<notin> set h"
  using assms(1,3)
proof induction
  case evse_begin
  then show ?case by (simp add: typed_evse_def evse_new_def)
next
  case (evse_frame h s now raw)
  then show ?case using assms(2) by (simp add: typed_handle_frame)
next
  case (evse_timeout h s now)
  then show ?case using assms(2) by (simp add: typed_timeout)
next
  case (evse_observes h s p)
  then show ?case by (simp add: typed_evse_def evse_observe_def)
next
  case (evse_resets h s)
  then show ?case by (simp add: typed_evse_def evse_reset_def)
next
  case (evse_sends h s out s')
  then show ?case by (auto simp: typed_evse_def evse_poll_transmit_def split: list.splits)
next
  case (evse_tells h s e s')
  then show ?case by (auto simp: typed_evse_def evse_poll_event_def split: list.splits)
qed

end
