(* ===== verification/Slac_Pair.thy ===== *)
theory Slac_Pair
  imports Slac_Vehicle Slac_Frames
begin

text \<open>
  A vehicle and a station on a medium of their own: the matching run goes through, from the vehicle's first broadcast
  to the key at both ends.
\<close>

section \<open>Messages that cross\<close>

lemma ev_queue_sends:
  assumes "slac_build to (vc_mac (vs_config v)) t enc = Inr out" and "length (vs_out v) < SLAC_MAX_PENDING_FRAMES"
  shows "ev_queue to t enc v = v\<lparr>vs_out := vs_out v @ [out]\<rparr>"
  using assms by (simp add: ev_queue_def)

lemma evse_queue_sends:
  assumes "slac_build to (ec_mac (es_config s)) t enc = Inr out" and "length (es_out s) < SLAC_MAX_PENDING_FRAMES"
  shows "evse_queue to t enc s = s\<lparr>es_out := es_out s @ [out]\<rparr>"
  using assms by (simp add: evse_queue_def)

text \<open>What a frame that brings a message does to either end.\<close>

lemma evse_receives:
  "brings raw MM_SlacParmReq parm_req_decode source m1 \<Longrightarrow> evse_handle_frame now raw s = on_parm_req now source m1 s"
  "brings raw MM_StartAttenCharInd start_atten_decode source m2 \<Longrightarrow> evse_handle_frame now raw s = on_start_atten now source m2 s"
  "brings raw MM_MnbcSoundInd mnbc_sound_decode source m3 \<Longrightarrow> evse_handle_frame now raw s = on_sound now source m3 s"
  "brings raw MM_AttenCharRsp atten_rsp_decode source m4 \<Longrightarrow> evse_handle_frame now raw s = on_atten_rsp source m4 s"
  "brings raw MM_SlacMatchReq match_req_decode source m5 \<Longrightarrow> evse_handle_frame now raw s = on_match_req source m5 s"
  by (auto simp: brings_def evse_handle_frame_def accept_frame_def decoded_def)

lemma ev_receives:
  "brings raw MM_SlacParmCnf parm_cnf_decode source m1 \<Longrightarrow> ev_handle_frame now raw v = on_parm_cnf source m1 v"
  "brings raw MM_AttenCharInd atten_ind_decode source m2 \<Longrightarrow> ai_run_id m2 = vc_run_id (vs_config v) \<Longrightarrow>
     ai_source_address m2 = vc_mac (vs_config v) \<Longrightarrow> ai_source_id m2 = vc_id (vs_config v) \<Longrightarrow>
     ev_handle_frame now raw v = on_measurement now source m2 v"
  "brings raw MM_SlacMatchCnf match_cnf_decode source m3 \<Longrightarrow> ev_handle_frame now raw v = on_match_cnf source m3 v"
  by (auto simp: brings_def ev_handle_frame_def accept_frame_def decoded_def)

section \<open>The medium\<close>

text \<open>
  At an instant both clocks are advanced, then the station hears what the vehicle has queued and the vehicle what the
  station has. The next instant is the vehicle's deadline.
\<close>

definition evse_feed :: "instant \<Rightarrow> outgoing list \<Rightarrow> evse \<Rightarrow> evse" where
  "evse_feed now frames s = foldl (\<lambda>s out. evse_handle_frame now (og_frame out) s) s frames"

definition ev_feed :: "instant \<Rightarrow> outgoing list \<Rightarrow> ev \<Rightarrow> ev" where
  "ev_feed now frames v = foldl (\<lambda>v out. ev_handle_frame now (og_frame out) v) v frames"

lemma feed_simps [simp]:
  "evse_feed now [] s = s" "evse_feed now (out # frames) s = evse_feed now frames (evse_handle_frame now (og_frame out) s)"
  "ev_feed now [] v = v" "ev_feed now (out # frames) v = ev_feed now frames (ev_handle_frame now (og_frame out) v)"
  by (simp_all add: evse_feed_def ev_feed_def)

definition slac_deliver :: "instant \<Rightarrow> ev \<times> evse \<Rightarrow> ev \<times> evse" where
  "slac_deliver now p =
     (let (v, s) = p;
          s = evse_feed now (vs_out v) s;
          v = ev_feed now (es_out s) (v\<lparr>vs_out := []\<rparr>)
      in (v, s\<lparr>es_out := []\<rparr>))"

definition slac_begin :: "instant \<Rightarrow> ev_config \<Rightarrow> evse_config \<Rightarrow> atten_profile \<Rightarrow> ev \<times> evse" where
  "slac_begin now cv cs profile = slac_deliver now (ev_start now (ev_new cv), evse_observe profile (evse_new cs))"

definition slac_tick :: "ev \<times> evse \<Rightarrow> ev \<times> evse" where
  "slac_tick p =
     (case vs_deadline (fst p) of
        None \<Rightarrow> p
      | Some now \<Rightarrow> slac_deliver now (ev_handle_timeout now (fst p), evse_handle_timeout now (snd p)))"

section \<open>The matching run\<close>

definition wf_ev_config :: "ev_config \<Rightarrow> bool" where
  "wf_ev_config c \<longleftrightarrow> length (vc_mac c) = 6 \<and> length (vc_id c) = STATION_ID_LEN \<and> length (vc_run_id c) = RUN_ID_LEN
     \<and> length (vc_sounding_payload c) = 16"

text \<open>A link that both ends find close enough.\<close>

definition close_link :: "ev_config \<Rightarrow> evse_config \<Rightarrow> atten_profile \<Rightarrow> u8 \<Rightarrow> bool" where
  "close_link cv cs profile mean \<longleftrightarrow> wf_ev_config cv \<and> wf_evse_config cs \<and> wf_atten profile
     \<and> mean_attenuation profile = Some mean \<and> within_limit (vc_attenuation_limit cv) mean
     \<and> within_limit (ec_attenuation_limit cs) mean"

text \<open>The vehicle and the station as the run leaves them between two instants.\<close>

definition run_ev :: "ev_config \<Rightarrow> evse_config \<Rightarrow> ev_state \<Rightarrow> (mac_addr \<times> bytes \<times> u8) option \<Rightarrow> u8 \<Rightarrow> u8 \<Rightarrow>
    instant option \<Rightarrow> instant option \<Rightarrow> ev_event list \<Rightarrow> ev" where
  "run_ev cv cs st best starts sounds d rd events =
     \<lparr>vs_config = cv, vs_state = st, vs_best = best, vs_answered = [ec_mac cs], vs_remaining_sounds = sounds,
      vs_remaining_starts = starts, vs_deadline = d, vs_results_deadline = rd, vs_out = [],
      vs_events = VE_StationFound (ec_mac cs) # events\<rparr>"

definition run_evse :: "ev_config \<Rightarrow> evse_config \<Rightarrow> atten_profile \<Rightarrow> evse_state \<Rightarrow> bytes \<Rightarrow> u8 \<Rightarrow> instant option \<Rightarrow>
    evse_event list \<Rightarrow> evse" where
  "run_evse cv cs profile st i n d events =
     \<lparr>es_config = cs, es_state = st,
      es_run = Some \<lparr>sr_id = vc_run_id cv, sr_pev_mac = vc_mac cv, sr_pev_id = i, sr_sounds = n, sr_expected_sounds = C_EV_MATCH_MNBC\<rparr>,
      es_measured = Some profile, es_deadline = d, es_out = [], es_events = SE_RunStarted (vc_run_id cv) # events\<rparr>"

lemmas run_defs = run_ev_def run_evse_def close_link_def wf_ev_config_def wf_evse_config_def

lemma length_BROADCAST [simp]: "length BROADCAST = 6"
  by (simp add: BROADCAST_def)

lemmas tick_defs = slac_tick_def slac_deliver_def ev_handle_timeout_def evse_handle_timeout_def send_next_sound_def
  ev_queue_def ev_arm_def evse_queue_def evse_arm_def evse_note_def ev_note_def run_of_def instant_add_def slac_timer_defs
  SLAC_MAX_PENDING_FRAMES_def MAX_PENDING_EVENTS_def

text \<open>The broadcast is answered.\<close>

lemma begin_step:
  assumes "close_link cv cs profile mean" and "t + 20000 \<le> U64_MAX"
  shows "slac_begin t cv cs profile =
    (run_ev cv cs VS_Probing None 0 0 (Some (t + 200)) None [],
     run_evse cv cs profile ES_Sounding (replicate STATION_ID_LEN 0) 0 (Some (t + 10000)) [])"
proof -
  define req where "req = \<lparr>pq_run_id = vc_run_id cv\<rparr>"
  define cnf where "cnf = \<lparr>pc_m_sound_target = BROADCAST, pc_num_sounds = C_EV_MATCH_MNBC, pc_timeout = SOUND_TIMEOUT,
    pc_resp_type = RESP_TYPE, pc_forwarding_sta = vc_mac cv, pc_run_id = vc_run_id cv\<rparr>"
  obtain a where a: "slac_build BROADCAST (vc_mac cv) MM_SlacParmReq (parm_req_encode req) = Inr a"
      "brings (og_frame a) MM_SlacParmReq parm_req_decode (vc_mac cv) req"
    using parm_req.message_built [of req BROADCAST "vc_mac cv" MM_SlacParmReq] assms(1)
    by (auto simp: run_defs req_def wf_parm_req_def)
  obtain b where b: "slac_build (vc_mac cv) (ec_mac cs) MM_SlacParmCnf (parm_cnf_encode cnf) = Inr b"
      "brings (og_frame b) MM_SlacParmCnf parm_cnf_decode (ec_mac cs) cnf"
    using parm_cnf.message_built [of cnf "vc_mac cv" "ec_mac cs" MM_SlacParmCnf] assms(1)
    by (auto simp: run_defs cnf_def wf_parm_cnf_def)
  show ?thesis
    using assms(2) a(1) b(1)
    by (simp add: slac_begin_def ev_start_def ev_new_def evse_new_def evse_observe_def tick_defs evse_receives(1) [OF a(2)]
        ev_receives(1) [OF b(2)] on_parm_req_def on_parm_cnf_def req_def cnf_def run_defs MAX_STATIONS_def)
qed

text \<open>An announcement restarts the station's window.\<close>

abbreviation start_ind :: "ev_config \<Rightarrow> slac_start_atten" where
  "start_ind cv \<equiv> \<lparr>sa_num_sounds = 10, sa_timeout = SOUND_TIMEOUT, sa_resp_type = RESP_TYPE, sa_forwarding_sta = vc_mac cv,
     sa_run_id = vc_run_id cv\<rparr>"

lemma start_frame:
  assumes "close_link cv cs profile mean"
  obtains a where "slac_build BROADCAST (vc_mac cv) MM_StartAttenCharInd (start_atten_encode (start_ind cv)) = Inr a"
    and "\<And>now s. evse_handle_frame now (og_frame a) s = on_start_atten now (vc_mac cv) (start_ind cv) s"
proof -
  obtain a where "slac_build BROADCAST (vc_mac cv) MM_StartAttenCharInd (start_atten_encode (start_ind cv)) = Inr a"
      "brings (og_frame a) MM_StartAttenCharInd start_atten_decode (vc_mac cv) (start_ind cv)"
    using start_atten.message_built [of "start_ind cv" BROADCAST "vc_mac cv" MM_StartAttenCharInd] assms
    by (auto simp: run_defs wf_start_atten_def)
  then show thesis using that evse_receives(2) by blast
qed

lemma probing_step:
  assumes "close_link cv cs profile mean" and "t + 20000 \<le> U64_MAX" and "t < d"
  shows "slac_tick (run_ev cv cs VS_Probing None 0 0 (Some t) None [], run_evse cv cs profile ES_Sounding i 0 (Some d) []) =
    (run_ev cv cs VS_Sounding None 2 10 (Some (t + 40)) None [],
     run_evse cv cs profile ES_Sounding i 0 (Some (t + 600)) [])"
proof (rule start_frame [OF assms(1)])
  fix a
  assume "slac_build BROADCAST (vc_mac cv) MM_StartAttenCharInd (start_atten_encode (start_ind cv)) = Inr a"
    and "\<And>now s. evse_handle_frame now (og_frame a) s = on_start_atten now (vc_mac cv) (start_ind cv) s"
  then show ?thesis
    using assms(2,3) by (simp add: tick_defs begin_sounding_def on_start_atten_def run_ev_def run_evse_def)
qed

lemma announce_step:
  assumes "close_link cv cs profile mean" and "t + 20000 \<le> U64_MAX" and "t < d" and "0 < w"
  shows "slac_tick (run_ev cv cs VS_Sounding None w 10 (Some t) None [], run_evse cv cs profile ES_Sounding i 0 (Some d) []) =
    (run_ev cv cs VS_Sounding None (w - 1) 10 (Some (t + 40)) None [],
     run_evse cv cs profile ES_Sounding i 0 (Some (t + 600)) [])"
proof (rule start_frame [OF assms(1)])
  fix a
  assume "slac_build BROADCAST (vc_mac cv) MM_StartAttenCharInd (start_atten_encode (start_ind cv)) = Inr a"
    and "\<And>now s. evse_handle_frame now (og_frame a) s = on_start_atten now (vc_mac cv) (start_ind cv) s"
  then show ?thesis
    using assms(2-4) by (simp add: tick_defs on_start_atten_def run_ev_def run_evse_def)
qed

text \<open>A sound is counted, and the last one is answered with the measurement.\<close>

abbreviation sound_ind :: "ev_config \<Rightarrow> u8 \<Rightarrow> slac_mnbc_sound" where
  "sound_ind cv b \<equiv> \<lparr>ms_sender_id = vc_id cv, ms_remaining = b, ms_run_id = vc_run_id cv, ms_random = vc_sounding_payload cv\<rparr>"

lemma sound_frame:
  assumes "close_link cv cs profile mean"
  obtains a where "slac_build BROADCAST (vc_mac cv) MM_MnbcSoundInd (mnbc_sound_encode (sound_ind cv b)) = Inr a"
    and "\<And>now s. evse_handle_frame now (og_frame a) s = on_sound now (vc_mac cv) (sound_ind cv b) s"
proof -
  obtain a where "slac_build BROADCAST (vc_mac cv) MM_MnbcSoundInd (mnbc_sound_encode (sound_ind cv b)) = Inr a"
      "brings (og_frame a) MM_MnbcSoundInd mnbc_sound_decode (vc_mac cv) (sound_ind cv b)"
    using mnbc_sound.message_built [of "sound_ind cv b" BROADCAST "vc_mac cv" MM_MnbcSoundInd] assms
    by (auto simp: run_defs wf_mnbc_sound_def)
  then show thesis using that evse_receives(3) by blast
qed

lemma sound_step:
  assumes "close_link cv cs profile mean" and "t + 20000 \<le> U64_MAX" and "t < d" and "0 < b" and "n < 9"
  shows "slac_tick (run_ev cv cs VS_Sounding None 0 b (Some t) None [], run_evse cv cs profile ES_Sounding i n (Some d) []) =
    (run_ev cv cs VS_Sounding None 0 (b - 1) (Some (t + 40)) None [],
     run_evse cv cs profile ES_Sounding (vc_id cv) (n + 1) (Some d) [])"
proof (rule sound_frame [OF assms(1), of "b - 1"])
  fix a
  assume "slac_build BROADCAST (vc_mac cv) MM_MnbcSoundInd (mnbc_sound_encode (sound_ind cv (b - 1))) = Inr a"
    and "\<And>now s. evse_handle_frame now (og_frame a) s = on_sound now (vc_mac cv) (sound_ind cv (b - 1)) s"
  moreover have "n \<noteq> 255" "\<not> 10 \<le> n + 1"
    using assms(5) inc_le [of n 9] by (auto simp: word_less_def word_le_def uint_plus_if_size)
  ultimately show ?thesis
    using assms(2-4) by (simp add: tick_defs on_sound_def run_ev_def run_evse_def)
qed

abbreviation measured_ind :: "ev_config \<Rightarrow> evse_config \<Rightarrow> atten_profile \<Rightarrow> slac_atten_ind" where
  "measured_ind cv cs profile \<equiv> \<lparr>ai_source_address = vc_mac cv, ai_run_id = vc_run_id cv, ai_source_id = vc_id cv,
     ai_resp_id = ec_id cs, ai_num_sounds = 10, ai_profile = profile\<rparr>"

lemma measured_frame:
  assumes "close_link cv cs profile mean"
  obtains a where "slac_build (vc_mac cv) (ec_mac cs) MM_AttenCharInd (atten_ind_encode (measured_ind cv cs profile)) = Inr a"
    and "brings (og_frame a) MM_AttenCharInd atten_ind_decode (ec_mac cs) (measured_ind cv cs profile)"
  using atten_ind.message_built [of "measured_ind cv cs profile" "vc_mac cv" "ec_mac cs" MM_AttenCharInd] assms
  by (auto simp: run_defs wf_atten_ind_def)

lemma last_sound_step:
  assumes "close_link cv cs profile mean" and "t + 20000 \<le> U64_MAX" and "t < d"
  shows "slac_tick (run_ev cv cs VS_Sounding None 0 1 (Some t) None [], run_evse cv cs profile ES_Sounding i 9 (Some d) []) =
    (run_ev cv cs VS_Sounding (Some (ec_mac cs, ec_id cs, mean)) 0 0 (Some (t + 40)) None [VE_Measurement (ec_mac cs) mean],
     run_evse cv cs profile ES_Measured (vc_id cv) 10 (Some (t + 10000)) [SE_Measured mean 10])"
proof (rule sound_frame [OF assms(1), of 0], rule measured_frame [OF assms(1)])
  fix a b
  assume a: "slac_build BROADCAST (vc_mac cv) MM_MnbcSoundInd (mnbc_sound_encode (sound_ind cv 0)) = Inr a"
      "\<And>now s. evse_handle_frame now (og_frame a) s = on_sound now (vc_mac cv) (sound_ind cv 0) s"
    and b: "slac_build (vc_mac cv) (ec_mac cs) MM_AttenCharInd (atten_ind_encode (measured_ind cv cs profile)) = Inr b"
      "brings (og_frame b) MM_AttenCharInd atten_ind_decode (ec_mac cs) (measured_ind cv cs profile)"
  have far: "within_limit l mean \<Longrightarrow> \<not> (case l of Some limit \<Rightarrow> limit < mean | None \<Rightarrow> False)" for l
    by (auto simp: within_limit_def split: option.splits)
  show ?thesis
    using assms a b(1) far [of "ec_attenuation_limit cs"] far [of "vc_attenuation_limit cv"]
    by (simp add: tick_defs on_sound_def finish_sounding_def ev_receives(2) [OF b(2)] on_measurement_def run_ev_def run_evse_def
        close_link_def)
qed

text \<open>The burst is over, and the results are waited for.\<close>

lemma burst_over_step:
  assumes "t + 20000 \<le> U64_MAX" and "t < d"
  shows "slac_tick (run_ev cv cs VS_Sounding best 0 0 (Some t) None evs, run_evse cv cs profile ES_Measured i n (Some d) ses) =
    (run_ev cv cs VS_AwaitingMeasurements best 0 0 (Some (t + 1200)) (Some (t + 1200)) evs,
     run_evse cv cs profile ES_Measured i n (Some d) ses)"
  using assms by (simp add: tick_defs run_ev_def run_evse_def)

text \<open>The vehicle asks the one station it heard for its key, and gets it.\<close>

lemma choose_step:
  assumes "close_link cv cs profile mean" and "t + 20000 \<le> U64_MAX" and "t < d"
  shows "slac_tick (run_ev cv cs VS_AwaitingMeasurements (Some (ec_mac cs, ec_id cs, mean)) 0 0 (Some t) rd [e],
      run_evse cv cs profile ES_Measured i n (Some d) [se]) =
    (run_ev cv cs VS_Matched (Some (ec_mac cs, ec_id cs, mean)) 0 0 None rd
       [e, VE_Matched (ec_mac cs) (ec_id cs) (ec_nmk cs) (ec_nid cs)],
     run_evse cv cs profile ES_Matched i n None [se, SE_Matched (vc_id cv) (vc_mac cv) (ec_nmk cs)])"
proof -
  let ?rsp = "\<lparr>ar_source_address = vc_mac cv, ar_run_id = vc_run_id cv, ar_source_id = vc_id cv, ar_resp_id = ec_id cs, ar_result = 0\<rparr>"
  let ?req = "\<lparr>mq_pev_id = vc_id cv, mq_pev_mac = vc_mac cv, mq_evse_id = ec_id cs, mq_evse_mac = ec_mac cs, mq_run_id = vc_run_id cv\<rparr>"
  let ?cnf = "\<lparr>mc_pev_id = vc_id cv, mc_pev_mac = vc_mac cv, mc_evse_id = ec_id cs, mc_evse_mac = ec_mac cs,
    mc_run_id = vc_run_id cv, mc_nid = ec_nid cs, mc_nmk = ec_nmk cs\<rparr>"
  obtain a where a: "slac_build (ec_mac cs) (vc_mac cv) MM_AttenCharRsp (atten_rsp_encode ?rsp) = Inr a"
      "brings (og_frame a) MM_AttenCharRsp atten_rsp_decode (vc_mac cv) ?rsp"
    using atten_rsp.message_built [of ?rsp "ec_mac cs" "vc_mac cv" MM_AttenCharRsp] assms(1)
    by (auto simp: run_defs wf_atten_rsp_def)
  obtain b where b: "slac_build (ec_mac cs) (vc_mac cv) MM_SlacMatchReq (match_req_encode ?req) = Inr b"
      "brings (og_frame b) MM_SlacMatchReq match_req_decode (vc_mac cv) ?req"
    using match_req.message_built [of ?req "ec_mac cs" "vc_mac cv" MM_SlacMatchReq] assms(1)
    by (auto simp: run_defs wf_match_req_def)
  obtain k where k: "slac_build (vc_mac cv) (ec_mac cs) MM_SlacMatchCnf (match_cnf_encode ?cnf) = Inr k"
      "brings (og_frame k) MM_SlacMatchCnf match_cnf_decode (ec_mac cs) ?cnf"
    using match_cnf.message_built [of ?cnf "vc_mac cv" "ec_mac cs" MM_SlacMatchCnf] assms(1)
    by (auto simp: run_defs wf_match_cnf_def)
  show ?thesis
    using assms(2,3) a(1) b(1) k(1)
    by (simp add: tick_defs ev_choose_def evse_receives(4) [OF a(2)] evse_receives(5) [OF b(2)] ev_receives(3) [OF k(2)]
        on_atten_rsp_def on_match_req_def on_match_cnf_def run_ev_def run_evse_def)
qed

lemma matching_run:
  assumes "close_link cv cs profile mean" and "t + 30000 \<le> U64_MAX"
  shows "(slac_tick ^^ 15) (slac_begin t cv cs profile) =
    (run_ev cv cs VS_Matched (Some (ec_mac cs, ec_id cs, mean)) 0 0 None (Some (t + 1920))
       [VE_Measurement (ec_mac cs) mean, VE_Matched (ec_mac cs) (ec_id cs) (ec_nmk cs) (ec_nid cs)],
     run_evse cv cs profile ES_Matched (vc_id cv) 10 None
       [SE_Measured mean 10, SE_Matched (vc_id cv) (vc_mac cv) (ec_nmk cs)])"
proof -
  have "(slac_tick ^^ 15) p = slac_tick (slac_tick (slac_tick (slac_tick (slac_tick (slac_tick (slac_tick (slac_tick (slac_tick (slac_tick (slac_tick (slac_tick (slac_tick (slac_tick (slac_tick (p)))))))))))))))" for p
    by (simp add: eval_nat_numeral)
  then show ?thesis
    using assms(2)
    by (simp add: begin_step [OF assms(1)] probing_step [OF assms(1)] announce_step [OF assms(1)]
        sound_step [OF assms(1)] last_sound_step [OF assms(1)] burst_over_step choose_step [OF assms(1)]) (simp add: add.commute)
qed

section \<open>The run as runs of both engines\<close>

text \<open>
  What the medium does is what a driver of either engine may do, and the vehicle hears nothing that the station did
  not send.
\<close>

definition pair_run :: "ev_config \<Rightarrow> evse_config \<Rightarrow> atten_profile \<Rightarrow> ev_step list \<Rightarrow> slac_step list \<Rightarrow> ev \<times> evse \<Rightarrow> bool" where
  "pair_run cv cs profile hv hs p \<longleftrightarrow> ev_run cv hv (fst p) \<and> evse_run cs hs (snd p)
     \<and> (\<forall>now raw. V_Fed now raw \<in> set hv \<longrightarrow> (\<exists>out. og_frame out = raw \<and> S_Sent out \<in> set hs))
     \<and> (\<forall>p. S_Observed p \<in> set hs \<longrightarrow> p = profile)"

lemma evse_run_feed:
  "evse_run cs h s \<Longrightarrow> evse_run cs (h @ map (\<lambda>out. S_Fed now (og_frame out)) frames) (evse_feed now frames s)"
proof (induction frames arbitrary: h s)
  case (Cons out frames)
  from Cons.IH [OF evse_frame [OF Cons.prems, of now "og_frame out"]] show ?case by simp
qed simp

lemma ev_run_feed:
  "ev_run cv h v \<Longrightarrow> ev_run cv (h @ map (\<lambda>out. V_Fed now (og_frame out)) frames) (ev_feed now frames v)"
proof (induction frames arbitrary: h v)
  case (Cons out frames)
  from Cons.IH [OF ev_frame [OF Cons.prems, of now "og_frame out"]] show ?case by simp
qed simp

lemma evse_run_drain: "evse_run cs h s \<Longrightarrow> evse_run cs (h @ map S_Sent (es_out s)) (s\<lparr>es_out := []\<rparr>)"
proof (induction "es_out s" arbitrary: h s)
  case (Cons out frames)
  have "evse_poll_transmit s = (Some out, s\<lparr>es_out := frames\<rparr>)"
    by (simp add: evse_poll_transmit_def Cons.hyps(2) [symmetric])
  from Cons.hyps(1) [OF _ evse_sends [OF Cons.prems this]] show ?case by (simp add: Cons.hyps(2) [symmetric])
next
  case Nil
  then have "s\<lparr>es_out := []\<rparr> = s" by (cases s) simp
  with Nil(2) show ?case by (simp only: Nil(1) [symmetric] list.map append_Nil2)
qed

lemma ev_run_drain: "ev_run cv h v \<Longrightarrow> ev_run cv (h @ map V_Sent (vs_out v)) (v\<lparr>vs_out := []\<rparr>)"
proof (induction "vs_out v" arbitrary: h v)
  case (Cons out frames)
  have "ev_poll_transmit v = (Some out, v\<lparr>vs_out := frames\<rparr>)"
    by (simp add: ev_poll_transmit_def Cons.hyps(2) [symmetric])
  from Cons.hyps(1) [OF _ ev_sends [OF Cons.prems this]] show ?case by (simp add: Cons.hyps(2) [symmetric])
next
  case Nil
  then have "v\<lparr>vs_out := []\<rparr> = v" by (cases v) simp
  with Nil(2) show ?case by (simp only: Nil(1) [symmetric] list.map append_Nil2)
qed

lemma ev_run_tell: "ev_run cv h v \<Longrightarrow> ev_run cv (h @ map V_Told (vs_events v)) (v\<lparr>vs_events := []\<rparr>)"
proof (induction "vs_events v" arbitrary: h v)
  case (Cons e events)
  have "ev_poll_event v = (Some e, v\<lparr>vs_events := events\<rparr>)"
    by (simp add: ev_poll_event_def Cons.hyps(2) [symmetric])
  from Cons.hyps(1) [OF _ ev_tells [OF Cons.prems this]] show ?case by (simp add: Cons.hyps(2) [symmetric])
next
  case Nil
  then have "v\<lparr>vs_events := []\<rparr> = v" by (cases v) simp
  with Nil(2) show ?case by (simp only: Nil(1) [symmetric] list.map append_Nil2)
qed

lemma ev_feed_out: "vs_out (ev_feed now frames v) = vs_out v"
proof -
  have "vs_out (ev_handle_frame now raw v) = vs_out v" for raw v
    by (auto simp: ev_handle_frame_def on_parm_cnf_def on_measurement_def on_match_cnf_def ev_note_def Let_def
        split: option.split mmtype.split)
  then show ?thesis by (induction frames arbitrary: v) simp_all
qed

lemma pair_deliver:
  assumes "pair_run cv cs profile hv hs p"
  shows "\<exists>hv' hs'. pair_run cv cs profile hv' hs' (slac_deliver now p)"
proof -
  obtain v s where p: "p = (v, s)" by (cases p)
  let ?s = "evse_feed now (vs_out v) s"
  have "ev_run cv ((hv @ map V_Sent (vs_out v)) @ map (\<lambda>out. V_Fed now (og_frame out)) (es_out ?s))
      (ev_feed now (es_out ?s) (v\<lparr>vs_out := []\<rparr>))"
    using assms unfolding pair_run_def p by (intro ev_run_feed ev_run_drain) simp
  moreover have "evse_run cs ((hs @ map (\<lambda>out. S_Fed now (og_frame out)) (vs_out v)) @ map S_Sent (es_out ?s)) (?s\<lparr>es_out := []\<rparr>)"
    using assms unfolding pair_run_def p by (intro evse_run_drain evse_run_feed) simp
  ultimately have "pair_run cv cs profile (hv @ map V_Sent (vs_out v) @ map (\<lambda>out. V_Fed now (og_frame out)) (es_out ?s))
      (hs @ map (\<lambda>out. S_Fed now (og_frame out)) (vs_out v) @ map S_Sent (es_out ?s)) (slac_deliver now p)"
    using assms unfolding pair_run_def p by (fastforce simp: slac_deliver_def Let_def)
  then show ?thesis by blast
qed

lemma pair_tick:
  assumes "pair_run cv cs profile hv hs p"
  shows "\<exists>hv' hs'. pair_run cv cs profile hv' hs' (slac_tick p)"
proof (cases "vs_deadline (fst p)")
  case (Some now)
  have "pair_run cv cs profile (hv @ [V_Passed now]) (hs @ [S_Passed now])
      (ev_handle_timeout now (fst p), evse_handle_timeout now (snd p))"
    using assms by (auto simp: pair_run_def intro: ev_timeout evse_timeout)
  from pair_deliver [OF this] show ?thesis by (simp add: slac_tick_def Some)
qed (use assms in \<open>auto simp: slac_tick_def\<close>)

lemma pair_begin: "\<exists>hv hs. pair_run cv cs profile hv hs (slac_begin now cv cs profile)"
proof -
  have "pair_run cv cs profile ([] @ [V_Started now]) ([] @ [S_Observed profile]) (ev_start now (ev_new cv), evse_observe profile (evse_new cs))"
    unfolding pair_run_def by (auto intro: ev_starts ev_begin evse_observes evse_begin simp del: append.simps)
  then show ?thesis unfolding slac_begin_def by (rule pair_deliver)
qed

lemma pair_ticks: "\<exists>hv hs. pair_run cv cs profile hv hs ((slac_tick ^^ n) (slac_begin now cv cs profile))"
proof (induction n)
  case (Suc n)
  then show ?case using pair_tick by fastforce
qed (simp add: pair_begin)

text \<open>So a close pair has a run in which the key is sent, received and reported.\<close>

lemma matched_run:
  assumes "close_link cv cs profile mean" and "t + 30000 \<le> U64_MAX"
  shows "\<exists>hv v hs s out. ev_run cv hv v \<and> V_Told (VE_Matched (ec_mac cs) (ec_id cs) (ec_nmk cs) (ec_nid cs)) \<in> set hv
    \<and> evse_run cs hs s \<and> S_Sent out \<in> set hs \<and> key_frame out (vc_run_id cv)
    \<and> (\<forall>p. S_Observed p \<in> set hs \<longrightarrow> p = profile)"
proof -
  obtain hv hs where run: "pair_run cv cs profile hv hs ((slac_tick ^^ 15) (slac_begin t cv cs profile))"
    using pair_ticks by blast
  define v where "v = fst ((slac_tick ^^ 15) (slac_begin t cv cs profile))"
  have v: "ev_run cv hv v" "VE_Matched (ec_mac cs) (ec_id cs) (ec_nmk cs) (ec_nid cs) \<in> set (vs_events v)"
    and s: "\<exists>s. evse_run cs hs s" "\<forall>p. S_Observed p \<in> set hs \<longrightarrow> p = profile"
    using run unfolding pair_run_def by (auto simp: v_def matching_run [OF assms] run_ev_def)
  from ev_run_inv [OF v(1)] v(2) have "taken cv hv (ec_mac cs) (ec_id cs) (ec_nmk cs) (ec_nid cs)"
    by (simp add: ev_inv_def)
  then obtain h0 now raw h1 cnf where "hv = h0 @ V_Fed now raw # h1"
    and raw: "brings raw MM_SlacMatchCnf match_cnf_decode (ec_mac cs) cnf" "mc_run_id cnf = vc_run_id cv"
    unfolding taken_def by blast
  then have "V_Fed now raw \<in> set hv" by simp
  then obtain out where out: "og_frame out = raw" "S_Sent out \<in> set hs" using run unfolding pair_run_def by blast
  then have "key_frame out (vc_run_id cv)" using raw by (auto simp: key_frame_def brings_def)
  moreover have "ev_run cv (hv @ map V_Told (vs_events v)) (v\<lparr>vs_events := []\<rparr>)" by (rule ev_run_tell [OF v(1)])
  moreover have "V_Told (VE_Matched (ec_mac cs) (ec_id cs) (ec_nmk cs) (ec_nid cs)) \<in> set (hv @ map V_Told (vs_events v))"
    using v(2) by simp
  ultimately show ?thesis using s out(2) by blast
qed

section \<open>Properties\<close>

text \<open>A vehicle and a station next to each other.\<close>

definition sample_ev :: ev_config where
  "sample_ev = \<lparr>vc_mac = [2, 0, 0, 0, 0, 1], vc_id = replicate STATION_ID_LEN 7, vc_run_id = [1, 2, 3, 4, 5, 6, 7, 8],
     vc_sounding_payload = replicate 16 9, vc_attenuation_limit = Some 30\<rparr>"

definition sample_evse :: evse_config where
  "sample_evse = \<lparr>ec_mac = [2, 0, 0, 0, 0, 2], ec_id = replicate STATION_ID_LEN 8, ec_nmk = replicate NMK_LEN 5,
     ec_nid = replicate NID_LEN 6, ec_attenuation_limit = Some 25\<rparr>"

definition sample_profile :: atten_profile where
  "sample_profile = \<lparr>at_num_groups = 2, at_aag = [10, 13] @ replicate (AAG_LEN - 2) 0\<rparr>"

lemma sample_link: "close_link sample_ev sample_evse sample_profile 11"
  by (simp add: close_link_def wf_ev_config_def wf_evse_config_def wf_atten_def sample_ev_def sample_evse_def
      sample_profile_def mean_attenuation_def atten_groups_def within_limit_def slac_lengths Let_def)

text \<open>
  C22. A station gives its network key away only for a measured link: in every run of a station, whatever frames
  arrive on the medium and however the application and the clock behave, a frame with the key that it sends is for a
  matching run that, since the station was last freed, was opened by some modem and sounded by the same modem, with a
  measurement within the station's limit, all of it before that modem asked this station, by address and identity,
  for the key of this run.
\<close>
theorem station_key_earned:
  assumes "evse_run c h s" and "wf_evse_config c" and "S_Sent out \<in> set h" and "key_frame out run"
  shows "\<exists>h0 now raw h1 mac. h = h0 @ S_Fed now raw # h1 \<and> asks_key c mac run raw \<and> earned c mac run (since_reset h0)"
  using evse_run_inv [OF assms(1,2)] assms(3,4) unfolding evse_inv_def keyed_def by blast

theorem station_key_earned_witness:
  "\<exists>hs s out run. evse_run sample_evse hs s \<and> S_Sent out \<in> set hs \<and> key_frame out run
    \<and> (\<exists>h0 now raw h1 mac. hs = h0 @ S_Fed now raw # h1 \<and> asks_key sample_evse mac run raw
        \<and> earned sample_evse mac run (since_reset h0))"
proof -
  obtain hs s out where run: "evse_run sample_evse hs s" "S_Sent out \<in> set hs" "key_frame out (vc_run_id sample_ev)"
    using matched_run [OF sample_link, of 0] by (auto simp: U64_MAX_def)
  moreover have "wf_evse_config sample_evse" using sample_link by (simp add: close_link_def)
  from station_key_earned [OF run(1) this run(2,3)] run show ?thesis by blast
qed

text \<open>
  C23. A vehicle takes a key only from the quietest station: in every run of a vehicle, whatever frames arrive, a
  match that is reported came in a confirmation sent by the station named, for this vehicle and this run, when that
  station, by address and identity, had sent the report of least attenuation among all the reports on the vehicle's
  sounding within its limit that had arrived since the matching was started.
\<close>
theorem vehicle_key_quietest:
  assumes "ev_run c h v" and "V_Told (VE_Matched mac i nmk nid) \<in> set h"
  shows "\<exists>h0 now raw h1 cnf a. h = h0 @ V_Fed now raw # h1 \<and> brings raw MM_SlacMatchCnf match_cnf_decode mac cnf
    \<and> mc_evse_mac cnf = mac \<and> mc_evse_id cnf = i \<and> mc_nmk cnf = nmk \<and> mc_nid cnf = nid
    \<and> mc_pev_mac cnf = vc_mac c \<and> mc_pev_id cnf = vc_id c \<and> mc_run_id cnf = vc_run_id c
    \<and> (mac, i, a) \<in> set (reports c (since_start h0)) \<and> (\<forall>(_, _, a') \<in> set (reports c (since_start h0)). a \<le> a')"
proof -
  have "taken c h mac i nmk nid" using ev_run_inv [OF assms(1)] assms(2) by (simp add: ev_inv_def)
  then obtain h0 now raw h1 cnf a where *: "h = h0 @ V_Fed now raw # h1"
    "brings raw MM_SlacMatchCnf match_cnf_decode mac cnf" "mc_evse_mac cnf = mac" "mc_evse_id cnf = i" "mc_nmk cnf = nmk"
    "mc_nid cnf = nid" "mc_pev_mac cnf = vc_mac c" "mc_pev_id cnf = vc_id c" "mc_run_id cnf = vc_run_id c"
    and best: "quietest (reports c (since_start h0)) = Some (mac, i, a)"
    unfolding taken_def by blast
  from * quietest_least [OF best] show ?thesis by (intro exI conjI) auto
qed

theorem vehicle_key_quietest_witness:
  "\<exists>hv v. ev_run sample_ev hv v
    \<and> (\<exists>h0 now raw h1 cnf a. hv = h0 @ V_Fed now raw # h1 \<and> brings raw MM_SlacMatchCnf match_cnf_decode (ec_mac sample_evse) cnf
        \<and> mc_nmk cnf = ec_nmk sample_evse
        \<and> (ec_mac sample_evse, ec_id sample_evse, a) \<in> set (reports sample_ev (since_start h0)))"
proof -
  obtain hv v where run: "ev_run sample_ev hv v" and told: "V_Told (VE_Matched (ec_mac sample_evse) (ec_id sample_evse)
      (ec_nmk sample_evse) (ec_nid sample_evse)) \<in> set hv"
    using matched_run [OF sample_link, of 0] by (auto simp: U64_MAX_def)
  from vehicle_key_quietest [OF run told] run show ?thesis by blast
qed

text \<open>
  C24. A vehicle and a station that find each other close enough end up on one network: fifteen instants after the
  vehicle's broadcast, each the vehicle's next deadline, both ends are matched, the vehicle with the station's key and
  network, having reported the station, its measurement and the match, and the station having reported the run, the
  measurement over all ten sounds and the match, each once and in this order.
\<close>
theorem slac_pair_matches:
  assumes "close_link cv cs profile mean" and "t + 30000 \<le> U64_MAX"
  shows "\<exists>v s. (slac_tick ^^ 15) (slac_begin t cv cs profile) = (v, s) \<and> vs_state v = VS_Matched \<and> es_state s = ES_Matched
    \<and> vs_events v = [VE_StationFound (ec_mac cs), VE_Measurement (ec_mac cs) mean,
         VE_Matched (ec_mac cs) (ec_id cs) (ec_nmk cs) (ec_nid cs)]
    \<and> es_events s = [SE_RunStarted (vc_run_id cv), SE_Measured mean 10, SE_Matched (vc_id cv) (vc_mac cv) (ec_nmk cs)]
    \<and> vs_deadline v = None \<and> es_deadline s = None"
  by (simp add: matching_run [OF assms] run_ev_def run_evse_def)

theorem slac_pair_matches_witness:
  "\<exists>v s. (slac_tick ^^ 15) (slac_begin 5 sample_ev sample_evse sample_profile) = (v, s) \<and> vs_state v = VS_Matched \<and> es_state s = ES_Matched
    \<and> SE_Matched (vc_id sample_ev) (vc_mac sample_ev) (ec_nmk sample_evse) \<in> set (es_events s)"
  using slac_pair_matches [OF sample_link, of 5] by (auto simp: U64_MAX_def)

text \<open>A profile that counts more groups than it has room for cannot be encoded, and the run ends there.\<close>

lemma finish_sounding_too_many:
  assumes "es_state s = ES_Sounding" and "es_run s = Some run" and "es_measured s = Some p"
    and "AAG_LEN < unat (at_num_groups p)" and "mean_attenuation p = Some mean"
    and "within_limit (ec_attenuation_limit (es_config s)) mean"
  shows "es_state (finish_sounding now s) = ES_Failed \<and> last (es_events (finish_sounding now s)) = SE_Failed EncodingFailed
    \<and> es_out (finish_sounding now s) = es_out s"
proof -
  have enc: "\<exists>e. slac_build to from MM_AttenCharInd (atten_ind_encode ind) = Inl e" if "ai_profile ind = p" for to "from" ind
    using that assms(4) by (auto simp: slac_build_def atten_ind_encode_def atten_validate_def Let_def split: sum.splits)
  have near: "\<not> (case ec_attenuation_limit (es_config s) of None \<Rightarrow> False | Some limit \<Rightarrow> limit < mean)"
    using assms(6) by (auto simp: within_limit_def split: option.splits)
  let ?ind = "\<lparr>ai_source_address = sr_pev_mac run, ai_run_id = sr_id run, ai_source_id = sr_pev_id run,
    ai_resp_id = ec_id (es_config s), ai_num_sounds = sr_sounds run, ai_profile = p\<rparr>"
  obtain e where "slac_build (sr_pev_mac run) (ec_mac (es_config s)) MM_AttenCharInd (atten_ind_encode ?ind) = Inl e"
    using enc [of ?ind] by fastforce
  then show ?thesis using assms(1-3,5) near
    by (auto simp: finish_sounding_def evse_queue_def evse_note_def evse_fail_def evse_arm_def Let_def)
qed

text \<open>
  C25. What a station sends is well-formed: in every run of a station, as long as each measurement the modem reports is
  a profile of at most 58 groups, every frame it sends is 60 to 192 bytes long and is read back as one of its three
  messages, complete, from its own address to the destination it is queued for, with its own identity and key; and no
  run is given up because a message could not be built. The condition is needed: when the sounding ends on a
  measurement within the limit that counts more groups, nothing is sent and the run fails with \<open>EncodingFailed\<close>.
\<close>
theorem station_frames_typed:
  assumes "evse_run c h s" and "wf_evse_config c"
  shows "((\<forall>p. S_Observed p \<in> set h \<longrightarrow> unat (at_num_groups p) \<le> 58 \<and> length (at_aag p) = 58) \<longrightarrow>
      (\<forall>out. S_Sent out \<in> set h \<longrightarrow> typed_frame c out) \<and> S_Told (SE_Failed EncodingFailed) \<notin> set h
      \<and> length (es_out s) \<le> 16)
    \<and> (\<forall>run p mean. es_state s = ES_Sounding \<and> es_run s = Some run \<and> es_measured s = Some p \<and> 58 < unat (at_num_groups p)
        \<and> mean_attenuation p = Some mean \<and> within_limit (ec_attenuation_limit (es_config s)) mean \<longrightarrow>
        es_state (finish_sounding now s) = ES_Failed \<and> last (es_events (finish_sounding now s)) = SE_Failed EncodingFailed
        \<and> es_out (finish_sounding now s) = es_out s)"
proof (intro conjI allI impI)
  assume "\<forall>p. S_Observed p \<in> set h \<longrightarrow> unat (at_num_groups p) \<le> 58 \<and> length (at_aag p) = 58"
  then have "\<forall>p. S_Observed p \<in> set h \<longrightarrow> wf_atten p" by (simp add: wf_atten_def AAG_LEN_def)
  from evse_run_typed [OF assms this]
  show "typed_frame c out" if "S_Sent out \<in> set h" for out using that by (simp add: typed_evse_def)
  from evse_run_typed [OF assms \<open>\<forall>p. S_Observed p \<in> set h \<longrightarrow> wf_atten p\<close>]
  show "S_Told (SE_Failed EncodingFailed) \<notin> set h" "length (es_out s) \<le> 16"
    by (simp_all add: typed_evse_def SLAC_MAX_PENDING_FRAMES_def)
next
  fix run p mean
  assume "es_state s = ES_Sounding \<and> es_run s = Some run \<and> es_measured s = Some p \<and> 58 < unat (at_num_groups p)
    \<and> mean_attenuation p = Some mean \<and> within_limit (ec_attenuation_limit (es_config s)) mean"
  then show "es_state (finish_sounding now s) = ES_Failed" "last (es_events (finish_sounding now s)) = SE_Failed EncodingFailed"
    "es_out (finish_sounding now s) = es_out s"
    using finish_sounding_too_many [of s run p mean now] by (simp_all add: AAG_LEN_def)
qed

theorem station_frames_typed_witness:
  "\<exists>hs s out. evse_run sample_evse hs s \<and> S_Sent out \<in> set hs \<and> typed_frame sample_evse out
    \<and> key_frame out (vc_run_id sample_ev)"
proof -
  obtain hs s out where run: "evse_run sample_evse hs s" "S_Sent out \<in> set hs" "key_frame out (vc_run_id sample_ev)"
    "\<forall>p. S_Observed p \<in> set hs \<longrightarrow> p = sample_profile"
    using matched_run [OF sample_link, of 0] by (auto simp: U64_MAX_def)
  moreover have c: "wf_evse_config sample_evse" "wf_atten sample_profile" using sample_link by (simp_all add: close_link_def)
  then have "\<forall>p. S_Observed p \<in> set hs \<longrightarrow> unat (at_num_groups p) \<le> 58 \<and> length (at_aag p) = 58"
    using run(4) by (auto simp: wf_atten_def AAG_LEN_def)
  ultimately show ?thesis using station_frames_typed [OF run(1) c(1)] by blast
qed

text \<open>
  C40. The key can come from a station the vehicle never asked, though it is to be taken only from the station the
  vehicle picked. A vehicle that has chosen a station and sent its two requests to that one alone keeps taking
  reports: a quieter one from elsewhere, which quotes what was broadcast, replaces the choice, and a confirmation from
  its sender then ends the run with that sender's key.
\<close>
theorem vehicle_key_unasked:
  assumes "vs_config v = cv" and "vs_best v = Some (m, i, a)" and "length m = 6" and "length i = STATION_ID_LEN" and "vs_out v = []"
    and "wf_ev_config cv" and "wf_evse_config cs" and "wf_atten profile" and "mean_attenuation profile = Some b"
    and "within_limit (vc_attenuation_limit cv) b" and "b < a" and "ec_mac cs \<noteq> m"
  shows "\<exists>report cnf. let asked = ev_choose t v; v' = ev_handle_frame t'' cnf (ev_handle_frame t' report asked) in
    vs_state asked = VS_AwaitingKey \<and> length (vs_out asked) = 2 \<and> (\<forall>out \<in> set (vs_out asked). og_destination out = m)
    \<and> vs_out v' = vs_out asked \<and> vs_state v' = VS_Matched
    \<and> last (vs_events v') = VE_Matched (ec_mac cs) (ec_id cs) (ec_nmk cs) (ec_nid cs)"
proof -
  let ?rsp = "\<lparr>ar_source_address = vc_mac cv, ar_run_id = vc_run_id cv, ar_source_id = vc_id cv, ar_resp_id = i, ar_result = 0\<rparr>"
  let ?req = "\<lparr>mq_pev_id = vc_id cv, mq_pev_mac = vc_mac cv, mq_evse_id = i, mq_evse_mac = m, mq_run_id = vc_run_id cv\<rparr>"
  let ?cnf = "\<lparr>mc_pev_id = vc_id cv, mc_pev_mac = vc_mac cv, mc_evse_id = ec_id cs, mc_evse_mac = ec_mac cs,
    mc_run_id = vc_run_id cv, mc_nid = ec_nid cs, mc_nmk = ec_nmk cs\<rparr>"
  obtain x where x: "slac_build m (vc_mac cv) MM_AttenCharRsp (atten_rsp_encode ?rsp) = Inr x"
    using atten_rsp.message_built [of ?rsp m "vc_mac cv" MM_AttenCharRsp] assms(3,4,6)
    by (auto simp: wf_ev_config_def wf_atten_rsp_def)
  obtain y where y: "slac_build m (vc_mac cv) MM_SlacMatchReq (match_req_encode ?req) = Inr y"
    using match_req.message_built [of ?req m "vc_mac cv" MM_SlacMatchReq] assms(3,4,6)
    by (auto simp: wf_ev_config_def wf_match_req_def)
  obtain r :: outgoing where r: "brings (og_frame r) MM_AttenCharInd atten_ind_decode (ec_mac cs) (measured_ind cv cs profile)"
    using atten_ind.message_built [of "measured_ind cv cs profile" "vc_mac cv" "ec_mac cs" MM_AttenCharInd] assms(6-8)
    by (auto simp: wf_ev_config_def wf_evse_config_def wf_atten_ind_def)
  obtain k :: outgoing where k: "brings (og_frame k) MM_SlacMatchCnf match_cnf_decode (ec_mac cs) ?cnf"
    using match_cnf.message_built [of ?cnf "vc_mac cv" "ec_mac cs" MM_SlacMatchCnf] assms(6,7)
    by (auto simp: wf_ev_config_def wf_evse_config_def wf_match_cnf_def)
  have dest: "og_destination x = m" "og_destination y = m"
    using x y by (auto simp: slac_build_def ebind_eq_Inr)
  have near: "\<not> (case vc_attenuation_limit cv of None \<Rightarrow> False | Some limit \<Rightarrow> limit < b)"
    using assms(10) by (auto simp: within_limit_def split: option.splits)
  show ?thesis
    using assms(1,2,5,9,11) x y dest near
    by (rule_tac exI [of _ "og_frame r"], rule_tac exI [of _ "og_frame k"])
       (simp add: Let_def ev_choose_def ev_queue_def ev_arm_def ev_receives(2) [OF r] ev_receives(3) [OF k] on_measurement_def
        on_match_cnf_def ev_note_def SLAC_MAX_PENDING_FRAMES_def)
qed

theorem vehicle_key_unasked_witness:
  "let v = (ev_new sample_ev)\<lparr>vs_best := Some (replicate 6 1, replicate STATION_ID_LEN 2, 20)\<rparr> in
   \<exists>report cnf. let asked = ev_choose 0 v; v' = ev_handle_frame 2 cnf (ev_handle_frame 1 report asked) in
    (\<forall>out \<in> set (vs_out asked). og_destination out = replicate 6 1) \<and> vs_state v' = VS_Matched
    \<and> last (vs_events v') = VE_Matched (ec_mac sample_evse) (ec_id sample_evse) (ec_nmk sample_evse) (ec_nid sample_evse)"
proof -
  let ?v = "(ev_new sample_ev)\<lparr>vs_best := Some (replicate 6 1, replicate STATION_ID_LEN 2, 20)\<rparr>"
  have "wf_ev_config sample_ev" "wf_evse_config sample_evse" "wf_atten sample_profile" "mean_attenuation sample_profile = Some 11"
    "within_limit (vc_attenuation_limit sample_ev) 11"
    using sample_link by (simp_all add: close_link_def)
  moreover have "vs_config ?v = sample_ev" "vs_best ?v = Some (replicate 6 1, replicate STATION_ID_LEN 2, 20)" "vs_out ?v = []"
    "ec_mac sample_evse \<noteq> replicate 6 1"
    by (simp_all add: ev_new_def sample_evse_def eval_nat_numeral)
  ultimately show ?thesis
    using vehicle_key_unasked [of ?v sample_ev "replicate 6 1" "replicate STATION_ID_LEN 2" 20 sample_evse sample_profile 11 0 2 1]
    unfolding Let_def by simp blast
qed

text \<open>
  A station that has given its key away can still fail the run, though a run is to have exactly one outcome: the
  vehicle's request, repeated, say because its confirmation was lost, is answered with no confirmation, and the match
  is followed by a failure.
\<close>
lemma station_fails_after_match:
  assumes "close_link cv cs profile mean" and "t + 30000 \<le> U64_MAX"
  shows "\<exists>raw. let s = snd ((slac_tick ^^ 15) (slac_begin t cv cs profile)); s' = evse_handle_frame t' raw s in
    asks_key cs (vc_mac cv) (vc_run_id cv) raw \<and> es_state s = ES_Matched \<and> es_state s' = ES_Failed \<and> es_out s' = []
    \<and> es_events s' = es_events s @ [SE_Failed OutOfSequence]"
proof -
  let ?req = "\<lparr>mq_pev_id = vc_id cv, mq_pev_mac = vc_mac cv, mq_evse_id = ec_id cs, mq_evse_mac = ec_mac cs, mq_run_id = vc_run_id cv\<rparr>"
  obtain b :: outgoing where b: "brings (og_frame b) MM_SlacMatchReq match_req_decode (vc_mac cv) ?req"
    using match_req.message_built [of ?req "ec_mac cs" "vc_mac cv" MM_SlacMatchReq] assms(1)
    by (auto simp: run_defs wf_match_req_def)
  then have "asks_key cs (vc_mac cv) (vc_run_id cv) (og_frame b)" by (force simp: asks_key_def)
  then show ?thesis
    by (intro exI [of _ "og_frame b"])
       (simp add: Let_def matching_run [OF assms] evse_receives(5) [OF b] on_match_req_def run_of_def run_evse_def evse_fail_def)
qed

lemma station_fails_after_match_witness:
  "\<exists>raw. let s = snd ((slac_tick ^^ 15) (slac_begin 5 sample_ev sample_evse sample_profile)); s' = evse_handle_frame 6 raw s in
    es_state s = ES_Matched \<and> es_state s' = ES_Failed \<and> es_events s' = es_events s @ [SE_Failed OutOfSequence]"
proof -
  have "(5 :: nat) + 30000 \<le> U64_MAX" by (simp add: U64_MAX_def)
  from station_fails_after_match [OF sample_link this, of 6] show ?thesis unfolding Let_def by blast
qed

end
