(* ===== verification/Pnc.thy ===== *)
theory Pnc
  imports Exi_Codec Session_Common "HOL-Library.Multiset"
begin

text \<open>
  Plug and Charge, \<open>src/src/pnc/mod.rs\<close>, \<open>challenge.rs\<close> and \<open>envelope.rs\<close>: the checks both generations make of a
  signature, the challenge a contract answers, and the envelope a contract key travels in. Hashing, signing, key
  agreement and the block cipher are traits the application implements; they are arguments here.
\<close>

section \<open>Suites\<close>

definition CANONICAL_EXI :: string where
  "CANONICAL_EXI = ''http://www.w3.org/TR/canonical-exi/''"

definition DEFAULT_ID :: string where
  "DEFAULT_ID = ''ID1''"

datatype suite = EcdsaSha256 | EcdsaSha512

fun signature_algorithm :: "suite \<Rightarrow> string" where
  "signature_algorithm EcdsaSha256 = ''http://www.w3.org/2001/04/xmldsig-more#ecdsa-sha256''"
| "signature_algorithm EcdsaSha512 = ''http://www.w3.org/2001/04/xmldsig-more#ecdsa-sha512''"

fun digest_algorithm :: "suite \<Rightarrow> string" where
  "digest_algorithm EcdsaSha256 = ''http://www.w3.org/2001/04/xmlenc#sha256''"
| "digest_algorithm EcdsaSha512 = ''http://www.w3.org/2001/04/xmlenc#sha512''"

fun digest_len :: "suite \<Rightarrow> nat" where
  "digest_len EcdsaSha256 = 32"
| "digest_len EcdsaSha512 = 64"

definition from_signature_algorithm :: "string \<Rightarrow> suite option" where
  "from_signature_algorithm uri = List.find (\<lambda>s. signature_algorithm s = uri) [EcdsaSha256, EcdsaSha512]"

lemma from_signature_algorithm_Some: "from_signature_algorithm uri = Some s \<longleftrightarrow> signature_algorithm s = uri"
  by (cases s) (auto simp: from_signature_algorithm_def)

record signed_element =
  sg_id :: string
  sg_fragment :: bytes

datatype pnc_error =
    Pnc_Exi exi_error
  | UnsupportedAlgorithm string
  | BadCanonicalization string
  | MissingUri
  | UnknownReference
  | ReferenceMismatch nat nat
  | BadTransforms
  | TooManyReferences nat
  | ForbiddenField string
  | DigestMismatch string
  | Pnc_BadSignature
  | BadEnvelope nat
  | KeyMismatch
  | BadChallengeLength nat
  | ChallengeMismatch
  | MissingId
  | MissingChallenge
  | SessionMismatch
  | NotAsIssued string
  | Backend string

text \<open>The traits \<open>Hash\<close>, \<open>Sign\<close> and \<open>Verify\<close>.\<close>

type_synonym hash_fn = "suite \<Rightarrow> bytes \<Rightarrow> bytes"
type_synonym sign_fn = "suite \<Rightarrow> bytes \<Rightarrow> pnc_error + bytes"
type_synonym verify_fn = "suite \<Rightarrow> bytes \<Rightarrow> bytes \<Rightarrow> pnc_error + unit"

text \<open>The conversion of an encoder's error, \<open>From<ExiError>\<close>.\<close>

definition exi_ok :: "exi_error + 'a \<Rightarrow> pnc_error + 'a" where
  "exi_ok r = (case r of Inl e \<Rightarrow> Inl (Pnc_Exi e) | Inr x \<Rightarrow> Inr x)"

lemma exi_ok_eq_Inr [simp]: "exi_ok r = Inr x \<longleftrightarrow> r = Inr x"
  by (auto simp: exi_ok_def split: sum.splits)

lemma exi_ok_Inr [simp]: "exi_ok (Inr x) = Inr x"
  by simp

section \<open>Comparing and retrying\<close>

fun coding_matters :: "pnc_error \<Rightarrow> bool" where
  "coding_matters Pnc_BadSignature = True"
| "coding_matters (DigestMismatch _) = True"
| "coding_matters _ = False"

definition either_coding :: "(value_coding \<Rightarrow> pnc_error + 'a) \<Rightarrow> pnc_error + 'a" where
  "either_coding attempt =
     (case attempt Literal of
        Inl first \<Rightarrow>
          if coding_matters first then
            (case attempt Referenced of Inr x \<Rightarrow> Inr x | Inl _ \<Rightarrow> Inl first)
          else Inl first
      | Inr x \<Rightarrow> Inr x)"

lemma either_coding_Inr:
  "either_coding attempt = Inr x \<Longrightarrow> \<exists>coding. attempt coding = Inr x"
  by (auto simp: either_coding_def split: sum.splits if_splits)

definition digests_equal :: "bytes \<Rightarrow> bytes \<Rightarrow> bool" where
  "digests_equal a b =
     (if length a \<noteq> length b then False
      else foldl (\<lambda>diff (x, y). diff OR (x XOR y)) 0 (zip a b) = 0)"

lemma diff_fold: "foldl (\<lambda>diff (x, y). diff OR (x XOR y)) (d :: u8) ps = 0 \<longleftrightarrow> d = 0 \<and> (\<forall>(x, y) \<in> set ps. x = y)"
proof (induction ps arbitrary: d)
  case (Cons p ps)
  obtain x y where p: "p = (x, y)" by (cases p)
  have "x XOR y = 0 \<longleftrightarrow> x = y" by (metis xor.assoc xor.right_neutral xor_self_eq)
  then have "d OR (x XOR y) = 0 \<longleftrightarrow> d = 0 \<and> x = y" by (simp add: or_eq_0_iff)
  then show ?case by (auto simp: Cons.IH p)
qed simp

text \<open>The comparison without an early return is equality.\<close>

lemma digests_equal_iff [simp]: "digests_equal a b \<longleftrightarrow> a = b"
proof (cases "length a = length b")
  case True
  then have "(\<forall>(x, y) \<in> set (zip a b). x = y) \<longleftrightarrow> a = b"
    by (induction a b rule: list_induct2) auto
  then show ?thesis using True by (simp add: digests_equal_def diff_fold)
qed (auto simp: digests_equal_def)

section \<open>The profile\<close>

definition MAX_SIGNED_ELEMENTS :: nat where
  "MAX_SIGNED_ELEMENTS = 4"

definition reference_uri :: "string \<Rightarrow> string" where
  "reference_uri i = CHR ''#'' # i"

definition check_canonicalization :: "string \<Rightarrow> pnc_error + unit" where
  "check_canonicalization algorithm = (if algorithm = CANONICAL_EXI then Inr () else Inl (BadCanonicalization algorithm))"

definition check_transforms :: "string list option \<Rightarrow> pnc_error + unit" where
  "check_transforms algorithms =
     (case algorithms of
        None \<Rightarrow> Inl BadTransforms
      | Some [] \<Rightarrow> Inl BadTransforms
      | Some [only] \<Rightarrow> check_canonicalization only
      | Some _ \<Rightarrow> Inl BadTransforms)"

definition check_suite :: "string \<Rightarrow> int option \<Rightarrow> suite list \<Rightarrow> pnc_error + suite" where
  "check_suite algorithm hmac_output_length accepted =
     (case from_signature_algorithm algorithm of
        None \<Rightarrow> Inl (UnsupportedAlgorithm algorithm)
      | Some suite \<Rightarrow>
          if suite \<notin> set accepted then Inl (UnsupportedAlgorithm algorithm)
          else if hmac_output_length \<noteq> None then Inl (UnsupportedAlgorithm algorithm)
          else Inr suite)"

definition check_forbidden :: "string option \<Rightarrow> string option \<Rightarrow> string option list \<Rightarrow> pnc_error + unit" where
  "check_forbidden signed_info_id signature_value_id reference_types =
     (if signed_info_id \<noteq> None then Inl (ForbiddenField ''SignedInfo/@Id'')
      else if signature_value_id \<noteq> None then Inl (ForbiddenField ''SignatureValue/@Id'')
      else if \<exists>t \<in> set reference_types. t \<noteq> None then Inl (ForbiddenField ''Reference/@Type'')
      else Inr ())"

definition check_reference :: "suite \<Rightarrow> string \<Rightarrow> bytes \<Rightarrow> signed_element \<Rightarrow> hash_fn \<Rightarrow> pnc_error + unit" where
  "check_reference suite algorithm digest_value element hash =
     (if algorithm \<noteq> digest_algorithm suite then Inl (UnsupportedAlgorithm algorithm)
      else if digests_equal (hash suite (sg_fragment element)) digest_value then Inr ()
      else Inl (DigestMismatch (sg_id element)))"

definition check_session :: "bytes \<Rightarrow> bytes \<Rightarrow> pnc_error + unit" where
  "check_session named session =
     (case session_id_from_slice named of
        Inr i \<Rightarrow> if i = session then Inr () else Inl SessionMismatch
      | Inl _ \<Rightarrow> Inl SessionMismatch)"

definition check_echo :: "'t \<Rightarrow> 't \<Rightarrow> string \<Rightarrow> pnc_error + unit" where
  "check_echo echoed issued field = (if echoed = issued then Inr () else Inl (NotAsIssued field))"

text \<open>The loop of \<open>pair\<close>: each reference takes the first element of its identifier that is not taken yet.\<close>

fun strip_hash :: "string \<Rightarrow> string option" where
  "strip_hash [] = None"
| "strip_hash (c # i) = (if c = CHR ''#'' then Some i else None)"

lemma strip_hash_Some: "strip_hash uri = Some i \<longleftrightarrow> uri = reference_uri i"
  by (cases uri) (auto simp: reference_uri_def)

fun pair_loop :: "('r \<Rightarrow> string option) \<Rightarrow> signed_element list \<Rightarrow> bool list \<Rightarrow> 'r list \<Rightarrow>
    pnc_error + ('r \<times> signed_element) list" where
  "pair_loop uri_of elements used [] = Inr []"
| "pair_loop uri_of elements used (reference # references) =
     ebind (ok_or (uri_of reference) MissingUri) (\<lambda>uri.
     ebind (ok_or (strip_hash uri) MissingUri) (\<lambda>i.
     ebind (ok_or (List.find (\<lambda>k. sg_id (elements ! k) = i \<and> \<not> used ! k) [0..<length elements]) UnknownReference) (\<lambda>index.
     ebind (pair_loop uri_of elements (used[index := True]) references) (\<lambda>paired.
     Inr ((reference, elements ! index) # paired)))))"

definition pair :: "'r list \<Rightarrow> ('r \<Rightarrow> string option) \<Rightarrow> signed_element list \<Rightarrow> pnc_error + ('r \<times> signed_element) list" where
  "pair references uri_of elements =
     (if length references > MAX_SIGNED_ELEMENTS then Inl (TooManyReferences (length references))
      else if length references \<noteq> length elements then Inl (ReferenceMismatch (length references) (length elements))
      else pair_loop uri_of elements (replicate (length elements) False) references)"

section \<open>The challenge\<close>

definition GEN_CHALLENGE_LEN :: nat where
  "GEN_CHALLENGE_LEN = 16"

type_synonym gen_challenge = bytes

definition challenge_from_slice :: "bytes \<Rightarrow> pnc_error + gen_challenge" where
  "challenge_from_slice bs = (if length bs = GEN_CHALLENGE_LEN then Inr bs else Inl (BadChallengeLength (length bs)))"

definition challenge_matches :: "gen_challenge \<Rightarrow> bytes \<Rightarrow> bool" where
  "challenge_matches c echoed = digests_equal c echoed"

section \<open>The envelope\<close>

definition IV_LEN :: nat where
  "IV_LEN = 16"

definition PRIVATE_KEY_LEN :: nat where
  "PRIVATE_KEY_LEN = 32"

definition DH_PUBLIC_KEY_LEN :: nat where
  "DH_PUBLIC_KEY_LEN = 65"

definition ENVELOPE_LEN :: nat where
  "ENVELOPE_LEN = IV_LEN + PRIVATE_KEY_LEN"

lemmas envelope_lens = IV_LEN_def PRIVATE_KEY_LEN_def DH_PUBLIC_KEY_LEN_def ENVELOPE_LEN_def

definition OTHER_INFO :: bytes where
  "OTHER_INFO = [0x01, 0x55, 0x56]"

text \<open>The traits \<open>KeyAgreement\<close> and \<open>Aes128Cbc\<close>.\<close>

type_synonym agree_fn = "bytes \<Rightarrow> pnc_error + bytes"
type_synonym public_key_fn = "bytes \<Rightarrow> pnc_error + bytes"
type_synonym cipher_fn = "bytes \<Rightarrow> bytes \<Rightarrow> bytes \<Rightarrow> pnc_error + bytes"

definition session_key :: "bytes \<Rightarrow> hash_fn \<Rightarrow> bytes" where
  "session_key shared_secret hash =
     (let digest = hash EcdsaSha256 ([0, 0, 0, 1] @ shared_secret @ OTHER_INFO);
          n = min 16 (length digest)
      in take n digest @ replicate (16 - n) 0)"

definition open_envelope :: "bytes \<Rightarrow> bytes \<Rightarrow> bytes \<Rightarrow> agree_fn \<Rightarrow> public_key_fn \<Rightarrow> hash_fn \<Rightarrow> cipher_fn \<Rightarrow> pnc_error + bytes" where
  "open_envelope envelope dh_public_key certificate_public_key agree public_key_of hash decrypt =
     (if length envelope \<noteq> ENVELOPE_LEN then Inl (BadEnvelope (length envelope))
      else if length dh_public_key \<noteq> DH_PUBLIC_KEY_LEN \<or> dh_public_key ! 0 \<noteq> 0x04 then Inl (BadEnvelope (length dh_public_key))
      else
        ebind (agree dh_public_key) (\<lambda>shared.
        ebind (decrypt (session_key shared hash) (take IV_LEN envelope) (drop IV_LEN envelope)) (\<lambda>scalar.
        if length scalar \<noteq> PRIVATE_KEY_LEN then Inl (BadEnvelope (length scalar))
        else ebind (public_key_of scalar) (\<lambda>derived.
          if derived \<noteq> certificate_public_key then Inl KeyMismatch else Inr scalar))))"

definition seal_envelope :: "bytes \<Rightarrow> bytes \<Rightarrow> bytes \<Rightarrow> agree_fn \<Rightarrow> hash_fn \<Rightarrow> cipher_fn \<Rightarrow> pnc_error + bytes" where
  "seal_envelope private_key receiver_public_key iv agree hash encrypt =
     (if length private_key \<noteq> PRIVATE_KEY_LEN then Inl (BadEnvelope (length private_key))
      else
        ebind (agree receiver_public_key) (\<lambda>shared.
        ebind (encrypt (session_key shared hash) iv private_key) (\<lambda>ciphertext.
        Inr (iv @ ciphertext))))"

section \<open>Coverage\<close>

text \<open>The elements that no reference has taken yet.\<close>

definition free_elements :: "'e list \<Rightarrow> bool list \<Rightarrow> 'e multiset" where
  "free_elements elements used = mset (map fst (filter (\<lambda>p. \<not> snd p) (zip elements used)))"

lemma free_elements_none: "free_elements elements (replicate (length elements) False) = mset elements"
  by (induction elements) (simp_all add: free_elements_def)

lemma free_elements_take:
  "length used = length elements \<Longrightarrow> k < length elements \<Longrightarrow> \<not> used ! k \<Longrightarrow>
   free_elements elements used = add_mset (elements ! k) (free_elements elements (used[k := True]))"
proof (induction elements arbitrary: used k)
  case (Cons e elements)
  then obtain u us where used: "used = u # us" by (cases used) simp_all
  show ?case
  proof (cases k)
    case 0
    then show ?thesis using Cons.prems by (simp add: used free_elements_def)
  next
    case (Suc j)
    then show ?thesis using Cons.IH [of us j] Cons.prems by (simp add: used free_elements_def add_mset_commute)
  qed
qed simp

lemma free_elements_mem:
  "length used = length elements \<Longrightarrow> e \<in># free_elements elements used \<Longrightarrow> \<exists>k < length elements. elements ! k = e \<and> \<not> used ! k"
  by (auto simp: free_elements_def set_zip)

lemma find_index_Some:
  "List.find P [0..<n] = Some k \<Longrightarrow> k < n \<and> P k"
  by (auto simp: find_Some_iff)

lemma find_index_None: "List.find P [0..<n] = None \<longleftrightarrow> (\<forall>k < n. \<not> P k)"
  by (auto simp: find_None_iff)

text \<open>What a reference has to name, for an element.\<close>

definition names_element :: "signed_element \<Rightarrow> string option" where
  "names_element e = Some (reference_uri (sg_id e))"

lemma reference_uri_inj [simp]: "reference_uri i = reference_uri j \<longleftrightarrow> i = j"
  by (simp add: reference_uri_def)

lemma pair_loop_sound:
  assumes "length used = length elements" and "pair_loop uri_of elements used references = Inr ps"
  shows "map fst ps = references \<and> (\<forall>(r, e) \<in> set ps. uri_of r = names_element e)
    \<and> mset (map snd ps) \<subseteq># free_elements elements used"
  using assms
proof (induction references arbitrary: used ps)
  case (Cons r references)
  then obtain uri i k qs where uri: "uri_of r = Some uri" "strip_hash uri = Some i"
    and k: "List.find (\<lambda>k. sg_id (elements ! k) = i \<and> \<not> used ! k) [0..<length elements] = Some k"
    and qs: "pair_loop uri_of elements (used[k := True]) references = Inr qs" and ps: "ps = (r, elements ! k) # qs"
    by (auto simp: ebind_eq_Inr ok_or_eq_Inr)
  note at_k = find_index_Some [OF k]
  have "uri_of r = names_element (elements ! k)" using uri at_k by (simp add: names_element_def strip_hash_Some)
  moreover have "free_elements elements used = add_mset (elements ! k) (free_elements elements (used[k := True]))"
    using Cons.prems(1) at_k by (intro free_elements_take) simp_all
  ultimately show ?case using Cons.IH [OF _ qs] Cons.prems(1) by (simp add: ps)
qed simp

lemma pair_loop_complete:
  assumes "length used = length elements"
    and "mset (map uri_of references) \<subseteq># image_mset names_element (free_elements elements used)"
  shows "\<exists>ps. pair_loop uri_of elements used references = Inr ps"
  using assms
proof (induction references arbitrary: used)
  case (Cons r references)
  have "uri_of r \<in># image_mset names_element (free_elements elements used)"
    using mset_subset_eqD [OF Cons.prems(2), of "uri_of r"] by simp
  then obtain e where e: "uri_of r = names_element e" "e \<in># free_elements elements used" by auto
  then obtain j where j: "j < length elements" "sg_id (elements ! j) = sg_id e" "\<not> used ! j"
    using free_elements_mem [OF Cons.prems(1)] by blast
  then obtain k where k: "List.find (\<lambda>k. sg_id (elements ! k) = sg_id e \<and> \<not> used ! k) [0..<length elements] = Some k"
    using find_index_None [of "\<lambda>k. sg_id (elements ! k) = sg_id e \<and> \<not> used ! k" "length elements"] by fastforce
  note at_k = find_index_Some [OF k]
  have "free_elements elements used = add_mset (elements ! k) (free_elements elements (used[k := True]))"
    using Cons.prems(1) at_k by (intro free_elements_take) simp_all
  moreover have "names_element (elements ! k) = uri_of r" using at_k e(1) by (simp add: names_element_def)
  ultimately have "mset (map uri_of references) \<subseteq># image_mset names_element (free_elements elements (used[k := True]))"
    using Cons.prems(2) by simp
  with Cons.IH [of "used[k := True]"] Cons.prems(1) obtain ps where
    "pair_loop uri_of elements (used[k := True]) references = Inr ps" by auto
  moreover have "strip_hash (reference_uri (sg_id e)) = Some (sg_id e)" by (simp add: strip_hash_Some)
  ultimately show ?case using e(1) k by (simp add: names_element_def)
qed simp

lemma pair_sound:
  assumes "pair references uri_of elements = Inr ps"
  shows "map fst ps = references" and "mset (map snd ps) = mset elements" and "length references \<le> MAX_SIGNED_ELEMENTS"
    and "(r, e) \<in> set ps \<Longrightarrow> uri_of r = names_element e"
proof -
  have len: "length references = length elements"
    and loop: "pair_loop uri_of elements (replicate (length elements) False) references = Inr ps"
    and "length references \<le> MAX_SIGNED_ELEMENTS"
    using assms by (auto simp: pair_def split: if_splits)
  then show "length references \<le> MAX_SIGNED_ELEMENTS" by simp
  from pair_loop_sound [OF _ loop] have *: "map fst ps = references" "\<forall>(r, e) \<in> set ps. uri_of r = names_element e"
    "mset (map snd ps) \<subseteq># mset elements" by (simp_all add: free_elements_none)
  then show "map fst ps = references" "(r, e) \<in> set ps \<Longrightarrow> uri_of r = names_element e" by auto
  have "size (mset (map snd ps)) = size (mset elements)" using *(1) len by (metis length_map size_mset)
  with *(3) show "mset (map snd ps) = mset elements" using mset_subset_size subset_mset.le_imp_less_or_eq by fastforce
qed

text \<open>A signature can be paired exactly when its references name the elements, each once.\<close>

lemma pair_iff:
  "(\<exists>ps. pair references uri_of elements = Inr ps) \<longleftrightarrow>
   length references \<le> MAX_SIGNED_ELEMENTS \<and> mset (map uri_of references) = mset (map names_element elements)"
proof
  assume "\<exists>ps. pair references uri_of elements = Inr ps"
  then obtain ps where ps: "pair references uri_of elements = Inr ps" by blast
  note s = pair_sound [OF ps]
  have "map uri_of references = map (uri_of \<circ> fst) ps" using s(1) by auto
  also have "\<dots> = map (names_element \<circ> snd) ps" using s(4) by auto
  finally have "mset (map uri_of references) = image_mset names_element (mset (map snd ps))" by (simp add: multiset.map_comp)
  then show "length references \<le> MAX_SIGNED_ELEMENTS \<and> mset (map uri_of references) = mset (map names_element elements)"
    using s(2,3) by simp
next
  assume *: "length references \<le> MAX_SIGNED_ELEMENTS \<and> mset (map uri_of references) = mset (map names_element elements)"
  then have "length references = length elements" by (metis length_map size_mset)
  with * show "\<exists>ps. pair references uri_of elements = Inr ps"
    using pair_loop_complete [of "replicate (length elements) False" elements uri_of references]
    by (simp add: pair_def free_elements_none)
qed

section \<open>Properties\<close>

text \<open>What the application's key agreement and cipher are taken to do: the two ends agree, and decrypting undoes encrypting.\<close>

definition cipher_inverts :: "cipher_fn \<Rightarrow> cipher_fn \<Rightarrow> bool" where
  "cipher_inverts encrypt decrypt \<longleftrightarrow>
     (\<forall>key iv data ct. length data = PRIVATE_KEY_LEN \<longrightarrow> encrypt key iv data = Inr ct \<longrightarrow>
        length ct = length data \<and> decrypt key iv ct = Inr data)"

text \<open>
  C28. A contract key survives its envelope and comes out only if it is the certificate's: what one party seals for
  another is opened by that party to the same key when it generates the public key of the certificate, and otherwise
  not at all; and whatever arrives, a key that \<open>open\<close> returns is 32 bytes long and generates that public key.
\<close>
theorem envelope_roundtrip:
  assumes "cipher_inverts encrypt decrypt"
    and "agree_u v_public = Inr shared" and "agree_v u_public = Inr shared"
    and "length u_public = DH_PUBLIC_KEY_LEN" and "u_public ! 0 = 0x04" and "length iv = IV_LEN"
    and "seal_envelope private_key v_public iv agree_u hash encrypt = Inr envelope"
  shows "open_envelope envelope u_public certificate_key agree_v public_key_of hash decrypt =
      ebind (public_key_of private_key) (\<lambda>k. if k = certificate_key then Inr private_key else Inl KeyMismatch)
    \<and> (\<forall>other dh key. open_envelope other dh certificate_key agree_v public_key_of hash decrypt = Inr key \<longrightarrow>
         length key = 32 \<and> public_key_of key = Inr certificate_key)"
proof
  obtain ct where ct: "encrypt (session_key shared hash) iv private_key = Inr ct" "envelope = iv @ ct"
    and len: "length private_key = PRIVATE_KEY_LEN"
    using assms(2,7) by (auto simp: seal_envelope_def ebind_eq_Inr split: if_splits)
  then have "length ct = PRIVATE_KEY_LEN" "decrypt (session_key shared hash) iv ct = Inr private_key"
    using assms(1) by (auto simp: cipher_inverts_def)
  then show "open_envelope envelope u_public certificate_key agree_v public_key_of hash decrypt =
      ebind (public_key_of private_key) (\<lambda>k. if k = certificate_key then Inr private_key else Inl KeyMismatch)"
    using assms(3-6) ct(2) len by (cases "public_key_of private_key") (simp_all add: open_envelope_def ENVELOPE_LEN_def)
  show "\<forall>other dh key. open_envelope other dh certificate_key agree_v public_key_of hash decrypt = Inr key \<longrightarrow>
      length key = 32 \<and> public_key_of key = Inr certificate_key"
    by (auto simp: open_envelope_def ebind_eq_Inr PRIVATE_KEY_LEN_def split: if_splits)
qed

theorem envelope_roundtrip_witness:
  "\<exists>envelope. seal_envelope (replicate 32 9) [] (replicate 16 1) (\<lambda>_. Inr [7]) (\<lambda>_ d. d) (\<lambda>_ _ data. Inr (rev data)) = Inr envelope
    \<and> open_envelope envelope (0x04 # replicate 64 3) (0x04 # replicate 32 9) (\<lambda>_. Inr [7]) (\<lambda>k. Inr (0x04 # k)) (\<lambda>_ d. d)
        (\<lambda>_ _ ct. Inr (rev ct)) = Inr (replicate 32 9)"
proof -
  have inv: "cipher_inverts (\<lambda>_ _ data. Inr (rev data)) (\<lambda>_ _ ct. Inr (rev ct))" by (simp add: cipher_inverts_def)
  obtain envelope where seal: "seal_envelope (replicate 32 9) [] (replicate 16 1) (\<lambda>_. Inr [7]) (\<lambda>_ d. d) (\<lambda>_ _ data. Inr (rev data)) = Inr envelope"
    by (simp add: seal_envelope_def PRIVATE_KEY_LEN_def)
  have "open_envelope envelope (0x04 # replicate 64 3) (0x04 # replicate 32 9) (\<lambda>_. Inr [7]) (\<lambda>k. Inr (0x04 # k)) (\<lambda>_ d. d)
        (\<lambda>_ _ ct. Inr (rev ct)) = Inr (replicate 32 9)"
    using envelope_roundtrip [OF inv _ _ _ _ _ seal, of "[7]" "\<lambda>_. Inr [7]" "0x04 # replicate 64 3" "0x04 # replicate 32 9" "\<lambda>k. Inr (0x04 # k)"]
    by (simp add: envelope_lens)
  with seal show ?thesis by blast
qed

end
