(* ===== verification/Pnc_Sign.thy ===== *)
theory Pnc_Sign
  imports Pnc
begin

text \<open>
  Signatures of both generations, \<open>src/src/pnc/iso2.rs\<close> and \<open>src/src/pnc/iso20.rs\<close>: building and checking a
  \<open>ds:Signature\<close>, the authorization against a challenge, and metering. The encoders of EXI fragments are generated code;
  they are arguments, one for \<open>SignedInfo\<close> (\<open>xmldsig\<close>) and one for the element that is signed (\<open>fragment\<close>). A function that fills
  in the element it signs returns it with the signature; what it has filled in when it fails is dropped.
\<close>

section \<open>The signature\<close>

record reference =
  rf_id :: "string option"
  rf_type :: "string option"
  rf_uri :: "string option"
  rf_transforms :: "string list option"
  rf_digest_method :: string
  rf_digest_value :: bytes

record signed_info =
  si_id :: "string option"
  si_canonicalization_method :: string
  si_signature_method :: string
  si_hmac_output_length :: "int option"
  si_reference :: "reference list"

record signature =
  sn_id :: "string option"
  sn_signed_info :: signed_info
  sn_value_id :: "string option"
  sn_value :: bytes

type_synonym info_encoder = "value_coding \<Rightarrow> signed_info \<Rightarrow> exi_error + bytes"

section \<open>ISO 15118-20\<close>

definition SUITES :: "suite list" where
  "SUITES = [EcdsaSha256, EcdsaSha512]"

definition iso20_build_signed_info :: "suite \<Rightarrow> signed_element list \<Rightarrow> hash_fn \<Rightarrow> pnc_error + signed_info" where
  "iso20_build_signed_info suite elements hash =
     (if length elements > MAX_SIGNED_ELEMENTS then Inl (TooManyReferences (length elements))
      else Inr \<lparr>si_id = None, si_canonicalization_method = CANONICAL_EXI, si_signature_method = signature_algorithm suite,
             si_hmac_output_length = None,
             si_reference = map (\<lambda>e. \<lparr>rf_id = None, rf_type = None, rf_uri = Some (reference_uri (sg_id e)),
               rf_transforms = Some [CANONICAL_EXI], rf_digest_method = digest_algorithm suite,
               rf_digest_value = hash suite (sg_fragment e)\<rparr>) elements\<rparr>)"

definition iso20_sign :: "info_encoder \<Rightarrow> suite \<Rightarrow> signed_element list \<Rightarrow> hash_fn \<Rightarrow> sign_fn \<Rightarrow> pnc_error + signature" where
  "iso20_sign xmldsig suite elements hash signer =
     ebind (iso20_build_signed_info suite elements hash) (\<lambda>info.
     ebind (exi_ok (xmldsig Literal info)) (\<lambda>canonical.
     ebind (signer suite canonical) (\<lambda>v.
     Inr \<lparr>sn_id = None, sn_signed_info = info, sn_value_id = None, sn_value = v\<rparr>)))"

text \<open>The loop over the pairs of \<open>verify_with\<close>.\<close>

fun check_pairs :: "suite \<Rightarrow> hash_fn \<Rightarrow> (reference \<times> signed_element) list \<Rightarrow> pnc_error + unit" where
  "check_pairs suite hash [] = Inr ()"
| "check_pairs suite hash ((r, e) # ps) =
     ebind (check_transforms (rf_transforms r)) (\<lambda>_.
     ebind (check_reference suite (rf_digest_method r) (rf_digest_value r) e hash) (\<lambda>_.
     check_pairs suite hash ps))"

definition iso20_verify_with :: "info_encoder \<Rightarrow> signature \<Rightarrow> signed_element list \<Rightarrow> suite list \<Rightarrow> hash_fn \<Rightarrow> verify_fn \<Rightarrow>
    value_coding \<Rightarrow> pnc_error + unit" where
  "iso20_verify_with xmldsig sig elements accepted hash verifier coding =
     (let info = sn_signed_info sig in
      ebind (check_forbidden (si_id info) (sn_value_id sig) (map rf_type (si_reference info))) (\<lambda>_.
      ebind (check_canonicalization (si_canonicalization_method info)) (\<lambda>_.
      ebind (check_suite (si_signature_method info) (si_hmac_output_length info) accepted) (\<lambda>suite.
      ebind (pair (si_reference info) rf_uri elements) (\<lambda>ps.
      ebind (check_pairs suite hash ps) (\<lambda>_.
      ebind (exi_ok (xmldsig coding info)) (\<lambda>canonical.
      verifier suite canonical (sn_value sig))))))))"

definition iso20_verify :: "info_encoder \<Rightarrow> signature \<Rightarrow> signed_element list \<Rightarrow> suite list \<Rightarrow> hash_fn \<Rightarrow> verify_fn \<Rightarrow> pnc_error + unit" where
  "iso20_verify xmldsig sig elements accepted hash verifier =
     either_coding (\<lambda>coding. iso20_verify_with xmldsig sig elements accepted hash verifier coding)"

definition signed_info_bytes :: "info_encoder \<Rightarrow> signature \<Rightarrow> value_coding \<Rightarrow> pnc_error + bytes" where
  "signed_info_bytes xmldsig sig coding = exi_ok (xmldsig coding (sn_signed_info sig))"

text \<open>The part of \<open>PnC_AReqAuthorizationMode\<close> that is looked at; the certificate chain is the type parameter.\<close>

record 'c auth_mode =
  am_id :: string
  am_gen_challenge :: bytes
  am_contract_certificate_chain :: 'c

definition iso20_sign_authorization :: "info_encoder \<Rightarrow> (value_coding \<Rightarrow> 'c auth_mode \<Rightarrow> exi_error + bytes) \<Rightarrow> suite \<Rightarrow> 'c auth_mode \<Rightarrow>
    gen_challenge \<Rightarrow> hash_fn \<Rightarrow> sign_fn \<Rightarrow> pnc_error + (signature \<times> 'c auth_mode)" where
  "iso20_sign_authorization xmldsig fragment suite mode challenge hash signer =
     (let mode = (if am_id mode = [] then mode\<lparr>am_id := DEFAULT_ID\<rparr> else mode);
          mode = mode\<lparr>am_gen_challenge := challenge\<rparr>
      in
      ebind (exi_ok (fragment Literal mode)) (\<lambda>f.
      ebind (iso20_sign xmldsig suite [\<lparr>sg_id = am_id mode, sg_fragment = f\<rparr>] hash signer) (\<lambda>sig.
      Inr (sig, mode))))"

definition iso20_verify_authorization :: "info_encoder \<Rightarrow> (value_coding \<Rightarrow> 'c auth_mode \<Rightarrow> exi_error + bytes) \<Rightarrow> 'c auth_mode \<Rightarrow> signature \<Rightarrow>
    gen_challenge \<Rightarrow> suite list \<Rightarrow> hash_fn \<Rightarrow> verify_fn \<Rightarrow> pnc_error + unit" where
  "iso20_verify_authorization xmldsig fragment mode sig challenge accepted hash verifier =
     (if \<not> challenge_matches challenge (am_gen_challenge mode) then Inl ChallengeMismatch
      else if am_id mode = [] then Inl MissingId
      else either_coding (\<lambda>coding.
        ebind (exi_ok (fragment coding mode)) (\<lambda>f.
        iso20_verify_with xmldsig sig [\<lparr>sg_id = am_id mode, sg_fragment = f\<rparr>] accepted hash verifier coding)))"

text \<open>A reading the station signs; the meter, the receipt and the choice are the type parameter.\<close>

record 'm metering_data =
  md_id :: string
  md_session_id :: bytes
  md_content :: 'm

definition iso20_sign_metering_data :: "info_encoder \<Rightarrow> (value_coding \<Rightarrow> 'm metering_data \<Rightarrow> exi_error + bytes) \<Rightarrow> suite \<Rightarrow> 'm metering_data \<Rightarrow>
    hash_fn \<Rightarrow> sign_fn \<Rightarrow> pnc_error + (signature \<times> 'm metering_data)" where
  "iso20_sign_metering_data xmldsig fragment suite data hash signer =
     (let data = (if md_id data = [] then data\<lparr>md_id := DEFAULT_ID\<rparr> else data) in
      ebind (exi_ok (fragment Literal data)) (\<lambda>f.
      ebind (iso20_sign xmldsig suite [\<lparr>sg_id = md_id data, sg_fragment = f\<rparr>] hash signer) (\<lambda>sig.
      Inr (sig, data))))"

definition iso20_verify_metering_data :: "info_encoder \<Rightarrow> (value_coding \<Rightarrow> 'm metering_data \<Rightarrow> exi_error + bytes) \<Rightarrow> 'm metering_data \<Rightarrow>
    signature \<Rightarrow> bytes \<Rightarrow> suite list \<Rightarrow> hash_fn \<Rightarrow> verify_fn \<Rightarrow> pnc_error + unit" where
  "iso20_verify_metering_data xmldsig fragment data sig session accepted hash verifier =
     ebind (check_session (md_session_id data) session) (\<lambda>_.
     if md_id data = [] then Inl MissingId
     else either_coding (\<lambda>coding.
       ebind (exi_ok (fragment coding data)) (\<lambda>f.
       iso20_verify_with xmldsig sig [\<lparr>sg_id = md_id data, sg_fragment = f\<rparr>] accepted hash verifier coding)))"

definition iso20_verify_metering_confirmation :: "'m metering_data \<Rightarrow> 'm metering_data \<Rightarrow> pnc_error + unit" where
  "iso20_verify_metering_confirmation echoed issued = check_echo echoed issued ''SignedMeteringData''"

section \<open>ISO 15118-2\<close>

definition SUITE :: suite where
  "SUITE = EcdsaSha256"

definition iso2_build_signed_info :: "signed_element list \<Rightarrow> hash_fn \<Rightarrow> pnc_error + signed_info" where
  "iso2_build_signed_info elements hash =
     (if length elements > MAX_SIGNED_ELEMENTS then Inl (TooManyReferences (length elements))
      else Inr \<lparr>si_id = None, si_canonicalization_method = CANONICAL_EXI, si_signature_method = signature_algorithm SUITE,
             si_hmac_output_length = None,
             si_reference = map (\<lambda>e. \<lparr>rf_id = None, rf_type = None, rf_uri = Some (reference_uri (sg_id e)),
               rf_transforms = Some [CANONICAL_EXI], rf_digest_method = digest_algorithm SUITE,
               rf_digest_value = hash SUITE (sg_fragment e)\<rparr>) elements\<rparr>)"

definition iso2_sign :: "info_encoder \<Rightarrow> signed_element list \<Rightarrow> hash_fn \<Rightarrow> sign_fn \<Rightarrow> pnc_error + signature" where
  "iso2_sign xmldsig elements hash signer =
     ebind (iso2_build_signed_info elements hash) (\<lambda>info.
     ebind (exi_ok (xmldsig Literal info)) (\<lambda>canonical.
     ebind (signer SUITE canonical) (\<lambda>v.
     Inr \<lparr>sn_id = None, sn_signed_info = info, sn_value_id = None, sn_value = v\<rparr>)))"

definition iso2_verify_with :: "info_encoder \<Rightarrow> signature \<Rightarrow> signed_element list \<Rightarrow> hash_fn \<Rightarrow> verify_fn \<Rightarrow> value_coding \<Rightarrow> pnc_error + unit" where
  "iso2_verify_with xmldsig sig elements hash verifier coding =
     (let info = sn_signed_info sig in
      ebind (check_forbidden (si_id info) (sn_value_id sig) (map rf_type (si_reference info))) (\<lambda>_.
      ebind (check_canonicalization (si_canonicalization_method info)) (\<lambda>_.
      ebind (check_suite (si_signature_method info) (si_hmac_output_length info) [SUITE]) (\<lambda>suite.
      ebind (pair (si_reference info) rf_uri elements) (\<lambda>ps.
      ebind (check_pairs suite hash ps) (\<lambda>_.
      ebind (exi_ok (xmldsig coding info)) (\<lambda>canonical.
      verifier suite canonical (sn_value sig))))))))"

definition iso2_verify :: "info_encoder \<Rightarrow> signature \<Rightarrow> signed_element list \<Rightarrow> hash_fn \<Rightarrow> verify_fn \<Rightarrow> pnc_error + unit" where
  "iso2_verify xmldsig sig elements hash verifier =
     either_coding (\<lambda>coding. iso2_verify_with xmldsig sig elements hash verifier coding)"

record authorization_req =
  aq_id :: "string option"
  aq_gen_challenge :: "bytes option"

definition iso2_sign_authorization :: "info_encoder \<Rightarrow> (value_coding \<Rightarrow> authorization_req \<Rightarrow> exi_error + bytes) \<Rightarrow> authorization_req \<Rightarrow>
    gen_challenge \<Rightarrow> hash_fn \<Rightarrow> sign_fn \<Rightarrow> pnc_error + (signature \<times> authorization_req)" where
  "iso2_sign_authorization xmldsig fragment request challenge hash signer =
     (let i = (case aq_id request of Some i \<Rightarrow> i | None \<Rightarrow> DEFAULT_ID);
          request = request\<lparr>aq_id := Some i, aq_gen_challenge := Some challenge\<rparr>
      in
      ebind (exi_ok (fragment Literal request)) (\<lambda>f.
      ebind (iso2_sign xmldsig [\<lparr>sg_id = i, sg_fragment = f\<rparr>] hash signer) (\<lambda>sig.
      Inr (sig, request))))"

definition iso2_verify_authorization :: "info_encoder \<Rightarrow> (value_coding \<Rightarrow> authorization_req \<Rightarrow> exi_error + bytes) \<Rightarrow> authorization_req \<Rightarrow>
    signature \<Rightarrow> gen_challenge \<Rightarrow> hash_fn \<Rightarrow> verify_fn \<Rightarrow> pnc_error + unit" where
  "iso2_verify_authorization xmldsig fragment request sig challenge hash verifier =
     ebind (ok_or (aq_gen_challenge request) MissingChallenge) (\<lambda>echoed.
     if \<not> challenge_matches challenge echoed then Inl ChallengeMismatch
     else
       ebind (ok_or (aq_id request) MissingId) (\<lambda>i.
       either_coding (\<lambda>coding.
         ebind (exi_ok (fragment coding request)) (\<lambda>f.
         iso2_verify_with xmldsig sig [\<lparr>sg_id = i, sg_fragment = f\<rparr>] hash verifier coding))))"

record meter_info =
  mi_meter_id :: string
  mi_meter_reading :: "u64 option"
  mi_sig_meter_reading :: "bytes option"
  mi_meter_status :: "16 word option"
  mi_t_meter :: "int option"

record metering_receipt_req =
  mr_id :: "string option"
  mr_session_id :: bytes
  mr_sa_schedule_tuple_id :: "u8 option"
  mr_meter_info :: meter_info

definition iso2_sign_metering_receipt :: "info_encoder \<Rightarrow> (value_coding \<Rightarrow> metering_receipt_req \<Rightarrow> exi_error + bytes) \<Rightarrow> metering_receipt_req \<Rightarrow>
    hash_fn \<Rightarrow> sign_fn \<Rightarrow> pnc_error + (signature \<times> metering_receipt_req)" where
  "iso2_sign_metering_receipt xmldsig fragment receipt hash signer =
     (let i = (case mr_id receipt of Some i \<Rightarrow> i | None \<Rightarrow> DEFAULT_ID);
          receipt = receipt\<lparr>mr_id := Some i\<rparr>
      in
      ebind (exi_ok (fragment Literal receipt)) (\<lambda>f.
      ebind (iso2_sign xmldsig [\<lparr>sg_id = i, sg_fragment = f\<rparr>] hash signer) (\<lambda>sig.
      Inr (sig, receipt))))"

definition iso2_verify_metering_receipt :: "info_encoder \<Rightarrow> (value_coding \<Rightarrow> metering_receipt_req \<Rightarrow> exi_error + bytes) \<Rightarrow> metering_receipt_req \<Rightarrow>
    signature \<Rightarrow> meter_info \<Rightarrow> bytes \<Rightarrow> hash_fn \<Rightarrow> verify_fn \<Rightarrow> pnc_error + unit" where
  "iso2_verify_metering_receipt xmldsig fragment receipt sig issued session hash verifier =
     ebind (check_session (mr_session_id receipt) session) (\<lambda>_.
     ebind (check_echo (mr_meter_info receipt) issued ''MeterInfo'') (\<lambda>_.
     ebind (ok_or (mr_id receipt) MissingId) (\<lambda>i.
     either_coding (\<lambda>coding.
       ebind (exi_ok (fragment coding receipt)) (\<lambda>f.
       iso2_verify_with xmldsig sig [\<lparr>sg_id = i, sg_fragment = f\<rparr>] hash verifier coding)))))"

section \<open>One check for both generations\<close>

lemma iso2_as_iso20:
  "iso2_sign xmldsig elements hash signer = iso20_sign xmldsig SUITE elements hash signer"
  "iso2_verify_with xmldsig sig elements hash verifier coding = iso20_verify_with xmldsig sig elements [SUITE] hash verifier coding"
  "iso2_verify xmldsig sig elements hash verifier = iso20_verify xmldsig sig elements [SUITE] hash verifier"
  by (simp_all add: iso2_sign_def iso20_sign_def iso2_build_signed_info_def iso20_build_signed_info_def iso2_verify_with_def
      iso20_verify_with_def iso2_verify_def iso20_verify_def)

text \<open>What a reference has to say of the element it covers.\<close>

definition vouches :: "suite \<Rightarrow> hash_fn \<Rightarrow> reference \<Rightarrow> signed_element \<Rightarrow> bool" where
  "vouches suite hash r e \<longleftrightarrow> rf_transforms r = Some [CANONICAL_EXI] \<and> rf_digest_method r = digest_algorithm suite
     \<and> rf_digest_value r = hash suite (sg_fragment e)"

lemma check_transforms_Inr [simp]: "check_transforms ts = Inr u \<longleftrightarrow> ts = Some [CANONICAL_EXI]"
  by (auto simp: check_transforms_def check_canonicalization_def split: option.splits list.splits)

lemma check_reference_Inr [simp]:
  "check_reference suite algorithm v e hash = Inr u \<longleftrightarrow> algorithm = digest_algorithm suite \<and> v = hash suite (sg_fragment e)"
  by (auto simp: check_reference_def)

lemma check_pairs_Inr: "check_pairs suite hash ps = Inr u \<longleftrightarrow> (\<forall>(r, e) \<in> set ps. vouches suite hash r e)"
  by (induction suite hash ps rule: check_pairs.induct) (auto simp: ebind_eq_Inr vouches_def)

lemma check_suite_Inr [simp]:
  "check_suite algorithm hmac accepted = Inr suite \<longleftrightarrow> algorithm = signature_algorithm suite \<and> suite \<in> set accepted \<and> hmac = None"
proof (cases "from_signature_algorithm algorithm")
  case None
  then have "algorithm \<noteq> signature_algorithm suite" using from_signature_algorithm_Some [of algorithm suite] by auto
  then show ?thesis by (simp add: check_suite_def None)
next
  case (Some s)
  then have "algorithm = signature_algorithm suite \<longleftrightarrow> suite = s"
    using from_signature_algorithm_Some [of algorithm suite] by auto
  then show ?thesis by (auto simp: check_suite_def Some)
qed

lemma check_forbidden_Inr [simp]: "check_forbidden a b ts = Inr u \<longleftrightarrow> a = None \<and> b = None \<and> (\<forall>t \<in> set ts. t = None)"
  by (auto simp: check_forbidden_def)

lemma check_canonicalization_Inr [simp]: "check_canonicalization a = Inr u \<longleftrightarrow> a = CANONICAL_EXI"
  by (simp add: check_canonicalization_def)

text \<open>A signature of the profile, for a suite, with a pairing of its references with elements.\<close>

definition in_profile :: "suite \<Rightarrow> hash_fn \<Rightarrow> signature \<Rightarrow> (reference \<times> signed_element) list \<Rightarrow> bool" where
  "in_profile suite hash sig ps \<longleftrightarrow>
     (let info = sn_signed_info sig in
      si_id info = None \<and> sn_value_id sig = None \<and> si_canonicalization_method info = CANONICAL_EXI
      \<and> si_signature_method info = signature_algorithm suite \<and> si_hmac_output_length info = None
      \<and> map fst ps = si_reference info
      \<and> (\<forall>(r, e) \<in> set ps. rf_type r = None \<and> rf_uri r = Some (reference_uri (sg_id e)) \<and> vouches suite hash r e))"

lemma verify_with_iff:
  "iso20_verify_with xmldsig sig elements accepted hash verifier coding = Inr () \<longleftrightarrow>
   (\<exists>suite ps bs. suite \<in> set accepted \<and> pair (si_reference (sn_signed_info sig)) rf_uri elements = Inr ps
      \<and> in_profile suite hash sig ps \<and> xmldsig coding (sn_signed_info sig) = Inr bs \<and> verifier suite bs (sn_value sig) = Inr ())"
proof -
  let ?info = "sn_signed_info sig"
  have profile: "in_profile suite hash sig ps \<longleftrightarrow> si_id ?info = None \<and> sn_value_id sig = None
      \<and> (\<forall>t \<in> set (map rf_type (si_reference ?info)). t = None) \<and> si_canonicalization_method ?info = CANONICAL_EXI
      \<and> si_signature_method ?info = signature_algorithm suite \<and> si_hmac_output_length ?info = None
      \<and> (\<forall>(r, e) \<in> set ps. vouches suite hash r e)"
    if "pair (si_reference ?info) rf_uri elements = Inr ps" for suite ps
  proof -
    note s = pair_sound [OF that]
    have "\<forall>(r, e) \<in> set ps. rf_uri r = Some (reference_uri (sg_id e))" using s(4) by (auto simp: names_element_def)
    moreover have "set (map rf_type (si_reference ?info)) = rf_type ` fst ` set ps" using s(1) by (metis set_map)
    ultimately show ?thesis using s(1) by (auto simp: in_profile_def Let_def)
  qed
  have "iso20_verify_with xmldsig sig elements accepted hash verifier coding = Inr () \<longleftrightarrow>
    (\<exists>suite ps bs. si_id ?info = None \<and> sn_value_id sig = None \<and> (\<forall>t \<in> set (map rf_type (si_reference ?info)). t = None)
      \<and> si_canonicalization_method ?info = CANONICAL_EXI \<and> si_signature_method ?info = signature_algorithm suite
      \<and> suite \<in> set accepted \<and> si_hmac_output_length ?info = None
      \<and> pair (si_reference ?info) rf_uri elements = Inr ps \<and> (\<forall>(r, e) \<in> set ps. vouches suite hash r e)
      \<and> xmldsig coding ?info = Inr bs \<and> verifier suite bs (sn_value sig) = Inr ())"
    (is "?ok \<longleftrightarrow> ?checks")
    unfolding iso20_verify_with_def Let_def ebind_eq_Inr by (simp add: check_pairs_Inr)
  moreover have "?checks \<longleftrightarrow> (\<exists>suite ps bs. suite \<in> set accepted \<and> pair (si_reference ?info) rf_uri elements = Inr ps
      \<and> in_profile suite hash sig ps \<and> xmldsig coding ?info = Inr bs \<and> verifier suite bs (sn_value sig) = Inr ())"
    by (intro iff_exI) (use profile in blast)
  ultimately show ?thesis by simp
qed

section \<open>Signing and checking\<close>

lemma pair_loop_self:
  assumes "map uri_of references = map names_element elements" and "k \<le> length elements"
  shows "pair_loop uri_of elements (replicate k True @ replicate (length elements - k) False) (drop k references) =
    Inr (zip (drop k references) (drop k elements))"
  using assms(2)
proof (induction "length elements - k" arbitrary: k)
  case 0
  then have "drop k references = []" using map_eq_imp_length_eq [OF assms(1)] by simp
  then show ?case by simp
next
  case (Suc n)
  let ?used = "replicate k True @ replicate (length elements - k) False"
  have len: "length references = length elements" by (rule map_eq_imp_length_eq [OF assms(1)])
  have k: "k < length elements" using Suc.hyps(2) by simp
  have "uri_of (references ! k) = names_element (elements ! k)"
    using assms(1) k len by (metis nth_map)
  then have uri: "uri_of (references ! k) = Some (reference_uri (sg_id (elements ! k)))" by (simp add: names_element_def)
  have "List.find (\<lambda>j. sg_id (elements ! j) = sg_id (elements ! k) \<and> \<not> ?used ! j) [0..<length elements] = Some k"
    using k by (auto simp: find_Some_iff nth_append intro!: exI [of _ k])
  moreover have "?used[k := True] = replicate (Suc k) True @ replicate (length elements - Suc k) False"
    using k by (intro nth_equalityI) (auto simp: nth_append nth_list_update simp del: replicate_Suc)
  moreover have "strip_hash (reference_uri (sg_id (elements ! k))) = Some (sg_id (elements ! k))"
    by (simp add: strip_hash_Some)
  moreover have "drop k references = references ! k # drop (Suc k) references" "drop k elements = elements ! k # drop (Suc k) elements"
    using k len by (simp_all add: Cons_nth_drop_Suc)
  ultimately show ?case using Suc.hyps(1) [of "Suc k"] Suc.hyps(2) uri by simp
qed

lemma pair_self:
  assumes "map uri_of references = map names_element elements" and "length elements \<le> MAX_SIGNED_ELEMENTS"
  shows "pair references uri_of elements = Inr (zip references elements)"
  using pair_loop_self [OF assms(1), of 0] assms(2) map_eq_imp_length_eq [OF assms(1)] by (simp add: pair_def)

text \<open>A signer and a key that belong together.\<close>

definition key_pair :: "suite \<Rightarrow> sign_fn \<Rightarrow> verify_fn \<Rightarrow> bool" where
  "key_pair suite signer verifier \<longleftrightarrow> (\<forall>data s. signer suite data = Inr s \<longrightarrow> verifier suite data s = Inr ())"

lemma sign_verifies:
  assumes sig: "iso20_sign xmldsig suite elements hash signer = Inr sig" and acc: "suite \<in> set accepted"
    and key: "key_pair suite signer verifier"
  shows "iso20_verify_with xmldsig sig elements accepted hash verifier Literal = Inr ()"
proof -
  obtain info bs v where info: "iso20_build_signed_info suite elements hash = Inr info"
    and bs: "xmldsig Literal info = Inr bs" "signer suite bs = Inr v"
    and s: "sig = \<lparr>sn_id = None, sn_signed_info = info, sn_value_id = None, sn_value = v\<rparr>"
    using sig by (auto simp: iso20_sign_def ebind_eq_Inr)
  let ?ref = "\<lambda>e. \<lparr>rf_id = None, rf_type = None, rf_uri = Some (reference_uri (sg_id e)),
     rf_transforms = Some [CANONICAL_EXI], rf_digest_method = digest_algorithm suite, rf_digest_value = hash suite (sg_fragment e)\<rparr>"
  have i: "info = \<lparr>si_id = None, si_canonicalization_method = CANONICAL_EXI, si_signature_method = signature_algorithm suite,
     si_hmac_output_length = None, si_reference = map ?ref elements\<rparr>" and "length elements \<le> MAX_SIGNED_ELEMENTS"
    using info by (auto simp: iso20_build_signed_info_def split: if_splits)
  then have "pair (si_reference info) rf_uri elements = Inr (zip (si_reference info) elements)"
    by (intro pair_self) (simp_all add: names_element_def)
  moreover have "in_profile suite hash sig (zip (si_reference info) elements)"
    by (auto simp: in_profile_def s i vouches_def zip_map1 zip_same_conv_map)
  ultimately show ?thesis
    unfolding verify_with_iff using acc bs key by (auto simp: s key_pair_def)
qed

text \<open>What an element needs to be accepted under its identifier; both generations ask the same.\<close>

definition accepted_for :: "info_encoder \<Rightarrow> (value_coding \<Rightarrow> 'a \<Rightarrow> exi_error + bytes) \<Rightarrow> signature \<Rightarrow> string \<Rightarrow> suite list \<Rightarrow> hash_fn \<Rightarrow>
    verify_fn \<Rightarrow> 'a \<Rightarrow> bool" where
  "accepted_for xmldsig fragment sig i accepted hash verifier x \<longleftrightarrow> either_coding (\<lambda>coding. ebind (exi_ok (fragment coding x)) (\<lambda>f.
      iso20_verify_with xmldsig sig [\<lparr>sg_id = i, sg_fragment = f\<rparr>] accepted hash verifier coding)) = Inr ()"

lemma verify_authorization_Inr:
  "iso20_verify_authorization xmldsig fragment mode sig challenge accepted hash verifier = Inr () \<longleftrightarrow>
     am_gen_challenge mode = challenge \<and> am_id mode \<noteq> [] \<and> accepted_for xmldsig fragment sig (am_id mode) accepted hash verifier mode"
  "iso2_verify_authorization xmldsig fragment2 request sig challenge hash verifier = Inr () \<longleftrightarrow>
     aq_gen_challenge request = Some challenge \<and> (\<exists>i. aq_id request = Some i \<and> accepted_for xmldsig fragment2 sig i [SUITE] hash verifier request)"
  by (auto simp: iso20_verify_authorization_def iso2_verify_authorization_def challenge_matches_def accepted_for_def
      ebind_eq_Inr ok_or_eq_Inr iso2_as_iso20)

text \<open>A receipt or a reading is taken only with the session and the meter it was issued for.\<close>

lemma metering_receipt_Inr:
  "iso2_verify_metering_receipt xmldsig fragment receipt sig issued session hash verifier = Inr () \<longleftrightarrow>
     session_id_from_slice (mr_session_id receipt) = Inr session \<and> mr_meter_info receipt = issued
     \<and> (\<exists>i. mr_id receipt = Some i \<and> accepted_for xmldsig fragment sig i [SUITE] hash verifier receipt)"
  by (auto simp: iso2_verify_metering_receipt_def check_session_def check_echo_def accepted_for_def ebind_eq_Inr ok_or_eq_Inr
      iso2_as_iso20 split: sum.splits if_splits)

lemma metering_data_Inr:
  "iso20_verify_metering_data xmldsig fragment data sig session accepted hash verifier = Inr () \<longleftrightarrow>
     session_id_from_slice (md_session_id data) = Inr session \<and> md_id data \<noteq> []
     \<and> accepted_for xmldsig fragment sig (md_id data) accepted hash verifier data"
  by (auto simp: iso20_verify_metering_data_def check_session_def accepted_for_def ebind_eq_Inr split: sum.splits if_splits)

lemma signed_accepted:
  assumes "fragment Literal x = Inr f" and "iso20_sign xmldsig suite [\<lparr>sg_id = i, sg_fragment = f\<rparr>] hash signer = Inr sig"
    and "suite \<in> set accepted" and "key_pair suite signer verifier"
  shows "accepted_for xmldsig fragment sig i accepted hash verifier x"
  using sign_verifies [OF assms(2-4)] assms(1) by (simp add: accepted_for_def either_coding_def)

section \<open>Properties\<close>

text \<open>
  C7. An accepted signature vouches for exactly the elements it is checked for: when \<open>verify\<close> of either generation
  accepts, the signature stays within the profile for one of the accepted suites (in ISO 15118-2 the only one), with no
  forbidden attribute, no truncated MAC and at most four references; its references can be paired one to one with the
  given elements, each naming its element, with the one canonical transform and the suite's digest of the element's
  fragment; and the key accepts the signature value over the encoding of this very \<open>SignedInfo\<close>.
\<close>
theorem signature_covers:
  "iso2_verify xmldsig sig elements hash verifier = iso20_verify xmldsig sig elements [EcdsaSha256] hash verifier \<and>
   (iso20_verify xmldsig sig elements accepted hash verifier = Inr () \<longrightarrow>
     (\<exists>suite ps coding bs. suite \<in> set accepted \<and> in_profile suite hash sig ps \<and> mset (map snd ps) = mset elements
        \<and> length ps \<le> 4 \<and> xmldsig coding (sn_signed_info sig) = Inr bs \<and> verifier suite bs (sn_value sig) = Inr ()))"
proof (intro conjI impI)
  show "iso2_verify xmldsig sig elements hash verifier = iso20_verify xmldsig sig elements [EcdsaSha256] hash verifier"
    by (simp add: iso2_as_iso20 SUITE_def)
  assume "iso20_verify xmldsig sig elements accepted hash verifier = Inr ()"
  then obtain coding suite ps bs where *: "suite \<in> set accepted"
    "pair (si_reference (sn_signed_info sig)) rf_uri elements = Inr ps" "in_profile suite hash sig ps"
    "xmldsig coding (sn_signed_info sig) = Inr bs" "verifier suite bs (sn_value sig) = Inr ()"
    unfolding iso20_verify_def by (blast dest: either_coding_Inr elim: verify_with_iff [THEN iffD1, elim_format])
  from pair_sound(1-3) [OF *(2)] have "mset (map snd ps) = mset elements" "length ps \<le> 4"
    by (auto simp: MAX_SIGNED_ELEMENTS_def dest: arg_cong [of _ _ length])
  with * show "\<exists>suite ps coding bs. suite \<in> set accepted \<and> in_profile suite hash sig ps \<and> mset (map snd ps) = mset elements
        \<and> length ps \<le> 4 \<and> xmldsig coding (sn_signed_info sig) = Inr bs \<and> verifier suite bs (sn_value sig) = Inr ()" by blast
qed

text \<open>Samples: a signer whose value is the data, a key that compares, encoders that write what they are given.\<close>

definition sample_xmldsig :: info_encoder where
  "sample_xmldsig coding info = Inr (concat (map rf_digest_value (si_reference info)))"

definition sample_signer :: sign_fn where
  "sample_signer suite data = Inr data"

definition sample_key :: verify_fn where
  "sample_key suite data v = (if v = data then Inr () else Inl Pnc_BadSignature)"

definition sample_fragment :: "value_coding \<Rightarrow> authorization_req \<Rightarrow> exi_error + bytes" where
  "sample_fragment coding r =
     (if aq_id r = Some DEFAULT_ID then Inr (case aq_gen_challenge r of Some c \<Rightarrow> 1 # c | None \<Rightarrow> [0]) else Inl UnsupportedOption)"

lemma sample_key_accepts: "key_pair suite sample_signer sample_key"
  by (simp add: key_pair_def sample_signer_def sample_key_def)

theorem signature_covers_witness:
  "\<exists>sig. iso20_sign sample_xmldsig EcdsaSha512 [\<lparr>sg_id = ''a'', sg_fragment = [5]\<rparr>] (\<lambda>_ d. d) sample_signer = Inr sig
    \<and> (\<exists>suite ps. suite \<in> set SUITES \<and> in_profile suite (\<lambda>_ d. d) sig ps \<and> length ps \<le> 4)"
proof -
  obtain sig where sig: "iso20_sign sample_xmldsig EcdsaSha512 [\<lparr>sg_id = ''a'', sg_fragment = [5]\<rparr>] (\<lambda>_ d. d) sample_signer = Inr sig"
    by (auto simp: iso20_sign_def iso20_build_signed_info_def sample_xmldsig_def sample_signer_def MAX_SIGNED_ELEMENTS_def)
  have "EcdsaSha512 \<in> set SUITES" by (simp add: SUITES_def)
  from sign_verifies [OF sig this sample_key_accepts]
  have "iso20_verify sample_xmldsig sig [\<lparr>sg_id = ''a'', sg_fragment = [5]\<rparr>] SUITES (\<lambda>_ d. d) sample_key = Inr ()"
    by (simp add: iso20_verify_def either_coding_def)
  with signature_covers [of sample_xmldsig sig "[\<lparr>sg_id = ''a'', sg_fragment = [5]\<rparr>]" "\<lambda>_ d. d" sample_key SUITES]
  show ?thesis using sig by blast
qed

text \<open>
  C29. A signature is accepted by the key it was made for: what \<open>sign\<close> builds over any elements, \<open>verify\<close> accepts for
  the same elements, for ISO 15118-20 under a policy that has the suite; what \<open>sign_authorization\<close> makes of a request
  and a challenge, \<open>verify_authorization\<close> accepts for this challenge; and a metering receipt or reading that was signed
  is accepted for the session and the meter reading it names. This holds in both generations, given that the key accepts
  what the signer signs.
\<close>
theorem signature_roundtrip:
  assumes "key_pair suite signer verifier" and "suite \<in> set accepted"
  shows "(iso20_sign xmldsig suite elements hash signer = Inr sig \<longrightarrow>
        iso20_verify xmldsig sig elements accepted hash verifier = Inr ())
    \<and> (suite = SUITE \<longrightarrow> iso2_sign xmldsig elements hash signer = Inr sig \<longrightarrow>
        iso2_verify xmldsig sig elements hash verifier = Inr ())
    \<and> (iso20_sign_authorization xmldsig fragment suite mode challenge hash signer = Inr (sig, mode') \<longrightarrow>
        am_gen_challenge mode' = challenge \<and> iso20_verify_authorization xmldsig fragment mode' sig challenge accepted hash verifier = Inr ())
    \<and> (suite = SUITE \<longrightarrow> iso2_sign_authorization xmldsig fragment2 request challenge hash signer = Inr (sig, request') \<longrightarrow>
        aq_gen_challenge request' = Some challenge \<and> iso2_verify_authorization xmldsig fragment2 request' sig challenge hash verifier = Inr ())
    \<and> (iso20_sign_metering_data xmldsig fragment3 suite reading hash signer = Inr (sig, reading')
          \<and> session_id_from_slice (md_session_id reading) = Inr session \<longrightarrow>
        iso20_verify_metering_data xmldsig fragment3 reading' sig session accepted hash verifier = Inr ())
    \<and> (suite = SUITE \<longrightarrow> iso2_sign_metering_receipt xmldsig fragment4 receipt hash signer = Inr (sig, receipt')
          \<and> session_id_from_slice (mr_session_id receipt) = Inr session \<longrightarrow>
        iso2_verify_metering_receipt xmldsig fragment4 receipt' sig (mr_meter_info receipt) session hash verifier = Inr ())"
proof (intro conjI impI; (elim conjE)?)
  show "iso20_verify xmldsig sig elements accepted hash verifier = Inr ()"
    if "iso20_sign xmldsig suite elements hash signer = Inr sig"
    using sign_verifies [OF that assms(2,1)] by (simp add: iso20_verify_def either_coding_def)
  show "iso2_verify xmldsig sig elements hash verifier = Inr ()"
    if "suite = SUITE" "iso2_sign xmldsig elements hash signer = Inr sig"
    using that sign_verifies [of xmldsig SUITE elements hash signer sig "[SUITE]" verifier] assms(1)
    by (simp add: iso2_as_iso20 iso20_verify_def either_coding_def)
next
  assume *: "iso20_sign_authorization xmldsig fragment suite mode challenge hash signer = Inr (sig, mode')"
  then obtain f where f: "fragment Literal mode' = Inr f"
    "iso20_sign xmldsig suite [\<lparr>sg_id = am_id mode', sg_fragment = f\<rparr>] hash signer = Inr sig"
    and m: "am_gen_challenge mode' = challenge" "am_id mode' \<noteq> []"
    by (auto simp: iso20_sign_authorization_def Let_def ebind_eq_Inr DEFAULT_ID_def split: if_splits)
  from signed_accepted [of fragment, OF f assms(2,1)] m
  show "iso20_verify_authorization xmldsig fragment mode' sig challenge accepted hash verifier = Inr ()"
    by (simp add: verify_authorization_Inr)
  show "am_gen_challenge mode' = challenge" by (rule m(1))
next
  assume suite: "suite = SUITE"
    and "iso2_sign_authorization xmldsig fragment2 request challenge hash signer = Inr (sig, request')"
  then obtain f i where f: "fragment2 Literal request' = Inr f"
    "iso20_sign xmldsig suite [\<lparr>sg_id = i, sg_fragment = f\<rparr>] hash signer = Inr sig"
    and m: "aq_id request' = Some i" "aq_gen_challenge request' = Some challenge"
    by (auto simp: iso2_sign_authorization_def Let_def ebind_eq_Inr iso2_as_iso20)
  from signed_accepted [of fragment2, OF f _ assms(1), of "[SUITE]"] suite m
  show "iso2_verify_authorization xmldsig fragment2 request' sig challenge hash verifier = Inr ()"
    by (simp add: verify_authorization_Inr)
  show "aq_gen_challenge request' = Some challenge" by (rule m)
next
  assume "iso20_sign_metering_data xmldsig fragment3 suite reading hash signer = Inr (sig, reading')"
    and "session_id_from_slice (md_session_id reading) = Inr session"
  then obtain f where f: "fragment3 Literal reading' = Inr f"
    "iso20_sign xmldsig suite [\<lparr>sg_id = md_id reading', sg_fragment = f\<rparr>] hash signer = Inr sig"
    and m: "md_id reading' \<noteq> []" "session_id_from_slice (md_session_id reading') = Inr session"
    by (auto simp: iso20_sign_metering_data_def Let_def ebind_eq_Inr DEFAULT_ID_def split: if_splits)
  from signed_accepted [of fragment3, OF f assms(2,1)] m
  show "iso20_verify_metering_data xmldsig fragment3 reading' sig session accepted hash verifier = Inr ()"
    by (simp add: metering_data_Inr)
next
  assume suite: "suite = SUITE" and "iso2_sign_metering_receipt xmldsig fragment4 receipt hash signer = Inr (sig, receipt')"
    and "session_id_from_slice (mr_session_id receipt) = Inr session"
  then obtain f i where f: "fragment4 Literal receipt' = Inr f"
    "iso20_sign xmldsig suite [\<lparr>sg_id = i, sg_fragment = f\<rparr>] hash signer = Inr sig"
    and m: "mr_id receipt' = Some i" "mr_meter_info receipt' = mr_meter_info receipt"
      "session_id_from_slice (mr_session_id receipt') = Inr session"
    by (auto simp: iso2_sign_metering_receipt_def Let_def ebind_eq_Inr iso2_as_iso20)
  from signed_accepted [of fragment4, OF f _ assms(1), of "[SUITE]"] suite m
  show "iso2_verify_metering_receipt xmldsig fragment4 receipt' sig (mr_meter_info receipt) session hash verifier = Inr ()"
    by (simp add: metering_receipt_Inr)
qed

theorem signature_roundtrip_witness:
  "\<exists>sig request. iso2_sign_authorization sample_xmldsig sample_fragment \<lparr>aq_id = None, aq_gen_challenge = None\<rparr> (replicate 16 90)
      (\<lambda>_ d. d) sample_signer = Inr (sig, request)
    \<and> iso2_verify_authorization sample_xmldsig sample_fragment request sig (replicate 16 90) (\<lambda>_ d. d) sample_key = Inr ()"
proof -
  obtain sig request where *: "iso2_sign_authorization sample_xmldsig sample_fragment \<lparr>aq_id = None, aq_gen_challenge = None\<rparr>
      (replicate 16 90) (\<lambda>_ d. d) sample_signer = Inr (sig, request)"
    by (auto simp: iso2_sign_authorization_def Let_def sample_fragment_def iso2_sign_def iso2_build_signed_info_def
        sample_xmldsig_def sample_signer_def MAX_SIGNED_ELEMENTS_def)
  have "SUITE \<in> set [SUITE]" by simp
  from signature_roundtrip [OF sample_key_accepts this] * show ?thesis by blast
qed

text \<open>What the generated encoder and the hash are relied on for: a fragment can be read back, and two do not collide.\<close>

definition readable :: "(value_coding \<Rightarrow> 'a \<Rightarrow> exi_error + bytes) \<Rightarrow> bool" where
  "readable fragment \<longleftrightarrow> (\<forall>k k' x x' bs. fragment k x = Inr bs \<longrightarrow> fragment k' x' = Inr bs \<longrightarrow> x = x')"

definition collides :: "hash_fn \<Rightarrow> (value_coding \<Rightarrow> 'a \<Rightarrow> exi_error + bytes) \<Rightarrow> 'a \<Rightarrow> 'a \<Rightarrow> bool" where
  "collides hash fragment x x' \<longleftrightarrow>
     (\<exists>suite k k' bs bs'. fragment k x = Inr bs \<and> fragment k' x' = Inr bs' \<and> bs \<noteq> bs' \<and> hash suite bs = hash suite bs')"

lemma verified_digest:
  assumes "accepted_for xmldsig fragment sig i accepted hash verifier x"
  shows "\<exists>suite coding f. fragment coding x = Inr f \<and> si_signature_method (sn_signed_info sig) = signature_algorithm suite
    \<and> map rf_digest_value (si_reference (sn_signed_info sig)) = [hash suite f]"
proof -
  obtain coding f where f: "fragment coding x = Inr f"
    and v: "iso20_verify_with xmldsig sig [\<lparr>sg_id = i, sg_fragment = f\<rparr>] accepted hash verifier coding = Inr ()"
    using assms either_coding_Inr by (fastforce simp: accepted_for_def ebind_eq_Inr)
  then obtain suite ps where ps: "pair (si_reference (sn_signed_info sig)) rf_uri [\<lparr>sg_id = i, sg_fragment = f\<rparr>] = Inr ps"
    and p: "in_profile suite hash sig ps" unfolding verify_with_iff by blast
  have "map snd ps = [\<lparr>sg_id = i, sg_fragment = f\<rparr>]" using pair_sound(2) [OF ps] by (metis mset.simps mset_single_iff)
  then obtain r where "ps = [(r, \<lparr>sg_id = i, sg_fragment = f\<rparr>)]" by (auto simp: map_eq_Cons_conv)
  with p have "si_reference (sn_signed_info sig) = [r]" "rf_digest_value r = hash suite f"
    "si_signature_method (sn_signed_info sig) = signature_algorithm suite"
    by (auto simp: in_profile_def vouches_def Let_def)
  with f show ?thesis by auto
qed

lemma signature_algorithm_inj: "signature_algorithm s = signature_algorithm s' \<Longrightarrow> s = s'"
  by (cases s; cases s') simp_all

lemma same_signature_same_element:
  assumes "readable fragment" and "\<not> collides hash fragment x x'"
    and "accepted_for xmldsig fragment sig i accepted hash verifier x"
    and "accepted_for xmldsig' fragment sig i' accepted' hash verifier' x'"
  shows "x = x'"
proof -
  obtain suite coding f where f: "fragment coding x = Inr f" "map rf_digest_value (si_reference (sn_signed_info sig)) = [hash suite f]"
    "si_signature_method (sn_signed_info sig) = signature_algorithm suite" using verified_digest [OF assms(3)] by (elim exE conjE) (rule that)
  obtain suite' coding' f' where f': "fragment coding' x' = Inr f'" "map rf_digest_value (si_reference (sn_signed_info sig)) = [hash suite' f']"
    "si_signature_method (sn_signed_info sig) = signature_algorithm suite'" using verified_digest [OF assms(4)] by (elim exE conjE) (rule that)
  from f(3) f'(3) have "suite = suite'" by (simp add: signature_algorithm_inj)
  with f f' have "hash suite f = hash suite f'" by simp
  with assms(2) f(1) f'(1) have "f = f'" unfolding collides_def by blast
  with assms(1) f(1) f'(1) show ?thesis unfolding readable_def by blast
qed

text \<open>
  C6. A signature authorizes one challenge only: when one signature is accepted for two requests and two challenges, by
  whatever stations, keys and policies, the challenges are the same, and so are the requests. A signature that was
  captured elsewhere is refused wherever another challenge was issued. This holds in both generations, as long as a
  fragment can be read back and the fragments of the two requests do not collide under the hash.
\<close>
theorem authorization_once:
  "(readable fragment \<and> \<not> collides hash fragment mode mode'
     \<and> iso20_verify_authorization xmldsig fragment mode sig challenge accepted hash verifier = Inr ()
     \<and> iso20_verify_authorization xmldsig' fragment mode' sig challenge' accepted' hash verifier' = Inr () \<longrightarrow>
       mode = mode' \<and> challenge = challenge')
   \<and> (readable fragment2 \<and> \<not> collides hash fragment2 request request'
     \<and> iso2_verify_authorization xmldsig fragment2 request sig challenge hash verifier = Inr ()
     \<and> iso2_verify_authorization xmldsig' fragment2 request' sig challenge' hash verifier' = Inr () \<longrightarrow>
       request = request' \<and> challenge = challenge')"
proof (intro conjI impI; elim conjE)
  assume a: "readable fragment" "\<not> collides hash fragment mode mode'"
    and v: "iso20_verify_authorization xmldsig fragment mode sig challenge accepted hash verifier = Inr ()"
      "iso20_verify_authorization xmldsig' fragment mode' sig challenge' accepted' hash verifier' = Inr ()"
  then show "mode = mode'" unfolding verify_authorization_Inr by (blast intro: same_signature_same_element)
  with v show "challenge = challenge'" by (simp add: verify_authorization_Inr)
next
  assume a: "readable fragment2" "\<not> collides hash fragment2 request request'"
    and v: "iso2_verify_authorization xmldsig fragment2 request sig challenge hash verifier = Inr ()"
      "iso2_verify_authorization xmldsig' fragment2 request' sig challenge' hash verifier' = Inr ()"
  then show "request = request'" unfolding verify_authorization_Inr by (blast intro: same_signature_same_element)
  with v show "challenge = challenge'" by (simp add: verify_authorization_Inr)
qed

theorem authorization_once_witness:
  "\<exists>sig request. iso2_verify_authorization sample_xmldsig sample_fragment request sig (replicate 16 90) (\<lambda>_ d. d) sample_key = Inr ()
    \<and> (\<forall>challenge. iso2_verify_authorization sample_xmldsig sample_fragment request sig challenge (\<lambda>_ d. d) sample_key = Inr () \<longrightarrow>
         challenge = replicate 16 90)"
proof -
  let ?r = "\<lparr>aq_id = Some DEFAULT_ID, aq_gen_challenge = Some (replicate 16 90)\<rparr>"
  obtain sig request where *: "iso2_sign_authorization sample_xmldsig sample_fragment ?r (replicate 16 90) (\<lambda>_ d. d) sample_signer = Inr (sig, request)"
    by (auto simp: iso2_sign_authorization_def Let_def sample_fragment_def iso2_sign_def iso2_build_signed_info_def
        sample_xmldsig_def sample_signer_def MAX_SIGNED_ELEMENTS_def)
  then obtain i f where "aq_id request = Some i" "aq_gen_challenge request = Some (replicate 16 90)"
    "sample_fragment Literal request = Inr f"
    "iso20_sign sample_xmldsig SUITE [\<lparr>sg_id = i, sg_fragment = f\<rparr>] (\<lambda>_ d. d) sample_signer = Inr sig"
    by (auto simp: iso2_sign_authorization_def Let_def ebind_eq_Inr iso2_as_iso20)
  then have "iso2_verify_authorization sample_xmldsig sample_fragment request sig (replicate 16 90) (\<lambda>_ d. d) sample_key = Inr ()"
    using sign_verifies [of sample_xmldsig SUITE "[\<lparr>sg_id = i, sg_fragment = f\<rparr>]" "\<lambda>_ d. d" sample_signer sig "[SUITE]" sample_key]
    by (simp add: iso2_verify_authorization_def challenge_matches_def either_coding_def iso2_as_iso20 sample_key_accepts)
  moreover have "readable sample_fragment" "\<not> collides (\<lambda>_ d. d) sample_fragment request request"
    by (auto simp: readable_def collides_def sample_fragment_def split: if_splits option.splits intro!: authorization_req.equality)
  ultimately show ?thesis
    using authorization_once [where hash = "\<lambda>_ d. d"] by blast
qed

end
