(* ===== verification/Pki_Der.thy ===== *)
theory Pki_Der
  imports Prelude
begin

text \<open>
  The reader of DER values, \<open>src/src/pnc/pki/der.rs\<close>. A reader is the bytes that are left; an operation returns what
  it read and the bytes behind it. The reader accepts one encoding of each value: it is the inverse of \<open>der_tlv\<close>.
\<close>

section \<open>Tags and errors\<close>

definition TAG_BOOLEAN :: u8 where "TAG_BOOLEAN = 0x01"
definition TAG_INTEGER :: u8 where "TAG_INTEGER = 0x02"
definition TAG_BIT_STRING :: u8 where "TAG_BIT_STRING = 0x03"
definition TAG_OCTET_STRING :: u8 where "TAG_OCTET_STRING = 0x04"
definition TAG_OID :: u8 where "TAG_OID = 0x06"
definition TAG_UTC_TIME :: u8 where "TAG_UTC_TIME = 0x17"
definition TAG_GENERALIZED_TIME :: u8 where "TAG_GENERALIZED_TIME = 0x18"
definition TAG_SEQUENCE :: u8 where "TAG_SEQUENCE = 0x30"
definition TAG_SET :: u8 where "TAG_SET = 0x31"

definition tag_context :: "u8 \<Rightarrow> u8" where
  "tag_context n = 0xA0 OR n"

lemmas tag_defs = TAG_BOOLEAN_def TAG_INTEGER_def TAG_BIT_STRING_def TAG_OCTET_STRING_def TAG_OID_def TAG_UTC_TIME_def
  TAG_GENERALIZED_TIME_def TAG_SEQUENCE_def TAG_SET_def tag_context_def

datatype der_error =
    Der_Truncated
  | Der_UnexpectedTag u8 u8
  | Der_NonCanonicalLength
  | Der_LengthTooLarge
  | Der_TrailingData
  | Der_Malformed

section \<open>The reader\<close>

text \<open>\<open>fold(0, |acc, b| (acc << 8) | b)\<close> over at most eight octets, which a \<open>usize\<close> of 64 bits holds.\<close>

definition be_value :: "bytes \<Rightarrow> nat" where
  "be_value octets = foldl (\<lambda>acc b. acc * 256 + unat b) 0 octets"

definition read_length :: "bytes \<Rightarrow> der_error + (nat \<times> bytes)" where
  "read_length input =
     (case input of
        [] \<Rightarrow> Inl Der_Truncated
      | first # rest \<Rightarrow>
          if first < 0x80 then Inr (unat first, rest)
          else if first = 0x80 then Inl Der_NonCanonicalLength
          else if first = 0xFF then Inl Der_Malformed
          else
            let count = unat (first AND 0x7F) in
            if length rest < count then Inl Der_Truncated
            else
              let octets = take count rest in
              if octets \<noteq> [] \<and> octets ! 0 = 0 then Inl Der_NonCanonicalLength
              else if count > 8 then Inl Der_LengthTooLarge
              else
                let len = be_value octets in
                if len < 0x80 then Inl Der_NonCanonicalLength else Inr (len, drop count rest))"

definition der_finish :: "bytes \<Rightarrow> der_error + unit" where
  "der_finish d = (if d = [] then Inr () else Inl Der_TrailingData)"

definition der_peek :: "bytes \<Rightarrow> u8 option" where
  "der_peek d = (case d of [] \<Rightarrow> None | t # _ \<Rightarrow> Some t)"

definition der_any :: "bytes \<Rightarrow> der_error + ((u8 \<times> bytes) \<times> bytes)" where
  "der_any d =
     (case d of
        [] \<Rightarrow> Inl Der_Truncated
      | t # after_tag \<Rightarrow>
          ebind (read_length after_tag) (\<lambda>(len, after_len).
          if length after_len < len then Inl Der_Truncated
          else Inr ((t, take len after_len), drop len after_len)))"

definition der_any_raw :: "bytes \<Rightarrow> der_error + ((u8 \<times> bytes \<times> bytes) \<times> bytes)" where
  "der_any_raw d =
     ebind (der_any d) (\<lambda>((t, contents), rest).
     let consumed = length d - length rest in Inr ((t, take consumed d, contents), rest))"

definition der_expect :: "u8 \<Rightarrow> bytes \<Rightarrow> der_error + (bytes \<times> bytes)" where
  "der_expect expected d =
     ebind (der_any d) (\<lambda>((t, contents), rest).
     if t = expected then Inr (contents, rest) else Inl (Der_UnexpectedTag expected t))"

definition der_optional :: "u8 \<Rightarrow> bytes \<Rightarrow> der_error + (bytes option \<times> bytes)" where
  "der_optional expected d =
     (if der_peek d = Some expected then ebind (der_expect expected d) (\<lambda>(contents, rest). Inr (Some contents, rest))
      else Inr (None, d))"

definition der_boolean :: "bytes \<Rightarrow> der_error + (bool \<times> bytes)" where
  "der_boolean d =
     ebind (der_expect TAG_BOOLEAN d) (\<lambda>(contents, rest).
     if contents = [0x00] then Inr (False, rest)
     else if contents = [0xFF] then Inr (True, rest)
     else Inl Der_Malformed)"

definition der_small_uint :: "bytes \<Rightarrow> der_error + (u32 \<times> bytes)" where
  "der_small_uint d =
     ebind (der_expect TAG_INTEGER d) (\<lambda>(contents, rest).
     case contents of
       [] \<Rightarrow> Inl Der_Malformed
     | first # more \<Rightarrow>
         if first = 0 \<and> more \<noteq> [] \<and> more ! 0 AND 0x80 = 0 then Inl Der_Malformed
         else if first AND 0x80 \<noteq> 0 then Inl Der_Malformed
         else
           let octets = (if first = 0 then more else contents) in
           if length octets > 4 then Inl Der_LengthTooLarge
           else Inr (foldl (\<lambda>acc b. push_bit 8 acc OR ucast b) 0 octets, rest))"

definition der_bit_string :: "bytes \<Rightarrow> der_error + ((u8 \<times> bytes) \<times> bytes)" where
  "der_bit_string d =
     ebind (der_expect TAG_BIT_STRING d) (\<lambda>(contents, rest).
     case contents of
       [] \<Rightarrow> Inl Der_Malformed
     | unused # bs \<Rightarrow>
         if unused > 7 \<or> unused > 0 \<and> bs = [] then Inl Der_Malformed
         else Inr ((unused, bs), rest))"

section \<open>The encoding\<close>

text \<open>The specification: the length in the fewest octets, and a value as tag, length and contents.\<close>

function be_octets :: "nat \<Rightarrow> bytes" where
  "be_octets n = (if n = 0 then [] else be_octets (n div 256) @ [of_nat (n mod 256)])"
  by pat_completeness auto
termination by (relation "measure id") auto

declare be_octets.simps [simp del]

definition der_length :: "nat \<Rightarrow> bytes" where
  "der_length n = (if n < 0x80 then [of_nat n] else of_nat (0x80 + length (be_octets n)) # be_octets n)"

definition der_tlv :: "u8 \<Rightarrow> bytes \<Rightarrow> bytes" where
  "der_tlv t contents = t # der_length (length contents) @ contents"

lemma be_value_snoc: "be_value (bs @ [b]) = be_value bs * 256 + unat b"
  by (simp add: be_value_def)

lemma be_value_Nil [simp]: "be_value [] = 0"
  by (simp add: be_value_def)

lemma unat_u8_of_nat: "n < 256 \<Longrightarrow> unat (of_nat n :: u8) = n"
  by (simp add: unat_of_nat take_bit_eq_mod)

lemma be_value_octets [simp]: "be_value (be_octets n) = n"
proof (induction n rule: be_octets.induct)
  case (1 n)
  show ?case
  proof (cases "n = 0")
    case False
    then show ?thesis using 1 [OF False] by (subst be_octets.simps) (simp add: be_value_snoc unat_u8_of_nat)
  qed (subst be_octets.simps, simp)
qed

lemma be_octets_Nil [simp]: "be_octets n = [] \<longleftrightarrow> n = 0"
  by (metis be_octets.simps be_value_Nil be_value_octets)

lemma be_octets_no_zero: "be_octets n \<noteq> [] \<Longrightarrow> be_octets n ! 0 \<noteq> 0"
proof (induction n rule: be_octets.induct)
  case (1 n)
  then have n: "n \<noteq> 0" by simp
  show ?case
  proof (cases "be_octets (n div 256) = []")
    case True
    then have "n div 256 = 0" by simp
    then have "be_octets n = [of_nat n]" using n True by (subst be_octets.simps) simp
    moreover have "unat (of_nat n :: u8) = n" using \<open>n div 256 = 0\<close> by (intro unat_u8_of_nat) (simp add: div_eq_0_iff)
    ultimately show ?thesis using n by (auto simp: unat_eq_zero [symmetric])
  next
    case False
    then show ?thesis using 1 n by (subst be_octets.simps) (simp add: nth_append)
  qed
qed

lemma be_octets_value:
  "octets \<noteq> [] \<longrightarrow> octets ! 0 \<noteq> 0 \<Longrightarrow> be_octets (be_value octets) = octets"
proof (induction octets rule: rev_induct)
  case (snoc b bs)
  have less: "unat b < 256" by (rule unat_u8_less)
  have ih: "be_octets (be_value bs) = bs" using snoc by (cases bs) simp_all
  have "be_value bs * 256 + unat b \<noteq> 0"
  proof (cases bs)
    case Nil
    then show ?thesis using snoc.prems by (simp add: unat_eq_zero)
  next
    case (Cons a as)
    then have "be_value bs \<noteq> 0" using ih be_octets_Nil [of "be_value bs"] by auto
    then show ?thesis by simp
  qed
  then show ?case
    using ih less by (subst be_octets.simps) (simp add: be_value_snoc)
qed (simp add: be_octets.simps)

lemma be_value_less: "be_value bs < 256 ^ length bs"
proof (induction bs rule: rev_induct)
  case (snoc b bs)
  have "be_value bs * 256 + unat b < (be_value bs + 1) * 256" using unat_u8_less [of b] by simp
  also have "\<dots> \<le> 256 ^ length bs * 256" using snoc by (simp only: mult_le_mono1 Suc_eq_plus1 [symmetric] Suc_le_eq)
  finally show ?case by (simp add: be_value_snoc)
qed simp

lemma length_be_octets: "n < 256 ^ k \<Longrightarrow> length (be_octets n) \<le> k"
proof (induction k arbitrary: n)
  case (Suc k)
  then have "n div 256 < 256 ^ k" by (simp add: less_mult_imp_div_less mult.commute)
  from Suc.IH [OF this] show ?case by (subst be_octets.simps) simp
qed (simp add: be_octets.simps)

lemma be_octets_8: "n < 2 ^ 64 \<Longrightarrow> length (be_octets n) \<le> 8"
  using length_be_octets [of n 8] by simp

section \<open>One encoding for each value\<close>

lemma unat_and_7F: "0x80 \<le> (b :: u8) \<Longrightarrow> unat (b AND 0x7F) = unat b - 0x80"
proof -
  assume "0x80 \<le> b"
  then have "0x80 \<le> unat b" by (simp add: word_le_nat_alt)
  moreover have "unat (b AND 0x7F) = take_bit 7 (unat b)" by (simp add: unsigned_take_bit_eq)
  then have "unat (b AND 0x7F) = unat b mod 0x80" by (simp only: take_bit_eq_mod) simp
  ultimately show ?thesis using unat_u8_less [of b] by (simp add: mod_if)
qed

lemma read_length_short: "n < 0x80 \<Longrightarrow> read_length (of_nat n # rest) = Inr (n, rest)"
  by (simp add: read_length_def word_less_nat_alt unat_u8_of_nat)

lemma read_length_long:
  assumes "0x80 \<le> n" and "n < 2 ^ 64"
  shows "read_length (of_nat (0x80 + length (be_octets n)) # be_octets n @ rest) = Inr (n, rest)"
proof -
  define k b where "k = length (be_octets n)" and "b = (of_nat (0x80 + k) :: u8)"
  have k: "1 \<le> k" "k \<le> 8" using be_octets_8 [OF assms(2)] assms(1) by (simp_all add: k_def Suc_le_eq)
  then have b: "unat b = 0x80 + k" unfolding b_def by (intro unat_u8_of_nat) simp
  then have "unat b \<noteq> unat (0x80 :: u8)" "unat b \<noteq> unat (0xFF :: u8)" "unat (0x80 :: u8) \<le> unat b" using k by simp_all
  then have "\<not> b < 0x80" "b \<noteq> 0x80" "b \<noteq> 0xFF" "0x80 \<le> b" by (auto simp: word_le_nat_alt word_less_nat_alt simp del: unat_numeral)
  moreover from this(4) have "unat (b AND 0x7F) = k" using unat_and_7F b by simp
  moreover have "be_octets n ! 0 \<noteq> 0" using be_octets_no_zero assms(1) by simp
  ultimately have "read_length (b # be_octets n @ rest) = Inr (n, rest)"
    using k assms(1) unfolding read_length_def by (simp add: k_def)
  then show ?thesis by (simp only: b_def k_def)
qed

lemma read_length_encodes: "n < 2 ^ 64 \<Longrightarrow> read_length (der_length n @ rest) = Inr (n, rest)"
  using read_length_short read_length_long by (auto simp: der_length_def not_less)

lemma read_length_canonical:
  assumes "read_length input = Inr (n, rest)"
  shows "n < 2 ^ 64 \<and> input = der_length n @ rest"
proof -
  obtain first more where input: "input = first # more" using assms by (cases input) (simp_all add: read_length_def)
  show ?thesis
  proof (cases "first < 0x80")
    case True
    then have "n = unat first" "rest = more" "unat first < 0x80"
      using assms by (simp_all add: input read_length_def word_less_nat_alt)
    then show ?thesis by (simp add: input der_length_def)
  next
    case False
    define count where "count = unat (take_bit 7 first)"
    have c: "count = unat first - 0x80" "0x80 \<le> unat first"
      using False unat_and_7F [of first] by (simp_all add: count_def not_less word_le_nat_alt)
    have "first \<noteq> 0x80" "first \<noteq> 0xFF" "count \<le> length more" "take count more \<noteq> [] \<longrightarrow> take count more ! 0 \<noteq> 0"
      "count \<le> 8" "n = be_value (take count more)" "\<not> n < 0x80" "rest = drop count more"
      using assms False by (auto simp: input read_length_def Let_def count_def [symmetric] split: if_splits)
    then have "be_octets n = take count more" "0x80 \<le> n" "length (take count more) = count"
      using be_octets_value by auto
    moreover have "n < 256 ^ 8"
    proof -
      have "n < 256 ^ count" using be_value_less [of "take count more"] \<open>n = _\<close> \<open>length (take count more) = count\<close> by simp
      also have "\<dots> \<le> 256 ^ 8" using \<open>count \<le> 8\<close> by (rule power_increasing) simp
      finally show ?thesis .
    qed
    moreover have "of_nat (0x80 + count) = first" using c by simp
    ultimately show ?thesis using \<open>rest = _\<close> by (simp add: input der_length_def)
  qed
qed

lemma read_length_iff: "read_length input = Inr (n, rest) \<longleftrightarrow> n < 2 ^ 64 \<and> input = der_length n @ rest"
  using read_length_canonical read_length_encodes by blast

lemma der_any_iff:
  "der_any d = Inr ((t, contents), rest) \<longleftrightarrow> length contents < 2 ^ 64 \<and> d = der_tlv t contents @ rest"
proof
  assume "der_any d = Inr ((t, contents), rest)"
  then obtain len after where "d = t # after" "\<exists>more. read_length after = Inr (len, more) \<and> len \<le> length more
      \<and> contents = take len more \<and> rest = drop len more"
    by (cases d) (auto simp: der_any_def ebind_eq_Inr split: if_splits)
  then show "length contents < 2 ^ 64 \<and> d = der_tlv t contents @ rest"
    by (auto simp: read_length_iff der_tlv_def)
next
  assume "length contents < 2 ^ 64 \<and> d = der_tlv t contents @ rest"
  then show "der_any d = Inr ((t, contents), rest)"
    using read_length_encodes [of "length contents" "contents @ rest"] by (simp add: der_any_def der_tlv_def)
qed

lemma der_any_raw_iff:
  "der_any_raw d = Inr ((t, raw, contents), rest) \<longleftrightarrow>
   length contents < 2 ^ 64 \<and> raw = der_tlv t contents \<and> d = raw @ rest"
proof
  assume "der_any_raw d = Inr ((t, raw, contents), rest)"
  then have "der_any d = Inr ((t, contents), rest)" "raw = take (length d - length rest) d"
    by (auto simp: der_any_raw_def ebind_eq_Inr Let_def)
  then show "length contents < 2 ^ 64 \<and> raw = der_tlv t contents \<and> d = raw @ rest" by (auto simp: der_any_iff)
next
  assume *: "length contents < 2 ^ 64 \<and> raw = der_tlv t contents \<and> d = raw @ rest"
  then have "der_any d = Inr ((t, contents), rest)" by (simp add: der_any_iff)
  with * show "der_any_raw d = Inr ((t, raw, contents), rest)" by (simp add: der_any_raw_def)
qed

lemma der_expect_iff:
  "der_expect t d = Inr (contents, rest) \<longleftrightarrow> length contents < 2 ^ 64 \<and> d = der_tlv t contents @ rest"
  by (auto simp: der_expect_def ebind_eq_Inr der_any_iff split: if_splits)

text \<open>
  The contract of a reader that accepts one encoding of each value: what it reads determines the bytes it took, and an input
  begins with the encoding of one value at most.
\<close>

locale canonical_reader =
  fixes read_of :: "bytes \<Rightarrow> der_error + ('v \<times> bytes)"
    and encoding :: "'v \<Rightarrow> bytes"
    and encodable :: "'v \<Rightarrow> bool"
  assumes canonical: "read_of d = Inr (v, rest) \<longleftrightarrow> encodable v \<and> d = encoding v @ rest"
begin

lemma reads_back: "encodable v \<Longrightarrow> read_of (encoding v @ rest) = Inr (v, rest)"
  using canonical by blast

lemma prefix_free: "encodable v \<Longrightarrow> encodable w \<Longrightarrow> encoding v @ r = encoding w @ s \<Longrightarrow> v = w \<and> r = s"
  by (metis reads_back sum.inject(2) prod.inject)

lemma encoding_inj: "encodable v \<Longrightarrow> encodable w \<Longrightarrow> encoding v = encoding w \<Longrightarrow> v = w"
  by (metis prefix_free)

end

interpretation der_lengths: canonical_reader read_length der_length "\<lambda>n. n < 2 ^ 64"
  by unfold_locales (rule read_length_iff)

interpretation der_values: canonical_reader der_any "\<lambda>(t, c). der_tlv t c" "\<lambda>(t, c). length c < 2 ^ 64"
  by unfold_locales (auto simp: der_any_iff)

interpretation der_contents: canonical_reader "der_expect t" "der_tlv t" "\<lambda>c. length c < 2 ^ 64" for t
  by unfold_locales (rule der_expect_iff)

lemma der_tlv_inj: "der_tlv t c = der_tlv t' c' \<Longrightarrow> length c < 2 ^ 64 \<Longrightarrow> length c' < 2 ^ 64 \<Longrightarrow> t = t' \<and> c = c'"
  using der_values.encoding_inj [of "(t, c)" "(t', c')"] by simp

section \<open>Properties\<close>

text \<open>
  C31. DER has one encoding per value and the reader accepts no other: reading a value succeeds with tag, contents and
  rest exactly when the input is this tag, the length in its shortest form, the contents and the rest. So a length in
  the indefinite form, with leading zeros or in more octets than it needs is refused, and nothing that follows the
  value has any influence.
\<close>
theorem der_canonical:
  "der_any d = Inr ((t, contents), rest) \<longleftrightarrow> length contents < 2 ^ 64 \<and> d = der_tlv t contents @ rest"
  by (rule der_any_iff)

end
