(* ===== verification/Pki_Cert.thy ===== *)
theory Pki_Cert
  imports Pnc Pki_Der "HOL-Library.Signed_Division"
begin

text \<open>
  X.509 certificates as far as ISO 15118 constrains them, \<open>src/src/pnc/pki/cert.rs\<close> and \<open>oid.rs\<close>. Text is kept as its
  UTF-8 bytes.
\<close>

section \<open>Object identifiers\<close>

definition OID_EC_PUBLIC_KEY :: bytes where "OID_EC_PUBLIC_KEY = [0x2A, 0x86, 0x48, 0xCE, 0x3D, 0x02, 0x01]"
definition OID_PRIME256V1 :: bytes where "OID_PRIME256V1 = [0x2A, 0x86, 0x48, 0xCE, 0x3D, 0x03, 0x01, 0x07]"
definition OID_SECP521R1 :: bytes where "OID_SECP521R1 = [0x2B, 0x81, 0x04, 0x00, 0x23]"
definition OID_ECDSA_WITH_SHA256 :: bytes where "OID_ECDSA_WITH_SHA256 = [0x2A, 0x86, 0x48, 0xCE, 0x3D, 0x04, 0x03, 0x02]"
definition OID_ECDSA_WITH_SHA512 :: bytes where "OID_ECDSA_WITH_SHA512 = [0x2A, 0x86, 0x48, 0xCE, 0x3D, 0x04, 0x03, 0x04]"
definition OID_COMMON_NAME :: bytes where "OID_COMMON_NAME = [0x55, 0x04, 0x03]"
definition OID_ORGANIZATION :: bytes where "OID_ORGANIZATION = [0x55, 0x04, 0x0A]"
definition OID_DOMAIN_COMPONENT :: bytes where
  "OID_DOMAIN_COMPONENT = [0x09, 0x92, 0x26, 0x89, 0x93, 0xF2, 0x2C, 0x64, 0x01, 0x19]"
definition OID_SUBJECT_KEY_IDENTIFIER :: bytes where "OID_SUBJECT_KEY_IDENTIFIER = [0x55, 0x1D, 0x0E]"
definition OID_KEY_USAGE :: bytes where "OID_KEY_USAGE = [0x55, 0x1D, 0x0F]"
definition OID_BASIC_CONSTRAINTS :: bytes where "OID_BASIC_CONSTRAINTS = [0x55, 0x1D, 0x13]"
definition OID_CERTIFICATE_POLICIES :: bytes where "OID_CERTIFICATE_POLICIES = [0x55, 0x1D, 0x20]"
definition OID_CRL_DISTRIBUTION_POINTS :: bytes where "OID_CRL_DISTRIBUTION_POINTS = [0x55, 0x1D, 0x1F]"
definition OID_AUTHORITY_KEY_IDENTIFIER :: bytes where "OID_AUTHORITY_KEY_IDENTIFIER = [0x55, 0x1D, 0x23]"
definition OID_EXT_KEY_USAGE :: bytes where "OID_EXT_KEY_USAGE = [0x55, 0x1D, 0x25]"
definition OID_AUTHORITY_INFO_ACCESS :: bytes where
  "OID_AUTHORITY_INFO_ACCESS = [0x2B, 0x06, 0x01, 0x05, 0x05, 0x07, 0x01, 0x01]"

section \<open>Certificates\<close>

datatype curve = P256 | P521

fun field_len :: "curve \<Rightarrow> nat" where
  "field_len P256 = 32"
| "field_len P521 = 66"

fun curve_suite :: "curve \<Rightarrow> suite" where
  "curve_suite P256 = EcdsaSha256"
| "curve_suite P521 = EcdsaSha512"

type_synonym key_usage = u16

definition DIGITAL_SIGNATURE :: key_usage where "DIGITAL_SIGNATURE = push_bit 0 1"
definition NON_REPUDIATION :: key_usage where "NON_REPUDIATION = push_bit 1 1"
definition KEY_CERT_SIGN :: key_usage where "KEY_CERT_SIGN = push_bit 5 1"

definition usage_and :: "key_usage \<Rightarrow> key_usage \<Rightarrow> key_usage" where
  "usage_and u v = u OR v"

definition usage_contains :: "key_usage \<Rightarrow> key_usage \<Rightarrow> bool" where
  "usage_contains u wanted \<longleftrightarrow> u AND wanted = wanted"

record basic_constraints =
  bc_ca :: bool
  bc_path_len :: "u32 option"

record dist_name =
  nm_encoded :: bytes
  nm_common_name :: "bytes option"
  nm_organization :: "bytes option"
  nm_domain_component :: "bytes option"

record certificate =
  ct_der :: bytes
  ct_tbs :: bytes
  ct_serial :: bytes
  ct_issuer :: dist_name
  ct_subject :: dist_name
  ct_not_before :: int
  ct_not_after :: int
  ct_curve :: curve
  ct_public_key :: bytes
  ct_key_usage :: "key_usage option"
  ct_basic_constraints :: "basic_constraints option"
  ct_signature :: bytes

datatype cert_error =
    Cert_Der der_error
  | NotV3
  | UnsupportedCurve
  | BadPublicKey
  | UnsupportedSignatureAlgorithm
  | AlgorithmMismatch
  | Cert_BadSignature
  | BadValidity
  | UnknownCriticalExtension
  | DuplicateExtension

definition der_ok :: "der_error + 'a \<Rightarrow> cert_error + 'a" where
  "der_ok r = (case r of Inl e \<Rightarrow> Inl (Cert_Der e) | Inr x \<Rightarrow> Inr x)"

lemma der_ok_Inr [simp]: "der_ok r = Inr x \<longleftrightarrow> r = Inr x"
  by (auto simp: der_ok_def split: sum.splits)

lemma der_expect_shorter: "der_expect t d = Inr (contents, rest) \<Longrightarrow> length rest < length d"
  by (auto simp: der_expect_iff der_tlv_def)

section \<open>Text and names\<close>

text \<open>\<open>core::str::from_utf8\<close>.\<close>

definition utf8_cont :: "u8 \<Rightarrow> bool" where
  "utf8_cont b \<longleftrightarrow> 0x80 \<le> b \<and> b \<le> 0xBF"

fun utf8_valid :: "bytes \<Rightarrow> bool" where
  "utf8_valid [] = True"
| "utf8_valid (a # as) =
     (if a < 0x80 then utf8_valid as
      else if 0xC2 \<le> a \<and> a \<le> 0xDF then
        (case as of b # bs \<Rightarrow> utf8_cont b \<and> utf8_valid bs | [] \<Rightarrow> False)
      else if 0xE0 \<le> a \<and> a \<le> 0xEF then
        (case as of
           b # c # cs \<Rightarrow> utf8_cont b \<and> (a = 0xE0 \<longrightarrow> 0xA0 \<le> b) \<and> (a = 0xED \<longrightarrow> b \<le> 0x9F) \<and> utf8_cont c \<and> utf8_valid cs
         | _ \<Rightarrow> False)
      else if 0xF0 \<le> a \<and> a \<le> 0xF4 then
        (case as of
           b # c # d # ds \<Rightarrow> utf8_cont b \<and> (a = 0xF0 \<longrightarrow> 0x90 \<le> b) \<and> (a = 0xF4 \<longrightarrow> b \<le> 0x8F) \<and> utf8_cont c \<and> utf8_cont d
             \<and> utf8_valid ds
         | _ \<Rightarrow> False)
      else False)"

definition read_signature_algorithm :: "bytes \<Rightarrow> cert_error + (bytes \<times> bytes)" where
  "read_signature_algorithm reader =
     ebind (der_ok (der_expect TAG_SEQUENCE reader)) (\<lambda>(alg, rest).
     ebind (der_ok (der_expect TAG_OID alg)) (\<lambda>(i, alg).
     if alg \<noteq> [] then Inl UnsupportedSignatureAlgorithm
     else if i = OID_ECDSA_WITH_SHA256 \<or> i = OID_ECDSA_WITH_SHA512 then Inr (i, rest)
     else Inl UnsupportedSignatureAlgorithm))"

definition set_attribute :: "bytes \<Rightarrow> bytes \<Rightarrow> dist_name \<Rightarrow> dist_name" where
  "set_attribute i v name =
     (if \<not> utf8_valid v then name
      else if i = OID_COMMON_NAME then name\<lparr>nm_common_name := Some v\<rparr>
      else if i = OID_ORGANIZATION then name\<lparr>nm_organization := Some v\<rparr>
      else if i = OID_DOMAIN_COMPONENT \<and> nm_domain_component name = None then name\<lparr>nm_domain_component := Some v\<rparr>
      else name)"

function read_rdn :: "bytes \<Rightarrow> dist_name \<Rightarrow> cert_error + dist_name" where
  "read_rdn rdn name =
     (if rdn = [] then Inr name
      else
        ebind (der_ok (der_expect TAG_SEQUENCE rdn)) (\<lambda>(attr, rdn).
        ebind (der_ok (der_expect TAG_OID attr)) (\<lambda>(i, attr).
        ebind (der_ok (der_any attr)) (\<lambda>((_, v), attr).
        ebind (der_ok (der_finish attr)) (\<lambda>_.
        read_rdn rdn (set_attribute i v name))))))"
  by pat_completeness auto
termination
  by (relation "measure (\<lambda>(rdn, _). length rdn)") (auto dest: der_expect_shorter)

function read_rdns :: "bytes \<Rightarrow> dist_name \<Rightarrow> cert_error + dist_name" where
  "read_rdns rdns name =
     (if rdns = [] then Inr name
      else
        ebind (der_ok (der_expect TAG_SET rdns)) (\<lambda>(rdn, rdns).
        ebind (read_rdn rdn name) (\<lambda>name.
        read_rdns rdns name)))"
  by pat_completeness auto
termination
  by (relation "measure (\<lambda>(rdns, _). length rdns)") (auto dest: der_expect_shorter)

declare read_rdn.simps [simp del] read_rdns.simps [simp del]

definition read_name :: "bytes \<Rightarrow> cert_error + (dist_name \<times> bytes)" where
  "read_name reader =
     ebind (der_ok (der_any_raw reader)) (\<lambda>((_, encoded, contents), rest).
     ebind (read_rdns contents \<lparr>nm_encoded = encoded, nm_common_name = None, nm_organization = None, nm_domain_component = None\<rparr>) (\<lambda>name.
     Inr (name, rest)))"

section \<open>Times\<close>

definition is_digit :: "u8 \<Rightarrow> bool" where
  "is_digit b \<longleftrightarrow> 0x30 \<le> b \<and> b \<le> 0x39"

text \<open>\<open>split_at_checked\<close> refuses a position behind the end or within a character.\<close>

definition split_digits :: "bytes \<Rightarrow> nat \<Rightarrow> cert_error + (nat \<times> bytes)" where
  "split_digits bs n =
     (if length bs < n \<or> n < length bs \<and> utf8_cont (bs ! n) then Inl BadValidity
      else if list_all is_digit (take n bs)
      then Inr (foldl (\<lambda>acc b. acc * 10 + unat (b - 0x30)) 0 (take n bs), drop n bs)
      else Inl BadValidity)"

definition unix_seconds :: "int \<Rightarrow> int \<Rightarrow> int \<Rightarrow> int \<Rightarrow> int \<Rightarrow> int \<Rightarrow> int" where
  "unix_seconds yr mon dy hr mi sec =
     (let y = (if mon \<le> 2 then yr - 1 else yr);
          era = (if y \<ge> 0 then y else y - 399) sdiv 400;
          yoe = y - era * 400;
          mp = (mon + 9) mod 12;
          doy = (153 * mp + 2) div 5 + dy - 1;
          doe = yoe * 365 + yoe div 4 - yoe div 100 + doy;
          days = era * 146097 + doe - 719468
      in days * 86400 + hr * 3600 + mi * 60 + sec)"

definition read_time :: "bytes \<Rightarrow> cert_error + (int \<times> bytes)" where
  "read_time reader =
     ebind (der_ok (der_any reader)) (\<lambda>((t, bs), reader).
     if \<not> utf8_valid bs then Inl BadValidity
     else
       ebind (if t = TAG_UTC_TIME then
                ebind (split_digits bs 2) (\<lambda>(yy, rest). Inr (if yy < 50 then 2000 + yy else 1900 + yy, rest))
              else if t = TAG_GENERALIZED_TIME then split_digits bs 4
              else Inl BadValidity) (\<lambda>(yr, rest).
       ebind (split_digits rest 2) (\<lambda>(mon, rest).
       ebind (split_digits rest 2) (\<lambda>(dy, rest).
       ebind (split_digits rest 2) (\<lambda>(hr, rest).
       ebind (split_digits rest 2) (\<lambda>(mi, rest).
       ebind (split_digits rest 2) (\<lambda>(sec, rest).
       if rest \<noteq> [0x5A] then Inl BadValidity
       else if \<not> (1 \<le> mon \<and> mon \<le> 12) \<or> dy = 0 \<or> dy > 31 \<or> hr > 23 \<or> mi > 59 \<or> sec > 60 then Inl BadValidity
       else Inr (unix_seconds (int yr) (int mon) (int dy) (int hr) (int mi) (int sec), reader))))))))"

definition read_validity :: "bytes \<Rightarrow> cert_error + ((int \<times> int) \<times> bytes)" where
  "read_validity reader =
     ebind (der_ok (der_expect TAG_SEQUENCE reader)) (\<lambda>(validity, rest).
     ebind (read_time validity) (\<lambda>(not_before, validity).
     ebind (read_time validity) (\<lambda>(not_after, validity).
     ebind (der_ok (der_finish validity)) (\<lambda>_.
     Inr ((not_before, not_after), rest)))))"

section \<open>Keys, extensions and signatures\<close>

definition read_spki :: "bytes \<Rightarrow> cert_error + ((curve \<times> bytes) \<times> bytes)" where
  "read_spki reader =
     ebind (der_ok (der_expect TAG_SEQUENCE reader)) (\<lambda>(spki, rest).
     ebind (der_ok (der_expect TAG_SEQUENCE spki)) (\<lambda>(alg, spki).
     ebind (der_ok (der_expect TAG_OID alg)) (\<lambda>(i, alg).
     if i \<noteq> OID_EC_PUBLIC_KEY then Inl UnsupportedCurve
     else
       ebind (der_ok (der_expect TAG_OID alg)) (\<lambda>(c, alg).
       ebind (if c = OID_PRIME256V1 then Inr P256 else if c = OID_SECP521R1 then Inr P521 else Inl UnsupportedCurve) (\<lambda>curve.
       ebind (der_ok (der_finish alg)) (\<lambda>_.
       ebind (der_ok (der_bit_string spki)) (\<lambda>((unused, point), spki).
       ebind (der_ok (der_finish spki)) (\<lambda>_.
       if unused \<noteq> 0 then Inl BadPublicKey
       else if point = [] \<or> point ! 0 \<noteq> 0x04 \<or> length point \<noteq> 1 + 2 * field_len curve then Inl BadPublicKey
       else Inr ((curve, point), rest)))))))))"

text \<open>The two loops over the octets and their bits; the inner one ends where the unused bits begin.\<close>

definition key_usage_bits :: "u8 \<Rightarrow> bytes \<Rightarrow> key_usage" where
  "key_usage_bits unused bs =
     foldl (\<lambda>bits (index, b).
         if index = length bs - 1 \<and> b \<ge> 8 - unat unused then bits
         else if bs ! index AND drop_bit b 0x80 \<noteq> 0 then bits OR push_bit (index * 8 + b) 1
         else bits)
       0 (List.product [0..<min 2 (length bs)] [0..<8])"

definition read_key_usage :: "bytes \<Rightarrow> cert_error + key_usage" where
  "read_key_usage v =
     ebind (der_ok (der_bit_string v)) (\<lambda>((unused, bs), reader).
     ebind (der_ok (der_finish reader)) (\<lambda>_.
     Inr (key_usage_bits unused bs)))"

definition read_basic_constraints :: "bytes \<Rightarrow> cert_error + basic_constraints" where
  "read_basic_constraints v =
     ebind (der_ok (der_expect TAG_SEQUENCE v)) (\<lambda>(sq, reader).
     ebind (der_ok (der_finish reader)) (\<lambda>_.
     ebind (if der_peek sq = Some TAG_BOOLEAN then der_ok (der_boolean sq) else Inr (False, sq)) (\<lambda>(ca, sq).
     ebind (if der_peek sq = Some TAG_INTEGER
            then ebind (der_ok (der_small_uint sq)) (\<lambda>(n, sq). Inr (Some n, sq)) else Inr (None, sq)) (\<lambda>(path_len, sq).
     ebind (der_ok (der_finish sq)) (\<lambda>_.
     Inr \<lparr>bc_ca = ca, bc_path_len = path_len\<rparr>)))))"

record extensions =
  ex_seen_key_usage :: bool
  ex_seen_basic_constraints :: bool
  ex_key_usage :: "key_usage option"
  ex_basic_constraints :: "basic_constraints option"

definition no_extensions :: extensions where
  "no_extensions = \<lparr>ex_seen_key_usage = False, ex_seen_basic_constraints = False, ex_key_usage = None, ex_basic_constraints = None\<rparr>"

definition take_extension :: "bytes \<Rightarrow> bool \<Rightarrow> bytes \<Rightarrow> extensions \<Rightarrow> cert_error + extensions" where
  "take_extension i critical v x =
     (if i = OID_KEY_USAGE then
        (if ex_seen_key_usage x then Inl DuplicateExtension
         else ebind (read_key_usage v) (\<lambda>u. Inr (x\<lparr>ex_seen_key_usage := True, ex_key_usage := Some u\<rparr>)))
      else if i = OID_BASIC_CONSTRAINTS then
        (if ex_seen_basic_constraints x then Inl DuplicateExtension
         else ebind (read_basic_constraints v) (\<lambda>b. Inr (x\<lparr>ex_seen_basic_constraints := True, ex_basic_constraints := Some b\<rparr>)))
      else if (i = OID_SUBJECT_KEY_IDENTIFIER \<or> i = OID_AUTHORITY_KEY_IDENTIFIER \<or> i = OID_CERTIFICATE_POLICIES
               \<or> i = OID_CRL_DISTRIBUTION_POINTS \<or> i = OID_AUTHORITY_INFO_ACCESS \<or> i = OID_EXT_KEY_USAGE) \<and> \<not> critical then Inr x
      else if critical then Inl UnknownCriticalExtension
      else Inr x)"

function read_extensions :: "bytes \<Rightarrow> extensions \<Rightarrow> cert_error + extensions" where
  "read_extensions list x =
     (if list = [] then Inr x
      else
        ebind (der_ok (der_expect TAG_SEQUENCE list)) (\<lambda>(ext, list).
        ebind (der_ok (der_expect TAG_OID ext)) (\<lambda>(i, ext).
        ebind (if der_peek ext = Some TAG_BOOLEAN then der_ok (der_boolean ext) else Inr (False, ext)) (\<lambda>(critical, ext).
        ebind (der_ok (der_expect TAG_OCTET_STRING ext)) (\<lambda>(v, ext).
        ebind (der_ok (der_finish ext)) (\<lambda>_.
        ebind (take_extension i critical v x) (\<lambda>x.
        read_extensions list x)))))))"
  by pat_completeness auto
termination
  by (relation "measure (\<lambda>(list, _). length list)") (auto dest: der_expect_shorter)

declare read_extensions.simps [simp del]

text \<open>One half of \<open>raw_signature\<close>, padded to the width of the field.\<close>

definition signature_half :: "nat \<Rightarrow> bytes \<Rightarrow> cert_error + bytes" where
  "signature_half width v =
     (case v of
        [] \<Rightarrow> Inl Cert_BadSignature
      | first # rest \<Rightarrow>
          ebind (if first = 0 \<and> rest \<noteq> [] \<and> rest ! 0 AND 0x80 \<noteq> 0 then Inr rest
                 else if first AND 0x80 \<noteq> 0 then Inl Cert_BadSignature
                 else Inr v) (\<lambda>v.
          if v = [] \<or> length v > width then Inl Cert_BadSignature
          else Inr (replicate (width - length v) 0 @ v)))"

definition sig_ok :: "der_error + 'a \<Rightarrow> cert_error + 'a" where
  "sig_ok r = (case r of Inl _ \<Rightarrow> Inl Cert_BadSignature | Inr x \<Rightarrow> Inr x)"

lemma sig_ok_Inr [simp]: "sig_ok r = Inr x \<longleftrightarrow> r = Inr x"
  by (auto simp: sig_ok_def split: sum.splits)

definition raw_signature :: "bytes \<Rightarrow> curve \<Rightarrow> cert_error + bytes" where
  "raw_signature der curve =
     ebind (sig_ok (der_expect TAG_SEQUENCE der)) (\<lambda>(sq, reader).
     ebind (sig_ok (der_finish reader)) (\<lambda>_.
     ebind (sig_ok (der_expect TAG_INTEGER sq)) (\<lambda>(r, sq).
     ebind (signature_half (field_len curve) r) (\<lambda>r.
     ebind (sig_ok (der_expect TAG_INTEGER sq)) (\<lambda>(s, sq).
     ebind (signature_half (field_len curve) s) (\<lambda>s.
     ebind (sig_ok (der_finish sq)) (\<lambda>_.
     Inr (r @ s))))))))"

section \<open>Parsing\<close>

text \<open>What \<open>parse\<close> reads of the contents of \<open>tbsCertificate\<close>; what follows the extensions is not looked at.\<close>

record tbs_fields =
  tb_serial :: bytes
  tb_algorithm :: bytes
  tb_issuer :: dist_name
  tb_validity :: "int \<times> int"
  tb_subject :: dist_name
  tb_key :: "curve \<times> bytes"
  tb_extensions :: extensions

definition parse_tbs :: "bytes \<Rightarrow> cert_error + tbs_fields" where
  "parse_tbs contents =
     ebind (der_ok (der_optional (tag_context 0) contents)) (\<lambda>(version, tbs).
     ebind (ok_or version NotV3) (\<lambda>version.
     ebind (der_ok (der_small_uint version)) (\<lambda>(v, _).
     if v \<noteq> 2 then Inl NotV3
     else
       ebind (der_ok (der_expect TAG_INTEGER tbs)) (\<lambda>(serial, tbs).
       ebind (read_signature_algorithm tbs) (\<lambda>(alg, tbs).
       ebind (read_name tbs) (\<lambda>(issuer, tbs).
       ebind (read_validity tbs) (\<lambda>(validity, tbs).
       ebind (read_name tbs) (\<lambda>(subject, tbs).
       ebind (read_spki tbs) (\<lambda>(key, tbs).
       ebind (der_ok (der_optional 0x81 tbs)) (\<lambda>(_, tbs).
       ebind (der_ok (der_optional 0x82 tbs)) (\<lambda>(_, tbs).
       ebind (der_ok (der_optional (tag_context 3) tbs)) (\<lambda>(exts, _).
       ebind (case exts of
                None \<Rightarrow> Inr no_extensions
              | Some l \<Rightarrow> ebind (der_ok (der_expect TAG_SEQUENCE l)) (\<lambda>(list, _). read_extensions list no_extensions)) (\<lambda>x.
       Inr \<lparr>tb_serial = serial, tb_algorithm = alg, tb_issuer = issuer, tb_validity = validity, tb_subject = subject,
            tb_key = key, tb_extensions = x\<rparr>)))))))))))))"

definition cert_parse :: "bytes \<Rightarrow> cert_error + certificate" where
  "cert_parse der =
     ebind (der_ok (der_expect TAG_SEQUENCE der)) (\<lambda>(cert, outer).
     ebind (der_ok (der_finish outer)) (\<lambda>_.
     ebind (der_ok (der_any_raw cert)) (\<lambda>((_, tbs, contents), cert).
     ebind (parse_tbs contents) (\<lambda>f.
     ebind (read_signature_algorithm cert) (\<lambda>(outer_alg, cert).
     if outer_alg \<noteq> tb_algorithm f then Inl AlgorithmMismatch
     else
       ebind (der_ok (der_bit_string cert)) (\<lambda>((unused, sig_der), cert).
       if unused \<noteq> 0 then Inl Cert_BadSignature
       else
         ebind (der_ok (der_finish cert)) (\<lambda>_.
         ebind (raw_signature sig_der (fst (tb_key f))) (\<lambda>sig.
         Inr \<lparr>ct_der = der, ct_tbs = tbs, ct_serial = tb_serial f, ct_issuer = tb_issuer f, ct_subject = tb_subject f,
              ct_not_before = fst (tb_validity f), ct_not_after = snd (tb_validity f), ct_curve = fst (tb_key f),
              ct_public_key = snd (tb_key f), ct_key_usage = ex_key_usage (tb_extensions f),
              ct_basic_constraints = ex_basic_constraints (tb_extensions f), ct_signature = sig\<rparr>))))))))"

definition is_self_issued :: "certificate \<Rightarrow> bool" where
  "is_self_issued c \<longleftrightarrow> nm_encoded (ct_issuer c) = nm_encoded (ct_subject c)"

definition is_valid_at :: "certificate \<Rightarrow> int \<Rightarrow> bool" where
  "is_valid_at c at = (ct_not_before c \<le> at \<and> at \<le> ct_not_after c)"

section \<open>The calendar\<close>

definition is_leap :: "int \<Rightarrow> bool" where
  "is_leap y \<longleftrightarrow> 4 dvd y \<and> (\<not> 100 dvd y \<or> 400 dvd y)"

definition days_in_month :: "int \<Rightarrow> int \<Rightarrow> int" where
  "days_in_month y m = (if m = 2 then (if is_leap y then 29 else 28) else if m \<in> {4, 6, 9, 11} then 30 else 31)"

definition valid_date :: "int \<Rightarrow> int \<Rightarrow> int \<Rightarrow> bool" where
  "valid_date y m d \<longleftrightarrow> 0 \<le> y \<and> 1 \<le> m \<and> m \<le> 12 \<and> 1 \<le> d \<and> d \<le> days_in_month y m"

text \<open>The day that follows, by the lengths of months and years.\<close>

definition next_day :: "int \<times> int \<times> int \<Rightarrow> int \<times> int \<times> int" where
  "next_day = (\<lambda>(y, m, d).
     if d < days_in_month y m then (y, m, d + 1)
     else if m < 12 then (y, m + 1, 1)
     else (y + 1, 1, 1))"

definition day_number :: "int \<times> int \<times> int \<Rightarrow> int" where
  "day_number = (\<lambda>(y, m, d). unix_seconds y m d 0 0 0 div 86400)"

text \<open>The days before the first of March of a year, and the days of the months from March on.\<close>

definition march_days :: "int \<Rightarrow> int" where
  "march_days y = 365 * y + y div 4 - y div 100 + y div 400"

lemma div_shift: "0 < k \<Longrightarrow> 0 \<le> a \<Longrightarrow> a < k \<Longrightarrow> (a + c * k) div k = (c :: int)"
  by simp

lemma div_pred:
  assumes "0 < (k :: int)"
  shows "y div k = (y - 1) div k + of_bool (k dvd y)"
proof (cases "k dvd y")
  case True
  then obtain c where y: "y = c * k" by (metis dvd_def mult.commute)
  have "(y - 1) div k = ((k - 1) + (c - 1) * k) div k" by (simp add: y algebra_simps)
  also have "\<dots> = c - 1" using assms by (intro div_shift) simp_all
  finally show ?thesis using assms True by (simp add: y)
next
  case False
  then have "0 < y mod k" using pos_mod_sign [OF assms, of y] by (simp add: dvd_eq_mod_eq_0)
  then have "((y mod k - 1) + (y div k) * k) div k = y div k"
    using assms pos_mod_bound [OF assms, of y] by (intro div_shift) linarith+
  moreover have "(y mod k - 1) + (y div k) * k = y - 1" using div_mult_mod_eq [of y k] by linarith
  ultimately show ?thesis using False by simp
qed

lemma era_floor: "(if y \<ge> 0 then y else y - 399) sdiv 400 = (y :: int) div 400"
proof (cases "0 \<le> y")
  case True
  then show ?thesis by (simp add: signed_divide_int_def sgn_if)
next
  case False
  then have "(y - 399) sdiv 400 = - ((399 - y) div 400)" by (simp add: signed_divide_int_def sgn_if)
  also have "399 - y = (399 - y mod 400) + (- (y div 400)) * 400" using mult_div_mod_eq [of 400 y] by linarith
  also have "- (((399 - y mod 400) + (- (y div 400)) * 400) div 400) = y div 400"
    by (subst div_shift) simp_all
  finally show ?thesis using False by simp
qed

lemma era_days:
  "(y div 400) * 146097 + ((y - y div 400 * 400) * 365 + (y - y div 400 * 400) div 4 - (y - y div 400 * 400) div 100) = march_days y"
proof -
  define q r where "q = y div 400" and "r = y - q * 400"
  then have y: "y = r + q * 400" by simp
  have "y div 4 = q * 100 + r div 4" using div_mult_self1 [of 4 r "q * 100"] by (simp add: y)
  moreover have "y div 100 = q * 4 + r div 100" using div_mult_self1 [of 100 r "q * 4"] by (simp add: y)
  ultimately show ?thesis unfolding march_days_def q_def [symmetric] r_def [symmetric] using y by linarith
qed

lemma unix_seconds_closed:
  "unix_seconds y m d h mi s =
     (march_days (if m \<le> 2 then y - 1 else y) + (153 * ((m + 9) mod 12) + 2) div 5 + d - 1 - 719468) * 86400 + h * 3600 + mi * 60 + s"
  unfolding unix_seconds_def Let_def era_floor using era_days [of "if m \<le> 2 then y - 1 else y"] by simp

lemma day_number_closed:
  "day_number (y, m, d) = march_days (if m \<le> 2 then y - 1 else y) + (153 * ((m + 9) mod 12) + 2) div 5 + d - 1 - 719468"
  by (simp add: day_number_def unix_seconds_closed)

lemma leap_bool: "of_bool (is_leap y) = of_bool (4 dvd y) - of_bool (100 dvd y) + (of_bool (400 dvd y) :: int)"
proof -
  have *: "(4 :: int) dvd 100" "(100 :: int) dvd 400" by simp_all
  from dvd_trans [OF *(1), of y] dvd_trans [OF *(2), of y] show ?thesis
    unfolding is_leap_def by (cases "100 dvd y"; cases "400 dvd y"; cases "4 dvd y"; simp only: of_bool_def) simp_all
qed

lemma march_days_Suc: "march_days y = march_days (y - 1) + 365 + of_bool (is_leap y)"
proof -
  have sum: "365 * y + a - b + c = 365 * (y - 1) + a' - b' + c' + 365 + (u - v + w)"
    if "a = a' + u" "b = b' + v" "c = c' + w" for a b c a' b' c' u v w :: int using that by simp
  show ?thesis unfolding leap_bool march_days_def by (rule sum) (rule div_pred, simp)+
qed

lemma months: "1 \<le> m \<Longrightarrow> m \<le> 12 \<Longrightarrow> m = 1 \<or> m = 2 \<or> m = 3 \<or> m = 4 \<or> m = 5 \<or> m = 6 \<or> m = 7 \<or> m = 8 \<or> m = 9 \<or> m = 10 \<or> m = 11 \<or> m = (12 :: int)"
  by presburger

lemma day_number_next:
  assumes "valid_date y m d"
  shows "day_number (next_day (y, m, d)) = day_number (y, m, d) + 1"
proof -
  have m: "1 \<le> m" "m \<le> 12" and d: "d \<le> days_in_month y m" using assms by (simp_all add: valid_date_def)
  show ?thesis
    using months [OF m] d march_days_Suc [of y]
    by (elim disjE) (auto simp: next_day_def day_number_closed days_in_month_def)
qed

section \<open>What a certificate binds\<close>

lemma der_finish_Inr [simp]: "der_finish d = Inr u \<longleftrightarrow> d = []"
  by (simp add: der_finish_def)

lemma read_signature_algorithm_Inr:
  "read_signature_algorithm d = Inr (alg, rest) \<Longrightarrow> d = der_tlv TAG_SEQUENCE (der_tlv TAG_OID alg) @ rest"
  by (auto simp: read_signature_algorithm_def ebind_eq_Inr der_expect_iff split: if_splits)

lemma der_bit_string_Inr:
  assumes "der_bit_string d = Inr ((unused, bs), rest)"
  shows "d = der_tlv TAG_BIT_STRING (unused # bs) @ rest"
proof -
  obtain contents more where e: "der_expect TAG_BIT_STRING d = Inr (contents, more)"
    using assms by (auto simp: der_bit_string_def ebind_eq_Inr)
  then have "contents = unused # bs" "more = rest"
    using assms by (cases contents; simp add: der_bit_string_def split: if_split_asm)+
  with e show ?thesis by (simp add: der_expect_iff)
qed

text \<open>The certificate that \<open>parse\<close> makes of the fields of the signed part.\<close>

definition cert_of :: "bytes \<Rightarrow> bytes \<Rightarrow> tbs_fields \<Rightarrow> bytes \<Rightarrow> certificate" where
  "cert_of der tbs f sig =
     \<lparr>ct_der = der, ct_tbs = tbs, ct_serial = tb_serial f, ct_issuer = tb_issuer f, ct_subject = tb_subject f,
      ct_not_before = fst (tb_validity f), ct_not_after = snd (tb_validity f), ct_curve = fst (tb_key f),
      ct_public_key = snd (tb_key f), ct_key_usage = ex_key_usage (tb_extensions f),
      ct_basic_constraints = ex_basic_constraints (tb_extensions f), ct_signature = sig\<rparr>"

lemma cert_parse_Inr:
  assumes "cert_parse der = Inr c"
  obtains t contents f sig_der sig where
    "der = der_tlv TAG_SEQUENCE (der_tlv t contents @ der_tlv TAG_SEQUENCE (der_tlv TAG_OID (tb_algorithm f)) @ der_tlv TAG_BIT_STRING (0 # sig_der))"
    and "length contents < 2 ^ 64" and "parse_tbs contents = Inr f" and "raw_signature sig_der (fst (tb_key f)) = Inr sig"
    and "c = cert_of der (der_tlv t contents) f sig"
proof -
  obtain cert t tbs contents cert' f cert'' sig_der sig where
    *: "der_expect TAG_SEQUENCE der = Inr (cert, [])" "der_any_raw cert = Inr ((t, tbs, contents), cert')"
    "parse_tbs contents = Inr f" "read_signature_algorithm cert' = Inr (tb_algorithm f, cert'')"
    "der_bit_string cert'' = Inr ((0, sig_der), [])" "raw_signature sig_der (fst (tb_key f)) = Inr sig"
    "c = cert_of der tbs f sig"
    using assms unfolding cert_parse_def cert_of_def by (auto simp: ebind_eq_Inr split: if_split_asm)
  show thesis
  proof (rule that)
    show "parse_tbs contents = Inr f" "raw_signature sig_der (fst (tb_key f)) = Inr sig" by (rule *(3)) (rule *(6))
    have tbs: "length contents < 2 ^ 64 \<and> tbs = der_tlv t contents \<and> cert = tbs @ cert'"
      using *(2) by (simp only: der_any_raw_iff)
    then show "length contents < 2 ^ 64" "c = cert_of der (der_tlv t contents) f sig" using *(7) by simp_all
    have "der = der_tlv TAG_SEQUENCE cert" using *(1) by (simp add: der_expect_iff)
    then show "der = der_tlv TAG_SEQUENCE (der_tlv t contents @ der_tlv TAG_SEQUENCE (der_tlv TAG_OID (tb_algorithm f)) @ der_tlv TAG_BIT_STRING (0 # sig_der))"
      using tbs read_signature_algorithm_Inr [OF *(4)] der_bit_string_Inr [OF *(5)] by simp
  qed
qed

text \<open>The shape of a key and of a signature.\<close>

lemma read_spki_Inr:
  "read_spki d = Inr ((curve, point), rest) \<Longrightarrow> length point = 1 + 2 * field_len curve \<and> point ! 0 = 0x04"
  by (auto simp: read_spki_def ebind_eq_Inr split: if_splits)

lemma parse_tbs_key: "parse_tbs contents = Inr f \<Longrightarrow> length (snd (tb_key f)) = 1 + 2 * field_len (fst (tb_key f)) \<and> snd (tb_key f) ! 0 = 0x04"
  by (auto simp: parse_tbs_def ebind_eq_Inr dest!: read_spki_Inr split: if_splits)

lemma signature_half_length: "signature_half width v = Inr h \<Longrightarrow> length h = width"
  by (auto simp: signature_half_def ebind_eq_Inr split: list.splits if_splits)

lemma raw_signature_length: "raw_signature d curve = Inr sig \<Longrightarrow> length sig = 2 * field_len curve"
  by (auto simp: raw_signature_def ebind_eq_Inr dest!: signature_half_length)

text \<open>A superfluous leading zero is padding like any other.\<close>

lemma signature_half_not_canonical:
  assumes "v \<noteq> []" and "length v < width" and "v ! 0 AND 0x80 = 0"
  shows "signature_half width (0 # v) = signature_half width v \<and> (\<exists>h. signature_half width v = Inr h)"
proof (cases v)
  case (Cons a as)
  then have a: "a AND 0x80 = 0" using assms(3) by simp
  show ?thesis
  proof (cases "a = 0 \<and> as \<noteq> [] \<and> as ! 0 AND 0x80 \<noteq> 0")
    case True
    moreover obtain k where "width = Suc (Suc (length as)) + k" using le_Suc_ex [of "Suc (Suc (length as))" width] assms(2) Cons by auto
    ultimately show ?thesis using Cons by (simp add: signature_half_def replicate_app_Cons_same)
  next
    case False
    then have "signature_half width v = Inr (replicate (width - length v) 0 @ v)"
      using assms(2) a Cons by (auto simp: signature_half_def)
    moreover have "signature_half width (0 # v) = Inr (replicate (width - length (0 # v)) 0 @ 0 # v)"
      using assms(2) a Cons by (auto simp: signature_half_def)
    moreover have "width - length v = Suc (width - length (0 # v))" using assms(2) by simp
    ultimately show ?thesis by (simp add: replicate_app_Cons_same)
  qed
qed (use assms in simp)

lemma signature_half_bound: "signature_half width v = Inr h \<Longrightarrow> length v \<le> Suc width"
  by (auto simp: signature_half_def ebind_eq_Inr split: list.splits if_splits)

text \<open>The encoding of a signature, and what it becomes.\<close>

definition der_signature :: "bytes \<Rightarrow> bytes \<Rightarrow> bytes" where
  "der_signature r s = der_tlv TAG_SEQUENCE (der_tlv TAG_INTEGER r @ der_tlv TAG_INTEGER s)"

lemma length_der_tlv: "length contents < 2 ^ 64 \<Longrightarrow> length (der_tlv t contents) \<le> length contents + 10"
  using be_octets_8 [of "length contents"] by (simp add: der_tlv_def der_length_def)

lemma der_signature_read:
  assumes "length r < 256" and "length s < 256"
  shows "raw_signature (der_signature r s) curve =
    ebind (signature_half (field_len curve) r) (\<lambda>r. ebind (signature_half (field_len curve) s) (\<lambda>s. Inr (r @ s)))"
proof -
  have len: "length r < 2 ^ 64" "length s < 2 ^ 64" using assms by simp_all
  then have "length (der_tlv TAG_INTEGER r @ der_tlv TAG_INTEGER s) < 2 ^ 64"
    using length_der_tlv [of r TAG_INTEGER] length_der_tlv [of s TAG_INTEGER] assms by simp
  then have "der_expect TAG_SEQUENCE (der_signature r s) = Inr (der_tlv TAG_INTEGER r @ der_tlv TAG_INTEGER s, [])"
    unfolding der_expect_iff der_signature_def by simp
  moreover have "der_expect TAG_INTEGER (der_tlv TAG_INTEGER r @ der_tlv TAG_INTEGER s) = Inr (r, der_tlv TAG_INTEGER s)"
    unfolding der_expect_iff using len by simp
  moreover have "der_expect TAG_INTEGER (der_tlv TAG_INTEGER s) = Inr (s, [])"
    unfolding der_expect_iff using len by simp
  ultimately show ?thesis by (simp add: raw_signature_def sig_ok_def der_finish_def)
qed

lemma raw_signature_halves:
  assumes "signature_half (field_len curve) r = Inr r'" and "signature_half (field_len curve) s = Inr s'"
  shows "raw_signature (der_signature r s) curve = Inr (r' @ s')"
proof -
  have "field_len curve \<le> 66" by (cases curve) simp_all
  then have "length r < 256" "length s < 256" using signature_half_bound [OF assms(1)] signature_half_bound [OF assms(2)] by simp_all
  then show ?thesis using assms by (simp add: der_signature_read)
qed

lemma der_signature_inj:
  assumes "length r < 256" and "length s < 256" and "length r' < 256" and "length s' < 256"
    and "der_signature r s = der_signature r' s'"
  shows "r = r' \<and> s = s'"
proof -
  have len: "length r < 2 ^ 64" "length s < 2 ^ 64" "length r' < 2 ^ 64" "length s' < 2 ^ 64" using assms by simp_all
  then have "length (der_tlv TAG_INTEGER r @ der_tlv TAG_INTEGER s) < 2 ^ 64" "length (der_tlv TAG_INTEGER r' @ der_tlv TAG_INTEGER s') < 2 ^ 64"
    using length_der_tlv [of r TAG_INTEGER] length_der_tlv [of s TAG_INTEGER] length_der_tlv [of r' TAG_INTEGER]
      length_der_tlv [of s' TAG_INTEGER] assms by simp_all
  with assms(5) have eq: "der_tlv TAG_INTEGER r @ der_tlv TAG_INTEGER s = der_tlv TAG_INTEGER r' @ der_tlv TAG_INTEGER s'"
    unfolding der_signature_def using der_tlv_inj by blast
  from der_contents.prefix_free [OF len(1,3) eq] have "r = r'" by simp
  with eq have "der_tlv TAG_INTEGER s = der_tlv TAG_INTEGER s'" by simp
  from der_tlv_inj [OF this len(2,4)] \<open>r = r'\<close> show ?thesis by simp
qed

section \<open>Building certificates\<close>

text \<open>Reading what \<open>der_tlv\<close> wrote, for values of up to 255 bytes.\<close>

lemma tlv_read [simp]:
  assumes "length c < 256"
  shows "der_any (der_tlv t c @ rest) = Inr ((t, c), rest)" "der_any (der_tlv t c) = Inr ((t, c), [])"
    "der_expect t (der_tlv t c @ rest) = Inr (c, rest)" "der_expect t (der_tlv t c) = Inr (c, [])"
    "der_any_raw (der_tlv t c @ rest) = Inr ((t, der_tlv t c, c), rest)"
    "der_optional t (der_tlv t c @ rest) = Inr (Some c, rest)" "der_optional t (der_tlv t c) = Inr (Some c, [])"
proof -
  have len: "length c < 2 ^ 64" using assms by simp
  show "der_any (der_tlv t c @ rest) = Inr ((t, c), rest)" "der_any (der_tlv t c) = Inr ((t, c), [])"
    "der_any_raw (der_tlv t c @ rest) = Inr ((t, der_tlv t c, c), rest)"
    using len by (auto simp: der_any_iff der_any_raw_iff)
  show e: "der_expect t (der_tlv t c @ rest) = Inr (c, rest)" "der_expect t (der_tlv t c) = Inr (c, [])"
    using len by (auto simp: der_expect_iff)
  show "der_optional t (der_tlv t c @ rest) = Inr (Some c, rest)" "der_optional t (der_tlv t c) = Inr (Some c, [])"
    using e by (simp_all add: der_optional_def der_peek_def der_tlv_def)
qed

lemma tlv_skip [simp]: "t \<noteq> u \<Longrightarrow> der_optional u (der_tlv t c @ rest) = Inr (None, der_tlv t c @ rest)"
  "t \<noteq> u \<Longrightarrow> der_optional u (der_tlv t c) = Inr (None, der_tlv t c)"
  "der_optional u [] = Inr (None, [])"
  by (simp_all add: der_optional_def der_peek_def der_tlv_def)

lemma tlv_peek [simp]: "der_peek (der_tlv t c @ rest) = Some t" "der_peek (der_tlv t c) = Some t" "der_peek [] = None"
  by (simp_all add: der_peek_def der_tlv_def)

lemma tlv_nonempty [simp]: "der_tlv t c \<noteq> []"
  by (simp add: der_tlv_def)

lemma tlv_length_short [simp]: "length c < 128 \<Longrightarrow> length (der_tlv t c) = length c + 2"
  by (simp add: der_tlv_def der_length_def)

lemma tlv_length_mid [simp]:
  assumes "128 \<le> length c" and "length c < 256"
  shows "length (der_tlv t c) = length c + 3"
proof -
  have "be_octets (length c) = [of_nat (length c)]" using assms by (subst be_octets.simps) auto
  then show ?thesis using assms by (simp add: der_tlv_def der_length_def)
qed

text \<open>A certificate on the first curve, valid from 2000 to 2049, with given names and extensions.\<close>

definition sample_name :: "u8 \<Rightarrow> bytes" where
  "sample_name b = der_tlv TAG_SEQUENCE (der_tlv TAG_SET (der_tlv TAG_SEQUENCE (der_tlv TAG_OID [0x55, 0x04, 0x06] @ der_tlv 0x13 [b])))"

definition sample_algorithm :: bytes where
  "sample_algorithm = der_tlv TAG_SEQUENCE (der_tlv TAG_OID OID_ECDSA_WITH_SHA256)"

definition sample_time :: "u8 \<Rightarrow> u8 \<Rightarrow> bytes" where
  "sample_time a b = der_tlv TAG_UTC_TIME [a, b, 0x30, 0x31, 0x30, 0x31, 0x30, 0x30, 0x30, 0x30, 0x30, 0x30, 0x5A]"

definition sample_key_info :: "u8 \<Rightarrow> bytes" where
  "sample_key_info k = der_tlv TAG_SEQUENCE
     (der_tlv TAG_SEQUENCE (der_tlv TAG_OID OID_EC_PUBLIC_KEY @ der_tlv TAG_OID OID_PRIME256V1)
      @ der_tlv TAG_BIT_STRING (0 # 0x04 # replicate 64 k))"

definition sample_tbs :: "u8 \<Rightarrow> u8 \<Rightarrow> u8 \<Rightarrow> bytes \<Rightarrow> bytes" where
  "sample_tbs issuer subject k exts =
     der_tlv (tag_context 0) (der_tlv TAG_INTEGER [2]) @ der_tlv TAG_INTEGER [1] @ sample_algorithm @ sample_name issuer
     @ der_tlv TAG_SEQUENCE (sample_time 0x30 0x30 @ sample_time 0x34 0x39) @ sample_name subject @ sample_key_info k
     @ der_tlv (tag_context 3) (der_tlv TAG_SEQUENCE exts)"

definition sample_cert :: "u8 \<Rightarrow> u8 \<Rightarrow> u8 \<Rightarrow> bytes \<Rightarrow> u8 \<Rightarrow> bytes" where
  "sample_cert issuer subject k exts sig =
     der_tlv TAG_SEQUENCE (der_tlv TAG_SEQUENCE (sample_tbs issuer subject k exts) @ sample_algorithm
       @ der_tlv TAG_BIT_STRING (0 # der_signature [sig] [sig]))"

lemma sample_name_read: 
  "read_name (sample_name b @ rest) =
     Inr (\<lparr>nm_encoded = sample_name b, nm_common_name = None, nm_organization = None, nm_domain_component = None\<rparr>, rest)"
  by (simp add: read_name_def sample_name_def der_ok_def read_rdns.simps read_rdn.simps der_finish_def set_attribute_def utf8_cont_def
      OID_COMMON_NAME_def OID_ORGANIZATION_def OID_DOMAIN_COMPONENT_def)

lemma sample_time_read: "read_time (sample_time 0x30 0x30 @ rest) = Inr (946684800, rest)" "read_time (sample_time 0x34 0x39) = Inr (2493072000, [])"
  by (simp_all add: read_time_def sample_time_def der_ok_def split_digits_def utf8_cont_def is_digit_def unix_seconds_closed march_days_def)

lemma sample_algorithm_read: "read_signature_algorithm (sample_algorithm @ rest) = Inr (OID_ECDSA_WITH_SHA256, rest)"
  by (simp add: read_signature_algorithm_def sample_algorithm_def der_ok_def OID_ECDSA_WITH_SHA256_def)

lemma sample_key_read: "read_spki (sample_key_info k @ rest) = Inr ((P256, 0x04 # replicate 64 k), rest)"
  by (simp add: read_spki_def sample_key_info_def der_ok_def OID_EC_PUBLIC_KEY_def OID_PRIME256V1_def der_bit_string_def der_finish_def)

lemma sample_cert_lengths [simp]:
  "length (sample_name b) = 14" "length sample_algorithm = 12" "length (sample_time a b) = 15" "length (sample_key_info k) = 91"
  by (simp_all add: sample_name_def sample_algorithm_def sample_time_def sample_key_info_def OID_ECDSA_WITH_SHA256_def
      OID_EC_PUBLIC_KEY_def OID_PRIME256V1_def)

definition sample_fields :: "u8 \<Rightarrow> u8 \<Rightarrow> u8 \<Rightarrow> extensions \<Rightarrow> tbs_fields" where
  "sample_fields issuer subject k x =
     (let name = \<lambda>b. \<lparr>nm_encoded = sample_name b, nm_common_name = None, nm_organization = None, nm_domain_component = None\<rparr> in
      \<lparr>tb_serial = [1], tb_algorithm = OID_ECDSA_WITH_SHA256, tb_issuer = name issuer, tb_validity = (946684800, 2493072000),
       tb_subject = name subject, tb_key = (P256, 0x04 # replicate 64 k), tb_extensions = x\<rparr>)"

lemma sample_tbs_read:
  assumes "read_extensions exts no_extensions = Inr x" and "length exts < 55"
  shows "parse_tbs (sample_tbs issuer subject k exts) = Inr (sample_fields issuer subject k x)"
proof -
  have v: "read_validity (der_tlv TAG_SEQUENCE (sample_time 0x30 0x30 @ sample_time 0x34 0x39) @ rest) = Inr ((946684800, 2493072000), rest)" for rest
    by (simp add: read_validity_def der_ok_def sample_time_read der_finish_def)
  have "der_small_uint (der_tlv TAG_INTEGER [2]) = Inr (2, [])" "tag_context 3 \<noteq> 0x81" "tag_context 3 \<noteq> 0x82"
    by (simp_all add: der_small_uint_def tag_context_def)
  then show ?thesis
    using assms
    by (simp add: parse_tbs_def sample_tbs_def sample_fields_def der_ok_def sample_algorithm_read sample_name_read v sample_key_read)
qed

lemma sample_cert_read:
  assumes "read_extensions exts no_extensions = Inr x" and "length exts < 55" and "sig AND 0x80 = 0"
  shows "cert_parse (sample_cert issuer subject k exts sig) =
    Inr (cert_of (sample_cert issuer subject k exts sig) (der_tlv TAG_SEQUENCE (sample_tbs issuer subject k exts))
      (sample_fields issuer subject k x) (replicate 31 0 @ [sig] @ replicate 31 0 @ [sig]))"
proof -
  have tbs: "length (sample_tbs issuer subject k exts) = 175 + length exts" using assms(2) by (simp add: sample_tbs_def)
  have "signature_half (field_len P256) [sig] = Inr (replicate 31 0 @ [sig])" using assms(3) by (simp add: signature_half_def)
  from raw_signature_halves [OF this this]
  have "raw_signature (der_signature [sig] [sig]) P256 = Inr (replicate 31 0 @ [sig] @ replicate 31 0 @ [sig])" by simp
  moreover have "length (der_signature [sig] [sig]) = 8" by (simp add: der_signature_def)
  ultimately show ?thesis
    using assms(2) tbs sample_tbs_read [OF assms(1,2), of issuer subject k]
    by (simp add: cert_parse_def sample_cert_def der_ok_def der_finish_def sample_algorithm_read der_bit_string_def sample_fields_def
        cert_of_def)
qed

section \<open>Properties\<close>

text \<open>
  C30. What a certificate says is what its issuer signed: a certificate that parses is, byte for byte, the sequence of the
  signed part, the algorithm that the signed part names and the signature; its key is an uncompressed point and its
  signature the raw pair of the curve's width; and two certificates with the same signed part agree in serial number,
  names, validity, curve, key, key usage and constraints, whatever else surrounds them.
\<close>
theorem cert_fields_signed:
  assumes "cert_parse der = Inr c"
  shows "(\<exists>alg sig_der. der = der_tlv TAG_SEQUENCE (ct_tbs c @ der_tlv TAG_SEQUENCE (der_tlv TAG_OID alg) @ der_tlv TAG_BIT_STRING (0 # sig_der))
        \<and> raw_signature sig_der (ct_curve c) = Inr (ct_signature c))
    \<and> ct_der c = der \<and> length (ct_public_key c) = 1 + 2 * field_len (ct_curve c) \<and> ct_public_key c ! 0 = 0x04
    \<and> length (ct_signature c) = 2 * field_len (ct_curve c)
    \<and> (\<forall>der' c'. cert_parse der' = Inr c' \<and> ct_tbs c' = ct_tbs c \<longrightarrow>
         c' = c\<lparr>ct_der := der', ct_signature := ct_signature c'\<rparr>)"
proof -
  obtain t contents f sig_der sig where
    d: "der = der_tlv TAG_SEQUENCE (der_tlv t contents @ der_tlv TAG_SEQUENCE (der_tlv TAG_OID (tb_algorithm f)) @ der_tlv TAG_BIT_STRING (0 # sig_der))"
    and len: "length contents < 2 ^ 64" and f: "parse_tbs contents = Inr f"
    and sig: "raw_signature sig_der (fst (tb_key f)) = Inr sig" and c: "c = cert_of der (der_tlv t contents) f sig"
    using assms by (rule cert_parse_Inr)
  have same: "c' = c\<lparr>ct_der := der', ct_signature := ct_signature c'\<rparr>"
    if parsed: "cert_parse der' = Inr c'" and tbs: "ct_tbs c' = ct_tbs c" for der' c'
  proof -
    obtain t' contents' f' sig_der' sig' where len': "length contents' < 2 ^ 64" and f': "parse_tbs contents' = Inr f'"
      and c': "c' = cert_of der' (der_tlv t' contents') f' sig'"
      using parsed by (rule cert_parse_Inr)
    have "der_tlv t' contents' = der_tlv t contents" using tbs by (simp add: c c' cert_of_def)
    then have "contents' = contents" using der_tlv_inj [OF _ len' len] by blast
    then show ?thesis using f f' \<open>der_tlv t' contents' = _\<close> by (simp add: c c' cert_of_def)
  qed
  show ?thesis
    using d sig parse_tbs_key [OF f] raw_signature_length [OF sig] same by (auto simp: c cert_of_def)
qed

theorem cert_fields_signed_witness:
  "\<exists>c alg sig_der. cert_parse (sample_cert 1 2 3 [] 5) = Inr c \<and> ct_public_key c = 0x04 # replicate 64 3
    \<and> sample_cert 1 2 3 [] 5 = der_tlv TAG_SEQUENCE (ct_tbs c @ der_tlv TAG_SEQUENCE (der_tlv TAG_OID alg) @ der_tlv TAG_BIT_STRING (0 # sig_der))"
proof -
  obtain c where c: "cert_parse (sample_cert 1 2 3 [] 5) = Inr c" "ct_public_key c = 0x04 # replicate 64 3"
    using sample_cert_read [of "[]" no_extensions 5 1 2 3] by (simp add: read_extensions.simps cert_of_def sample_fields_def Let_def)
  from cert_fields_signed [OF c(1)] c show ?thesis by blast
qed

text \<open>
  C32. The conversion of a date to seconds counts days: the first of January 1970 is day 0, and in every month of every
  year from 0 on, leap years included, the day that follows is one more. Within a day it adds the time.
\<close>
theorem unix_seconds_counts_days:
  assumes "valid_date y m d"
  shows "day_number (1970, 1, 1) = 0 \<and> day_number (next_day (y, m, d)) = day_number (y, m, d) + 1
    \<and> unix_seconds y m d h mi s = 86400 * day_number (y, m, d) + 3600 * h + 60 * mi + s"
  using day_number_next [OF assms]
  by (simp add: day_number_closed unix_seconds_closed march_days_def)

theorem unix_seconds_counts_days_witness:
  "day_number (next_day (2024, 2, 28)) = day_number (2024, 2, 28) + 1 \<and> next_day (2024, 2, 28) = (2024, 2, 29)"
proof -
  have "is_leap 2024" by (simp add: is_leap_def)
  then have "valid_date 2024 2 28" "next_day (2024, 2, 28) = (2024, 2, 29)"
    by (simp_all add: valid_date_def days_in_month_def next_day_def)
  with unix_seconds_counts_days [of 2024 2 28] show ?thesis by blast
qed

text \<open>
  C39. One signature has two encodings, though an integer with a superfluous leading zero is not DER and is to be
  refused as such. Take a half of a signature that needs no leading zero, its top bit being clear. Put a zero in front of
  it all the same: when the half is shorter than the field, it is accepted and gives the same raw pair, so the bytes of a
  certificate can be changed without its signature; when it fills the field, the signature is refused. This is so for
  the first half and for the second.
\<close>
theorem raw_signature_two_encodings:
  assumes "h \<noteq> []" and "length h \<le> field_len curve" and "h ! 0 AND 0x80 = 0" and "signature_half (field_len curve) s = Inr s'"
  shows "if length h < field_len curve
    then (\<exists>raw. raw_signature (der_signature h s) curve = Inr raw \<and> raw_signature (der_signature (0 # h) s) curve = Inr raw
        \<and> der_signature (0 # h) s \<noteq> der_signature h s)
      \<and> (\<exists>raw. raw_signature (der_signature s h) curve = Inr raw \<and> raw_signature (der_signature s (0 # h)) curve = Inr raw
        \<and> der_signature s (0 # h) \<noteq> der_signature s h)
    else (\<exists>raw. raw_signature (der_signature h s) curve = Inr raw) \<and> (\<exists>raw. raw_signature (der_signature s h) curve = Inr raw)
      \<and> raw_signature (der_signature (0 # h) s) curve = Inl Cert_BadSignature
      \<and> raw_signature (der_signature s (0 # h)) curve = Inl Cert_BadSignature"
proof -
  have field: "field_len curve \<le> 66" by (cases curve) simp_all
  then have len: "length h < 256" "length (0 # h) < 256" "length s < 256"
    using assms(2) signature_half_bound [OF assms(4)] by simp_all
  note read = der_signature_read [OF len(1,3)] der_signature_read [OF len(2,3)] der_signature_read [OF len(3,1)]
    der_signature_read [OF len(3,2)]
  have ne: "der_signature (0 # h) s \<noteq> der_signature h s" "der_signature s (0 # h) \<noteq> der_signature s h"
    using der_signature_inj [OF len(2,3,1,3)] der_signature_inj [OF len(3,2,3,1)] by auto
  show ?thesis
  proof (cases "length h < field_len curve")
    case True
    then show ?thesis using signature_half_not_canonical [OF assms(1) True assms(3)] assms(4) ne by (auto simp: read)
  next
    case False
    with assms(2) have full: "length h = field_len curve" by simp
    have "\<exists>h'. signature_half (field_len curve) h = Inr h'" "signature_half (field_len curve) (0 # h) = Inl Cert_BadSignature"
      using assms(1,3) full by (cases h; auto simp: signature_half_def)+
    then show ?thesis using assms(4) False by (auto simp: read)
  qed
qed

theorem raw_signature_two_encodings_witness:
  "\<exists>raw. raw_signature (der_signature [1] [2]) P256 = Inr raw \<and> raw_signature (der_signature [0, 1] [2]) P256 = Inr raw
    \<and> der_signature [0, 1] [2] \<noteq> der_signature [1] [2]"
proof -
  have "signature_half (field_len P256) [2] = Inr (replicate 31 0 @ [2])" by (simp add: signature_half_def)
  from raw_signature_two_encodings [OF _ _ _ this, of "[1]"] show ?thesis by simp
qed

end
