(* ===== verification/Pki_Chain.thy ===== *)
theory Pki_Chain
  imports Pki_Cert
begin

text \<open>
  Walking a certificate chain to a trust anchor, \<open>src/src/pnc/pki/chain.rs\<close>, under the profiles and rules of
  \<open>src/src/pnc/pki/mod.rs\<close>. The check of a signature against a key is the argument \<open>verify\<close>, a trait the
  application implements.
\<close>

section \<open>Policies and anchors\<close>

type_synonym verify_with_fn = "suite \<Rightarrow> bytes \<Rightarrow> bytes \<Rightarrow> bytes \<Rightarrow> pnc_error + unit"

datatype rules = Rules_Iso2 | Rules_Iso20

datatype profile = SeccCertificate | ContractCertificate | OemProvisioningCertificate | Unchecked

record policy =
  po_profile :: profile
  po_rules :: rules

record trust_anchor =
  ta_der :: bytes
  ta_source :: string

definition authorities :: "trust_anchor list \<Rightarrow> bytes list" where
  "authorities anchors =
     List.map_filter (\<lambda>a. case cert_parse (ta_der a) of Inr c \<Rightarrow> Some (nm_encoded (ct_subject c)) | Inl _ \<Rightarrow> None) anchors"

definition DC_CPO :: bytes where
  "DC_CPO = [0x43, 0x50, 0x4F]"

fun required_key_usage :: "profile \<Rightarrow> key_usage option" where
  "required_key_usage SeccCertificate = Some DIGITAL_SIGNATURE"
| "required_key_usage ContractCertificate = Some (usage_and DIGITAL_SIGNATURE NON_REPUDIATION)"
| "required_key_usage OemProvisioningCertificate = Some DIGITAL_SIGNATURE"
| "required_key_usage Unchecked = None"

fun required_domain_component :: "profile \<Rightarrow> bytes option" where
  "required_domain_component SeccCertificate = Some DC_CPO"
| "required_domain_component _ = None"

datatype chain_error =
    Chain_Certificate nat cert_error
  | Chain_Empty
  | TooLong nat
  | NoTrustAnchor
  | Chain_Expired nat
  | NotAnIssuer nat
  | Chain_BadSignature nat
  | Chain_Profile string
  | TooLarge nat nat
  | OutlivesIssuer nat
  | MixedCurves

definition check_leaf :: "profile \<Rightarrow> certificate \<Rightarrow> chain_error + unit" where
  "check_leaf profile leaf =
     (if (case ct_basic_constraints leaf of Some bc \<Rightarrow> bc_ca bc | None \<Rightarrow> False) then Inl (Chain_Profile ''a leaf that is not a CA'')
      else
        ebind (case required_key_usage profile of
                 None \<Rightarrow> Inr ()
               | Some wanted \<Rightarrow>
                   ebind (ok_or (ct_key_usage leaf) (Chain_Profile ''a KeyUsage'')) (\<lambda>usage.
                   if \<not> usage_contains usage wanted then Inl (Chain_Profile ''the KeyUsage bits its profile requires'') else Inr ())) (\<lambda>_.
        case required_domain_component profile of
          None \<Rightarrow> Inr ()
        | Some wanted \<Rightarrow>
            if nm_domain_component (ct_subject leaf) \<noteq> Some wanted then Inl (Chain_Profile ''the Domain Component its profile requires'')
            else Inr ()))"

section \<open>One link\<close>

definition MAX_PATH_LEN :: nat where
  "MAX_PATH_LEN = 3"

definition ISO20_MAX_CERTIFICATE_LEN :: nat where
  "ISO20_MAX_CERTIFICATE_LEN = 1600"

fun nests :: "rules \<Rightarrow> certificate \<Rightarrow> certificate \<Rightarrow> bool" where
  "nests Rules_Iso2 cert issuer = True"
| "nests Rules_Iso20 cert issuer = (ct_not_before issuer \<le> ct_not_before cert \<and> ct_not_after cert \<le> ct_not_after issuer)"

definition check_issuer :: "certificate \<Rightarrow> nat \<Rightarrow> nat \<Rightarrow> chain_error + unit" where
  "check_issuer issuer below index =
     ebind (ok_or (ct_basic_constraints issuer) (NotAnIssuer index)) (\<lambda>constraints.
     if \<not> bc_ca constraints then Inl (NotAnIssuer index)
     else if (case bc_path_len constraints of Some limit \<Rightarrow> below > unat limit | None \<Rightarrow> False) then Inl (NotAnIssuer index)
     else if (case ct_key_usage issuer of Some ku \<Rightarrow> \<not> usage_contains ku KEY_CERT_SIGN | None \<Rightarrow> False) then Inl (NotAnIssuer index)
     else Inr ())"

definition verify_signature :: "certificate \<Rightarrow> certificate \<Rightarrow> verify_with_fn \<Rightarrow> nat \<Rightarrow> chain_error + unit" where
  "verify_signature cert issuer verify index =
     (case verify (curve_suite (ct_curve issuer)) (ct_public_key issuer) (ct_tbs cert) (ct_signature cert) of
        Inl _ \<Rightarrow> Inl (Chain_BadSignature index)
      | Inr u \<Rightarrow> Inr u)"

text \<open>The loop of \<open>find_anchor\<close>, with the flag for an anchor that the certificate outlives.\<close>

fun anchor_loop :: "trust_anchor list \<Rightarrow> certificate \<Rightarrow> nat \<Rightarrow> int \<Rightarrow> rules \<Rightarrow> verify_with_fn \<Rightarrow> nat \<Rightarrow> bool \<Rightarrow>
    chain_error + (certificate \<times> string)" where
  "anchor_loop [] cert below now rules verify index outlived = Inl (if outlived then OutlivesIssuer index else NoTrustAnchor)"
| "anchor_loop (entry # anchors) cert below now rules verify index outlived =
     (case cert_parse (ta_der entry) of
        Inl _ \<Rightarrow> anchor_loop anchors cert below now rules verify index outlived
      | Inr anchor \<Rightarrow>
          if nm_encoded (ct_subject anchor) \<noteq> nm_encoded (ct_issuer cert)
          then anchor_loop anchors cert below now rules verify index outlived
          else if \<not> is_valid_at anchor now then anchor_loop anchors cert below now rules verify index outlived
          else if check_issuer anchor below index \<noteq> Inr () then anchor_loop anchors cert below now rules verify index outlived
          else if \<not> nests rules cert anchor then anchor_loop anchors cert below now rules verify index True
          else if verify_signature cert anchor verify index = Inr () then Inr (anchor, ta_source entry)
          else anchor_loop anchors cert below now rules verify index outlived)"

definition find_anchor :: "trust_anchor list \<Rightarrow> certificate \<Rightarrow> nat \<Rightarrow> int \<Rightarrow> rules \<Rightarrow> verify_with_fn \<Rightarrow> nat \<Rightarrow>
    chain_error + (certificate \<times> string)" where
  "find_anchor anchors cert below now rules verify index = anchor_loop anchors cert below now rules verify index False"

section \<open>The walk\<close>

record validated =
  vd_leaf :: certificate
  vd_intermediates :: "certificate list"
  vd_anchor :: certificate
  vd_anchor_source :: string

fun parse_all :: "nat \<Rightarrow> bytes list \<Rightarrow> chain_error + certificate list" where
  "parse_all index [] = Inr []"
| "parse_all index (der # chain) =
     (case cert_parse der of
        Inl e \<Rightarrow> Inl (Chain_Certificate index e)
      | Inr c \<Rightarrow> ebind (parse_all (Suc index) chain) (\<lambda>cs. Inr (c # cs)))"

fun walk :: "trust_anchor list \<Rightarrow> int \<Rightarrow> rules \<Rightarrow> verify_with_fn \<Rightarrow> nat \<Rightarrow> certificate list \<Rightarrow> chain_error + (certificate \<times> string)" where
  "walk anchors now rules verify index [] = Inl NoTrustAnchor"
| "walk anchors now rules verify index (cert # uppers) =
     (case find_anchor anchors cert index now rules verify index of
        Inr found \<Rightarrow> Inr found
      | Inl e \<Rightarrow>
          (case uppers of
             [] \<Rightarrow> Inl e
           | issuer # _ \<Rightarrow>
               if nm_encoded (ct_subject issuer) \<noteq> nm_encoded (ct_issuer cert) then Inl NoTrustAnchor
               else
                 ebind (check_issuer issuer index (index + 1)) (\<lambda>_.
                 ebind (verify_signature cert issuer verify index) (\<lambda>_.
                 if \<not> nests rules cert issuer then Inl (OutlivesIssuer index)
                 else walk anchors now rules verify (Suc index) uppers))))"

definition chain_validate :: "bytes list \<Rightarrow> trust_anchor list \<Rightarrow> policy \<Rightarrow> int \<Rightarrow> verify_with_fn \<Rightarrow> chain_error + validated" where
  "chain_validate chain anchors policy now verify =
     (if length chain > MAX_PATH_LEN then Inl (TooLong (length chain))
      else
        (case (if po_rules policy = Rules_Iso20
               then List.find (\<lambda>(_, der). length der > ISO20_MAX_CERTIFICATE_LEN) (enumerate 0 chain) else None) of
           Some (index, der) \<Rightarrow> Inl (TooLarge index (length der))
         | None \<Rightarrow>
             ebind (parse_all 0 chain) (\<lambda>parsed.
             case parsed of
               [] \<Rightarrow> Inl Chain_Empty
             | leaf # intermediates \<Rightarrow>
                 ebind (check_leaf (po_profile policy) leaf) (\<lambda>_.
                 if \<exists>c \<in> set parsed. ct_curve c \<noteq> ct_curve leaf then Inl MixedCurves
                 else
                   (case List.find (\<lambda>(_, c). \<not> is_valid_at c now) (enumerate 0 parsed) of
                      Some (index, _) \<Rightarrow> Inl (Chain_Expired index)
                    | None \<Rightarrow>
                        ebind (walk anchors now (po_rules policy) verify 0 parsed) (\<lambda>(anchor, source).
                        Inr \<lparr>vd_leaf = leaf, vd_intermediates = intermediates, vd_anchor = anchor, vd_anchor_source = source\<rparr>))))))"

text \<open>The choice among several chains.\<close>

fun chain_reaches :: "bytes list \<Rightarrow> bytes list \<Rightarrow> bool option" where
  "chain_reaches listed [] = Some False"
| "chain_reaches listed (der # chain) =
     (case cert_parse der of
        Inl _ \<Rightarrow> None
      | Inr cert \<Rightarrow>
          (case chain_reaches listed chain of
             None \<Rightarrow> None
           | Some reaches \<Rightarrow> Some (nm_encoded (ct_issuer cert) \<in> set listed \<or> nm_encoded (ct_subject cert) \<in> set listed \<or> reaches)))"

definition select_chain :: "bytes list list \<Rightarrow> bytes list \<Rightarrow> nat option" where
  "select_chain candidates listed =
     List.find (\<lambda>i. chain_reaches listed (candidates ! i) = Some True) [0..<length candidates]"

section \<open>What a link is\<close>

definition may_issue :: "certificate \<Rightarrow> nat \<Rightarrow> bool" where
  "may_issue issuer below \<longleftrightarrow>
     (\<exists>bc. ct_basic_constraints issuer = Some bc \<and> bc_ca bc \<and> (\<forall>limit. bc_path_len bc = Some limit \<longrightarrow> below \<le> unat limit))
     \<and> (\<forall>ku. ct_key_usage issuer = Some ku \<longrightarrow> usage_contains ku KEY_CERT_SIGN)"

definition issued_by :: "rules \<Rightarrow> verify_with_fn \<Rightarrow> nat \<Rightarrow> certificate \<Rightarrow> certificate \<Rightarrow> bool" where
  "issued_by rules verify below cert issuer \<longleftrightarrow>
     nm_encoded (ct_subject issuer) = nm_encoded (ct_issuer cert) \<and> may_issue issuer below \<and> nests rules cert issuer
     \<and> verify (curve_suite (ct_curve issuer)) (ct_public_key issuer) (ct_tbs cert) (ct_signature cert) = Inr ()"

definition anchored_by :: "rules \<Rightarrow> verify_with_fn \<Rightarrow> int \<Rightarrow> nat \<Rightarrow> certificate \<Rightarrow> trust_anchor \<Rightarrow> certificate \<Rightarrow> bool" where
  "anchored_by rules verify now below cert entry anchor \<longleftrightarrow>
     cert_parse (ta_der entry) = Inr anchor \<and> is_valid_at anchor now \<and> issued_by rules verify below cert anchor"

text \<open>The path from the leaf to an anchor over the first \<open>k\<close> links.\<close>

definition trusted_path :: "trust_anchor list \<Rightarrow> int \<Rightarrow> rules \<Rightarrow> verify_with_fn \<Rightarrow> nat \<Rightarrow> certificate list \<Rightarrow> nat \<Rightarrow> trust_anchor \<Rightarrow> certificate \<Rightarrow> bool" where
  "trusted_path anchors now rules verify index certs k entry anchor \<longleftrightarrow>
     k < length certs \<and> (\<forall>i < k. issued_by rules verify (index + i) (certs ! i) (certs ! Suc i))
     \<and> entry \<in> set anchors \<and> anchored_by rules verify now (index + k) (certs ! k) entry anchor"

lemma check_issuer_Inr: "check_issuer issuer below index = Inr () \<longleftrightarrow> may_issue issuer below"
  by (auto simp: check_issuer_def may_issue_def ebind_eq_Inr ok_or_eq_Inr split: option.splits)

lemma verify_signature_Inr:
  "verify_signature cert issuer verify index = Inr () \<longleftrightarrow>
   verify (curve_suite (ct_curve issuer)) (ct_public_key issuer) (ct_tbs cert) (ct_signature cert) = Inr ()"
  by (auto simp: verify_signature_def split: sum.splits)

lemma anchor_loop_sound:
  "anchor_loop anchors cert below now rules verify index outlived = Inr (anchor, source) \<Longrightarrow>
   \<exists>entry \<in> set anchors. ta_source entry = source \<and> anchored_by rules verify now below cert entry anchor"
  by (induction anchors arbitrary: outlived)
     (auto simp: anchored_by_def issued_by_def check_issuer_Inr verify_signature_Inr split: sum.splits if_splits)

lemma anchor_loop_complete:
  "entry \<in> set anchors \<Longrightarrow> anchored_by rules verify now below cert entry anchor \<Longrightarrow>
   \<exists>found. anchor_loop anchors cert below now rules verify index outlived = Inr found"
proof (induction anchors arbitrary: outlived)
  case (Cons e anchors)
  show ?case
  proof (cases "e = entry")
    case True
    then show ?thesis using Cons.prems(2) by (simp add: anchored_by_def issued_by_def check_issuer_Inr verify_signature_Inr)
  next
    case False
    then have "\<exists>found. anchor_loop anchors cert below now rules verify index b = Inr found" for b
      using Cons.IH Cons.prems by auto
    then show ?thesis by (auto split: sum.split)
  qed
qed simp

lemma walk_sound:
  "walk anchors now rules verify index certs = Inr (anchor, source) \<Longrightarrow>
   \<exists>k entry. trusted_path anchors now rules verify index certs k entry anchor \<and> ta_source entry = source"
proof (induction certs arbitrary: index)
  case (Cons cert uppers)
  show ?case
  proof (cases "find_anchor anchors cert index now rules verify index")
    case (Inr found)
    then have "find_anchor anchors cert index now rules verify index = Inr (anchor, source)" using Cons.prems by simp
    then have "\<exists>entry \<in> set anchors. ta_source entry = source \<and> anchored_by rules verify now index cert entry anchor"
      unfolding find_anchor_def by (rule anchor_loop_sound)
    then show ?thesis by (fastforce simp: trusted_path_def)
  next
    case (Inl e)
    then obtain issuer rest where uppers: "uppers = issuer # rest" using Cons.prems by (cases uppers) simp_all
    have link: "issued_by rules verify index cert issuer" and w: "walk anchors now rules verify (Suc index) uppers = Inr (anchor, source)"
      using Cons.prems Inl check_issuer_Inr [of issuer index "index + 1"] verify_signature_Inr [of cert issuer verify index]
      by (auto simp: uppers ebind_eq_Inr issued_by_def split: if_splits)
    from Cons.IH [OF w] obtain k entry where
      p: "trusted_path anchors now rules verify (Suc index) uppers k entry anchor" "ta_source entry = source" by blast
    have "\<forall>i < Suc k. issued_by rules verify (index + i) ((cert # uppers) ! i) ((cert # uppers) ! Suc i)"
      using p(1) link by (auto simp: trusted_path_def uppers less_Suc_eq_0_disj)
    then have "trusted_path anchors now rules verify index (cert # uppers) (Suc k) entry anchor"
      using p(1) by (simp add: trusted_path_def)
    then show ?thesis using p(2) by blast
  qed
qed simp

lemma walk_complete:
  "trusted_path anchors now rules verify index certs k entry anchor \<Longrightarrow> \<exists>found. walk anchors now rules verify index certs = Inr found"
proof (induction certs arbitrary: index k)
  case (Cons cert uppers)
  show ?case
  proof (cases k)
    case 0
    then have "\<exists>found. find_anchor anchors cert index now rules verify index = Inr found"
      using Cons.prems anchor_loop_complete by (auto simp: trusted_path_def find_anchor_def)
    then show ?thesis by auto
  next
    case (Suc j)
    then obtain issuer rest where uppers: "uppers = issuer # rest" using Cons.prems by (cases uppers) (auto simp: trusted_path_def)
    have "issued_by rules verify index cert issuer"
      using Cons.prems Suc by (auto simp: trusted_path_def uppers dest: spec [of _ 0])
    moreover have "trusted_path anchors now rules verify (Suc index) uppers j entry anchor"
      using Cons.prems Suc by (fastforce simp: trusted_path_def)
    then have "\<exists>found. walk anchors now rules verify (Suc index) uppers = Inr found" by (rule Cons.IH)
    ultimately show ?thesis
      by (cases "find_anchor anchors cert index now rules verify index")
         (auto simp: uppers issued_by_def check_issuer_Inr [of issuer index "Suc index", THEN iffD2]
            verify_signature_Inr [of cert issuer verify index, THEN iffD2])
  qed
qed (simp add: trusted_path_def)

lemma parse_all_Inr: "parse_all index chain = Inr certs \<longleftrightarrow> list_all2 (\<lambda>der c. cert_parse der = Inr c) chain certs"
  by (induction chain arbitrary: index certs) (auto simp: ebind_eq_Inr list_all2_Cons1 split: sum.splits)

lemma find_enumerate_None: "List.find (\<lambda>(_, x). P x) (enumerate n xs) = None \<longleftrightarrow> (\<forall>x \<in> set xs. \<not> P x)"
  by (induction xs arbitrary: n) simp_all


text \<open>What the chain has to be before any signature is looked at.\<close>

definition presentable :: "bytes list \<Rightarrow> policy \<Rightarrow> int \<Rightarrow> certificate list \<Rightarrow> bool" where
  "presentable chain policy now certs \<longleftrightarrow>
     certs \<noteq> [] \<and> length chain \<le> 3 \<and> (po_rules policy = Rules_Iso20 \<longrightarrow> (\<forall>der \<in> set chain. length der \<le> 1600))
     \<and> list_all2 (\<lambda>der c. cert_parse der = Inr c) chain certs \<and> check_leaf (po_profile policy) (hd certs) = Inr ()
     \<and> (\<forall>c \<in> set certs. ct_curve c = ct_curve (hd certs) \<and> is_valid_at c now)"

lemma chain_validate_Inr:
  "chain_validate chain anchors policy now verify = Inr v \<longleftrightarrow>
   (\<exists>certs anchor source. presentable chain policy now certs \<and> walk anchors now (po_rules policy) verify 0 certs = Inr (anchor, source)
     \<and> v = \<lparr>vd_leaf = hd certs, vd_intermediates = tl certs, vd_anchor = anchor, vd_anchor_source = source\<rparr>)"
proof (cases "length chain > 3 \<or> (po_rules policy = Rules_Iso20 \<and> (\<exists>der \<in> set chain. length der > 1600))")
  case True
  have "chain_validate chain anchors policy now verify \<noteq> Inr v"
  proof (cases "length chain > 3")
    case False
    then have "List.find (\<lambda>(_, der). length der > 1600) (enumerate 0 chain) \<noteq> None"
      using True by (auto simp: find_enumerate_None)
    then show ?thesis using True False
      by (auto simp: chain_validate_def MAX_PATH_LEN_def ISO20_MAX_CERTIFICATE_LEN_def split: option.split)
  qed (simp add: chain_validate_def MAX_PATH_LEN_def)
  moreover have "\<not> presentable chain policy now certs" for certs using True by (force simp: presentable_def)
  ultimately show ?thesis by blast
next
  case False
  then have size: "(if po_rules policy = Rules_Iso20 then List.find (\<lambda>(_, der). length der > ISO20_MAX_CERTIFICATE_LEN) (enumerate 0 chain)
      else None) = None"
    by (auto simp: find_enumerate_None ISO20_MAX_CERTIFICATE_LEN_def not_less)
  show ?thesis
  proof (cases "parse_all 0 chain")
    case (Inl e)
    then have "\<not> list_all2 (\<lambda>der c. cert_parse der = Inr c) chain certs" for certs by (metis parse_all_Inr sum.distinct(1))
    then show ?thesis using False size Inl by (simp add: chain_validate_def MAX_PATH_LEN_def presentable_def)
  next
    case (Inr certs)
    then have only: "list_all2 (\<lambda>der c. cert_parse der = Inr c) chain cs \<longleftrightarrow> cs = certs" for cs using parse_all_Inr [of 0 chain cs] by auto
    show ?thesis
    proof (cases certs)
      case Nil
      then show ?thesis using False size Inr only by (auto simp: chain_validate_def MAX_PATH_LEN_def presentable_def)
    next
      case (Cons leaf intermediates)
      have "chain_validate chain anchors policy now verify = Inr v \<longleftrightarrow>
          check_leaf (po_profile policy) leaf = Inr () \<and> (\<forall>c \<in> set certs. ct_curve c = ct_curve leaf)
          \<and> (\<forall>c \<in> set certs. is_valid_at c now)
          \<and> (\<exists>anchor source. walk anchors now (po_rules policy) verify 0 certs = Inr (anchor, source)
             \<and> v = \<lparr>vd_leaf = leaf, vd_intermediates = intermediates, vd_anchor = anchor, vd_anchor_source = source\<rparr>)"
        using False size Inr Cons find_enumerate_None [of "\<lambda>c. \<not> is_valid_at c now" 0 certs]
        by (auto simp: chain_validate_def MAX_PATH_LEN_def ebind_eq_Inr simp del: walk.simps split: option.splits prod.splits)
      then show ?thesis using False Cons only unfolding presentable_def by (auto simp: not_less simp del: walk.simps)
    qed
  qed
qed

section \<open>The properties of a validated chain\<close>

text \<open>
  C5. \<open>validate\<close> accepts exactly the chains it documents. A result is returned if and only if the chain has one to three
  certificates of the permitted size that all read, the leaf meets its profile, all are on one curve and inside their
  validity, and from the leaf an unbroken run of links (names match, the issuer may issue at that depth, the validity
  nests where the rules ask for it, the signature verifies under the issuer's key) reaches a certificate that one of the
  configured anchors issued, that anchor being valid as well. The result then holds the leaf and such an anchor with its
  source.
\<close>
theorem chain_validate_exact:
  "(\<forall>v. chain_validate chain anchors policy now verify = Inr v \<longrightarrow>
      (\<exists>certs k entry. presentable chain policy now certs \<and> vd_leaf v = hd certs
         \<and> trusted_path anchors now (po_rules policy) verify 0 certs k entry (vd_anchor v) \<and> vd_anchor_source v = ta_source entry))
   \<and> (\<forall>certs k entry anchor. presentable chain policy now certs
        \<and> trusted_path anchors now (po_rules policy) verify 0 certs k entry anchor \<longrightarrow>
        (\<exists>v. chain_validate chain anchors policy now verify = Inr v \<and> vd_leaf v = hd certs))"
proof (intro conjI allI impI)
  fix v assume "chain_validate chain anchors policy now verify = Inr v"
  then show "\<exists>certs k entry. presentable chain policy now certs \<and> vd_leaf v = hd certs
         \<and> trusted_path anchors now (po_rules policy) verify 0 certs k entry (vd_anchor v) \<and> vd_anchor_source v = ta_source entry"
    by (fastforce simp: chain_validate_Inr dest: walk_sound)
next
  fix certs k entry anchor
  assume "presentable chain policy now certs \<and> trusted_path anchors now (po_rules policy) verify 0 certs k entry anchor"
  moreover from this obtain found source where "walk anchors now (po_rules policy) verify 0 certs = Inr (found, source)"
    using walk_complete by fast
  ultimately have "chain_validate chain anchors policy now verify =
      Inr \<lparr>vd_leaf = hd certs, vd_intermediates = tl certs, vd_anchor = found, vd_anchor_source = source\<rparr>"
    by (auto simp: chain_validate_Inr simp del: walk.simps)
  then show "\<exists>v. chain_validate chain anchors policy now verify = Inr v \<and> vd_leaf v = hd certs" by simp
qed

text \<open>
  Sample certificates: a leaf without extensions and an authority; a key verifies the signatures that repeat its octet.
\<close>

definition sample_ca_extensions :: bytes where
  "sample_ca_extensions =
     der_tlv TAG_SEQUENCE (der_tlv TAG_OID OID_BASIC_CONSTRAINTS @ der_tlv TAG_BOOLEAN [0xFF]
        @ der_tlv TAG_OCTET_STRING (der_tlv TAG_SEQUENCE (der_tlv TAG_BOOLEAN [0xFF])))"

definition sample_verify :: verify_with_fn where
  "sample_verify suite key data sig = (if last key = last sig then Inr () else Inl Pnc_BadSignature)"

definition sample_anchor :: trust_anchor where
  "sample_anchor = \<lparr>ta_der = sample_cert 1 1 7 sample_ca_extensions 7, ta_source = ''root''\<rparr>"

definition sample_leaf_read :: "u8 \<Rightarrow> u8 \<Rightarrow> u8 \<Rightarrow> u8 \<Rightarrow> certificate" where
  "sample_leaf_read issuer subject k sig =
     cert_of (sample_cert issuer subject k [] sig) (der_tlv TAG_SEQUENCE (sample_tbs issuer subject k []))
       (sample_fields issuer subject k no_extensions) (replicate 31 0 @ [sig] @ replicate 31 0 @ [sig])"

definition sample_ca_read :: "u8 \<Rightarrow> u8 \<Rightarrow> u8 \<Rightarrow> u8 \<Rightarrow> certificate" where
  "sample_ca_read issuer subject k sig =
     cert_of (sample_cert issuer subject k sample_ca_extensions sig)
       (der_tlv TAG_SEQUENCE (sample_tbs issuer subject k sample_ca_extensions))
       (sample_fields issuer subject k (no_extensions\<lparr>ex_seen_basic_constraints := True,
          ex_basic_constraints := Some \<lparr>bc_ca = True, bc_path_len = None\<rparr>\<rparr>))
       (replicate 31 0 @ [sig] @ replicate 31 0 @ [sig])"

lemma sample_leaf_parses: "sig AND 0x80 = 0 \<Longrightarrow> cert_parse (sample_cert issuer subject k [] sig) = Inr (sample_leaf_read issuer subject k sig)"
  unfolding sample_leaf_read_def by (rule sample_cert_read) (simp_all add: read_extensions.simps)

lemma sample_ca_parses:
  "sig AND 0x80 = 0 \<Longrightarrow>
   cert_parse (sample_cert issuer subject k sample_ca_extensions sig) = Inr (sample_ca_read issuer subject k sig)"
  unfolding sample_ca_read_def
proof (rule sample_cert_read)
  have "der_boolean (der_tlv TAG_BOOLEAN [0xFF]) = Inr (True, [])" "der_boolean (der_tlv TAG_BOOLEAN [0xFF] @ rest) = Inr (True, rest)" for rest
    by (simp_all add: der_boolean_def)
  then show "read_extensions sample_ca_extensions no_extensions = Inr (no_extensions\<lparr>ex_seen_basic_constraints := True,
          ex_basic_constraints := Some \<lparr>bc_ca = True, bc_path_len = None\<rparr>\<rparr>)"
    by (simp add: sample_ca_extensions_def read_extensions.simps der_ok_def der_finish_def take_extension_def OID_BASIC_CONSTRAINTS_def
        OID_KEY_USAGE_def no_extensions_def read_basic_constraints_def)
qed (simp_all add: sample_ca_extensions_def OID_BASIC_CONSTRAINTS_def)

lemma sample_size: "length exts < 55 \<Longrightarrow> length (sample_cert issuer subject k exts sig) \<le> 1600"
  by (simp add: sample_cert_def sample_tbs_def der_signature_def)

lemmas sample_read_defs = sample_leaf_read_def sample_ca_read_def cert_of_def sample_fields_def no_extensions_def Let_def

theorem chain_validate_exact_witness:
  "\<exists>v. chain_validate [sample_cert 2 3 4 [] 5, sample_cert 1 2 5 sample_ca_extensions 7] [sample_anchor]
      \<lparr>po_profile = Unchecked, po_rules = Rules_Iso20\<rparr> 1000000000 sample_verify = Inr v \<and> vd_leaf v = sample_leaf_read 2 3 4 5"
proof -
  let ?certs = "[sample_leaf_read 2 3 4 5, sample_ca_read 1 2 5 7]"
  let ?chain = "[sample_cert 2 3 4 [] 5, sample_cert 1 2 5 sample_ca_extensions 7]"
  let ?policy = "\<lparr>po_profile = Unchecked, po_rules = Rules_Iso20\<rparr>"
  have ext: "length sample_ca_extensions < 55" by (simp add: sample_ca_extensions_def OID_BASIC_CONSTRAINTS_def)
  have "presentable ?chain ?policy 1000000000 ?certs"
    by (simp add: presentable_def sample_size [OF ext] sample_size [of "[]"] sample_leaf_parses sample_ca_parses)
       (simp add: check_leaf_def sample_read_defs is_valid_at_def)
  moreover have "issued_by Rules_Iso20 sample_verify 0 (?certs ! 0) (?certs ! 1)"
    by (simp add: issued_by_def may_issue_def sample_verify_def sample_read_defs)
  moreover have "issued_by Rules_Iso20 sample_verify 1 (?certs ! 1) (sample_ca_read 1 1 7 7)"
    by (simp add: issued_by_def may_issue_def sample_verify_def sample_read_defs)
  moreover have "is_valid_at (sample_ca_read 1 1 7 7) 1000000000" by (simp add: is_valid_at_def sample_read_defs)
  ultimately have "presentable ?chain ?policy 1000000000 ?certs
      \<and> trusted_path [sample_anchor] 1000000000 (po_rules ?policy) sample_verify 0 ?certs 1 sample_anchor (sample_ca_read 1 1 7 7)"
    by (simp add: trusted_path_def anchored_by_def sample_anchor_def sample_ca_parses)
  then show ?thesis
    using chain_validate_exact [of ?chain "[sample_anchor]" ?policy 1000000000 sample_verify] by fastforce
qed

text \<open>The chosen chain reads, reaches a listed authority and is the first to do so; nothing is chosen only when none does.\<close>

lemma chain_reaches_parsed:
  "chain_reaches listed chain =
   (case parse_all index chain of Inl _ \<Rightarrow> None
    | Inr certs \<Rightarrow> Some (\<exists>c \<in> set certs. nm_encoded (ct_issuer c) \<in> set listed \<or> nm_encoded (ct_subject c) \<in> set listed))"
proof (induction chain arbitrary: index)
  case (Cons der chain)
  show ?case using Cons.IH [of "Suc index"] by (cases "cert_parse der"; cases "parse_all (Suc index) chain") auto
qed simp

lemma select_chain_first:
  "(select_chain candidates listed = Some i \<longleftrightarrow>
      i < length candidates \<and> chain_reaches listed (candidates ! i) = Some True
      \<and> (\<forall>j < i. chain_reaches listed (candidates ! j) \<noteq> Some True))
   \<and> (select_chain candidates listed = None \<longleftrightarrow> (\<forall>chain \<in> set candidates. chain_reaches listed chain \<noteq> Some True))"
  by (auto simp: select_chain_def find_Some_iff find_None_iff all_set_conv_all_nth)

text \<open>
  C38. A validated path may hold certificates that nothing vouched for. The walk stops at the first certificate that an
  anchor issued, but the result carries every certificate that arrived: appending any certificate of the same curve that
  is inside its validity to a chain whose leaf an anchor issued returns that certificate among the intermediates of the
  result, without a name, an issuer's permission or a signature having been checked for it. The result is described as
  the path from the leaf to the anchor.
\<close>
theorem validated_unchecked_intermediate:
  assumes "chain_validate [leaf] anchors policy now verify = Inr v"
    and "cert_parse extra = Inr c" and "length extra \<le> ISO20_MAX_CERTIFICATE_LEN" and "ct_curve c = ct_curve (vd_leaf v)" and "is_valid_at c now"
  shows "chain_validate [leaf, extra] anchors policy now verify = Inr (v\<lparr>vd_intermediates := [c]\<rparr>)"
proof -
  obtain l anchor source where *: "presentable [leaf] policy now [l]"
    and w: "walk anchors now (po_rules policy) verify 0 [l] = Inr (anchor, source)"
    and v: "v = \<lparr>vd_leaf = l, vd_intermediates = [], vd_anchor = anchor, vd_anchor_source = source\<rparr>"
    using assms(1) by (auto simp: chain_validate_Inr presentable_def list_all2_Cons1 simp del: walk.simps)
  have "presentable [leaf, extra] policy now [l, c]"
    using * assms by (simp add: presentable_def v ISO20_MAX_CERTIFICATE_LEN_def)
  moreover have "walk anchors now (po_rules policy) verify 0 [l, c] = Inr (anchor, source)"
    using w by (simp split: sum.splits)
  ultimately show ?thesis by (auto simp: chain_validate_Inr v simp del: walk.simps)
qed

theorem validated_unchecked_intermediate_witness:
  "\<exists>v. chain_validate [sample_cert 1 3 4 [] 7, sample_cert 8 9 4 [] 6] [sample_anchor]
      \<lparr>po_profile = Unchecked, po_rules = Rules_Iso20\<rparr> 1000000000 sample_verify = Inr v
     \<and> vd_intermediates v = [sample_leaf_read 8 9 4 6]
     \<and> sample_verify (curve_suite (ct_curve (vd_anchor v))) (ct_public_key (vd_anchor v)) (ct_tbs (sample_leaf_read 8 9 4 6))
          (ct_signature (sample_leaf_read 8 9 4 6)) \<noteq> Inr ()"
proof -
  let ?policy = "\<lparr>po_profile = Unchecked, po_rules = Rules_Iso20\<rparr>" and ?leaf = "sample_leaf_read 1 3 4 7"
  let ?v = "\<lparr>vd_leaf = ?leaf, vd_intermediates = [], vd_anchor = sample_ca_read 1 1 7 7, vd_anchor_source = ''root''\<rparr>"
  have "presentable [sample_cert 1 3 4 [] 7] ?policy 1000000000 [?leaf]"
    by (simp add: presentable_def sample_size [of "[]"] sample_leaf_parses)
       (simp add: check_leaf_def sample_read_defs is_valid_at_def)
  moreover have "walk [sample_anchor] 1000000000 Rules_Iso20 sample_verify 0 [?leaf] = Inr (sample_ca_read 1 1 7 7, ''root'')"
    by (simp add: find_anchor_def sample_anchor_def sample_ca_parses check_issuer_Inr verify_signature_Inr)
       (simp add: may_issue_def sample_verify_def sample_read_defs is_valid_at_def)
  ultimately have "chain_validate [sample_cert 1 3 4 [] 7] [sample_anchor] ?policy 1000000000 sample_verify = Inr ?v"
    by (auto simp: chain_validate_Inr simp del: walk.simps)
  from validated_unchecked_intermediate [OF this sample_leaf_parses [of 6 8 9 4]]
  have "chain_validate [sample_cert 1 3 4 [] 7, sample_cert 8 9 4 [] 6] [sample_anchor] ?policy 1000000000 sample_verify
      = Inr (?v\<lparr>vd_intermediates := [sample_leaf_read 8 9 4 6]\<rparr>)"
    using sample_size [of "[]"] by (simp add: ISO20_MAX_CERTIFICATE_LEN_def sample_read_defs is_valid_at_def)
  then show ?thesis by (simp add: sample_verify_def sample_read_defs)
qed

end
