(* ===== verification/Flow.thy ===== *)
theory Flow
  imports Documents
begin

text \<open>
  \<open>Flow\<close> of \<open>src/src/session/mod.rs\<close>: the ordering graph of whichever generation was negotiated, asked with
  whole messages. It is again a sequencer in the sense of \<open>Session_Common\<close>, so what was shown there of a
  failed and a finished session holds of it.
\<close>

datatype flow = Flow_Iso2 iso2_sequencer | Flow_Iso20 iso20_sequencer

datatype flow_error = Sequence sequence_error | NotARequest

datatype resume_error = NotNegotiated | NotIso20

record loop_budgets =
  lb_authorization :: "millis option"
  lb_ongoing :: "millis option"

fun flow_supports :: "protocol \<Rightarrow> bool" where
  "flow_supports Iso2 = True"
| "flow_supports Iso20 = True"
| "flow_supports Din70121 = False"

fun flow_new :: "protocol \<Rightarrow> security \<Rightarrow> flow option" where
  "flow_new Iso2 sec = Some (Flow_Iso2 (iso2_new sec))"
| "flow_new Iso20 sec = Some (Flow_Iso20 iso20_new)"
| "flow_new Din70121 sec = None"

text \<open>The \<open>?\<close> on a sequencer's answer turns its error into \<open>FlowError::Sequence\<close>.\<close>

definition flow_result :: "('s \<Rightarrow> flow) \<Rightarrow> (sequence_error + 'p) \<times> 's \<Rightarrow> (flow_error + unit) \<times> flow" where
  "flow_result wrap rs =
     (case rs of (Inl e, s) \<Rightarrow> (Inl (Sequence e), wrap s) | (Inr _, s) \<Rightarrow> (Inr (), wrap s))"

primrec flow_accept :: "flow \<Rightarrow> 'x msg \<Rightarrow> (flow_error + unit) \<times> flow" where
  "flow_accept (Flow_Iso2 s) m =
     (case iso2_request_of m of
        None \<Rightarrow> (Inl NotARequest, Flow_Iso2 s)
      | Some r \<Rightarrow> flow_result Flow_Iso2 (iso2_accept s r))"
| "flow_accept (Flow_Iso20 s) m =
     (case iso20_request_of m of
        None \<Rightarrow> (Inl NotARequest, Flow_Iso20 s)
      | Some r \<Rightarrow>
        if \<not> iso20_admits s (message_payload_type m) then (Inl (Sequence (iso20_refusal s r)), Flow_Iso20 s)
        else flow_result Flow_Iso20 (iso20_accept_processing s r (power_delivery_ongoing m)))"

primrec flow_permits :: "flow \<Rightarrow> 'x msg \<Rightarrow> flow_error + unit" where
  "flow_permits (Flow_Iso2 s) m =
     (case iso2_request_of m of
        None \<Rightarrow> Inl NotARequest
      | Some r \<Rightarrow> if \<not> iso2_permits s r then Inl (Sequence (iso2_refusal s r)) else Inr ())"
| "flow_permits (Flow_Iso20 s) m =
     (case iso20_request_of m of
        None \<Rightarrow> Inl NotARequest
      | Some r \<Rightarrow>
        if \<not> iso20_admits s (message_payload_type m) \<or> \<not> iso20_permits s r
        then Inl (Sequence (iso20_refusal s r)) else Inr ())"

primrec flow_is_finished :: "flow \<Rightarrow> bool" where
  "flow_is_finished (Flow_Iso2 s) = iso2_is_finished s"
| "flow_is_finished (Flow_Iso20 s) = iso20_is_finished s"

primrec flow_is_paused :: "flow \<Rightarrow> bool" where
  "flow_is_paused (Flow_Iso2 s) = iso2_is_paused s"
| "flow_is_paused (Flow_Iso20 s) = iso20_is_paused s"

primrec flow_failed :: "flow \<Rightarrow> flow" where
  "flow_failed (Flow_Iso2 s) = Flow_Iso2 (iso2_fail s)"
| "flow_failed (Flow_Iso20 s) = Flow_Iso20 (iso20_fail s)"

primrec flow_is_failed :: "flow \<Rightarrow> bool" where
  "flow_is_failed (Flow_Iso2 s) = s2_failed s"
| "flow_is_failed (Flow_Iso20 s) = s20_failed s"

primrec flow_resume :: "energy_transfer \<Rightarrow> flow \<Rightarrow> (resume_error + unit) \<times> flow" where
  "flow_resume t (Flow_Iso2 s) = (Inl NotIso20, Flow_Iso2 s)"
| "flow_resume t (Flow_Iso20 s) = (Inr (), Flow_Iso20 (iso20_resume t s))"

primrec is_dc_safety_phase :: "flow \<Rightarrow> bool" where
  "is_dc_safety_phase (Flow_Iso2 s) = (s2_phase s = P2_CableCheck \<or> s2_phase s = P2_PreCharge)"
| "is_dc_safety_phase (Flow_Iso20 s) = (s20_phase s = P20_CableCheck \<or> s20_phase s = P20_PreCharge)"

definition flow_loop_timeout :: "flow \<Rightarrow> role \<Rightarrow> loop_budgets \<Rightarrow> millis option" where
  "flow_loop_timeout f role budgets =
     (let (dflt, authorizing) =
        (case f of
           Flow_Iso2 s \<Rightarrow> (iso2_loop_timeout s role, s2_phase s = P2_Authorized)
         | Flow_Iso20 s \<Rightarrow> (iso20_loop_timeout s role, s20_phase s = P20_Authorized)) in
      case dflt of
        None \<Rightarrow> None
      | Some d \<Rightarrow>
        let overridden =
          (if authorizing then lb_authorization budgets
           else if is_dc_safety_phase f then None
           else lb_ongoing budgets) in
        Some (case overridden of Some budget \<Rightarrow> budget | None \<Rightarrow> d))"

primrec flow_phase_name :: "flow \<Rightarrow> string" where
  "flow_phase_name (Flow_Iso2 s) = iso2_phase_name (s2_phase s)"
| "flow_phase_name (Flow_Iso20 s) = iso20_phase_name (s20_phase s)"

section \<open>A flow is a sequencer of messages\<close>

definition permitted :: "flow \<Rightarrow> 'x msg \<Rightarrow> bool" where
  "permitted f m \<longleftrightarrow> flow_permits f m = Inr ()"

definition message_is_stop :: "'x msg \<Rightarrow> bool" where
  "message_is_stop m \<longleftrightarrow>
     (case iso2_request_of m of Some r \<Rightarrow> iso2_is_stop r | None \<Rightarrow> False)
     \<or> (case iso20_request_of m of Some r \<Rightarrow> iso20_is_stop r | None \<Rightarrow> False)"

text \<open>The answer of \<open>accept\<close> is that of \<open>permits\<close>, and a refusal changes nothing.\<close>

lemma flow_accept_permits: "fst (flow_accept f m) = flow_permits f m"
proof (cases f)
  case (Flow_Iso2 s)
  then show ?thesis
    by (auto simp: flow_result_def iso2_accept_def iso2_permits_def Let_def split: option.splits)
next
  case (Flow_Iso20 s)
  then show ?thesis
    by (auto simp: flow_result_def iso20_accept_processing_def iso20_permits_def Let_def split: option.splits)
qed

lemma flow_refused_unchanged: "\<not> permitted f m \<Longrightarrow> snd (flow_accept f m) = f"
proof (cases f)
  case (Flow_Iso2 s)
  assume "\<not> permitted f m"
  with Flow_Iso2 show ?thesis
    by (auto simp: permitted_def flow_result_def iso2_accept_def iso2_permits_def split: option.splits if_splits)
next
  case (Flow_Iso20 s)
  assume "\<not> permitted f m"
  with Flow_Iso20 show ?thesis
    by (auto simp: permitted_def flow_result_def iso20_accept_processing_def iso20_permits_def split: option.splits if_splits)
qed

lemma flow_permittedE:
  assumes "permitted f m"
  obtains (iso2) s r where "f = Flow_Iso2 s" "iso2_request_of m = Some r" "iso2_permits s r"
      "snd (flow_accept f m) = Flow_Iso2 (snd (iso2_accept s r))"
  | (iso20) s r where "f = Flow_Iso20 s" "iso20_request_of m = Some r" "iso20_permits s r"
      "iso20_admits s (message_payload_type m)"
      "snd (flow_accept f m) = Flow_Iso20 (snd (iso20_accept_processing s r (power_delivery_ongoing m)))"
  using assms
  by (cases f) (auto simp: permitted_def flow_result_def split: option.splits if_splits sum.splits prod.splits)

interpretation flow: sequencer flow_accept permitted flow_failed flow_is_failed flow_is_finished message_is_stop
proof unfold_locales
  fix f and m :: "'x msg"
  show "(\<exists>p. fst (flow_accept f m) = Inr p) \<longleftrightarrow> permitted f m" by (auto simp: flow_accept_permits permitted_def)
  show "\<not> permitted f m \<Longrightarrow> snd (flow_accept f m) = f" by (rule flow_refused_unchanged)
  show "flow_is_finished f \<Longrightarrow> \<not> permitted f m"
    using iso2.finished_refuses iso20.finished_refuses by (auto elim!: flow_permittedE)
  show "flow_is_failed f \<Longrightarrow> permitted f m \<Longrightarrow> message_is_stop m \<and> flow_is_finished (snd (flow_accept f m))"
    using iso2.failed_stops iso20.failed_stops by (fastforce elim!: flow_permittedE simp: message_is_stop_def)
  show "flow_is_failed f \<Longrightarrow> flow_is_failed (snd (flow_accept f m))"
    using iso2.failed_sticky iso20.failed_sticky flow_refused_unchanged [of f m]
    by (cases "permitted f m") (auto elim!: flow_permittedE)
  show "flow_is_failed (flow_failed f)" by (cases f) (simp_all add: iso2_fail_def iso20_fail_def)
qed

lemma flow_new_supports: "flow_supports p \<longleftrightarrow> flow_new p sec \<noteq> None"
  by (cases p) simp_all

lemma flow_permitted_request: "permitted f m \<Longrightarrow> is_request m"
  using iso2_request_of_name iso20_request_of_request by (blast elim!: flow_permittedE)

section \<open>Runs of a flow\<close>

text \<open>
  The state a flow of either generation can have reached when the requests \<open>rs\<close> were accepted by the one, or the
  events \<open>es\<close> happened in the other. What holds of the runs of a sequencer then holds of both sides of a session.
\<close>

primrec flow_generation :: "flow \<Rightarrow> protocol" where
  "flow_generation (Flow_Iso2 s) = Iso2"
| "flow_generation (Flow_Iso20 s) = Iso20"

primrec flow_ran :: "security \<Rightarrow> iso2_request list \<Rightarrow> iso20_event list \<Rightarrow> flow \<Rightarrow> bool" where
  "flow_ran sec rs es (Flow_Iso2 s) = iso2_run sec rs s"
| "flow_ran sec rs es (Flow_Iso20 s) = iso20_run es s"

text \<open>What an accepted message adds to either run.\<close>

definition as_request2 :: "'x msg \<Rightarrow> iso2_request list" where
  "as_request2 m = (case iso2_request_of m of Some r \<Rightarrow> [r] | None \<Rightarrow> [])"

definition as_event20 :: "'x msg \<Rightarrow> iso20_event list" where
  "as_event20 m = (case iso20_request_of m of Some r \<Rightarrow> [Accepted r] | None \<Rightarrow> [])"

lemma flow_ran_new: "flow_new p sec = Some f \<Longrightarrow> flow_ran sec [] [] f \<and> flow_generation f = p"
  by (cases p) (auto simp: run2_start run20_start)

lemma flow_ran_accept:
  assumes "flow_ran sec rs es f" and "flow_accept f m = (Inr (), f')"
  shows "flow_ran sec (rs @ as_request2 m) (es @ as_event20 m) f' \<and> flow_generation f' = flow_generation f"
proof (cases f)
  case (Flow_Iso2 q)
  with assms(2) obtain r p q' where r: "iso2_request_of m = Some r" "iso2_accept q r = (Inr p, q')" "f' = Flow_Iso2 q'"
    by (auto simp: flow_result_def split: option.splits sum.splits prod.splits)
  then show ?thesis using assms Flow_Iso2 run2_accept [of sec rs q r p q'] by (simp add: as_request2_def)
next
  case (Flow_Iso20 q)
  with assms(2) obtain r p q' where r: "iso20_request_of m = Some r" "f' = Flow_Iso20 q'"
      "iso20_accept_processing q r (power_delivery_ongoing m) = (Inr p, q')"
    by (auto simp: flow_result_def split: option.splits sum.splits prod.splits if_splits)
  then show ?thesis using assms Flow_Iso20 run20_accept [of es q r _ p q'] by (simp add: as_event20_def)
qed

lemma flow_ran_failed: "flow_ran sec rs es f \<Longrightarrow> flow_ran sec rs es (flow_failed f) \<and> flow_generation (flow_failed f) = flow_generation f"
  by (cases f) (simp_all add: run2_fail run20_fail)

lemma flow_ran_resume:
  "flow_ran sec rs es f \<Longrightarrow> flow_resume t f = (Inr (), f') \<Longrightarrow> flow_ran sec rs (es @ [Resumed t]) f' \<and> flow_generation f' = flow_generation f"
  by (cases f) (auto simp: run20_resume)

lemma flow_resume_refused: "flow_resume t f = (Inl e, f') \<Longrightarrow> f' = f"
  by (cases f) auto

text \<open>
  DC power flows only behind the isolation test, the pre-charge and the start of the delivery; in ISO 15118-2 the
  change from AC to DC in a renegotiation is the exception.
\<close>

definition dc_isolated :: "iso2_request list \<Rightarrow> iso20_event list \<Rightarrow> flow \<Rightarrow> bool" where
  "dc_isolated rs es f =
     (case f of
        Flow_Iso2 q \<Rightarrow> s2_transfer q = Some Tr_Dc \<and> s2_phase q \<in> iso2_powered_phases \<longrightarrow>
          subseq [R2_CableCheck, R2_PreCharge, R2_PowerDelivery CP2_Start] rs
          \<or> (\<exists>m n. transfer_of_mode m = Tr_Ac \<and> transfer_of_mode n = Tr_Dc
              \<and> subseq [R2_ChargeParameterDiscovery m, R2_PowerDelivery CP2_Start, R2_PowerDelivery CP2_Renegotiate,
                  R2_ChargeParameterDiscovery n, R2_PowerDelivery CP2_Start] rs)
      | Flow_Iso20 q \<Rightarrow> iso20_dc q \<and> s20_phase q \<in> iso20_powered_phases \<longrightarrow>
          subseq (map Accepted [R20_CableCheck, R20_PreCharge, R20_PowerDelivery CP20_Start]) (since_selection es))"

lemma flow_ran_dc: "flow_ran sec rs es f \<Longrightarrow> dc_isolated rs es f"
  using iso2_dc_safety [of sec rs] iso20_run_dc [of es]
  by (cases f) (simp_all add: dc_isolated_def iso20_dc_inv_def iso20_isolation_def)

definition authorized_by :: "security \<Rightarrow> iso2_request list \<Rightarrow> iso20_event list \<Rightarrow> flow \<Rightarrow> bool" where
  "authorized_by sec rs es f =
     (case f of
        Flow_Iso2 q \<Rightarrow> s2_phase q \<in> iso2_authorized_phases \<longrightarrow> R2_Authorization \<in> set rs
          \<and> (s2_payment q = Some Contract \<longrightarrow> sec = Tls \<and> R2_PaymentDetails \<in> set rs)
      | Flow_Iso20 q \<Rightarrow> s20_phase q \<in> iso20_authorized_phases \<longrightarrow>
          Accepted R20_Authorization \<in> set es \<or> (\<exists>t. Resumed t \<in> set es))"

lemma flow_ran_authorized: "flow_ran sec rs es f \<Longrightarrow> authorized_by sec rs es f"
  using iso2_run_authorized [of sec rs] iso2_run_payment [of sec rs] iso20_run_authorized [of es]
  by (auto simp: authorized_by_def split: flow.splits)

text \<open>Stamping the identifier changes nothing a flow looks at.\<close>

definition doc_request20 :: "'x document \<Rightarrow> iso20_request option \<times> bool" where
  "doc_request20 d = (iso20_request_of (of_doc d), power_delivery_ongoing (of_doc d))"

lemma doc_request20_stamped:
  "doc_request20 (Doc_Iso20 (common_set_header h d1)) = doc_request20 (Doc_Iso20 d1)"
  "doc_request20 (Doc_Iso20Ac (ac_set_header h d2)) = doc_request20 (Doc_Iso20Ac d2)"
  "doc_request20 (Doc_Iso20Dc (dc_set_header h d3)) = doc_request20 (Doc_Iso20Dc d3)"
  "doc_request20 (Doc_Iso20Wpt (wpt_set_header h d4)) = doc_request20 (Doc_Iso20Wpt d4)"
  "doc_request20 (Doc_Iso20Acdp (acdp_set_header h d5)) = doc_request20 (Doc_Iso20Acdp d5)"
  "doc_request20 (Doc_Iso20AcDerIec (ac_der_iec_set_header h d6)) = doc_request20 (Doc_Iso20AcDerIec d6)"
  "doc_request20 (Doc_Iso20AcDerSae (ac_der_sae_set_header h d7)) = doc_request20 (Doc_Iso20AcDerSae d7)"
  unfolding doc_request20_def iso20_request_of_def power_delivery_ongoing_def typed_of_doc document.case prod.inject
  subgoal by (cases d1; simp)
  subgoal by (cases d2; simp)
  subgoal by (cases d3; simp)
  subgoal by (cases d4; simp)
  subgoal by (cases d5; simp)
  subgoal by (cases d6; simp)
  subgoal by (cases d7; simp)
  done

lemma set_header_session_id_cases:
  "set_header_session_id header set_header d i = (b, d') \<Longrightarrow> d' = d \<or> (\<exists>h. d' = set_header h)"
  by (auto simp: set_header_session_id_def split: option.splits)

lemma doc_request20_set:
  assumes "doc_set_session_id i d = (b, d')"
  shows "doc_request20 d' = doc_request20 d"
proof (cases d)
  case (Doc_Iso2 x)
  then show ?thesis using assms
    by (cases x) (auto simp: doc_request20_def iso20_request_of_def power_delivery_ongoing_def)
qed (use assms in \<open>auto simp: doc_request20_stamped map_prod_def split: prod.splits dest!: set_header_session_id_cases\<close>)

lemma iso2_request_of_set:
  assumes "doc_set_session_id i d = (b, d')"
  shows "iso2_request_of (Message ms d') = iso2_request_of (Message ms' d)"
proof (cases d)
  case (Doc_Iso2 x)
  then show ?thesis using assms by (cases x) (auto simp: iso2_request_of_def)
qed (use assms in \<open>auto simp: iso2_request_of_def map_prod_def split: prod.splits\<close>)

lemma flow_accept_stamped:
  assumes "set_session_id i m = (b, m')"
  shows "flow_accept f m' = flow_accept f m" and "as_request2 m' = as_request2 m" and "as_event20 m' = as_event20 m"
proof -
  obtain d' where d: "doc_set_session_id i (msg_doc m) = (b, d')" "m' = Message (msg_set m) d'"
    using assms by (auto simp: set_session_id_def split: prod.splits)
  have same: "iso20_request_of (Message ms x) = fst (doc_request20 x)" "power_delivery_ongoing (Message ms x) = snd (doc_request20 x)"
    for ms and x :: "'a document"
    by (simp_all add: doc_request20_def iso20_request_of_def power_delivery_ongoing_def)
  have "iso20_request_of m' = iso20_request_of m" "power_delivery_ongoing m' = power_delivery_ongoing m"
    unfolding d(2) same doc_request20_set [OF d(1)] using same [of "msg_set m" "msg_doc m"] by simp_all
  moreover have "iso2_request_of m' = iso2_request_of m"
    using iso2_request_of_set [OF d(1), of "msg_set m" "msg_set m"] by (simp add: d(2))
  moreover have "message_payload_type m' = message_payload_type m" by (simp add: d(2) message_payload_type_def)
  moreover note eqs = calculation
  show "flow_accept f m' = flow_accept f m" using eqs by (cases f) (simp_all split: option.split)
  show "as_request2 m' = as_request2 m" "as_event20 m' = as_event20 m" using eqs by (simp_all add: as_request2_def as_event20_def)
qed

section \<open>Logs of a session\<close>

text \<open>Nothing is said behind the one entry of a log that closes.\<close>

definition closes_once :: "('l \<Rightarrow> bool) \<Rightarrow> ('l \<Rightarrow> bool) \<Rightarrow> 'l list \<Rightarrow> bool" where
  "closes_once is_close is_said log \<longleftrightarrow> (\<exists>pre x post. log = pre @ x # post \<and> is_close x
     \<and> \<not> list_ex is_close pre \<and> \<not> list_ex is_said post)"

lemma closes_onceI: "\<not> list_ex is_close log \<Longrightarrow> is_close x \<Longrightarrow> closes_once is_close is_said (log @ [x])"
  unfolding closes_once_def by (intro exI [of _ log] exI [of _ x] exI [of _ "[]"]) simp

lemma closes_once_snoc:
  assumes "closes_once is_close is_said log" and "\<not> is_said x"
  shows "closes_once is_close is_said (log @ [x])"
proof -
  obtain pre y post where "log = pre @ y # post" "is_close y" "\<not> list_ex is_close pre" "\<not> list_ex is_said post"
    using assms(1) by (auto simp: closes_once_def)
  then show ?thesis unfolding closes_once_def using assms(2)
    by (intro exI [of _ pre] exI [of _ y] exI [of _ "post @ [x]"]) simp
qed

section \<open>Properties\<close>

text \<open>
  The flow answers a message the way its dry run foretells and moves only on acceptance: what is accepted
  is a request, of the main message set or of the set of the selected service, and a refused message, be it a
  response, of a foreign set or out of order, leaves the flow unchanged. A finished flow accepts nothing.
\<close>

lemma flow_accept_contract:
  "fst (flow_accept f m) = flow_permits f m
   \<and> (flow_permits f m \<noteq> Inr () \<longrightarrow> snd (flow_accept f m) = f)
   \<and> (flow_permits f m = Inr () \<longrightarrow> is_request m \<and> \<not> flow_is_finished f
        \<and> (\<forall>s. f = Flow_Iso20 s \<longrightarrow> iso20_admits s (message_payload_type m)))"
proof (cases "permitted f m")
  case True
  then have "\<forall>s. f = Flow_Iso20 s \<longrightarrow> iso20_admits s (message_payload_type m)" by (auto elim: flow_permittedE)
  then show ?thesis using True flow_accept_permits [of f m] flow_permitted_request [of f m] flow.finished_refuses [of f m] by (auto simp: permitted_def)
next
  case False
  then show ?thesis using flow_accept_permits [of f m] flow_refused_unchanged [of f m] by (auto simp: permitted_def)
qed

definition sample_stop :: "nat msg" where
  "sample_stop = of_doc (Doc_Iso20 (Cm_SessionStopReq sample_header CS20_Terminate 0))"

lemma flow_accept_contract_witness:
  "is_request sample_stop \<and> snd (flow_accept (Flow_Iso20 iso20_new) sample_stop) = Flow_Iso20 iso20_new"
proof -
  have "flow_permits (Flow_Iso20 sample20_dc_end) sample_stop = Inr ()"
    and "flow_permits (Flow_Iso20 iso20_new) sample_stop \<noteq> Inr ()"
    by (simp_all add: sample_stop_def iso20_request_of_def iso20_permits_def iso20_table_defs iso20_new_def sample20_dc_end_def
        iso20_admits_def message_payload_type_def)
  then show ?thesis
    using flow_accept_contract [of "Flow_Iso20 sample20_dc_end" sample_stop]
      flow_accept_contract [of "Flow_Iso20 iso20_new" sample_stop] by blast
qed

text \<open>
  No configured budget reaches the isolation test or the pre-charge: in these phases the loop is bounded by
  the standard's figure whatever the deployment overrides, for either role and generation.
\<close>

lemma safety_budget_fixed:
  assumes "is_dc_safety_phase f"
  shows "flow_loop_timeout f role budgets = flow_loop_timeout f role \<lparr>lb_authorization = None, lb_ongoing = None\<rparr>
    \<and> flow_loop_timeout f role budgets \<noteq> None"
  using assms
  by (cases f; cases role)
    (auto simp: flow_loop_timeout_def iso2_loop_timeout_def iso20_loop_timeout_def iso2_phase_loop_timeout_def
      iso20_phase_loop_timeout_def)

lemma safety_budget_fixed_witness:
  "flow_loop_timeout (Flow_Iso2 ((iso2_new Tls)\<lparr>s2_phase := P2_CableCheck\<rparr>)) Secc
     \<lparr>lb_authorization = Some 1, lb_ongoing = Some 1\<rparr> \<noteq> None"
  by (rule safety_budget_fixed [THEN conjunct2]) simp

end
