(* ===== verification/Conn.thy ===== *)
theory Conn
  imports Message Prelude
begin

text \<open>
  The sans-I/O connection of \<open>src/src/session/conn.rs\<close>: bytes in, frames queued, messages out, bytes
  to send. Its operations change the state also when they fail, so each returns its result beside the
  state it leaves. The queues are lists, the 32-bit counter of ignored frames a natural number that
  stops at its maximum.
\<close>

section \<open>Data\<close>

definition MAX_PENDING_FRAMES :: nat where
  "MAX_PENDING_FRAMES = 4"

definition U32_MAX :: nat where
  "U32_MAX = 2 ^ 32 - 1"

record connection =
  c_protocol :: "protocol option"
  c_max_payload_len :: nat
  c_rx :: bytes
  c_frames :: "(payload_type \<times> bytes) list"
  c_max_pending :: nat
  c_ignored :: nat
  c_tx :: bytes

datatype connection_error =
    Framing v2gtp_error
  | Message_Error message_error
  | Overflow nat
  | TooManyFrames nat

section \<open>Operations\<close>

definition conn_with_limits :: "nat \<Rightarrow> nat \<Rightarrow> connection" where
  "conn_with_limits max_payload max_pending =
     \<lparr>c_protocol = None, c_max_payload_len = max_payload, c_rx = [], c_frames = [],
      c_max_pending = max max_pending 1, c_ignored = 0, c_tx = []\<rparr>"

definition conn_with_limit :: "nat \<Rightarrow> connection" where
  "conn_with_limit max_payload = conn_with_limits max_payload MAX_PENDING_FRAMES"

definition conn_new :: connection where
  "conn_new = conn_with_limit MAX_EXI_PAYLOAD_LEN"

definition conn_set_protocol :: "protocol \<Rightarrow> connection \<Rightarrow> connection" where
  "conn_set_protocol p c = c\<lparr>c_protocol := Some p\<rparr>"

text \<open>The loop of \<open>receive\<close>: \<open>Inr ()\<close> is its \<open>break\<close>.\<close>

function receive_loop :: "connection \<Rightarrow> (connection_error + unit) \<times> connection" where
  "receive_loop c =
     (case split_frame (c_rx c) (c_max_payload_len c) of
        Inr (header, payload, rest) \<Rightarrow>
          if length (c_frames c) \<ge> c_max_pending c
          then (Inl (TooManyFrames (c_max_pending c)), c\<lparr>c_rx := [], c_frames := []\<rparr>)
          else receive_loop (c\<lparr>c_frames := c_frames c @ [(payload_type header, payload)], c_rx := rest\<rparr>)
      | Inl e \<Rightarrow>
          if e = Incomplete then (Inr (), c) else (Inl (Framing e), c\<lparr>c_rx := []\<rparr>))"
  by pat_completeness auto
termination
  by (relation "measure (\<lambda>c. length (c_rx c))") (auto dest: split_frame_Inr(1))

declare receive_loop.simps [simp del]

definition conn_receive :: "bytes \<Rightarrow> connection \<Rightarrow> (connection_error + unit) \<times> connection" where
  "conn_receive data c =
     (case receive_loop (c\<lparr>c_rx := c_rx c @ data\<rparr>) of
        (Inl e, c) \<Rightarrow> (Inl e, c)
      | (Inr _, c) \<Rightarrow>
          let ceiling = saturating_add (c_max_payload_len c) HEADER_LEN in
          if length (c_rx c) > ceiling then (Inl (Overflow ceiling), c\<lparr>c_rx := []\<rparr>)
          else (Inr (), c))"

definition conn_next_frame :: "connection \<Rightarrow> (payload_type \<times> bytes) option \<times> connection" where
  "conn_next_frame c =
     (case c_frames c of [] \<Rightarrow> (None, c) | f # fs \<Rightarrow> (Some f, c\<lparr>c_frames := fs\<rparr>))"

definition conn_reset_input :: "connection \<Rightarrow> connection" where
  "conn_reset_input c = c\<lparr>c_rx := [], c_frames := []\<rparr>"

definition conn_reset :: "connection \<Rightarrow> connection" where
  "conn_reset c = (conn_reset_input c)\<lparr>c_tx := []\<rparr>"

fun set_aside :: "message_error \<Rightarrow> bool" where
  "set_aside (NotAMessage _) = True"
| "set_aside (NotForThisSession _ _) = True"
| "set_aside _ = False"

function conn_next_message :: "'d codecs \<Rightarrow> connection \<Rightarrow> (connection_error + 'd message option) \<times> connection" where
  "conn_next_message cs c =
     (case conn_next_frame c of
        (None, c) \<Rightarrow> (Inr None, c)
      | (Some (t, payload), c) \<Rightarrow>
          (case message_decode cs (c_protocol c) t payload of
             Inr m \<Rightarrow> (Inr (Some m), c)
           | Inl e \<Rightarrow>
               if set_aside e
               then conn_next_message cs (c\<lparr>c_ignored := min (c_ignored c + 1) U32_MAX\<rparr>)
               else (Inl (Message_Error e), conn_reset_input c)))"
  by pat_completeness auto
termination
  by (relation "measure (\<lambda>(cs, c). length (c_frames c))") (auto simp: conn_next_frame_def split: list.splits)

declare conn_next_message.simps [simp del]

definition conn_send_frame :: "payload_type \<Rightarrow> bytes \<Rightarrow> connection \<Rightarrow> (connection_error + unit) \<times> connection" where
  "conn_send_frame t payload c =
     (if length payload > c_max_payload_len c then (Inl (Overflow (c_max_payload_len c)), c)
      else
        (case write_frame t payload (replicate (HEADER_LEN + length payload) 0) of
           Inl e \<Rightarrow> (Inl (Framing e), c)
         | Inr (n, frame) \<Rightarrow> (Inr (), c\<lparr>c_tx := c_tx c @ take n frame\<rparr>)))"

definition conn_send :: "'d codecs \<Rightarrow> 'd message \<Rightarrow> connection \<Rightarrow> (connection_error + unit) \<times> connection" where
  "conn_send cs m c =
     (case message_encode cs m of
        Inl e \<Rightarrow> (Inl (Message_Error e), c)
      | Inr (t, payload) \<Rightarrow> conn_send_frame t payload c)"

definition conn_take_transmit :: "connection \<Rightarrow> bytes \<times> connection" where
  "conn_take_transmit c = (c_tx c, c\<lparr>c_tx := []\<rparr>)"

section \<open>The receive loop\<close>

definition conn_inv :: "connection \<Rightarrow> bool" where
  "conn_inv c \<longleftrightarrow> 1 \<le> c_max_pending c \<and> length (c_frames c) \<le> c_max_pending c
     \<and> (c_rx c = [] \<or> split_frame (c_rx c) (c_max_payload_len c) = Inl Incomplete)
     \<and> c_max_payload_len c + HEADER_LEN \<le> usize_max"

lemma receive_loop_frame:
  assumes "split_frame (c_rx c) (c_max_payload_len c) = Inr (h, p, rest)" and "length (c_frames c) < c_max_pending c"
  shows "receive_loop c = receive_loop (c\<lparr>c_frames := c_frames c @ [(payload_type h, p)], c_rx := rest\<rparr>)"
  using assms by (subst receive_loop.simps) simp

lemma receive_loop_stop:
  assumes "split_frame (c_rx c) (c_max_payload_len c) = Inl Incomplete"
  shows "receive_loop c = (Inr (), c)"
  using assms by (subst receive_loop.simps) simp

lemma receive_loop_result:
  assumes "receive_loop c = (res, c')" and "length (c_frames c) \<le> c_max_pending c"
  shows "length (c_frames c') \<le> c_max_pending c' \<and> c_max_payload_len c' = c_max_payload_len c
     \<and> c_max_pending c' = c_max_pending c \<and> c_protocol c' = c_protocol c \<and> c_tx c' = c_tx c
     \<and> c_ignored c' = c_ignored c
     \<and> (case res of Inr _ \<Rightarrow> split_frame (c_rx c') (c_max_payload_len c') = Inl Incomplete | Inl _ \<Rightarrow> c_rx c' = [])"
  using assms
proof (induction c rule: receive_loop.induct)
  case (1 c)
  show ?case
  proof (cases "split_frame (c_rx c) (c_max_payload_len c)")
    case (Inl e)
    then show ?thesis using "1.prems" by (auto simp: receive_loop.simps [of c] split: if_splits)
  next
    case (Inr f)
    obtain h p rest where f: "f = (h, p, rest)" by (cases f)
    show ?thesis
    proof (cases "length (c_frames c) \<ge> c_max_pending c")
      case True
      then show ?thesis using "1.prems" Inr f by (auto simp: receive_loop.simps [of c])
    next
      case False
      let ?c = "c\<lparr>c_frames := c_frames c @ [(payload_type h, p)], c_rx := rest\<rparr>"
      have "receive_loop ?c = (res, c')" using "1.prems"(1) receive_loop_frame [of c h p rest] Inr f False by simp
      then show ?thesis using "1.IH" [OF Inr f [symmetric] refl False] False by simp
    qed
  qed
qed

lemma incomplete_bounded:
  assumes "split_frame rx limit = Inl Incomplete"
  shows "length rx < limit + HEADER_LEN \<or> length rx < HEADER_LEN"
  using assms
  by (auto simp: split_frame_def header_decode_def Let_def ebind_eq_Inl HEADER_LEN_def split: if_splits)

text \<open>The ceiling check behind the loop never fires.\<close>

lemma conn_receive_eq:
  assumes "conn_inv c"
  shows "conn_receive data c = receive_loop (c\<lparr>c_rx := c_rx c @ data\<rparr>)"
proof -
  obtain res c' where r: "receive_loop (c\<lparr>c_rx := c_rx c @ data\<rparr>) = (res, c')" by fastforce
  note out = receive_loop_result [OF r]
  show ?thesis
  proof (cases res)
    case (Inr u)
    then have "split_frame (c_rx c') (c_max_payload_len c) = Inl Incomplete" "c_max_payload_len c' = c_max_payload_len c"
      using out assms by (auto simp: conn_inv_def)
    then have "\<not> length (c_rx c') > saturating_add (c_max_payload_len c') HEADER_LEN"
      using incomplete_bounded assms by (fastforce simp: saturating_add_def conn_inv_def)
    then show ?thesis using r Inr by (simp add: conn_receive_def)
  qed (simp add: conn_receive_def r)
qed

lemma conn_receive_inv:
  assumes "conn_inv c" and "conn_receive data c = (res, c')"
  shows "conn_inv c'"
  using receive_loop_result [of "c\<lparr>c_rx := c_rx c @ data\<rparr>" res c'] assms
  by (auto simp: conn_receive_eq conn_inv_def split: sum.splits)

lemma conn_new_inv: "mp + HEADER_LEN \<le> usize_max \<Longrightarrow> conn_inv (conn_with_limits mp n)"
  by (simp add: conn_inv_def conn_with_limits_def)

section \<open>Chunking\<close>

lemma receive_loop_append:
  "receive_loop (c\<lparr>c_rx := c_rx c @ ys\<rparr>) =
     (case receive_loop c of
        (Inl e, c') \<Rightarrow> (Inl e, c')
      | (Inr _, c') \<Rightarrow> receive_loop (c'\<lparr>c_rx := c_rx c' @ ys\<rparr>))"
proof (induction c rule: receive_loop.induct)
  case (1 c)
  note app = v2gtp.verdict_append [of "c_rx c" "c_max_payload_len c" ys]
  show ?case
  proof (cases "split_frame (c_rx c) (c_max_payload_len c)")
    case (Inl e)
    show ?thesis
    proof (cases "e = Incomplete")
      case False
      then have "split_frame (c_rx c @ ys) (c_max_payload_len c) = Inl e" using app Inl by simp
      then show ?thesis using Inl False by (subst (1 2) receive_loop.simps) simp
    qed (use Inl in \<open>simp add: receive_loop_stop\<close>)
  next
    case (Inr f)
    obtain h p rest where f: "f = (h, p, rest)" by (cases f)
    have long: "split_frame (c_rx c @ ys) (c_max_payload_len c) = Inr (h, p, rest @ ys)" using app Inr f by simp
    show ?thesis
    proof (cases "length (c_frames c) \<ge> c_max_pending c")
      case True
      then show ?thesis using Inr f long by (subst (1 2) receive_loop.simps) simp
    next
      case False
      let ?c = "c\<lparr>c_frames := c_frames c @ [(payload_type h, p)], c_rx := rest\<rparr>"
      have "receive_loop c = receive_loop ?c" using Inr f False by (intro receive_loop_frame) simp_all
      moreover have "receive_loop (c\<lparr>c_rx := c_rx c @ ys\<rparr>) = receive_loop (?c\<lparr>c_rx := c_rx ?c @ ys\<rparr>)"
        using long False by (subst receive_loop_frame [of _ h p "rest @ ys"]) simp_all
      ultimately show ?thesis using "1.IH" [OF Inr f [symmetric] refl False] by simp
    qed
  qed
qed

lemma conn_receive_chunks:
  assumes "conn_inv c"
  shows "conn_receive (xs @ ys) c =
     (case conn_receive xs c of (Inl e, c') \<Rightarrow> (Inl e, c') | (Inr _, c') \<Rightarrow> conn_receive ys c')"
proof -
  obtain res c' where r: "conn_receive xs c = (res, c')" by fastforce
  have "conn_receive (xs @ ys) c =
      (case receive_loop (c\<lparr>c_rx := c_rx c @ xs\<rparr>) of
        (Inl e, c') \<Rightarrow> (Inl e, c')
      | (Inr _, c') \<Rightarrow> receive_loop (c'\<lparr>c_rx := c_rx c' @ ys\<rparr>))"
    using receive_loop_append [of "c\<lparr>c_rx := c_rx c @ xs\<rparr>" ys] by (simp add: conn_receive_eq [OF assms])
  then show ?thesis
    using r conn_receive_inv [OF assms r] by (cases res) (simp_all add: conn_receive_eq assms)
qed

section \<open>What one side sends the other receives\<close>

definition frame_bytes :: "payload_type \<times> bytes \<Rightarrow> bytes" where
  "frame_bytes f = to_bytes \<lparr>payload_type = fst f, payload_len = of_nat (length (snd f))\<rparr> @ snd f"

definition sendable :: "nat \<Rightarrow> payload_type \<times> bytes \<Rightarrow> bool" where
  "sendable limit f \<longleftrightarrow> wf_payload_type (fst f) \<and> length (snd f) < 2 ^ 32 \<and> length (snd f) \<le> limit"

lemma conn_send_frame_bytes:
  assumes "length payload < 2 ^ 32" and "length payload \<le> c_max_payload_len c"
  shows "conn_send_frame t payload c = (Inr (), c\<lparr>c_tx := c_tx c @ frame_bytes (t, payload)\<rparr>)"
proof (cases "write_frame t payload (replicate (HEADER_LEN + length payload) 0)")
  case (Inl e)
  then show ?thesis using write_frame_error [OF Inl] assms(1) by simp
next
  case (Inr r)
  obtain n out where r: "r = (n, out)" by fastforce
  then show ?thesis using Inr write_frame_bytes(4) [of t payload _ n out] assms(2)
    by (simp add: conn_send_frame_def frame_bytes_def)
qed

lemma receive_loop_frames:
  assumes "list_all (sendable (c_max_payload_len c)) fs"
    and "length (c_frames c) + length fs \<le> c_max_pending c"
    and "split_frame tail (c_max_payload_len c) = Inl Incomplete"
  shows "receive_loop (c\<lparr>c_rx := concat (map frame_bytes fs) @ tail\<rparr>) =
     (Inr (), c\<lparr>c_frames := c_frames c @ fs, c_rx := tail\<rparr>)"
  using assms
proof (induction fs arbitrary: c)
  case Nil
  then show ?case by (simp add: receive_loop_stop)
next
  case (Cons f fs)
  obtain t p where f: "f = (t, p)" by fastforce
  let ?h = "\<lparr>payload_type = t, payload_len = of_nat (length p)\<rparr>"
  let ?rest = "concat (map frame_bytes fs) @ tail"
  let ?c = "c\<lparr>c_frames := c_frames c @ [f]\<rparr>"
  have "split_frame (frame_bytes f @ ?rest) (c_max_payload_len c) = Inr (?h, p, ?rest)"
    using Cons.prems(1) split_frame_written [of t p "c_max_payload_len c" ?rest]
    by (simp add: f frame_bytes_def sendable_def)
  then have "receive_loop (c\<lparr>c_rx := frame_bytes f @ ?rest\<rparr>) = receive_loop (?c\<lparr>c_rx := ?rest\<rparr>)"
    using Cons.prems(2) by (subst receive_loop_frame [of _ ?h p ?rest]) (simp_all add: f)
  also have "\<dots> = (Inr (), ?c\<lparr>c_frames := c_frames ?c @ fs, c_rx := tail\<rparr>)"
    using Cons.prems by (intro Cons.IH) simp_all
  finally show ?case by simp
qed

fun send_frames :: "(payload_type \<times> bytes) list \<Rightarrow> connection \<Rightarrow> connection" where
  "send_frames [] c = c"
| "send_frames ((t, p) # fs) c = send_frames fs (snd (conn_send_frame t p c))"

lemma send_frames_tx:
  "list_all (sendable (c_max_payload_len c)) fs \<Longrightarrow>
     send_frames fs c = c\<lparr>c_tx := c_tx c @ concat (map frame_bytes fs)\<rparr>"
proof (induction fs c rule: send_frames.induct)
  case (2 t p fs c)
  then have "conn_send_frame t p c = (Inr (), c\<lparr>c_tx := c_tx c @ frame_bytes (t, p)\<rparr>)"
    by (intro conn_send_frame_bytes) (simp_all add: sendable_def)
  then show ?case using 2 by simp
qed simp

section \<open>Messages\<close>

text \<open>\<open>next_message\<close> passes over frames of other sessions and counts them.\<close>

lemma conn_upd_swap: "c\<lparr>c_ignored := x, c_frames := y\<rparr> = c\<lparr>c_frames := y, c_ignored := x\<rparr>"
  by (cases c) simp

lemma conn_next_message_skip:
  assumes "list_all (\<lambda>(t, p). \<not> belongs_to t (c_protocol c)) skipped"
  shows "conn_next_message cs (c\<lparr>c_frames := skipped @ fs\<rparr>) =
     conn_next_message cs (c\<lparr>c_frames := fs, c_ignored := (if skipped = [] then c_ignored c
        else min (c_ignored c + length skipped) U32_MAX)\<rparr>)"
  using assms
proof (induction skipped arbitrary: c)
  case (Cons f skipped)
  obtain t p where f: "f = (t, p)" by fastforce
  obtain e where e: "message_decode cs (c_protocol c) t p = Inl e" "set_aside e"
    using message_decode_ignored [of cs "c_protocol c" t p] Cons.prems f by auto
  let ?c = "c\<lparr>c_ignored := min (c_ignored c + 1) U32_MAX\<rparr>"
  have "conn_next_message cs (c\<lparr>c_frames := f # skipped @ fs\<rparr>) = conn_next_message cs (?c\<lparr>c_frames := skipped @ fs\<rparr>)"
    using e conn_next_message.simps [of cs "c\<lparr>c_frames := f # skipped @ fs\<rparr>"]
    by (simp add: conn_next_frame_def f conn_upd_swap)
  also have "\<dots> = conn_next_message cs (?c\<lparr>c_frames := fs, c_ignored := (if skipped = [] then c_ignored ?c
        else min (c_ignored ?c + length skipped) U32_MAX)\<rparr>)"
    using Cons.prems by (intro Cons.IH) simp
  also have "(if skipped = [] then c_ignored ?c else min (c_ignored ?c + length skipped) U32_MAX) =
      min (c_ignored c + length (f # skipped)) U32_MAX" by (cases skipped) (auto simp: min_def)
  finally show ?case by simp
qed simp

lemma conn_next_message_inv:
  assumes "conn_inv c" and "conn_next_message cs c = (res, c')"
  shows "conn_inv c' \<and> length (c_frames c') \<le> length (c_frames c)"
  using assms
proof (induction cs c rule: conn_next_message.induct)
  case (1 cs c)
  show ?case
  proof (cases "c_frames c")
    case Nil
    then show ?thesis using "1.prems" by (auto simp: conn_next_message.simps [of cs c] conn_next_frame_def)
  next
    case (Cons f fs)
    obtain t p where f: "f = (t, p)" by fastforce
    let ?c = "c\<lparr>c_frames := fs\<rparr>"
    have nf: "conn_next_frame c = (Some (t, p), ?c)" by (simp add: conn_next_frame_def Cons f)
    have inv: "conn_inv (?c\<lparr>c_ignored := i\<rparr>)" "conn_inv ?c" "conn_inv (conn_reset_input ?c)" for i
      using "1.prems"(1) Cons by (auto simp: conn_inv_def conn_reset_input_def)
    show ?thesis
    proof (cases "message_decode cs (c_protocol ?c) t p")
      case (Inr m)
      then show ?thesis using "1.prems"(2) nf inv Cons by (auto simp: conn_next_message.simps [of cs c])
    next
      case (Inl e)
      show ?thesis
      proof (cases "set_aside e")
        case True
        then have "conn_next_message cs (?c\<lparr>c_ignored := min (c_ignored ?c + 1) U32_MAX\<rparr>) = (res, c')"
          using "1.prems"(2) nf Inl by (simp add: conn_next_message.simps [of cs c])
        then show ?thesis using "1.IH" [OF nf [symmetric] refl refl Inl True inv(1)] Cons by fastforce
      next
        case False
        then show ?thesis using "1.prems"(2) nf inv Inl Cons
          by (auto simp: conn_next_message.simps [of cs c] conn_reset_input_def)
      qed
    qed
  qed
qed

section \<open>Streams of chunks\<close>

text \<open>A driver hands over what the socket gives it, and stops at the first error.\<close>

fun receive_chunks :: "bytes list \<Rightarrow> connection \<Rightarrow> (connection_error + unit) \<times> connection" where
  "receive_chunks [] c = (Inr (), c)"
| "receive_chunks (x # xs) c =
     (case conn_receive x c of (Inl e, c') \<Rightarrow> (Inl e, c') | (Inr _, c') \<Rightarrow> receive_chunks xs c')"

lemma split_frame_nil [simp]: "split_frame [] limit = Inl Incomplete"
  by (simp add: split_frame_def header_decode_def HEADER_LEN_def)

lemma conn_receive_nothing: "conn_inv c \<Longrightarrow> conn_receive [] c = (Inr (), c)"
proof -
  assume inv: "conn_inv c"
  then have "split_frame (c_rx c) (c_max_payload_len c) = Inl Incomplete"
    by (auto simp: conn_inv_def)
  then show ?thesis by (simp add: conn_receive_eq [OF inv] receive_loop_stop)
qed

lemma receive_chunks_concat: "conn_inv c \<Longrightarrow> receive_chunks chunks c = conn_receive (concat chunks) c"
proof (induction chunks arbitrary: c)
  case (Cons x xs)
  obtain res c' where r: "conn_receive x c = (res, c')" by fastforce
  then show ?case
    using Cons.IH conn_receive_inv [OF Cons.prems r] conn_receive_chunks [OF Cons.prems, of x "concat xs"]
    by (cases res) simp_all
qed (simp add: conn_receive_nothing)

lemma conn_receive_frames:
  assumes "conn_inv c" and "c_rx c = []" and "list_all (sendable (c_max_payload_len c)) fs"
    and "length (c_frames c) + length fs \<le> c_max_pending c"
  shows "conn_receive (concat (map frame_bytes fs)) c = (Inr (), c\<lparr>c_frames := c_frames c @ fs\<rparr>)"
  using receive_loop_frames [OF assms(3,4) split_frame_nil] assms(2) by (simp add: conn_receive_eq [OF assms(1)])

text \<open>What the sessions built on a connection use of it.\<close>

lemma conn_send_effect:
  assumes "conn_send cs m c = (r, c')"
  obtains tx where "c' = c\<lparr>c_tx := tx\<rparr>"
proof -
  have "c' = c\<lparr>c_tx := c_tx c'\<rparr>"
    using assms by (auto simp: conn_send_def conn_send_frame_def split: sum.splits if_splits)
  then show thesis by (rule that)
qed

lemma conn_inv_tx [simp]: "conn_inv (c\<lparr>c_tx := tx\<rparr>) = conn_inv c" "conn_inv (conn_set_protocol p c) = conn_inv c"
  "conn_inv (c\<lparr>c_tx := tx, c_protocol := q\<rparr>) = conn_inv c"
  by (simp_all add: conn_inv_def conn_set_protocol_def)

lemma conn_inv_reset: "conn_inv c \<Longrightarrow> conn_inv (conn_reset_input c)"
  by (simp add: conn_inv_def conn_reset_input_def)

lemma conn_next_message_frames:
  "conn_next_message cs c = (Inr (Some m), c') \<Longrightarrow> length (c_frames c') < length (c_frames c)"
proof (induction cs c rule: conn_next_message.induct)
  case (1 cs c)
  show ?case
  proof (cases "c_frames c")
    case Nil
    then show ?thesis using "1.prems" by (simp add: conn_next_message.simps [of cs c] conn_next_frame_def)
  next
    case (Cons f fs)
    obtain t payload where f: "f = (t, payload)" by fastforce
    have nf: "conn_next_frame c = (Some (t, payload), c\<lparr>c_frames := fs\<rparr>)" using Cons f by (simp add: conn_next_frame_def)
    show ?thesis
    proof (cases "message_decode cs (c_protocol c) t payload")
      case (Inr m')
      then show ?thesis using "1.prems" Cons nf by (auto simp: conn_next_message.simps [of cs c])
    next
      case (Inl e)
      then have "set_aside e" and "conn_next_message cs (c\<lparr>c_frames := fs, c_ignored := min (c_ignored c + 1) U32_MAX\<rparr>) = (Inr (Some m), c')"
        using "1.prems" nf by (auto simp: conn_next_message.simps [of cs c] split: if_splits)
      then show ?thesis using "1.IH" [OF nf [symmetric] refl refl] Inl Cons by fastforce
    qed
  qed
qed

lemma conn_next_message_protocol: "conn_next_message cs c = (r, c') \<Longrightarrow> c_protocol c' = c_protocol c"
proof (induction cs c rule: conn_next_message.induct)
  case (1 cs c)
  obtain fr c1 where nf: "conn_next_frame c = (fr, c1)" by fastforce
  then have p: "c_protocol c1 = c_protocol c" by (auto simp: conn_next_frame_def split: list.splits)
  show ?case
  proof (cases fr)
    case None
    then show ?thesis using "1.prems" nf p by (simp add: conn_next_message.simps [of cs c])
  next
    case (Some tp)
    obtain t pl where tp: "tp = (t, pl)" by fastforce
    show ?thesis
    proof (cases "message_decode cs (c_protocol c1) t pl")
      case (Inl e)
      then show ?thesis
        using "1.prems" nf p Some tp "1.IH" [OF nf [symmetric, unfolded Some tp] refl refl Inl]
        by (auto simp: conn_next_message.simps [of cs c] conn_reset_input_def split: if_splits)
    qed (use "1.prems" nf p Some tp in \<open>simp add: conn_next_message.simps [of cs c]\<close>)
  qed
qed

lemma conn_receive_protocol: "conn_inv c \<Longrightarrow> conn_receive data c = (r, c') \<Longrightarrow> c_protocol c' = c_protocol c"
  using receive_loop_result [of "c\<lparr>c_rx := c_rx c @ data\<rparr>" r c'] by (simp add: conn_receive_eq conn_inv_def)

lemma conn_message_crosses:
  assumes "conn_send cs m a = (Inr (), a')" and "c_tx a = []" and "concat chunks = fst (conn_take_transmit a')"
    and "conn_inv b" and "c_rx b = []" and "c_max_payload_len b = c_max_payload_len a"
    and "length (c_frames b) < c_max_pending b" and "list_all (\<lambda>(t, p). \<not> belongs_to t (c_protocol b)) (c_frames b)"
    and "speaks (msg_set m) (c_protocol b)" and "compiled cs (msg_set m)"
    and trip: "\<And>bs. to_vec cs (msg_set m) (msg_doc m) = Inr bs \<Longrightarrow> from_bytes cs (msg_set m) bs = Inr (msg_doc m)"
    and root: "\<And>bs. to_vec cs (msg_set m) (msg_doc m) = Inr bs \<Longrightarrow> msg_set m = M_AppProtocolRes \<Longrightarrow>
        isl (from_bytes cs M_AppProtocolReq bs)"
  shows "\<exists>b' i. receive_chunks chunks b = (Inr (), b')
    \<and> conn_next_message cs b' = (Inr (Some m), b\<lparr>c_frames := [], c_ignored := i\<rparr>)"
proof -
  from assms(1) obtain t bs where enc: "message_encode cs m = Inr (t, bs)" and snd: "conn_send_frame t bs a = (Inr (), a')"
    by (auto simp: conn_send_def split: sum.splits)
  then have vec: "to_vec cs (msg_set m) (msg_doc m) = Inr bs" and t: "t = set_payload_type (msg_set m)"
    by (auto simp: message_encode_def message_payload_type_def split: sum.splits)
  have len: "length bs \<le> c_max_payload_len a" "length bs < 2 ^ 32"
    using snd by (auto simp: conn_send_frame_def write_frame_def split: if_splits)
  then have tx: "c_tx a' = frame_bytes (t, bs)" using conn_send_frame_bytes [of bs a t] snd assms(2) by auto
  have "sendable (c_max_payload_len b) (t, bs)" using len t assms(6) payload_type_wf by (simp add: sendable_def)
  then have rc: "receive_chunks chunks b = (Inr (), b\<lparr>c_frames := c_frames b @ [(t, bs)]\<rparr>)"
    using conn_receive_frames [OF assms(4,5), of "[(t, bs)]"] assms(3,4,7) tx
    by (simp add: receive_chunks_concat conn_take_transmit_def)
  have dec: "message_decode cs (c_protocol b) t bs = Inr m"
    using message_encode_decode [OF assms(9,10) enc trip [OF vec]] root [OF vec] by (auto simp: isl_def)
  define i where "i = (if c_frames b = [] then c_ignored b else min (c_ignored b + length (c_frames b)) U32_MAX)"
  have "conn_next_message cs (b\<lparr>c_frames := c_frames b @ [(t, bs)]\<rparr>) =
      conn_next_message cs (b\<lparr>c_frames := [(t, bs)], c_ignored := i\<rparr>)"
    using conn_next_message_skip [OF assms(8), of cs "[(t, bs)]"] by (simp add: i_def)
  also have "\<dots> = (Inr (Some m), b\<lparr>c_frames := [], c_ignored := i\<rparr>)"
    by (subst conn_next_message.simps) (simp add: conn_next_frame_def dec)
  finally show ?thesis using rc by auto
qed

section \<open>Properties\<close>

text \<open>
  C26. How the transport cuts the byte stream does not matter: chunks of any size, empty ones too, lead
  to the same frames, the same remainder and the same error as the whole stream at once.
\<close>

theorem conn_chunking:
  assumes "conn_inv c"
  shows "receive_chunks chunks c = conn_receive (concat chunks) c"
  using assms by (rule receive_chunks_concat)

lemma conn_new_ok: "conn_inv conn_new"
  by (simp add: conn_new_def conn_with_limit_def conn_new_inv MAX_EXI_PAYLOAD_LEN_def HEADER_LEN_def usize_max_def)

lemma conn_new_sel [simp]:
  "c_tx conn_new = []" "c_rx conn_new = []" "c_frames conn_new = []" "c_protocol conn_new = None"
  "c_max_pending conn_new = 4" "c_max_payload_len conn_new = 1048576"
  by (simp_all add: conn_new_def conn_with_limit_def conn_with_limits_def MAX_PENDING_FRAMES_def MAX_EXI_PAYLOAD_LEN_def)

theorem conn_chunking_witness:
  "receive_chunks [[0x01], [], [0xFE, 0x80], [0x01, 0, 0, 0, 1, 0x80]] conn_new =
     conn_receive [0x01, 0xFE, 0x80, 0x01, 0, 0, 0, 1, 0x80] conn_new"
  using conn_chunking [OF conn_new_ok, of "[[0x01], [], [0xFE, 0x80], [0x01, 0, 0, 0, 1, 0x80]]"] by simp

text \<open>
  What one side sends, the other receives: the frames queued on a connection, transmitted in chunks
  of any size, arrive complete, in order and unchanged, with nothing left over.
\<close>

lemma conn_wire_roundtrip:
  assumes "list_all (sendable (c_max_payload_len a)) fs" and "c_tx a = []"
    and "conn_inv b" and "c_rx b = []" and "c_max_payload_len b = c_max_payload_len a"
    and "length (c_frames b) + length fs \<le> c_max_pending b"
    and "concat chunks = fst (conn_take_transmit (send_frames fs a))"
  shows "receive_chunks chunks b = (Inr (), b\<lparr>c_frames := c_frames b @ fs\<rparr>)"
  using assms conn_receive_frames [OF assms(3,4), of fs]
  by (simp add: receive_chunks_concat conn_take_transmit_def send_frames_tx)

lemma conn_wire_roundtrip_witness:
  "\<exists>chunks. length chunks = 2 \<and> receive_chunks chunks conn_new =
     (Inr (), conn_new\<lparr>c_frames := [(Part20Main, [0x80, 0x01]), (ManufacturerSpecific 0xA000, [])]\<rparr>)"
proof -
  let ?fs = "[(Part20Main, [0x80, 0x01]), (ManufacturerSpecific 0xA000, [])] :: (payload_type \<times> bytes) list"
  let ?out = "fst (conn_take_transmit (send_frames ?fs conn_new))"
  have "receive_chunks [take 5 ?out, drop 5 ?out] conn_new = (Inr (), conn_new\<lparr>c_frames := c_frames conn_new @ ?fs\<rparr>)"
    by (rule conn_wire_roundtrip [where a = conn_new])
      (simp_all add: conn_new_ok sendable_def wf_payload_type_def from_u16_def)
  then show ?thesis by (intro exI [of _ "[take 5 ?out, drop 5 ?out]"]) simp
qed

text \<open>
  C33. Memory is bounded on any input: a connection keeps its limits whatever bytes arrive, also through
  errors; it never buffers more than one frame's worth of bytes nor queues more frames than configured,
  and after an error the buffer is empty.
\<close>

theorem conn_bounded:
  assumes "conn_inv c" and "conn_receive data c = (res, c')"
  shows "conn_inv c' \<and> length (c_rx c') < c_max_payload_len c + HEADER_LEN \<and> length (c_frames c') \<le> c_max_pending c
     \<and> (isl res \<longrightarrow> c_rx c' = [])"
proof -
  have inv: "conn_inv c'" using conn_receive_inv assms .
  have out: "c_max_payload_len c' = c_max_payload_len c \<and> c_max_pending c' = c_max_pending c
      \<and> (case res of Inr _ \<Rightarrow> split_frame (c_rx c') (c_max_payload_len c') = Inl Incomplete | Inl _ \<Rightarrow> c_rx c' = [])"
    using receive_loop_result [of "c\<lparr>c_rx := c_rx c @ data\<rparr>" res c'] assms conn_receive_eq by (auto simp: conn_inv_def)
  then have "length (c_rx c') < c_max_payload_len c + HEADER_LEN"
    using incomplete_bounded [of "c_rx c'" "c_max_payload_len c'"] by (cases res) (auto simp: HEADER_LEN_def)
  then show ?thesis using inv out by (cases res) (auto simp: conn_inv_def)
qed

theorem conn_bounded_witness: "conn_inv (snd (conn_receive [0x02, 0, 0, 0, 0, 0, 0, 0, 0] conn_new))"
  using conn_bounded [OF conn_new_ok] by (metis prod.collapse)

text \<open>
  C11. A message crosses the wire: sent on one connection, cut into any chunks, it is the next message of
  the connection at the other end, which speaks the same protocol, past any frames of other sessions
  queued before it, which are counted and passed over. The generated codec of the document is assumed to
  read back its own output, and the two handshake documents to be told apart.
\<close>

theorem conn_message_roundtrip:
  assumes "conn_send cs m a = (Inr (), a')" and "c_tx a = []" and "concat chunks = fst (conn_take_transmit a')"
    and "conn_inv b" and "c_rx b = []" and "c_max_payload_len b = c_max_payload_len a"
    and "length (c_frames b) < c_max_pending b" and "list_all (\<lambda>(t, p). \<not> belongs_to t (c_protocol b)) (c_frames b)"
    and "speaks (msg_set m) (c_protocol b)" and "compiled cs (msg_set m)"
    and trip: "\<And>bs. to_vec cs (msg_set m) (msg_doc m) = Inr bs \<Longrightarrow> from_bytes cs (msg_set m) bs = Inr (msg_doc m)"
    and root: "\<And>bs. to_vec cs (msg_set m) (msg_doc m) = Inr bs \<Longrightarrow> msg_set m = M_AppProtocolRes \<Longrightarrow>
        isl (from_bytes cs M_AppProtocolReq bs)"
  shows "\<exists>b' b''. receive_chunks chunks b = (Inr (), b') \<and> conn_next_message cs b' = (Inr (Some m), b'') \<and> c_frames b'' = []"
  using conn_message_crosses [OF assms] by fastforce

definition sample_codecs :: "bytes codecs" where
  "sample_codecs = \<lparr>compiled = (\<lambda>_. True), from_bytes = (\<lambda>ms bs. case bs of [] \<Rightarrow> Inl UnexpectedEnd | b # d \<Rightarrow>
       if (b = 1) = (ms = M_AppProtocolRes) then Inr d else Inl UnknownEventCode),
     to_vec = (\<lambda>ms d. Inr ((if ms = M_AppProtocolRes then 1 else 0) # d))\<rparr>"

theorem conn_message_roundtrip_witness:
  "\<exists>b' b''. receive_chunks [fst (conn_take_transmit (snd (conn_send sample_codecs (Message M_AppProtocolRes [7]) conn_new)))]
      conn_new = (Inr (), b') \<and> conn_next_message sample_codecs b' = (Inr (Some (Message M_AppProtocolRes [7])), b'')"
proof -
  let ?m = "Message M_AppProtocolRes [7] :: bytes message"
  have send: "conn_send sample_codecs ?m conn_new = (Inr (), snd (conn_send sample_codecs ?m conn_new))"
    using conn_send_frame_bytes [of "[1, 7]" conn_new ExiEncodedV2gMessage]
    by (simp add: conn_send_def message_encode_def message_payload_type_def sample_codecs_def)
  have "\<exists>b' b''. receive_chunks [fst (conn_take_transmit (snd (conn_send sample_codecs ?m conn_new)))] conn_new = (Inr (), b')
      \<and> conn_next_message sample_codecs b' = (Inr (Some ?m), b'') \<and> c_frames b'' = []"
    by (rule conn_message_roundtrip [OF send]) (use conn_new_ok in \<open>auto simp: sample_codecs_def\<close>)
  then show ?thesis by blast
qed

end
