(* ===== verification/Secc.thy ===== *)
theory Secc
  imports Flow Conn Timers
begin

text \<open>
  The charging station's side of a session, \<open>src/src/secc.rs\<close>: framing and decoding by \<open>Connection\<close>, the
  handshake, the session identifier, the order of requests by \<open>Flow\<close>, the timers, and the events handed to
  the application. Every operation returns its result and the state it leaves, also when it fails. The
  generated codecs are the parameter \<open>cs\<close>.

  \<open>secc_run\<close> is a station driven in any way by a peer, a clock and an application; its log holds what
  happened: the events surfaced, the answers given, the sessions resumed. The theorems at the end compose the
  layers: whatever bytes arrive, the requests surfaced are a run of the sequencer, so its safety properties
  are properties of the station.
\<close>

section \<open>Data\<close>

record secc_config =
  cfg_protocols :: protocols
  cfg_session_id :: bytes
  cfg_security :: security
  cfg_max_payload_len :: nat
  cfg_max_pending_frames :: nat
  cfg_sequence_timeout :: millis
  cfg_loop_budgets :: loop_budgets
  cfg_iso20_sets :: "iso20_set list"
  cfg_setup_timeout :: millis

definition secc_config_default :: secc_config where
  "secc_config_default =
     \<lparr>cfg_protocols = protocols_from_slice [Iso20, Iso2], cfg_session_id = session_id_NONE, cfg_security = No_Security,
      cfg_max_payload_len = MAX_EXI_PAYLOAD_LEN, cfg_max_pending_frames = MAX_PENDING_FRAMES,
      cfg_sequence_timeout = iso2_SECC_SEQUENCE_TIMEOUT,
      cfg_loop_budgets = \<lparr>lb_authorization = None, lb_ongoing = None\<rparr>, cfg_iso20_sets = Iso20Set_ALL,
      cfg_setup_timeout = iso2_SECC_COMMUNICATION_SETUP_PERFORMANCE_TIME\<rparr>"

datatype refusal = Refusal_Sequence sequence_error | UnknownSession

datatype secc_close_why =
    Close_Normal
  | Close_Paused
  | Close_Timeout timer
  | Close_Refused
  | Close_NoCommonProtocol
  | Close_Fatal

datatype 'x secc_event =
    Ev_ProtocolAgreed protocol
  | Ev_Request "'x msg"
  | Ev_Refused "'x msg" u8 refusal
  | Ev_Overdue "'x msg" u8 string
  | Ev_Closed secc_close_why

record outstanding =
  out_name :: string
  out_refused :: bool
  out_due :: instant

record 'x secc =
  sc_config :: secc_config
  sc_conn :: connection
  sc_timers :: timers
  sc_flow :: "flow option"
  sc_iso20_set :: "iso20_set option"
  sc_events :: "'x secc_event list"
  sc_established :: bool
  sc_outstanding :: "outstanding option"
  sc_phase :: "string option"
  sc_overdue :: "string option"
  sc_closed :: bool

datatype secc_error =
    Secc_Connection connection_error
  | Secc_NotARequest string
  | Secc_NotAResponse string
  | Secc_BeforeHandshake string
  | Secc_HandshakeRepeated
  | Secc_NothingToAnswer string
  | Secc_NoSessionId
  | Secc_WrongResponse string string

section \<open>Small operations\<close>

definition secc_new :: "secc_config \<Rightarrow> 'x secc" where
  "secc_new config =
     \<lparr>sc_config = config, sc_conn = conn_with_limits (cfg_max_payload_len config) (cfg_max_pending_frames config),
      sc_timers = timers_new, sc_flow = None, sc_iso20_set = None, sc_events = [], sc_established = False,
      sc_outstanding = None, sc_phase = None, sc_overdue = None, sc_closed = False\<rparr>"

definition secc_opened :: "instant \<Rightarrow> 'x secc \<Rightarrow> 'x secc" where
  "secc_opened now s =
     s\<lparr>sc_timers := arm (sc_timers s) T_CommunicationSetup now (cfg_setup_timeout (sc_config s))\<rparr>"

definition push_event :: "'x secc_event \<Rightarrow> 'x secc \<Rightarrow> 'x secc" where
  "push_event e s = s\<lparr>sc_events := sc_events s @ [e]\<rparr>"

definition secc_close :: "secc_close_why \<Rightarrow> 'x secc \<Rightarrow> 'x secc" where
  "secc_close why s =
     (if sc_closed s then s
      else push_event (Ev_Closed why) (s\<lparr>sc_closed := True, sc_timers := disarm_all (sc_timers s)\<rparr>))"

definition secc_close_fatal :: "'x secc \<Rightarrow> 'x secc" where
  "secc_close_fatal s =
     (if sc_closed s then s
      else push_event (Ev_Closed Close_Fatal)
        (s\<lparr>sc_closed := True, sc_timers := disarm_all (sc_timers s), sc_conn := conn_reset_input (sc_conn s),
           sc_outstanding := None\<rparr>))"

definition secc_close_after_refusal :: "'x secc \<Rightarrow> 'x secc" where
  "secc_close_after_refusal s =
     (if sc_closed s then s
      else push_event (Ev_Closed Close_Refused) (s\<lparr>sc_closed := True, sc_timers := disarm_all (sc_timers s)\<rparr>))"

definition performance_time :: "'x msg \<Rightarrow> millis" where
  "performance_time m =
     (case iso2_request_of m of
        Some r \<Rightarrow> iso2_performance_time r
      | None \<Rightarrow>
        (case iso20_request_of m of
           Some r \<Rightarrow> iso20_performance_time r
         | None \<Rightarrow> iso2_SECC_MSG_PERFORMANCE_DEFAULT))"

text \<open>
  The indices of \<open>FAILED_UnknownSession\<close> and of \<open>FAILED\<close> in the two schemas.
\<close>

definition unknown_session_code :: "protocol option \<Rightarrow> u8" where
  "unknown_session_code p = (case p of Some Iso2 \<Rightarrow> 7 | Some Iso20 \<Rightarrow> 38 | _ \<Rightarrow> 255)"

definition failed_code :: "protocol option \<Rightarrow> u8" where
  "failed_code p = (case p of Some Iso2 \<Rightarrow> 4 | Some Iso20 \<Rightarrow> 21 | _ \<Rightarrow> 255)"

definition carries_the_session_id :: "'x secc \<Rightarrow> 'x msg \<Rightarrow> bool" where
  "carries_the_session_id s m \<longleftrightarrow>
     (let assigned = cfg_session_id (sc_config s) in
      \<not> session_id_is_none assigned \<and> message_session_id m = Some assigned)"

definition join_session :: "bytes \<Rightarrow> 'x secc \<Rightarrow> 'x secc" where
  "join_session i s = s\<lparr>sc_config := (sc_config s)\<lparr>cfg_session_id := i\<rparr>\<rparr>"

definition secc_resume :: "bytes \<Rightarrow> energy_transfer \<Rightarrow> 'x secc \<Rightarrow> (resume_error + unit) \<times> 'x secc" where
  "secc_resume i t s =
     (case sc_flow s of
        None \<Rightarrow> (Inl NotNegotiated, s)
      | Some f \<Rightarrow>
        (case flow_resume t f of
           (Inl e, f) \<Rightarrow> (Inl e, s\<lparr>sc_flow := Some f\<rparr>)
         | (Inr _, f) \<Rightarrow> (Inr (), join_session i (s\<lparr>sc_flow := Some f\<rparr>))))"

definition enter_phase :: "instant \<Rightarrow> 'x secc \<Rightarrow> 'x secc" where
  "enter_phase now s =
     (case sc_flow s of
        None \<Rightarrow> s
      | Some f \<Rightarrow>
        let phase = flow_phase_name f in
        if sc_phase s = Some phase then s
        else
          let s = s\<lparr>sc_phase := Some phase\<rparr> in
          (case flow_loop_timeout f Secc (cfg_loop_budgets (sc_config s)) of
             Some budget \<Rightarrow> s\<lparr>sc_timers := arm (sc_timers s) T_Ongoing now budget\<rparr>
           | None \<Rightarrow> s\<lparr>sc_timers := disarm (sc_timers s) T_Ongoing\<rparr>))"

definition awaiting_response :: "'x secc \<Rightarrow> bool" where
  "awaiting_response s \<longleftrightarrow> sc_outstanding s \<noteq> None"

definition response_due :: "'x secc \<Rightarrow> instant option" where
  "response_due s = map_option out_due (sc_outstanding s)"

definition secc_poll_event :: "'x secc \<Rightarrow> 'x secc_event option \<times> 'x secc" where
  "secc_poll_event s =
     (case sc_events s of [] \<Rightarrow> (None, s) | e # es \<Rightarrow> (Some e, s\<lparr>sc_events := es\<rparr>))"

definition secc_poll_timeout :: "'x secc \<Rightarrow> instant option" where
  "secc_poll_timeout s = next_deadline (sc_timers s)"

definition secc_take_transmit :: "'x secc \<Rightarrow> bytes \<times> 'x secc" where
  "secc_take_transmit s = (let (out, c) = conn_take_transmit (sc_conn s) in (out, s\<lparr>sc_conn := c\<rparr>))"

section \<open>Reading requests\<close>

text \<open>\<open>self.conn.send(..)?\<close> in an operation of the station.\<close>

definition secc_send :: "'x document codecs \<Rightarrow> 'x msg \<Rightarrow> 'x secc \<Rightarrow> (secc_error + unit) \<times> 'x secc" where
  "secc_send cs m s =
     (case conn_send cs m (sc_conn s) of
        (Inl e, c) \<Rightarrow> (Inl (Secc_Connection e), s\<lparr>sc_conn := c\<rparr>)
      | (Inr _, c) \<Rightarrow> (Inr (), s\<lparr>sc_conn := c\<rparr>))"

text \<open>The handshake arm of \<open>dispatch\<close>.\<close>

definition secc_handshake :: "'x document codecs \<Rightarrow> app_req \<Rightarrow> 'x secc \<Rightarrow> (secc_error + unit) \<times> 'x secc" where
  "secc_handshake cs req s =
     (if sc_flow s \<noteq> None then (Inl Secc_HandshakeRepeated, s)
      else
        let s = s\<lparr>sc_timers := disarm (sc_timers s) T_CommunicationSetup\<rparr>;
            speakable = protocols_retain flow_supports (cfg_protocols (sc_config s));
            agreed = Option.bind (negotiate_with speakable (cfg_iso20_sets (sc_config s)) req)
              (\<lambda>a. map_option (\<lambda>f. (a, f)) (flow_new (ng_protocol a) (cfg_security (sc_config s))))
        in
        (case agreed of
           None \<Rightarrow>
             (case secc_send cs (of_doc (Doc_AppProtocolRes res_reject)) s of
                (Inl e, s) \<Rightarrow> (Inl e, s)
              | (Inr _, s) \<Rightarrow> (Inr (), secc_close Close_NoCommonProtocol s))
         | Some (a, f) \<Rightarrow>
             (case secc_send cs (of_doc (Doc_AppProtocolRes (res_accept a))) s of
                (Inl e, s) \<Rightarrow> (Inl e, s)
              | (Inr _, s) \<Rightarrow>
                (Inr (), push_event (Ev_ProtocolAgreed (ng_protocol a))
                   (s\<lparr>sc_conn := conn_set_protocol (ng_protocol a) (sc_conn s), sc_iso20_set := ng_iso20_set a,
                      sc_flow := Some f\<rparr>)))))"

text \<open>A request that is kept waiting for its answer.\<close>

definition await_answer :: "instant \<Rightarrow> 'x msg \<Rightarrow> bool \<Rightarrow> 'x secc \<Rightarrow> 'x secc" where
  "await_answer now m refused s =
     s\<lparr>sc_outstanding := Some \<lparr>out_name = message_name m, out_refused = refused,
         out_due = instant_add now (performance_time m)\<rparr>\<rparr>"

text \<open>The request was refused by the flow: it is overdue, or out of sequence.\<close>

definition secc_refuse :: "instant \<Rightarrow> 'x msg \<Rightarrow> sequence_error \<Rightarrow> 'x secc \<Rightarrow> 'x secc" where
  "secc_refuse now m e s =
     (let s = await_answer now m True s in
      secc_close_after_refusal
        (case sc_overdue s of
           Some phase \<Rightarrow>
             push_event (Ev_Overdue m (failed_code (c_protocol (sc_conn s))) phase) (s\<lparr>sc_overdue := None\<rparr>)
         | None \<Rightarrow> push_event (Ev_Refused m (se_response_code e) (Refusal_Sequence e)) s))"

definition secc_dispatch :: "'x document codecs \<Rightarrow> instant \<Rightarrow> 'x msg \<Rightarrow> 'x secc \<Rightarrow> (secc_error + unit) \<times> 'x secc" where
  "secc_dispatch cs now m s0 =
     (let s = s0\<lparr>sc_timers := arm (sc_timers s0) T_Sequence now (cfg_sequence_timeout (sc_config s0))\<rparr> in
      case msg_doc m of
        Doc_AppProtocolReq req \<Rightarrow> secc_handshake cs req s
      | _ \<Rightarrow>
        if \<not> is_request m then (Inl (Secc_NotARequest (message_name m)), s)
        else if sc_established s \<and> \<not> carries_the_session_id s m then
          (Inr (), secc_close_after_refusal
             (push_event (Ev_Refused m (unknown_session_code (c_protocol (sc_conn s))) UnknownSession)
               (await_answer now m True s)))
        else
          (case sc_flow s of
             None \<Rightarrow> (Inl (Secc_BeforeHandshake (message_name m)), s)
           | Some f \<Rightarrow>
             (case flow_accept f m of
                (Inr _, f') \<Rightarrow>
                  (Inr (), push_event (Ev_Request m) (await_answer now m False (enter_phase now
                     (s\<lparr>sc_flow := Some f', sc_established := sc_established s \<or> message_name m = ''SessionSetupReq''\<rparr>))))
              | (Inl (Sequence e), f') \<Rightarrow> (Inr (), secc_refuse now m e (s\<lparr>sc_flow := Some f'\<rparr>))
              | (Inl NotARequest, f') \<Rightarrow> (Inl (Secc_NotARequest (message_name m)), s\<lparr>sc_flow := Some f'\<rparr>))))"

text \<open>Dispatching leaves the queue of frames alone, so pumping ends with the queue.\<close>

lemma secc_frames_kept [simp]:
  "c_frames (sc_conn (push_event e s)) = c_frames (sc_conn s)"
  "c_frames (sc_conn (secc_close why s)) = c_frames (sc_conn s)"
  "c_frames (sc_conn (secc_close_after_refusal s)) = c_frames (sc_conn s)"
  "c_frames (sc_conn (await_answer now m r s)) = c_frames (sc_conn s)"
  "c_frames (sc_conn (enter_phase now s)) = c_frames (sc_conn s)"
  by (simp_all add: push_event_def secc_close_def secc_close_after_refusal_def await_answer_def enter_phase_def Let_def
      split: option.splits)

lemma secc_send_frames: "secc_send cs m s = (r, s') \<Longrightarrow> c_frames (sc_conn s') = c_frames (sc_conn s)"
  by (auto simp: secc_send_def conn_send_def conn_send_frame_def split: sum.splits if_splits)

lemma secc_dispatch_frames: "secc_dispatch cs now m s = (r, s') \<Longrightarrow> c_frames (sc_conn s') = c_frames (sc_conn s)"
  by (auto simp: secc_dispatch_def secc_handshake_def secc_refuse_def Let_def conn_set_protocol_def dest!: secc_send_frames
      split: document.splits if_splits option.splits sum.splits prod.splits flow_error.splits)

function secc_pump :: "'x document codecs \<Rightarrow> instant \<Rightarrow> 'x secc \<Rightarrow> (secc_error + unit) \<times> 'x secc" where
  "secc_pump cs now s =
     (if sc_closed s \<or> sc_outstanding s \<noteq> None then (Inr (), s)
      else
        (case conn_next_message cs (sc_conn s) of
           (Inl e, c) \<Rightarrow> (Inl (Secc_Connection e), s\<lparr>sc_conn := c\<rparr>)
         | (Inr None, c) \<Rightarrow> (Inr (), s\<lparr>sc_conn := c\<rparr>)
         | (Inr (Some m), c) \<Rightarrow>
             (case secc_dispatch cs now m (s\<lparr>sc_conn := c\<rparr>) of
                (Inl e, s) \<Rightarrow> (Inl e, s)
              | (Inr _, s) \<Rightarrow> secc_pump cs now s)))"
  by pat_completeness auto
termination
  by (relation "measure (\<lambda>(cs, now, s). length (c_frames (sc_conn s)))")
    (auto dest!: secc_dispatch_frames [OF sym] conn_next_message_frames [OF sym])

declare secc_pump.simps [simp del]

text \<open>An error on the way in ends the session, from \<open>handle_input\<close> and from \<open>respond\<close> alike.\<close>

definition fatal_on_error :: "(secc_error + unit) \<times> 'x secc \<Rightarrow> (secc_error + unit) \<times> 'x secc" where
  "fatal_on_error os = (case os of (Inl e, s) \<Rightarrow> (Inl e, secc_close_fatal s) | (Inr u, s) \<Rightarrow> (Inr u, s))"

definition secc_handle_input :: "'x document codecs \<Rightarrow> instant \<Rightarrow> bytes \<Rightarrow> 'x secc \<Rightarrow> (secc_error + unit) \<times> 'x secc" where
  "secc_handle_input cs now data s =
     (if sc_closed s then (Inr (), s)
      else fatal_on_error
        (case conn_receive data (sc_conn s) of
           (Inl e, c) \<Rightarrow> (Inl (Secc_Connection e), s\<lparr>sc_conn := c\<rparr>)
         | (Inr _, c) \<Rightarrow> secc_pump cs now (s\<lparr>sc_conn := c\<rparr>)))"

section \<open>Answering\<close>

text \<open>What \<open>respond\<close> does once the answer is queued: the session ends or waits for the next request.\<close>

definition after_answer :: "instant \<Rightarrow> 'x secc \<Rightarrow> 'x secc" where
  "after_answer now s =
     (case sc_flow s of
        Some f \<Rightarrow>
          if flow_is_paused f then secc_close Close_Paused s
          else if flow_is_finished f then secc_close Close_Normal s
          else if sc_closed s then s
          else s\<lparr>sc_timers := arm (sc_timers s) T_Sequence now (cfg_sequence_timeout (sc_config s))\<rparr>
      | None \<Rightarrow>
          if sc_closed s then s
          else s\<lparr>sc_timers := arm (sc_timers s) T_Sequence now (cfg_sequence_timeout (sc_config s))\<rparr>)"

text \<open>The part of \<open>respond\<close> that checks, stamps and queues the answer.\<close>

definition secc_answer :: "'x document codecs \<Rightarrow> 'x msg \<Rightarrow> 'x secc \<Rightarrow> (secc_error + unit) \<times> 'x secc" where
  "secc_answer cs response s =
     (if is_request response then (Inl (Secc_NotAResponse (message_name response)), s)
      else
        (case sc_outstanding s of
           None \<Rightarrow> (Inl (Secc_NothingToAnswer (message_name response)), s)
         | Some out \<Rightarrow>
           if \<not> out_refused out \<and> \<not> answers response (out_name out)
           then (Inl (Secc_WrongResponse (out_name out) (message_name response)), s)
           else
             let (stamped, response) = set_session_id (cfg_session_id (sc_config s)) response in
             if stamped \<and> session_id_is_none (cfg_session_id (sc_config s)) then (Inl Secc_NoSessionId, s)
             else
               let s = (if (case message_outcome response of Some out \<Rightarrow> is_failure out | None \<Rightarrow> False)
                        then s\<lparr>sc_flow := map_option flow_failed (sc_flow s)\<rparr> else s) in
               (case secc_send cs response s of
                  (Inl e, s) \<Rightarrow> (Inl e, s)
                | (Inr _, s) \<Rightarrow> (Inr (), s\<lparr>sc_outstanding := None\<rparr>))))"

definition secc_respond :: "'x document codecs \<Rightarrow> instant \<Rightarrow> 'x msg \<Rightarrow> 'x secc \<Rightarrow> (secc_error + unit) \<times> 'x secc" where
  "secc_respond cs now response s =
     (case secc_answer cs response s of
        (Inl e, s) \<Rightarrow> (Inl e, s)
      | (Inr _, s) \<Rightarrow> fatal_on_error (secc_pump cs now (after_answer now s)))"

section \<open>Timeouts\<close>

text \<open>
  The loop of \<open>handle_timeout\<close>. Every round disarms the timer that fired and arms none, so one round for each
  timer is enough; \<open>secc_timeout_done\<close> below shows that no timer is left due.
\<close>

fun secc_timeout_loop :: "nat \<Rightarrow> instant \<Rightarrow> 'x secc \<Rightarrow> 'x secc" where
  "secc_timeout_loop 0 now s = s"
| "secc_timeout_loop (Suc n) now s =
     (case expired (sc_timers s) now of
        (None, ts) \<Rightarrow> s\<lparr>sc_timers := ts\<rparr>
      | (Some t, ts) \<Rightarrow>
        let s = s\<lparr>sc_timers := ts\<rparr> in
        secc_timeout_loop n now
          (if t = T_Ongoing \<and> \<not> sc_closed s then
             s\<lparr>sc_overdue := Some (case sc_flow s of Some f \<Rightarrow> flow_phase_name f | None \<Rightarrow> ''unknown''),
               sc_flow := map_option flow_failed (sc_flow s)\<rparr>
           else secc_close (Close_Timeout t) s))"

definition secc_handle_timeout :: "instant \<Rightarrow> 'x secc \<Rightarrow> 'x secc" where
  "secc_handle_timeout now s = secc_timeout_loop TIMER_COUNT now s"

end
