(* ===== verification/Secc_Safety.thy ===== *)
theory Secc_Safety
  imports Secc
begin

text \<open>
  What the station of theory \<open>Secc\<close> guarantees in every run: it surfaces one request at a time and answers
  each with the response of its exchange, it closes once and says nothing afterwards, and the requests it
  surfaces form a run of the negotiated sequencer.
\<close>

section \<open>What one dispatch can do\<close>

text \<open>The parts of a station that no operation but its own may touch.\<close>

definition keeps :: "'x secc \<Rightarrow> 'x secc \<Rightarrow> bool" where
  "keeps s s' \<longleftrightarrow> sc_config s' = sc_config s \<and> (timers_inv (sc_timers s) \<longrightarrow> timers_inv (sc_timers s'))
     \<and> (conn_inv (sc_conn s) \<longrightarrow> conn_inv (sc_conn s'))"

definition same_session :: "'x secc \<Rightarrow> 'x secc \<Rightarrow> bool" where
  "same_session s s' \<longleftrightarrow> sc_flow s' = sc_flow s \<and> c_protocol (sc_conn s') = c_protocol (sc_conn s)
     \<and> sc_established s' = sc_established s \<and> sc_outstanding s' = sc_outstanding s \<and> sc_closed s' = sc_closed s
     \<and> sc_events s' = sc_events s"

lemma secc_send_effect:
  assumes "secc_send cs m s = (r, s')"
  obtains tx where "s' = s\<lparr>sc_conn := (sc_conn s)\<lparr>c_tx := tx\<rparr>\<rparr>"
proof -
  obtain r' c' where c: "conn_send cs m (sc_conn s) = (r', c')" by fastforce
  obtain tx where "c' = (sc_conn s)\<lparr>c_tx := tx\<rparr>" using c by (rule conn_send_effect)
  then show thesis using assms that [of tx] c by (auto simp: secc_send_def split: sum.splits)
qed

lemma enter_phase_effect:
  "\<exists>ph ts. enter_phase now s = s\<lparr>sc_phase := ph, sc_timers := ts\<rparr> \<and> (timers_inv (sc_timers s) \<longrightarrow> timers_inv ts)"
proof (intro exI conjI)
  show "enter_phase now s = s\<lparr>sc_phase := sc_phase (enter_phase now s), sc_timers := sc_timers (enter_phase now s)\<rparr>"
    and "timers_inv (sc_timers s) \<longrightarrow> timers_inv (sc_timers (enter_phase now s))"
    by (auto simp: enter_phase_def Let_def split: option.splits)
qed

text \<open>
  The ways a dispatch ends when the station is open and waits for a request: an error, the two ends of the
  handshake, a refusal that closes, or a request for the application.
\<close>

lemma secc_dispatchE:
  assumes "secc_dispatch cs now m s = (res, s')" and "\<not> sc_closed s" and "sc_outstanding s = None"
  obtains (error) e where "res = Inl e" "keeps s s'" "same_session s s'"
  | (agreed) p f where "res = Inr ()" "keeps s s'" "sc_flow s = None" "flow_new p (cfg_security (sc_config s)) = Some f"
      "sc_flow s' = Some f" "c_protocol (sc_conn s') = Some p" "sc_established s' = sc_established s"
      "sc_outstanding s' = None" "\<not> sc_closed s'" "sc_events s' = sc_events s @ [Ev_ProtocolAgreed p]"
  | (no_common) "res = Inr ()" "keeps s s'" "sc_flow s' = sc_flow s" "c_protocol (sc_conn s') = c_protocol (sc_conn s)"
      "sc_established s' = sc_established s" "sc_outstanding s' = None" "sc_closed s'"
      "sc_timers s' = disarm_all (sc_timers s)" "sc_events s' = sc_events s @ [Ev_Closed Close_NoCommonProtocol]"
  | (refused) e where "res = Inr ()" "keeps s s'" "sc_flow s' = sc_flow s" "c_protocol (sc_conn s') = c_protocol (sc_conn s)"
      "sc_established s' = sc_established s" "map_option out_refused (sc_outstanding s') = Some True"
      "map_option out_name (sc_outstanding s') = Some (message_name m)" "sc_closed s'"
      "sc_timers s' = disarm_all (sc_timers s)" "sc_events s' = sc_events s @ [e, Ev_Closed Close_Refused]"
      "(\<exists>c r. e = Ev_Refused m c r) \<or> (\<exists>c p. e = Ev_Overdue m c p)"
  | (request) f f' where "res = Inr ()" "keeps s s'" "sc_flow s = Some f" "flow_accept f m = (Inr (), f')"
      "sc_established s \<longrightarrow> carries_the_session_id s m" "sc_flow s' = Some f'"
      "c_protocol (sc_conn s') = c_protocol (sc_conn s)"
      "sc_established s' = (sc_established s \<or> message_name m = ''SessionSetupReq'')"
      "map_option out_refused (sc_outstanding s') = Some False"
      "map_option out_name (sc_outstanding s') = Some (message_name m)" "\<not> sc_closed s'"
      "sc_events s' = sc_events s @ [Ev_Request m]"
proof -
  let ?s = "s\<lparr>sc_timers := arm (sc_timers s) T_Sequence now (cfg_sequence_timeout (sc_config s))\<rparr>"
  note defs = keeps_def same_session_def push_event_def secc_close_def secc_close_after_refusal_def await_answer_def
  have dis: "disarm_all (arm ts t n a) = disarm_all ts" "disarm_all (disarm ts t) = disarm_all ts" for ts t n a
    by (simp_all add: disarm_all_def)
  show thesis
  proof (cases "\<exists>req. msg_doc m = Doc_AppProtocolReq req")
    case True
    then obtain req where req: "msg_doc m = Doc_AppProtocolReq req" by blast
    then have h: "secc_handshake cs req ?s = (res, s')" using assms(1) by (simp add: secc_dispatch_def Let_def)
    let ?t = "?s\<lparr>sc_timers := disarm (sc_timers ?s) T_CommunicationSetup\<rparr>"
    let ?ag = "Option.bind (negotiate_with (protocols_retain flow_supports (cfg_protocols (sc_config s))) (cfg_iso20_sets (sc_config s)) req)
        (\<lambda>a. map_option (\<lambda>f. (a, f)) (flow_new (ng_protocol a) (cfg_security (sc_config s))))"
    show thesis
    proof (cases "sc_flow s = None")
      case False
      then show thesis using h by (intro error) (auto simp: secc_handshake_def defs)
    next
      case flow: True
      show thesis
      proof (cases ?ag)
        case None
        obtain r s1 where snd: "secc_send cs (of_doc (Doc_AppProtocolRes res_reject)) ?t = (r, s1)" by fastforce
        obtain tx where tx: "s1 = ?t\<lparr>sc_conn := (sc_conn ?t)\<lparr>c_tx := tx\<rparr>\<rparr>" using snd by (rule secc_send_effect)
        have "(res, s') = (case r of Inl e \<Rightarrow> (Inl e, s1) | Inr _ \<Rightarrow> (Inr (), secc_close Close_NoCommonProtocol s1))"
          using h flow None snd by (simp add: secc_handshake_def Let_def split: sum.splits)
        then have "(\<exists>e. res = Inl e \<and> s' = s1) \<or> res = Inr () \<and> s' = secc_close Close_NoCommonProtocol s1" by (cases r) auto
        then show thesis
        proof
          assume "\<exists>e. res = Inl e \<and> s' = s1"
          then show thesis using tx by (elim exE, intro error) (auto simp: defs)
        next
          assume "res = Inr () \<and> s' = secc_close Close_NoCommonProtocol s1"
          then show thesis using tx assms(2,3) by (intro no_common) (auto simp: defs dis)
        qed
      next
        case (Some af)
        obtain a f where af: "af = (a, f)" by fastforce
        with Some have new: "flow_new (ng_protocol a) (cfg_security (sc_config s)) = Some f" by (auto simp: bind_eq_Some_conv)
        obtain r s1 where snd: "secc_send cs (of_doc (Doc_AppProtocolRes (res_accept a))) ?t = (r, s1)" by fastforce
        obtain tx where tx: "s1 = ?t\<lparr>sc_conn := (sc_conn ?t)\<lparr>c_tx := tx\<rparr>\<rparr>" using snd by (rule secc_send_effect)
        have "(res, s') = (case r of Inl e \<Rightarrow> (Inl e, s1) | Inr _ \<Rightarrow> (Inr (), push_event (Ev_ProtocolAgreed (ng_protocol a))
            (s1\<lparr>sc_conn := conn_set_protocol (ng_protocol a) (sc_conn s1), sc_iso20_set := ng_iso20_set a, sc_flow := Some f\<rparr>)))"
          using h flow Some af snd by (simp add: secc_handshake_def Let_def split: sum.splits)
        then have "(\<exists>e. res = Inl e \<and> s' = s1) \<or> res = Inr () \<and> s' = push_event (Ev_ProtocolAgreed (ng_protocol a))
            (s1\<lparr>sc_conn := conn_set_protocol (ng_protocol a) (sc_conn s1), sc_iso20_set := ng_iso20_set a, sc_flow := Some f\<rparr>)"
          by (cases r) auto
        then show thesis
        proof
          assume "\<exists>e. res = Inl e \<and> s' = s1"
          then show thesis using tx by (elim exE, intro error) (auto simp: defs)
        next
          assume "res = Inr () \<and> s' = push_event (Ev_ProtocolAgreed (ng_protocol a))
            (s1\<lparr>sc_conn := conn_set_protocol (ng_protocol a) (sc_conn s1), sc_iso20_set := ng_iso20_set a, sc_flow := Some f\<rparr>)"
          then show thesis using tx flow new assms(2,3)
            by (intro agreed [of "ng_protocol a" f]) (auto simp: defs conn_set_protocol_def)
        qed
      qed
    qed
  next
    case False
    then have d: "(res, s') =
        (if \<not> is_request m then (Inl (Secc_NotARequest (message_name m)), ?s)
         else if sc_established ?s \<and> \<not> carries_the_session_id ?s m then
          (Inr (), secc_close_after_refusal
             (push_event (Ev_Refused m (unknown_session_code (c_protocol (sc_conn ?s))) UnknownSession)
               (await_answer now m True ?s)))
        else
          (case sc_flow ?s of
             None \<Rightarrow> (Inl (Secc_BeforeHandshake (message_name m)), ?s)
           | Some f \<Rightarrow>
             (case flow_accept f m of
                (Inr _, f') \<Rightarrow>
                  (Inr (), push_event (Ev_Request m) (await_answer now m False (enter_phase now
                     (?s\<lparr>sc_flow := Some f', sc_established := sc_established ?s \<or> message_name m = ''SessionSetupReq''\<rparr>))))
              | (Inl (Sequence e), f') \<Rightarrow> (Inr (), secc_refuse now m e (?s\<lparr>sc_flow := Some f'\<rparr>))
              | (Inl NotARequest, f') \<Rightarrow> (Inl (Secc_NotARequest (message_name m)), ?s\<lparr>sc_flow := Some f'\<rparr>))))"
      using assms(1) by (cases "msg_doc m") (simp_all add: secc_dispatch_def Let_def)
    consider (nr) "\<not> is_request m" | (id) "is_request m" "sc_established s" "\<not> carries_the_session_id s m"
      | (hs) "is_request m" "sc_established s \<longrightarrow> carries_the_session_id s m" "sc_flow s = None"
      | (fl) f where "is_request m" "sc_established s \<longrightarrow> carries_the_session_id s m" "sc_flow s = Some f" by blast
    then show thesis
    proof cases
      case nr
      then show thesis using d by (intro error) (auto simp: defs)
    next
      case id
      then show thesis using d assms(2,3) by (intro refused) (auto simp: defs dis carries_the_session_id_def)
    next
      case hs
      then show thesis using d by (intro error) (auto simp: defs carries_the_session_id_def)
    next
      case fl
      have car: "carries_the_session_id ?s m = carries_the_session_id s m" by (simp add: carries_the_session_id_def)
      obtain r f' where fa: "flow_accept f m = (r, f')" by fastforce
      show thesis
      proof (cases r)
        case (Inr u)
        let ?q = "?s\<lparr>sc_flow := Some f', sc_established := sc_established ?s \<or> message_name m = ''SessionSetupReq''\<rparr>"
        obtain ph ts where ep: "enter_phase now ?q = ?q\<lparr>sc_phase := ph, sc_timers := ts\<rparr>" "timers_inv (sc_timers ?q) \<longrightarrow> timers_inv ts"
          using enter_phase_effect [of now ?q] by blast
        have "(res, s') = (Inr (), push_event (Ev_Request m) (await_answer now m False (enter_phase now ?q)))"
          unfolding d using fl fa Inr car by (auto split: if_splits)
        then have "res = Inr ()" "s' = push_event (Ev_Request m) (await_answer now m False (enter_phase now ?q))" by simp_all
        then show thesis using fl fa Inr assms(2,3) ep by (intro request [of f f']) (auto simp: defs)
      next
        case (Inl e)
        then have "flow_permits f m = Inl e" using fa flow_accept_permits [of f m] by simp
        then have "\<not> permitted f m" by (simp add: permitted_def)
        then have "f' = f" using fa flow_refused_unchanged [of f m] by simp
        show thesis
        proof (cases e)
          case (Sequence x)
          then have "(res, s') = (Inr (), secc_refuse now m x (?s\<lparr>sc_flow := Some f\<rparr>))"
            unfolding d using fl fa Inl car \<open>f' = f\<close> by (auto split: if_splits)
          then have "res = Inr ()" "s' = secc_refuse now m x (?s\<lparr>sc_flow := Some f\<rparr>)" by simp_all
          then show thesis using fl assms(2,3)
            by (cases "sc_overdue s") (intro refused, auto simp: defs dis secc_refuse_def Let_def)+
        next
          case NotARequest
          then show thesis using d fl fa Inl car \<open>f' = f\<close> by (intro error) (auto simp: defs)
        qed
      qed
    qed
  qed
qed

section \<open>Logs\<close>

datatype 'x secc_log = Surfaced "'x secc_event" | Answered "'x msg" | Picked_Up energy_transfer

text \<open>The requests surfaced, as the two sequencers see them.\<close>

fun log_request2 :: "'x secc_log \<Rightarrow> iso2_request option" where
  "log_request2 (Surfaced (Ev_Request m)) = iso2_request_of m"
| "log_request2 _ = None"

fun log_event20 :: "'x secc_log \<Rightarrow> iso20_event option" where
  "log_event20 (Surfaced (Ev_Request m)) = map_option Accepted (iso20_request_of m)"
| "log_event20 (Picked_Up t) = Some (Resumed t)"
| "log_event20 _ = None"

definition requests2 :: "'x secc_log list \<Rightarrow> iso2_request list" where
  "requests2 log = List.map_filter log_request2 log"

definition events20 :: "'x secc_log list \<Rightarrow> iso20_event list" where
  "events20 log = List.map_filter log_event20 log"

lemma log_projection_simps [simp]:
  "requests2 [] = []" "events20 [] = []"
  "requests2 (log @ log') = requests2 log @ requests2 log'" "events20 (log @ log') = events20 log @ events20 log'"
  "requests2 (x # log) = (case log_request2 x of None \<Rightarrow> requests2 log | Some r \<Rightarrow> r # requests2 log)"
  "events20 (x # log) = (case log_event20 x of None \<Rightarrow> events20 log | Some r \<Rightarrow> r # events20 log)"
  by (simp_all add: requests2_def events20_def map_filter_def split: option.splits)

text \<open>
  Whose turn it is: nobody's request is waiting, or one is, by name, and was refused or not. An event that
  finds a request waiting, and an answer that finds none or answers another, break the alternation.
\<close>

type_synonym turn = "(string \<times> bool) option"

fun turn :: "turn \<Rightarrow> 'x secc_log \<Rightarrow> turn option" where
  "turn w (Surfaced (Ev_Request m)) = (if w = None then Some (Some (message_name m, False)) else None)"
| "turn w (Surfaced (Ev_Refused m _ _)) = (if w = None then Some (Some (message_name m, True)) else None)"
| "turn w (Surfaced (Ev_Overdue m _ _)) = (if w = None then Some (Some (message_name m, True)) else None)"
| "turn w (Surfaced (Ev_Closed why)) = Some (if why = Close_Fatal then None else w)"
| "turn w (Surfaced (Ev_ProtocolAgreed _)) = Some w"
| "turn w (Answered r) =
     (case w of
        None \<Rightarrow> None
      | Some (name, refused) \<Rightarrow> if \<not> is_request r \<and> (refused \<or> answers r name) then Some None else None)"
| "turn w (Picked_Up _) = Some w"

fun turns :: "turn \<Rightarrow> 'x secc_log list \<Rightarrow> turn option" where
  "turns w [] = Some w"
| "turns w (x # log) = Option.bind (turn w x) (\<lambda>w. turns w log)"

lemma turns_append [simp]: "turns w (xs @ ys) = Option.bind (turns w xs) (\<lambda>w. turns w ys)"
  by (induction xs arbitrary: w) (simp_all add: bind_assoc)

text \<open>Nothing is surfaced behind the one event that closes.\<close>

fun is_close :: "'x secc_log \<Rightarrow> bool" where
  "is_close (Surfaced (Ev_Closed _)) = True"
| "is_close _ = False"

fun is_surfaced :: "'x secc_log \<Rightarrow> bool" where
  "is_surfaced (Surfaced _) = True"
| "is_surfaced _ = False"

abbreviation closes_last :: "'x secc_log list \<Rightarrow> bool" where
  "closes_last \<equiv> closes_once is_close is_surfaced"

section \<open>The invariant\<close>

definition flow_inv :: "'x secc_log list \<Rightarrow> 'x secc \<Rightarrow> bool" where
  "flow_inv log s \<longleftrightarrow>
     (case sc_flow s of
        None \<Rightarrow> c_protocol (sc_conn s) = None \<and> \<not> sc_established s \<and> requests2 log = [] \<and> events20 log = []
      | Some f \<Rightarrow> c_protocol (sc_conn s) = Some (flow_generation f)
          \<and> flow_ran (cfg_security (sc_config s)) (requests2 log) (events20 log) f)"

definition waiting :: "'x secc \<Rightarrow> turn" where
  "waiting s = map_option (\<lambda>w. (out_name w, out_refused w)) (sc_outstanding s)"

text \<open>
  Closing disarms every timer. The setup timer can be armed afterwards, by an \<open>opened\<close> that comes late: it does not
  look whether the session is closed.
\<close>

definition close_inv :: "'x secc_log list \<Rightarrow> 'x secc \<Rightarrow> bool" where
  "close_inv log s \<longleftrightarrow>
     (if sc_closed s then closes_last log \<and> armed (sc_timers s) \<subseteq> {T_CommunicationSetup} else \<not> list_ex is_close log)"

definition secc_inv :: "'x secc_log list \<Rightarrow> 'x secc \<Rightarrow> bool" where
  "secc_inv log s \<longleftrightarrow> flow_inv log s \<and> turns None log = Some (waiting s) \<and> close_inv log s
     \<and> timers_inv (sc_timers s) \<and> conn_inv (sc_conn s)"

text \<open>A step extends the queue of events, and the log by the same events.\<close>

definition advances :: "'x secc_log list \<Rightarrow> 'x secc \<Rightarrow> 'x secc \<Rightarrow> bool" where
  "advances log s s' \<longleftrightarrow>
     (\<exists>evs. sc_events s' = sc_events s @ evs \<and> sc_config s' = sc_config s \<and> secc_inv (log @ map Surfaced evs) s')"

lemma advancesI:
  "sc_events s' = sc_events s @ evs \<Longrightarrow> sc_config s' = sc_config s \<Longrightarrow> secc_inv (log @ map Surfaced evs) s' \<Longrightarrow> advances log s s'"
  by (auto simp: advances_def)

lemma advances_trans:
  assumes "advances log s s'" and "\<And>log. secc_inv log s' \<Longrightarrow> advances log s' s''"
  shows "advances log s s''"
proof -
  obtain evs where 1: "sc_events s' = sc_events s @ evs" "sc_config s' = sc_config s" "secc_inv (log @ map Surfaced evs) s'"
    using assms(1) by (auto simp: advances_def)
  obtain evs' where "sc_events s'' = sc_events s' @ evs'" "sc_config s'' = sc_config s'"
      "secc_inv ((log @ map Surfaced evs) @ map Surfaced evs') s''"
    using assms(2) [OF 1(3)] by (auto simp: advances_def)
  with 1 show ?thesis by (intro advancesI [where evs = "evs @ evs'"]) simp_all
qed

text \<open>An accepted message is one more step of the run of the sequencer.\<close>

lemma flow_inv_accept:
  assumes "flow_inv log s" and "sc_flow s = Some f" and "flow_accept f m = (Inr (), f')"
    and "sc_flow s' = Some f'" and "sc_config s' = sc_config s" and "c_protocol (sc_conn s') = c_protocol (sc_conn s)"
  shows "flow_inv (log @ [Surfaced (Ev_Request m)]) s'"
  using flow_ran_accept [OF _ assms(3)] assms
  by (auto simp: flow_inv_def as_request2_def as_event20_def split: option.splits)

lemma flow_inv_same:
  "flow_inv log s \<Longrightarrow> sc_flow s' = sc_flow s \<Longrightarrow> sc_config s' = sc_config s \<Longrightarrow>
   c_protocol (sc_conn s') = c_protocol (sc_conn s) \<Longrightarrow> sc_established s' = sc_established s \<Longrightarrow>
   requests2 log' = requests2 log \<Longrightarrow> events20 log' = events20 log \<Longrightarrow> flow_inv log' s'"
  by (simp add: flow_inv_def split: option.splits)

lemma flow_inv_failed:
  "flow_inv log s \<Longrightarrow> flow_inv log (s\<lparr>sc_flow := map_option flow_failed (sc_flow s)\<rparr>)"
  by (auto simp: flow_inv_def flow_ran_failed split: option.splits)

lemma secc_dispatch_inv:
  assumes inv: "secc_inv log s" and "\<not> sc_closed s" and "sc_outstanding s = None"
    and disp: "secc_dispatch cs now m s = (res, s')"
  shows "advances log s s'"
  using disp assms(2,3)
proof (cases rule: secc_dispatchE)
  case (error e)
  then show ?thesis using inv
    by (intro advancesI [where evs = "[]"]) (auto simp: secc_inv_def keeps_def same_session_def waiting_def close_inv_def assms(2)
        intro: flow_inv_same)
next
  case (agreed p f)
  have "flow_inv (log @ [Surfaced (Ev_ProtocolAgreed p)]) s'"
    using inv agreed flow_ran_new [OF agreed(4)] by (auto simp: secc_inv_def flow_inv_def keeps_def)
  then show ?thesis using inv agreed assms(2,3)
    by (intro advancesI [where evs = "[Ev_ProtocolAgreed p]"]) (auto simp: secc_inv_def keeps_def waiting_def close_inv_def)
next
  case no_common
  have "flow_inv (log @ [Surfaced (Ev_Closed Close_NoCommonProtocol)]) s'"
    using inv no_common by (auto simp: secc_inv_def keeps_def intro: flow_inv_same)
  then show ?thesis using inv no_common assms(2,3)
    by (intro advancesI [where evs = "[Ev_Closed Close_NoCommonProtocol]"])
      (auto simp: secc_inv_def keeps_def waiting_def close_inv_def closes_onceI)
next
  case (refused e)
  have "flow_inv (log @ [Surfaced e, Surfaced (Ev_Closed Close_Refused)]) s'"
    using inv refused by (auto simp: secc_inv_def keeps_def intro: flow_inv_same)
  moreover have "closes_last (log @ [Surfaced e, Surfaced (Ev_Closed Close_Refused)])"
    using closes_onceI [of is_close "log @ [Surfaced e]"] inv refused assms(2) by (auto simp: secc_inv_def close_inv_def)
  ultimately show ?thesis using inv refused assms(2,3)
    by (intro advancesI [where evs = "[e, Ev_Closed Close_Refused]"]) (auto simp: secc_inv_def keeps_def waiting_def close_inv_def)
next
  case (request f f')
  have "flow_inv (log @ [Surfaced (Ev_Request m)]) s'"
    using flow_inv_accept [of log s f m f' s'] inv request by (auto simp: secc_inv_def keeps_def)
  then show ?thesis using inv request assms(2,3)
    by (intro advancesI [where evs = "[Ev_Request m]"]) (auto simp: secc_inv_def keeps_def waiting_def close_inv_def)
qed

section \<open>Every operation keeps the invariant\<close>

lemma secc_inv_conn:
  "secc_inv log s \<Longrightarrow> conn_inv c \<Longrightarrow> c_protocol c = c_protocol (sc_conn s) \<Longrightarrow> secc_inv log (s\<lparr>sc_conn := c\<rparr>)"
  by (auto simp: secc_inv_def waiting_def close_inv_def intro: flow_inv_same)

lemma advances_conn:
  "secc_inv log s \<Longrightarrow> conn_inv c \<Longrightarrow> c_protocol c = c_protocol (sc_conn s) \<Longrightarrow> advances log s (s\<lparr>sc_conn := c\<rparr>)"
  using secc_inv_conn [of log s c] by (auto simp: advances_def)

lemma advances_refl: "secc_inv log s \<Longrightarrow> advances log s s"
  by (auto simp: advances_def)

lemma secc_pump_inv: "secc_inv log s \<Longrightarrow> secc_pump cs now s = (res, s') \<Longrightarrow> advances log s s'"
proof (induction cs now s arbitrary: log rule: secc_pump.induct)
  case (1 cs now s)
  show ?case
  proof (cases "sc_closed s \<or> sc_outstanding s \<noteq> None")
    case True
    then show ?thesis using "1.prems" by (simp add: secc_pump.simps [of cs now s] advances_refl)
  next
    case False
    obtain r c where nm: "conn_next_message cs (sc_conn s) = (r, c)" by fastforce
    have "conn_inv c" "c_protocol c = c_protocol (sc_conn s)"
      using conn_next_message_inv [OF _ nm] conn_next_message_protocol [OF nm] "1.prems"(1) by (auto simp: secc_inv_def)
    with "1.prems"(1) have inv: "secc_inv log (s\<lparr>sc_conn := c\<rparr>)" and adv: "advances log s (s\<lparr>sc_conn := c\<rparr>)"
      by (simp_all add: secc_inv_conn advances_conn)
    show ?thesis
    proof (cases "\<exists>m. r = Inr (Some m)")
      case True
      then obtain m where r: "r = Inr (Some m)" by blast
      obtain d s1 where disp: "secc_dispatch cs now m (s\<lparr>sc_conn := c\<rparr>) = (d, s1)" by fastforce
      have step: "advances log (s\<lparr>sc_conn := c\<rparr>) s1" using secc_dispatch_inv [OF inv _ _ disp] False by simp
      then have "advances log s s1" by (simp add: advances_def)
      moreover have "advances log' s1 s'" if "secc_inv log' s1" for log'
      proof (cases d)
        case (Inl e)
        then have "s' = s1" using "1.prems"(2) False nm r disp by (simp add: secc_pump.simps [of cs now s])
        then show ?thesis using that by (simp add: advances_refl)
      next
        case (Inr u)
        then have "secc_pump cs now s1 = (res, s')"
          using "1.prems"(2) False nm r disp by (simp add: secc_pump.simps [of cs now s])
        then show ?thesis
          using "1.IH" [OF False nm [symmetric, unfolded r] refl refl disp [symmetric, unfolded Inr] refl] that by blast
      qed
      ultimately show ?thesis by (rule advances_trans)
    next
      case other: False
      then have "s' = s\<lparr>sc_conn := c\<rparr>" using "1.prems"(2) False nm
        by (auto simp: secc_pump.simps [of cs now s] split: sum.splits option.splits)
      then show ?thesis using adv by simp
    qed
  qed
qed

lemma secc_close_inv: "secc_inv log s \<Longrightarrow> why \<noteq> Close_Fatal \<Longrightarrow> advances log s (secc_close why s)"
proof (cases "sc_closed s")
  case False
  assume inv: "secc_inv log s" and why: "why \<noteq> Close_Fatal"
  have "flow_inv (log @ [Surfaced (Ev_Closed why)]) (secc_close why s)"
    using inv False by (auto simp: secc_inv_def secc_close_def push_event_def intro: flow_inv_same)
  then show ?thesis using inv why False
    by (intro advancesI [where evs = "[Ev_Closed why]"])
      (auto simp: secc_inv_def secc_close_def push_event_def waiting_def close_inv_def closes_onceI)
qed (simp add: secc_close_def advances_refl)

lemma secc_close_fatal_inv: "secc_inv log s \<Longrightarrow> advances log s (secc_close_fatal s)"
proof (cases "sc_closed s")
  case False
  assume inv: "secc_inv log s"
  have "flow_inv (log @ [Surfaced (Ev_Closed Close_Fatal)]) (secc_close_fatal s)"
    using inv False by (auto simp: secc_inv_def secc_close_fatal_def push_event_def conn_reset_input_def intro: flow_inv_same)
  then show ?thesis using inv False
    by (intro advancesI [where evs = "[Ev_Closed Close_Fatal]"])
      (auto simp: secc_inv_def secc_close_fatal_def push_event_def waiting_def close_inv_def closes_onceI conn_inv_reset)
qed (simp add: secc_close_fatal_def advances_refl)

lemma fatal_on_error_inv: "advances log s s1 \<Longrightarrow> fatal_on_error (r, s1) = (res, s') \<Longrightarrow> advances log s s'"
  by (rule advances_trans) (auto simp: fatal_on_error_def secc_close_fatal_inv advances_refl split: sum.splits)

lemma secc_handle_input_inv:
  assumes inv: "secc_inv log s" and h: "secc_handle_input cs now data s = (res, s')"
  shows "advances log s s'"
proof (cases "sc_closed s")
  case True
  then show ?thesis using assms by (simp add: secc_handle_input_def advances_refl)
next
  case False
  obtain r c where rc: "conn_receive data (sc_conn s) = (r, c)" by fastforce
  have ci: "conn_inv (sc_conn s)" using inv by (simp add: secc_inv_def)
  note c = conn_receive_inv [OF ci rc] conn_receive_protocol [OF ci rc]
  have step: "advances log s s1" if "secc_pump cs now (s\<lparr>sc_conn := c\<rparr>) = (q, s1)" for q s1
    using secc_pump_inv [OF secc_inv_conn [OF inv c] that] by (simp add: advances_def)
  obtain q s1 where p: "secc_pump cs now (s\<lparr>sc_conn := c\<rparr>) = (q, s1)" by fastforce
  show ?thesis
  proof (cases r)
    case (Inl e)
    then have "fatal_on_error (Inl (Secc_Connection e), s\<lparr>sc_conn := c\<rparr>) = (res, s')"
      using h False rc by (simp add: secc_handle_input_def)
    then show ?thesis using fatal_on_error_inv advances_conn [OF inv c] by blast
  next
    case (Inr u)
    then have "fatal_on_error (q, s1) = (res, s')" using h False rc p by (simp add: secc_handle_input_def)
    then show ?thesis using fatal_on_error_inv step [OF p] by blast
  qed
qed

text \<open>The answer: it is logged exactly when it was queued.\<close>

lemma secc_answer_inv:
  assumes inv: "secc_inv log s" and a: "secc_answer cs r s = (res, s')"
  shows "sc_events s' = sc_events s \<and> sc_config s' = sc_config s
    \<and> secc_inv (case res of Inl _ \<Rightarrow> log | Inr _ \<Rightarrow> log @ [Answered r]) s'"
proof (cases "is_request r \<or> sc_outstanding s = None")
  case True
  then show ?thesis using assms by (auto simp: secc_answer_def split: if_splits)
next
  case False
  then obtain out where out: "sc_outstanding s = Some out" "\<not> is_request r" by blast
  obtain b r' where set: "set_session_id (cfg_session_id (sc_config s)) r = (b, r')" by fastforce
  show ?thesis
  proof (cases "\<not> out_refused out \<and> \<not> answers r (out_name out) \<or> b \<and> session_id_is_none (cfg_session_id (sc_config s))")
    case True
    then show ?thesis using assms out set by (auto simp: secc_answer_def split: if_splits)
  next
    case ok: False
    let ?s = "if (case message_outcome r' of Some out \<Rightarrow> is_failure out | None \<Rightarrow> False)
        then s\<lparr>sc_flow := map_option flow_failed (sc_flow s)\<rparr> else s"
    have inv': "secc_inv log ?s" using inv flow_inv_failed [of log s] by (auto simp: secc_inv_def waiting_def close_inv_def)
    obtain q s1 where snd: "secc_send cs r' ?s = (q, s1)" by fastforce
    obtain tx where s1: "s1 = ?s\<lparr>sc_conn := (sc_conn ?s)\<lparr>c_tx := tx\<rparr>\<rparr>" using snd by (rule secc_send_effect)
    have inv1: "secc_inv log s1" unfolding s1 using inv' by (intro secc_inv_conn) (auto simp: secc_inv_def)
    have same: "sc_events s1 = sc_events s" "sc_config s1 = sc_config s" "sc_outstanding s1 = sc_outstanding s" by (simp_all add: s1)
    have res: "(res, s') = (case q of Inl e \<Rightarrow> (Inl e, s1) | Inr _ \<Rightarrow> (Inr (), s1\<lparr>sc_outstanding := None\<rparr>))"
      using a ok out set snd by (auto simp: secc_answer_def Let_def split: sum.splits)
    show ?thesis
    proof (cases q)
      case (Inl e)
      then show ?thesis using res inv1 same by simp
    next
      case (Inr u)
      have "flow_inv (log @ [Answered r]) (s1\<lparr>sc_outstanding := None\<rparr>)"
        using inv1 by (auto simp: secc_inv_def intro: flow_inv_same)
      moreover have "closes_last log \<Longrightarrow> closes_last (log @ [Answered r])"
        by (rule closes_once_snoc) simp_all
      moreover have "turns None (log @ [Answered r]) = Some None"
        using inv1 same out ok by (auto simp: secc_inv_def waiting_def)
      ultimately have "secc_inv (log @ [Answered r]) (s1\<lparr>sc_outstanding := None\<rparr>)"
        using inv1 by (auto simp: secc_inv_def close_inv_def waiting_def)
      then show ?thesis using res Inr same by simp
    qed
  qed
qed

lemma secc_inv_timers:
  "secc_inv log s \<Longrightarrow> sc_closed s \<longrightarrow> armed ts \<subseteq> insert T_CommunicationSetup (armed (sc_timers s)) \<Longrightarrow> timers_inv ts \<Longrightarrow>
   secc_inv log (s\<lparr>sc_timers := ts\<rparr>)"
  by (auto simp: secc_inv_def waiting_def close_inv_def intro: flow_inv_same) blast

lemma after_answer_inv:
  assumes "secc_inv log s"
  shows "advances log s (after_answer now s)"
proof -
  let ?t = "s\<lparr>sc_timers := arm (sc_timers s) T_Sequence now (cfg_sequence_timeout (sc_config s))\<rparr>"
  have "advances log s ?t" if "\<not> sc_closed s"
    using secc_inv_timers [OF assms] that assms by (auto simp: advances_def secc_inv_def)
  then show ?thesis using assms secc_close_inv advances_refl by (auto simp: after_answer_def split: option.splits)
qed

lemma secc_pump_respond_inv:
  assumes "secc_inv log s" and "fatal_on_error (secc_pump cs now (after_answer now s)) = (res, s')"
  shows "advances log s s'"
proof (rule advances_trans [OF after_answer_inv [OF assms(1)]])
  fix log'
  assume inv: "secc_inv log' (after_answer now s)"
  obtain q s1 where p: "secc_pump cs now (after_answer now s) = (q, s1)" by fastforce
  with secc_pump_inv [OF inv p] show "advances log' (after_answer now s) s'" using fatal_on_error_inv assms(2) by metis
qed

lemma secc_timeout_loop_inv: "secc_inv log s \<Longrightarrow> advances log s (secc_timeout_loop n now s)"
proof (induction n arbitrary: log s)
  case 0
  then show ?case by (simp add: advances_refl)
next
  case (Suc n)
  obtain t ts where ex: "expired (sc_timers s) now = (t, ts)" by fastforce
  have ti: "timers_inv ts" using expired_inv [OF _ ex] Suc.prems by (simp add: secc_inv_def)
  show ?case
  proof (cases t)
    case None
    then have "ts = sc_timers s" using expired_None_state ex by blast
    then show ?thesis using Suc.prems ex None by (simp add: advances_refl)
  next
    case (Some u)
    then have less: "armed ts \<subseteq> armed (sc_timers s)" using expired_armed ex Suc.prems by (auto simp: secc_inv_def)
    let ?s = "s\<lparr>sc_timers := ts\<rparr>"
    let ?o = "?s\<lparr>sc_overdue := Some (case sc_flow ?s of Some f \<Rightarrow> flow_phase_name f | None \<Rightarrow> ''unknown''),
        sc_flow := map_option flow_failed (sc_flow ?s)\<rparr>"
    have inv: "secc_inv log ?s" using secc_inv_timers [OF Suc.prems _ ti] less by blast
    have "flow_inv log ?o" using flow_inv_failed [of log ?s] inv by (auto simp: secc_inv_def intro: flow_inv_same)
    then have "secc_inv log ?o" using inv by (auto simp: secc_inv_def waiting_def close_inv_def)
    then have "advances log s ?o" by (auto simp: advances_def)
    moreover have "advances log s (secc_close (Close_Timeout u) ?s)"
      using secc_close_inv [OF inv, of "Close_Timeout u"] by (simp add: advances_def)
    ultimately have "advances log s (if u = T_Ongoing \<and> \<not> sc_closed ?s then ?o else secc_close (Close_Timeout u) ?s)" by simp
    from advances_trans [OF this Suc.IH] show ?thesis using ex Some by (simp add: Let_def)
  qed
qed

text \<open>After \<open>handle_timeout\<close> no timer is due: the rounds are enough.\<close>

lemma secc_timeout_done:
  "timers_inv (sc_timers s) \<Longrightarrow> card (armed (sc_timers s)) \<le> n \<Longrightarrow>
     fst (expired (sc_timers (secc_timeout_loop n now s)) now) = None"
proof (induction n arbitrary: s)
  case 0
  then have "armed (sc_timers s) = {}" using finite_timers by simp
  then show ?case by (auto simp: expired_None armed_def is_armed_def)
next
  case (Suc n)
  obtain t ts where ex: "expired (sc_timers s) now = (t, ts)" by fastforce
  show ?case
  proof (cases t)
    case None
    then show ?thesis using ex expired_None_state [of "sc_timers s" now ts] by simp
  next
    case (Some u)
    have ti: "timers_inv ts" using expired_inv [OF Suc.prems(1) ex] .
    have a: "u \<in> armed (sc_timers s)" "armed ts = armed (sc_timers s) - {u}"
      using expired_armed [OF Suc.prems(1) ex [unfolded Some]] by auto
    then have "card (armed ts) \<le> n" using Suc.prems(2) finite_timers [of "armed (sc_timers s)"] by simp
    moreover have "timers_inv (sc_timers (secc_close (Close_Timeout u) (s\<lparr>sc_timers := ts\<rparr>)))"
        "card (armed (sc_timers (secc_close (Close_Timeout u) (s\<lparr>sc_timers := ts\<rparr>)))) \<le> n"
      using ti calculation by (simp_all add: secc_close_def push_event_def)
    ultimately show ?thesis using Suc.IH ex Some ti by (auto simp: Let_def)
  qed
qed

lemma join_session_inv: "secc_inv log s \<Longrightarrow> secc_inv log (join_session i s)"
  by (simp add: secc_inv_def flow_inv_def waiting_def close_inv_def join_session_def split: option.splits)

lemma secc_resume_inv:
  assumes "secc_inv log s" and "secc_resume i t s = (res, s')"
  shows "secc_inv (case res of Inl _ \<Rightarrow> log | Inr _ \<Rightarrow> log @ [Picked_Up t]) s' \<and> sc_events s' = sc_events s
    \<and> cfg_security (sc_config s') = cfg_security (sc_config s)"
proof (cases "sc_flow s")
  case (Some f)
  show ?thesis
  proof (cases f)
    case (Flow_Iso2 q)
    then have "s' = s" "res = Inl NotIso20" using Some assms(2) by (auto simp: secc_resume_def)
    then show ?thesis using assms(1) by simp
  next
    case (Flow_Iso20 q)
    let ?s = "s\<lparr>sc_flow := Some (Flow_Iso20 (iso20_resume t q))\<rparr>"
    have r: "res = Inr ()" "s' = join_session i ?s" using Some Flow_Iso20 assms(2) by (auto simp: secc_resume_def)
    have "flow_inv (log @ [Picked_Up t]) ?s"
      using assms(1) Some Flow_Iso20 run20_resume by (auto simp: secc_inv_def flow_inv_def)
    then have "secc_inv (log @ [Picked_Up t]) ?s"
      using assms(1) closes_once_snoc [of is_close is_surfaced log "Picked_Up t"] by (auto simp: secc_inv_def waiting_def close_inv_def)
    then show ?thesis using r join_session_inv [of _ ?s i] by (simp add: join_session_def)
  qed
qed (use assms in \<open>auto simp: secc_resume_def\<close>)

section \<open>Runs of a station\<close>

text \<open>What a step has surfaced: the events it put behind those that wait to be polled.\<close>

definition surfaced :: "'x secc \<Rightarrow> 'x secc \<Rightarrow> 'x secc_log list" where
  "surfaced s s' = map Surfaced (drop (length (sc_events s)) (sc_events s'))"

inductive secc_run :: "'x document codecs \<Rightarrow> secc_config \<Rightarrow> 'x secc_log list \<Rightarrow> 'x secc \<Rightarrow> bool" for cs config where
  secc_start: "secc_run cs config [] (secc_new config)"
| secc_opens: "secc_run cs config log s \<Longrightarrow> secc_run cs config log (secc_opened now s)"
| secc_reads: "secc_run cs config log s \<Longrightarrow> secc_handle_input cs now data s = (res, s') \<Longrightarrow>
    secc_run cs config (log @ surfaced s s') s'"
| secc_answers: "secc_run cs config log s \<Longrightarrow> secc_answer cs r s = (Inr u, s1) \<Longrightarrow> secc_respond cs now r s = (res, s') \<Longrightarrow>
    secc_run cs config (log @ Answered r # surfaced s s') s'"
| secc_cannot_answer: "secc_run cs config log s \<Longrightarrow> secc_answer cs r s = (Inl e, s1) \<Longrightarrow> secc_respond cs now r s = (res, s') \<Longrightarrow>
    secc_run cs config log s'"
| secc_waits: "secc_run cs config log s \<Longrightarrow> s' = secc_handle_timeout now s \<Longrightarrow> secc_run cs config (log @ surfaced s s') s'"
| secc_joins: "secc_run cs config log s \<Longrightarrow> secc_run cs config log (join_session i s)"
| secc_resumes: "secc_run cs config log s \<Longrightarrow> secc_resume i t s = (res, s') \<Longrightarrow>
    secc_run cs config (case res of Inl _ \<Rightarrow> log | Inr _ \<Rightarrow> log @ [Picked_Up t]) s'"
| secc_polls: "secc_run cs config log s \<Longrightarrow> secc_poll_event s = (e, s') \<Longrightarrow> secc_run cs config log s'"
| secc_transmits: "secc_run cs config log s \<Longrightarrow> secc_take_transmit s = (out, s') \<Longrightarrow> secc_run cs config log s'"

inductive_cases secc_runE: "secc_run cs config log s"

lemma advances_surfaced: "advances log s s' \<Longrightarrow> secc_inv (log @ surfaced s s') s' \<and> sc_config s' = sc_config s"
  by (auto simp: advances_def surfaced_def)

lemma secc_run_inv:
  "secc_run cs config log s \<Longrightarrow> cfg_max_payload_len config + HEADER_LEN \<le> usize_max \<Longrightarrow>
     secc_inv log s \<and> cfg_security (sc_config s) = cfg_security config"
proof (induction rule: secc_run.induct)
  case secc_start
  then show ?case
    by (simp add: secc_inv_def flow_inv_def waiting_def close_inv_def secc_new_def timers_new_inv conn_new_inv)
      (simp add: conn_with_limits_def)
next
  case (secc_opens log s now)
  then have "timers_inv (sc_timers s)" by (simp add: secc_inv_def)
  then have "timers_inv (arm (sc_timers s) T_CommunicationSetup now (cfg_setup_timeout (sc_config s)))"
    "armed (arm (sc_timers s) T_CommunicationSetup now (cfg_setup_timeout (sc_config s))) \<subseteq>
       insert T_CommunicationSetup (armed (sc_timers s))" by (simp_all add: armed_arm)
  then show ?case using secc_opens by (simp add: secc_opened_def secc_inv_timers)
next
  case (secc_reads log s now data res s')
  then have "advances log s s'" using secc_handle_input_inv [of log s cs now data res s'] by simp
  from advances_surfaced [OF this] show ?case using secc_reads by simp
next
  case (secc_answers log s r u s1 now res s')
  then have a: "sc_events s1 = sc_events s" "sc_config s1 = sc_config s" "secc_inv (log @ [Answered r]) s1"
    using secc_answer_inv [of log s cs r "Inr u" s1] by auto
  have "fatal_on_error (secc_pump cs now (after_answer now s1)) = (res, s')"
    using secc_answers.hyps by (simp add: secc_respond_def)
  from advances_surfaced [OF secc_pump_respond_inv [OF a(3) this]] a secc_answers show ?case by (simp add: surfaced_def)
next
  case (secc_cannot_answer log s r e s1 now res s')
  then have "s' = s1" by (simp add: secc_respond_def)
  then show ?case using secc_answer_inv [of log s cs r "Inl e" s1] secc_cannot_answer by auto
next
  case (secc_waits log s s' now)
  then have "advances log s s'" using secc_timeout_loop_inv [of log s] by (simp add: secc_handle_timeout_def)
  from advances_surfaced [OF this] show ?case using secc_waits by simp
next
  case (secc_joins log s i)
  then show ?case using join_session_inv [of log s i] by (simp add: join_session_def)
next
  case (secc_resumes log s i t res s')
  then show ?case using secc_resume_inv [of log s i t res s'] by simp
next
  case (secc_polls log s e s')
  then obtain es where s': "s' = s\<lparr>sc_events := es\<rparr>"
    by (cases "sc_events s") (auto simp: secc_poll_event_def intro: that [of "[]"])
  have "secc_inv log (s\<lparr>sc_events := es\<rparr>)"
    using secc_polls by (auto simp: secc_inv_def waiting_def close_inv_def intro: flow_inv_same)
  then show ?case using secc_polls s' by simp
next
  case (secc_transmits log s out s')
  then show ?case using secc_inv_conn [of log s "(sc_conn s)\<lparr>c_tx := []\<rparr>"]
    by (auto simp: secc_take_transmit_def conn_take_transmit_def secc_inv_def)
qed

end
