(* ===== verification/Evcc.thy ===== *)
theory Evcc
  imports Flow Conn Timers
begin

text \<open>
  The vehicle's side of a session, \<open>src/src/evcc.rs\<close>: it offers protocols, sends one request at a time in the
  order \<open>Flow\<close> allows, stamps the session identifier, and reads the answers. Every operation returns its
  result and the state it leaves, also when it fails. The generated codecs are the parameter \<open>cs\<close>.
\<close>

section \<open>Data\<close>

record evcc_config =
  vcfg_protocols :: protocols
  vcfg_security :: security
  vcfg_max_payload_len :: nat
  vcfg_max_pending_frames :: nat
  vcfg_setup_timeout :: millis
  vcfg_message_timeout :: "millis option"
  vcfg_loop_budgets :: loop_budgets
  vcfg_iso20_sets :: "iso20_set list"
  vcfg_rejoin :: "bytes option"

text \<open>Every set is compiled in, so the filter on \<open>is_compiled\<close> keeps the default list.\<close>

definition evcc_config_default :: evcc_config where
  "evcc_config_default =
     \<lparr>vcfg_protocols = protocols_from_slice [Iso20, Iso2], vcfg_security = No_Security,
      vcfg_max_payload_len = MAX_EXI_PAYLOAD_LEN, vcfg_max_pending_frames = MAX_PENDING_FRAMES,
      vcfg_setup_timeout = iso2_EVCC_COMMUNICATION_SETUP_TIMEOUT, vcfg_message_timeout = None,
      vcfg_loop_budgets = \<lparr>lb_authorization = None, lb_ongoing = None\<rparr>, vcfg_iso20_sets = DEFAULT_ISO20_SETS,
      vcfg_rejoin = None\<rparr>"

datatype evcc_close_why =
    VClose_Normal
  | VClose_Paused
  | VClose_Timeout timer
  | VClose_NoCommonProtocol
  | VClose_Fatal

datatype 'x evcc_event =
    VEv_ProtocolAgreed protocol
  | VEv_Response "'x msg"
  | VEv_Failed
  | VEv_Closed evcc_close_why

record 'x evcc =
  ve_config :: evcc_config
  ve_conn :: connection
  ve_timers :: timers
  ve_flow :: "flow option"
  ve_events :: "'x evcc_event list"
  ve_session_id :: bytes
  ve_offer :: "app_req option"
  ve_iso20_set :: "iso20_set option"
  ve_outstanding :: "string option"
  ve_established :: bool
  ve_phase :: "string option"
  ve_answered_at :: "instant option"
  ve_closed :: bool

datatype evcc_error =
    Evcc_Connection connection_error
  | Evcc_Flow flow_error
  | Evcc_NotAResponse string
  | Evcc_NotARequest string
  | Evcc_BeforeHandshake string
  | Evcc_AwaitingResponse string string
  | Evcc_UnknownSchemaId u8
  | Evcc_NothingToOffer protocols
  | Evcc_AlreadyStarted
  | Evcc_UnexpectedResponse "string option" string
  | Evcc_NoSessionAssigned
  | Evcc_WrongSession bytes bytes
  | Evcc_Closed

section \<open>Small operations\<close>

definition evcc_new :: "evcc_config \<Rightarrow> 'x evcc" where
  "evcc_new config =
     \<lparr>ve_config = config, ve_conn = conn_with_limits (vcfg_max_payload_len config) (vcfg_max_pending_frames config),
      ve_timers = timers_new, ve_flow = None, ve_events = [],
      ve_session_id = (case vcfg_rejoin config of Some i \<Rightarrow> i | None \<Rightarrow> session_id_NONE), ve_offer = None,
      ve_iso20_set = None, ve_outstanding = None, ve_established = False, ve_phase = None, ve_answered_at = None,
      ve_closed = False\<rparr>"

definition vpush :: "'x evcc_event \<Rightarrow> 'x evcc \<Rightarrow> 'x evcc" where
  "vpush e v = v\<lparr>ve_events := ve_events v @ [e]\<rparr>"

definition evcc_close :: "evcc_close_why \<Rightarrow> 'x evcc \<Rightarrow> 'x evcc" where
  "evcc_close why v =
     (if ve_closed v then v
      else vpush (VEv_Closed why) (v\<lparr>ve_closed := True, ve_timers := disarm_all (ve_timers v)\<rparr>))"

definition evcc_close_fatal :: "'x evcc \<Rightarrow> 'x evcc" where
  "evcc_close_fatal v =
     (if ve_closed v then v
      else evcc_close VClose_Fatal (v\<lparr>ve_conn := conn_reset_input (ve_conn v), ve_outstanding := None\<rparr>))"

definition evcc_send :: "'x document codecs \<Rightarrow> 'x msg \<Rightarrow> 'x evcc \<Rightarrow> (evcc_error + unit) \<times> 'x evcc" where
  "evcc_send cs m v =
     (case conn_send cs m (ve_conn v) of
        (Inl e, c) \<Rightarrow> (Inl (Evcc_Connection e), v\<lparr>ve_conn := c\<rparr>)
      | (Inr _, c) \<Rightarrow> (Inr (), v\<lparr>ve_conn := c\<rparr>))"

definition evcc_resume :: "energy_transfer \<Rightarrow> 'x evcc \<Rightarrow> (resume_error + unit) \<times> 'x evcc" where
  "evcc_resume t v =
     (case ve_flow v of
        None \<Rightarrow> (Inl NotNegotiated, v)
      | Some f \<Rightarrow> (case flow_resume t f of (r, f) \<Rightarrow> (r, v\<lparr>ve_flow := Some f\<rparr>)))"

definition evcc_response_timeout :: "'x msg \<Rightarrow> millis" where
  "evcc_response_timeout m =
     (case iso2_request_of m of
        Some r \<Rightarrow> iso2_response_timeout r
      | None \<Rightarrow>
        (case iso20_request_of m of
           Some r \<Rightarrow> iso20_response_timeout r
         | None \<Rightarrow> iso2_MSG_TIMEOUT_DEFAULT))"

definition evcc_enter_phase :: "instant \<Rightarrow> 'x evcc \<Rightarrow> 'x evcc" where
  "evcc_enter_phase now v =
     (case ve_flow v of
        None \<Rightarrow> v
      | Some f \<Rightarrow>
        let phase = flow_phase_name f in
        if ve_phase v = Some phase then v
        else
          let v = v\<lparr>ve_phase := Some phase\<rparr> in
          (case flow_loop_timeout f Evcc (vcfg_loop_budgets (ve_config v)) of
             Some budget \<Rightarrow> v\<lparr>ve_timers := arm (ve_timers v) T_Ongoing now budget\<rparr>
           | None \<Rightarrow> v\<lparr>ve_timers := disarm (ve_timers v) T_Ongoing\<rparr>))"

definition evcc_poll_event :: "'x evcc \<Rightarrow> 'x evcc_event option \<times> 'x evcc" where
  "evcc_poll_event v =
     (case ve_events v of [] \<Rightarrow> (None, v) | e # es \<Rightarrow> (Some e, v\<lparr>ve_events := es\<rparr>))"

definition evcc_poll_timeout :: "'x evcc \<Rightarrow> instant option" where
  "evcc_poll_timeout v = next_deadline (ve_timers v)"

definition next_request_due :: "'x evcc \<Rightarrow> instant option" where
  "next_request_due v =
     (case (ve_answered_at v, ve_outstanding v) of
        (Some at, None) \<Rightarrow> Some (instant_add at iso2_EVCC_SEQUENCE_PERFORMANCE_TIME)
      | _ \<Rightarrow> None)"

definition evcc_take_transmit :: "'x evcc \<Rightarrow> bytes \<times> 'x evcc" where
  "evcc_take_transmit v = (let (out, c) = conn_take_transmit (ve_conn v) in (out, v\<lparr>ve_conn := c\<rparr>))"

definition evcc_transmit_is_empty :: "'x evcc \<Rightarrow> bool" where
  "evcc_transmit_is_empty v \<longleftrightarrow> c_tx (ve_conn v) = []"

section \<open>Opening\<close>

text \<open>What is advertised: the configured protocols that can be spoken, ISO 15118-20 only with a message set.\<close>

definition advertised :: "evcc_config \<Rightarrow> protocols" where
  "advertised config =
     (let ps = protocols_retain flow_supports (vcfg_protocols config) in
      if vcfg_iso20_sets config = [] then snd (protocols_remove ps Iso20) else ps)"

definition evcc_start :: "'x document codecs \<Rightarrow> instant \<Rightarrow> 'x evcc \<Rightarrow> (evcc_error + unit) \<times> 'x evcc" where
  "evcc_start cs now v =
     (if ve_outstanding v \<noteq> None \<or> ve_flow v \<noteq> None \<or> ve_closed v then (Inl Evcc_AlreadyStarted, v)
      else if protocols_is_empty (advertised (ve_config v)) then (Inl (Evcc_NothingToOffer (vcfg_protocols (ve_config v))), v)
      else
        let req = advertising_with (advertised (ve_config v)) (vcfg_iso20_sets (ve_config v)) in
        (case evcc_send cs (of_doc (Doc_AppProtocolReq req)) v of
           (Inl e, v) \<Rightarrow> (Inl e, v)
         | (Inr _, v) \<Rightarrow>
             let ts = arm (ve_timers v) T_CommunicationSetup now (vcfg_setup_timeout (ve_config v));
                 ts = arm ts T_Message now
                   (case vcfg_message_timeout (ve_config v) of Some d \<Rightarrow> d | None \<Rightarrow> iso2_MSG_TIMEOUT_DEFAULT)
             in (Inr (), v\<lparr>ve_offer := Some req, ve_timers := ts, ve_outstanding := Some ''supportedAppProtocolReq''\<rparr>)))"

section \<open>Asking\<close>

definition evcc_request :: "'x document codecs \<Rightarrow> instant \<Rightarrow> 'x msg \<Rightarrow> 'x evcc \<Rightarrow> (evcc_error + unit) \<times> 'x evcc" where
  "evcc_request cs now request v =
     (if ve_closed v then (Inl Evcc_Closed, v)
      else if \<not> is_request request then (Inl (Evcc_NotARequest (message_name request)), v)
      else
        (case ve_outstanding v of
           Some waits \<Rightarrow> (Inl (Evcc_AwaitingResponse waits (message_name request)), v)
         | None \<Rightarrow>
           (case ve_flow v of
              None \<Rightarrow> (Inl (Evcc_BeforeHandshake (message_name request)), v)
            | Some f \<Rightarrow>
              (case flow_permits f request of
                 Inl e \<Rightarrow> (Inl (Evcc_Flow e), v)
               | Inr _ \<Rightarrow>
                 let request = snd (set_session_id (ve_session_id v) request);
                     timeout = (case vcfg_message_timeout (ve_config v) of
                        Some d \<Rightarrow> d | None \<Rightarrow> evcc_response_timeout request);
                     name = message_name request
                 in
                 (case evcc_send cs request v of
                    (Inl e, v) \<Rightarrow> (Inl e, v)
                  | (Inr _, v) \<Rightarrow>
                    (case flow_accept f request of
                       (Inl e, f) \<Rightarrow> (Inl (Evcc_Flow e), v\<lparr>ve_flow := Some f\<rparr>)
                     | (Inr _, f) \<Rightarrow>
                       let v = evcc_enter_phase now (v\<lparr>ve_flow := Some f\<rparr>) in
                       (Inr (), v\<lparr>ve_timers := arm (ve_timers v) T_Message now timeout, ve_outstanding := Some name\<rparr>)))))))"

section \<open>Reading answers\<close>

text \<open>The arm of \<open>dispatch\<close> for the answer to the handshake.\<close>

definition evcc_handshake :: "app_res \<Rightarrow> 'x evcc \<Rightarrow> (evcc_error + unit) \<times> 'x evcc" where
  "evcc_handshake res v =
     (case (if app_code_is_ok (res_response_code res) then res_schema_id res else None) of
        None \<Rightarrow> (Inr (), evcc_close VClose_NoCommonProtocol v)
      | Some schema_id \<Rightarrow>
          let entry = Option.bind (ve_offer v) (List.find (\<lambda>e. ap_schema_id e = schema_id));
              chosen = Option.bind entry (\<lambda>e. map_option (\<lambda>p. (p, entry_iso20_set e)) (entry_protocol e))
          in
          (case chosen of
             None \<Rightarrow> (Inl (Evcc_UnknownSchemaId schema_id), v)
           | Some (p, st) \<Rightarrow>
               let v = v\<lparr>ve_iso20_set := st\<rparr> in
               (case flow_new p (vcfg_security (ve_config v)) of
                  None \<Rightarrow> (Inr (), evcc_close VClose_NoCommonProtocol v)
                | Some f \<Rightarrow>
                    (Inr (), vpush (VEv_ProtocolAgreed p)
                       (v\<lparr>ve_conn := conn_set_protocol p (ve_conn v), ve_flow := Some f\<rparr>)))))"

text \<open>The match on the identifier: the first one is adopted unless it is zero, every later one is checked.\<close>

definition evcc_check_id :: "'x msg \<Rightarrow> 'x evcc \<Rightarrow> (evcc_error + unit) \<times> 'x evcc" where
  "evcc_check_id m v =
     (case message_session_id m of
        None \<Rightarrow> (Inr (), v)
      | Some i \<Rightarrow>
          if \<not> ve_established v then
            if session_id_is_none i then (Inl Evcc_NoSessionAssigned, v)
            else (Inr (), v\<lparr>ve_session_id := i, ve_established := True,
                    ve_timers := disarm (ve_timers v) T_CommunicationSetup\<rparr>)
          else if i \<noteq> ve_session_id v then (Inl (Evcc_WrongSession (ve_session_id v) i), v)
          else (Inr (), v))"

text \<open>What the rest of \<open>dispatch\<close> does with a response of the session.\<close>

definition evcc_deliver :: "'x msg \<Rightarrow> 'x evcc \<Rightarrow> 'x evcc" where
  "evcc_deliver m v =
     (let fails = (case message_outcome m of Some out \<Rightarrow> is_failure out | None \<Rightarrow> False);
          v = (if fails then v\<lparr>ve_flow := map_option flow_failed (ve_flow v)\<rparr> else v);
          why = (case ve_flow v of
             None \<Rightarrow> None
           | Some f \<Rightarrow> if flow_is_paused f then Some VClose_Paused
                       else if flow_is_finished f then Some VClose_Normal else None);
          v = vpush (VEv_Response m) v
      in
      (case why of
         Some why \<Rightarrow> evcc_close why v
       | None \<Rightarrow> if fails then vpush VEv_Failed v else v))"

definition evcc_dispatch :: "instant \<Rightarrow> 'x msg \<Rightarrow> 'x evcc \<Rightarrow> (evcc_error + unit) \<times> 'x evcc" where
  "evcc_dispatch now m v =
     (if is_request m then (Inl (Evcc_NotAResponse (message_name m)), v)
      else
        (case ve_outstanding v of
           None \<Rightarrow> (Inl (Evcc_UnexpectedResponse None (message_name m)), v)
         | Some expected \<Rightarrow>
           if \<not> answers m expected then (Inl (Evcc_UnexpectedResponse (Some expected) (message_name m)), v)
           else
             let v = v\<lparr>ve_timers := disarm (ve_timers v) T_Message, ve_outstanding := None, ve_answered_at := Some now\<rparr> in
             (case msg_doc m of
                Doc_AppProtocolRes res \<Rightarrow> evcc_handshake res v
              | _ \<Rightarrow>
                (case evcc_check_id m v of
                   (Inl e, v) \<Rightarrow> (Inl e, v)
                 | (Inr _, v) \<Rightarrow> (Inr (), evcc_deliver m v)))))"

lemma evcc_frames_kept [simp]:
  "c_frames (ve_conn (vpush e v)) = c_frames (ve_conn v)"
  "c_frames (ve_conn (evcc_close why v)) = c_frames (ve_conn v)"
  "c_frames (ve_conn (evcc_deliver m v)) = c_frames (ve_conn v)"
  by (simp_all add: vpush_def evcc_close_def evcc_deliver_def Let_def split: option.splits)

lemma evcc_dispatch_frames: "evcc_dispatch now m v = (r, v') \<Longrightarrow> c_frames (ve_conn v') = c_frames (ve_conn v)"
  by (auto simp: evcc_dispatch_def evcc_handshake_def evcc_check_id_def Let_def conn_set_protocol_def
      split: if_splits option.splits document.splits sum.splits prod.splits)

text \<open>The loop of \<open>drain\<close> ends with the queue of frames.\<close>

function evcc_drain :: "'x document codecs \<Rightarrow> instant \<Rightarrow> 'x evcc \<Rightarrow> (evcc_error + unit) \<times> 'x evcc" where
  "evcc_drain cs now v =
     (case conn_next_message cs (ve_conn v) of
        (Inl e, c) \<Rightarrow> (Inl (Evcc_Connection e), v\<lparr>ve_conn := c\<rparr>)
      | (Inr None, c) \<Rightarrow> (Inr (), v\<lparr>ve_conn := c\<rparr>)
      | (Inr (Some m), c) \<Rightarrow>
          (case evcc_dispatch now m (v\<lparr>ve_conn := c\<rparr>) of
             (Inl e, v) \<Rightarrow> (Inl e, v)
           | (Inr _, v) \<Rightarrow> if ve_closed v then (Inr (), v) else evcc_drain cs now v))"
  by pat_completeness auto
termination
  by (relation "measure (\<lambda>(cs, now, v). length (c_frames (ve_conn v)))")
    (auto dest!: evcc_dispatch_frames [OF sym] conn_next_message_frames [OF sym])

declare evcc_drain.simps [simp del]

definition evcc_handle_input :: "'x document codecs \<Rightarrow> instant \<Rightarrow> bytes \<Rightarrow> 'x evcc \<Rightarrow> (evcc_error + unit) \<times> 'x evcc" where
  "evcc_handle_input cs now data v =
     (if ve_closed v then (Inr (), v)
      else
        (case (case conn_receive data (ve_conn v) of
                 (Inl e, c) \<Rightarrow> (Inl (Evcc_Connection e), v\<lparr>ve_conn := c\<rparr>)
               | (Inr _, c) \<Rightarrow> evcc_drain cs now (v\<lparr>ve_conn := c\<rparr>)) of
           (Inl e, v) \<Rightarrow> (Inl e, evcc_close_fatal v)
         | (Inr u, v) \<Rightarrow> (Inr u, v)))"

section \<open>Timeouts\<close>

text \<open>
  The loop of \<open>handle_timeout\<close>. Every round disarms the timer that fired and arms none, so one round for each
  timer is enough.
\<close>

fun evcc_timeout_loop :: "nat \<Rightarrow> instant \<Rightarrow> 'x evcc \<Rightarrow> 'x evcc" where
  "evcc_timeout_loop 0 now v = v"
| "evcc_timeout_loop (Suc n) now v =
     (case expired (ve_timers v) now of
        (None, ts) \<Rightarrow> v\<lparr>ve_timers := ts\<rparr>
      | (Some t, ts) \<Rightarrow> evcc_timeout_loop n now (evcc_close (VClose_Timeout t) (v\<lparr>ve_timers := ts\<rparr>)))"

definition evcc_handle_timeout :: "instant \<Rightarrow> 'x evcc \<Rightarrow> 'x evcc" where
  "evcc_handle_timeout now v = evcc_timeout_loop TIMER_COUNT now v"

end
