(* ===== verification/Evcc_Safety.thy ===== *)
theory Evcc_Safety
  imports Evcc
begin

text \<open>
  What the vehicle of theory \<open>Evcc\<close> guarantees in every run: it asks one question at a time and takes only its
  answer, it asks in the order of the sequencer, the identifier of the session is assigned once, and nothing is
  asked or reported behind the end.
\<close>

section \<open>Logs\<close>

datatype 'x evcc_log = Offered app_req | Asked "'x msg" | Got "'x evcc_event" | Rejoined energy_transfer

primrec asks2 :: "'x evcc_log \<Rightarrow> iso2_request list" where
  "asks2 (Offered _) = []"
| "asks2 (Asked m) = as_request2 m"
| "asks2 (Got _) = []"
| "asks2 (Rejoined _) = []"

primrec asks20 :: "'x evcc_log \<Rightarrow> iso20_event list" where
  "asks20 (Offered _) = []"
| "asks20 (Asked m) = as_event20 m"
| "asks20 (Got _) = []"
| "asks20 (Rejoined t) = [Resumed t]"

definition asked2 :: "'x evcc_log list \<Rightarrow> iso2_request list" where
  "asked2 log = concat (map asks2 log)"

definition asked20 :: "'x evcc_log list \<Rightarrow> iso20_event list" where
  "asked20 log = concat (map asks20 log)"

lemma asked_simps [simp]:
  "asked2 [] = []" "asked20 [] = []" "asked2 (xs @ ys) = asked2 xs @ asked2 ys" "asked20 (xs @ ys) = asked20 xs @ asked20 ys"
  "asked2 (x # xs) = asks2 x @ asked2 xs" "asked20 (x # xs) = asks20 x @ asked20 xs"
  by (simp_all add: asked2_def asked20_def)

lemma asked_got [simp]: "asked2 (map Got es) = []" "asked20 (map Got es) = []"
  by (induction es) simp_all

text \<open>The question that waits for its answer, by name; an entry out of turn has no successor.\<close>

fun vturn :: "string option \<Rightarrow> 'x evcc_log \<Rightarrow> string option option" where
  "vturn w (Offered _) = (if w = None then Some (Some ''supportedAppProtocolReq'') else None)"
| "vturn w (Asked m) = (if w = None then Some (Some (message_name m)) else None)"
| "vturn w (Got (VEv_ProtocolAgreed _)) = (if w = Some ''supportedAppProtocolReq'' then Some None else None)"
| "vturn w (Got (VEv_Response m)) =
     (case w of Some n \<Rightarrow> if answers m n then Some None else None | None \<Rightarrow> None)"
| "vturn w (Got VEv_Failed) = Some w"
| "vturn w (Got (VEv_Closed why)) = Some (if why = VClose_Fatal \<or> why = VClose_NoCommonProtocol then None else w)"
| "vturn w (Rejoined _) = Some w"

fun vturns :: "string option \<Rightarrow> 'x evcc_log list \<Rightarrow> string option option" where
  "vturns w [] = Some w"
| "vturns w (x # log) = Option.bind (vturn w x) (\<lambda>w. vturns w log)"

lemma vturns_append [simp]: "vturns w (xs @ ys) = Option.bind (vturns w xs) (\<lambda>w. vturns w ys)"
  by (induction xs arbitrary: w) (simp_all add: bind_assoc)

fun is_vclose :: "'x evcc_log \<Rightarrow> bool" where
  "is_vclose (Got (VEv_Closed _)) = True"
| "is_vclose _ = False"

fun is_said :: "'x evcc_log \<Rightarrow> bool" where
  "is_said (Rejoined _) = False"
| "is_said _ = True"

section \<open>The invariant\<close>

definition asked_inv :: "'x evcc_log list \<Rightarrow> 'x evcc \<Rightarrow> bool" where
  "asked_inv log v \<longleftrightarrow>
     (case ve_flow v of
        None \<Rightarrow> asked2 log = [] \<and> asked20 log = []
      | Some f \<Rightarrow> flow_ran (vcfg_security (ve_config v)) (asked2 log) (asked20 log) f)"

definition vclose_inv :: "'x evcc_log list \<Rightarrow> 'x evcc \<Rightarrow> bool" where
  "vclose_inv log v \<longleftrightarrow>
     (if ve_closed v then closes_once is_vclose is_said log \<and> armed (ve_timers v) = {} else \<not> list_ex is_vclose log)"

definition id_inv :: "'x evcc_log list \<Rightarrow> 'x evcc \<Rightarrow> bool" where
  "id_inv log v \<longleftrightarrow> (ve_established v \<longrightarrow> \<not> session_id_is_none (ve_session_id v))
     \<and> (\<forall>m i. Got (VEv_Response m) \<in> set log \<longrightarrow> message_session_id m = Some i \<longrightarrow>
          ve_established v \<and> i = ve_session_id v)"

text \<open>All but the turn, which an answer that is an error has already taken.\<close>

definition evcc_base :: "'x evcc_log list \<Rightarrow> 'x evcc \<Rightarrow> bool" where
  "evcc_base log v \<longleftrightarrow> asked_inv log v \<and> vclose_inv log v \<and> id_inv log v \<and> timers_inv (ve_timers v) \<and> conn_inv (ve_conn v)
     \<and> (ve_outstanding v = Some ''supportedAppProtocolReq'' \<longrightarrow> ve_flow v = None) \<and> vturns None log \<noteq> None"

definition evcc_inv :: "'x evcc_log list \<Rightarrow> 'x evcc \<Rightarrow> bool" where
  "evcc_inv log v \<longleftrightarrow> evcc_base log v \<and> vturns None log = Some (ve_outstanding v)"

definition gains ::
    "('x evcc_log list \<Rightarrow> 'x evcc \<Rightarrow> bool) \<Rightarrow> 'x evcc_log list \<Rightarrow> 'x evcc \<Rightarrow> 'x evcc \<Rightarrow> bool" where
  "gains P log v v' \<longleftrightarrow>
     (\<exists>evs. ve_events v' = ve_events v @ evs \<and> ve_config v' = ve_config v \<and> P (log @ map Got evs) v')"

lemma gainsI:
  "ve_events v' = ve_events v @ evs \<Longrightarrow> ve_config v' = ve_config v \<Longrightarrow> P (log @ map Got evs) v' \<Longrightarrow> gains P log v v'"
  by (auto simp: gains_def)

lemma gains_trans:
  assumes "gains P log v v'" and "\<And>log. P log v' \<Longrightarrow> gains Q log v' v''"
  shows "gains Q log v v''"
proof -
  obtain evs where 1: "ve_events v' = ve_events v @ evs" "ve_config v' = ve_config v" "P (log @ map Got evs) v'"
    using assms(1) by (auto simp: gains_def)
  obtain evs' where "ve_events v'' = ve_events v' @ evs'" "ve_config v'' = ve_config v'"
      "Q ((log @ map Got evs) @ map Got evs') v''"
    using assms(2) [OF 1(3)] by (auto simp: gains_def)
  with 1 show ?thesis by (intro gainsI [where evs = "evs @ evs'"]) simp_all
qed

lemmas evcc_parts = asked_inv_def vclose_inv_def id_inv_def evcc_base_def evcc_inv_def

lemma gains_none: "P log v' \<Longrightarrow> ve_events v' = ve_events v \<Longrightarrow> ve_config v' = ve_config v \<Longrightarrow> gains P log v v'"
  by (rule gainsI [where evs = "[]"]) simp_all

section \<open>Closing\<close>

lemma evcc_close_gains:
  assumes "evcc_base log v" and "\<not> ve_closed v" and "vturns None log = Some w"
    and "vturn w (Got (VEv_Closed why) :: 'x evcc_log) = Some (ve_outstanding v)"
  shows "gains evcc_inv log (v :: 'x evcc) (evcc_close why v)"
proof (rule gainsI [where evs = "[VEv_Closed why]"])
  have "closes_once is_vclose is_said (log @ [Got (VEv_Closed why)])"
    using assms(1,2) by (intro closes_onceI) (auto simp: evcc_parts)
  then show "evcc_inv (log @ map Got [VEv_Closed why]) (evcc_close why v)"
    using assms by (auto simp: evcc_parts evcc_close_def vpush_def split: option.splits if_splits)
qed (use assms(2) in \<open>simp_all add: evcc_close_def vpush_def\<close>)

lemma evcc_close_fatal_gains:
  assumes "evcc_base log v" and "\<not> ve_closed v"
  shows "gains evcc_inv log v (evcc_close_fatal v)"
proof -
  let ?v = "v\<lparr>ve_conn := conn_reset_input (ve_conn v), ve_outstanding := None\<rparr>"
  have base: "evcc_base log ?v" using assms(1) by (simp add: evcc_parts conn_inv_reset split: option.splits)
  obtain w where w: "vturns None log = Some w" using assms(1) by (auto simp: evcc_base_def)
  have "gains evcc_inv log ?v (evcc_close VClose_Fatal ?v)" by (rule evcc_close_gains [OF base _ w]) (use assms(2) in simp_all)
  then show ?thesis using assms(2) by (simp add: gains_def evcc_close_fatal_def)
qed

section \<open>Reading\<close>

lemma answers_handshake:
  "answers m n \<Longrightarrow> msg_doc m = Doc_AppProtocolRes res \<Longrightarrow> n = ''supportedAppProtocolReq''"
proof -
  assume "answers m n" and "msg_doc m = Doc_AppProtocolRes res"
  moreover have "strip_suffix ''Res'' ''supportedAppProtocolRes'' = Some ''supportedAppProtocol''" by (simp add: strip_suffix_def)
  ultimately have "strip_suffix ''Req'' n = Some ''supportedAppProtocol''"
    by (simp add: answers_stem same_stem_def message_name_def)
  then show "n = ''supportedAppProtocolReq''" by (simp add: strip_suffix_Some)
qed

lemma evcc_handshake_gains:
  assumes base: "evcc_base log v" and opn: "\<not> ve_closed v" and turn: "vturns None log = Some (Some ''supportedAppProtocolReq'')"
    and idle: "ve_outstanding v = None" and fl: "ve_flow v = None" and hs: "evcc_handshake res v = (r, v')"
  shows "case r of Inl _ \<Rightarrow> gains evcc_base log v v' \<and> \<not> ve_closed v' | Inr _ \<Rightarrow> gains evcc_inv log v v'"
proof -
  have close: "gains evcc_inv log v (evcc_close VClose_NoCommonProtocol (v\<lparr>ve_iso20_set := st\<rparr>))" for st
  proof -
    have "evcc_base log (v\<lparr>ve_iso20_set := st\<rparr>)" using base by (simp add: evcc_parts split: option.splits)
    from evcc_close_gains [OF this _ turn] opn idle show ?thesis by (simp add: gains_def)
  qed
  have agreed: "gains evcc_inv log v (vpush (VEv_ProtocolAgreed p)
      (v\<lparr>ve_iso20_set := st, ve_conn := conn_set_protocol p (ve_conn v), ve_flow := Some f\<rparr>))"
    if "flow_new p (vcfg_security (ve_config v)) = Some f" for p st f
  proof (rule gainsI [where evs = "[VEv_ProtocolAgreed p]"])
    show "evcc_inv (log @ map Got [VEv_ProtocolAgreed p]) (vpush (VEv_ProtocolAgreed p)
      (v\<lparr>ve_iso20_set := st, ve_conn := conn_set_protocol p (ve_conn v), ve_flow := Some f\<rparr>))"
      using base opn turn idle fl flow_ran_new [OF that] by (auto simp: evcc_parts vpush_def)
  qed (simp_all add: vpush_def)
  have "v\<lparr>ve_iso20_set := ve_iso20_set v\<rparr> = v" by simp
  then have plain: "gains evcc_inv log v (evcc_close VClose_NoCommonProtocol v)" using close [of "ve_iso20_set v"] by simp
  have err: "gains evcc_base log v v" using base by (rule gains_none) simp_all
  show ?thesis using hs opn close plain agreed err
    by (auto simp: evcc_handshake_def Let_def split: if_splits option.splits prod.splits)
qed

lemma evcc_check_id_effect:
  assumes "evcc_check_id m v = (r, v')" and "evcc_base log v"
  shows "evcc_base log v' \<and> ve_events v' = ve_events v \<and> ve_config v' = ve_config v \<and> ve_closed v' = ve_closed v
    \<and> ve_outstanding v' = ve_outstanding v \<and> ve_flow v' = ve_flow v"
  and "r = Inr u \<Longrightarrow> message_session_id m = Some i \<Longrightarrow> ve_established v' \<and> i = ve_session_id v'"
proof -
  have arm0: "armed (disarm ts t) = {}" if "armed ts = {}" "timers_inv ts" for ts t
    using that by (auto simp: armed_def is_armed_def ta.look_drop)
  show "evcc_base log v' \<and> ve_events v' = ve_events v \<and> ve_config v' = ve_config v \<and> ve_closed v' = ve_closed v
    \<and> ve_outstanding v' = ve_outstanding v \<and> ve_flow v' = ve_flow v"
    using assms arm0 by (fastforce simp: evcc_check_id_def evcc_parts split: option.splits if_splits)
  show "r = Inr u \<Longrightarrow> message_session_id m = Some i \<Longrightarrow> ve_established v' \<and> i = ve_session_id v'"
    using assms(1) by (auto simp: evcc_check_id_def split: if_splits)
qed

lemma evcc_deliver_gains:
  assumes base: "evcc_base log v" and opn: "\<not> ve_closed v" and turn: "vturns None log = Some (Some n)" and ans: "answers m n"
    and idle: "ve_outstanding v = None"
    and id: "\<And>i. message_session_id m = Some i \<Longrightarrow> ve_established v \<and> i = ve_session_id v"
  shows "gains evcc_inv log v (evcc_deliver m v)"
proof -
  define fails where "fails = (case message_outcome m of Some out \<Rightarrow> is_failure out | None \<Rightarrow> False)"
  define w where "w = (if fails then v\<lparr>ve_flow := map_option flow_failed (ve_flow v)\<rparr> else v)"
  have w: "ve_events w = ve_events v" "ve_config w = ve_config v" "ve_outstanding w = None" "\<not> ve_closed w"
      "ve_established w = ve_established v" "ve_session_id w = ve_session_id v"
    using idle opn by (simp_all add: w_def)
  have bw: "evcc_base log w" using base flow_ran_failed by (auto simp: w_def evcc_parts split: option.splits)
  let ?log = "log @ [Got (VEv_Response m)]"
  let ?v = "vpush (VEv_Response m) w"
  have inv: "evcc_inv ?log ?v" using bw turn ans id w by (auto simp: evcc_parts vpush_def split: option.splits)
  then have tb: "evcc_base ?log ?v" "vturns None ?log = Some (ve_outstanding ?v)" "\<not> ve_closed ?v"
    using w by (auto simp: evcc_inv_def vpush_def)
  have "gains evcc_inv log v ?v" by (rule gainsI [where evs = "[VEv_Response m]"]) (use inv w in \<open>auto simp: vpush_def\<close>)
  moreover have "gains evcc_inv log v (evcc_close why ?v)" if "why = VClose_Paused \<or> why = VClose_Normal" for why
  proof -
    have "gains evcc_inv ?log ?v (evcc_close why ?v)" by (rule evcc_close_gains [OF tb(1,3,2)]) (use that in auto)
    then obtain evs where "ve_events (evcc_close why ?v) = ve_events ?v @ evs" "ve_config (evcc_close why ?v) = ve_config ?v"
        "evcc_inv (?log @ map Got evs) (evcc_close why ?v)" by (auto simp: gains_def)
    then show ?thesis using w by (intro gainsI [where evs = "VEv_Response m # evs"]) (simp_all add: vpush_def)
  qed
  moreover have "gains evcc_inv log v (vpush VEv_Failed ?v)"
  proof (rule gainsI [where evs = "[VEv_Response m, VEv_Failed]"])
    show "evcc_inv (log @ map Got [VEv_Response m, VEv_Failed]) (vpush VEv_Failed ?v)"
      using inv tb(3) by (auto simp: evcc_parts vpush_def split: option.splits)
  qed (use w in \<open>simp_all add: vpush_def\<close>)
  ultimately show ?thesis unfolding evcc_deliver_def Let_def fails_def [symmetric] w_def [symmetric] by (auto split: option.splits)
qed

lemma evcc_dispatch_gains:
  assumes inv: "evcc_inv log v" and opn: "\<not> ve_closed v" and d: "evcc_dispatch now m v = (r, v')"
  shows "case r of Inl _ \<Rightarrow> gains evcc_base log v v' \<and> \<not> ve_closed v' | Inr _ \<Rightarrow> gains evcc_inv log v v'"
proof -
  have err: "gains evcc_base log v v" using inv by (intro gains_none) (simp_all add: evcc_inv_def)
  consider (bad) "is_request m \<or> ve_outstanding v = None \<or> (\<exists>n. ve_outstanding v = Some n \<and> \<not> answers m n)"
    | (ok) n where "\<not> is_request m" "ve_outstanding v = Some n" "answers m n" by (cases "ve_outstanding v") auto
  then show ?thesis
  proof cases
    case bad
    then show ?thesis using d opn err by (auto simp: evcc_dispatch_def split: if_splits)
  next
    case ok
    let ?v = "v\<lparr>ve_timers := disarm (ve_timers v) T_Message, ve_outstanding := None, ve_answered_at := Some now\<rparr>"
    have base: "evcc_base log ?v" using inv opn by (simp add: evcc_parts split: option.splits)
    have turn: "vturns None log = Some (Some n)" using inv ok by (simp add: evcc_inv_def)
    have same: "gains p log ?v w \<Longrightarrow> gains p log v w" for p w by (simp add: gains_def)
    show ?thesis
    proof (cases "\<exists>res. msg_doc m = Doc_AppProtocolRes res")
      case True
      then obtain res where res: "msg_doc m = Doc_AppProtocolRes res" by blast
      have n: "n = ''supportedAppProtocolReq''" using answers_handshake ok(3) res by blast
      then have fl: "ve_flow ?v = None" using inv ok(2) by (simp add: evcc_inv_def evcc_base_def)
      have hs: "evcc_handshake res ?v = (r, v')" using d ok res by (simp add: evcc_dispatch_def Let_def)
      have "\<not> ve_closed ?v" "ve_outstanding ?v = None" using opn by simp_all
      from evcc_handshake_gains [OF base this(1) turn [unfolded n] this(2) fl hs] show ?thesis
        using same by (cases r) auto
    next
      case False
      obtain c v1 where ck: "evcc_check_id m ?v = (c, v1)" by fastforce
      note e = evcc_check_id_effect(1) [OF ck base]
      have out: "(r, v') = (case c of Inl e \<Rightarrow> (Inl e, v1) | Inr _ \<Rightarrow> (Inr (), evcc_deliver m v1))"
        using d ok False ck by (simp add: evcc_dispatch_def Let_def split: document.splits sum.splits)
      show ?thesis
      proof (cases c)
        case (Inl x)
        then show ?thesis using out e opn gains_none [of evcc_base log v1 v] by simp
      next
        case (Inr x)
        have "gains evcc_inv log v1 (evcc_deliver m v1)"
        proof (rule evcc_deliver_gains [where n = n])
          show "\<And>i. message_session_id m = Some i \<Longrightarrow> ve_established v1 \<and> i = ve_session_id v1"
            using evcc_check_id_effect(2) [OF ck base] Inr by blast
        qed (use e turn ok opn in simp_all)
        then show ?thesis using out Inr e by (simp add: gains_def)
      qed
    qed
  qed
qed

lemma gains_conn: "gains P log (v\<lparr>ve_conn := c\<rparr>) v' = gains P log v v'"
  by (simp add: gains_def)

lemma evcc_inv_conn: "evcc_inv log v \<Longrightarrow> conn_inv c \<Longrightarrow> evcc_inv log (v\<lparr>ve_conn := c\<rparr>)"
  by (simp add: evcc_parts split: option.splits)

lemma evcc_drain_gains:
  "evcc_inv log v \<Longrightarrow> \<not> ve_closed v \<Longrightarrow> evcc_drain cs now v = (r, v') \<Longrightarrow>
     case r of Inl _ \<Rightarrow> gains evcc_base log v v' \<and> \<not> ve_closed v' | Inr _ \<Rightarrow> gains evcc_inv log v v'"
proof (induction cs now v arbitrary: log rule: evcc_drain.induct)
  case (1 cs now v)
  obtain q c where nm: "conn_next_message cs (ve_conn v) = (q, c)" by fastforce
  have "conn_inv c" using conn_next_message_inv [OF _ nm] "1.prems"(1) by (simp add: evcc_parts)
  with "1.prems"(1) have inv: "evcc_inv log (v\<lparr>ve_conn := c\<rparr>)" by (rule evcc_inv_conn)
  show ?case
  proof (cases "\<exists>m. q = Inr (Some m)")
    case True
    then obtain m where q: "q = Inr (Some m)" by blast
    obtain d v1 where disp: "evcc_dispatch now m (v\<lparr>ve_conn := c\<rparr>) = (d, v1)" by fastforce
    have step: "case d of Inl _ \<Rightarrow> gains evcc_base log v v1 \<and> \<not> ve_closed v1 | Inr _ \<Rightarrow> gains evcc_inv log v v1"
      using evcc_dispatch_gains [OF inv _ disp] "1.prems"(2) by (cases d) (simp_all add: gains_conn)
    show ?thesis
    proof (cases "isl d \<or> ve_closed v1")
      case True
      then show ?thesis using "1.prems"(3) nm q disp step
        by (cases d) (auto simp: evcc_drain.simps [of cs now v] split: if_splits)
    next
      case False
      then obtain u where u: "d = Inr u" by (cases d) auto
      then have g: "gains evcc_inv log v v1" using step by simp
      have dr: "evcc_drain cs now v1 = (r, v')" using "1.prems"(3) nm q disp u False by (simp add: evcc_drain.simps [of cs now v])
      have ih: "case r of Inl _ \<Rightarrow> gains evcc_base log' v1 v' \<and> \<not> ve_closed v' | Inr _ \<Rightarrow> gains evcc_inv log' v1 v'"
        if "evcc_inv log' v1" for log'
        using "1.IH" [OF nm [symmetric, unfolded q] refl refl disp [symmetric, unfolded u] refl _ that _ dr] False by simp
      show ?thesis
      proof (cases r)
        case (Inl e)
        then show ?thesis using gains_trans [OF g, of evcc_base v'] ih g by (auto simp: gains_def)
      next
        case (Inr x)
        then show ?thesis using gains_trans [OF g, of evcc_inv v'] ih by simp
      qed
    qed
  next
    case False
    then have v': "v' = v\<lparr>ve_conn := c\<rparr>" and "r \<noteq> Inr () \<longrightarrow> isl r"
      using "1.prems"(3) nm by (auto simp: evcc_drain.simps [of cs now v] split: sum.splits option.splits)
    then show ?thesis using inv "1.prems"(2) gains_none [of evcc_inv log v' v] gains_none [of evcc_base log v' v]
      by (cases r) (auto simp: evcc_inv_def)
  qed
qed

lemma evcc_handle_input_gains:
  assumes inv: "evcc_inv log v" and h: "evcc_handle_input cs now data v = (res, v')"
  shows "gains evcc_inv log v v'"
proof (cases "ve_closed v")
  case True
  then show ?thesis using assms by (auto simp: evcc_handle_input_def intro: gains_none)
next
  case False
  obtain r c where rc: "conn_receive data (ve_conn v) = (r, c)" by fastforce
  have ci: "conn_inv (ve_conn v)" using inv by (simp add: evcc_parts)
  have inv': "evcc_inv log (v\<lparr>ve_conn := c\<rparr>)" using evcc_inv_conn inv conn_receive_inv [OF ci rc] by blast
  obtain q w where p: "evcc_drain cs now (v\<lparr>ve_conn := c\<rparr>) = (q, w)" by fastforce
  note dr = evcc_drain_gains [OF inv' _ p]
  have fatal: "gains evcc_inv log v (evcc_close_fatal x)" if "gains evcc_base log v x" "\<not> ve_closed x" for x
    using gains_trans [OF that(1)] evcc_close_fatal_gains that(2) by blast
  show ?thesis
  proof (cases r)
    case (Inl e)
    then have "v' = evcc_close_fatal (v\<lparr>ve_conn := c\<rparr>)" using h False rc by (simp add: evcc_handle_input_def)
    moreover have "gains evcc_base log v (v\<lparr>ve_conn := c\<rparr>)" using inv' by (intro gains_none) (simp_all add: evcc_inv_def)
    ultimately show ?thesis using fatal False by simp
  next
    case (Inr u)
    then have "v' = (case q of Inl _ \<Rightarrow> evcc_close_fatal w | Inr _ \<Rightarrow> w)"
      using h False rc p by (auto simp: evcc_handle_input_def split: sum.splits)
    then show ?thesis using dr False fatal by (cases q) (auto simp: gains_conn)
  qed
qed

section \<open>Asking\<close>

lemma evcc_send_effect:
  assumes "evcc_send cs m v = (r, v')"
  obtains tx where "v' = v\<lparr>ve_conn := (ve_conn v)\<lparr>c_tx := tx\<rparr>\<rparr>"
proof -
  obtain r' c' where c: "conn_send cs m (ve_conn v) = (r', c')" by fastforce
  obtain tx where "c' = (ve_conn v)\<lparr>c_tx := tx\<rparr>" using c by (rule conn_send_effect)
  then show thesis using assms that [of tx] c by (auto simp: evcc_send_def split: sum.splits)
qed

lemma evcc_inv_tx: "evcc_inv log v \<Longrightarrow> evcc_inv log (v\<lparr>ve_conn := (ve_conn v)\<lparr>c_tx := tx\<rparr>\<rparr>)"
  by (rule evcc_inv_conn) (simp_all add: evcc_parts)

lemma evcc_start_inv:
  assumes inv: "evcc_inv log v" and st: "evcc_start cs now v = (r, v')"
  shows "ve_events v' = ve_events v \<and> ve_config v' = ve_config v \<and>
    (case r of Inl _ \<Rightarrow> evcc_inv log v' | Inr _ \<Rightarrow> evcc_inv (log @ [Offered (the (ve_offer v'))]) v')"
proof (cases "ve_outstanding v \<noteq> None \<or> ve_flow v \<noteq> None \<or> ve_closed v \<or> protocols_is_empty (advertised (ve_config v))")
  case True
  then show ?thesis using assms by (auto simp: evcc_start_def split: if_splits)
next
  case False
  let ?req = "advertising_with (advertised (ve_config v)) (vcfg_iso20_sets (ve_config v))"
  obtain q w where snd: "evcc_send cs (of_doc (Doc_AppProtocolReq ?req)) v = (q, w)" by fastforce
  obtain tx where w: "w = v\<lparr>ve_conn := (ve_conn v)\<lparr>c_tx := tx\<rparr>\<rparr>" using snd by (rule evcc_send_effect)
  have inv': "evcc_inv log w" using evcc_inv_tx inv w by simp
  show ?thesis
  proof (cases q)
    case (Inl e)
    then show ?thesis using st False snd inv' w by (auto simp: evcc_start_def Let_def)
  next
    case (Inr u)
    then obtain ts where v': "v' = w\<lparr>ve_offer := Some ?req, ve_timers := ts, ve_outstanding := Some ''supportedAppProtocolReq''\<rparr>"
        "r = Inr ()" "timers_inv (ve_timers w) \<Longrightarrow> timers_inv ts"
      using st False snd by (auto simp: evcc_start_def Let_def)
    then show ?thesis using inv' False w by (auto simp: evcc_parts split: option.splits)
  qed
qed

lemma request_not_handshake:
  "iso2_of_body b = Some q \<Longrightarrow> body2_name b \<noteq> ''supportedAppProtocolReq''"
  "iso20_of_common d1 = Some r \<Longrightarrow> common_name d1 \<noteq> ''supportedAppProtocolReq''"
  "iso20_of_ac d2 = Some r \<Longrightarrow> ac_name d2 \<noteq> ''supportedAppProtocolReq''"
  "iso20_of_dc d3 = Some r \<Longrightarrow> dc_name d3 \<noteq> ''supportedAppProtocolReq''"
  "iso20_of_wpt d4 = Some r \<Longrightarrow> wpt_name d4 \<noteq> ''supportedAppProtocolReq''"
  "iso20_of_acdp d5 = Some r \<Longrightarrow> acdp_name d5 \<noteq> ''supportedAppProtocolReq''"
  subgoal by (cases b; simp)
  subgoal by (cases d1; simp)
  subgoal by (cases d2; simp)
  subgoal by (cases d3; simp)
  subgoal by (cases d4; simp)
  subgoal by (cases d5; simp)
  done

lemma permitted_name: "permitted f m \<Longrightarrow> message_name m \<noteq> ''supportedAppProtocolReq''"
proof (erule flow_permittedE)
  fix s r
  assume "iso2_request_of m = Some r"
  then show ?thesis
    by (auto simp: iso2_request_of_def message_name_def bind_eq_Some_conv dest: request_not_handshake
        split: document.splits iso2_doc.splits)
next
  fix s r
  assume "iso20_request_of m = Some r"
  then show ?thesis
    by (cases "msg_doc m") (auto simp: iso20_request_of_def message_name_def dest: request_not_handshake
        split: ac_der_iec_doc.splits ac_der_sae_doc.splits)
qed

lemma evcc_enter_phase_effect:
  "\<exists>ph ts. evcc_enter_phase now v = v\<lparr>ve_phase := ph, ve_timers := ts\<rparr> \<and> (timers_inv (ve_timers v) \<longrightarrow> timers_inv ts)"
proof (intro exI conjI)
  show "evcc_enter_phase now v = v\<lparr>ve_phase := ve_phase (evcc_enter_phase now v), ve_timers := ve_timers (evcc_enter_phase now v)\<rparr>"
    and "timers_inv (ve_timers v) \<longrightarrow> timers_inv (ve_timers (evcc_enter_phase now v))"
    by (auto simp: evcc_enter_phase_def Let_def split: option.splits)
qed

text \<open>
  The ways \<open>request\<close> ends: an error that moves nothing but, if encoding failed, the connection; or a request on
  its way. The flow cannot refuse what it permitted a moment before.
\<close>

lemma evcc_requestE:
  assumes "evcc_request cs now m v = (r, v')"
  obtains (refused) e tx where "r = Inl e" "v' = v\<lparr>ve_conn := (ve_conn v)\<lparr>c_tx := tx\<rparr>\<rparr>"
  | (sent) f f' b m' c ph ts where "r = Inr ()" "\<not> ve_closed v" "ve_outstanding v = None" "ve_flow v = Some f" "permitted f m"
      "set_session_id (ve_session_id v) m = (b, m')" "conn_send cs m' (ve_conn v) = (Inr (), c)"
      "flow_accept f m' = (Inr (), f')" "timers_inv (ve_timers v) \<longrightarrow> timers_inv ts"
      "v' = v\<lparr>ve_conn := c, ve_flow := Some f', ve_phase := ph, ve_timers := ts, ve_outstanding := Some (message_name m')\<rparr>"
proof -
  have same: "v = v\<lparr>ve_conn := (ve_conn v)\<lparr>c_tx := c_tx (ve_conn v)\<rparr>\<rparr>" by simp
  consider (no) e where "r = Inl e" "v' = v"
    | (yes) f where "\<not> ve_closed v" "ve_outstanding v = None" "ve_flow v = Some f" "permitted f m"
    using assms by (auto simp: evcc_request_def permitted_def split: if_splits option.splits sum.splits)
  then show thesis
  proof cases
    case no
    then show thesis using refused same by metis
  next
    case yes
    obtain b m' where st: "set_session_id (ve_session_id v) m = (b, m')" by fastforce
    obtain q c where snd: "conn_send cs m' (ve_conn v) = (q, c)" by fastforce
    have acc: "fst (flow_accept f m') = Inr ()"
      using yes(4) flow_accept_stamped(1) [OF st] flow_accept_permits [of f m] by (simp add: permitted_def)
    then obtain f' where f': "flow_accept f m' = (Inr (), f')" by (cases "flow_accept f m'") auto
    have req: "is_request m" using flow_permitted_request yes(4) .
    show thesis
    proof (cases q)
      case (Inl e)
      obtain tx where "c = (ve_conn v)\<lparr>c_tx := tx\<rparr>" using snd by (rule conn_send_effect)
      then show thesis using assms yes st snd Inl req
        by (intro refused [of "Evcc_Connection e" tx]) (auto simp: evcc_request_def evcc_send_def permitted_def Let_def)
    next
      case (Inr u)
      let ?w = "v\<lparr>ve_conn := c, ve_flow := Some f'\<rparr>"
      obtain ph ts where ep: "evcc_enter_phase now ?w = ?w\<lparr>ve_phase := ph, ve_timers := ts\<rparr>" "timers_inv (ve_timers ?w) \<longrightarrow> timers_inv ts"
        using evcc_enter_phase_effect by blast
      obtain d where "(r, v') = (Inr (), (evcc_enter_phase now ?w)\<lparr>ve_timers := arm (ve_timers (evcc_enter_phase now ?w)) T_Message now d,
          ve_outstanding := Some (message_name m')\<rparr>)"
        using assms yes st snd Inr f' req by (auto simp: evcc_request_def evcc_send_def permitted_def Let_def)
      then show thesis using yes st snd Inr f' ep
        by (intro sent [of f b m' c f' "arm ts T_Message now d" ph]) auto
    qed
  qed
qed

lemma evcc_request_inv:
  assumes inv: "evcc_inv log v" and rq: "evcc_request cs now m v = (r, v')"
  shows "ve_events v' = ve_events v \<and> ve_config v' = ve_config v \<and>
    (case r of Inl _ \<Rightarrow> evcc_inv log v'
     | Inr _ \<Rightarrow> evcc_inv (log @ [Asked (snd (set_session_id (ve_session_id v) m))]) v')"
  using rq
proof (cases rule: evcc_requestE)
  case (refused e tx)
  then show ?thesis using evcc_inv_tx [OF inv, of tx] by simp
next
  case (sent f f' b m' c ph ts)
  obtain tx where "c = (ve_conn v)\<lparr>c_tx := tx\<rparr>" using sent(7) by (rule conn_send_effect)
  then have ci: "conn_inv c" using inv by (simp add: evcc_parts)
  have nm: "message_name m' \<noteq> ''supportedAppProtocolReq''"
    using permitted_name [of f m'] sent(8) flow_accept_permits [of f m'] by (simp add: permitted_def)
  have "flow_ran (vcfg_security (ve_config v)) (asked2 log) (asked20 log) f" using inv sent(4) by (simp add: evcc_parts)
  from flow_ran_accept [OF this sent(8)] show ?thesis using inv sent ci nm by (auto simp: evcc_parts)
qed

section \<open>Timeouts and rejoining\<close>

lemma evcc_timeout_loop_gains: "evcc_inv log v \<Longrightarrow> gains evcc_inv log v (evcc_timeout_loop n now v)"
proof (induction n arbitrary: log v)
  case 0
  then show ?case by (auto intro: gains_none)
next
  case (Suc n)
  obtain t ts where ex: "expired (ve_timers v) now = (t, ts)" by fastforce
  show ?case
  proof (cases t)
    case None
    then have "ts = ve_timers v" using expired_None_state ex by blast
    then show ?thesis using Suc.prems ex None by (auto intro: gains_none)
  next
    case (Some u)
    have ti: "timers_inv (ve_timers v)" "timers_inv ts" using expired_inv [OF _ ex] Suc.prems by (simp_all add: evcc_parts)
    then have "u \<in> armed (ve_timers v)" using expired_armed ex Some by blast
    then have opn: "\<not> ve_closed v" using Suc.prems by (auto simp: evcc_parts)
    let ?v = "v\<lparr>ve_timers := ts\<rparr>"
    have b: "evcc_base log ?v" "vturns None log = Some (ve_outstanding ?v)"
      using Suc.prems opn ti by (auto simp: evcc_parts split: option.splits)
    have "gains evcc_inv log ?v (evcc_close (VClose_Timeout u) ?v)"
      by (rule evcc_close_gains [OF b(1) _ b(2)]) (use opn in simp_all)
    then have "gains evcc_inv log v (evcc_close (VClose_Timeout u) ?v)" by (simp add: gains_def)
    from gains_trans [OF this Suc.IH] show ?thesis using ex Some by simp
  qed
qed

lemma evcc_timeout_done:
  "timers_inv (ve_timers v) \<Longrightarrow> ve_closed v \<longrightarrow> armed (ve_timers v) = {} \<Longrightarrow> v' = evcc_timeout_loop (Suc (Suc n)) now v \<Longrightarrow>
     fst (expired (ve_timers v') now) = None \<and> (ve_closed v' \<longleftrightarrow> ve_closed v \<or> fst (expired (ve_timers v) now) \<noteq> None)"
proof -
  assume a: "timers_inv (ve_timers v)" "ve_closed v \<longrightarrow> armed (ve_timers v) = {}" "v' = evcc_timeout_loop (Suc (Suc n)) now v"
  obtain t ts where ex: "expired (ve_timers v) now = (t, ts)" by fastforce
  show ?thesis
  proof (cases t)
    case None
    then show ?thesis using ex expired_None_state [of "ve_timers v" now ts] a(3) by simp
  next
    case (Some u)
    have "u \<in> armed (ve_timers v)" using expired_armed [OF a(1)] ex Some by blast
    then have "\<not> ve_closed v" using a(2) by auto
    moreover from this obtain w where w: "evcc_close (VClose_Timeout u) (v\<lparr>ve_timers := ts\<rparr>) = w" "ve_closed w" "ve_timers w = disarm_all ts"
      by (simp add: evcc_close_def vpush_def)
    moreover have "fst (expired (disarm_all ts) now) = None" by (simp add: expired_None timers_new_inv)
    moreover from this obtain ts' where "expired (disarm_all ts) now = (None, ts')" by (cases "expired (disarm_all ts) now") auto
    moreover from this have "ts' = disarm_all ts" by (rule expired_None_state)
    ultimately show ?thesis using ex Some a(3) by simp
  qed
qed

lemma evcc_resume_inv:
  assumes inv: "evcc_inv log v" and rs: "evcc_resume t v = (r, v')"
  shows "ve_events v' = ve_events v \<and> ve_config v' = ve_config v \<and>
    (case r of Inl _ \<Rightarrow> evcc_inv log v' | Inr _ \<Rightarrow> evcc_inv (log @ [Rejoined t]) v')"
proof (cases "ve_flow v")
  case None
  then show ?thesis using assms by (auto simp: evcc_resume_def)
next
  case (Some f)
  obtain q f' where fr: "flow_resume t f = (q, f')" by fastforce
  then have v': "r = q" "v' = v\<lparr>ve_flow := Some f'\<rparr>" using rs Some by (simp_all add: evcc_resume_def)
  show ?thesis
  proof (cases q)
    case (Inl e)
    then have "f' = f" using flow_resume_refused fr by blast
    then show ?thesis using inv v' Inl Some by (simp add: evcc_parts)
  next
    case (Inr u)
    have "flow_ran (vcfg_security (ve_config v)) (asked2 log) (asked20 log) f" using inv Some by (simp add: evcc_parts)
    from flow_ran_resume [OF this] fr Inr have "flow_ran (vcfg_security (ve_config v)) (asked2 log) (asked20 log @ [Resumed t]) f'" by simp
    then show ?thesis using inv v' Inr Some closes_once_snoc [of is_vclose is_said log "Rejoined t"] by (auto simp: evcc_parts)
  qed
qed

section \<open>Runs of a vehicle\<close>

definition gained :: "'x evcc \<Rightarrow> 'x evcc \<Rightarrow> 'x evcc_log list" where
  "gained v v' = map Got (drop (length (ve_events v)) (ve_events v'))"

text \<open>A vehicle driven in any way by a peer, a clock and an application.\<close>

inductive evcc_run :: "'x document codecs \<Rightarrow> evcc_config \<Rightarrow> 'x evcc_log list \<Rightarrow> 'x evcc \<Rightarrow> bool" for cs config where
  evcc_begins: "evcc_run cs config [] (evcc_new config)"
| evcc_starts: "evcc_run cs config log v \<Longrightarrow> evcc_start cs now v = (r, v') \<Longrightarrow>
    evcc_run cs config (case r of Inl _ \<Rightarrow> log | Inr _ \<Rightarrow> log @ [Offered (the (ve_offer v'))]) v'"
| evcc_asks: "evcc_run cs config log v \<Longrightarrow> evcc_request cs now m v = (r, v') \<Longrightarrow>
    evcc_run cs config (case r of Inl _ \<Rightarrow> log | Inr _ \<Rightarrow> log @ [Asked (snd (set_session_id (ve_session_id v) m))]) v'"
| evcc_reads: "evcc_run cs config log v \<Longrightarrow> evcc_handle_input cs now data v = (r, v') \<Longrightarrow>
    evcc_run cs config (log @ gained v v') v'"
| evcc_waits: "evcc_run cs config log v \<Longrightarrow> v' = evcc_handle_timeout now v \<Longrightarrow> evcc_run cs config (log @ gained v v') v'"
| evcc_resumes: "evcc_run cs config log v \<Longrightarrow> evcc_resume t v = (r, v') \<Longrightarrow>
    evcc_run cs config (case r of Inl _ \<Rightarrow> log | Inr _ \<Rightarrow> log @ [Rejoined t]) v'"
| evcc_polls: "evcc_run cs config log v \<Longrightarrow> evcc_poll_event v = (e, v') \<Longrightarrow> evcc_run cs config log v'"
| evcc_transmits: "evcc_run cs config log v \<Longrightarrow> evcc_take_transmit v = (out, v') \<Longrightarrow> evcc_run cs config log v'"

inductive_cases evcc_runE: "evcc_run cs config log v"

lemma gains_gained: "gains P log v v' \<Longrightarrow> P (log @ gained v v') v' \<and> ve_config v' = ve_config v"
  by (auto simp: gains_def gained_def)

lemma evcc_run_inv:
  "evcc_run cs config log v \<Longrightarrow> vcfg_max_payload_len config + HEADER_LEN \<le> usize_max \<Longrightarrow>
     evcc_inv log v \<and> ve_config v = config"
proof (induction rule: evcc_run.induct)
  case evcc_begins
  then show ?case by (simp add: evcc_parts evcc_new_def timers_new_inv conn_new_inv)
next
  case (evcc_starts log v now r v')
  then show ?case using evcc_start_inv [of log v cs now r v'] by (cases r) simp_all
next
  case (evcc_asks log v now m r v')
  then show ?case using evcc_request_inv [of log v cs now m r v'] by (cases r) simp_all
next
  case (evcc_reads log v now data r v')
  then have "gains evcc_inv log v v'" using evcc_handle_input_gains [of log v cs now data r v'] by simp
  from gains_gained [OF this] show ?case using evcc_reads by simp
next
  case (evcc_waits log v v' now)
  then have "gains evcc_inv log v v'" using evcc_timeout_loop_gains [of log v] by (simp add: evcc_handle_timeout_def)
  from gains_gained [OF this] show ?case using evcc_waits by simp
next
  case (evcc_resumes log v t r v')
  then show ?case using evcc_resume_inv [of log v t r v'] by (cases r) simp_all
next
  case (evcc_polls log v e v')
  then obtain es where v': "v' = v\<lparr>ve_events := es\<rparr>"
    by (cases "ve_events v") (auto simp: evcc_poll_event_def intro: that [of "[]"])
  then show ?case using evcc_polls by (auto simp: evcc_parts split: option.splits)
next
  case (evcc_transmits log v out v')
  then show ?case using evcc_inv_tx [of log v "[]"] by (auto simp: evcc_take_transmit_def conn_take_transmit_def)
qed

end
