(* ===== verification/Session_Pair.thy ===== *)
theory Session_Pair
  imports Secc_Safety Evcc_Safety
begin

text \<open>
  A vehicle and a station talking to each other over a loss-free wire: every request of the vehicle is read by
  the station from the bytes the vehicle transmits, and every answer the other way round. The two ends stay in
  step: after every exchange their flows are the same, and when one closes the other does. The generated codecs
  are a parameter; they are relied on to read back the documents they write.
\<close>

section \<open>Two ends of a wire\<close>

record 'x talk =
  tk_vehicle :: "'x evcc"
  tk_station :: "'x secc"
  tk_vlog :: "'x evcc_log list"
  tk_slog :: "'x secc_log list"

definition talk_new :: "evcc_config \<Rightarrow> secc_config \<Rightarrow> 'x talk" where
  "talk_new vc sc = \<lparr>tk_vehicle = evcc_new vc, tk_station = secc_new sc, tk_vlog = [], tk_slog = []\<rparr>"

text \<open>The station reads what the vehicle has to transmit, or the vehicle what the station has.\<close>

definition talk_upstream :: "'x document codecs \<Rightarrow> 'x talk \<Rightarrow> 'x talk" where
  "talk_upstream cs p =
     (let (out, v) = evcc_take_transmit (tk_vehicle p);
          s = snd (secc_handle_input cs 0 out (tk_station p))
      in p\<lparr>tk_vehicle := v, tk_station := s, tk_slog := tk_slog p @ surfaced (tk_station p) s\<rparr>)"

definition talk_downstream :: "'x document codecs \<Rightarrow> 'x talk \<Rightarrow> 'x talk" where
  "talk_downstream cs p =
     (let (out, s) = secc_take_transmit (tk_station p);
          v = snd (evcc_handle_input cs 0 out (tk_vehicle p))
      in p\<lparr>tk_station := s, tk_vehicle := v, tk_vlog := tk_vlog p @ gained (tk_vehicle p) v\<rparr>)"

definition talk_start :: "'x document codecs \<Rightarrow> 'x talk \<Rightarrow> 'x talk option" where
  "talk_start cs p =
     (case evcc_start cs 0 (tk_vehicle p) of
        (Inl _, _) \<Rightarrow> None
      | (Inr _, v) \<Rightarrow> Some (talk_downstream cs (talk_upstream cs
          (p\<lparr>tk_vehicle := v, tk_vlog := tk_vlog p @ [Offered (the (ve_offer v))]\<rparr>))))"

definition talk_ask :: "'x document codecs \<Rightarrow> 'x msg \<Rightarrow> 'x talk \<Rightarrow> 'x talk option" where
  "talk_ask cs m p =
     (case evcc_request cs 0 m (tk_vehicle p) of
        (Inl _, _) \<Rightarrow> None
      | (Inr _, v) \<Rightarrow> Some (talk_upstream cs
          (p\<lparr>tk_vehicle := v, tk_vlog := tk_vlog p @ [Asked (snd (set_session_id (ve_session_id (tk_vehicle p)) m))]\<rparr>)))"

definition talk_answer :: "'x document codecs \<Rightarrow> 'x msg \<Rightarrow> 'x talk \<Rightarrow> 'x talk option" where
  "talk_answer cs r p =
     (case secc_answer cs r (tk_station p) of
        (Inl _, _) \<Rightarrow> None
      | (Inr _, _) \<Rightarrow>
        let s = snd (secc_respond cs 0 r (tk_station p)) in
        Some (talk_downstream cs
          (p\<lparr>tk_station := s, tk_slog := tk_slog p @ Answered r # surfaced (tk_station p) s\<rparr>)))"

fun talk_all :: "'x document codecs \<Rightarrow> ('x msg \<times> 'x msg) list \<Rightarrow> 'x talk \<Rightarrow> 'x talk option" where
  "talk_all cs [] p = Some p"
| "talk_all cs ((m, r) # ms) p = Option.bind (Option.bind (talk_ask cs m p) (talk_answer cs r)) (talk_all cs ms)"

section \<open>Both ends run\<close>

definition talk_run :: "'x document codecs \<Rightarrow> evcc_config \<Rightarrow> secc_config \<Rightarrow> 'x talk \<Rightarrow> bool" where
  "talk_run cs vc sc p \<longleftrightarrow> evcc_run cs vc (tk_vlog p) (tk_vehicle p) \<and> secc_run cs sc (tk_slog p) (tk_station p)"

lemma talk_new_run: "talk_run cs vc sc (talk_new vc sc)"
  by (simp add: talk_run_def talk_new_def evcc_begins secc_start)

lemma talk_upstream_run:
  assumes "talk_run cs vc sc p"
  shows "talk_run cs vc sc (talk_upstream cs p)"
proof -
  obtain out v where t: "evcc_take_transmit (tk_vehicle p) = (out, v)" by fastforce
  obtain r s where i: "secc_handle_input cs 0 out (tk_station p) = (r, s)" by fastforce
  show ?thesis using assms evcc_transmits [OF _ t] secc_reads [OF _ i] by (auto simp: talk_run_def talk_upstream_def t i)
qed

lemma talk_downstream_run:
  assumes "talk_run cs vc sc p"
  shows "talk_run cs vc sc (talk_downstream cs p)"
proof -
  obtain out s where t: "secc_take_transmit (tk_station p) = (out, s)" by fastforce
  obtain r v where i: "evcc_handle_input cs 0 out (tk_vehicle p) = (r, v)" by fastforce
  show ?thesis using assms secc_transmits [OF _ t] evcc_reads [OF _ i] by (auto simp: talk_run_def talk_downstream_def t i)
qed

lemma talk_start_run:
  assumes "talk_run cs vc sc p" and "talk_start cs p = Some q"
  shows "talk_run cs vc sc q"
proof -
  obtain v where v: "evcc_start cs 0 (tk_vehicle p) = (Inr (), v)"
      "q = talk_downstream cs (talk_upstream cs (p\<lparr>tk_vehicle := v, tk_vlog := tk_vlog p @ [Offered (the (ve_offer v))]\<rparr>))"
    using assms(2) by (auto simp: talk_start_def split: prod.splits sum.splits)
  have "talk_run cs vc sc (p\<lparr>tk_vehicle := v, tk_vlog := tk_vlog p @ [Offered (the (ve_offer v))]\<rparr>)"
    using assms(1) evcc_starts [OF _ v(1), of vc "tk_vlog p"] by (simp add: talk_run_def)
  then show ?thesis using v(2) talk_downstream_run talk_upstream_run by blast
qed

lemma talk_ask_run:
  assumes "talk_run cs vc sc p" and "talk_ask cs m p = Some q"
  shows "talk_run cs vc sc q"
proof -
  let ?log = "tk_vlog p @ [Asked (snd (set_session_id (ve_session_id (tk_vehicle p)) m))]"
  obtain v where v: "evcc_request cs 0 m (tk_vehicle p) = (Inr (), v)" "q = talk_upstream cs (p\<lparr>tk_vehicle := v, tk_vlog := ?log\<rparr>)"
    using assms(2) by (auto simp: talk_ask_def split: prod.splits sum.splits)
  have "talk_run cs vc sc (p\<lparr>tk_vehicle := v, tk_vlog := ?log\<rparr>)"
    using assms(1) evcc_asks [OF _ v(1), of vc "tk_vlog p"] by (simp add: talk_run_def)
  then show ?thesis using v(2) talk_upstream_run by blast
qed

lemma talk_answer_run:
  assumes "talk_run cs vc sc p" and "talk_answer cs r p = Some q"
  shows "talk_run cs vc sc q"
proof -
  let ?s = "snd (secc_respond cs 0 r (tk_station p))"
  let ?p = "p\<lparr>tk_station := ?s, tk_slog := tk_slog p @ Answered r # surfaced (tk_station p) ?s\<rparr>"
  obtain s where a: "secc_answer cs r (tk_station p) = (Inr (), s)" "q = talk_downstream cs ?p"
    using assms(2) by (auto simp: talk_answer_def Let_def split: prod.splits sum.splits)
  have "talk_run cs vc sc ?p"
    using assms(1) secc_answers [OF _ a(1), of sc "tk_slog p" 0 "fst (secc_respond cs 0 r (tk_station p))" ?s] by (simp add: talk_run_def)
  then show ?thesis using a(2) talk_downstream_run by blast
qed

lemma talk_all_run: "talk_run cs vc sc p \<Longrightarrow> talk_all cs ms p = Some q \<Longrightarrow> talk_run cs vc sc q"
proof (induction cs ms p rule: talk_all.induct)
  case (2 cs m r ms p)
  then obtain y z where y: "talk_ask cs m p = Some y" "talk_answer cs r y = Some z" "talk_all cs ms z = Some q"
    by (auto simp: bind_eq_Some_conv)
  have "talk_run cs vc sc z" using talk_answer_run [OF talk_ask_run [OF "2.prems"(1) y(1)] y(2)] .
  then show ?case using "2.IH" [of z] y by simp
qed simp

section \<open>Crossing the wire\<close>

text \<open>A document that the codecs read back and that fits into a frame.\<close>

definition carried :: "'x document codecs \<Rightarrow> nat \<Rightarrow> 'x msg \<Rightarrow> bool" where
  "carried cs limit m \<longleftrightarrow> compiled cs (msg_set m)
     \<and> (case to_vec cs (msg_set m) (msg_doc m) of
          Inl _ \<Rightarrow> False
        | Inr bs \<Rightarrow> length bs \<le> limit \<and> length bs < 2 ^ 32 \<and> from_bytes cs (msg_set m) bs = Inr (msg_doc m)
            \<and> (msg_set m = M_AppProtocolRes \<longrightarrow> isl (from_bytes cs M_AppProtocolReq bs)))"

definition wire_idle :: "connection \<Rightarrow> bool" where
  "wire_idle c \<longleftrightarrow> conn_inv c \<and> c_rx c = [] \<and> c_frames c = [] \<and> c_tx c = []"

lemma wire_idle_simps [simp]:
  "wire_idle c \<Longrightarrow> c\<lparr>c_tx := []\<rparr> = c"
  "wire_idle c \<Longrightarrow> wire_idle (c\<lparr>c_ignored := i\<rparr>)"
  "wire_idle c \<Longrightarrow> wire_idle (conn_set_protocol p c)"
  by (auto simp: wire_idle_def conn_inv_def conn_set_protocol_def)

lemma conn_next_none: "c_frames c = [] \<Longrightarrow> conn_next_message cs c = (Inr None, c)"
  by (simp add: conn_next_message.simps [of cs c] conn_next_frame_def)

lemma wire_crosses:
  assumes m: "carried cs (c_max_payload_len a) m" and a: "wire_idle a" and b: "wire_idle b"
    and len: "c_max_payload_len b = c_max_payload_len a" and sp: "speaks (msg_set m) (c_protocol b)"
  obtains tx i b' where "conn_send cs m a = (Inr (), a\<lparr>c_tx := tx\<rparr>)" "conn_receive tx b = (Inr (), b')"
    "conn_next_message cs b' = (Inr (Some m), b\<lparr>c_ignored := i\<rparr>)"
proof -
  obtain bs where bs: "to_vec cs (msg_set m) (msg_doc m) = Inr bs" "length bs \<le> c_max_payload_len a" "length bs < 2 ^ 32"
      "from_bytes cs (msg_set m) bs = Inr (msg_doc m)" "msg_set m = M_AppProtocolRes \<longrightarrow> isl (from_bytes cs M_AppProtocolReq bs)"
    "compiled cs (msg_set m)"
    using m by (auto simp: carried_def split: sum.splits)
  have snd: "fst (conn_send cs m a) = Inr ()"
    using conn_send_frame_bytes [of bs a "message_payload_type m"] bs by (simp add: conn_send_def message_encode_def)
  then obtain a' where a': "conn_send cs m a = (Inr (), a')" by (cases "conn_send cs m a") auto
  obtain tx where tx: "a' = a\<lparr>c_tx := tx\<rparr>" using a' by (rule conn_send_effect)
  have "\<exists>b' i. receive_chunks [tx] b = (Inr (), b') \<and> conn_next_message cs b' = (Inr (Some m), b\<lparr>c_frames := [], c_ignored := i\<rparr>)"
  proof (rule conn_message_crosses [OF a'])
    show "concat [tx] = fst (conn_take_transmit a')" by (simp add: tx conn_take_transmit_def)
  qed (use a b bs len sp in \<open>auto simp: wire_idle_def conn_inv_def\<close>)
  then obtain b' i where "receive_chunks [tx] b = (Inr (), b')" "conn_next_message cs b' = (Inr (Some m), b\<lparr>c_frames := [], c_ignored := i\<rparr>)"
    by blast
  moreover have "b\<lparr>c_frames := [], c_ignored := i\<rparr> = b\<lparr>c_ignored := i\<rparr>" using b by (simp add: wire_idle_def)
  moreover have "receive_chunks [tx] b = conn_receive tx b" using b receive_chunks_concat [of b "[tx]"] by (simp add: wire_idle_def)
  ultimately show thesis using that [of tx b' i] a' tx by simp
qed

section \<open>One side at a time\<close>

lemma permitted_typed:
  assumes "permitted f m" and "typed m"
  shows "speaks (msg_set m) (Some (flow_generation f))" and "\<nexists>req. msg_doc m = Doc_AppProtocolReq req"
proof -
  have "speaks (msg_set m) (Some (flow_generation f)) \<and> (\<nexists>req. msg_doc m = Doc_AppProtocolReq req)"
    using assms by (elim flow_permittedE)
      (auto simp: typed_def iso2_request_of_def iso20_request_of_def split: document.splits)
  then show "speaks (msg_set m) (Some (flow_generation f))" "\<nexists>req. msg_doc m = Doc_AppProtocolReq req" by blast+
qed

lemma evcc_asks_request:
  assumes "\<not> ve_closed v" and "ve_outstanding v = None" and "ve_flow v = Some f" and "permitted f m"
    and "set_session_id (ve_session_id v) m = (b, m')" and "conn_send cs m' (ve_conn v) = (Inr (), c)"
    and "flow_accept f m' = (Inr (), f')"
  obtains ph ts where "evcc_request cs now m v =
    (Inr (), v\<lparr>ve_conn := c, ve_flow := Some f', ve_phase := ph, ve_timers := ts, ve_outstanding := Some (message_name m')\<rparr>)"
proof -
  obtain r v' where r: "evcc_request cs now m v = (r, v')" by fastforce
  then show thesis
  proof (cases rule: evcc_requestE)
    case (refused e tx)
    then show thesis using r assms flow_permitted_request [OF assms(4)]
      by (auto simp: evcc_request_def evcc_send_def permitted_def Let_def split: if_splits)
  next
    case (sent g g' b' m'' c' ph ts)
    then show thesis using r assms that [where ph = ph and ts = ts] by auto
  qed
qed

lemma secc_pump_stop: "sc_closed s \<or> sc_outstanding s \<noteq> None \<Longrightarrow> secc_pump cs now s = (Inr (), s)"
  by (simp add: secc_pump.simps [of cs now s])

lemma secc_pump_idle: "c_frames (sc_conn s) = [] \<Longrightarrow> secc_pump cs now s = (Inr (), s)"
  by (simp add: secc_pump.simps [of cs now s] conn_next_none)

lemma secc_surfaces_request:
  assumes opn: "\<not> sc_closed s" "sc_outstanding s = None" and rc: "conn_receive data (sc_conn s) = (Inr (), c)"
    and nm: "conn_next_message cs c = (Inr (Some m), c')" and fl: "sc_flow s = Some f" "flow_accept f m = (Inr (), f')"
    and id: "sc_established s \<longrightarrow> carries_the_session_id s m" and doc: "\<nexists>req. msg_doc m = Doc_AppProtocolReq req"
  obtains ph ts due where "secc_handle_input cs now data s = (Inr (), s\<lparr>sc_conn := c', sc_timers := ts, sc_flow := Some f',
      sc_established := sc_established s \<or> message_name m = ''SessionSetupReq'', sc_phase := ph,
      sc_outstanding := Some \<lparr>out_name = message_name m, out_refused = False, out_due = due\<rparr>,
      sc_events := sc_events s @ [Ev_Request m]\<rparr>)"
proof -
  let ?s = "s\<lparr>sc_conn := c', sc_timers := arm (sc_timers s) T_Sequence now (cfg_sequence_timeout (sc_config s))\<rparr>"
  let ?q = "?s\<lparr>sc_flow := Some f', sc_established := sc_established s \<or> message_name m = ''SessionSetupReq''\<rparr>"
  have req: "is_request m" using flow_permitted_request [of f m] fl(2) flow_accept_permits [of f m] by (simp add: permitted_def)
  obtain ph ts where ep: "enter_phase now ?q = ?q\<lparr>sc_phase := ph, sc_timers := ts\<rparr>" using enter_phase_effect by blast
  let ?d = "push_event (Ev_Request m) (await_answer now m False (enter_phase now ?q))"
  have car: "sc_established s \<longrightarrow> carries_the_session_id ?s m" using id by (simp add: carries_the_session_id_def)
  have "secc_dispatch cs now m (s\<lparr>sc_conn := c'\<rparr>) = (Inr (), ?d)"
    using fl req car doc by (cases "msg_doc m") (auto simp: secc_dispatch_def Let_def)
  moreover have "secc_pump cs now ?d = (Inr (), ?d)"
    by (rule secc_pump_stop) (simp add: push_event_def await_answer_def)
  ultimately have "secc_pump cs now (s\<lparr>sc_conn := c\<rparr>) = (Inr (), ?d)"
    using opn nm by (simp add: secc_pump.simps [of cs now "s\<lparr>sc_conn := c\<rparr>"])
  then have "secc_handle_input cs now data s = (Inr (), ?d)" using opn rc by (simp add: secc_handle_input_def fatal_on_error_def)
  then have "secc_handle_input cs now data s = (Inr (), push_event (Ev_Request m) (await_answer now m False (?q\<lparr>sc_phase := ph, sc_timers := ts\<rparr>)))"
    unfolding ep .
  then show thesis using that [where ph = ph and ts = ts and due = "instant_add now (performance_time m)"]
    by (simp add: push_event_def await_answer_def)
qed

text \<open>What a response makes of the flow, on both sides.\<close>

definition told :: "'x msg \<Rightarrow> flow \<Rightarrow> flow" where
  "told r f = (if message_outcome r = Some Outcome_Failed then flow_failed f else f)"

lemma told_case: "(case message_outcome r of Some out \<Rightarrow> is_failure out | None \<Rightarrow> False) \<longleftrightarrow> message_outcome r = Some Outcome_Failed"
  by (auto simp: is_failure_def split: option.splits)

lemma secc_answers_request:
  assumes "sc_outstanding s = Some out" and "\<not> out_refused out" and "answers r (out_name out)" and "\<not> is_request r"
    and "set_session_id (cfg_session_id (sc_config s)) r = (b, r')" and "\<not> session_id_is_none (cfg_session_id (sc_config s))"
    and "conn_send cs r' (sc_conn s) = (Inr (), c)" and "c_frames c = []" and "sc_flow s = Some f"
    and "s' = s\<lparr>sc_flow := Some (told r' f), sc_conn := c, sc_outstanding := None\<rparr>"
  shows "secc_answer cs r s = (Inr (), s')" and "secc_respond cs now r s = (Inr (), after_answer now s')"
proof -
  show a: "secc_answer cs r s = (Inr (), s')"
    using assms by (auto simp: secc_answer_def secc_send_def told_def told_case Let_def)
  have "c_frames (sc_conn (after_answer now s')) = []"
    using assms(8,10) by (simp add: after_answer_def secc_close_def push_event_def split: option.splits)
  then show "secc_respond cs now r s = (Inr (), after_answer now s')"
    using a by (simp add: secc_respond_def secc_pump_idle fatal_on_error_def)
qed

lemma evcc_drain_idle: "c_frames (ve_conn v) = [] \<Longrightarrow> evcc_drain cs now v = (Inr (), v)"
  by (simp add: evcc_drain.simps [of cs now v] conn_next_none)

lemma evcc_takes_answer:
  assumes opn: "\<not> ve_closed v" and out: "ve_outstanding v = Some n" and rc: "conn_receive data (ve_conn v) = (Inr (), c)"
    and nm: "conn_next_message cs c = (Inr (Some r), c')" and fr: "c_frames c' = []" and r: "\<not> is_request r" "answers r n"
    and n: "n \<noteq> ''supportedAppProtocolReq''" and id: "message_session_id r = Some i" "\<not> session_id_is_none i"
      "ve_established v \<longrightarrow> i = ve_session_id v"
  obtains ts where "evcc_handle_input cs now data v = (Inr (), evcc_deliver r (v\<lparr>ve_conn := c', ve_timers := ts, ve_outstanding := None,
      ve_answered_at := Some now, ve_session_id := i, ve_established := True\<rparr>))"
proof -
  let ?v = "v\<lparr>ve_conn := c', ve_timers := disarm (ve_timers v) T_Message, ve_outstanding := None, ve_answered_at := Some now\<rparr>"
  have doc: "\<nexists>res. msg_doc r = Doc_AppProtocolRes res" using answers_handshake r(2) n by blast
  obtain ts where ck: "evcc_check_id r ?v = (Inr (), v\<lparr>ve_conn := c', ve_timers := ts, ve_outstanding := None,
      ve_answered_at := Some now, ve_session_id := i, ve_established := True\<rparr>)" (is "_ = (_, ?w ts)")
  proof (cases "ve_established v")
    case True
    then have "v\<lparr>ve_session_id := i, ve_established := True\<rparr> = v" using id(3) by simp
    then show thesis using True id that [of "disarm (ve_timers v) T_Message"] by (simp add: evcc_check_id_def)
  next
    case False
    then show thesis using id that [of "disarm (disarm (ve_timers v) T_Message) T_CommunicationSetup"] by (simp add: evcc_check_id_def)
  qed
  let ?d = "evcc_deliver r (?w ts)"
  have "evcc_dispatch now r (v\<lparr>ve_conn := c'\<rparr>) = (Inr (), ?d)"
    using out r doc ck by (cases "msg_doc r") (simp_all add: evcc_dispatch_def Let_def)
  moreover have "evcc_drain cs now ?d = (Inr (), ?d)"
    by (rule evcc_drain_idle) (simp add: fr)
  ultimately have "evcc_drain cs now (v\<lparr>ve_conn := c\<rparr>) = (Inr (), ?d)"
    using nm by (simp add: evcc_drain.simps [of cs now "v\<lparr>ve_conn := c\<rparr>"])
  then have "evcc_handle_input cs now data v = (Inr (), ?d)" using opn rc by (simp add: evcc_handle_input_def)
  then show thesis by (rule that)
qed

section \<open>In step\<close>

text \<open>Both ends stand at the same flow, nothing is under way, and they agree on the session.\<close>

definition in_step :: "flow \<Rightarrow> 'x evcc \<Rightarrow> 'x secc \<Rightarrow> bool" where
  "in_step f v s \<longleftrightarrow> ve_flow v = Some f \<and> sc_flow s = Some f
     \<and> c_protocol (ve_conn v) = Some (flow_generation f) \<and> c_protocol (sc_conn s) = Some (flow_generation f)
     \<and> wire_idle (ve_conn v) \<and> wire_idle (sc_conn s) \<and> c_max_payload_len (ve_conn v) = c_max_payload_len (sc_conn s)
     \<and> ve_outstanding v = None \<and> sc_outstanding s = None \<and> \<not> ve_closed v \<and> \<not> sc_closed s
     \<and> length (ve_session_id v) = SESSION_ID_LEN \<and> length (cfg_session_id (sc_config s)) = SESSION_ID_LEN
     \<and> \<not> session_id_is_none (cfg_session_id (sc_config s)) \<and> ve_established v = sc_established s
     \<and> (sc_established s \<longrightarrow> ve_session_id v = cfg_session_id (sc_config s))"

definition talk_in_step :: "flow \<Rightarrow> 'x talk \<Rightarrow> bool" where
  "talk_in_step f p \<longleftrightarrow> in_step f (tk_vehicle p) (tk_station p)"

text \<open>
  A request and its answer that an application may give: the request has a place in the flow and is carried as
  the vehicle stamps it; so does the answer, as the station stamps it, which is the response of the exchange and
  has a header. Before the session is set up the request is \<open>SessionSetupReq\<close>.
\<close>

definition fair_exchange :: "'x document codecs \<Rightarrow> flow \<Rightarrow> 'x talk \<Rightarrow> 'x msg \<Rightarrow> 'x msg \<Rightarrow> bool" where
  "fair_exchange cs f p m r \<longleftrightarrow>
     (let (b, m') = set_session_id (ve_session_id (tk_vehicle p)) m;
          (b', r') = set_session_id (cfg_session_id (sc_config (tk_station p))) r;
          limit = c_max_payload_len (ve_conn (tk_vehicle p))
      in permitted f m \<and> typed m \<and> b \<and> carried cs limit m'
         \<and> (sc_established (tk_station p) \<or> message_name m = ''SessionSetupReq'')
         \<and> answers r (message_name m) \<and> speaks (msg_set r) (Some (flow_generation f)) \<and> b' \<and> carried cs limit r')"

lemma answers_not_request: "answers r n \<Longrightarrow> \<not> is_request r"
proof
  assume "answers r n" and "is_request r"
  then obtain a b where "message_name r = a @ ''Res''" "message_name r = b @ ''Req''"
    by (auto simp: answers_def is_request_def ends_with_def strip_suffix_Some split: option.splits)
  then have "last (message_name r) = CHR ''s''" "last (message_name r) = CHR ''q''" by simp_all
  then show False by simp
qed

text \<open>The request is on its way: both ends have moved, and both wait for the answer to it.\<close>

definition in_flight :: "flow \<Rightarrow> string \<Rightarrow> 'x talk \<Rightarrow> 'x talk \<Rightarrow> bool" where
  "in_flight f n p q \<longleftrightarrow>
     (let v = tk_vehicle q; s = tk_station q in
      ve_flow v = Some f \<and> sc_flow s = Some f
      \<and> c_protocol (ve_conn v) = Some (flow_generation f) \<and> c_protocol (sc_conn s) = Some (flow_generation f)
      \<and> wire_idle (ve_conn v) \<and> wire_idle (sc_conn s) \<and> c_max_payload_len (ve_conn v) = c_max_payload_len (sc_conn s)
      \<and> c_max_payload_len (ve_conn v) = c_max_payload_len (ve_conn (tk_vehicle p)) \<and> sc_config s = sc_config (tk_station p)
      \<and> ve_outstanding v = Some n \<and> (\<exists>out. sc_outstanding s = Some out \<and> out_name out = n \<and> \<not> out_refused out)
      \<and> \<not> ve_closed v \<and> \<not> sc_closed s \<and> sc_established s
      \<and> length (cfg_session_id (sc_config s)) = SESSION_ID_LEN \<and> \<not> session_id_is_none (cfg_session_id (sc_config s))
      \<and> (ve_established v \<longrightarrow> ve_session_id v = cfg_session_id (sc_config s)))"

lemma talk_ask_in_step:
  assumes st: "talk_in_step f p" and fair: "fair_exchange cs f p m r"
    and m': "set_session_id (ve_session_id (tk_vehicle p)) m = (b, m')" and f': "flow_accept f m = (Inr (), f')"
  obtains q where "talk_ask cs m p = Some q" "in_flight f' (message_name m) p q"
    "tk_vlog q = tk_vlog p @ [Asked m']" "tk_slog q = tk_slog p @ [Surfaced (Ev_Request m')]"
proof -
  define v where "v = tk_vehicle p"
  define s where "s = tk_station p"
  have i: "in_step f v s" using st by (simp add: talk_in_step_def v_def s_def)
  have fr: "permitted f m" "typed m" "b" "carried cs (c_max_payload_len (ve_conn v)) m'"
      "sc_established s \<or> message_name m = ''SessionSetupReq''"
    using fair m' by (auto simp: fair_exchange_def v_def s_def Let_def split: prod.splits)
  note eff = set_session_id_effect [OF m' [folded v_def]]
  have len: "length (ve_session_id v) = SESSION_ID_LEN" using i by (simp add: in_step_def)
  have nm: "message_name m' = message_name m" and set: "msg_set m' = msg_set m" and ty: "typed m'"
    and id: "message_session_id m' = Some (ve_session_id v)" using eff [OF len] fr by auto
  have acc: "flow_accept f m' = (Inr (), f')" using flow_accept_stamped(1) [OF m'] f' by simp
  have per: "permitted f m'" using acc flow_accept_permits [of f m'] by (simp add: permitted_def)
  have gen: "flow_generation f' = flow_generation f"
    using f' by (cases f) (auto simp: flow_result_def split: option.splits sum.splits prod.splits if_splits)
  obtain tx k c where w: "conn_send cs m' (ve_conn v) = (Inr (), (ve_conn v)\<lparr>c_tx := tx\<rparr>)" "conn_receive tx (sc_conn s) = (Inr (), c)"
      "conn_next_message cs c = (Inr (Some m'), (sc_conn s)\<lparr>c_ignored := k\<rparr>)"
    by (rule wire_crosses [OF fr(4), of "sc_conn s"]) (use i permitted_typed(1) [OF per ty] in \<open>auto simp: in_step_def\<close>)
  obtain ph ts where ask: "evcc_request cs 0 m v = (Inr (), v\<lparr>ve_conn := (ve_conn v)\<lparr>c_tx := tx\<rparr>, ve_flow := Some f', ve_phase := ph,
      ve_timers := ts, ve_outstanding := Some (message_name m')\<rparr>)" (is "_ = (_, ?v)")
    by (rule evcc_asks_request [OF _ _ _ fr(1) m' [folded v_def] w(1) acc]) (use i in \<open>auto simp: in_step_def\<close>)
  have est: "sc_established s \<longrightarrow> carries_the_session_id s m'" using i id by (auto simp: in_step_def carries_the_session_id_def Let_def)
  obtain ph' ts' due where sur: "secc_handle_input cs 0 tx s = (Inr (), s\<lparr>sc_conn := (sc_conn s)\<lparr>c_ignored := k\<rparr>, sc_timers := ts',
      sc_flow := Some f', sc_established := sc_established s \<or> message_name m' = ''SessionSetupReq'', sc_phase := ph',
      sc_outstanding := Some \<lparr>out_name = message_name m', out_refused = False, out_due = due\<rparr>,
      sc_events := sc_events s @ [Ev_Request m']\<rparr>)" (is "_ = (_, ?s)")
    by (rule secc_surfaces_request [OF _ _ w(2,3) _ acc est permitted_typed(2) [OF per ty]]) (use i in \<open>auto simp: in_step_def\<close>)
  have tt: "evcc_take_transmit ?v = (tx, ?v\<lparr>ve_conn := ve_conn v\<rparr>)"
    using i by (simp add: evcc_take_transmit_def conn_take_transmit_def in_step_def)
  define q where "q = p\<lparr>tk_vlog := tk_vlog p @ [Asked m'], tk_vehicle := ?v\<lparr>ve_conn := ve_conn v\<rparr>, tk_station := ?s,
      tk_slog := tk_slog p @ [Surfaced (Ev_Request m')]\<rparr>"
  have "talk_ask cs m p = Some q"
    using ask sur tt m' by (simp add: talk_ask_def talk_upstream_def q_def v_def [symmetric] s_def [symmetric] surfaced_def)
  moreover have "in_flight f' (message_name m) p q"
    using i fr(5) nm gen by (auto simp: in_flight_def in_step_def q_def v_def [symmetric] s_def [symmetric] Let_def)
  ultimately show thesis using that [of q] by (simp add: q_def)
qed

text \<open>What an exchange leaves as it was, and that the session is set up behind it.\<close>

definition same_terms :: "'x talk \<Rightarrow> 'x talk \<Rightarrow> bool" where
  "same_terms p q \<longleftrightarrow> sc_config (tk_station q) = sc_config (tk_station p) \<and> sc_established (tk_station q)
     \<and> c_max_payload_len (ve_conn (tk_vehicle q)) = c_max_payload_len (ve_conn (tk_vehicle p))"

definition station_end :: "flow \<Rightarrow> 'x secc_event list" where
  "station_end f = (if flow_is_paused f then [Ev_Closed Close_Paused] else if flow_is_finished f then [Ev_Closed Close_Normal] else [])"

definition vehicle_end :: "'x msg \<Rightarrow> flow \<Rightarrow> 'x evcc_event list" where
  "vehicle_end r f =
     (if flow_is_paused f then [VEv_Closed VClose_Paused] else if flow_is_finished f then [VEv_Closed VClose_Normal]
      else if message_outcome r = Some Outcome_Failed then [VEv_Failed] else [])"

lemma talk_answer_in_flight:
  assumes fl: "in_flight f n p0 p" and n: "n \<noteq> ''supportedAppProtocolReq''" and ans: "answers r n"
    and sp: "speaks (msg_set r) (Some (flow_generation f))" and r': "set_session_id (cfg_session_id (sc_config (tk_station p))) r = (True, r')"
    and car: "carried cs (c_max_payload_len (ve_conn (tk_vehicle p))) r'" and g: "g = told r' f"
  obtains q where "talk_answer cs r p = Some q"
    "tk_vlog q = tk_vlog p @ Got (VEv_Response r') # map Got (vehicle_end r' g)"
    "tk_slog q = tk_slog p @ Answered r # map Surfaced (station_end g)"
    "if flow_is_paused g \<or> flow_is_finished g then ve_closed (tk_vehicle q) \<and> sc_closed (tk_station q) else talk_in_step g q"
    "same_terms p q"
proof -
  define v where "v = tk_vehicle p"
  define s where "s = tk_station p"
  let ?id = "cfg_session_id (sc_config s)"
  have i: "in_flight f n p0 p" using fl .
  note fd = i [unfolded in_flight_def Let_def, folded v_def s_def]
  have len: "length ?id = SESSION_ID_LEN" using fd by blast
  note eff = set_session_id_effect [OF r' [folded s_def] len]
  have a': "answers r' n" "\<not> is_request r" "\<not> is_request r'" and sp': "speaks (msg_set r') (Some (flow_generation f))"
    using ans sp eff answers_not_request by (auto simp: answers_def is_request_def)
  have gen: "flow_generation g = flow_generation f" by (cases f) (auto simp: g told_def)
  obtain out where out: "sc_outstanding s = Some out" "out_name out = n" "\<not> out_refused out" using fd by blast
  obtain tx k c where w: "conn_send cs r' (sc_conn s) = (Inr (), (sc_conn s)\<lparr>c_tx := tx\<rparr>)" "conn_receive tx (ve_conn v) = (Inr (), c)"
      "conn_next_message cs c = (Inr (Some r'), (ve_conn v)\<lparr>c_ignored := k\<rparr>)"
    by (rule wire_crosses [where cs = cs and m = r' and a = "sc_conn s" and b = "ve_conn v"])
      (use fd car sp' in \<open>auto simp: v_def\<close>)
  define s1 where "s1 = s\<lparr>sc_flow := Some g, sc_conn := (sc_conn s)\<lparr>c_tx := tx\<rparr>, sc_outstanding := None\<rparr>"
  have ansd: "secc_answer cs r s = (Inr (), s1)" "secc_respond cs 0 r s = (Inr (), after_answer 0 s1)"
    using secc_answers_request [OF out(1,3) _ a'(2) r' [folded s_def] _ w(1), where f = f and s' = s1] fd ans out(2) g
    by (auto simp: s1_def wire_idle_def)
  have v1: "message_session_id r' = Some ?id" "\<not> session_id_is_none ?id" "ve_established v \<longrightarrow> ?id = ve_session_id v"
    using eff fd by auto
  obtain ts where got: "evcc_handle_input cs 0 tx v = (Inr (), evcc_deliver r' (v\<lparr>ve_conn := (ve_conn v)\<lparr>c_ignored := k\<rparr>, ve_timers := ts,
      ve_outstanding := None, ve_answered_at := Some 0, ve_session_id := ?id, ve_established := True\<rparr>))" (is "_ = (_, evcc_deliver r' ?v)")
    by (rule evcc_takes_answer [OF _ _ w(2,3) _ a'(3,1) n v1]) (use fd in \<open>auto simp: wire_idle_def\<close>)
  define s2 where "s2 = (after_answer 0 s1)\<lparr>sc_conn := sc_conn s\<rparr>"
  have conn: "sc_conn (after_answer 0 s1) = (sc_conn s)\<lparr>c_tx := tx\<rparr>"
    by (simp add: after_answer_def s1_def secc_close_def push_event_def split: option.splits)
  have tt: "secc_take_transmit (after_answer 0 s1) = (tx, s2)"
    using fd by (simp add: secc_take_transmit_def conn_take_transmit_def conn s2_def)
  have aa: "sc_events s2 = sc_events s @ station_end g" "sc_closed s2 = (flow_is_paused g \<or> flow_is_finished g)"
      "sc_flow s2 = Some g" "sc_outstanding s2 = None" "sc_established s2 = sc_established s" "sc_config s2 = sc_config s" "sc_conn s2 = sc_conn s"
      "sc_events (after_answer 0 s1) = sc_events s @ station_end g"
    using fd by (auto simp: s2_def s1_def after_answer_def station_end_def secc_close_def push_event_def)
  have dd: "ve_events (evcc_deliver r' ?v) = ve_events v @ VEv_Response r' # vehicle_end r' g"
      "ve_closed (evcc_deliver r' ?v) = (flow_is_paused g \<or> flow_is_finished g)" "ve_flow (evcc_deliver r' ?v) = Some g"
      "ve_outstanding (evcc_deliver r' ?v) = None" "ve_established (evcc_deliver r' ?v)" "ve_session_id (evcc_deliver r' ?v) = ?id"
      "ve_conn (evcc_deliver r' ?v) = (ve_conn v)\<lparr>c_ignored := k\<rparr>"
    using fd g by (auto simp: evcc_deliver_def Let_def told_case told_def vehicle_end_def vpush_def evcc_close_def)
  define q where "q = p\<lparr>tk_station := s2, tk_slog := tk_slog p @ Answered r # map Surfaced (station_end g),
      tk_vehicle := evcc_deliver r' ?v, tk_vlog := tk_vlog p @ Got (VEv_Response r') # map Got (vehicle_end r' g)\<rparr>"
  have "talk_answer cs r p = Some q"
    using ansd tt got aa(8) dd(1)
    by (simp add: talk_answer_def talk_downstream_def q_def v_def [symmetric] s_def [symmetric] surfaced_def gained_def Let_def)
  moreover have "in_step g (tk_vehicle q) (tk_station q)" if "\<not> (flow_is_paused g \<or> flow_is_finished g)"
    using that fd aa dd gen len by (auto simp: in_step_def q_def)
  moreover have "same_terms p q" using aa(5,6) dd(7) fd by (simp add: same_terms_def q_def v_def s_def)
  ultimately show thesis using that [of q] aa(2) dd(2) by (simp add: q_def talk_in_step_def)
qed

text \<open>One exchange.\<close>

lemma talk_exchange:
  assumes st: "talk_in_step f p" and fair: "fair_exchange cs f p m r"
    and m': "set_session_id (ve_session_id (tk_vehicle p)) m = (b, m')"
    and r': "set_session_id (cfg_session_id (sc_config (tk_station p))) r = (b', r')"
    and f': "flow_accept f m = (Inr (), f')" and g: "g = told r' f'"
  obtains q where "Option.bind (talk_ask cs m p) (talk_answer cs r) = Some q"
    "tk_vlog q = tk_vlog p @ Asked m' # Got (VEv_Response r') # map Got (vehicle_end r' g)"
    "tk_slog q = tk_slog p @ Surfaced (Ev_Request m') # Answered r # map Surfaced (station_end g)"
    "if flow_is_paused g \<or> flow_is_finished g then ve_closed (tk_vehicle q) \<and> sc_closed (tk_station q) else talk_in_step g q"
    "same_terms p q"
proof -
  obtain q1 where q1: "talk_ask cs m p = Some q1" "in_flight f' (message_name m) p q1" "tk_vlog q1 = tk_vlog p @ [Asked m']"
      "tk_slog q1 = tk_slog p @ [Surfaced (Ev_Request m')]" by (rule talk_ask_in_step [OF st fair m' f'])
  have fr: "permitted f m" "answers r (message_name m)" "speaks (msg_set r) (Some (flow_generation f))" "b'"
      "carried cs (c_max_payload_len (ve_conn (tk_vehicle p))) r'"
    using fair m' r' by (auto simp: fair_exchange_def Let_def split: prod.splits)
  have gen: "flow_generation f' = flow_generation f"
    using f' by (cases f) (auto simp: flow_result_def split: option.splits sum.splits prod.splits if_splits)
  have same: "sc_config (tk_station q1) = sc_config (tk_station p)"
      "c_max_payload_len (ve_conn (tk_vehicle q1)) = c_max_payload_len (ve_conn (tk_vehicle p))"
    using q1(2) by (simp_all add: in_flight_def Let_def)
  obtain q where "talk_answer cs r q1 = Some q"
      "tk_vlog q = tk_vlog q1 @ Got (VEv_Response r') # map Got (vehicle_end r' g)"
      "tk_slog q = tk_slog q1 @ Answered r # map Surfaced (station_end g)"
      "if flow_is_paused g \<or> flow_is_finished g then ve_closed (tk_vehicle q) \<and> sc_closed (tk_station q) else talk_in_step g q"
      "same_terms q1 q"
    by (rule talk_answer_in_flight [OF q1(2) permitted_name [OF fr(1)] fr(2)]) (use fr r' gen same g in auto)
  then show thesis using that [of q] q1 same by (simp add: same_terms_def)
qed

section \<open>The handshake puts both ends in step\<close>

lemma secc_agrees:
  assumes opn: "\<not> sc_closed s" "sc_outstanding s = None" "sc_flow s = None" and rc: "conn_receive data (sc_conn s) = (Inr (), c)"
    and nm: "conn_next_message cs c = (Inr (Some (of_doc (Doc_AppProtocolReq req))), c1)"
    and n: "negotiate_with (protocols_retain flow_supports (cfg_protocols (sc_config s))) (cfg_iso20_sets (sc_config s)) req = Some n"
    and f: "flow_new (ng_protocol n) (cfg_security (sc_config s)) = Some f"
    and snd: "conn_send cs (of_doc (Doc_AppProtocolRes (res_accept n))) c1 = (Inr (), c2)" and fr: "c_frames c2 = []"
  obtains ts where "secc_handle_input cs now data s = (Inr (), s\<lparr>sc_timers := ts, sc_conn := conn_set_protocol (ng_protocol n) c2,
      sc_iso20_set := ng_iso20_set n, sc_flow := Some f, sc_events := sc_events s @ [Ev_ProtocolAgreed (ng_protocol n)]\<rparr>)"
proof -
  let ?ts = "disarm (arm (sc_timers s) T_Sequence now (cfg_sequence_timeout (sc_config s))) T_CommunicationSetup"
  let ?s = "s\<lparr>sc_timers := ?ts, sc_conn := conn_set_protocol (ng_protocol n) c2, sc_iso20_set := ng_iso20_set n, sc_flow := Some f,
      sc_events := sc_events s @ [Ev_ProtocolAgreed (ng_protocol n)]\<rparr>"
  have "secc_dispatch cs now (of_doc (Doc_AppProtocolReq req)) (s\<lparr>sc_conn := c1\<rparr>) = (Inr (), ?s)"
    using opn n f snd by (simp add: secc_dispatch_def secc_handshake_def secc_send_def push_event_def Let_def)
  moreover have "secc_pump cs now ?s = (Inr (), ?s)" by (rule secc_pump_idle) (simp add: fr conn_set_protocol_def)
  ultimately have "secc_pump cs now (s\<lparr>sc_conn := c\<rparr>) = (Inr (), ?s)"
    using opn nm by (simp add: secc_pump.simps [of cs now "s\<lparr>sc_conn := c\<rparr>"])
  then have "secc_handle_input cs now data s = (Inr (), ?s)" using opn rc by (simp add: secc_handle_input_def fatal_on_error_def)
  then show thesis by (rule that)
qed

lemma evcc_agrees:
  assumes opn: "\<not> ve_closed v" "ve_outstanding v = Some ''supportedAppProtocolReq''" "ve_offer v = Some req"
    and rc: "conn_receive data (ve_conn v) = (Inr (), c)"
    and nm: "conn_next_message cs c = (Inr (Some (of_doc (Doc_AppProtocolRes (res_accept n)))), c1)" and fr: "c_frames c1 = []"
    and n: "protocol_for_schema_id req (ng_schema_id n) = Some (ng_protocol n)"
    and f: "flow_new (ng_protocol n) (vcfg_security (ve_config v)) = Some f"
  obtains ts st where "evcc_handle_input cs now data v = (Inr (), v\<lparr>ve_timers := ts, ve_outstanding := None, ve_answered_at := Some now,
      ve_iso20_set := st, ve_conn := conn_set_protocol (ng_protocol n) c1, ve_flow := Some f,
      ve_events := ve_events v @ [VEv_ProtocolAgreed (ng_protocol n)]\<rparr>)"
proof -
  obtain e where e: "List.find (\<lambda>a. ap_schema_id a = ng_schema_id n) req = Some e" "entry_protocol e = Some (ng_protocol n)"
    using n by (auto simp: protocol_for_schema_id_def bind_eq_Some_conv)
  let ?v = "v\<lparr>ve_timers := disarm (ve_timers v) T_Message, ve_outstanding := None, ve_answered_at := Some now,
      ve_iso20_set := entry_iso20_set e, ve_conn := conn_set_protocol (ng_protocol n) c1, ve_flow := Some f,
      ve_events := ve_events v @ [VEv_ProtocolAgreed (ng_protocol n)]\<rparr>"
  have ok: "app_code_is_ok (res_response_code (res_accept n))" "res_schema_id (res_accept n) = Some (ng_schema_id n)"
    by (simp_all add: res_accept_def negotiated_response_code_def app_code_is_ok_def)
  have a: "answers (of_doc (Doc_AppProtocolRes (res_accept n)) :: 'a msg) ''supportedAppProtocolReq''"
      "\<not> is_request (of_doc (Doc_AppProtocolRes (res_accept n)) :: 'a msg)"
    by (simp_all add: answers_def is_request_def ends_with_def strip_suffix_def message_name_def)
  have "evcc_dispatch now (of_doc (Doc_AppProtocolRes (res_accept n))) (v\<lparr>ve_conn := c1\<rparr>) = (Inr (), ?v)"
    using opn a e f ok by (simp add: evcc_dispatch_def evcc_handshake_def vpush_def Let_def)
  moreover have "evcc_drain cs now ?v = (Inr (), ?v)"
    by (rule evcc_drain_idle) (simp add: fr conn_set_protocol_def)
  ultimately have "evcc_drain cs now (v\<lparr>ve_conn := c\<rparr>) = (Inr (), ?v)"
    using nm opn by (simp add: evcc_drain.simps [of cs now "v\<lparr>ve_conn := c\<rparr>"])
  then have "evcc_handle_input cs now data v = (Inr (), ?v)" using opn rc by (simp add: evcc_handle_input_def)
  then show thesis by (rule that)
qed

lemma talk_start_in_step:
  fixes vc sc and cs :: "'x document codecs"
  defines "req \<equiv> advertising_with (advertised vc) (vcfg_iso20_sets vc)"
  assumes offer: "\<not> protocols_is_empty (advertised vc)"
    and choice: "negotiate_with (protocols_retain flow_supports (cfg_protocols sc)) (cfg_iso20_sets sc) req = Some n"
    and f: "flow_new (ng_protocol n) (cfg_security sc) = Some f" and sec: "vcfg_security vc = cfg_security sc"
    and lim: "vcfg_max_payload_len vc = cfg_max_payload_len sc" "cfg_max_payload_len sc + HEADER_LEN \<le> usize_max"
    and car: "carried cs (cfg_max_payload_len sc) (of_doc (Doc_AppProtocolReq req))"
      "carried cs (cfg_max_payload_len sc) (of_doc (Doc_AppProtocolRes (res_accept n)))"
    and id: "length (cfg_session_id sc) = SESSION_ID_LEN" "\<not> session_id_is_none (cfg_session_id sc)" "vcfg_rejoin vc = None"
  obtains p where "talk_start cs (talk_new vc sc) = Some p" "talk_in_step f p"
    "tk_vlog p = [Offered req, Got (VEv_ProtocolAgreed (ng_protocol n))]" "tk_slog p = [Surfaced (Ev_ProtocolAgreed (ng_protocol n))]"
    "sc_config (tk_station p) = sc" "c_max_payload_len (ve_conn (tk_vehicle p)) = cfg_max_payload_len sc"
    "\<not> sc_established (tk_station p)" "ve_session_id (tk_vehicle p) = session_id_NONE"
    "ve_events (tk_vehicle p) = [VEv_ProtocolAgreed (ng_protocol n)]" "sc_events (tk_station p) = [Ev_ProtocolAgreed (ng_protocol n)]"
proof -
  define v :: "'x evcc" where "v = evcc_new vc"
  define s :: "'x secc" where "s = secc_new sc"
  have idle: "wire_idle (ve_conn v)" "wire_idle (sc_conn s)" "c_protocol (ve_conn v) = None" "c_protocol (sc_conn s) = None"
      "c_max_payload_len (ve_conn v) = cfg_max_payload_len sc" "c_max_payload_len (sc_conn s) = cfg_max_payload_len sc"
    using lim conn_new_inv by (simp_all add: v_def s_def evcc_new_def secc_new_def wire_idle_def) (simp_all add: conn_with_limits_def)
  obtain tx k c where w: "conn_send cs (of_doc (Doc_AppProtocolReq req)) (ve_conn v) = (Inr (), (ve_conn v)\<lparr>c_tx := tx\<rparr>)"
      "conn_receive tx (sc_conn s) = (Inr (), c)"
      "conn_next_message cs c = (Inr (Some (of_doc (Doc_AppProtocolReq req))), (sc_conn s)\<lparr>c_ignored := k\<rparr>)"
    by (rule wire_crosses [where cs = cs and m = "of_doc (Doc_AppProtocolReq req)" and a = "ve_conn v" and b = "sc_conn s"])
      (use idle car in auto)
  obtain ts where st: "evcc_start cs 0 v = (Inr (), v\<lparr>ve_conn := (ve_conn v)\<lparr>c_tx := tx\<rparr>, ve_offer := Some req, ve_timers := ts,
      ve_outstanding := Some ''supportedAppProtocolReq''\<rparr>)" (is "_ = (_, ?v)")
  proof -
    have "ve_config v = vc" "ve_outstanding v = None" "ve_flow v = None" "\<not> ve_closed v" by (simp_all add: v_def evcc_new_def)
    then show thesis using w(1) offer that by (auto simp: evcc_start_def evcc_send_def Let_def req_def)
  qed
  have tt: "evcc_take_transmit ?v = (tx, ?v\<lparr>ve_conn := ve_conn v\<rparr>)"
    using idle by (simp add: evcc_take_transmit_def conn_take_transmit_def)
  let ?c = "(sc_conn s)\<lparr>c_ignored := k\<rparr>"
  obtain tx' k' c' where w': "conn_send cs (of_doc (Doc_AppProtocolRes (res_accept n))) ?c = (Inr (), ?c\<lparr>c_tx := tx'\<rparr>)"
      "conn_receive tx' (ve_conn v) = (Inr (), c')"
      "conn_next_message cs c' = (Inr (Some (of_doc (Doc_AppProtocolRes (res_accept n)))), (ve_conn v)\<lparr>c_ignored := k'\<rparr>)"
    by (rule wire_crosses [where cs = cs and m = "of_doc (Doc_AppProtocolRes (res_accept n))" and a = ?c and b = "ve_conn v"])
      (use idle car in auto)
  obtain ts1 where st1: "secc_handle_input cs 0 tx s = (Inr (), s\<lparr>sc_timers := ts1, sc_conn := conn_set_protocol (ng_protocol n) (?c\<lparr>c_tx := tx'\<rparr>),
      sc_iso20_set := ng_iso20_set n, sc_flow := Some f, sc_events := sc_events s @ [Ev_ProtocolAgreed (ng_protocol n)]\<rparr>)" (is "_ = (_, ?s)")
    by (rule secc_agrees [OF _ _ _ w(2,3) _ _ w'(1), where f = f])
      (use choice f idle in \<open>simp_all add: s_def secc_new_def wire_idle_def\<close>)
  have "protocol_for_schema_id req (ng_schema_id n) = Some (ng_protocol n)"
    using negotiated_schema_id numbered_distinct advertising_with_offers choice unfolding req_def by blast
  note chosen = this
  have vf: "\<not> ve_closed v" "ve_config v = vc" by (simp_all add: v_def evcc_new_def)
  obtain ts2 st2 where st2: "evcc_handle_input cs 0 tx' (?v\<lparr>ve_conn := ve_conn v\<rparr>) = (Inr (), (?v\<lparr>ve_conn := ve_conn v\<rparr>)\<lparr>ve_timers := ts2,
      ve_outstanding := None, ve_answered_at := Some 0, ve_iso20_set := st2, ve_conn := conn_set_protocol (ng_protocol n) ((ve_conn v)\<lparr>c_ignored := k'\<rparr>),
      ve_flow := Some f, ve_events := ve_events (?v\<lparr>ve_conn := ve_conn v\<rparr>) @ [VEv_ProtocolAgreed (ng_protocol n)]\<rparr>)" (is "_ = (_, ?w)")
    by (rule evcc_agrees [where v = "?v\<lparr>ve_conn := ve_conn v\<rparr>" and cs = cs and data = tx' and c = c' and now = 0 and req = req and n = n and f = f
        and ?c1.0 = "(ve_conn v)\<lparr>c_ignored := k'\<rparr>"]) (use w'(2,3) f sec idle chosen vf in \<open>simp_all add: wire_idle_def\<close>)
  have tt': "secc_take_transmit ?s = (tx', ?s\<lparr>sc_conn := conn_set_protocol (ng_protocol n) ?c\<rparr>)"
    using idle by (simp add: secc_take_transmit_def conn_take_transmit_def conn_set_protocol_def wire_idle_def)
  define p where "p = \<lparr>tk_vehicle = ?w, tk_station = ?s\<lparr>sc_conn := conn_set_protocol (ng_protocol n) ?c\<rparr>,
      tk_vlog = [Offered req, Got (VEv_ProtocolAgreed (ng_protocol n))], tk_slog = [Surfaced (Ev_ProtocolAgreed (ng_protocol n))]\<rparr>"
  have "talk_start cs (talk_new vc sc) = Some p"
    using st tt st1 tt' st2
    by (simp add: talk_start_def talk_new_def talk_upstream_def talk_downstream_def v_def [symmetric] s_def [symmetric] p_def surfaced_def gained_def)
  moreover have "talk_in_step f p"
    using idle id flow_ran_new [OF f]
    by (simp add: talk_in_step_def in_step_def p_def v_def s_def evcc_new_def secc_new_def conn_set_protocol_def wire_idle_def conn_inv_def
        session_id_NONE_def)
  ultimately show thesis using that [of p] idle id by (simp add: p_def v_def s_def evcc_new_def secc_new_def conn_set_protocol_def)
qed

section \<open>A DC session\<close>

text \<open>
  The documents of the sample, and codecs that write a document as its place in a table and its session
  identifier, so that every document of the table is read back. The place is kept in the rest of the header.
\<close>

definition sample_config :: secc_config where
  "sample_config = secc_config_default\<lparr>cfg_session_id := [0, 0, 0, 0, 0, 0, 0, 7], cfg_security := Tls\<rparr>"

definition sample_vconfig :: evcc_config where
  "sample_vconfig = evcc_config_default\<lparr>vcfg_protocols := protocols_from_slice [Iso2], vcfg_security := Tls\<rparr>"

definition sample_bodies :: "nat body2 list" where
  "sample_bodies =
     [B2_SessionSetupReq 0, B2_ServiceDiscoveryReq 0, B2_PaymentServiceSelectionReq Contract 0, B2_PaymentDetailsReq 0,
      B2_AuthorizationReq 0, B2_ChargeParameterDiscoveryReq DCExtended 0, B2_CableCheckReq 0, B2_PreChargeReq 0,
      B2_PowerDeliveryReq CP2_Start 0,
      B2_SessionSetupRes C2_OKNewSessionEstablished 0, B2_ServiceDiscoveryRes C2_OK 0, B2_PaymentServiceSelectionRes C2_OK 0,
      B2_PaymentDetailsRes C2_OK 0, B2_AuthorizationRes C2_OK 0, B2_ChargeParameterDiscoveryRes C2_OK 0,
      B2_CableCheckRes C2_OK 0, B2_PreChargeRes C2_OK 0, B2_PowerDeliveryRes C2_OK 0]"

definition v2g :: "bytes \<Rightarrow> nat \<Rightarrow> nat msg" where
  "v2g i k = of_doc (Doc_Iso2 (D2_V2GMessage \<lparr>v2g_header = \<lparr>h2_session_id = i, h2_rest = k\<rparr>, v2g_body = Some (sample_bodies ! k)\<rparr>))"

definition sample_choice :: negotiated where
  "sample_choice = \<lparr>ng_protocol = Iso2, ng_iso20_set = None, ng_schema_id = 1, ng_minor_deviation = False\<rparr>"

definition table_to_vec :: "message_set \<Rightarrow> nat document \<Rightarrow> exi_error + bytes" where
  "table_to_vec ms d =
     (case d of
        Doc_AppProtocolReq _ \<Rightarrow> Inr [200]
      | Doc_AppProtocolRes _ \<Rightarrow> Inr [201]
      | Doc_Iso2 (D2_V2GMessage v) \<Rightarrow> Inr (of_nat (h2_rest (v2g_header v)) # h2_session_id (v2g_header v))
      | _ \<Rightarrow> Inl UnknownEventCode)"

definition table_from_bytes :: "message_set \<Rightarrow> bytes \<Rightarrow> exi_error + nat document" where
  "table_from_bytes ms bs =
     (case bs of
        [] \<Rightarrow> Inl UnexpectedEnd
      | t # i \<Rightarrow>
          if ms = M_AppProtocolReq \<and> t = 200 then Inr (Doc_AppProtocolReq [for_protocol Iso2 1 1])
          else if ms = M_AppProtocolRes \<and> t = 201 then Inr (Doc_AppProtocolRes (res_accept sample_choice))
          else if ms = M_Iso2 \<and> unat t < 18 then Inr (msg_doc (v2g i (unat t)))
          else Inl UnknownEventCode)"

definition table_codecs :: "nat document codecs" where
  "table_codecs = \<lparr>compiled = (\<lambda>_. True), from_bytes = table_from_bytes, to_vec = table_to_vec\<rparr>"

lemma table_carries:
  "k < 18 \<Longrightarrow> length i = SESSION_ID_LEN \<Longrightarrow> carried table_codecs (cfg_max_payload_len sample_config) (v2g i k)"
  "carried table_codecs (cfg_max_payload_len sample_config) (of_doc (Doc_AppProtocolReq [for_protocol Iso2 1 1]))"
  "carried table_codecs (cfg_max_payload_len sample_config) (of_doc (Doc_AppProtocolRes (res_accept sample_choice)))"
  by (simp_all add: carried_def table_codecs_def table_to_vec_def table_from_bytes_def v2g_def SESSION_ID_LEN_def
      sample_config_def secc_config_default_def MAX_EXI_PAYLOAD_LEN_def unsigned_of_nat take_bit_nat_eq_self)

lemma set_session_id_v2g: "set_session_id i (v2g j k) = (True, v2g i k)"
  by (simp add: v2g_def set_session_id_def of_doc_def)

lemma sample_lengths:
  "cfg_max_payload_len sample_config + HEADER_LEN \<le> usize_max"
  "vcfg_max_payload_len sample_vconfig = cfg_max_payload_len sample_config"
  "length (cfg_session_id sample_config) = SESSION_ID_LEN"
  by (simp_all add: sample_config_def sample_vconfig_def secc_config_default_def evcc_config_default_def MAX_EXI_PAYLOAD_LEN_def
      HEADER_LEN_def usize_max_def SESSION_ID_LEN_def)

lemma sample_id: "\<not> session_id_is_none (cfg_session_id sample_config)"
proof -
  have "last (cfg_session_id sample_config) = 7" "last session_id_NONE = 0"
    by (simp_all add: sample_config_def session_id_NONE_def SESSION_ID_LEN_def)
  then show ?thesis by (auto simp: session_id_is_none_def)
qed

lemma sample_offered:
  "protocols_is_empty (advertised sample_vconfig) = False"
  "advertising_with (advertised sample_vconfig) (vcfg_iso20_sets sample_vconfig) = [for_protocol Iso2 1 1]"
  "negotiate_with (protocols_retain flow_supports (cfg_protocols sample_config)) (cfg_iso20_sets sample_config) [for_protocol Iso2 1 1]
     = Some sample_choice"
  by (simp_all add: sample_vconfig_def evcc_config_default_def advertised_def advertising_with_def MAX_APP_PROTOCOLS_def
      protocols_from_slice_def protocols_with_def protocols_contains_def protocols_new_def Protocol_COUNT_def protocols_retain_def
      DEFAULT_ISO20_SETS_def protocols_is_empty_def Protocol_ALL_def numeral_3_eq_3 schema_id_for_index_def
      sample_config_def secc_config_default_def negotiate_with_def negotiate_step_def sample_choice_def)
    (simp add: for_protocol_def)

lemma sample_places: "k < 9 \<Longrightarrow> k = 0 \<or> k = 1 \<or> k = 2 \<or> k = 3 \<or> k = 4 \<or> k = 5 \<or> k = 6 \<or> k = 7 \<or> k = (8 :: nat)"
  by arith

lemma sample_request:
  assumes "k < 9"
  shows "iso2_request_of (v2g i k) = Some (sample_dc ! k)" and "typed (v2g i j)" and "answers (v2g i (k + 9)) (message_name (v2g j' k))"
    and "message_outcome (v2g i (k + 9)) = Some Outcome_Ok" and "msg_set (v2g i j) = M_Iso2"
    and "message_name (v2g i 0) = ''SessionSetupReq''"
proof -
  show "iso2_request_of (v2g i k) = Some (sample_dc ! k)"
    using sample_places [OF assms] by (elim disjE) (simp_all add: v2g_def iso2_request_of_def sample_bodies_def sample_dc_def)
  show "answers (v2g i (k + 9)) (message_name (v2g j' k))" "message_outcome (v2g i (k + 9)) = Some Outcome_Ok"
    using sample_places [OF assms]
    by (elim disjE; simp add: v2g_def message_name_def answers_def strip_suffix_def sample_bodies_def message_outcome_def classify2_def
        classify_def)+
qed (simp_all add: v2g_def message_name_def sample_bodies_def)

lemma sample_fair:
  assumes st: "talk_in_step (Flow_Iso2 q) p" and cf: "sc_config (tk_station p) = sample_config"
    "c_max_payload_len (ve_conn (tk_vehicle p)) = cfg_max_payload_len sample_config" and k: "k < 9"
    and est: "sc_established (tk_station p) \<or> k = 0" and acc: "iso2_accept q (sample_dc ! k) = (Inr ph, q')"
  shows "fair_exchange table_codecs (Flow_Iso2 q) p (v2g [] k) (v2g [] (k + 9))"
    and "flow_accept (Flow_Iso2 q) (v2g [] k) = (Inr (), Flow_Iso2 q')"
proof -
  note sr = sample_request [OF k]
  have len: "length (ve_session_id (tk_vehicle p)) = SESSION_ID_LEN" using st by (simp add: talk_in_step_def in_step_def)
  show fa: "flow_accept (Flow_Iso2 q) (v2g [] k) = (Inr (), Flow_Iso2 q')" using acc sr(1) by (simp add: flow_result_def)
  then have "permitted (Flow_Iso2 q) (v2g [] k)"
    using flow_accept_permits [of "Flow_Iso2 q" "v2g [] k"] by (simp add: permitted_def)
  then show "fair_exchange table_codecs (Flow_Iso2 q) p (v2g [] k) (v2g [] (k + 9))"
    using est k len table_carries(1) sample_lengths sr cf by (auto simp: fair_exchange_def set_session_id_v2g Let_def)
qed

lemma sample_exchange:
  assumes st: "talk_in_step (Flow_Iso2 q) p" and cf: "sc_config (tk_station p) = sample_config"
    "c_max_payload_len (ve_conn (tk_vehicle p)) = cfg_max_payload_len sample_config" and k: "k < 9"
    and est: "sc_established (tk_station p) \<or> k = 0" and acc: "iso2_accept q (sample_dc ! k) = (Inr ph, q')"
    and opn: "\<not> iso2_is_finished q'" "\<not> iso2_is_paused q'"
  obtains p' where "Option.bind (talk_ask table_codecs (v2g [] k) p) (talk_answer table_codecs (v2g [] (k + 9))) = Some p'"
    "talk_in_step (Flow_Iso2 q') p'" "sc_config (tk_station p') = sample_config" "sc_established (tk_station p')"
    "c_max_payload_len (ve_conn (tk_vehicle p')) = cfg_max_payload_len sample_config"
    "asked2 (tk_vlog p') = asked2 (tk_vlog p) @ [sample_dc ! k]" "requests2 (tk_slog p') = requests2 (tk_slog p) @ [sample_dc ! k]"
    "Got (VEv_Response (v2g (cfg_session_id sample_config) (k + 9))) \<in> set (tk_vlog p')"
proof -
  let ?i = "ve_session_id (tk_vehicle p)"
  let ?r = "v2g (cfg_session_id sample_config) (k + 9)"
  note sr = sample_request [OF k]
  have told: "told ?r (Flow_Iso2 q') = Flow_Iso2 q'" by (simp add: told_def sr(4))
  note fair = sample_fair [OF st cf k est acc]
  from talk_exchange [OF st fair(1) set_session_id_v2g set_session_id_v2g fair(2) refl] obtain p' where
    p': "Option.bind (talk_ask table_codecs (v2g [] k) p) (talk_answer table_codecs (v2g [] (k + 9))) = Some p'"
      "tk_vlog p' = tk_vlog p @ Asked (v2g ?i k) # Got (VEv_Response ?r) # map Got (vehicle_end ?r (Flow_Iso2 q'))"
      "tk_slog p' = tk_slog p @ Surfaced (Ev_Request (v2g ?i k)) # Answered (v2g [] (k + 9)) # map Surfaced (station_end (Flow_Iso2 q'))"
      "talk_in_step (Flow_Iso2 q') p'" "same_terms p p'"
    using told cf opn by (auto split: if_splits)
  have "(station_end (Flow_Iso2 q') :: nat secc_event list) = []" "vehicle_end ?r (Flow_Iso2 q') = []"
    using opn sr(4) by (simp_all add: station_end_def vehicle_end_def)
  then show thesis using that [OF p'(1,4)] p' cf sr(1) by (simp add: same_terms_def as_request2_def)
qed

text \<open>A list of requests that are all accepted and none of which ends the session.\<close>

fun drive_open :: "iso2_sequencer \<Rightarrow> iso2_request list \<Rightarrow> iso2_sequencer option" where
  "drive_open q [] = Some q"
| "drive_open q (r # rs) =
     (case iso2_accept q r of
        (Inl _, _) \<Rightarrow> None
      | (Inr _, q') \<Rightarrow> if iso2_is_finished q' \<or> iso2_is_paused q' then None else drive_open q' rs)"

lemma sample_drive:
  "n \<le> 9 \<Longrightarrow> k \<le> n \<Longrightarrow> talk_in_step (Flow_Iso2 q) p \<Longrightarrow> sc_config (tk_station p) = sample_config \<Longrightarrow>
   c_max_payload_len (ve_conn (tk_vehicle p)) = cfg_max_payload_len sample_config \<Longrightarrow> sc_established (tk_station p) \<or> k = 0 \<Longrightarrow>
   drive_open q (drop k (take n sample_dc)) = Some q' \<Longrightarrow>
   \<exists>p'. talk_all table_codecs (map (\<lambda>k. (v2g [] k, v2g [] (k + 9))) [k..<n]) p = Some p' \<and> talk_in_step (Flow_Iso2 q') p'
     \<and> sc_config (tk_station p') = sample_config \<and> (sc_established (tk_station p') \<or> n = 0)
     \<and> c_max_payload_len (ve_conn (tk_vehicle p')) = cfg_max_payload_len sample_config
     \<and> asked2 (tk_vlog p') = asked2 (tk_vlog p) @ drop k (take n sample_dc)
     \<and> requests2 (tk_slog p') = requests2 (tk_slog p) @ drop k (take n sample_dc)"
proof (induction "n - k" arbitrary: k p q)
  case 0
  then show ?case by auto
next
  case (Suc d)
  then have k: "k < n" "k < 9" by simp_all
  have len: "length sample_dc = 9" by (simp add: sample_dc_def)
  then have dr: "drop k (take n sample_dc) = sample_dc ! k # drop (Suc k) (take n sample_dc)"
    using k Suc.prems(1) by (subst Cons_nth_drop_Suc [symmetric]) auto
  obtain ph q1 where q1: "iso2_accept q (sample_dc ! k) = (Inr ph, q1)" "\<not> iso2_is_finished q1" "\<not> iso2_is_paused q1"
      "drive_open q1 (drop (Suc k) (take n sample_dc)) = Some q'"
    using Suc.prems(7) by (auto simp: dr split: sum.splits prod.splits if_splits)
  obtain p1 where p1: "Option.bind (talk_ask table_codecs (v2g [] k) p) (talk_answer table_codecs (v2g [] (k + 9))) = Some p1"
      "talk_in_step (Flow_Iso2 q1) p1" "sc_config (tk_station p1) = sample_config" "sc_established (tk_station p1)"
      "c_max_payload_len (ve_conn (tk_vehicle p1)) = cfg_max_payload_len sample_config"
      "asked2 (tk_vlog p1) = asked2 (tk_vlog p) @ [sample_dc ! k]" "requests2 (tk_slog p1) = requests2 (tk_slog p) @ [sample_dc ! k]"
    by (rule sample_exchange [OF Suc.prems(3,4,5) k(2) Suc.prems(6) q1(1,2,3)])
  have "d = n - Suc k" using Suc.hyps(2) by simp
  from Suc.hyps(1) [OF this Suc.prems(1) _ p1(2,3,5) _ q1(4)] k p1 show ?case
    by (auto simp: upt_conv_Cons dr)
qed

lemma sample_opening:
  obtains p where "talk_run table_codecs sample_vconfig sample_config p" "talk_in_step (Flow_Iso2 (iso2_new Tls)) p"
    "sc_config (tk_station p) = sample_config" "c_max_payload_len (ve_conn (tk_vehicle p)) = cfg_max_payload_len sample_config"
    "asked2 (tk_vlog p) = []" "requests2 (tk_slog p) = []"
proof -
  obtain p where p: "talk_start table_codecs (talk_new sample_vconfig sample_config) = Some p" "talk_in_step (Flow_Iso2 (iso2_new Tls)) p"
      "tk_vlog p = [Offered [for_protocol Iso2 1 1], Got (VEv_ProtocolAgreed Iso2)]" "tk_slog p = [Surfaced (Ev_ProtocolAgreed Iso2)]"
      "sc_config (tk_station p) = sample_config" "c_max_payload_len (ve_conn (tk_vehicle p)) = cfg_max_payload_len sample_config"
    by (rule talk_start_in_step [where vc = sample_vconfig and sc = sample_config and cs = table_codecs and n = sample_choice
          and f = "Flow_Iso2 (iso2_new Tls)", unfolded sample_offered])
      (use sample_lengths sample_id table_carries in \<open>simp_all add: sample_choice_def sample_config_def sample_vconfig_def evcc_config_default_def\<close>)
  from talk_start_run [OF talk_new_run p(1)] p show thesis by (intro that [of p]) simp_all
qed

definition sample_dc_precharged :: iso2_sequencer where
  "sample_dc_precharged = sample_dc_end\<lparr>s2_phase := P2_PreCharge\<rparr>"

lemma sample_driven:
  "drive_open (iso2_new Tls) (take 8 sample_dc) = Some sample_dc_precharged"
  "drive_open (iso2_new Tls) (take 9 sample_dc) = Some sample_dc_end"
  by code_simp+

lemma sample_session:
  assumes "n \<le> 9" and "0 < n" and "drive_open (iso2_new Tls) (take n sample_dc) = Some q"
  obtains p where "talk_run table_codecs sample_vconfig sample_config p" "talk_in_step (Flow_Iso2 q) p"
    "asked2 (tk_vlog p) = take n sample_dc" "requests2 (tk_slog p) = take n sample_dc" "sc_established (tk_station p)"
    "sc_config (tk_station p) = sample_config" "c_max_payload_len (ve_conn (tk_vehicle p)) = cfg_max_payload_len sample_config"
proof -
  obtain p0 where p0: "talk_run table_codecs sample_vconfig sample_config p0" "talk_in_step (Flow_Iso2 (iso2_new Tls)) p0"
      "sc_config (tk_station p0) = sample_config" "c_max_payload_len (ve_conn (tk_vehicle p0)) = cfg_max_payload_len sample_config"
      "asked2 (tk_vlog p0) = []" "requests2 (tk_slog p0) = []" by (rule sample_opening)
  from sample_drive [OF assms(1) _ p0(2,3,4), of 0] assms p0 obtain p where
    p: "talk_all table_codecs (map (\<lambda>k. (v2g [] k, v2g [] (k + 9))) [0..<n]) p0 = Some p" "talk_in_step (Flow_Iso2 q) p"
      "asked2 (tk_vlog p) = take n sample_dc" "requests2 (tk_slog p) = take n sample_dc" "sc_established (tk_station p)"
      "sc_config (tk_station p) = sample_config" "c_max_payload_len (ve_conn (tk_vehicle p)) = cfg_max_payload_len sample_config"
    by auto
  from that [OF talk_all_run [OF p0(1) p(1)] p(2-)] show thesis .
qed

text \<open>The whole session, and the last request of it on its way.\<close>

lemma sample_session_end:
  obtains p :: "nat talk" where "evcc_run table_codecs sample_vconfig (tk_vlog p) (tk_vehicle p)" "secc_run table_codecs sample_config (tk_slog p) (tk_station p)"
    "asked2 (tk_vlog p) = sample_dc" "requests2 (tk_slog p) = sample_dc"
    "ve_flow (tk_vehicle p) = Some (Flow_Iso2 sample_dc_end)" "sc_flow (tk_station p) = Some (Flow_Iso2 sample_dc_end)"
    "\<not> ve_closed (tk_vehicle p)" "\<not> sc_closed (tk_station p)"
proof -
  obtain p where "talk_run table_codecs sample_vconfig sample_config p" "talk_in_step (Flow_Iso2 sample_dc_end) p"
      "asked2 (tk_vlog p) = take 9 sample_dc" "requests2 (tk_slog p) = take 9 sample_dc"
    by (rule sample_session [OF _ _ sample_driven(2)]) simp_all
  then show thesis by (intro that [of p]) (simp_all add: talk_run_def talk_in_step_def in_step_def sample_dc_def)
qed

lemma sample_session_last:
  obtains p q :: "nat talk" and data where "sc_established (tk_station p)"
    "tk_station q = snd (secc_handle_input table_codecs 0 data (tk_station p))"
    "surfaced (tk_station p) (tk_station q) = [Surfaced (Ev_Request (v2g (ve_session_id (tk_vehicle p)) 8))]"
    "talk_answer table_codecs (v2g [] 17) q \<noteq> None"
proof -
  obtain p where p: "talk_run table_codecs sample_vconfig sample_config p" "talk_in_step (Flow_Iso2 sample_dc_precharged) p"
      "sc_established (tk_station p)" "sc_config (tk_station p) = sample_config"
      "c_max_payload_len (ve_conn (tk_vehicle p)) = cfg_max_payload_len sample_config"
    by (rule sample_session [OF _ _ sample_driven(1)]) simp_all
  have acc: "iso2_accept sample_dc_precharged (sample_dc ! 8) = (Inr P2_Charging, sample_dc_end)" by code_simp
  have opn: "\<not> iso2_is_finished sample_dc_end" "\<not> iso2_is_paused sample_dc_end"
    by (simp_all add: sample_dc_end_def iso2_is_finished_def iso2_is_paused_def)
  note fair = sample_fair [OF p(2,4,5) _ _ acc]
  obtain q where q: "talk_ask table_codecs (v2g [] 8) p = Some q"
      "tk_slog q = tk_slog p @ [Surfaced (Ev_Request (v2g (ve_session_id (tk_vehicle p)) 8))]"
    by (rule talk_ask_in_step [OF p(2) fair(1) set_session_id_v2g fair(2)]) (use p(3) in simp_all)
  obtain p' where "Option.bind (talk_ask table_codecs (v2g [] 8) p) (talk_answer table_codecs (v2g [] (8 + 9))) = Some p'"
    by (rule sample_exchange [OF p(2,4,5) _ _ acc opn]) (use p(3) in simp_all)
  then have ans: "talk_answer table_codecs (v2g [] 17) q \<noteq> None" using q(1) by simp
  obtain data where "tk_station q = snd (secc_handle_input table_codecs 0 data (tk_station p))"
      "tk_slog q = tk_slog p @ surfaced (tk_station p) (tk_station q)"
    using q(1) by (auto simp: talk_ask_def talk_upstream_def Let_def split: sum.splits prod.splits)
  then show thesis using q(2) ans p(3) by (intro that [of p q data]) simp_all
qed

section \<open>Properties\<close>

text \<open>
  C10. The handshake brings both ends in step: when the station's choice among what the vehicle offers is a
  protocol it can speak, and the codecs carry the two handshake documents, then opening the session leaves both
  ends open, idle and at the start of the same flow, each having reported the agreed protocol. The two ends are
  configured as ends of one connection, with the same security and the same limit on payloads, the station has an
  identifier to assign, and the vehicle does not rejoin an earlier session.
\<close>

theorem handshake_in_step:
  fixes cs :: "'x document codecs"
  assumes "\<not> protocols_is_empty (advertised vc)"
    and "negotiate_with (protocols_retain flow_supports (cfg_protocols sc)) (cfg_iso20_sets sc)
           (advertising_with (advertised vc) (vcfg_iso20_sets vc)) = Some n"
    and "flow_new (ng_protocol n) (cfg_security sc) = Some f" and "vcfg_security vc = cfg_security sc"
    and "vcfg_max_payload_len vc = cfg_max_payload_len sc" and "cfg_max_payload_len sc + HEADER_LEN \<le> usize_max"
    and "carried cs (cfg_max_payload_len sc) (of_doc (Doc_AppProtocolReq (advertising_with (advertised vc) (vcfg_iso20_sets vc))))"
    and "carried cs (cfg_max_payload_len sc) (of_doc (Doc_AppProtocolRes (res_accept n)))"
    and "length (cfg_session_id sc) = SESSION_ID_LEN" and "\<not> session_id_is_none (cfg_session_id sc)" and "vcfg_rejoin vc = None"
  shows "\<exists>p. talk_start cs (talk_new vc sc) = Some p \<and> talk_in_step f p
    \<and> ve_events (tk_vehicle p) = [VEv_ProtocolAgreed (ng_protocol n)] \<and> sc_events (tk_station p) = [Ev_ProtocolAgreed (ng_protocol n)]"
  by (rule talk_start_in_step [OF assms]) blast

theorem handshake_in_step_witness:
  "\<exists>p. talk_start table_codecs (talk_new sample_vconfig sample_config) = Some p \<and> talk_in_step (Flow_Iso2 (iso2_new Tls)) p"
  using handshake_in_step [of sample_vconfig sample_config sample_choice "Flow_Iso2 (iso2_new Tls)" table_codecs]
    sample_offered sample_lengths sample_id table_carries
  by (auto simp: sample_choice_def sample_config_def sample_vconfig_def evcc_config_default_def)

text \<open>
  C2. Vehicle and station stay in step: from a common flow, a request that has its place there and its answer,
  both carried by the codecs and within the one limit on payloads,
  pass through both ends, over the wire and back; each end logs the request and the answer once, and then both
  stand at the same flow again, which has failed on both sides when the answer says so; if the request ended or
  paused the session, both ends are closed.
\<close>

theorem exchange_in_step:
  assumes "talk_in_step f p" and "fair_exchange cs f p m r"
  shows "\<exists>q f' m' r' g. flow_accept f m = (Inr (), f') \<and> m' = snd (set_session_id (ve_session_id (tk_vehicle p)) m)
    \<and> r' = snd (set_session_id (cfg_session_id (sc_config (tk_station p))) r) \<and> g = told r' f'
    \<and> Option.bind (talk_ask cs m p) (talk_answer cs r) = Some q
    \<and> tk_vlog q = tk_vlog p @ Asked m' # Got (VEv_Response r') # map Got (vehicle_end r' g)
    \<and> tk_slog q = tk_slog p @ Surfaced (Ev_Request m') # Answered r # map Surfaced (station_end g)
    \<and> (if flow_is_paused g \<or> flow_is_finished g then ve_closed (tk_vehicle q) \<and> sc_closed (tk_station q) else talk_in_step g q)"
proof -
  obtain b m' b' r' where s: "set_session_id (ve_session_id (tk_vehicle p)) m = (b, m')"
      "set_session_id (cfg_session_id (sc_config (tk_station p))) r = (b', r')" by fastforce
  have "flow_permits f m = Inr ()" using assms(2) by (auto simp: fair_exchange_def permitted_def Let_def split: prod.splits)
  then obtain f' where f': "flow_accept f m = (Inr (), f')" using flow_accept_permits [of f m] by (cases "flow_accept f m") auto
  show ?thesis
    by (rule talk_exchange [OF assms s f' refl]) (intro exI conjI, use s f' in \<open>simp_all\<close>)
qed

theorem exchange_in_step_witness:
  "\<exists>p q :: nat talk. Option.bind (talk_ask table_codecs (v2g [] 0) p) (talk_answer table_codecs (v2g [] 9)) = Some q
     \<and> requests2 (tk_slog q) = [R2_SessionSetup]"
proof -
  obtain p :: "nat talk" where p: "talk_in_step (Flow_Iso2 (iso2_new Tls)) p" "sc_config (tk_station p) = sample_config"
      "c_max_payload_len (ve_conn (tk_vehicle p)) = cfg_max_payload_len sample_config" "requests2 (tk_slog p) = []"
    by (rule sample_opening)
  have "iso2_accept (iso2_new Tls) (sample_dc ! 0) = (Inr P2_SessionSetup, (iso2_new Tls)\<lparr>s2_phase := P2_SessionSetup\<rparr>)"
    by code_simp
  note fair = sample_fair(1) [OF p(1-3) _ _ this]
  from exchange_in_step [OF p(1) fair] p(4) sample_request(1) [of 0] show ?thesis
    by (fastforce simp: set_session_id_v2g sample_dc_def station_end_def)
qed

end
