(* ===== verification/Secc_Properties.thy ===== *)
theory Secc_Properties
  imports Session_Pair
begin

text \<open>
  The properties of a station, over every run of theory \<open>Secc_Safety\<close>. The DC session of theory \<open>Session_Pair\<close>
  is their witness.
\<close>

section \<open>What is checked before a request is surfaced\<close>

definition newly :: "'x secc \<Rightarrow> 'x secc \<Rightarrow> 'x secc_event \<Rightarrow> bool" where
  "newly s s' e \<longleftrightarrow> e \<in> set (drop (length (sc_events s)) (sc_events s'))"

text \<open>Closing adds no request to the queue, and pumping only requests that carry the identifier.\<close>

definition adds_checked :: "'x secc \<Rightarrow> 'x secc \<Rightarrow> bool" where
  "adds_checked s s' \<longleftrightarrow> sc_config s' = sc_config s \<and> (sc_established s \<longrightarrow> sc_established s')
     \<and> (\<exists>evs. sc_events s' = sc_events s @ evs
        \<and> (sc_established s \<longrightarrow> (\<forall>m. Ev_Request m \<in> set evs \<longrightarrow> carries_the_session_id s m)))"

lemma adds_checkedI:
  "sc_config s' = sc_config s \<Longrightarrow> (sc_established s \<Longrightarrow> sc_established s') \<Longrightarrow> sc_events s' = sc_events s @ evs \<Longrightarrow>
   (\<And>m. sc_established s \<Longrightarrow> Ev_Request m \<in> set evs \<Longrightarrow> carries_the_session_id s m) \<Longrightarrow> adds_checked s s'"
  by (auto simp: adds_checked_def)

lemma adds_checked_refl: "adds_checked s s" "adds_checked s (s\<lparr>sc_conn := c\<rparr>)"
  by (auto simp: adds_checked_def)

lemma adds_checked_conn: "adds_checked (s\<lparr>sc_conn := c\<rparr>) s' = adds_checked s s'"
  by (simp add: adds_checked_def carries_the_session_id_def)

lemma adds_checked_trans: "adds_checked s s' \<Longrightarrow> adds_checked s' s'' \<Longrightarrow> adds_checked s s''"
  by (fastforce simp: adds_checked_def carries_the_session_id_def)

lemma secc_dispatch_checked:
  assumes "secc_dispatch cs now m s = (res, s')" and "\<not> sc_closed s" and "sc_outstanding s = None"
  shows "adds_checked s s'"
  using assms
proof (cases rule: secc_dispatchE)
  case (error e)
  then show ?thesis by (intro adds_checkedI [where evs = "[]"]) (auto simp: keeps_def same_session_def)
next
  case (agreed p f)
  then show ?thesis by (intro adds_checkedI [where evs = "[Ev_ProtocolAgreed p]"]) (auto simp: keeps_def)
next
  case no_common
  then show ?thesis by (intro adds_checkedI [where evs = "[Ev_Closed Close_NoCommonProtocol]"]) (auto simp: keeps_def)
next
  case (refused e)
  then show ?thesis by (intro adds_checkedI [where evs = "[e, Ev_Closed Close_Refused]"]) (auto simp: keeps_def)
next
  case (request f f')
  then show ?thesis by (intro adds_checkedI [where evs = "[Ev_Request m]"]) (auto simp: keeps_def)
qed

lemma secc_pump_checked: "secc_pump cs now s = (res, s') \<Longrightarrow> adds_checked s s'"
proof (induction cs now s rule: secc_pump.induct)
  case (1 cs now s)
  show ?case
  proof (cases "sc_closed s \<or> sc_outstanding s \<noteq> None")
    case True
    then show ?thesis using "1.prems" by (simp add: secc_pump.simps [of cs now s] adds_checked_refl)
  next
    case False
    obtain r c where nm: "conn_next_message cs (sc_conn s) = (r, c)" by fastforce
    show ?thesis
    proof (cases "\<exists>m. r = Inr (Some m)")
      case True
      then obtain m where r: "r = Inr (Some m)" by blast
      obtain d s1 where disp: "secc_dispatch cs now m (s\<lparr>sc_conn := c\<rparr>) = (d, s1)" by fastforce
      have step: "adds_checked s s1" using secc_dispatch_checked [OF disp] False by (simp add: adds_checked_conn)
      show ?thesis
      proof (cases d)
        case (Inl e)
        then show ?thesis using "1.prems" False nm r disp step by (simp add: secc_pump.simps [of cs now s])
      next
        case (Inr u)
        then have "secc_pump cs now s1 = (res, s')"
          using "1.prems" False nm r disp by (simp add: secc_pump.simps [of cs now s])
        from "1.IH" [OF False nm [symmetric, unfolded r] refl refl disp [symmetric, unfolded Inr] refl this] step
        show ?thesis by (rule adds_checked_trans [rotated])
      qed
    next
      case other: False
      then have "s' = s\<lparr>sc_conn := c\<rparr>" using "1.prems" False nm
        by (auto simp: secc_pump.simps [of cs now s] split: sum.splits option.splits)
      then show ?thesis by (simp add: adds_checked_refl)
    qed
  qed
qed

lemma secc_closed_checked:
  "adds_checked s (secc_close_fatal s)" "adds_checked s (secc_close why s)"
  by (auto simp: adds_checked_def secc_close_fatal_def secc_close_def push_event_def)

lemma fatal_on_error_checked: "adds_checked s s1 \<Longrightarrow> fatal_on_error (r, s1) = (res, s') \<Longrightarrow> adds_checked s s'"
  using adds_checked_trans [OF _ secc_closed_checked(1)] by (auto simp: fatal_on_error_def split: sum.splits)

lemma secc_handle_input_checked:
  assumes "secc_handle_input cs now data s = (res, s')"
  shows "adds_checked s s'"
proof (cases "sc_closed s")
  case True
  then show ?thesis using assms by (simp add: secc_handle_input_def adds_checked_refl)
next
  case False
  obtain r c where rc: "conn_receive data (sc_conn s) = (r, c)" by fastforce
  obtain q s1 where p: "secc_pump cs now (s\<lparr>sc_conn := c\<rparr>) = (q, s1)" by fastforce
  have "adds_checked s s1" using secc_pump_checked [OF p] by (simp add: adds_checked_conn)
  then show ?thesis using assms False rc p fatal_on_error_checked [OF adds_checked_refl(2)] fatal_on_error_checked
    by (auto simp: secc_handle_input_def split: sum.splits)
qed

section \<open>Timeouts of a station\<close>

lemma secc_timeout_keeps:
  "timers_inv (sc_timers s) \<Longrightarrow> \<not> sc_closed (secc_timeout_loop n now s) \<Longrightarrow> t \<noteq> T_Ongoing \<Longrightarrow>
     deadline (sc_timers (secc_timeout_loop n now s)) t = deadline (sc_timers s) t"
proof (induction n arbitrary: s)
  case (Suc n)
  obtain u ts where ex: "expired (sc_timers s) now = (u, ts)" by fastforce
  have ti: "timers_inv ts" using expired_inv [OF Suc.prems(1) ex] .
  have closed: "sc_closed s' \<Longrightarrow> sc_closed (secc_timeout_loop n now s')" for s' :: "'a secc"
    by (induction n arbitrary: s') (auto simp: secc_close_def push_event_def Let_def split: option.splits prod.splits)
  show ?case
  proof (cases u)
    case None
    then show ?thesis using ex expired_None_state [of "sc_timers s" now ts] by simp
  next
    case (Some v)
    have on: "v = T_Ongoing \<and> \<not> sc_closed s"
    proof (rule ccontr)
      assume "\<not> (v = T_Ongoing \<and> \<not> sc_closed s)"
      moreover have "sc_closed (secc_close (Close_Timeout v) (s\<lparr>sc_timers := ts\<rparr>))" by (simp add: secc_close_def push_event_def)
      ultimately show False using Suc.prems(2) ex Some closed by (auto simp: Let_def split: if_splits)
    qed
    have "deadline ts t = deadline (sc_timers s) t"
      using expired_Some [of "sc_timers s" now v ts] ex Some on Suc.prems(1,3) by (auto simp: ta.look_drop)
    then show ?thesis using Suc ex Some on ti by (simp add: Let_def)
  qed
qed simp

lemma secc_timeout_ongoing:
  assumes ti: "timers_inv (sc_timers s)" and opn: "\<not> sc_closed s"
    and on: "deadline (sc_timers s) T_Ongoing = Some d" "d \<le> now"
    and rest: "\<And>t e. t \<noteq> T_Ongoing \<Longrightarrow> deadline (sc_timers s) t = Some e \<Longrightarrow> now < e"
  shows "secc_timeout_loop (Suc (Suc n)) now s = s\<lparr>sc_timers := disarm (sc_timers s) T_Ongoing,
     sc_overdue := Some (case sc_flow s of Some f \<Rightarrow> flow_phase_name f | None \<Rightarrow> ''unknown''),
     sc_flow := map_option flow_failed (sc_flow s)\<rparr>"
proof -
  obtain u ts where ex: "expired (sc_timers s) now = (u, ts)" by fastforce
  have "u \<noteq> None" using expired_None [of "sc_timers s" now] ex on by (auto simp: not_less)
  then obtain v where v: "u = Some v" by blast
  obtain d' where d': "deadline (sc_timers s) v = Some d'" "d' \<le> now" "ts = disarm (sc_timers s) v"
    using expired_Some [of "sc_timers s" now v ts] ex v by auto
  then have "v = T_Ongoing" using rest [of v d'] by force
  with d' have ts: "v = T_Ongoing" "ts = disarm (sc_timers s) T_Ongoing" by simp_all
  have "fst (expired ts now) = None" using ts(2) ti rest by (auto simp: expired_None ta.look_drop split: if_splits)
  then obtain ts' where "expired ts now = (None, ts')" by (cases "expired ts now") auto
  with expired_None_state [OF this] have "expired ts now = (None, ts)" by simp
  then show ?thesis using ex v ts opn by (simp add: Let_def)
qed

section \<open>What an answer sets in motion\<close>

text \<open>The event puts the request \<open>m\<close> before the application.\<close>

definition asks :: "'x secc_event \<Rightarrow> 'x msg \<Rightarrow> bool" where
  "asks e m \<longleftrightarrow> e = Ev_Request m \<or> (\<exists>c r. e = Ev_Refused m c r) \<or> (\<exists>c p. e = Ev_Overdue m c p)"

definition flow_has_failed :: "'x secc \<Rightarrow> bool" where
  "flow_has_failed s \<longleftrightarrow> (\<exists>f. sc_flow s = Some f \<and> flow_is_failed f)"

text \<open>
  What pumping does to a station that waits for no answer: it queues output behind what is queued, a failed flow
  stays failed, and a request that waits afterwards is one of the new events.
\<close>

definition pumped :: "'x secc \<Rightarrow> 'x secc \<Rightarrow> bool" where
  "pumped s s' \<longleftrightarrow> prefix (c_tx (sc_conn s)) (c_tx (sc_conn s')) \<and> (flow_has_failed s \<longrightarrow> flow_has_failed s')
     \<and> (\<exists>evs. sc_events s' = sc_events s @ evs
        \<and> (\<forall>w. sc_outstanding s' = Some w \<longrightarrow> (\<exists>e\<in>set evs. \<exists>m. asks e m \<and> out_name w = message_name m)))"

lemma conn_send_tx: "conn_send cs m c = (r, c') \<Longrightarrow> prefix (c_tx c) (c_tx c')"
  by (auto simp: conn_send_def conn_send_frame_def split: sum.splits prod.splits if_splits)

lemma conn_next_message_tx: "conn_next_message cs c = (r, c') \<Longrightarrow> c_tx c' = c_tx c"
  by (induction cs c rule: conn_next_message.induct)
    (subst (asm) (2) conn_next_message.simps, auto simp: conn_next_frame_def conn_reset_input_def split: list.splits option.splits sum.splits prod.splits if_splits)

lemma secc_send_tx: "secc_send cs m s = (r, s') \<Longrightarrow> prefix (c_tx (sc_conn s)) (c_tx (sc_conn s'))"
  by (auto simp: secc_send_def split: sum.splits prod.splits dest: conn_send_tx)

lemma secc_tx_kept [simp]:
  "sc_conn (push_event e s) = sc_conn s" "sc_conn (secc_close why s) = sc_conn s"
  "sc_conn (secc_close_after_refusal s) = sc_conn s" "sc_conn (await_answer now m b s) = sc_conn s"
  "sc_conn (enter_phase now s) = sc_conn s" "sc_conn (secc_refuse now m q s) = sc_conn s"
  by (simp_all add: push_event_def secc_close_def secc_close_after_refusal_def await_answer_def enter_phase_def secc_refuse_def Let_def
      split: option.splits)

lemma secc_dispatch_tx: "secc_dispatch cs now m s = (r, s') \<Longrightarrow> prefix (c_tx (sc_conn s)) (c_tx (sc_conn s'))"
  by (auto simp: secc_dispatch_def secc_handshake_def Let_def conn_set_protocol_def dest!: secc_send_tx
      split: document.splits if_splits option.splits sum.splits prod.splits flow_error.splits)

lemma secc_dispatch_pumped:
  assumes d: "secc_dispatch cs now m s = (res, s')" and "\<not> sc_closed s" and "sc_outstanding s = None"
  shows "pumped s s' \<and> (\<forall>e. res = Inl e \<longrightarrow> \<not> sc_closed s' \<and> sc_outstanding s' = None)"
  using assms
proof (cases rule: secc_dispatchE)
  case (error e)
  then show ?thesis using secc_dispatch_tx [OF d] assms(2,3)
    by (auto simp: pumped_def same_session_def flow_has_failed_def)
next
  case (agreed p f)
  then show ?thesis using secc_dispatch_tx [OF d] by (auto simp: pumped_def flow_has_failed_def)
next
  case no_common
  then show ?thesis using secc_dispatch_tx [OF d] by (auto simp: pumped_def flow_has_failed_def)
next
  case (refused e)
  then show ?thesis using secc_dispatch_tx [OF d] by (auto simp: pumped_def flow_has_failed_def asks_def)
next
  case (request f f')
  then have "flow_has_failed s \<longrightarrow> flow_has_failed s'" using flow.failed_sticky [of f m] by (auto simp: flow_has_failed_def)
  then show ?thesis using request secc_dispatch_tx [OF d] by (auto simp: pumped_def asks_def)
qed

lemma pumped_trans: "pumped s s1 \<Longrightarrow> sc_outstanding s1 \<noteq> None \<longrightarrow> s2 = s1 \<Longrightarrow> pumped s1 s2 \<or> s2 = s1 \<Longrightarrow> pumped s s2"
  by (auto simp: pumped_def intro: prefix_order.trans) (blast intro: prefix_order.trans)+

lemma pumped_conn: "sc_outstanding s = None \<Longrightarrow> c_tx c = c_tx (sc_conn s) \<Longrightarrow> pumped s (s\<lparr>sc_conn := c\<rparr>)"
  "c_tx c = c_tx (sc_conn s) \<Longrightarrow> pumped (s\<lparr>sc_conn := c\<rparr>) s' \<Longrightarrow> pumped s s'"
  by (simp_all add: pumped_def flow_has_failed_def)

lemma secc_pump_pumped:
  "secc_pump cs now s = (res, s') \<Longrightarrow> sc_outstanding s = None \<Longrightarrow>
   pumped s s' \<and> (\<forall>e. res = Inl e \<longrightarrow> \<not> sc_closed s' \<and> sc_outstanding s' = None)"
proof (induction cs now s rule: secc_pump.induct)
  case (1 cs now s)
  show ?case
  proof (cases "sc_closed s")
    case True
    then show ?thesis using "1.prems" by (auto simp: secc_pump.simps [of cs now s] pumped_def)
  next
    case False
    with "1.prems"(2) have ready: "\<not> (sc_closed s \<or> sc_outstanding s \<noteq> None)" by simp
    obtain r c where nm: "conn_next_message cs (sc_conn s) = (r, c)" by fastforce
    note tx = conn_next_message_tx [OF nm]
    show ?thesis
    proof (cases "\<exists>m. r = Inr (Some m)")
      case True
      then obtain m where r: "r = Inr (Some m)" by blast
      obtain d s1 where disp: "secc_dispatch cs now m (s\<lparr>sc_conn := c\<rparr>) = (d, s1)" by fastforce
      have step: "pumped s s1" "\<forall>e. d = Inl e \<longrightarrow> \<not> sc_closed s1 \<and> sc_outstanding s1 = None"
        using secc_dispatch_pumped [OF disp] ready pumped_conn(2) [OF tx] by auto
      show ?thesis
      proof (cases d)
        case (Inl e)
        then show ?thesis using "1.prems" ready nm r disp step by (simp add: secc_pump.simps [of cs now s])
      next
        case (Inr u)
        then have next_pump: "secc_pump cs now s1 = (res, s')"
          using "1.prems" ready nm r disp by (simp add: secc_pump.simps [of cs now s])
        have IH: "sc_outstanding s1 = None \<Longrightarrow> pumped s1 s' \<and> (\<forall>e. res = Inl e \<longrightarrow> \<not> sc_closed s' \<and> sc_outstanding s' = None)"
          using "1.IH" [OF ready nm [symmetric, unfolded r] refl refl disp [symmetric, unfolded Inr] refl next_pump] .
        have "sc_outstanding s1 \<noteq> None \<Longrightarrow> res = Inr () \<and> s' = s1"
          using next_pump by (simp add: secc_pump.simps [of cs now s1])
        then show ?thesis using IH pumped_trans [OF step(1), of s'] by (cases "sc_outstanding s1") auto
      qed
    next
      case other: False
      then have "s' = s\<lparr>sc_conn := c\<rparr>" using "1.prems" ready nm
        by (auto simp: secc_pump.simps [of cs now s] split: sum.splits option.splits)
      then show ?thesis using pumped_conn(1) [OF "1.prems"(2) tx] ready by simp
    qed
  qed
qed

lemma fatal_pumped:
  assumes "secc_pump cs now s = (q, s1)" and "sc_outstanding s = None" and "fatal_on_error (q, s1) = (res, s')"
  shows "pumped s s' \<and> (\<forall>e. res = Inl e \<longrightarrow> sc_outstanding s' = None \<and> sc_closed s'
    \<and> (\<exists>evs. sc_events s' = sc_events s @ evs \<and> Ev_Closed Close_Fatal \<in> set evs))"
proof (cases q)
  case (Inr u)
  then show ?thesis using secc_pump_pumped [OF assms(1,2)] assms(3) by (auto simp: fatal_on_error_def)
next
  case (Inl e)
  note p = secc_pump_pumped [OF assms(1,2)]
  then have o: "\<not> sc_closed s1" using Inl by blast
  have s': "s' = secc_close_fatal s1" using Inl assms(3) by (simp add: fatal_on_error_def)
  obtain evs where "sc_events s1 = sc_events s @ evs" using p by (auto simp: pumped_def)
  then have ev: "sc_events s' = sc_events s @ evs @ [Ev_Closed Close_Fatal]"
    using o by (simp add: s' secc_close_fatal_def push_event_def)
  moreover have "sc_outstanding s' = None" "sc_closed s'" "sc_flow s' = sc_flow s1" "c_tx (sc_conn s') = c_tx (sc_conn s1)"
    using o by (simp_all add: s' secc_close_fatal_def push_event_def conn_reset_input_def)
  ultimately show ?thesis using p by (auto simp: pumped_def flow_has_failed_def)
qed

lemma after_answer_effect:
  "sc_conn (after_answer now s) = sc_conn s" "sc_flow (after_answer now s) = sc_flow s"
  "sc_outstanding (after_answer now s) = sc_outstanding s" "\<exists>evs. sc_events (after_answer now s) = sc_events s @ evs"
  "sc_flow s = Some f \<Longrightarrow> flow_is_finished f \<Longrightarrow> sc_closed (after_answer now s)"
  by (auto simp: after_answer_def secc_close_def push_event_def split: option.splits)

text \<open>The checks of \<open>respond\<close>, and the two ways it goes on.\<close>

definition answerable :: "'x document codecs \<Rightarrow> 'x msg \<Rightarrow> 'x secc \<Rightarrow> bool" where
  "answerable cs r s \<longleftrightarrow>
     (let (stamped, r') = set_session_id (cfg_session_id (sc_config s)) r in
      \<not> is_request r \<and> (\<exists>w. sc_outstanding s = Some w \<and> (out_refused w \<or> answers r (out_name w)))
      \<and> \<not> (stamped \<and> session_id_is_none (cfg_session_id (sc_config s))) \<and> fst (conn_send cs r' (sc_conn s)) = Inr ())"

lemma secc_answer_cases:
  assumes "set_session_id (cfg_session_id (sc_config s)) r = (stamped, r')"
  shows "if answerable cs r s
    then \<exists>s1. secc_answer cs r s = (Inr (), s1) \<and> sc_conn s1 = snd (conn_send cs r' (sc_conn s)) \<and> sc_outstanding s1 = None
      \<and> sc_events s1 = sc_events s \<and> sc_closed s1 = sc_closed s
      \<and> sc_flow s1 = (if message_outcome r' = Some Outcome_Failed then map_option flow_failed (sc_flow s) else sc_flow s)
    else \<exists>e s1. secc_answer cs r s = (Inl e, s1) \<and> sc_outstanding s1 = sc_outstanding s \<and> sc_events s1 = sc_events s
      \<and> sc_closed s1 = sc_closed s \<and> sc_conn s1 = sc_conn s"
proof -
  obtain q c where snd: "conn_send cs r' (sc_conn s) = (q, c)" by fastforce
  moreover have "q \<noteq> Inr () \<Longrightarrow> c = sc_conn s"
    using snd by (auto simp: conn_send_def conn_send_frame_def split: sum.splits prod.splits if_splits)
  ultimately show ?thesis using assms
    by (cases q) (auto simp: answerable_def secc_answer_def secc_send_def is_failure_def Let_def split: option.splits if_splits)
qed

section \<open>Properties\<close>

text \<open>
  C1. DC safety of a charging station: whatever bytes a peer sends and however the application and the clock
  behave, when the sequencer of an open or closed session with DC charging stands where power flows, the station has
  surfaced an isolation test, a pre-charge and a start of power delivery, in this order; in ISO 15118-20 since the
  DC service was selected. ISO 15118-2 has one exception, and the theorem says that it is the only one: the session
  asked for AC, started the power delivery, renegotiated, asked for DC and started the power delivery
  (\<open>Iso2_Session.iso2_dc_after_ac\<close> shows that this happens). Nothing is said of a session that charges with AC.
\<close>

theorem station_dc_safety:
  assumes "secc_run cs config log s" and "cfg_max_payload_len config + HEADER_LEN \<le> usize_max" and "sc_flow s = Some f"
  shows "case f of
     Flow_Iso2 q \<Rightarrow> s2_transfer q = Some Tr_Dc \<and> s2_phase q \<in> iso2_powered_phases \<longrightarrow>
       subseq [R2_CableCheck, R2_PreCharge, R2_PowerDelivery CP2_Start] (requests2 log)
       \<or> (\<exists>m n. transfer_of_mode m = Tr_Ac \<and> transfer_of_mode n = Tr_Dc
           \<and> subseq [R2_ChargeParameterDiscovery m, R2_PowerDelivery CP2_Start, R2_PowerDelivery CP2_Renegotiate,
               R2_ChargeParameterDiscovery n, R2_PowerDelivery CP2_Start] (requests2 log))
   | Flow_Iso20 q \<Rightarrow> iso20_dc q \<and> s20_phase q \<in> iso20_powered_phases \<longrightarrow>
       subseq (map Accepted [R20_CableCheck, R20_PreCharge, R20_PowerDelivery CP20_Start]) (since_selection (events20 log))"
proof -
  have "flow_inv log s" using secc_run_inv [OF assms(1,2)] by (simp add: secc_inv_def)
  then have "dc_isolated (requests2 log) (events20 log) f" using assms(3) flow_ran_dc by (auto simp: flow_inv_def)
  then show ?thesis by (simp only: dc_isolated_def)
qed

theorem station_dc_safety_witness:
  "\<exists>log s. secc_run table_codecs sample_config log s \<and> requests2 log = sample_dc
     \<and> subseq [R2_CableCheck, R2_PreCharge, R2_PowerDelivery CP2_Start] (requests2 log)"
proof -
  obtain p :: "nat talk" where r: "secc_run table_codecs sample_config (tk_slog p) (tk_station p)"
      "requests2 (tk_slog p) = sample_dc" "sc_flow (tk_station p) = Some (Flow_Iso2 sample_dc_end)" "\<not> sc_closed (tk_station p)"
    by (rule sample_session_end)
  from station_dc_safety [OF r(1) sample_lengths(1) r(3)] r show ?thesis
    by (intro exI [of _ "tk_slog p"] exI [of _ "tk_station p"])
      (auto simp: sample_dc_def sample_dc_end_def iso2_powered_phases_def)
qed

lemma log_event20_resumed: "log_event20 x = Some (Resumed t) \<Longrightarrow> x = Picked_Up t"
  by (cases x rule: log_event20.cases) auto

text \<open>
  C9. Authorization of a charging station: when an ISO 15118-2 session stands at the charge parameters or behind
  them, the station has surfaced \<open>AuthorizationReq\<close>, and a session paid by contract runs over TLS and has had its
  \<open>PaymentDetailsReq\<close>; an ISO 15118-20 session has had its \<open>AuthorizationReq\<close> or was resumed by the application.
\<close>

theorem station_authorization:
  assumes "secc_run cs config log s" and "cfg_max_payload_len config + HEADER_LEN \<le> usize_max" and "sc_flow s = Some f"
  shows "case f of
     Flow_Iso2 q \<Rightarrow> s2_phase q \<in> iso2_authorized_phases \<longrightarrow> R2_Authorization \<in> set (requests2 log)
       \<and> (s2_payment q = Some Contract \<longrightarrow> cfg_security config = Tls \<and> R2_PaymentDetails \<in> set (requests2 log))
   | Flow_Iso20 q \<Rightarrow> s20_phase q \<in> iso20_authorized_phases \<longrightarrow>
       Accepted R20_Authorization \<in> set (events20 log) \<or> (\<exists>t. Picked_Up t \<in> set log)"
proof -
  have inv: "flow_inv log s" "cfg_security (sc_config s) = cfg_security config"
    using secc_run_inv [OF assms(1,2)] by (simp_all add: secc_inv_def)
  have picked: "Picked_Up t \<in> set log" if "Resumed t \<in> set (events20 log)" for t
    using that by (induction log) (auto dest: log_event20_resumed split: option.splits)
  have "authorized_by (cfg_security config) (requests2 log) (events20 log) f"
    using inv assms(3) flow_ran_authorized by (auto simp: flow_inv_def)
  then show ?thesis using picked by (auto simp: authorized_by_def split: flow.splits)
qed

theorem station_authorization_witness:
  "\<exists>log s. secc_run table_codecs sample_config log s \<and> requests2 log = sample_dc \<and> R2_Authorization \<in> set (requests2 log)"
proof -
  obtain p :: "nat talk" where r: "secc_run table_codecs sample_config (tk_slog p) (tk_station p)"
      "requests2 (tk_slog p) = sample_dc" "sc_flow (tk_station p) = Some (Flow_Iso2 sample_dc_end)" "\<not> sc_closed (tk_station p)"
    by (rule sample_session_end)
  have "R2_Authorization \<in> set (requests2 (tk_slog p))"
    using station_authorization [OF r(1) sample_lengths(1) r(3)] by (simp add: sample_dc_end_def iso2_authorized_phases_def)
  then show ?thesis using r by (intro exI [of _ "tk_slog p"] exI [of _ "tk_station p"]) simp
qed

text \<open>
  C3. One request at a time: in every run of a station, requests surfaced and answers given alternate. No
  request is surfaced, refused or overdue while another waits for its answer; every answer finds a request
  waiting, and is the response of its exchange unless the request was refused; and what waits is what the
  station reports as outstanding.
\<close>

theorem station_half_duplex:
  assumes "secc_run cs config log s" and "cfg_max_payload_len config + HEADER_LEN \<le> usize_max"
  shows "turns None log = Some (waiting s)"
  using secc_run_inv [OF assms] by (simp add: secc_inv_def)

theorem station_half_duplex_witness:
  "\<exists>log s. secc_run table_codecs sample_config log s \<and> requests2 log = sample_dc \<and> turns None log = Some (waiting s)"
proof -
  obtain p :: "nat talk" where r: "secc_run table_codecs sample_config (tk_slog p) (tk_station p)"
      "requests2 (tk_slog p) = sample_dc" "sc_flow (tk_station p) = Some (Flow_Iso2 sample_dc_end)" "\<not> sc_closed (tk_station p)"
    by (rule sample_session_end)
  with station_half_duplex [OF r(1) sample_lengths(1)] show ?thesis by blast
qed

text \<open>
  C15. A session of a station closes once: an open session has surfaced no \<open>Closed\<close> event; a closed one has
  surfaced exactly one and nothing behind it, whatever is called afterwards. A closed session has no timer armed but
  the setup timer, which \<open>opened\<close> arms even after the end, and when that one runs out \<open>handle_timeout\<close> surfaces
  nothing.
\<close>

theorem station_closes_once:
  assumes "secc_run cs config log s" and "cfg_max_payload_len config + HEADER_LEN \<le> usize_max"
  shows "if sc_closed s
    then armed (sc_timers s) \<subseteq> {T_CommunicationSetup} \<and> sc_events (secc_handle_timeout now s) = sc_events s
      \<and> (\<exists>pre why post. log = pre @ Surfaced (Ev_Closed why) # post
      \<and> \<not> list_ex is_close pre \<and> \<not> list_ex is_surfaced post)
    else \<not> list_ex is_close log"
proof -
  have "sc_events (secc_timeout_loop n now s) = sc_events s" if "sc_closed s" for n
    using that by (induction n arbitrary: s) (auto simp: secc_close_def Let_def split: option.splits prod.splits)
  then show ?thesis using secc_run_inv [OF assms]
    by (cases "sc_closed s")
      (auto simp: secc_handle_timeout_def secc_inv_def close_inv_def closes_once_def elim!: is_close.elims)
qed

theorem station_closes_once_witness:
  "\<exists>log s. secc_run table_codecs sample_config log s \<and> requests2 log = sample_dc \<and> \<not> list_ex is_close log"
proof -
  obtain p :: "nat talk" where r: "secc_run table_codecs sample_config (tk_slog p) (tk_station p)"
      "requests2 (tk_slog p) = sample_dc" "sc_flow (tk_station p) = Some (Flow_Iso2 sample_dc_end)" "\<not> sc_closed (tk_station p)"
    by (rule sample_session_end)
  with station_closes_once [OF r(1) sample_lengths(1)] show ?thesis
    by (intro exI [of _ "tk_slog p"] exI [of _ "tk_station p"]) simp
qed

text \<open>
  C12. The session identifier is checked: once a session is set up, every request that input makes a station
  surface carries the identifier the station assigned, and that identifier is not the one of all zeros.
\<close>

theorem station_checks_session_id:
  assumes "secc_handle_input cs now data s = (res, s')" and "sc_established s" and "newly s s' (Ev_Request m)"
  shows "message_session_id m = Some (cfg_session_id (sc_config s)) \<and> \<not> session_id_is_none (cfg_session_id (sc_config s))"
  using secc_handle_input_checked [OF assms(1)] assms(2,3)
  by (auto simp: adds_checked_def newly_def carries_the_session_id_def Let_def)

theorem station_checks_session_id_witness:
  "\<exists>s data m. newly s (snd (secc_handle_input table_codecs 0 data s)) (Ev_Request m)
     \<and> message_session_id m = Some (cfg_session_id (sc_config s))"
proof -
  obtain p q :: "nat talk" and data where e: "sc_established (tk_station p)"
    and q: "tk_station q = snd (secc_handle_input table_codecs 0 data (tk_station p))"
      "surfaced (tk_station p) (tk_station q) = [Surfaced (Ev_Request (v2g (ve_session_id (tk_vehicle p)) 8))]"
    by (rule sample_session_last)
  let ?m = "v2g (ve_session_id (tk_vehicle p)) 8"
  have m: "newly (tk_station p) (tk_station q) (Ev_Request ?m)" using q(2) by (auto simp: newly_def surfaced_def)
  have "secc_handle_input table_codecs 0 data (tk_station p) = (fst (secc_handle_input table_codecs 0 data (tk_station p)), tk_station q)"
    using q(1) by simp
  from station_checks_session_id [OF this e m] m q(1) show ?thesis by metis
qed

text \<open>
  C14. What \<open>respond\<close> does. It takes an answer only for the request that waits, only a response of its exchange
  unless the request was refused, only when the identifier it stamps is not the one of all zeros, and only when the
  stamped answer can be sent; otherwise it returns an error, and what waits, the queue of events, the connection and
  the session's being open are as before. An answer it takes is queued, stamped, in front of anything else it may
  send; the request no longer waits, for a request that waits then was surfaced behind the answer; an answer that
  reports a failure leaves the flow failed, so that it accepts nothing but the end of the session, and an answer in a
  finished flow closes the session. If it returns an error all the same, over what was framed behind the request,
  the session is closed, has surfaced so, and nothing waits.
\<close>

theorem station_answer:
  assumes "secc_respond cs now r s = (res, s')" and "set_session_id (cfg_session_id (sc_config s)) r = (stamped, r')"
  shows "if \<not> is_request r \<and> (\<exists>w. sc_outstanding s = Some w \<and> (out_refused w \<or> answers r (out_name w)))
      \<and> \<not> (stamped \<and> session_id_is_none (cfg_session_id (sc_config s))) \<and> fst (conn_send cs r' (sc_conn s)) = Inr ()
    then prefix (c_tx (snd (conn_send cs r' (sc_conn s)))) (c_tx (sc_conn s'))
      \<and> (message_outcome r' = Some Outcome_Failed \<and> sc_flow s \<noteq> None \<longrightarrow> (\<exists>f. sc_flow s' = Some f \<and> flow_is_failed f))
      \<and> ((\<exists>f. sc_flow s = Some f \<and> flow_is_finished f) \<longrightarrow> sc_closed s')
      \<and> (\<forall>w. sc_outstanding s' = Some w \<longrightarrow> (\<exists>e m. newly s s' e \<and> asks e m \<and> out_name w = message_name m))
      \<and> (\<forall>e. res = Inl e \<longrightarrow> sc_outstanding s' = None \<and> sc_closed s' \<and> newly s s' (Ev_Closed Close_Fatal))
    else (\<exists>e. res = Inl e) \<and> sc_outstanding s' = sc_outstanding s \<and> sc_events s' = sc_events s
      \<and> sc_closed s' = sc_closed s \<and> sc_conn s' = sc_conn s"
proof (cases "answerable cs r s")
  case False
  moreover from this secc_answer_cases [OF assms(2), of cs] obtain e s1 where "secc_answer cs r s = (Inl e, s1)"
    "sc_outstanding s1 = sc_outstanding s" "sc_events s1 = sc_events s" "sc_closed s1 = sc_closed s" "sc_conn s1 = sc_conn s" by auto
  ultimately show ?thesis using assms by (auto simp: answerable_def secc_respond_def)
next
  case True
  with secc_answer_cases [OF assms(2), of cs] obtain s1 where s1: "secc_answer cs r s = (Inr (), s1)"
    "sc_conn s1 = snd (conn_send cs r' (sc_conn s))" "sc_outstanding s1 = None" "sc_events s1 = sc_events s"
    "sc_flow s1 = (if message_outcome r' = Some Outcome_Failed then map_option flow_failed (sc_flow s) else sc_flow s)" by auto
  let ?a = "after_answer now s1"
  obtain q s2 where p: "secc_pump cs now ?a = (q, s2)" by fastforce
  with assms(1) s1(1) have f: "fatal_on_error (q, s2) = (res, s')" by (simp add: secc_respond_def)
  note pu = fatal_pumped [OF p _ f, unfolded after_answer_effect s1(3), OF refl]
  obtain evs where evs: "sc_events ?a = sc_events s @ evs" using after_answer_effect(4) [of now s1] s1(4) by auto
  have fin: "sc_closed s'" if "sc_flow s = Some g" "flow_is_finished g" for g
  proof -
    have "flow_is_finished (flow_failed g)" using that(2)
      by (cases g) (simp_all add: iso2_fail_def iso20_fail_def iso2_is_finished_def iso20_is_finished_def)
    then have "sc_closed ?a" using that s1(5) after_answer_effect(5) by (simp split: if_splits)
    then show ?thesis using p f by (auto simp: secc_pump.simps [of cs now ?a] fatal_on_error_def)
  qed
  have fail: "\<exists>g. sc_flow s' = Some g \<and> flow_is_failed g" if "message_outcome r' = Some Outcome_Failed" "sc_flow s \<noteq> None"
  proof -
    have "flow_has_failed ?a" using that s1(5) flow.fail_failed by (auto simp: flow_has_failed_def after_answer_effect)
    then show ?thesis using pu by (simp add: pumped_def flow_has_failed_def)
  qed
  have new: "newly s s' e" if "sc_events s' = sc_events ?a @ evs'" "e \<in> set evs'" for e evs'
    using that evs by (simp add: newly_def)
  have tx: "prefix (c_tx (snd (conn_send cs r' (sc_conn s)))) (c_tx (sc_conn s'))"
    using pu by (simp add: pumped_def after_answer_effect s1(2))
  have wait: "\<exists>e m. newly s s' e \<and> asks e m \<and> out_name w = message_name m" if "sc_outstanding s' = Some w" for w
    using pu that new by (auto simp: pumped_def)
  have err: "sc_outstanding s' = None \<and> sc_closed s' \<and> newly s s' (Ev_Closed Close_Fatal)" if "res = Inl e" for e
    using pu that new by blast
  show ?thesis using True assms(2) tx fail fin wait err by (auto simp: answerable_def)
qed

theorem station_answer_witness:
  "\<exists>(s :: nat secc) res s' w r'. sc_outstanding s = Some w \<and> secc_respond table_codecs 0 (v2g [] 17) s = (res, s')
     \<and> prefix (c_tx (snd (conn_send table_codecs r' (sc_conn s)))) (c_tx (sc_conn s'))"
proof -
  obtain p q :: "nat talk" and data where "talk_answer table_codecs (v2g [] 17) q \<noteq> None" by (rule sample_session_last)
  then obtain s1 where a: "secc_answer table_codecs (v2g [] 17) (tk_station q) = (Inr (), s1)"
    by (auto simp: talk_answer_def split: sum.splits prod.splits)
  obtain res s' where r: "secc_respond table_codecs 0 (v2g [] 17) (tk_station q) = (res, s')" by fastforce
  obtain st r' where set: "set_session_id (cfg_session_id (sc_config (tk_station q))) (v2g [] 17) = (st, r')" by fastforce
  have ok: "answerable table_codecs (v2g [] 17) (tk_station q)"
    using secc_answer_cases [OF set, of table_codecs] a by (auto split: if_splits)
  then obtain w where w: "sc_outstanding (tk_station q) = Some w" by (auto simp: answerable_def)
  have "prefix (c_tx (snd (conn_send table_codecs r' (sc_conn (tk_station q))))) (c_tx (sc_conn s'))"
    using station_answer [OF r set] ok set by (simp add: answerable_def split: if_splits)
  with w r show ?thesis by blast
qed

text \<open>
  C16. Timeouts of a station: after \<open>handle_timeout\<close> no timer is due. A deadline that has passed closes the
  session, unless it is the one of a loop: when only that one has passed the session stays open, its flow fails,
  and the next request will be reported as overdue.
\<close>

theorem station_timeout:
  assumes "secc_run cs config log s" and "cfg_max_payload_len config + HEADER_LEN \<le> usize_max"
    and "s' = secc_handle_timeout now s"
  shows "(\<forall>t d. deadline (sc_timers s') t = Some d \<longrightarrow> now < d)
    \<and> ((\<exists>t d. t \<noteq> T_Ongoing \<and> deadline (sc_timers s) t = Some d \<and> d \<le> now) \<longrightarrow> sc_closed s')
    \<and> ((\<exists>d. deadline (sc_timers s) T_Ongoing = Some d \<and> d \<le> now)
        \<and> (\<forall>t d. t \<noteq> T_Ongoing \<and> deadline (sc_timers s) t = Some d \<longrightarrow> now < d)
       \<longrightarrow> \<not> sc_closed s' \<and> sc_overdue s' \<noteq> None \<and> sc_flow s' = map_option flow_failed (sc_flow s))"
proof (intro conjI impI)
  have inv: "timers_inv (sc_timers s)" "close_inv log s" using secc_run_inv [OF assms(1,2)] by (simp_all add: secc_inv_def)
  have "card (armed (sc_timers s)) \<le> card (set Timer_ALL)" by (rule card_mono) (simp_all only: set_Timer_ALL subset_UNIV finite_timers)
  also have "\<dots> \<le> TIMER_COUNT" using card_length [of Timer_ALL] by (simp add: Timer_ALL_def TIMER_COUNT_def)
  finally have now: "\<forall>t d. deadline (sc_timers s') t = Some d \<longrightarrow> now < d"
    using secc_timeout_done [OF inv(1), of TIMER_COUNT now] assms(3) by (simp add: secc_handle_timeout_def expired_None)
  then show "\<forall>t d. deadline (sc_timers s') t = Some d \<longrightarrow> now < d" .
  show "sc_closed s'" if due: "\<exists>t d. t \<noteq> T_Ongoing \<and> deadline (sc_timers s) t = Some d \<and> d \<le> now"
  proof (rule ccontr)
    assume "\<not> sc_closed s'"
    then have "t \<noteq> T_Ongoing \<Longrightarrow> deadline (sc_timers s') t = deadline (sc_timers s) t" for t
      using secc_timeout_keeps [OF inv(1)] assms(3) by (simp add: secc_handle_timeout_def)
    with now due show False by (metis not_less)
  qed
  assume on: "(\<exists>d. deadline (sc_timers s) T_Ongoing = Some d \<and> d \<le> now)
        \<and> (\<forall>t d. t \<noteq> T_Ongoing \<and> deadline (sc_timers s) t = Some d \<longrightarrow> now < d)"
  then have "T_Ongoing \<in> armed (sc_timers s)" by (auto simp: armed_def is_armed_def)
  then have opn: "\<not> sc_closed s" using inv(2) by (auto simp: close_inv_def)
  have "TIMER_COUNT = Suc (Suc (TIMER_COUNT - 2))" by (simp add: TIMER_COUNT_def)
  with secc_timeout_ongoing [OF inv(1) opn, of _ now "TIMER_COUNT - 2"] on assms(3)
  obtain p ts where "s' = s\<lparr>sc_timers := ts, sc_overdue := Some p, sc_flow := map_option flow_failed (sc_flow s)\<rparr>"
    by (metis secc_handle_timeout_def)
  then show "\<not> sc_closed s'" "sc_overdue s' \<noteq> None" "sc_flow s' = map_option flow_failed (sc_flow s)" using opn by simp_all
qed

theorem station_timeout_witness:
  "sc_closed (secc_handle_timeout 100000 (secc_opened 0 (secc_new sample_config :: nat secc)))"
proof -
  let ?s = "secc_opened 0 (secc_new sample_config) :: nat secc"
  have "secc_run table_codecs sample_config [] ?s" by (intro secc_opens secc_start)
  from station_timeout [OF this sample_lengths(1) refl, of 100000]
  have "(\<exists>t d. t \<noteq> T_Ongoing \<and> deadline (sc_timers ?s) t = Some d \<and> d \<le> 100000) \<longrightarrow> sc_closed (secc_handle_timeout 100000 ?s)"
    by blast
  moreover have "deadline (sc_timers ?s) T_CommunicationSetup = Some 18000" by code_simp
  moreover have "(18000 :: instant) \<le> 100000" "T_CommunicationSetup \<noteq> T_Ongoing" by simp_all
  ultimately show ?thesis by blast
qed

end
