(* ===== verification/Evcc_Properties.thy ===== *)
theory Evcc_Properties
  imports Session_Pair
begin

text \<open>
  The properties of a vehicle, over every run of theory \<open>Evcc_Safety\<close>. The DC session of theory \<open>Session_Pair\<close> is
  their witness.
\<close>

lemma sample_vlengths: "vcfg_max_payload_len sample_vconfig + HEADER_LEN \<le> usize_max"
  using sample_lengths(1,2) by simp

text \<open>
  C8. DC safety of a vehicle: whatever a station answers and however the application behaves, when the sequencer
  of a vehicle that charges with DC stands where power flows, the vehicle has asked for an isolation test, a
  pre-charge and the start of power delivery, in this order; in ISO 15118-20 since the DC service was selected.
  ISO 15118-2 has one exception and no other: the vehicle asked for AC, started the power delivery, renegotiated,
  asked for DC and started the power delivery. Nothing is said of a vehicle that charges with AC.
\<close>

theorem vehicle_dc_safety:
  assumes "evcc_run cs config log v" and "vcfg_max_payload_len config + HEADER_LEN \<le> usize_max" and "ve_flow v = Some f"
  shows "case f of
     Flow_Iso2 q \<Rightarrow> s2_transfer q = Some Tr_Dc \<and> s2_phase q \<in> iso2_powered_phases \<longrightarrow>
       subseq [R2_CableCheck, R2_PreCharge, R2_PowerDelivery CP2_Start] (asked2 log)
       \<or> (\<exists>m n. transfer_of_mode m = Tr_Ac \<and> transfer_of_mode n = Tr_Dc
           \<and> subseq [R2_ChargeParameterDiscovery m, R2_PowerDelivery CP2_Start, R2_PowerDelivery CP2_Renegotiate,
               R2_ChargeParameterDiscovery n, R2_PowerDelivery CP2_Start] (asked2 log))
   | Flow_Iso20 q \<Rightarrow> iso20_dc q \<and> s20_phase q \<in> iso20_powered_phases \<longrightarrow>
       subseq (map Accepted [R20_CableCheck, R20_PreCharge, R20_PowerDelivery CP20_Start]) (since_selection (asked20 log))"
proof -
  have "asked_inv log v" using evcc_run_inv [OF assms(1,2)] by (simp add: evcc_inv_def evcc_base_def)
  then have "dc_isolated (asked2 log) (asked20 log) f" using assms(3) flow_ran_dc by (auto simp: asked_inv_def)
  then show ?thesis by (simp only: dc_isolated_def)
qed

theorem vehicle_dc_safety_witness:
  "\<exists>log v. evcc_run table_codecs sample_vconfig log v \<and> asked2 log = sample_dc
     \<and> subseq [R2_CableCheck, R2_PreCharge, R2_PowerDelivery CP2_Start] (asked2 log)"
proof -
  obtain p :: "nat talk" where r: "evcc_run table_codecs sample_vconfig (tk_vlog p) (tk_vehicle p)" "asked2 (tk_vlog p) = sample_dc"
      "ve_flow (tk_vehicle p) = Some (Flow_Iso2 sample_dc_end)" by (rule sample_session_end)
  from vehicle_dc_safety [OF r(1) sample_vlengths r(3)] r show ?thesis
    by (intro exI [of _ "tk_vlog p"] exI [of _ "tk_vehicle p"])
      (auto simp: sample_dc_def sample_dc_end_def iso2_powered_phases_def)
qed

text \<open>
  A vehicle asks one question at a time: in every run its questions, the handshake included, and the answers
  it reports alternate. No question goes out while another waits, a response is reported only while a question
  waits and only if it is the response of that exchange, and what waits is what the vehicle holds outstanding.
\<close>

lemma vehicle_half_duplex:
  assumes "evcc_run cs config log v" and "vcfg_max_payload_len config + HEADER_LEN \<le> usize_max"
  shows "vturns None log = Some (ve_outstanding v)"
  using evcc_run_inv [OF assms] by (simp add: evcc_inv_def)

lemma vehicle_half_duplex_witness:
  "\<exists>log v. evcc_run table_codecs sample_vconfig log v \<and> asked2 log = sample_dc \<and> vturns None log = Some (ve_outstanding v)"
proof -
  obtain p :: "nat talk" where r: "evcc_run table_codecs sample_vconfig (tk_vlog p) (tk_vehicle p)" "asked2 (tk_vlog p) = sample_dc"
    by (rule sample_session_end)
  with vehicle_half_duplex [OF r(1) sample_vlengths] show ?thesis by blast
qed

text \<open>
  C13. The session has one identity for a vehicle: all the responses it reports that carry an identifier carry the
  same one, the one the vehicle holds and stamps, and it is not the one of all zeros.
\<close>

theorem vehicle_session_id:
  assumes "evcc_run cs config log v" and "vcfg_max_payload_len config + HEADER_LEN \<le> usize_max"
    and "Got (VEv_Response m) \<in> set log" and "message_session_id m = Some i"
  shows "i = ve_session_id v \<and> \<not> session_id_is_none i"
  using evcc_run_inv [OF assms(1,2)] assms(3,4) by (auto simp: evcc_parts)

theorem vehicle_session_id_witness:
  "\<exists>log v. evcc_run table_codecs sample_vconfig log v \<and> Got (VEv_Response (v2g [0, 0, 0, 0, 0, 0, 0, 7] 9)) \<in> set log
     \<and> ve_session_id v = [0, 0, 0, 0, 0, 0, 0, 7]"
proof -
  obtain p :: "nat talk" where p: "talk_run table_codecs sample_vconfig sample_config p" "talk_in_step (Flow_Iso2 (iso2_new Tls)) p"
      "sc_config (tk_station p) = sample_config" "c_max_payload_len (ve_conn (tk_vehicle p)) = cfg_max_payload_len sample_config"
    by (rule sample_opening)
  have acc: "iso2_accept (iso2_new Tls) (sample_dc ! 0) = (Inr P2_SessionSetup, (iso2_new Tls)\<lparr>s2_phase := P2_SessionSetup\<rparr>)"
    by code_simp
  obtain q where q: "Option.bind (talk_ask table_codecs (v2g [] 0) p) (talk_answer table_codecs (v2g [] (0 + 9))) = Some q"
      "Got (VEv_Response (v2g (cfg_session_id sample_config) (0 + 9))) \<in> set (tk_vlog q)"
    by (rule sample_exchange [OF p(2,3,4) _ _ acc]) (simp_all add: iso2_is_finished_def iso2_is_paused_def)
  then have run: "evcc_run table_codecs sample_vconfig (tk_vlog q) (tk_vehicle q)"
    using talk_answer_run talk_ask_run [OF p(1)] by (fastforce simp: bind_eq_Some_conv talk_run_def)
  have id: "message_session_id (v2g (cfg_session_id sample_config) (0 + 9)) = Some (cfg_session_id sample_config)"
    using sample_lengths(3) by (simp add: v2g_def message_session_id_def ok_id_def session_id_from_slice_def)
  have "cfg_session_id sample_config = [0, 0, 0, 0, 0, 0, 0, 7]" by (simp add: sample_config_def)
  with vehicle_session_id [OF run sample_vlengths q(2) id] run q(2) show ?thesis by auto
qed

text \<open>
  A vehicle ends once and for all: an open session has reported no \<open>Closed\<close> event; behind the one it reports
  nothing is asked, offered or reported any more, and no timer is armed.
\<close>

lemma vehicle_closes_once:
  assumes "evcc_run cs config log v" and "vcfg_max_payload_len config + HEADER_LEN \<le> usize_max"
  shows "if ve_closed v
    then armed (ve_timers v) = {} \<and> (\<exists>pre why post. log = pre @ Got (VEv_Closed why) # post
      \<and> \<not> list_ex is_vclose pre \<and> \<not> list_ex is_said post)
    else \<not> list_ex is_vclose log"
  using evcc_run_inv [OF assms]
  by (cases "ve_closed v") (auto simp: evcc_parts closes_once_def elim!: is_vclose.elims)

lemma vehicle_closes_once_witness:
  "\<exists>log v. evcc_run table_codecs sample_vconfig log v \<and> asked2 log = sample_dc \<and> \<not> list_ex is_vclose log"
proof -
  obtain p :: "nat talk" where r: "evcc_run table_codecs sample_vconfig (tk_vlog p) (tk_vehicle p)" "asked2 (tk_vlog p) = sample_dc"
      "\<not> ve_closed (tk_vehicle p)" by (rule sample_session_end)
  with vehicle_closes_once [OF r(1) sample_vlengths] show ?thesis
    by (intro exI [of _ "tk_vlog p"] exI [of _ "tk_vehicle p"]) simp
qed

end
